(* ===== verification/Prelude.thy ===== *)
theory Prelude
  imports Main
begin

text \<open>
  What every component shares: the outcome of a C++ call (a value, a thrown exception, an
  abort, or a recursion cut off by the fuel of the model), computations as explicit state
  passing, the scope guard, the calculus of relations that computations keep, and the
  order on computations that more fuel only completes.
\<close>

named_theorems keeps_intros "rules that a computation keeps a relation between states"
named_theorems refines_intros "rules that a computation is completed by another one"

section \<open>Outcomes and computations\<close>

text \<open>
  \<open>Ret x\<close> is a normal return, \<open>Exc e\<close> a thrown exception, \<open>Abort\<close> the end of the process
  (\<open>cci_abort\<close>, a failed \<open>sc_assert\<close>, or an access the C++ program may not make) and
  \<open>NoFuel\<close> means that the fuel of the model ran out: it is not an outcome of the program.
\<close>

datatype ('e, 'a) outcome = Ret 'a | Exc 'e | Abort | NoFuel

type_synonym ('s, 'e, 'a) comp = "'s \<Rightarrow> ('e, 'a) outcome \<times> 's"

definition retM :: "'a \<Rightarrow> ('s, 'e, 'a) comp" where
  "retM x s = (Ret x, s)"

definition throwM :: "'e \<Rightarrow> ('s, 'e, 'a) comp" where
  "throwM e s = (Exc e, s)"

definition abortM :: "('s, 'e, 'a) comp" where
  "abortM s = (Abort, s)"

definition nofuelM :: "('s, 'e, 'a) comp" where
  "nofuelM s = (NoFuel, s)"

definition getM :: "('s \<Rightarrow> 'a) \<Rightarrow> ('s, 'e, 'a) comp" where
  "getM f s = (Ret (f s), s)"

definition modM :: "('s \<Rightarrow> 's) \<Rightarrow> ('s, 'e, unit) comp" where
  "modM f s = (Ret (), f s)"

definition bindM :: "('s, 'e, 'a) comp \<Rightarrow> ('a \<Rightarrow> ('s, 'e, 'b) comp) \<Rightarrow> ('s, 'e, 'b) comp" where
  "bindM m f s =
     (case m s of
        (Ret x, t) \<Rightarrow> f x t
      | (Exc e, t) \<Rightarrow> (Exc e, t)
      | (Abort, t) \<Rightarrow> (Abort, t)
      | (NoFuel, t) \<Rightarrow> (NoFuel, t))"

abbreviation thenM :: "('s, 'e, 'a) comp \<Rightarrow> ('s, 'e, 'b) comp \<Rightarrow> ('s, 'e, 'b) comp" where
  "thenM m k \<equiv> bindM m (\<lambda>_. k)"

abbreviation skipM :: "('s, 'e, unit) comp" where
  "skipM \<equiv> retM ()"

text \<open>\<open>assertM\<close> is \<open>sc_assert\<close>: a false condition ends the process.\<close>

definition assertM :: "bool \<Rightarrow> ('s, 'e, unit) comp" where
  "assertM b = (if b then retM () else abortM)"

text \<open>
  \<open>guardM f m g\<close> runs \<open>m\<close> between a constructor \<open>f\<close> and a destructor \<open>g\<close> of a local object:
  the destructor runs however \<open>m\<close> is left.
\<close>

definition guardM :: "('s \<Rightarrow> 's) \<Rightarrow> ('s, 'e, 'a) comp \<Rightarrow> ('s \<Rightarrow> 's) \<Rightarrow> ('s, 'e, 'a) comp" where
  "guardM f m g s = (case m (f s) of (r, t) \<Rightarrow> (r, g t))"

text \<open>
  \<open>noexceptM m\<close>: an exception that leaves \<open>m\<close> ends the process, as in a destructor.
  \<open>on_exception m h\<close>: if \<open>m\<close> throws, \<open>h\<close> runs while the exception goes on, as the destructors
  of the parts of an object whose constructor throws; a second exception ends the process.
\<close>

definition noexceptM :: "('s, 'e, 'a) comp \<Rightarrow> ('s, 'e, 'a) comp" where
  "noexceptM m s = (case m s of (Exc e, t) \<Rightarrow> (Abort, t) | (r, t) \<Rightarrow> (r, t))"

definition on_exception :: "('s, 'e, 'a) comp \<Rightarrow> ('s, 'e, unit) comp \<Rightarrow> ('s, 'e, 'a) comp" where
  "on_exception m h s =
     (case m s of
        (Exc e, t) \<Rightarrow> (case noexceptM h t of
                       (NoFuel, u) \<Rightarrow> (NoFuel, u)
                     | (Abort, u) \<Rightarrow> (Abort, u)
                     | (r, u) \<Rightarrow> (Exc e, u))
      | (r, t) \<Rightarrow> (r, t))"

text \<open>
  \<open>tryM m f\<close> is a \<open>try\<close> block: \<open>f\<close> goes on with the value of \<open>m\<close> or with its exception.
\<close>

definition tryM :: "('s, 'e, 'a) comp \<Rightarrow> ('e + 'a \<Rightarrow> ('s, 'e, 'b) comp) \<Rightarrow> ('s, 'e, 'b) comp" where
  "tryM m f s =
     (case m s of
        (Ret x, t) \<Rightarrow> f (Inr x) t
      | (Exc e, t) \<Rightarrow> f (Inl e) t
      | (Abort, t) \<Rightarrow> (Abort, t)
      | (NoFuel, t) \<Rightarrow> (NoFuel, t))"

lemmas run_simps = retM_def throwM_def abortM_def nofuelM_def getM_def modM_def bindM_def
  assertM_def guardM_def

lemma bindM_retM [simp]: "bindM (retM x) f = f x"
  by (rule ext) (simp add: run_simps)

lemma bindM_retM_right [simp]: "bindM m retM = m"
  by (rule ext) (auto simp: run_simps split: prod.splits outcome.splits)

lemma bindM_assoc: "bindM (bindM m f) g = bindM m (\<lambda>x. bindM (f x) g)"
  by (rule ext) (auto simp: run_simps split: prod.splits outcome.splits)

lemma bindM_throwM [simp]: "bindM (throwM e) f = throwM e"
  by (rule ext) (simp add: run_simps)

lemma bindM_abortM [simp]: "bindM abortM f = abortM"
  by (rule ext) (simp add: run_simps)

lemma assertM_simps [simp]: "assertM True = retM ()" "assertM False = abortM"
  by (simp_all add: assertM_def)

lemma bindM_Ret: "m s = (Ret x, t) \<Longrightarrow> bindM m f s = f x t"
  by (simp add: bindM_def)

lemma bindM_Exc: "m s = (Exc e, t) \<Longrightarrow> bindM m f s = (Exc e, t)"
  by (simp add: bindM_def)

lemma bindM_NoFuel: "m s = (NoFuel, t) \<Longrightarrow> bindM m f s = (NoFuel, t)"
  by (simp add: bindM_def)

lemma bindM_Abort: "m s = (Abort, t) \<Longrightarrow> bindM m f s = (Abort, t)"
  by (simp add: bindM_def)

lemma retM_apply [simp]: "retM x s = (Ret x, s)"
  by (simp add: retM_def)

lemma getM_apply [simp]: "getM f s = (Ret (f s), s)"
  by (simp add: getM_def)

lemma modM_apply [simp]: "modM f s = (Ret (), f s)"
  by (simp add: modM_def)

lemma throwM_apply [simp]: "throwM e s = (Exc e, s)"
  by (simp add: throwM_def)

lemma abortM_apply [simp]: "abortM s = (Abort, s)"
  by (simp add: abortM_def)

lemma nofuelM_apply [simp]: "nofuelM s = (NoFuel, s)"
  by (simp add: nofuelM_def)

lemma bindM_getM_apply [simp]: "bindM (getM f) k s = k (f s) s"
  by (simp add: bindM_def)

lemma bindM_modM_apply [simp]: "bindM (modM f) k s = k () (f s)"
  by (simp add: bindM_def)

text \<open>Inversion: how a sequence can have returned.\<close>

lemma bindM_eq_Ret:
  "bindM m f s = (Ret y, u) \<longleftrightarrow> (\<exists>x t. m s = (Ret x, t) \<and> f x t = (Ret y, u))"
  by (auto simp: bindM_def split: prod.splits outcome.splits)

section \<open>Relations that computations respect\<close>

text \<open>
  \<open>keeps R m\<close>: whatever way \<open>m\<close> is left, the state before and the state after are
  related by \<open>R\<close>. Invariants are the relations \<open>\<lambda>s t. I s \<longrightarrow> I t\<close>; frame properties
  are the relations \<open>\<lambda>s t. f s = f t\<close>. The laws need \<open>R\<close> reflexive and transitive, which
  is what the locale fixes.
\<close>

definition keeps :: "('s \<Rightarrow> 's \<Rightarrow> bool) \<Rightarrow> ('s, 'e, 'a) comp \<Rightarrow> bool" where
  "keeps R m \<longleftrightarrow> (\<forall>s. R s (snd (m s)))"

lemma keepsI: "(\<And>s. R s (snd (m s))) \<Longrightarrow> keeps R m"
  by (simp add: keeps_def)

lemma keepsD: "keeps R m \<Longrightarrow> m s = (r, t) \<Longrightarrow> R s t"
  unfolding keeps_def by (metis snd_conv)

locale step_relation =
  fixes R :: "'s \<Rightarrow> 's \<Rightarrow> bool"
  assumes R_refl: "R s s"
    and R_trans: "R s t \<Longrightarrow> R t u \<Longrightarrow> R s u"
begin

lemma keeps_retM: "keeps R (retM x)"
  by (simp add: keeps_def R_refl)

lemma keeps_throwM: "keeps R (throwM e)"
  by (simp add: keeps_def R_refl)

lemma keeps_abortM: "keeps R abortM"
  by (simp add: keeps_def R_refl)

lemma keeps_nofuelM: "keeps R nofuelM"
  by (simp add: keeps_def R_refl)

lemma keeps_getM: "keeps R (getM f)"
  by (simp add: keeps_def R_refl)

lemma keeps_modM: "(\<And>s. R s (f s)) \<Longrightarrow> keeps R (modM f)"
  by (simp add: keeps_def)

lemma keeps_assertM: "keeps R (assertM b)"
  by (cases b) (simp_all add: keeps_retM keeps_abortM)

lemma keeps_bindM:
  assumes "keeps R m" and "\<And>x. keeps R (f x)"
  shows "keeps R (bindM m f)"
proof (rule keepsI)
  fix s
  obtain r t where m: "m s = (r, t)" by (cases "m s")
  have st: "R s t" using assms(1) m by (rule keepsD)
  show "R s (snd (bindM m f s))"
  proof (cases r)
    case (Ret x)
    have "R t (snd (f x t))" using assms(2) by (simp add: keeps_def)
    with st m Ret show ?thesis by (auto simp: bindM_def intro: R_trans)
  qed (use st m in \<open>simp_all add: bindM_def\<close>)
qed

lemma keeps_tryM:
  assumes "keeps R m" and "\<And>x. keeps R (f x)"
  shows "keeps R (tryM m f)"
proof (rule keepsI)
  fix s
  obtain r t where m: "m s = (r, t)" by (cases "m s")
  have st: "R s t" using assms(1) m by (rule keepsD)
  have "R t (snd (f x t))" for x using assms(2) by (simp add: keeps_def)
  then have "R s (snd (f x t))" for x using st by (blast intro: R_trans)
  with st m show "R s (snd (tryM m f s))"
    by (simp add: tryM_def split: outcome.split)
qed

text \<open>Reading the state first: the rest may use what was read.\<close>

lemma keeps_bind_getM:
  assumes "\<And>s. R s (snd (k (f s) s))"
  shows "keeps R (bindM (getM f) k)"
  using assms by (simp add: keeps_def bindM_def)

lemma keeps_if: "(b \<Longrightarrow> keeps R m) \<Longrightarrow> (\<not> b \<Longrightarrow> keeps R n) \<Longrightarrow> keeps R (if b then m else n)"
  by simp

lemma keeps_option:
  "keeps R m \<Longrightarrow> (\<And>x. keeps R (f x)) \<Longrightarrow>
   keeps R (case z of None \<Rightarrow> m | Some x \<Rightarrow> f x)"
  by (cases z) simp_all

lemma keeps_noexceptM: "keeps R m \<Longrightarrow> keeps R (noexceptM m)"
  by (auto simp: keeps_def noexceptM_def split: prod.splits outcome.splits)
    (metis snd_conv)+

lemma keeps_on_exception:
  assumes "keeps R m" and "keeps R h"
  shows "keeps R (on_exception m h)"
proof (rule keepsI)
  fix s
  obtain r t where m: "m s = (r, t)" by (cases "m s")
  have st: "R s t" using assms(1) m by (rule keepsD)
  obtain r' u where h: "noexceptM h t = (r', u)" by (cases "noexceptM h t")
  have "R t u" using keeps_noexceptM [OF assms(2)] h by (rule keepsD)
  with st have "R s u" by (rule R_trans)
  with st m h show "R s (snd (on_exception m h s))"
    by (simp add: on_exception_def split: outcome.splits)
qed

lemmas keeps_rules = keeps_noexceptM keeps_on_exception keeps_retM keeps_throwM keeps_abortM keeps_nofuelM
  keeps_getM keeps_assertM keeps_bindM keeps_if keeps_option

end

section \<open>More fuel only completes\<close>

text \<open>
  \<open>refines m n\<close>: wherever \<open>m\<close> has an outcome of the program, \<open>n\<close> has the same one and the
  same state. It is the order in which an interpreter with more fuel is above one with less.
\<close>

definition refines :: "('s, 'e, 'a) comp \<Rightarrow> ('s, 'e, 'a) comp \<Rightarrow> bool" where
  "refines m n \<longleftrightarrow> (\<forall>s. fst (m s) = NoFuel \<or> m s = n s)"

lemma refinesI: "(\<And>s. fst (m s) \<noteq> NoFuel \<Longrightarrow> m s = n s) \<Longrightarrow> refines m n"
  by (auto simp: refines_def)

lemma refinesD: "refines m n \<Longrightarrow> m s = (r, t) \<Longrightarrow> r \<noteq> NoFuel \<Longrightarrow> n s = (r, t)"
  unfolding refines_def by (metis fst_conv)

lemma refines_refl [refines_intros, simp]: "refines m m"
  by (simp add: refines_def)

lemma refines_trans: "refines m n \<Longrightarrow> refines n k \<Longrightarrow> refines m k"
  unfolding refines_def by metis

lemma refines_nofuelM [refines_intros]: "refines nofuelM m"
  by (simp add: refines_def)

lemma refines_bindM [refines_intros]:
  assumes "refines m n" and "\<And>x. refines (f x) (g x)"
  shows "refines (bindM m f) (bindM n g)"
proof (rule refinesI)
  fix s
  assume nf: "fst (bindM m f s) \<noteq> NoFuel"
  obtain r t where m: "m s = (r, t)" by (cases "m s")
  have "r \<noteq> NoFuel" using nf m by (auto simp: bindM_def)
  with assms(1) m have n: "n s = (r, t)" by (rule refinesD)
  show "bindM m f s = bindM n g s"
  proof (cases r)
    case (Ret x)
    with nf m have "fst (f x t) \<noteq> NoFuel" by (simp add: bindM_def)
    with assms(2) [of x] have "f x t = g x t" unfolding refines_def by blast
    with m n Ret show ?thesis by (simp add: bindM_def)
  qed (simp_all add: bindM_def m n)
qed

lemma refines_tryM [refines_intros]:
  assumes "refines m n" and "\<And>x. refines (f x) (g x)"
  shows "refines (tryM m f) (tryM n g)"
proof (rule refinesI)
  fix s
  assume nf: "fst (tryM m f s) \<noteq> NoFuel"
  obtain r t where m: "m s = (r, t)" by (cases "m s")
  have "r \<noteq> NoFuel" using nf m by (auto simp: tryM_def)
  with assms(1) m have n: "n s = (r, t)" by (rule refinesD)
  have "fst (f x t) = NoFuel \<or> f x t = g x t" for x
    using assms(2) unfolding refines_def by blast
  with nf m n show "tryM m f s = tryM n g s"
    by (auto simp: tryM_def split: outcome.splits)
qed

lemma refines_guardM [refines_intros]:
  "refines m n \<Longrightarrow> refines (guardM f m g) (guardM f n g)"
  unfolding refines_def guardM_def by (auto split: prod.splits) (metis fst_conv prod.inject)+

lemma refines_noexceptM [refines_intros]:
  assumes "refines m n"
  shows "refines (noexceptM m) (noexceptM n)"
proof (rule refinesI)
  fix s
  assume "fst (noexceptM m s) \<noteq> NoFuel"
  then have "fst (m s) \<noteq> NoFuel"
    by (auto simp: noexceptM_def split: prod.splits)
  with assms have "m s = n s" by (auto simp: refines_def)
  then show "noexceptM m s = noexceptM n s" by (simp add: noexceptM_def)
qed

lemma refines_on_exception [refines_intros]:
  assumes "refines m n" and "refines h k"
  shows "refines (on_exception m h) (on_exception n k)"
proof (rule refinesI)
  fix s
  assume nf: "fst (on_exception m h s) \<noteq> NoFuel"
  obtain r t where m: "m s = (r, t)" by (cases "m s")
  have "r \<noteq> NoFuel" using nf m by (auto simp: on_exception_def)
  with assms(1) m have n: "n s = (r, t)" by (rule refinesD)
  show "on_exception m h s = on_exception n k s"
  proof (cases r)
    case (Exc e)
    obtain r' u where h: "noexceptM h t = (r', u)" by (cases "noexceptM h t")
    have "r' \<noteq> NoFuel" using nf m Exc h by (auto simp: on_exception_def)
    with refines_noexceptM [OF assms(2)] h have "noexceptM k t = (r', u)" by (rule refinesD)
    with m n h Exc show ?thesis by (simp add: on_exception_def)
  qed (simp_all add: on_exception_def m n)
qed

lemma refines_if [refines_intros]:
  "refines m m' \<Longrightarrow> refines n n' \<Longrightarrow> refines (if b then m else n) (if b then m' else n')"
  by simp

lemma refines_option [refines_intros]:
  "refines m m' \<Longrightarrow> (\<And>x. refines (f x) (g x)) \<Longrightarrow>
   refines (case z of None \<Rightarrow> m | Some x \<Rightarrow> f x) (case z of None \<Rightarrow> m' | Some x \<Rightarrow> g x)"
  by (cases z) simp_all

lemma refines_Let [refines_intros]:
  "(\<And>x. refines (f x) (g x)) \<Longrightarrow> refines (Let z f) (Let z g)"
  by (simp add: Let_def)

lemma refines_prod [refines_intros]:
  "(\<And>x y. refines (f x y) (g x y)) \<Longrightarrow>
   refines (case z of (x, y) \<Rightarrow> f x y) (case z of (x, y) \<Rightarrow> g x y)"
  by (cases z) simp

section \<open>Lists\<close>

text \<open>
  \<open>erase_first P xs\<close> is a loop over a \<open>std::vector\<close> that erases the first element that
  satisfies \<open>P\<close> and stops there.
\<close>

fun erase_first :: "('a \<Rightarrow> bool) \<Rightarrow> 'a list \<Rightarrow> 'a list" where
  "erase_first P [] = []"
| "erase_first P (x # xs) = (if P x then xs else x # erase_first P xs)"

lemma erase_first_none [simp]: "\<not> (\<exists>x \<in> set xs. P x) \<Longrightarrow> erase_first P xs = xs"
  by (induction xs) auto

lemma erase_first_split:
  "\<exists>x \<in> set xs. P x \<Longrightarrow>
   \<exists>us x vs. xs = us @ x # vs \<and> P x \<and> (\<forall>u \<in> set us. \<not> P u) \<and> erase_first P xs = us @ vs"
proof (induction xs)
  case Nil
  then show ?case by simp
next
  case (Cons y ys)
  show ?case
  proof (cases "P y")
    case True
    then have "y # ys = [] @ y # ys \<and> P y \<and> (\<forall>u \<in> set []. \<not> P u) \<and> erase_first P (y # ys) = [] @ ys"
      by simp
    then show ?thesis by blast
  next
    case False
    with Cons obtain us x vs where "ys = us @ x # vs" "P x" "\<forall>u \<in> set us. \<not> P u"
      "erase_first P ys = us @ vs" by auto
    with False have "y # ys = (y # us) @ x # vs \<and> P x \<and> (\<forall>u \<in> set (y # us). \<not> P u)
        \<and> erase_first P (y # ys) = (y # us) @ vs" by simp
    then show ?thesis by blast
  qed
qed

lemma set_erase_first_subset: "set (erase_first P xs) \<subseteq> set xs"
  by (induction xs) auto

lemma length_erase_first:
  "length (erase_first P xs) = (if \<exists>x \<in> set xs. P x then length xs - 1 else length xs)"
  by (induction xs) (auto dest: length_pos_if_in_set)

text \<open>
  \<open>erase_step_over P xs\<close> is the loop of the \<open>unregister_all_callbacks\<close> functions:
  \<open>for (it = begin; it < end; it++) if (P(*it)) erase(it);\<close>. Erasing at \<open>it\<close> moves the
  rest of the vector down, so that \<open>it\<close> already refers to the next element, and \<open>it++\<close>
  then steps over that element without looking at it.
\<close>

fun erase_step_over :: "('a \<Rightarrow> bool) \<Rightarrow> 'a list \<Rightarrow> 'a list" where
  "erase_step_over P [] = []"
| "erase_step_over P (x # xs) =
     (if P x then (case xs of [] \<Rightarrow> [] | y # ys \<Rightarrow> y # erase_step_over P ys)
      else x # erase_step_over P xs)"

lemma set_erase_step_over_subset: "set (erase_step_over P xs) \<subseteq> set xs"
  by (induction P xs rule: erase_step_over.induct) (auto split: list.splits)

lemma erase_step_over_none: "\<not> (\<exists>x \<in> set xs. P x) \<Longrightarrow> erase_step_over P xs = xs"
  by (induction P xs rule: erase_step_over.induct) auto

text \<open>No two neighbours satisfy \<open>P\<close>: then the loop does remove every element that does.\<close>

fun no_neighbours :: "('a \<Rightarrow> bool) \<Rightarrow> 'a list \<Rightarrow> bool" where
  "no_neighbours P (x # y # zs) \<longleftrightarrow> \<not> (P x \<and> P y) \<and> no_neighbours P (y # zs)"
| "no_neighbours P _ \<longleftrightarrow> True"

lemma erase_step_over_filter:
  "no_neighbours P xs \<Longrightarrow> erase_step_over P xs = filter (\<lambda>x. \<not> P x) xs"
proof (induction P xs rule: erase_step_over.induct)
  case (1 P)
  then show ?case by simp
next
  case (2 P x xs)
  show ?case
  proof (cases xs)
    case Nil
    then show ?thesis by simp
  next
    case (Cons y ys)
    show ?thesis
    proof (cases "P x")
      case True
      with "2.prems" Cons have "\<not> P y" and "no_neighbours P ys"
        by (cases ys; simp)+
      with True Cons "2.IH"(1) [of y ys] show ?thesis by simp
    next
      case False
      with "2.prems" Cons have "no_neighbours P xs" by simp
      with False "2.IH"(2) show ?thesis by simp
    qed
  qed
qed

end
