(* ===== verification/Std_Map.thy ===== *)
theory Std_Map
  imports Prelude "HOL-Library.List_Lexorder" "HOL-Library.Char_ord"
begin

text \<open>
  \<open>std::map\<close> as the brokers use it: the entries in the order of their keys (which is the
  order of iteration), with \<open>find\<close>, \<open>insert\<close> (which never overwrites), assignment through
  \<open>operator[]\<close> or an iterator, and \<open>erase\<close>. Keys are strings, ordered like
  \<open>std::string\<close>: lexicographically by character code (\<open>List_Lexorder\<close>, \<open>Char_ord\<close>).
\<close>

type_synonym ('k, 'v) std_map = "('k \<times> 'v) list"

definition sorted_map :: "('k::linorder, 'v) std_map \<Rightarrow> bool" where
  "sorted_map m \<longleftrightarrow> sorted_wrt (<) (map fst m)"

definition map_find :: "'k \<Rightarrow> ('k, 'v) std_map \<Rightarrow> 'v option" where
  "map_find k m = map_of m k"

definition map_keys :: "('k, 'v) std_map \<Rightarrow> 'k set" where
  "map_keys m = fst ` set m"

fun map_assign :: "'k::linorder \<Rightarrow> 'v \<Rightarrow> ('k, 'v) std_map \<Rightarrow> ('k, 'v) std_map" where
  "map_assign k v [] = [(k, v)]"
| "map_assign k v ((k', v') # m) =
     (if k < k' then (k, v) # (k', v') # m
      else if k = k' then (k, v) # m
      else (k', v') # map_assign k v m)"

definition map_insert :: "'k::linorder \<Rightarrow> 'v \<Rightarrow> ('k, 'v) std_map \<Rightarrow> ('k, 'v) std_map" where
  "map_insert k v m = (case map_find k m of None \<Rightarrow> map_assign k v m | Some _ \<Rightarrow> m)"

definition map_erase :: "'k \<Rightarrow> ('k, 'v) std_map \<Rightarrow> ('k, 'v) std_map" where
  "map_erase k m = filter (\<lambda>e. fst e \<noteq> k) m"

lemma map_find_Nil [simp]: "map_find k [] = None"
  by (simp add: map_find_def)

lemma map_find_Cons [simp]: "map_find k ((a, b) # m) = (if a = k then Some b else map_find k m)"
  by (simp add: map_find_def)

lemma map_find_None_iff: "map_find k m = None \<longleftrightarrow> k \<notin> map_keys m"
  by (simp add: map_find_def map_keys_def map_of_eq_None_iff)

lemma map_find_Some_in: "map_find k m = Some v \<Longrightarrow> (k, v) \<in> set m"
  by (simp add: map_find_def map_of_SomeD)

lemma map_find_Some_key: "map_find k m = Some v \<Longrightarrow> k \<in> map_keys m"
  by (force simp: map_keys_def dest: map_find_Some_in)

lemma map_keys_iff: "k \<in> map_keys m \<longleftrightarrow> (\<exists>v. map_find k m = Some v)"
  by (metis map_find_None_iff not_None_eq)

lemma map_find_assign [simp]:
  "map_find j (map_assign k v m) = (if j = k then Some v else map_find j m)"
  by (induction k v m rule: map_assign.induct) auto

lemma map_find_erase [simp]:
  "map_find j (map_erase k m) = (if j = k then None else map_find j m)"
  by (induction m) (auto simp: map_erase_def)

lemma map_find_insert [simp]:
  "map_find j (map_insert k v m) =
     (if j = k \<and> map_find k m = None then Some v else map_find j m)"
  by (auto simp: map_insert_def split: option.splits)

lemma map_keys_assign [simp]: "map_keys (map_assign k v m) = insert k (map_keys m)"
  by (rule set_eqI) (auto simp: map_keys_iff split: if_splits)

lemma map_keys_insert [simp]: "map_keys (map_insert k v m) = insert k (map_keys m)"
  by (rule set_eqI) (auto simp: map_keys_iff split: if_splits)

lemma map_keys_erase [simp]: "map_keys (map_erase k m) = map_keys m - {k}"
  by (auto simp: map_keys_def map_erase_def)

lemma map_keys_Cons [simp]: "map_keys ((a, b) # m) = insert a (map_keys m)"
  by (simp add: map_keys_def)

lemma map_keys_Nil [simp]: "map_keys [] = {}"
  by (simp add: map_keys_def)

lemma sorted_map_Nil [simp]: "sorted_map []"
  by (simp add: sorted_map_def)

lemma sorted_map_Cons:
  "sorted_map ((a, b) # m) \<longleftrightarrow> (\<forall>k \<in> map_keys m. a < k) \<and> sorted_map m"
  by (simp add: sorted_map_def map_keys_def)

lemma sorted_map_assign: "sorted_map m \<Longrightarrow> sorted_map (map_assign k v m)"
proof (induction k v m rule: map_assign.induct)
  case (1 k v)
  then show ?case by (simp add: sorted_map_Cons)
next
  case (2 k v k' v' m)
  then show ?case by (auto simp: sorted_map_Cons dest: less_trans)
qed

lemma sorted_map_insert: "sorted_map m \<Longrightarrow> sorted_map (map_insert k v m)"
  by (simp add: map_insert_def sorted_map_assign split: option.splits)

lemma sorted_map_erase: "sorted_map m \<Longrightarrow> sorted_map (map_erase k m)"
proof (induction m)
  case Nil
  then show ?case by (simp add: map_erase_def)
next
  case (Cons e m)
  obtain a b where e: "e = (a, b)" by (cases e)
  with Cons have "sorted_map (map_erase k m)" and "\<forall>j \<in> map_keys (map_erase k m). a < j"
    by (simp_all add: sorted_map_Cons)
  then show ?case by (simp add: e map_erase_def sorted_map_Cons)
qed

lemma sorted_map_distinct: "sorted_map m \<Longrightarrow> distinct (map fst m)"
  by (simp add: sorted_map_def strict_sorted_iff)

lemma sorted_map_in_iff: "sorted_map m \<Longrightarrow> (k, v) \<in> set m \<longleftrightarrow> map_find k m = Some v"
  by (simp add: map_find_def sorted_map_distinct)

text \<open>Erasing undoes an insertion, and an insertion undoes erasing.\<close>

lemma map_erase_absent: "map_find k m = None \<Longrightarrow> map_erase k m = m"
  by (auto simp: map_erase_def map_find_None_iff map_keys_def intro!: filter_True)

lemma map_erase_assign: "map_find k m = None \<Longrightarrow> map_erase k (map_assign k v m) = m"
proof (induction k v m rule: map_assign.induct)
  case (1 k v)
  show ?case by (simp add: map_erase_def)
next
  case (2 k v k' v' m)
  then have "k' \<noteq> k" and "map_find k m = None" by (auto split: if_splits)
  with 2 map_erase_absent [of k m] show ?case by (auto simp: map_erase_def)
qed

lemma map_assign_erase: "sorted_map m \<Longrightarrow> map_find k m = Some v \<Longrightarrow> map_assign k v (map_erase k m) = m"
proof (induction m)
  case Nil
  then show ?case by simp
next
  case (Cons e m)
  obtain a b where e: "e = (a, b)" by (cases e)
  with Cons.prems(1) have sorted: "sorted_map m" and above: "\<forall>j \<in> map_keys m. a < j"
    by (simp_all add: sorted_map_Cons)
  show ?case
  proof (cases "a = k")
    case True
    with Cons.prems(2) e have "b = v" by simp
    have "map_find k m = None" using above True by (auto simp: map_find_None_iff)
    then have "map_erase k m = m" by (rule map_erase_absent)
    moreover have "map_assign k v m = (k, v) # m"
      using above True by (cases m) auto
    ultimately show ?thesis using e True \<open>b = v\<close> by (simp add: map_erase_def)
  next
    case False
    with Cons.prems(2) e have find: "map_find k m = Some v" by simp
    then have "a < k" using above by (auto dest: map_find_Some_key)
    with Cons.IH [OF sorted find] e False show ?thesis by (auto simp: map_erase_def)
  qed
qed

end
