(* ===== verification/Report.thy ===== *)
theory Report
  imports Prelude
begin

text \<open>
  \<open>cci_report_handler\<close> (src/src/cci/cfg/cci_report_handler.h and .cpp): reports with the
  CCI message-type prefix, the classification of a report as a \<open>cci_param_failure\<close>, and
  \<open>cci_handle_exception\<close>. SystemC's own \<open>sc_report_handler::report\<close> is not part of the
  repository: whether a report of a given severity and message type is thrown as an
  exception is the field \<open>sc_throws\<close> of the environment.
\<close>

section \<open>What SystemC provides\<close>

datatype sc_severity = SC_INFO | SC_WARNING | SC_ERROR | SC_FATAL

record sc_report =
  severity :: sc_severity
  msg_type :: string
  msg :: string

type_synonym sc_object = nat

record sc_env =
  sc_throws :: "sc_severity \<Rightarrow> string \<Rightarrow> bool"
  sc_current :: "sc_object option"
  sc_name :: "sc_object \<Rightarrow> string"
  sc_parent :: "sc_object \<Rightarrow> sc_object option"

text \<open>An exception is a thrown \<open>sc_report\<close>, or any other exception thrown by user code.\<close>

datatype exn = Sc_report sc_report | User_exn nat

text \<open>The state of the report handler: the reports made so far.\<close>

record sc_state =
  reports :: "sc_report list"

section \<open>Reporting\<close>

definition CCI_SC_REPORT_MSG_TYPE_PREFIX :: string where
  "CCI_SC_REPORT_MSG_TYPE_PREFIX = ''/Accellera/CCI/''"

definition report :: "'x sc_env_scheme \<Rightarrow> sc_severity \<Rightarrow> string \<Rightarrow> string
    \<Rightarrow> ('y sc_state_scheme, exn, unit) comp" where
  "report E sev mt m =
     (let r = \<lparr>severity = sev, msg_type = CCI_SC_REPORT_MSG_TYPE_PREFIX @ mt, msg = m\<rparr>
      in bindM (modM (\<lambda>s. s\<lparr>reports := reports s @ [r]\<rparr>)) (\<lambda>_.
           if sc_throws E sev (msg_type r) then throwM (Sc_report r) else skipM))"

definition set_param_failed :: "'x sc_env_scheme \<Rightarrow> string \<Rightarrow> ('y sc_state_scheme, exn, unit) comp" where
  "set_param_failed E m = report E SC_ERROR ''SET_PARAM_FAILED'' m"

definition get_param_failed :: "'x sc_env_scheme \<Rightarrow> string \<Rightarrow> ('y sc_state_scheme, exn, unit) comp" where
  "get_param_failed E m = report E SC_ERROR ''GET_PARAM_FAILED'' m"

definition add_param_failed :: "'x sc_env_scheme \<Rightarrow> string \<Rightarrow> ('y sc_state_scheme, exn, unit) comp" where
  "add_param_failed E m = report E SC_ERROR ''ADD_PARAM_FAILED'' m"

definition remove_param_failed :: "'x sc_env_scheme \<Rightarrow> string \<Rightarrow> ('y sc_state_scheme, exn, unit) comp" where
  "remove_param_failed E m = report E SC_ERROR ''REMOVE_PARAM_FAILED'' m"

definition cci_value_failure :: "'x sc_env_scheme \<Rightarrow> string \<Rightarrow> ('y sc_state_scheme, exn, unit) comp" where
  "cci_value_failure E m = report E SC_ERROR ''CCI_VALUE_FAILURE'' m"

text \<open>The macros \<open>CCI_REPORT_ERROR\<close> and \<open>CCI_REPORT_WARNING\<close>.\<close>

definition CCI_REPORT_ERROR :: "'x sc_env_scheme \<Rightarrow> string \<Rightarrow> string \<Rightarrow> ('y sc_state_scheme, exn, unit) comp" where
  "CCI_REPORT_ERROR E mt m = report E SC_ERROR mt m"

definition CCI_REPORT_WARNING :: "'x sc_env_scheme \<Rightarrow> string \<Rightarrow> string \<Rightarrow> ('y sc_state_scheme, exn, unit) comp" where
  "CCI_REPORT_WARNING E mt m = report E SC_WARNING mt m"

lemmas failed_defs = set_param_failed_def get_param_failed_def add_param_failed_def
  remove_param_failed_def cci_value_failure_def CCI_REPORT_ERROR_def CCI_REPORT_WARNING_def

section \<open>Decoding a report\<close>

datatype cci_param_failure =
    CCI_NOT_FAILURE
  | CCI_SET_PARAM_FAILURE
  | CCI_GET_PARAM_FAILURE
  | CCI_ADD_PARAM_FAILURE
  | CCI_REMOVE_PARAM_FAILURE
  | CCI_VALUE_FAILURE
  | CCI_UNDEFINED_FAILURE

abbreviation CCI_ANY_FAILURE :: cci_param_failure where
  "CCI_ANY_FAILURE \<equiv> CCI_UNDEFINED_FAILURE"

definition cci_msg_types :: "(string \<times> cci_param_failure) list" where
  "cci_msg_types =
    [(''SET_PARAM_FAILED'', CCI_SET_PARAM_FAILURE),
     (''GET_PARAM_FAILED'', CCI_GET_PARAM_FAILURE),
     (''ADD_PARAM_FAILED'', CCI_ADD_PARAM_FAILURE),
     (''REMOVE_PARAM_FAILED'', CCI_REMOVE_PARAM_FAILURE),
     (''CCI_VALUE_FAILURE'', CCI_VALUE_FAILURE)]"

text \<open>
  The table walk stops at the entry with the same string, or at the sentinel, whose value is
  \<open>CCI_UNDEFINED_FAILURE\<close>.
\<close>

fun table_walk :: "(string \<times> cci_param_failure) list \<Rightarrow> string \<Rightarrow> cci_param_failure" where
  "table_walk [] mt = CCI_UNDEFINED_FAILURE"
| "table_walk ((str, val) # ts) mt = (if str = mt then val else table_walk ts mt)"

definition decode_param_failure :: "sc_report \<Rightarrow> cci_param_failure" where
  "decode_param_failure rpt =
     (let len = length CCI_SC_REPORT_MSG_TYPE_PREFIX
      in if take len (msg_type rpt) = CCI_SC_REPORT_MSG_TYPE_PREFIX
         then table_walk cci_msg_types (drop len (msg_type rpt))
         else CCI_NOT_FAILURE)"

text \<open>
  \<open>cci_handle_exception\<close> is called with an active exception: it returns the failure, or
  lets the exception propagate (\<open>Inl\<close>).
\<close>

definition cci_handle_exception :: "exn \<Rightarrow> cci_param_failure \<Rightarrow> exn + cci_param_failure" where
  "cci_handle_exception e expect =
     (case e of
        Sc_report rpt \<Rightarrow>
          (let err = decode_param_failure rpt
           in if err = CCI_NOT_FAILURE then Inl e
              else if err \<noteq> expect \<and> expect \<noteq> CCI_ANY_FAILURE then Inl e
              else Inr err)
      | User_exn n \<Rightarrow> Inl e)"

section \<open>Lemmas\<close>

lemma report_state: "snd (report E sev mt m s) =
    s\<lparr>reports := reports s @ [\<lparr>severity = sev, msg_type = CCI_SC_REPORT_MSG_TYPE_PREFIX @ mt, msg = m\<rparr>]\<rparr>"
  by (simp add: report_def Let_def)

lemma report_outcome: "fst (report E sev mt m s) =
    (if sc_throws E sev (CCI_SC_REPORT_MSG_TYPE_PREFIX @ mt)
     then Exc (Sc_report \<lparr>severity = sev, msg_type = CCI_SC_REPORT_MSG_TYPE_PREFIX @ mt, msg = m\<rparr>)
     else Ret ())"
  by (simp add: report_def Let_def)

lemma report_not_NoFuel [simp]: "fst (report E sev mt m s) \<noteq> NoFuel"
  by (simp add: report_outcome)

text \<open>A report is not changed by appending and removing the prefix.\<close>

lemma decode_prefixed:
  "decode_param_failure \<lparr>severity = sev, msg_type = CCI_SC_REPORT_MSG_TYPE_PREFIX @ mt, msg = m\<rparr>
     = table_walk cci_msg_types mt"
  by (simp add: decode_param_failure_def)

lemma table_walk_failure: "table_walk cci_msg_types mt \<noteq> CCI_NOT_FAILURE"
  by (simp add: cci_msg_types_def)

lemma decode_not_failure_iff:
  "decode_param_failure r = CCI_NOT_FAILURE \<longleftrightarrow>
     take (length CCI_SC_REPORT_MSG_TYPE_PREFIX) (msg_type r) \<noteq> CCI_SC_REPORT_MSG_TYPE_PREFIX"
  by (simp add: decode_param_failure_def Let_def table_walk_failure)

end
