(* ===== verification/Originator.thy ===== *)
theory Originator
  imports Report "HOL-Library.List_Lexorder" "HOL-Library.Char_ord"
begin

text \<open>
  \<open>cci_originator\<close> (src/src/cci/cfg/cci_originator.h and .cpp): who created, accesses or wrote
  a parameter. An originator is given by an object of the SystemC hierarchy, by a name, og
  is unknown. The constructors depend on the current object of the hierarchy and report
  errors; comparison reads the objects and the C strings of the names.
\<close>

record originator =
  m_originator_obj :: "sc_object option"
  m_originator_str :: "string option"

section \<open>C strings\<close>

text \<open>What a C function reads of the characters at \<open>c_str()\<close>: those before the first NUL.\<close>

definition c_str :: "string \<Rightarrow> string" where
  "c_str s = takeWhile (\<lambda>c. c \<noteq> CHR 0x00) s"

text \<open>
  \<open>strcmp\<close>: negative, zero or positive; characters are compared as \<open>unsigned char\<close>, which
  is the order of \<open>Char_ord\<close>, and a proper prefix is smaller.
\<close>

definition strcmp :: "string \<Rightarrow> string \<Rightarrow> int" where
  "strcmp s t = (if c_str s = c_str t then 0 else if c_str s < c_str t then - 1 else 1)"

section \<open>Construction\<close>

definition CCI_UNKNOWN_ORIGINATOR_STRING :: string where
  "CCI_UNKNOWN_ORIGINATOR_STRING = ''UNKNOWN_ORIGINATOR''"

definition unknown_originator :: originator where
  "unknown_originator = \<lparr>m_originator_obj = None, m_originator_str = None\<rparr>"

definition is_unknown :: "originator \<Rightarrow> bool" where
  "is_unknown og \<longleftrightarrow> m_originator_obj og = None \<and> m_originator_str og = None"

definition current_originator_object :: "'x sc_env_scheme \<Rightarrow> sc_object option" where
  "current_originator_object E = sc_current E"

definition check_originator_valid :: "'x sc_env_scheme \<Rightarrow> originator
    \<Rightarrow> ('y sc_state_scheme, exn, unit) comp" where
  "check_originator_valid E og =
     (if is_unknown og
      then CCI_REPORT_ERROR E ''cci_originator/check_is_valid''
        (''It is forbidden to build an originator without ''
         @ ''information (no SystemC hierarchy or empty name)!'')
      else skipM)"

text \<open>The default constructor: the current object is the originator.\<close>

definition default_originator :: "'x sc_env_scheme \<Rightarrow> ('y sc_state_scheme, exn, originator) comp" where
  "default_originator E =
     (let og = \<lparr>m_originator_obj = current_originator_object E, m_originator_str = None\<rparr>
      in thenM (check_originator_valid E og) (retM og))"

text \<open>
  The constructors with a name. \<open>named_originator\<close> takes a \<open>std::string\<close>,
  \<open>named_originator_c\<close> a \<open>const char*\<close> that may be NULL. Both report an error for a name
  inside the hierarchy, and for no name outside; when the report is suppressed, the object
  built so far is checked again.
\<close>

definition named_originator :: "'x sc_env_scheme \<Rightarrow> string
    \<Rightarrow> ('y sc_state_scheme, exn, originator) comp" where
  "named_originator E nm =
     (let og = (if current_originator_object E \<noteq> None
                then \<lparr>m_originator_obj = current_originator_object E, m_originator_str = None\<rparr>
                else \<lparr>m_originator_obj = None,
                      m_originator_str = (if length nm > 0 then Some nm else None)\<rparr>)
      in thenM
          (if current_originator_object E \<noteq> None then
             (if length nm > 0
              then CCI_REPORT_ERROR E ''cci_originator/name_inside_hierarchy''
                     ''Originators must not be named inside the SystemC hierarchy''
              else skipM)
           else
             (if length nm > 0 then skipM
              else CCI_REPORT_ERROR E ''cci_originator/noname_outside_hierarchy''
                     ''An originator name must be given outside the SystemC hierarchy''))
          (thenM (check_originator_valid E og) (retM og)))"

definition named_originator_c :: "'x sc_env_scheme \<Rightarrow> string option
    \<Rightarrow> ('y sc_state_scheme, exn, originator) comp" where
  "named_originator_c E p = named_originator E (case p of None \<Rightarrow> [] | Some s \<Rightarrow> c_str s)"

section \<open>Queries and comparison\<close>

definition originator_name :: "'x sc_env_scheme \<Rightarrow> originator \<Rightarrow> string" where
  "originator_name E og =
     (case m_originator_obj og of
        Some ob \<Rightarrow> sc_name E ob
      | None \<Rightarrow> (case m_originator_str og of
                  Some s \<Rightarrow> c_str s
                | None \<Rightarrow> CCI_UNKNOWN_ORIGINATOR_STRING))"

definition originator_eq :: "'x sc_env_scheme \<Rightarrow> originator \<Rightarrow> originator \<Rightarrow> bool" where
  "originator_eq E a b \<longleftrightarrow>
     (if m_originator_obj a \<noteq> None \<or> m_originator_obj b \<noteq> None
      then m_originator_obj a = m_originator_obj b
      else strcmp (originator_name E a) (originator_name E b) = 0)"

definition originator_less :: "'x sc_env_scheme \<Rightarrow> originator \<Rightarrow> originator \<Rightarrow> bool" where
  "originator_less E a b \<longleftrightarrow> strcmp (originator_name E a) (originator_name E b) < 0"

text \<open>Swap, and the move operations, which leave the source unknown.\<close>

definition originator_swap :: "originator \<Rightarrow> originator \<Rightarrow> originator \<times> originator" where
  "originator_swap this that =
     (this\<lparr>m_originator_obj := m_originator_obj that, m_originator_str := m_originator_str that\<rparr>,
      that\<lparr>m_originator_obj := m_originator_obj this, m_originator_str := m_originator_str this\<rparr>)"

definition originator_assign :: "originator \<Rightarrow> originator \<Rightarrow> originator" where
  "originator_assign this that = (let copy = that in snd (originator_swap copy this))"

text \<open>The result is the new object and what is left in the source.\<close>

definition originator_move :: "originator \<Rightarrow> originator \<times> originator" where
  "originator_move that =
     (\<lparr>m_originator_obj = m_originator_obj that, m_originator_str = m_originator_str that\<rparr>,
      that\<lparr>m_originator_obj := None, m_originator_str := None\<rparr>)"

text \<open>
  \<open>promote_originator\<close> of the handles: inside the hierarchy a copied handle gets the current
  object as its originator, whatever the originator of its source.
\<close>

definition promote_originator :: "'x sc_env_scheme \<Rightarrow> originator
    \<Rightarrow> ('y sc_state_scheme, exn, originator) comp" where
  "promote_originator E gifted =
     (if sc_current E \<noteq> None then default_originator E else retM gifted)"

section \<open>Lemmas\<close>

lemma strcmp_eq_0: "strcmp s t = 0 \<longleftrightarrow> c_str s = c_str t"
  by (simp add: strcmp_def)

lemma strcmp_less_0: "strcmp s t < 0 \<longleftrightarrow> c_str s < c_str t"
  by (auto simp: strcmp_def)

lemma originator_eq_refl [simp]: "originator_eq E a a"
  by (simp add: originator_eq_def strcmp_eq_0)

lemma originator_eq_sym: "originator_eq E a b \<Longrightarrow> originator_eq E b a"
  by (auto simp: originator_eq_def strcmp_eq_0 split: if_splits)

lemma originator_eq_trans: "originator_eq E a b \<Longrightarrow> originator_eq E b c \<Longrightarrow> originator_eq E a c"
  by (auto simp: originator_eq_def strcmp_eq_0 split: if_splits)

text \<open>An originator that is known is built without an error, and is the current object.\<close>

lemma default_originator_inside:
  "sc_current E = Some ob \<Longrightarrow>
   default_originator E s = (Ret \<lparr>m_originator_obj = Some ob, m_originator_str = None\<rparr>, s)"
  by (simp add: default_originator_def check_originator_valid_def current_originator_object_def
      is_unknown_def Let_def)

text \<open>Every function of this theory changes only the reports.\<close>

lemma check_originator_valid_state:
  "\<exists>rs. snd (check_originator_valid E og s) = s\<lparr>reports := reports s @ rs\<rparr>"
  by (auto simp: check_originator_valid_def CCI_REPORT_ERROR_def report_def Let_def
      intro: exI [of _ "[]"])

end
