(* ===== verification/Cci_State.thy ===== *)
theory Cci_State
  imports Originator Std_Map
begin

text \<open>
  The data of the configuration layer: callbacks, parameters, parameter handles, brokers and
  the global registries, as records with the fields of the C++ classes; the environment that
  the library calls (SystemC, the value converters, the functors of the user); and user code
  as a tree of calls of the library.

  Objects live in finite maps from addresses: parameters (\<open>pid\<close>), handles (\<open>hid\<close>) and brokers
  (\<open>bid\<close>). Using an address at which no object lives is undefined behaviour in C++ and the
  outcome \<open>Abort\<close> here. A C++ type \<open>T\<close> of a parameter is a \<open>tid\<close>; \<open>'v\<close> is the universe of typed
  values, \<open>'j\<close> the type \<open>cci_value\<close>.
\<close>

type_synonym address = nat
type_synonym pid = nat
type_synonym hid = nat
type_synonym bid = nat
type_synonym tid = nat
type_synonym cb_id = nat

section \<open>Enumerations\<close>

datatype cci_param_mutable_type = CCI_MUTABLE_PARAM | CCI_IMMUTABLE_PARAM | CCI_OTHER_MUTABILITY

datatype cci_name_type = CCI_RELATIVE_NAME | CCI_ABSOLUTE_NAME

datatype cci_param_data_category =
    CCI_BOOL_PARAM | CCI_INTEGRAL_PARAM | CCI_REAL_PARAM | CCI_STRING_PARAM | CCI_LIST_PARAM
  | CCI_OTHER_PARAM

datatype cci_value_category =
    CCI_NULL_VALUE | CCI_BOOL_VALUE | CCI_INTEGRAL_VALUE | CCI_REAL_VALUE | CCI_STRING_VALUE
  | CCI_LIST_VALUE | CCI_OTHER_VALUE

datatype cci_name_state = cci_name_free | cci_name_used

section \<open>Callbacks\<close>

text \<open>
  The four callback lists of a parameter; the macros of the source take this as \<open>name\<close>.
\<close>

datatype cbkind = Pre_write | Post_write | Pre_read | Post_read

text \<open>
  The signature of a callback object: the event it takes (\<open>None\<close> for the generic, untyped
  event, \<open>Some T\<close> for the event of values of type \<open>T\<close>) and the kind of the event. A pre-write
  callback returns \<open>bool\<close>; pre-read and post-read callbacks have one signature. \<open>Sig_param\<close> is
  the signature of the create and destroy callbacks of a broker.
\<close>

datatype cb_sig =
    Sig_pre_write "tid option"
  | Sig_post_write "tid option"
  | Sig_read "tid option"
  | Sig_param

record callback_ref =
  cb_object :: cb_id
  cb_signature :: cb_sig

text \<open>An untyped callback handle; \<open>None\<close> is a handle that holds no callback.\<close>

type_synonym cci_callback_untyped_handle = "callback_ref option"

record callback_obj =
  callback :: cci_callback_untyped_handle
  cb_originator :: originator

record callback_obj_vector =
  vec :: "callback_obj list"
  oncall :: bool

text \<open>
  The payload that a functor receives: a write or a read event, typed or generic, or the
  handle of a created or destroyed parameter. The event refers to a handle by its address.
\<close>

datatype ('v, 'j) cb_event =
    Write_event 'v 'v originator hid
  | Write_event_generic 'j 'j originator hid
  | Read_event 'v originator hid
  | Read_event_generic 'j originator hid
  | Param_event hid

section \<open>Parameters and handles\<close>

record broker_handle =
  m_broker :: bid
  bh_originator :: originator

record ('v, 'j) param =
  m_name :: string
  m_description :: string
  metadata :: "(string \<times> 'j \<times> string) list"
  m_lock_pwd :: "address option"
  m_broker_handle :: broker_handle
  m_value_origin :: originator
  m_pre_write_callbacks :: callback_obj_vector
  m_post_write_callbacks :: callback_obj_vector
  m_pre_read_callbacks :: callback_obj_vector
  m_post_read_callbacks :: callback_obj_vector
  m_originator :: originator
  m_param_handles :: "hid list"
  fast_read :: bool
  fast_write :: bool
  m_value :: 'v
  m_default_value :: 'v
  p_type :: tid
  p_mutability :: cci_param_mutable_type

record param_handle =
  m_param :: "pid option"
  h_originator :: originator

section \<open>Brokers and the registries\<close>

text \<open>
  One record for \<open>consuming_broker\<close> and for its subclass \<open>broker\<close>: \<open>b_forwarding\<close> is the
  dynamic class, and \<open>expose\<close>, \<open>has_parent\<close> and \<open>m_parent\<close> are used by \<open>broker\<close> only.
\<close>

record 'j broker =
  b_name :: string
  m_param_registry :: "(string, pid) std_map"
  m_unused_value_registry :: "(string, 'j) std_map"
  m_used_value_registry :: "(string, 'j) std_map"
  locked :: "string set"
  m_preset_value_originator_map :: "(string, originator) std_map"
  m_create_callbacks :: "callback_obj list"
  m_destroy_callbacks :: "callback_obj list"
  m_ignored_unconsumed_predicates :: "(string \<times> 'j \<Rightarrow> bool) list"
  b_forwarding :: bool
  expose :: "string set"
  has_parent :: bool
  m_parent :: bid

text \<open>
  The state of the library, on top of the reports made so far. \<open>sc_names\<close> is the registry of
  hierarchical names, which SystemC keeps.
\<close>

record ('v, 'j) world = sc_state +
  params :: "pid \<Rightarrow> ('v, 'j) param option"
  handles :: "hid \<Rightarrow> param_handle option"
  brokers :: "bid \<Rightarrow> 'j broker option"
  m_brokers :: "sc_object option \<Rightarrow> bid option"
  sc_names :: "string set"
  next_address :: address

type_synonym ('v, 'j, 'a) cci = "(('v, 'j) world, exn, 'a) comp"

section \<open>User code\<close>

text \<open>
  The calls a user makes: on a parameter (by its owner), on a parameter handle, on a broker
  through a broker handle, and the construction and destruction of objects.
\<close>

datatype ('v, 'j) param_call =
    Set_value 'v
  | Set_value_pwd 'v "address option"
  | Get_value
  | Get_value_originator originator
  | Get_default_value
  | Set_cci_value 'j "address option" originator
  | Get_cci_value originator
  | Get_default_cci_value
  | Is_default_value
  | Is_preset_value
  | Reset
  | Lock "address option"
  | Unlock "address option"
  | Is_locked
  | Register_callback cbkind cci_callback_untyped_handle
  | Unregister_callback cbkind cci_callback_untyped_handle
  | Unregister_all_callbacks
  | Has_callbacks
  | Set_description string
  | Get_description
  | Add_metadata string 'j string
  | Get_metadata
  | Get_name
  | Get_originator
  | Get_value_origin
  | Get_mutable_type
  | Get_data_category
  | Create_param_handle originator

datatype ('v, 'j) handle_call =
    H_set_cci_value 'j "address option"
  | H_get_cci_value
  | H_get_default_cci_value
  | H_set_value tid 'v "address option"
  | H_get_value tid
  | H_get_default_value tid
  | H_is_default_value
  | H_is_preset_value
  | H_lock "address option"
  | H_unlock "address option"
  | H_is_locked
  | H_register_callback cbkind cci_callback_untyped_handle
  | H_unregister_callback cbkind cci_callback_untyped_handle
  | H_unregister_all_callbacks
  | H_has_callbacks
  | H_get_description
  | H_get_metadata
  | H_name
  | H_get_originator
  | H_get_value_origin
  | H_get_mutable_type
  | H_get_data_category
  | H_is_valid
  | H_invalidate
  | H_copy
  | H_cast tid
  | H_assign hid
  | H_destroy

datatype 'j broker_call =
    B_set_preset_cci_value string 'j
  | B_get_preset_cci_value string
  | B_has_preset_value string
  | B_get_unconsumed_preset_values
  | B_ignore_unconsumed_preset_values "string \<times> 'j \<Rightarrow> bool"
  | B_get_value_origin string
  | B_get_preset_value_origin string
  | B_lock_preset_value string
  | B_get_cci_value string
  | B_get_param_handle string
  | B_get_param_handles
  | B_register_create_callback cci_callback_untyped_handle
  | B_unregister_create_callback cci_callback_untyped_handle
  | B_register_destroy_callback cci_callback_untyped_handle
  | B_unregister_destroy_callback cci_callback_untyped_handle
  | B_unregister_all_callbacks
  | B_has_callbacks
  | B_is_global_broker
  | B_expose string

datatype ('v, 'j) call =
    On_param pid "('v, 'j) param_call"
  | On_handle hid "('v, 'j) handle_call"
  | On_broker broker_handle "'j broker_call"
  | New_param string 'v tid cci_param_mutable_type cci_name_type "broker_handle option" originator string
  | New_param_cci string 'j tid cci_param_mutable_type cci_name_type "broker_handle option" originator string
  | Delete_param pid
  | New_broker string bool
  | Delete_broker bid
  | Register_broker bid
  | Cci_get_broker
  | Cci_get_global_broker originator

datatype ('v, 'j) answer =
    A_unit
  | A_bool bool
  | A_value 'v
  | A_cci 'j
  | A_string string
  | A_originator originator
  | A_mutable_type cci_param_mutable_type
  | A_category cci_param_data_category
  | A_metadata "(string \<times> 'j \<times> string) list"
  | A_pairs "(string \<times> 'j) list"
  | A_callback cci_callback_untyped_handle
  | A_address address
  | A_handles "hid list"
  | A_broker broker_handle

text \<open>
  User code: it returns (the \<open>bool\<close> is the verdict of a pre-write callback, and is ignored of
  other code), throws, fails an assertion, makes a call and goes on with the answer, or runs a
  \<open>try\<close> block and goes on with its result or with the exception that it caught; destructors of
  local objects are such blocks that throw the exception again.
\<close>

datatype ('v, 'j) prog =
    P_return bool
  | P_throw exn
  | P_abort
  | P_call "('v, 'j) call" "('v, 'j) answer \<Rightarrow> ('v, 'j) prog"
  | P_try "('v, 'j) prog" "exn + bool \<Rightarrow> ('v, 'j) prog"

section \<open>The environment\<close>

text \<open>
  What the library calls and the repository does not hold or the user supplies:
  \<open>pack T v\<close> and \<open>unpack T j\<close> are \<open>cci_value_converter<T>\<close>, with the flag they return and the
  object they leave in a default-constructed destination; \<open>value_eq T\<close> is \<open>operator==\<close> of \<open>T\<close>;
  \<open>category\<close> is \<open>cci_value::category\<close>; \<open>null_value\<close> is \<open>cci_value()\<close>; \<open>is_process\<close> tells
  whether an object is a process; \<open>sc_register_name\<close>, \<open>sc_unregister_name\<close>, \<open>sc_gen_name\<close>,
  \<open>sc_hierarchical_name\<close> and \<open>sc_name_exists\<close> are the functions of SystemC 2.3.2 on its registry of
  hierarchical names; \<open>body cb ev\<close> is the functor of the callback object \<open>cb\<close>.
\<close>

record ('v, 'j) env = sc_env +
  pack :: "tid \<Rightarrow> 'v \<Rightarrow> bool \<times> 'j"
  unpack :: "tid \<Rightarrow> 'j \<Rightarrow> bool \<times> 'v"
  value_eq :: "tid \<Rightarrow> 'v \<Rightarrow> 'v \<Rightarrow> bool"
  category :: "'j \<Rightarrow> cci_value_category"
  null_value :: 'j
  is_process :: "sc_object \<Rightarrow> bool"
  sc_register_name :: "string \<Rightarrow> string set \<Rightarrow> bool \<times> string set"
  sc_unregister_name :: "string \<Rightarrow> string set \<Rightarrow> bool \<times> string set"
  sc_gen_name :: "string \<Rightarrow> string set \<Rightarrow> string \<times> string set"
  sc_hierarchical_name :: "string \<Rightarrow> string set \<Rightarrow> string option"
  sc_name_exists :: "string \<Rightarrow> string set \<Rightarrow> bool"
  body :: "cb_id \<Rightarrow> ('v, 'j) cb_event \<Rightarrow> ('v, 'j) prog"

text \<open>How a component calls a functor: the recursion through user code is left open here.\<close>

type_synonym ('v, 'j) invoker = "callback_ref \<Rightarrow> ('v, 'j) cb_event \<Rightarrow> ('v, 'j, bool) cci"

end
