(* ===== verification/Objects.thy ===== *)
theory Objects
  imports Cci_State
begin

text \<open>
  Access to the objects of the model by address. Reading a member of an object that does not
  exist is \<open>Abort\<close>. All changes of the state go through the functions of this theory, so
  that a relation between states has to be checked for these only.
\<close>

section \<open>Parameters, handles and brokers by address\<close>

definition the_param :: "pid \<Rightarrow> ('v, 'j, ('v, 'j) param) cci" where
  "the_param i s = (case params s i of None \<Rightarrow> (Abort, s) | Some p \<Rightarrow> (Ret p, s))"

definition map_param :: "pid \<Rightarrow> (('v, 'j) param \<Rightarrow> ('v, 'j) param) \<Rightarrow> ('v, 'j) world \<Rightarrow> ('v, 'j) world" where
  "map_param i f s = s\<lparr>params := (params s)(i := map_option f (params s i))\<rparr>"

definition upd_param :: "pid \<Rightarrow> (('v, 'j) param \<Rightarrow> ('v, 'j) param) \<Rightarrow> ('v, 'j, unit) cci" where
  "upd_param i f = bindM (the_param i) (\<lambda>_. modM (map_param i f))"

definition the_handle :: "hid \<Rightarrow> ('v, 'j, param_handle) cci" where
  "the_handle h s = (case handles s h of None \<Rightarrow> (Abort, s) | Some d \<Rightarrow> (Ret d, s))"

definition the_broker :: "bid \<Rightarrow> ('v, 'j, 'j broker) cci" where
  "the_broker b s = (case brokers s b of None \<Rightarrow> (Abort, s) | Some r \<Rightarrow> (Ret r, s))"

definition map_broker :: "bid \<Rightarrow> ('j broker \<Rightarrow> 'j broker) \<Rightarrow> ('v, 'j) world \<Rightarrow> ('v, 'j) world" where
  "map_broker b f s = s\<lparr>brokers := (brokers s)(b := map_option f (brokers s b))\<rparr>"

definition upd_broker :: "bid \<Rightarrow> ('j broker \<Rightarrow> 'j broker) \<Rightarrow> ('v, 'j, unit) cci" where
  "upd_broker b f = bindM (the_broker b) (\<lambda>_. modM (map_broker b f))"

section \<open>The four callback vectors\<close>

text \<open>\<open>m_##name##_callbacks\<close> of the macros.\<close>

fun callbacks_of :: "cbkind \<Rightarrow> ('v, 'j) param \<Rightarrow> callback_obj_vector" where
  "callbacks_of Pre_write p = m_pre_write_callbacks p"
| "callbacks_of Post_write p = m_post_write_callbacks p"
| "callbacks_of Pre_read p = m_pre_read_callbacks p"
| "callbacks_of Post_read p = m_post_read_callbacks p"

fun map_callbacks :: "cbkind \<Rightarrow> (callback_obj_vector \<Rightarrow> callback_obj_vector)
    \<Rightarrow> ('v, 'j) param \<Rightarrow> ('v, 'j) param" where
  "map_callbacks Pre_write f p = p\<lparr>m_pre_write_callbacks := f (m_pre_write_callbacks p)\<rparr>"
| "map_callbacks Post_write f p = p\<lparr>m_post_write_callbacks := f (m_post_write_callbacks p)\<rparr>"
| "map_callbacks Pre_read f p = p\<lparr>m_pre_read_callbacks := f (m_pre_read_callbacks p)\<rparr>"
| "map_callbacks Post_read f p = p\<lparr>m_post_read_callbacks := f (m_post_read_callbacks p)\<rparr>"

definition map_vec :: "cbkind \<Rightarrow> (callback_obj list \<Rightarrow> callback_obj list)
    \<Rightarrow> ('v, 'j) param \<Rightarrow> ('v, 'j) param" where
  "map_vec k f = map_callbacks k (\<lambda>c. c\<lparr>vec := f (vec c)\<rparr>)"

definition set_oncall :: "cbkind \<Rightarrow> bool \<Rightarrow> ('v, 'j) param \<Rightarrow> ('v, 'j) param" where
  "set_oncall k b = map_callbacks k (\<lambda>c. c\<lparr>oncall := b\<rparr>)"

lemma callbacks_of_map [simp]:
  "callbacks_of j (map_callbacks k f p) = (if j = k then f (callbacks_of k p) else callbacks_of j p)"
  by (cases j; cases k) simp_all

lemma vec_map_vec [simp]:
  "vec (callbacks_of j (map_vec k f p)) = (if j = k then f (vec (callbacks_of k p)) else vec (callbacks_of j p))"
  by (simp add: map_vec_def)

lemma oncall_map_vec [simp]: "oncall (callbacks_of j (map_vec k f p)) = oncall (callbacks_of j p)"
  by (simp add: map_vec_def)

lemma vec_set_oncall [simp]: "vec (callbacks_of j (set_oncall k b p)) = vec (callbacks_of j p)"
  by (simp add: set_oncall_def)

lemma oncall_set_oncall [simp]:
  "oncall (callbacks_of j (set_oncall k b p)) = (if j = k then b else oncall (callbacks_of j p))"
  by (simp add: set_oncall_def)

text \<open>A change of the callbacks leaves every other field alone.\<close>

lemma map_callbacks_fields [simp]:
  "m_name (map_callbacks k f p) = m_name p"
  "m_lock_pwd (map_callbacks k f p) = m_lock_pwd p"
  "m_value (map_callbacks k f p) = m_value p"
  "m_default_value (map_callbacks k f p) = m_default_value p"
  "m_value_origin (map_callbacks k f p) = m_value_origin p"
  "m_originator (map_callbacks k f p) = m_originator p"
  "fast_read (map_callbacks k f p) = fast_read p"
  "fast_write (map_callbacks k f p) = fast_write p"
  "p_type (map_callbacks k f p) = p_type p"
  "p_mutability (map_callbacks k f p) = p_mutability p"
  "m_param_handles (map_callbacks k f p) = m_param_handles p"
  "m_broker_handle (map_callbacks k f p) = m_broker_handle p"
  "m_description (map_callbacks k f p) = m_description p"
  "metadata (map_callbacks k f p) = metadata p"
  by (cases k; simp)+

lemma map_callbacks_id [simp]: "map_callbacks k (\<lambda>c. c) p = p"
  by (cases k) simp_all

lemma map_callbacks_comp: "map_callbacks k f (map_callbacks k g p) = map_callbacks k (\<lambda>c. f (g c)) p"
  by (cases k) simp_all

lemma callbacks_of_updates [simp]:
  "callbacks_of k (p\<lparr>m_name := nm\<rparr>) = callbacks_of k p"
  "callbacks_of k (p\<lparr>m_description := d\<rparr>) = callbacks_of k p"
  "callbacks_of k (p\<lparr>metadata := md\<rparr>) = callbacks_of k p"
  "callbacks_of k (p\<lparr>m_lock_pwd := l\<rparr>) = callbacks_of k p"
  "callbacks_of k (p\<lparr>m_value_origin := orig\<rparr>) = callbacks_of k p"
  "callbacks_of k (p\<lparr>m_param_handles := hs\<rparr>) = callbacks_of k p"
  "callbacks_of k (p\<lparr>fast_read := b\<rparr>) = callbacks_of k p"
  "callbacks_of k (p\<lparr>fast_write := b\<rparr>) = callbacks_of k p"
  "callbacks_of k (p\<lparr>m_value := v\<rparr>) = callbacks_of k p"
  by (cases k; simp)+

text \<open>From here on a vector is referred to by its kind.\<close>

declare callbacks_of.simps [simp del]
declare map_callbacks.simps [simp del]

section \<open>Handle objects\<close>

text \<open>
  The state changes of the constructors and the destructor of \<open>cci_param_untyped_handle\<close>:
  a handle object comes to life at a fresh address and is entered at the end of the list of
  its parameter; \<open>detach_handle\<close> is the body of \<open>invalidate\<close>.
\<close>

definition push_handle :: "hid \<Rightarrow> ('v, 'j) param \<Rightarrow> ('v, 'j) param" where
  "push_handle h p = p\<lparr>m_param_handles := m_param_handles p @ [h]\<rparr>"

definition drop_handle :: "hid \<Rightarrow> ('v, 'j) param \<Rightarrow> ('v, 'j) param" where
  "drop_handle h p = p\<lparr>m_param_handles := removeAll h (m_param_handles p)\<rparr>"

definition attach_handle :: "hid \<Rightarrow> pid option \<Rightarrow> originator \<Rightarrow> ('v, 'j) world \<Rightarrow> ('v, 'j) world" where
  "attach_handle h i og s =
     (case i of None \<Rightarrow> s | Some j \<Rightarrow> map_param j (push_handle h) s)
       \<lparr>handles := (handles s)(h := Some \<lparr>m_param = i, h_originator = og\<rparr>)\<rparr>"

definition detach_handle :: "hid \<Rightarrow> ('v, 'j) world \<Rightarrow> ('v, 'j) world" where
  "detach_handle h s =
     (case handles s h of
        None \<Rightarrow> s
      | Some d \<Rightarrow>
          (case m_param d of None \<Rightarrow> s | Some i \<Rightarrow> map_param i (drop_handle h) s)
            \<lparr>handles := (handles s)(h := Some (d\<lparr>m_param := None\<rparr>))\<rparr>)"

definition forget_handle :: "hid \<Rightarrow> ('v, 'j) world \<Rightarrow> ('v, 'j) world" where
  "forget_handle h s = s\<lparr>handles := (handles s)(h := None)\<rparr>"

text \<open>\<open>new_handle\<close> allocates; \<open>destroy_handle\<close> is the destructor.\<close>

definition new_handle :: "pid option \<Rightarrow> originator \<Rightarrow> ('v, 'j) world \<Rightarrow> ('v, 'j) world" where
  "new_handle i og s = attach_handle (next_address s) i og (s\<lparr>next_address := Suc (next_address s)\<rparr>)"

definition destroy_handle :: "hid \<Rightarrow> ('v, 'j) world \<Rightarrow> ('v, 'j) world" where
  "destroy_handle h s = forget_handle h (detach_handle h s)"

text \<open>Allocation as a call: the address of the new handle is the answer.\<close>

definition alloc_handle :: "pid option \<Rightarrow> originator \<Rightarrow> ('v, 'j, hid) cci" where
  "alloc_handle i og s = (Ret (next_address s), new_handle i og s)"

text \<open>
  A local handle object of a block: it is destroyed however the block is left.
\<close>

definition with_handle :: "pid \<Rightarrow> originator \<Rightarrow> (hid \<Rightarrow> ('v, 'j, 'a) cci) \<Rightarrow> ('v, 'j, 'a) cci" where
  "with_handle i og k s =
     (let h = next_address s in guardM (new_handle (Some i) og) (k h) (destroy_handle h) s)"

text \<open>
  \<open>cci_impl::scoped_true oncall(m_..._callbacks.oncall)\<close>: the flag is set for the block and
  cleared however the block is left.
\<close>

definition scoped_true :: "pid \<Rightarrow> cbkind \<Rightarrow> ('v, 'j, 'a) cci \<Rightarrow> ('v, 'j, 'a) cci" where
  "scoped_true i k m = guardM (map_param i (set_oncall k True)) m (map_param i (set_oncall k False))"

section \<open>Lemmas\<close>

lemma the_param_apply: "the_param i s = (case params s i of None \<Rightarrow> (Abort, s) | Some p \<Rightarrow> (Ret p, s))"
  by (rule the_param_def)

lemma the_param_Some [simp]: "params s i = Some p \<Longrightarrow> the_param i s = (Ret p, s)"
  by (simp add: the_param_def)

lemma bind_the_param [simp]:
  "params s i = Some p \<Longrightarrow> bindM (the_param i) f s = f p s"
  by (simp add: bindM_def)

lemma params_map_param [simp]:
  "params (map_param i f s) j = (if j = i then map_option f (params s i) else params s j)"
  by (simp add: map_param_def)

lemma map_param_other [simp]:
  "handles (map_param i f s) = handles s" "brokers (map_param i f s) = brokers s"
  "m_brokers (map_param i f s) = m_brokers s" "next_address (map_param i f s) = next_address s"
  "sc_names (map_param i f s) = sc_names s" "reports (map_param i f s) = reports s"
  by (simp_all add: map_param_def)

lemma map_param_Some: "params s i = Some p \<Longrightarrow> map_param i f s = s\<lparr>params := (params s)(i := Some (f p))\<rparr>"
  by (simp add: map_param_def)

lemma upd_param_Some [simp]: "params s i = Some p \<Longrightarrow> upd_param i f s = (Ret (), map_param i f s)"
  by (simp add: upd_param_def)

lemma bind_upd_param [simp]:
  "params s i = Some p \<Longrightarrow> bindM (upd_param i f) k s = k () (map_param i f s)"
  by (simp add: bindM_def)

lemma the_broker_Some [simp]: "brokers s b = Some r \<Longrightarrow> the_broker b s = (Ret r, s)"
  by (simp add: the_broker_def)

lemma bind_the_broker [simp]: "brokers s b = Some r \<Longrightarrow> bindM (the_broker b) f s = f r s"
  by (simp add: bindM_def)

lemma brokers_map_broker [simp]:
  "brokers (map_broker b f s) c = (if c = b then map_option f (brokers s b) else brokers s c)"
  by (simp add: map_broker_def)

lemma map_broker_other [simp]:
  "handles (map_broker b f s) = handles s" "params (map_broker b f s) = params s"
  "m_brokers (map_broker b f s) = m_brokers s" "next_address (map_broker b f s) = next_address s"
  "sc_names (map_broker b f s) = sc_names s" "reports (map_broker b f s) = reports s"
  by (simp_all add: map_broker_def)

lemma upd_broker_Some [simp]: "brokers s b = Some r \<Longrightarrow> upd_broker b f s = (Ret (), map_broker b f s)"
  by (simp add: upd_broker_def)

lemma bind_upd_broker [simp]:
  "brokers s b = Some r \<Longrightarrow> bindM (upd_broker b f) k s = k () (map_broker b f s)"
  by (simp add: bindM_def)

lemma the_handle_Some [simp]: "handles s h = Some d \<Longrightarrow> the_handle h s = (Ret d, s)"
  by (simp add: the_handle_def)

lemma bind_the_handle [simp]: "handles s h = Some d \<Longrightarrow> bindM (the_handle h) f s = f d s"
  by (simp add: bindM_def)

lemma refines_with_handle [refines_intros]:
  "(\<And>h. refines (f h) (g h)) \<Longrightarrow> refines (with_handle i og f) (with_handle i og g)"
proof (rule refinesI)
  fix s
  assume r: "\<And>h. refines (f h) (g h)" and nf: "fst (with_handle i og f s) \<noteq> NoFuel"
  let ?h = "next_address s"
  have "refines (guardM (new_handle (Some i) og) (f ?h) (destroy_handle ?h))
      (guardM (new_handle (Some i) og) (g ?h) (destroy_handle ?h))"
    by (rule refines_guardM) (rule r)
  with nf show "with_handle i og f s = with_handle i og g s"
    unfolding with_handle_def refines_def Let_def by blast
qed

lemma refines_scoped_true [refines_intros]:
  "refines f g \<Longrightarrow> refines (scoped_true i k f) (scoped_true i k g)"
  by (simp add: scoped_true_def refines_guardM)

end
