(* ===== verification/Callback_Lists.thy ===== *)
theory Callback_Lists
  imports Objects
begin

text \<open>
  Callback lists: parameters hold four of them, brokers two, and both register, unregister
  and unregister all callbacks of an originator in the same way. The locale
  \<open>callback_owner\<close> is that contract; \<open>Param_Untyped\<close> and \<open>Consuming_Broker\<close> interpret it on their
  own operations. \<open>unregister_all_callbacks\<close> erases while it iterates and steps over the
  element after each erased one (\<open>erase_step_over\<close>).
\<close>

section \<open>The operations on one list\<close>

text \<open>
  Two handles are equal if they hold the same callback object (\<open>get() == that.get()\<close>; an
  adapter answers \<open>get\<close> with the object it adapts).
\<close>

definition callback_eq :: "cci_callback_untyped_handle \<Rightarrow> cci_callback_untyped_handle \<Rightarrow> bool" where
  "callback_eq a b \<longleftrightarrow> map_option cb_object a = map_option cb_object b"

definition same_callback :: "'x sc_env_scheme \<Rightarrow> cci_callback_untyped_handle \<Rightarrow> originator
    \<Rightarrow> callback_obj \<Rightarrow> bool" where
  "same_callback E cb og it \<longleftrightarrow> callback_eq (callback it) cb \<and> originator_eq E (cb_originator it) og"

definition same_originator :: "'x sc_env_scheme \<Rightarrow> originator \<Rightarrow> callback_obj \<Rightarrow> bool" where
  "same_originator E og it \<longleftrightarrow> originator_eq E (cb_originator it) og"

definition new_callback :: "cci_callback_untyped_handle \<Rightarrow> originator \<Rightarrow> callback_obj" where
  "new_callback cb og = \<lparr>callback = cb, cb_originator = og\<rparr>"

lemma callback_eq_refl [simp]: "callback_eq a a"
  by (simp add: callback_eq_def)

lemma same_callback_new [simp]: "same_callback E cb og (new_callback cb og)"
  by (simp add: same_callback_def new_callback_def)

lemma same_originator_new [simp]:
  "same_originator E og (new_callback cb og') \<longleftrightarrow> originator_eq E og' og"
  by (simp add: same_originator_def new_callback_def)

text \<open>The loop that steps over an element never erases one that does not satisfy the test.\<close>

lemma erase_step_over_keeps: "x \<in> set xs \<Longrightarrow> \<not> P x \<Longrightarrow> x \<in> set (erase_step_over P xs)"
proof (induction P xs rule: erase_step_over.induct)
  case (1 P)
  then show ?case by simp
next
  case (2 P y ys)
  then show ?case by (cases ys) auto
qed

section \<open>The interface\<close>

text \<open>
  \<open>cbs\<close> reads the list, \<open>reg\<close>, \<open>unreg\<close> and \<open>unreg_all\<close> are the operations; what they promise is
  their effect on the list and their result.
\<close>

locale callback_owner =
  fixes E :: "'x sc_env_scheme"
    and cbs :: "'s \<Rightarrow> callback_obj list"
    and reg :: "cci_callback_untyped_handle \<Rightarrow> originator \<Rightarrow> 's \<Rightarrow> 's"
    and unreg :: "cci_callback_untyped_handle \<Rightarrow> originator \<Rightarrow> 's \<Rightarrow> bool \<times> 's"
    and unreg_all :: "originator \<Rightarrow> 's \<Rightarrow> bool \<times> 's"
  assumes cbs_reg: "cbs (reg cb og s) = cbs s @ [new_callback cb og]"
    and unreg_result: "fst (unreg cb og s) \<longleftrightarrow> (\<exists>it \<in> set (cbs s). same_callback E cb og it)"
    and cbs_unreg: "cbs (snd (unreg cb og s)) = erase_first (same_callback E cb og) (cbs s)"
    and cbs_unreg_all: "cbs (snd (unreg_all og s)) = erase_step_over (same_originator E og) (cbs s)"
    and unreg_all_result: "(\<exists>it \<in> set (cbs s). same_originator E og it) \<Longrightarrow> fst (unreg_all og s)"
begin

text \<open>A registered callback can be unregistered with the same handle and originator.\<close>

lemma unreg_after_reg: "fst (unreg cb og (reg cb og s))"
  by (simp add: unreg_result cbs_reg)

text \<open>\<open>unreg\<close> removes the first match and leaves the order of the rest.\<close>

lemma unreg_removes_one:
  assumes "fst (unreg cb og s)"
  shows "\<exists>us it vs. cbs s = us @ it # vs \<and> same_callback E cb og it
           \<and> (\<forall>u \<in> set us. \<not> same_callback E cb og u) \<and> cbs (snd (unreg cb og s)) = us @ vs"
  using assms erase_first_split [of "cbs s" "same_callback E cb og"]
  by (simp add: unreg_result cbs_unreg)

text \<open>An unsuccessful \<open>unreg\<close> changes no list.\<close>

lemma unreg_false: "\<not> fst (unreg cb og s) \<Longrightarrow> cbs (snd (unreg cb og s)) = cbs s"
  by (simp add: unreg_result cbs_unreg)

text \<open>
  After \<open>unreg_all\<close> no callback of the originator is left if no two of them were neighbours;
  in general some can be left.
\<close>

lemma unreg_all_complete:
  "no_neighbours (same_originator E og) (cbs s) \<Longrightarrow>
   cbs (snd (unreg_all og s)) = filter (\<lambda>it. \<not> same_originator E og it) (cbs s)"
  by (simp add: cbs_unreg_all erase_step_over_filter)

lemma unreg_all_leaves_neighbour:
  assumes "cbs s = us @ [a, b] @ vs" and "\<forall>u \<in> set us. \<not> same_originator E og u"
    and "same_originator E og a"
  shows "b \<in> set (cbs (snd (unreg_all og s)))"
proof -
  have "b \<in> set (erase_step_over (same_originator E og) (us @ [a, b] @ vs))"
    using assms(2)
  proof (induction us)
    case Nil
    show ?case using assms(3) by simp
  next
    case (Cons u us)
    then show ?case by simp
  qed
  with assms(1) show ?thesis by (simp add: cbs_unreg_all)
qed

text \<open>Callbacks of other originators survive.\<close>

lemma unreg_all_keeps_others:
  assumes "it \<in> set (cbs s)" and "\<not> same_originator E og it"
  shows "it \<in> set (cbs (snd (unreg_all og s)))"
  using assms by (simp add: cbs_unreg_all erase_step_over_keeps)

lemma unreg_all_subset: "set (cbs (snd (unreg_all og s))) \<subseteq> set (cbs s)"
  by (simp add: cbs_unreg_all set_erase_step_over_subset)

end

end
