(* ===== verification/Param_Untyped.thy ===== *)
theory Param_Untyped
  imports Callback_Lists
begin

text \<open>
  \<open>cci_param_untyped\<close> (src/src/cci/cfg/cci_param_untyped.h and .cpp): the part of a parameter
  that does not depend on the type of its value. Operations on one parameter are functions
  on the record; \<open>on_param\<close> runs them on the parameter at an address.
\<close>

section \<open>Description and metadata\<close>

definition set_description :: "string \<Rightarrow> ('v, 'j) param \<Rightarrow> ('v, 'j) param" where
  "set_description d p = p\<lparr>m_description := d\<rparr>"

definition get_description :: "('v, 'j) param \<Rightarrow> string" where
  "get_description p = m_description p"

text \<open>
  \<open>metadata.push_entry(name, list(value, desc))\<close>: the member is appended, also when the name
  is already there.
\<close>

definition add_metadata :: "string \<Rightarrow> 'j \<Rightarrow> string \<Rightarrow> ('v, 'j) param \<Rightarrow> ('v, 'j) param" where
  "add_metadata nm val desc p = p\<lparr>metadata := metadata p @ [(nm, val, desc)]\<rparr>"

definition get_metadata :: "('v, 'j) param \<Rightarrow> (string \<times> 'j \<times> string) list" where
  "get_metadata p = metadata p"

section \<open>Queries\<close>

definition param_name :: "('v, 'j) param \<Rightarrow> string" where
  "param_name p = c_str (m_name p)"

definition get_value_origin :: "('v, 'j) param \<Rightarrow> originator" where
  "get_value_origin p = m_value_origin p"

definition get_originator :: "('v, 'j) param \<Rightarrow> originator" where
  "get_originator p = m_originator p"

definition set_cci_value_allowed :: "'x sc_env_scheme \<Rightarrow> ('v, 'j) param \<Rightarrow> cci_param_mutable_type
    \<Rightarrow> ('v, 'j, bool) cci" where
  "set_cci_value_allowed E p mutability =
     (if mutability = CCI_IMMUTABLE_PARAM
      then thenM (set_param_failed E (''Parameter ('' @ param_name p @ '') is immutable.''))
                 (retM False)
      else retM True)"

section \<open>Callbacks\<close>

text \<open>The macro \<open>CCI_PARAM_UNTYPED_CALLBACK_IMPL_\<close>, for each of its four names.\<close>

definition untyped_register_callback :: "cbkind \<Rightarrow> cci_callback_untyped_handle \<Rightarrow> originator
    \<Rightarrow> ('v, 'j) param \<Rightarrow> ('v, 'j) param" where
  "untyped_register_callback k cb og p =
     map_vec k (\<lambda>v. v @ [new_callback cb og]) (p\<lparr>fast_read := False, fast_write := False\<rparr>)"

definition untyped_unregister_callback :: "'x sc_env_scheme \<Rightarrow> cbkind \<Rightarrow> cci_callback_untyped_handle
    \<Rightarrow> originator \<Rightarrow> ('v, 'j) param \<Rightarrow> bool \<times> ('v, 'j) param" where
  "untyped_unregister_callback E k cb og p =
     (if \<exists>it \<in> set (vec (callbacks_of k p)). same_callback E cb og it
      then (True, map_vec k (erase_first (same_callback E cb og)) p)
      else (False, p))"

text \<open>
  The loop of \<open>unregister_all_callbacks\<close> over one vector: whether something was erased, and
  what is left.
\<close>

definition erase_all_of :: "'x sc_env_scheme \<Rightarrow> originator \<Rightarrow> cbkind \<Rightarrow> bool \<times> ('v, 'j) param
    \<Rightarrow> bool \<times> ('v, 'j) param" where
  "erase_all_of E og k r =
     (case r of (result, p) \<Rightarrow>
        (result \<or> (\<exists>it \<in> set (vec (callbacks_of k p)). same_originator E og it),
         map_vec k (erase_step_over (same_originator E og)) p))"

definition untyped_unregister_all_callbacks :: "'x sc_env_scheme \<Rightarrow> originator \<Rightarrow> ('v, 'j) param
    \<Rightarrow> bool \<times> ('v, 'j) param" where
  "untyped_unregister_all_callbacks E og p =
     erase_all_of E og Post_read (erase_all_of E og Pre_read
       (erase_all_of E og Post_write (erase_all_of E og Pre_write (False, p))))"

definition has_callbacks :: "('v, 'j) param \<Rightarrow> bool" where
  "has_callbacks p \<longleftrightarrow> vec (m_post_write_callbacks p) \<noteq> [] \<or> vec (m_pre_write_callbacks p) \<noteq> []"

section \<open>The lock\<close>

text \<open>\<open>this\<close> is the address of the parameter, the key that stands for \<open>NULL\<close>.\<close>

definition untyped_lock :: "address \<Rightarrow> address option \<Rightarrow> ('v, 'j) param \<Rightarrow> bool \<times> ('v, 'j) param" where
  "untyped_lock this pwd p =
     (let pwd = (if pwd = None then Some this else pwd)
      in if pwd \<noteq> m_lock_pwd p \<and> m_lock_pwd p \<noteq> None then (False, p)
         else (True, p\<lparr>m_lock_pwd := pwd\<rparr>))"

definition unlock :: "address \<Rightarrow> address option \<Rightarrow> ('v, 'j) param \<Rightarrow> bool \<times> ('v, 'j) param" where
  "unlock this pwd p =
     (let pwd = (if pwd = None then Some this else pwd)
      in if pwd = m_lock_pwd p then (True, p\<lparr>m_lock_pwd := None\<rparr>) else (False, p))"

definition is_locked :: "('v, 'j) param \<Rightarrow> bool" where
  "is_locked p \<longleftrightarrow> m_lock_pwd p \<noteq> None"

section \<open>Handles\<close>

text \<open>
  \<open>invalidate_all_param_handles\<close>: the loop ends when the list is empty; every handle removes
  itself from the list of its parameter.
\<close>

fun invalidate_all_param_handles :: "nat \<Rightarrow> pid \<Rightarrow> ('v, 'j, unit) cci" where
  "invalidate_all_param_handles 0 i = nofuelM"
| "invalidate_all_param_handles (Suc n) i =
     bindM (the_param i) (\<lambda>p.
       case m_param_handles p of
         [] \<Rightarrow> skipM
       | h # hs \<Rightarrow>
           bindM (the_handle h) (\<lambda>_.
             thenM (modM (detach_handle h)) (invalidate_all_param_handles n i)))"

section \<open>Operations at an address\<close>

definition on_param :: "pid \<Rightarrow> (('v, 'j) param \<Rightarrow> 'a \<times> ('v, 'j) param) \<Rightarrow> ('v, 'j, 'a) cci" where
  "on_param i f = bindM (the_param i) (\<lambda>p.
     thenM (modM (map_param i (\<lambda>p. snd (f p)))) (retM (fst (f p))))"

definition read_param :: "pid \<Rightarrow> (('v, 'j) param \<Rightarrow> 'a) \<Rightarrow> ('v, 'j, 'a) cci" where
  "read_param i f = bindM (the_param i) (\<lambda>p. retM (f p))"

lemma on_param_Some: "params s i = Some p \<Longrightarrow>
    on_param i f s = (Ret (fst (f p)), map_param i (\<lambda>_. snd (f p)) s)"
  by (simp add: on_param_def bindM_def map_param_def)

lemma read_param_Some [simp]: "params s i = Some p \<Longrightarrow> read_param i f s = (Ret (f p), s)"
  by (simp add: read_param_def)

section \<open>Callback lists\<close>

lemma vec_erase_all_of [simp]:
  "vec (callbacks_of j (snd (erase_all_of E og k r))) =
     (if j = k then erase_step_over (same_originator E og) (vec (callbacks_of k (snd r)))
      else vec (callbacks_of j (snd r)))"
  by (cases r) (simp add: erase_all_of_def)

lemma fst_erase_all_of [simp]:
  "fst (erase_all_of E og k r) \<longleftrightarrow>
     fst r \<or> (\<exists>it \<in> set (vec (callbacks_of k (snd r))). same_originator E og it)"
  by (cases r) (simp add: erase_all_of_def)

lemma vec_unregister_all:
  "vec (callbacks_of k (snd (untyped_unregister_all_callbacks E og p))) =
     erase_step_over (same_originator E og) (vec (callbacks_of k p))"
  by (cases k) (simp_all add: untyped_unregister_all_callbacks_def)

lemma fst_unregister_all:
  "fst (untyped_unregister_all_callbacks E og p) \<longleftrightarrow>
     (\<exists>k. \<exists>it \<in> set (vec (callbacks_of k p)). same_originator E og it)"
proof -
  have ex: "(\<exists>k. Q k) \<longleftrightarrow> Q Pre_write \<or> Q Post_write \<or> Q Pre_read \<or> Q Post_read" for Q
    by (metis cbkind.exhaust)
  show ?thesis by (auto simp add: untyped_unregister_all_callbacks_def ex)
qed

text \<open>Each of the four lists is a callback list in the sense of \<open>Callback_Lists\<close>.\<close>

interpretation param_cbs: callback_owner E "\<lambda>p. vec (callbacks_of k p)"
    "untyped_register_callback k" "untyped_unregister_callback E k" "untyped_unregister_all_callbacks E"
  for E k
proof
  show "vec (callbacks_of k (untyped_register_callback k cb og p)) =
      vec (callbacks_of k p) @ [new_callback cb og]" for cb og p
    by (simp add: untyped_register_callback_def)
  show "vec (callbacks_of k (snd (untyped_unregister_callback E k cb og p))) =
      erase_first (same_callback E cb og) (vec (callbacks_of k p))" for cb og p
    by (simp add: untyped_unregister_callback_def)
  show "fst (untyped_unregister_callback E k cb og p) =
      (\<exists>it \<in> set (vec (callbacks_of k p)). same_callback E cb og it)" for cb og p
    by (simp add: untyped_unregister_callback_def)
  show "vec (callbacks_of k (snd (untyped_unregister_all_callbacks E og p))) =
      erase_step_over (same_originator E og) (vec (callbacks_of k p))" for og p
    by (rule vec_unregister_all)
  show "\<exists>it \<in> set (vec (callbacks_of k p)). same_originator E og it \<Longrightarrow>
      fst (untyped_unregister_all_callbacks E og p)" for og p
    by (auto simp: fst_unregister_all)
qed

end
