(* ===== verification/Consuming_Broker.thy ===== *)
theory Consuming_Broker
  imports Param_Untyped
begin

text \<open>
  \<open>cci_utils::consuming_broker\<close> (src/src/cci/utils/consuming_broker.h and .cpp): the database of
  preset values, split into the used ones (a parameter of that name exists) and the unused
  ones; the originators of the preset values; the locked names; the registry of parameters;
  the create and destroy callbacks. Operations on one broker are functions on the record.
  \<open>add_param\<close>, \<open>remove_param\<close> and \<open>get_cci_value\<close>, which run user code, are in later theories.
\<close>

section \<open>Preset values\<close>

definition consuming_has_preset_value :: "string \<Rightarrow> 'j broker \<Rightarrow> bool" where
  "consuming_has_preset_value nm r \<longleftrightarrow>
     (if map_find nm (m_used_value_registry r) \<noteq> None then True
      else if map_find nm (m_unused_value_registry r) \<noteq> None then True
      else False)"

definition consuming_get_preset_cci_value :: "('v, 'j) env \<Rightarrow> string \<Rightarrow> 'j broker \<Rightarrow> 'j" where
  "consuming_get_preset_cci_value E nm r =
     (case map_find nm (m_used_value_registry r) of
        Some x \<Rightarrow> x
      | None \<Rightarrow> (case map_find nm (m_unused_value_registry r) of
                  Some x \<Rightarrow> x
                | None \<Rightarrow> null_value E))"

text \<open>The part of \<open>set_preset_cci_value\<close> behind the check of the lock.\<close>

definition store_preset :: "string \<Rightarrow> 'j \<Rightarrow> originator \<Rightarrow> 'j broker \<Rightarrow> 'j broker" where
  "store_preset nm x og r =
     (let r = (case map_find nm (m_used_value_registry r) of
                 Some _ \<Rightarrow> r\<lparr>m_used_value_registry := map_assign nm x (m_used_value_registry r)\<rparr>
               | None \<Rightarrow> r\<lparr>m_unused_value_registry := map_assign nm x (m_unused_value_registry r)\<rparr>)
      in case map_find nm (m_preset_value_originator_map r) of
           Some _ \<Rightarrow> r\<lparr>m_preset_value_originator_map := map_assign nm og (m_preset_value_originator_map r)\<rparr>
         | None \<Rightarrow> r\<lparr>m_preset_value_originator_map := map_insert nm og (m_preset_value_originator_map r)\<rparr>)"

definition consuming_set_preset_cci_value :: "'x sc_env_scheme \<Rightarrow> string \<Rightarrow> 'j \<Rightarrow> originator \<Rightarrow> bid
    \<Rightarrow> ('v, 'j, unit) cci" where
  "consuming_set_preset_cci_value E nm x og b =
     bindM (the_broker b) (\<lambda>r.
       if nm \<in> locked r
       then set_param_failed E ''Setting preset value failed (parameter locked).''
       else modM (map_broker b (store_preset nm x og)))"

definition consuming_lock_preset_value :: "string \<Rightarrow> 'j broker \<Rightarrow> 'j broker" where
  "consuming_lock_preset_value nm r = r\<lparr>locked := insert nm (locked r)\<rparr>"

definition consuming_get_preset_value_origin :: "string \<Rightarrow> 'j broker \<Rightarrow> originator" where
  "consuming_get_preset_value_origin nm r =
     (case map_find nm (m_preset_value_originator_map r) of
        Some og \<Rightarrow> og
      | None \<Rightarrow> unknown_originator)"

section \<open>Unconsumed preset values\<close>

text \<open>The inner loop: does one of the predicates ignore the entry?\<close>

fun ignored_by :: "(string \<times> 'j \<Rightarrow> bool) list \<Rightarrow> string \<times> 'j \<Rightarrow> bool" where
  "ignored_by [] e \<longleftrightarrow> False"
| "ignored_by (p # ps) e \<longleftrightarrow> (if p e then True else ignored_by ps e)"

fun collect_unconsumed :: "(string \<times> 'j \<Rightarrow> bool) list \<Rightarrow> (string, 'j) std_map
    \<Rightarrow> (string \<times> 'j) list \<Rightarrow> (string \<times> 'j) list" where
  "collect_unconsumed ps [] acc = acc"
| "collect_unconsumed ps (e # es) acc =
     collect_unconsumed ps es (if ignored_by ps e then acc else acc @ [e])"

definition get_unconsumed_preset_values :: "'j broker \<Rightarrow> (string \<times> 'j) list" where
  "get_unconsumed_preset_values r =
     collect_unconsumed (m_ignored_unconsumed_predicates r) (m_unused_value_registry r) []"

definition ignore_unconsumed_preset_values :: "(string \<times> 'j \<Rightarrow> bool) \<Rightarrow> 'j broker \<Rightarrow> 'j broker" where
  "ignore_unconsumed_preset_values pred r =
     r\<lparr>m_ignored_unconsumed_predicates := m_ignored_unconsumed_predicates r @ [pred]\<rparr>"

section \<open>Parameters\<close>

definition get_orig_param :: "string \<Rightarrow> 'j broker \<Rightarrow> pid option" where
  "get_orig_param nm r = map_find nm (m_param_registry r)"

definition consuming_get_value_origin :: "string \<Rightarrow> bid \<Rightarrow> ('v, 'j, originator) cci" where
  "consuming_get_value_origin nm b =
     bindM (the_broker b) (\<lambda>r.
       case get_orig_param nm r of
         Some i \<Rightarrow> read_param i get_value_origin
       | None \<Rightarrow> (case map_find nm (m_preset_value_originator_map r) of
                   Some og \<Rightarrow> retM og
                 | None \<Rightarrow> retM unknown_originator))"

text \<open>
  A handle of a parameter that lives, or an invalid one; using a parameter that does not
  live any more is \<open>Abort\<close>.
\<close>

definition handle_to :: "pid \<Rightarrow> originator \<Rightarrow> ('v, 'j, hid) cci" where
  "handle_to i og = bindM (the_param i) (\<lambda>_. alloc_handle (Some i) og)"

definition consuming_get_param_handle :: "string \<Rightarrow> originator \<Rightarrow> bid \<Rightarrow> ('v, 'j, hid) cci" where
  "consuming_get_param_handle nm og b =
     bindM (the_broker b) (\<lambda>r.
       case get_orig_param nm r of
         Some i \<Rightarrow> handle_to i og
       | None \<Rightarrow> alloc_handle None og)"

text \<open>
  The vector of handles in the order of the names. A handle is moved into the vector, and
  the move constructor promotes its originator to the current object.
\<close>

fun handles_of :: "'x sc_env_scheme \<Rightarrow> originator \<Rightarrow> (string, pid) std_map \<Rightarrow> ('v, 'j, hid list) cci" where
  "handles_of E og [] = retM []"
| "handles_of E og ((nm, i) # es) =
     bindM (promote_originator E og) (\<lambda>og'.
       bindM (handle_to i og') (\<lambda>h.
         bindM (handles_of E og es) (\<lambda>hs. retM (h # hs))))"

definition consuming_get_param_handles :: "'x sc_env_scheme \<Rightarrow> originator \<Rightarrow> bid \<Rightarrow> ('v, 'j, hid list) cci" where
  "consuming_get_param_handles E og b =
     bindM (the_broker b) (\<lambda>r. handles_of E og (m_param_registry r))"

section \<open>Create and destroy callbacks\<close>

definition register_create_callback :: "cci_callback_untyped_handle \<Rightarrow> originator \<Rightarrow> 'j broker \<Rightarrow> 'j broker" where
  "register_create_callback cb og r = r\<lparr>m_create_callbacks := m_create_callbacks r @ [new_callback cb og]\<rparr>"

definition unregister_create_callback :: "'x sc_env_scheme \<Rightarrow> cci_callback_untyped_handle \<Rightarrow> originator
    \<Rightarrow> 'j broker \<Rightarrow> bool \<times> 'j broker" where
  "unregister_create_callback E cb og r =
     (if \<exists>it \<in> set (m_create_callbacks r). same_callback E cb og it
      then (True, r\<lparr>m_create_callbacks := erase_first (same_callback E cb og) (m_create_callbacks r)\<rparr>)
      else (False, r))"

definition register_destroy_callback :: "cci_callback_untyped_handle \<Rightarrow> originator \<Rightarrow> 'j broker \<Rightarrow> 'j broker" where
  "register_destroy_callback cb og r = r\<lparr>m_destroy_callbacks := m_destroy_callbacks r @ [new_callback cb og]\<rparr>"

definition unregister_destroy_callback :: "'x sc_env_scheme \<Rightarrow> cci_callback_untyped_handle \<Rightarrow> originator
    \<Rightarrow> 'j broker \<Rightarrow> bool \<times> 'j broker" where
  "unregister_destroy_callback E cb og r =
     (if \<exists>it \<in> set (m_destroy_callbacks r). same_callback E cb og it
      then (True, r\<lparr>m_destroy_callbacks := erase_first (same_callback E cb og) (m_destroy_callbacks r)\<rparr>)
      else (False, r))"

definition broker_unregister_all_callbacks :: "'x sc_env_scheme \<Rightarrow> originator \<Rightarrow> 'j broker \<Rightarrow> bool \<times> 'j broker" where
  "broker_unregister_all_callbacks E og r =
     ((\<exists>it \<in> set (m_create_callbacks r). same_originator E og it)
        \<or> (\<exists>it \<in> set (m_destroy_callbacks r). same_originator E og it),
      r\<lparr>m_create_callbacks := erase_step_over (same_originator E og) (m_create_callbacks r),
        m_destroy_callbacks := erase_step_over (same_originator E og) (m_destroy_callbacks r)\<rparr>)"

definition broker_has_callbacks :: "'j broker \<Rightarrow> bool" where
  "broker_has_callbacks r \<longleftrightarrow> m_create_callbacks r \<noteq> [] \<or> m_destroy_callbacks r \<noteq> []"

section \<open>Operations at an address\<close>

definition on_broker :: "bid \<Rightarrow> ('j broker \<Rightarrow> 'a \<times> 'j broker) \<Rightarrow> ('v, 'j, 'a) cci" where
  "on_broker b f = bindM (the_broker b) (\<lambda>r.
     thenM (modM (map_broker b (\<lambda>r. snd (f r)))) (retM (fst (f r))))"

definition read_broker :: "bid \<Rightarrow> ('j broker \<Rightarrow> 'a) \<Rightarrow> ('v, 'j, 'a) cci" where
  "read_broker b f = bindM (the_broker b) (\<lambda>r. retM (f r))"

lemma read_broker_Some [simp]: "brokers s b = Some r \<Longrightarrow> read_broker b f s = (Ret (f r), s)"
  by (simp add: read_broker_def)

lemma on_broker_Some: "brokers s b = Some r \<Longrightarrow>
    on_broker b f s = (Ret (fst (f r)), map_broker b (\<lambda>_. snd (f r)) s)"
  by (simp add: on_broker_def bindM_def map_broker_def)

section \<open>The invariant of a broker\<close>

text \<open>
  The three databases are sorted, a name is in at most one of the used and the unused
  values, and every preset value has an originator.
\<close>

definition broker_inv :: "'j broker \<Rightarrow> bool" where
  "broker_inv r \<longleftrightarrow>
     sorted_map (m_param_registry r) \<and> sorted_map (m_unused_value_registry r)
     \<and> sorted_map (m_used_value_registry r) \<and> sorted_map (m_preset_value_originator_map r)
     \<and> map_keys (m_used_value_registry r) \<inter> map_keys (m_unused_value_registry r) = {}
     \<and> map_keys (m_used_value_registry r) \<union> map_keys (m_unused_value_registry r)
         \<subseteq> map_keys (m_preset_value_originator_map r)"

lemma store_preset_cases:
  obtains (used) "map_find nm (m_used_value_registry r) \<noteq> None"
      "store_preset nm x og r =
        r\<lparr>m_used_value_registry := map_assign nm x (m_used_value_registry r),
          m_preset_value_originator_map := map_assign nm og (m_preset_value_originator_map r)\<rparr>"
  | (unused) "map_find nm (m_used_value_registry r) = None"
      "store_preset nm x og r =
        r\<lparr>m_unused_value_registry := map_assign nm x (m_unused_value_registry r),
          m_preset_value_originator_map := map_assign nm og (m_preset_value_originator_map r)\<rparr>"
proof (cases "map_find nm (m_used_value_registry r)")
  case None
  then show ?thesis
    by (intro unused) (auto simp: store_preset_def Let_def map_insert_def split: option.splits)
next
  case (Some y)
  then show ?thesis
    by (intro used) (auto simp: store_preset_def Let_def map_insert_def split: option.splits)
qed

lemma store_preset_inv: "broker_inv r \<Longrightarrow> broker_inv (store_preset nm x og r)"
  by (cases r rule: store_preset_cases [of nm _ x og])
    (auto simp: broker_inv_def sorted_map_assign map_find_None_iff)

lemma lock_preset_inv: "broker_inv r \<Longrightarrow> broker_inv (consuming_lock_preset_value nm r)"
  by (simp add: broker_inv_def consuming_lock_preset_value_def)

text \<open>The loops over the unused values are a filter.\<close>

lemma ignored_by_iff: "ignored_by ps e \<longleftrightarrow> (\<exists>p \<in> set ps. p e)"
  by (induction ps) auto

lemma collect_unconsumed_filter:
  "collect_unconsumed ps es acc = acc @ filter (\<lambda>e. \<not> (\<exists>p \<in> set ps. p e)) es"
  by (induction es arbitrary: acc) (auto simp: ignored_by_iff)

lemma get_unconsumed_filter:
  "get_unconsumed_preset_values r =
     filter (\<lambda>e. \<not> (\<exists>p \<in> set (m_ignored_unconsumed_predicates r). p e)) (m_unused_value_registry r)"
  by (simp add: get_unconsumed_preset_values_def collect_unconsumed_filter)

text \<open>Preset values are read back.\<close>

lemma get_preset_store [simp]:
  "consuming_get_preset_cci_value E j (store_preset nm x og r) =
     (if j = nm then x else consuming_get_preset_cci_value E j r)"
  by (cases r rule: store_preset_cases [of nm _ x og])
    (auto simp: consuming_get_preset_cci_value_def split: option.splits)

lemma has_preset_store [simp]:
  "consuming_has_preset_value j (store_preset nm x og r) \<longleftrightarrow> j = nm \<or> consuming_has_preset_value j r"
  by (cases r rule: store_preset_cases [of nm _ x og])
    (auto simp: consuming_has_preset_value_def)

lemma preset_origin_store [simp]:
  "consuming_get_preset_value_origin j (store_preset nm x og r) =
     (if j = nm then og else consuming_get_preset_value_origin j r)"
  by (cases r rule: store_preset_cases [of nm _ x og])
    (auto simp: consuming_get_preset_value_origin_def)

section \<open>Callback lists\<close>

interpretation create_cbs: callback_owner E m_create_callbacks register_create_callback
    "unregister_create_callback E" "broker_unregister_all_callbacks E" for E
  by unfold_locales
    (auto simp: register_create_callback_def unregister_create_callback_def
      broker_unregister_all_callbacks_def)

interpretation destroy_cbs: callback_owner E m_destroy_callbacks register_destroy_callback
    "unregister_destroy_callback E" "broker_unregister_all_callbacks E" for E
  by unfold_locales
    (auto simp: register_destroy_callback_def unregister_destroy_callback_def
      broker_unregister_all_callbacks_def)

end
