(* ===== verification/Broker.thy ===== *)
theory Broker
  imports Consuming_Broker
begin

text \<open>
  \<open>cci_utils::broker\<close> (src/src/cci/utils/broker.h and .cpp): a consuming broker that passes the
  operations on exposed names to the broker of the enclosing hierarchy. Every operation here
  is the virtual one of \<open>cci_broker_if\<close>: on a plain consuming broker it is the operation of
  \<open>Consuming_Broker\<close>. The chain of parents is followed with fuel; \<open>parents_below\<close>, which
  construction establishes, bounds its length by the address of the broker.
\<close>

section \<open>Where an operation goes\<close>

definition is_global_broker :: "'j broker \<Rightarrow> bool" where
  "is_global_broker r \<longleftrightarrow> (if b_forwarding r then \<not> has_parent r else False)"

definition sendToParent :: "string \<Rightarrow> 'j broker \<Rightarrow> bool" where
  "sendToParent nm r \<longleftrightarrow> nm \<in> expose r \<and> \<not> is_global_broker r"

text \<open>
  The shape of the forwarding operations: \<open>if (sendToParent(parname)) m_parent.op(...)\<close>,
  otherwise \<open>consuming_broker::op(...)\<close>.
\<close>

fun forward :: "nat \<Rightarrow> bid \<Rightarrow> string \<Rightarrow> (bid \<Rightarrow> ('v, 'j, 'a) cci) \<Rightarrow> ('v, 'j, 'a) cci" where
  "forward 0 b nm op = nofuelM"
| "forward (Suc n) b nm op =
     bindM (the_broker b) (\<lambda>r.
       if b_forwarding r \<and> sendToParent nm r then forward n (m_parent r) nm op else op b)"

definition get_value_origin_by_name :: "nat \<Rightarrow> bid \<Rightarrow> string \<Rightarrow> ('v, 'j, originator) cci" where
  "get_value_origin_by_name n b nm = forward n b nm (consuming_get_value_origin nm)"

definition has_preset_value :: "nat \<Rightarrow> bid \<Rightarrow> string \<Rightarrow> ('v, 'j, bool) cci" where
  "has_preset_value n b nm = forward n b nm (\<lambda>b. read_broker b (consuming_has_preset_value nm))"

definition get_preset_cci_value :: "('v, 'j) env \<Rightarrow> nat \<Rightarrow> bid \<Rightarrow> string \<Rightarrow> ('v, 'j, 'j) cci" where
  "get_preset_cci_value E n b nm =
     forward n b nm (\<lambda>b. read_broker b (consuming_get_preset_cci_value E nm))"

definition lock_preset_value :: "nat \<Rightarrow> bid \<Rightarrow> string \<Rightarrow> ('v, 'j, unit) cci" where
  "lock_preset_value n b nm =
     forward n b nm (\<lambda>b. on_broker b (\<lambda>r. ((), consuming_lock_preset_value nm r)))"

definition set_preset_cci_value :: "('v, 'j) env \<Rightarrow> nat \<Rightarrow> bid \<Rightarrow> string \<Rightarrow> 'j \<Rightarrow> originator
    \<Rightarrow> ('v, 'j, unit) cci" where
  "set_preset_cci_value E n b nm x og = forward n b nm (consuming_set_preset_cci_value E nm x og)"

text \<open>
  \<open>broker\<close> does not override \<open>get_preset_value_origin\<close>: it always looks in the broker itself.
\<close>

definition get_preset_value_origin :: "bid \<Rightarrow> string \<Rightarrow> ('v, 'j, originator) cci" where
  "get_preset_value_origin b nm = read_broker b (consuming_get_preset_value_origin nm)"

text \<open>
  A handle is searched up the hierarchy also for a name that is not exposed, if the broker
  itself has no such parameter.
\<close>

fun get_param_handle :: "nat \<Rightarrow> bid \<Rightarrow> string \<Rightarrow> originator \<Rightarrow> ('v, 'j, hid) cci" where
  "get_param_handle 0 b nm og = nofuelM"
| "get_param_handle (Suc n) b nm og =
     bindM (the_broker b) (\<lambda>r.
       if \<not> b_forwarding r then consuming_get_param_handle nm og b
       else if sendToParent nm r then get_param_handle n (m_parent r) nm og
       else case get_orig_param nm r of
              Some i \<Rightarrow> handle_to i og
            | None \<Rightarrow> if has_parent r then get_param_handle n (m_parent r) nm og
                      else alloc_handle None og)"

text \<open>
  The handles of the parent are asked for without the originator, so that the default one
  is built.
\<close>

fun get_param_handles :: "('v, 'j) env \<Rightarrow> nat \<Rightarrow> bid \<Rightarrow> originator \<Rightarrow> ('v, 'j, hid list) cci" where
  "get_param_handles E 0 b og = nofuelM"
| "get_param_handles E (Suc n) b og =
     bindM (the_broker b) (\<lambda>r.
       if b_forwarding r \<and> has_parent r then
         bindM (default_originator E) (\<lambda>og'.
           bindM (get_param_handles E n (m_parent r) og') (\<lambda>parents.
             bindM (consuming_get_param_handles E og b) (\<lambda>own. retM (own @ parents))))
       else consuming_get_param_handles E og b)"

section \<open>The broker that answers\<close>

fun resolve :: "nat \<Rightarrow> bid \<Rightarrow> string \<Rightarrow> ('v, 'j, bid) cci" where
  "resolve 0 b nm = nofuelM"
| "resolve (Suc n) b nm =
     bindM (the_broker b) (\<lambda>r.
       if b_forwarding r \<and> sendToParent nm r then resolve n (m_parent r) nm else retM b)"

text \<open>Every forwarding operation is the consuming one on the broker that \<open>resolve\<close> finds.\<close>

lemma forward_resolve: "forward n b nm op = bindM (resolve n b nm) op"
proof (induction n arbitrary: b)
  case 0
  then show ?case by (rule ext) (simp add: bindM_def)
next
  case (Suc n)
  show ?case
    by (rule ext)
      (simp add: bindM_def the_broker_def Suc split: prod.splits outcome.splits option.splits)
qed

text \<open>
  Brokers are built after the broker they have as a parent, at a larger address.
\<close>

definition parents_below :: "('v, 'j) world \<Rightarrow> bool" where
  "parents_below s \<longleftrightarrow>
     (\<forall>b r. brokers s b = Some r \<longrightarrow> has_parent r \<longrightarrow>
        m_parent r < b \<and> brokers s (m_parent r) \<noteq> None)"

lemma resolve_total:
  assumes "parents_below s" and "brokers s b \<noteq> None" and "b < n"
  shows "\<exists>c. resolve n b nm s = (Ret c, s) \<and> brokers s c \<noteq> None \<and> c \<le> b"
  using assms(2,3)
proof (induction n arbitrary: b)
  case 0
  then show ?case by simp
next
  case (Suc n)
  from Suc.prems(1) obtain r where r: "brokers s b = Some r" by auto
  show ?case
  proof (cases "b_forwarding r \<and> sendToParent nm r")
    case True
    then have "has_parent r" by (auto simp: sendToParent_def is_global_broker_def)
    with assms(1) r have below: "m_parent r < b" "brokers s (m_parent r) \<noteq> None"
      by (auto simp: parents_below_def)
    with Suc.prems(2) have "m_parent r < n" by simp
    with Suc.IH below(2) obtain c where
      "resolve n (m_parent r) nm s = (Ret c, s)" "brokers s c \<noteq> None" "c \<le> m_parent r"
      by blast
    with True r below(1) show ?thesis by auto
  next
    case False
    with r show ?thesis by auto
  qed
qed

text \<open>An operation on a name that is not exposed stays in the broker.\<close>

lemma resolve_not_exposed:
  "brokers s b = Some r \<Longrightarrow> \<not> (b_forwarding r \<and> sendToParent nm r) \<Longrightarrow> resolve (Suc n) b nm s = (Ret b, s)"
  by auto

text \<open>\<open>resolve\<close> depends on the brokers and their parents only.\<close>

lemma resolve_cong:
  assumes "\<And>c. map_option (\<lambda>r. (b_forwarding r, expose r, has_parent r, m_parent r)) (brokers t c)
      = map_option (\<lambda>r. (b_forwarding r, expose r, has_parent r, m_parent r)) (brokers s c)"
  shows "fst (resolve n b nm t) = fst (resolve n b nm s)"
proof (induction n arbitrary: b)
  case 0
  show ?case by simp
next
  case (Suc n)
  show ?case
    using assms [of b] Suc
    by (cases "brokers s b"; cases "brokers t b")
      (auto simp: bindM_def the_broker_def sendToParent_def is_global_broker_def)
qed

lemma resolve_state: "snd (resolve n b nm s) = s"
  by (induction n arbitrary: b)
    (auto simp: bindM_def the_broker_def split: option.splits)

end
