(* ===== verification/Param_Typed.thy ===== *)
theory Param_Typed
  imports Broker
begin

text \<open>
  \<open>cci_param_typed\<close> (src/src/cci/cfg/cci_param_typed.h): reading and writing the value with the
  callbacks around it, the lock and the fast paths. \<open>T\<close> and \<open>TM\<close> are the fields \<open>p_type\<close> and
  \<open>p_mutability\<close>. The functor of a callback is called through \<open>run\<close>, so that user code may
  call back into the library; the loops over the live vectors have fuel \<open>n\<close>, because a
  callback may register further callbacks while the loop runs.
\<close>

section \<open>Conversion from and to \<open>cci_value\<close>\<close>

definition to_cci_value :: "('v, 'j) env \<Rightarrow> tid \<Rightarrow> 'v \<Rightarrow> ('v, 'j, 'j) cci" where
  "to_cci_value E T v =
     (case pack E T v of (ok, x) \<Rightarrow>
        thenM (if ok then skipM else cci_value_failure E ''conversion to cci_value failed'') (retM x))"

definition from_cci_value :: "('v, 'j) env \<Rightarrow> tid \<Rightarrow> 'j \<Rightarrow> ('v, 'j, 'v) cci" where
  "from_cci_value E T x =
     (case unpack E T x of (ok, v) \<Rightarrow>
        thenM (if ok then skipM else cci_value_failure E ''conversion from cci_value failed'') (retM v))"

section \<open>Typed callback handles\<close>

text \<open>
  What the constructor of \<open>cci_callback_typed_handle\<close> makes of an untyped handle: the callback
  itself if the signature is the expected one, an adapter if it is the generic one of the
  same kind, and an invalid handle otherwise.
  A handle stands for the object that its \<open>get()\<close> answers. So a handle that holds an adapter of a
  generic callback (for whatever type) is that callback here: the constructor keeps the adapter if it
  is of this type and makes another one of what \<open>get()\<close> answers if not, and either calls the
  same functor with the same event (\<open>typed_handle_refines\<close> in \<open>Callback_Properties\<close>).
\<close>

datatype typed_callback = Invalid_callback | Direct_callback callback_ref | Generic_adapt callback_ref

fun kind_signature :: "cbkind \<Rightarrow> tid option \<Rightarrow> cb_sig" where
  "kind_signature Pre_write T = Sig_pre_write T"
| "kind_signature Post_write T = Sig_post_write T"
| "kind_signature Pre_read T = Sig_read T"
| "kind_signature Post_read T = Sig_read T"

definition typed_callback_handle :: "cbkind \<Rightarrow> tid \<Rightarrow> cci_callback_untyped_handle \<Rightarrow> typed_callback" where
  "typed_callback_handle k T cb =
     (case cb of
        None \<Rightarrow> Invalid_callback
      | Some ref \<Rightarrow>
          if cb_signature ref = kind_signature k (Some T) then Direct_callback ref
          else if cb_signature ref = kind_signature k None then Generic_adapt ref
          else Invalid_callback)"

text \<open>
  \<open>invoke\<close>: an adapter converts the payload (\<open>generic_wrap\<close>) first; invoking an invalid handle
  fails an assertion.
\<close>

definition invoke_write :: "('v, 'j) env \<Rightarrow> ('v, 'j) invoker \<Rightarrow> tid \<Rightarrow> typed_callback \<Rightarrow> 'v \<Rightarrow> 'v
    \<Rightarrow> originator \<Rightarrow> hid \<Rightarrow> ('v, 'j, bool) cci" where
  "invoke_write E run T cb old new og h =
     (case cb of
        Invalid_callback \<Rightarrow> abortM
      | Direct_callback ref \<Rightarrow> run ref (Write_event old new og h)
      | Generic_adapt ref \<Rightarrow>
          bindM (to_cci_value E T old) (\<lambda>x.
            bindM (to_cci_value E T new) (\<lambda>y.
              run ref (Write_event_generic x y og h))))"

definition invoke_read :: "('v, 'j) env \<Rightarrow> ('v, 'j) invoker \<Rightarrow> tid \<Rightarrow> typed_callback \<Rightarrow> 'v
    \<Rightarrow> originator \<Rightarrow> hid \<Rightarrow> ('v, 'j, bool) cci" where
  "invoke_read E run T cb v og h =
     (case cb of
        Invalid_callback \<Rightarrow> abortM
      | Direct_callback ref \<Rightarrow> run ref (Read_event v og h)
      | Generic_adapt ref \<Rightarrow>
          bindM (to_cci_value E T v) (\<lambda>x. run ref (Read_event_generic x og h)))"

section \<open>The callbacks around a write\<close>

text \<open>
  The loop from index \<open>j\<close> on. Its condition reads the size of the vector every time. The old
  value of the event is the value of the parameter at that moment; the handle of the event
  lives for one turn. All callbacks are called, also after one has denied the write.
\<close>

fun pre_write_loop :: "('v, 'j) env \<Rightarrow> ('v, 'j) invoker \<Rightarrow> nat \<Rightarrow> pid \<Rightarrow> 'v \<Rightarrow> originator \<Rightarrow> nat \<Rightarrow> bool
    \<Rightarrow> ('v, 'j, bool) cci" where
  "pre_write_loop E run 0 i new og j result = nofuelM"
| "pre_write_loop E run (Suc n) i new og j result =
     bindM (the_param i) (\<lambda>p.
       if j < length (vec (m_pre_write_callbacks p)) then
         let it = vec (m_pre_write_callbacks p) ! j;
             cb = typed_callback_handle Pre_write (p_type p) (callback it)
         in bindM
              (with_handle i (cb_originator it) (\<lambda>h.
                 bindM (invoke_write E run (p_type p) cb (m_value p) new og h) (\<lambda>ok.
                   if ok then retM result
                   else thenM (set_param_failed E ''Value rejected by callback.'') (retM False))))
              (\<lambda>result. pre_write_loop E run n i new og (Suc j) result)
       else retM result)"

text \<open>A nested invocation denies the write without a report.\<close>

definition pre_write_callback :: "('v, 'j) env \<Rightarrow> ('v, 'j) invoker \<Rightarrow> nat \<Rightarrow> pid \<Rightarrow> 'v \<Rightarrow> originator
    \<Rightarrow> ('v, 'j, bool) cci" where
  "pre_write_callback E run n i new og =
     bindM (the_param i) (\<lambda>p.
       if oncall (m_pre_write_callbacks p) then retM False
       else scoped_true i Pre_write (pre_write_loop E run n i new og 0 True))"

fun post_write_loop :: "('v, 'j) env \<Rightarrow> ('v, 'j) invoker \<Rightarrow> nat \<Rightarrow> pid \<Rightarrow> 'v \<Rightarrow> 'v \<Rightarrow> originator \<Rightarrow> nat
    \<Rightarrow> ('v, 'j, unit) cci" where
  "post_write_loop E run 0 i old new og j = nofuelM"
| "post_write_loop E run (Suc n) i old new og j =
     bindM (the_param i) (\<lambda>p.
       if j < length (vec (m_post_write_callbacks p)) then
         let it = vec (m_post_write_callbacks p) ! j;
             cb = typed_callback_handle Post_write (p_type p) (callback it)
         in thenM
              (if cb \<noteq> Invalid_callback
               then with_handle i (cb_originator it) (\<lambda>h.
                      thenM (invoke_write E run (p_type p) cb old new og h) skipM)
               else skipM)
              (post_write_loop E run n i old new og (Suc j))
       else skipM)"

definition post_write_callback :: "('v, 'j) env \<Rightarrow> ('v, 'j) invoker \<Rightarrow> nat \<Rightarrow> pid \<Rightarrow> 'v \<Rightarrow> 'v \<Rightarrow> originator
    \<Rightarrow> ('v, 'j, unit) cci" where
  "post_write_callback E run n i old new og =
     bindM (the_param i) (\<lambda>p.
       if oncall (m_post_write_callbacks p) then skipM
       else scoped_true i Post_write (post_write_loop E run n i old new og 0))"

section \<open>The callbacks around a read\<close>

text \<open>
  \<open>pre_read_callback\<close> and \<open>post_read_callback\<close> differ in the vector only; both get the value
  by reference, so that each callback sees the value at the moment of its call.
\<close>

fun read_loop :: "('v, 'j) env \<Rightarrow> ('v, 'j) invoker \<Rightarrow> nat \<Rightarrow> cbkind \<Rightarrow> pid \<Rightarrow> originator \<Rightarrow> nat
    \<Rightarrow> ('v, 'j, unit) cci" where
  "read_loop E run 0 k i og j = nofuelM"
| "read_loop E run (Suc n) k i og j =
     bindM (the_param i) (\<lambda>p.
       if j < length (vec (callbacks_of k p)) then
         let it = vec (callbacks_of k p) ! j;
             cb = typed_callback_handle k (p_type p) (callback it)
         in thenM
              (if cb \<noteq> Invalid_callback
               then with_handle i (cb_originator it) (\<lambda>h.
                      thenM (invoke_read E run (p_type p) cb (m_value p) og h) skipM)
               else skipM)
              (read_loop E run n k i og (Suc j))
       else skipM)"

definition pre_read_callback :: "('v, 'j) env \<Rightarrow> ('v, 'j) invoker \<Rightarrow> nat \<Rightarrow> pid \<Rightarrow> originator
    \<Rightarrow> ('v, 'j, unit) cci" where
  "pre_read_callback E run n i og =
     bindM (the_param i) (\<lambda>p.
       if oncall (m_pre_read_callbacks p) then skipM
       else scoped_true i Pre_read (read_loop E run n Pre_read i og 0))"

definition post_read_callback :: "('v, 'j) env \<Rightarrow> ('v, 'j) invoker \<Rightarrow> nat \<Rightarrow> pid \<Rightarrow> originator
    \<Rightarrow> ('v, 'j, unit) cci" where
  "post_read_callback E run n i og =
     bindM (the_param i) (\<lambda>p.
       if oncall (m_post_read_callbacks p) then skipM
       else scoped_true i Post_read (read_loop E run n Post_read i og 0))"

section \<open>Writing the value\<close>

definition write_param :: "'v \<Rightarrow> originator \<Rightarrow> ('v, 'j) param \<Rightarrow> ('v, 'j) param" where
  "write_param v og p = p\<lparr>m_value := v, m_value_origin := og\<rparr>"

definition update_fast_write :: "'x sc_env_scheme \<Rightarrow> originator \<Rightarrow> ('v, 'j) param \<Rightarrow> ('v, 'j) param" where
  "update_fast_write E og p =
     p\<lparr>fast_write := p_mutability p = CCI_MUTABLE_PARAM \<and> \<not> is_locked p
         \<and> length (vec (m_pre_write_callbacks p)) = 0 \<and> length (vec (m_post_write_callbacks p)) = 0
         \<and> originator_eq E og (m_originator p)\<rparr>"

text \<open>The part of \<open>set_raw_value\<close> behind the checks.\<close>

definition write_with_callbacks :: "('v, 'j) env \<Rightarrow> ('v, 'j) invoker \<Rightarrow> nat \<Rightarrow> pid \<Rightarrow> 'v \<Rightarrow> originator
    \<Rightarrow> ('v, 'j, unit) cci" where
  "write_with_callbacks E run n i new og =
     bindM (pre_write_callback E run n i new og) (\<lambda>ok.
       if \<not> ok then skipM
       else bindM (the_param i) (\<lambda>p.
         thenM (upd_param i (write_param new og))
           (thenM (post_write_callback E run n i (m_value p) new og)
             (upd_param i (update_fast_write E og)))))"

definition set_raw_value :: "('v, 'j) env \<Rightarrow> ('v, 'j) invoker \<Rightarrow> nat \<Rightarrow> pid \<Rightarrow> 'v \<Rightarrow> address option
    \<Rightarrow> originator \<Rightarrow> ('v, 'j, unit) cci" where
  "set_raw_value E run n i new pwd og =
     bindM (the_param i) (\<lambda>p.
       bindM (set_cci_value_allowed E p (p_mutability p)) (\<lambda>allowed.
         if \<not> allowed then skipM
         else if pwd = None then
           (if is_locked p then set_param_failed E ''Parameter locked.''
            else write_with_callbacks E run n i new og)
         else
           (if pwd \<noteq> m_lock_pwd p then set_param_failed E ''Wrong key.''
            else write_with_callbacks E run n i new og)))"

definition set_value :: "('v, 'j) env \<Rightarrow> ('v, 'j) invoker \<Rightarrow> nat \<Rightarrow> pid \<Rightarrow> 'v \<Rightarrow> ('v, 'j, unit) cci" where
  "set_value E run n i v =
     bindM (the_param i) (\<lambda>p.
       if fast_write p then upd_param i (\<lambda>p. p\<lparr>m_value := v\<rparr>)
       else set_raw_value E run n i v None (get_originator p))"

definition set_value_pwd :: "('v, 'j) env \<Rightarrow> ('v, 'j) invoker \<Rightarrow> nat \<Rightarrow> pid \<Rightarrow> 'v \<Rightarrow> address option
    \<Rightarrow> ('v, 'j, unit) cci" where
  "set_value_pwd E run n i v pwd =
     bindM (the_param i) (\<lambda>p. set_raw_value E run n i v pwd (get_originator p))"

definition set_cci_value :: "('v, 'j) env \<Rightarrow> ('v, 'j) invoker \<Rightarrow> nat \<Rightarrow> pid \<Rightarrow> 'j \<Rightarrow> address option
    \<Rightarrow> originator \<Rightarrow> ('v, 'j, unit) cci" where
  "set_cci_value E run n i x pwd og =
     bindM (the_param i) (\<lambda>p.
       bindM (from_cci_value E (p_type p) x) (\<lambda>v. set_raw_value E run n i v pwd og))"

text \<open>\<open>operator=\<close> of a parameter, with a value and with another parameter, and the conversion to a value.\<close>

definition assign_value :: "('v, 'j) env \<Rightarrow> ('v, 'j) invoker \<Rightarrow> nat \<Rightarrow> pid \<Rightarrow> 'v \<Rightarrow> ('v, 'j, unit) cci" where
  "assign_value E run n this rhs = set_value E run n this rhs"

section \<open>Reading the value\<close>

definition update_fast_read :: "('v, 'j) param \<Rightarrow> ('v, 'j) param" where
  "update_fast_read p =
     p\<lparr>fast_read := length (vec (m_pre_read_callbacks p)) = 0 \<and> length (vec (m_post_read_callbacks p)) = 0\<rparr>"

text \<open>The result is a pointer to the value, which the callers read at once.\<close>

definition get_raw_value :: "('v, 'j) env \<Rightarrow> ('v, 'j) invoker \<Rightarrow> nat \<Rightarrow> pid \<Rightarrow> originator \<Rightarrow> ('v, 'j, 'v) cci" where
  "get_raw_value E run n i og =
     thenM (pre_read_callback E run n i og)
       (thenM (post_read_callback E run n i og)
         (thenM (upd_param i update_fast_read) (read_param i m_value)))"

definition get_value :: "('v, 'j) env \<Rightarrow> ('v, 'j) invoker \<Rightarrow> nat \<Rightarrow> pid \<Rightarrow> ('v, 'j, 'v) cci" where
  "get_value E run n i =
     bindM (the_param i) (\<lambda>p.
       if fast_read p then retM (m_value p) else get_raw_value E run n i (get_originator p))"

definition param_conversion :: "('v, 'j) env \<Rightarrow> ('v, 'j) invoker \<Rightarrow> nat \<Rightarrow> pid \<Rightarrow> ('v, 'j, 'v) cci" where
  "param_conversion E run n this = get_value E run n this"

definition assign_param :: "('v, 'j) env \<Rightarrow> ('v, 'j) invoker \<Rightarrow> nat \<Rightarrow> pid \<Rightarrow> pid \<Rightarrow> ('v, 'j, unit) cci" where
  "assign_param E run n this rhs = bindM (get_value E run n rhs) (\<lambda>v. set_value E run n this v)"

definition get_cci_value :: "('v, 'j) env \<Rightarrow> ('v, 'j) invoker \<Rightarrow> nat \<Rightarrow> pid \<Rightarrow> originator \<Rightarrow> ('v, 'j, 'j) cci" where
  "get_cci_value E run n i og =
     bindM (the_param i) (\<lambda>p.
       bindM (get_raw_value E run n i og) (\<lambda>v. to_cci_value E (p_type p) v))"

definition get_default_value :: "('v, 'j) param \<Rightarrow> 'v" where
  "get_default_value p = m_default_value p"

definition get_default_cci_value :: "('v, 'j) env \<Rightarrow> pid \<Rightarrow> ('v, 'j, 'j) cci" where
  "get_default_cci_value E i =
     bindM (the_param i) (\<lambda>p. to_cci_value E (p_type p) (m_default_value p))"

fun data_category :: "cci_value_category \<Rightarrow> cci_param_data_category" where
  "data_category CCI_BOOL_VALUE = CCI_BOOL_PARAM"
| "data_category CCI_INTEGRAL_VALUE = CCI_INTEGRAL_PARAM"
| "data_category CCI_REAL_VALUE = CCI_REAL_PARAM"
| "data_category CCI_STRING_VALUE = CCI_STRING_PARAM"
| "data_category CCI_LIST_VALUE = CCI_LIST_PARAM"
| "data_category _ = CCI_OTHER_PARAM"

definition get_data_category :: "('v, 'j) env \<Rightarrow> ('v, 'j) invoker \<Rightarrow> nat \<Rightarrow> pid
    \<Rightarrow> ('v, 'j, cci_param_data_category) cci" where
  "get_data_category E run n i =
     bindM (the_param i) (\<lambda>p.
       bindM (get_cci_value E run n i (get_originator p)) (\<lambda>x. retM (data_category (category E x))))"

definition get_mutable_type :: "('v, 'j) param \<Rightarrow> cci_param_mutable_type" where
  "get_mutable_type p = p_mutability p"

definition get_type_info :: "('v, 'j) param \<Rightarrow> tid" where
  "get_type_info p = p_type p"

section \<open>The status of the value\<close>

definition is_default_value :: "('v, 'j) env \<Rightarrow> ('v, 'j) param \<Rightarrow> bool" where
  "is_default_value E p \<longleftrightarrow> value_eq E (p_type p) (m_default_value p) (m_value p)"

definition is_preset_value :: "('v, 'j) env \<Rightarrow> nat \<Rightarrow> pid \<Rightarrow> ('v, 'j, bool) cci" where
  "is_preset_value E n i =
     bindM (the_param i) (\<lambda>p.
       let b = m_broker (m_broker_handle p); nm = param_name p
       in bindM (has_preset_value n b nm) (\<lambda>has.
            if has then
              bindM (get_preset_cci_value E n b nm) (\<lambda>x.
                case unpack E (p_type p) x of (ok, v) \<Rightarrow>
                  retM (if ok then value_eq E (p_type p) v (m_value p) else False))
            else retM False))"

section \<open>The lock and the callbacks of a typed parameter\<close>

definition lock :: "address \<Rightarrow> address option \<Rightarrow> ('v, 'j) param \<Rightarrow> bool \<times> ('v, 'j) param" where
  "lock this pwd p = untyped_lock this pwd (p\<lparr>fast_write := False\<rparr>)"

definition register_callback :: "cbkind \<Rightarrow> cci_callback_untyped_handle \<Rightarrow> ('v, 'j) param \<Rightarrow> ('v, 'j) param" where
  "register_callback k cb p =
     untyped_register_callback k cb (get_originator p) (p\<lparr>fast_read := False, fast_write := False\<rparr>)"

section \<open>Preset values and reset\<close>

definition preset_cci_value :: "('v, 'j) env \<Rightarrow> ('v, 'j) invoker \<Rightarrow> nat \<Rightarrow> pid \<Rightarrow> 'j \<Rightarrow> originator
    \<Rightarrow> ('v, 'j, unit) cci" where
  "preset_cci_value E run n i x og =
     bindM (the_param i) (\<lambda>p.
       bindM (from_cci_value E (p_type p) x) (\<lambda>new.
         bindM (pre_write_callback E run n i new og) (\<lambda>ok.
           if \<not> ok then skipM
           else thenM (upd_param i (write_param new og))
                  (post_write_callback E run n i (m_value p) new og))))"

definition reset :: "('v, 'j) env \<Rightarrow> ('v, 'j) invoker \<Rightarrow> nat \<Rightarrow> pid \<Rightarrow> ('v, 'j, bool) cci" where
  "reset E run n i =
     bindM (the_param i) (\<lambda>p.
       if is_locked p then retM False
       else
         let b = m_broker (m_broker_handle p); nm = param_name p
         in bindM (has_preset_value n b nm) (\<lambda>has.
              if has then
                bindM (get_preset_cci_value E n b nm) (\<lambda>x.
                  bindM (get_preset_value_origin b nm) (\<lambda>og.
                    thenM (preset_cci_value E run n i x og) (retM True)))
              else
                bindM (pre_write_callback E run n i (get_default_value p) (m_originator p)) (\<lambda>ok.
                  if \<not> ok then retM False
                  else bindM (the_param i) (\<lambda>p.
                    thenM (upd_param i (write_param (get_default_value p) (m_originator p)))
                      (thenM (post_write_callback E run n i (m_value p) (get_default_value p) (m_originator p))
                        (retM True))))))"

end
