(* ===== verification/Name_Gen.thy ===== *)
theory Name_Gen
  imports Objects
begin

text \<open>
  \<open>cci_name_gen\<close> (src/src/cci/core/cci_name_gen.cpp), in its two variants. With SystemC 2.3.2
  or later the registry of names is SystemC's, whose functions are fields of the environment.
  With an older SystemC the library keeps its own map from a name to a counter and a state.
\<close>

section \<open>SystemC 2.3.2 or later\<close>

text \<open>A returned \<open>const char*\<close> that is NULL cannot be used by the callers.\<close>

definition return_name :: "string option \<Rightarrow> ('v, 'j, string) cci" where
  "return_name r = (case r of None \<Rightarrow> abortM | Some nm \<Rightarrow> retM nm)"

definition cci_gen_unique_name :: "('v, 'j) env \<Rightarrow> string option \<Rightarrow> ('v, 'j, string) cci" where
  "cci_gen_unique_name E p =
     (let nm = (case p of None \<Rightarrow> [] | Some nm \<Rightarrow> c_str nm)
      in if nm = [] then
           thenM (CCI_REPORT_ERROR E ''cci_name_gen/gen_unique_name'' ''empty name is not allowed'') abortM
         else bindM (getM sc_names) (\<lambda>ns.
           case sc_register_name E nm ns of (fresh, ns) \<Rightarrow>
             thenM (modM (\<lambda>s. s\<lparr>sc_names := ns\<rparr>))
               (if \<not> fresh then
                  (case sc_gen_name E nm ns of (new_name, ns) \<Rightarrow>
                     case sc_register_name E new_name ns of (_, ns) \<Rightarrow>
                       thenM (modM (\<lambda>s. s\<lparr>sc_names := ns\<rparr>))
                         (thenM (CCI_REPORT_WARNING E ''cci_name_gen/gen_unique_name''
                                   (nm @ '' is already used in the SystemC hierarchy, using ''
                                    @ new_name @ '' instead''))
                           (return_name (sc_hierarchical_name E new_name ns))))
                else return_name (sc_hierarchical_name E nm ns))))"

definition cci_get_name :: "('v, 'j) env \<Rightarrow> string \<Rightarrow> ('v, 'j, string option) cci" where
  "cci_get_name E nm = bindM (getM sc_names) (\<lambda>ns. retM (sc_hierarchical_name E nm ns))"

definition cci_unregister_name :: "('v, 'j) env \<Rightarrow> string \<Rightarrow> ('v, 'j, bool) cci" where
  "cci_unregister_name E nm =
     bindM (getM sc_names) (\<lambda>ns.
       case sc_unregister_name E nm ns of (r, ns) \<Rightarrow>
         thenM (modM (\<lambda>s. s\<lparr>sc_names := ns\<rparr>)) (retM r))"

text \<open>
  What the SystemC documentation says of the registry of names: registering succeeds for a
  name that is not there, a generated name is not there, the name of an entry is the name
  itself.
\<close>

definition systemc_names :: "('v, 'j) env \<Rightarrow> bool" where
  "systemc_names E \<longleftrightarrow>
     (\<forall>nm ns. sc_register_name E nm ns = (nm \<notin> ns, insert nm ns))
     \<and> (\<forall>nm ns. sc_unregister_name E nm ns = (nm \<in> ns, ns - {nm}))
     \<and> (\<forall>nm ns. finite ns \<longrightarrow> fst (sc_gen_name E nm ns) \<notin> ns \<and> snd (sc_gen_name E nm ns) = ns)
     \<and> (\<forall>nm ns. nm \<in> ns \<longrightarrow> sc_hierarchical_name E nm ns = Some nm)
     \<and> (\<forall>nm ns. sc_name_exists E nm ns \<longleftrightarrow> nm \<in> ns)"

lemma gen_unique_name_result:
  assumes "systemc_names E" and "finite (sc_names s)"
    and "cci_gen_unique_name E p s = (Ret nm, t)"
  shows "nm \<notin> sc_names s \<and> nm \<in> sc_names t \<and> (\<forall>q. p = Some q \<longrightarrow> c_str q \<notin> sc_names s \<longrightarrow> nm = c_str q)
    \<and> sc_names s \<subseteq> sc_names t"
proof -
  let ?nm = "case p of None \<Rightarrow> [] | Some nm \<Rightarrow> c_str nm"
  have reg: "sc_register_name E x ns = (x \<notin> ns, insert x ns)" for x ns
    using assms(1) by (simp add: systemc_names_def)
  have hier: "x \<in> ns \<Longrightarrow> sc_hierarchical_name E x ns = Some x" for x ns
    using assms(1) by (simp add: systemc_names_def)
  have gen: "finite ns \<Longrightarrow> fst (sc_gen_name E x ns) \<notin> ns \<and> snd (sc_gen_name E x ns) = ns" for x ns
    using assms(1) by (simp add: systemc_names_def)
  have ne: "?nm \<noteq> []"
  proof
    assume "?nm = []"
    with assms(3) have "thenM (CCI_REPORT_ERROR E ''cci_name_gen/gen_unique_name''
        ''empty name is not allowed'') abortM s = (Ret nm, t)"
      by (simp add: cci_gen_unique_name_def Let_def)
    then show False by (auto simp: bindM_eq_Ret)
  qed
  show ?thesis
  proof (cases "?nm \<in> sc_names s")
    case False
    with assms(3) ne have "nm = ?nm \<and> sc_names t = insert ?nm (sc_names s)"
      by (auto simp: cci_gen_unique_name_def Let_def reg hier return_name_def)
    with False show ?thesis by auto
  next
    case True
    obtain y ms where g: "sc_gen_name E ?nm (sc_names s) = (y, ms)"
      by (cases "sc_gen_name E ?nm (sc_names s)")
    with gen [OF assms(2), of ?nm] have y: "y \<notin> sc_names s" "ms = sc_names s" by auto
    from True assms(3) ne g y have "nm = y \<and> sc_names t = insert y (sc_names s)"
      by (auto simp: cci_gen_unique_name_def Let_def reg hier return_name_def insert_absorb
          bindM_eq_Ret CCI_REPORT_WARNING_def report_def split: if_splits)
    with y True show ?thesis by auto
  qed
qed

section \<open>Before SystemC 2.3.2\<close>

record name_registry = sc_state +
  cci_unique_names :: "(string, nat \<times> cci_name_state) std_map"

text \<open>Printing an \<open>int\<close> on a stream.\<close>

fun show_nat :: "nat \<Rightarrow> string" where
  "show_nat k = (if k < 10 then [char_of (48 + k)] else show_nat (k div 10) @ [char_of (48 + k mod 10)])"

declare show_nat.simps [simp del]

text \<open>
  The recursive call registers \<open>new_name\<close>, and its result is not used. \<open>find_object\<close> is
  \<open>sc_find_object\<close>; the fuel bounds the depth of the recursion.
\<close>

fun gen_unique_name_pre232 :: "'x sc_env_scheme \<Rightarrow> (string \<Rightarrow> bool) \<Rightarrow> nat \<Rightarrow> string
    \<Rightarrow> (name_registry, exn, string) comp" where
  "gen_unique_name_pre232 E find_object 0 nm = nofuelM"
| "gen_unique_name_pre232 E find_object (Suc n) nm =
     (if nm = [] then
        thenM (CCI_REPORT_ERROR E ''cci_name_gen/gen_unique_name'' ''empty name is not allowed'') abortM
      else bindM (getM cci_unique_names) (\<lambda>m.
        let inserted = (map_find nm m = None);
            m = map_insert nm (0, cci_name_used) m;
            systemc_conflict = find_object nm
        in thenM (modM (\<lambda>s. s\<lparr>cci_unique_names := m\<rparr>))
             (if \<not> inserted \<or> systemc_conflict then
                (case the (map_find nm m) of (k, st) \<Rightarrow>
                  let new_name = nm @ ''_'' @ show_nat k in
                  thenM (modM (\<lambda>s. s\<lparr>cci_unique_names := map_assign nm (Suc k, st) m\<rparr>))
                    (thenM (gen_unique_name_pre232 E find_object n new_name)
                      (thenM (if systemc_conflict
                              then CCI_REPORT_WARNING E ''cci_name_gen/gen_unique_name''
                                     (nm @ '' is already used in the SystemC hierarchy, using ''
                                      @ new_name @ '' instead'')
                              else skipM)
                        (retM new_name))))
              else retM nm)))"

definition get_name_pre232 :: "string \<Rightarrow> (name_registry, exn, string option) comp" where
  "get_name_pre232 nm =
     bindM (getM cci_unique_names) (\<lambda>m. retM (if map_find nm m \<noteq> None then Some nm else None))"

definition unregister_name_pre232 :: "string \<Rightarrow> (name_registry, exn, bool) comp" where
  "unregister_name_pre232 nm =
     bindM (getM cci_unique_names) (\<lambda>m.
       case map_find nm m of
         None \<Rightarrow> retM False
       | Some (k, st) \<Rightarrow>
           thenM (modM (\<lambda>s. s\<lparr>cci_unique_names := map_assign nm (k, cci_name_free) m\<rparr>)) (retM True))"

end
