(* ===== verification/Broker_Manager.thy ===== *)
theory Broker_Manager
  imports Broker Name_Gen
begin

text \<open>
  \<open>cci_broker_manager\<close> (src/src/cci/cfg/cci_broker_manager.h and .cpp): the registry from an
  object of the hierarchy, or none for the global broker, to the broker registered there; and
  the constructors of the two brokers of \<open>cci_utils\<close>.
\<close>

section \<open>Finding a broker\<close>

text \<open>
  The loop of \<open>get_broker\<close> from an object upwards; the depth of the hierarchy bounds it.
\<close>

fun find_broker :: "('v, 'j) env \<Rightarrow> nat \<Rightarrow> sc_object option \<Rightarrow> ('v, 'j, bid) cci" where
  "find_broker E 0 org = nofuelM"
| "find_broker E (Suc n) org =
     bindM (getM m_brokers) (\<lambda>reg.
       case reg org of
         Some b \<Rightarrow> retM b
       | None \<Rightarrow>
           (case org of
              None \<Rightarrow> thenM (CCI_REPORT_ERROR E ''cci_broker_manager'' ''No global broker found!'') abortM
            | Some ob \<Rightarrow> find_broker E n (sc_parent E ob)))"

definition create_broker_handle :: "bid \<Rightarrow> originator \<Rightarrow> broker_handle" where
  "create_broker_handle b og = \<lparr>m_broker = b, bh_originator = og\<rparr>"

definition get_broker :: "('v, 'j) env \<Rightarrow> nat \<Rightarrow> originator \<Rightarrow> ('v, 'j, broker_handle) cci" where
  "get_broker E n og =
     bindM (find_broker E n (m_originator_obj og)) (\<lambda>b. retM (create_broker_handle b og))"

definition cci_get_broker :: "('v, 'j) env \<Rightarrow> nat \<Rightarrow> ('v, 'j, broker_handle) cci" where
  "cci_get_broker E n =
     thenM (if sc_current E = None
            then CCI_REPORT_ERROR E ''cci_get_broker''
              (''You may not request a broker from outside the SystemC hierarchy ''
               @ ''(use cci::cci_get_global_broker)'')
            else skipM)
       (bindM (default_originator E) (\<lambda>og. get_broker E n og))"

definition cci_get_global_broker :: "('v, 'j) env \<Rightarrow> nat \<Rightarrow> originator \<Rightarrow> ('v, 'j, broker_handle) cci" where
  "cci_get_global_broker E n og =
     thenM (if sc_current E \<noteq> None \<or> m_originator_obj og \<noteq> None
            then CCI_REPORT_ERROR E ''cci_get_global_broker''
              (''You may not request the global broker from within the SystemC hierarchy ''
               @ ''(use cci::cci_get_broker)'')
            else skipM)
       (bindM (get_broker E n og) (\<lambda>bh. retM (create_broker_handle (m_broker bh) og)))"

section \<open>Registering a broker\<close>

text \<open>
  The entry of the current object is created if it is missing; a second broker at the same
  place is an error, and the handle is then one of the first broker.
\<close>

definition register_broker :: "('v, 'j) env \<Rightarrow> bid \<Rightarrow> ('v, 'j, broker_handle) cci" where
  "register_broker E b =
     bindM (getM (\<lambda>s. case m_brokers s (sc_current E) of None \<Rightarrow> b | Some c \<Rightarrow> c)) (\<lambda>entry.
       thenM (modM (\<lambda>s. s\<lparr>m_brokers := (m_brokers s)(sc_current E \<mapsto> entry)\<rparr>))
         (thenM (if b \<noteq> entry
                 then CCI_REPORT_ERROR E ''cci_broker_manager/register_broker''
                   ''A broker is already registered in the current hierarchy.''
                 else skipM)
           (bindM (if sc_current E \<noteq> None then default_originator E
                   else named_originator_c E (Some CCI_UNKNOWN_ORIGINATOR_STRING)) (\<lambda>og.
             retM (create_broker_handle entry og)))))"

section \<open>Construction of a broker\<close>

definition empty_broker :: "string \<Rightarrow> 'j broker" where
  "empty_broker nm =
     \<lparr>b_name = nm, m_param_registry = [], m_unused_value_registry = [], m_used_value_registry = [],
      locked = {}, m_preset_value_originator_map = [], m_create_callbacks = [],
      m_destroy_callbacks = [], m_ignored_unconsumed_predicates = [], b_forwarding = False,
      expose = {}, has_parent = False, m_parent = 0\<rparr>"

text \<open>\<open>get_parent_broker\<close>: without a current object the broker is its own parent.\<close>

definition get_parent_broker :: "('v, 'j) env \<Rightarrow> nat \<Rightarrow> bid \<Rightarrow> ('v, 'j, bool \<times> bid) cci" where
  "get_parent_broker E n this =
     (if sc_current E \<noteq> None
      then bindM (cci_get_broker E n) (\<lambda>bh. retM (True, m_broker bh))
      else retM (False, this))"

definition install_broker :: "'j broker \<Rightarrow> ('v, 'j) world \<Rightarrow> ('v, 'j) world" where
  "install_broker r s =
     s\<lparr>brokers := (brokers s)(next_address s \<mapsto> r), next_address := Suc (next_address s)\<rparr>"

definition new_consuming_broker :: "('v, 'j) env \<Rightarrow> string \<Rightarrow> ('v, 'j, bid) cci" where
  "new_consuming_broker E nm =
     bindM (cci_gen_unique_name E (Some nm)) (\<lambda>unique.
       thenM (assertM (length nm > 0))
         (bindM (getM next_address) (\<lambda>b.
           thenM (modM (install_broker (empty_broker unique))) (retM b))))"

text \<open>
  \<open>broker\<close>: the base part first, then the parent is looked up. The object is at the address
  \<open>next_address\<close> all the time; it is entered when it is complete.
\<close>

definition new_broker :: "('v, 'j) env \<Rightarrow> nat \<Rightarrow> string \<Rightarrow> ('v, 'j, bid) cci" where
  "new_broker E n nm =
     bindM (cci_gen_unique_name E (Some nm)) (\<lambda>unique.
       thenM (assertM (length nm > 0))
         (bindM (getM next_address) (\<lambda>b.
           bindM (get_parent_broker E n b) (\<lambda>(has, parent).
             thenM (modM (install_broker
                      ((empty_broker unique)\<lparr>b_forwarding := True, has_parent := has, m_parent := parent\<rparr>)))
               (retM b)))))"

section \<open>Lemmas\<close>

text \<open>The objects above an object, the object first.\<close>

fun ancestors :: "('v, 'j) env \<Rightarrow> nat \<Rightarrow> sc_object option \<Rightarrow> sc_object option list" where
  "ancestors E 0 org = []"
| "ancestors E (Suc n) org =
     org # (case org of None \<Rightarrow> [] | Some ob \<Rightarrow> ancestors E n (sc_parent E ob))"

text \<open>
  \<open>find_broker\<close> answers with the nearest registered broker: that of the first object of the
  chain that has one.
\<close>

lemma find_broker_nearest:
  "find_broker E n org s = (Ret b, t) \<longleftrightarrow>
     t = s \<and> (\<exists>us ob vs. ancestors E n org = us @ ob # vs \<and> m_brokers s ob = Some b
        \<and> (\<forall>u \<in> set us. m_brokers s u = None))"
proof (induction n arbitrary: org)
  case 0
  show ?case by simp
next
  case (Suc n)
  show ?case
  proof (cases "m_brokers s org")
    case (Some c)
    have "(\<exists>us ob vs. ancestors E (Suc n) org = us @ ob # vs \<and> m_brokers s ob = Some b
        \<and> (\<forall>u \<in> set us. m_brokers s u = None)) \<longleftrightarrow> b = c"
      (is "?L \<longleftrightarrow> _")
    proof
      assume ?L
      then obtain us ob vs where *: "org # (case org of None \<Rightarrow> [] | Some ob \<Rightarrow> ancestors E n (sc_parent E ob))
          = us @ ob # vs" "m_brokers s ob = Some b" "\<forall>u \<in> set us. m_brokers s u = None" by auto
      with Some show "b = c" by (cases us) auto
    next
      assume "b = c"
      with Some have "ancestors E (Suc n) org = [] @ org # tl (ancestors E (Suc n) org)
          \<and> m_brokers s org = Some b" by simp
      then show ?L by (metis empty_iff list.set(1))
    qed
    with Some show ?thesis by auto
  next
    case None
    show ?thesis
    proof (cases org)
      case None': None
      have "\<not> (\<exists>us ob vs. [None] = us @ ob # vs \<and> m_brokers s ob = Some b)"
        using None None' by (auto simp: append_eq_Cons_conv Cons_eq_append_conv)
      with None None' show ?thesis by (auto simp: bindM_eq_Ret)
    next
      case (Some ob)
      have "(\<exists>us x vs. org # ancestors E n (sc_parent E ob) = us @ x # vs \<and> m_brokers s x = Some b
          \<and> (\<forall>u \<in> set us. m_brokers s u = None)) \<longleftrightarrow>
        (\<exists>us x vs. ancestors E n (sc_parent E ob) = us @ x # vs \<and> m_brokers s x = Some b
          \<and> (\<forall>u \<in> set us. m_brokers s u = None))"
        (is "?L \<longleftrightarrow> ?R")
      proof
        assume ?L
        then obtain us x vs where *: "org # ancestors E n (sc_parent E ob) = us @ x # vs"
          "m_brokers s x = Some b" "\<forall>u \<in> set us. m_brokers s u = None" by blast
        with None obtain u us' where "us = u # us'" by (cases us) auto
        with * show ?R by auto
      next
        assume ?R
        then obtain us x vs where "ancestors E n (sc_parent E ob) = us @ x # vs"
          "m_brokers s x = Some b" "\<forall>u \<in> set us. m_brokers s u = None" by blast
        with None have "org # ancestors E n (sc_parent E ob) = (org # us) @ x # vs
            \<and> m_brokers s x = Some b \<and> (\<forall>u \<in> set (org # us). m_brokers s u = None)" by simp
        then show ?L by blast
      qed
      with None Some Suc.IH [of "sc_parent E ob"] show ?thesis by simp
    qed
  qed
qed

lemma get_parent_below:
  assumes "get_parent_broker E n this s = (Ret (has, parent), t)" and "has"
    and "\<forall>ob b. m_brokers s ob = Some b \<longrightarrow> brokers s b \<noteq> None"
  shows "brokers s parent \<noteq> None"
proof -
  from assms(1,2) obtain org where "find_broker E n org s = (Ret parent, t)"
    by (auto simp: get_parent_broker_def cci_get_broker_def get_broker_def create_broker_handle_def
        bindM_eq_Ret default_originator_inside split: if_splits)
  then have "\<exists>ob. m_brokers s ob = Some parent"
    by (auto simp: find_broker_nearest)
  with assms(3) show ?thesis by auto
qed

end
