(* ===== verification/Param_Handle.thy ===== *)
theory Param_Handle
  imports Param_Typed
begin

text \<open>
  \<open>cci_param_untyped_handle\<close> (src/src/cci/cfg/cci_param_untyped_handle.h and .cpp) and
  \<open>cci_param_typed_handle\<close> (cci_param_typed_handle.h): every operation checks that the handle
  is valid and calls the parameter with the originator of the handle.
\<close>

section \<open>Life of a handle\<close>

text \<open>
  The constructors are \<open>handle_to\<close> (of \<open>Consuming_Broker\<close>) and \<open>alloc_handle None\<close>. Copying
  and moving build a second handle of the same parameter; the source is left as it was,
  also by the move constructor.
\<close>

definition copy_handle :: "('v, 'j) env \<Rightarrow> hid \<Rightarrow> ('v, 'j, hid) cci" where
  "copy_handle E h =
     bindM (the_handle h) (\<lambda>d.
       bindM (promote_originator E (h_originator d)) (\<lambda>og.
         case m_param d of
           None \<Rightarrow> alloc_handle None og
         | Some i \<Rightarrow> handle_to i og))"

definition move_handle :: "('v, 'j) env \<Rightarrow> hid \<Rightarrow> ('v, 'j, hid) cci" where
  "move_handle E h = copy_handle E h"

text \<open>Assignment keeps the originator of the assigned handle.\<close>

definition assign_handle :: "hid \<Rightarrow> hid \<Rightarrow> ('v, 'j, unit) cci" where
  "assign_handle this that =
     bindM (the_handle this) (\<lambda>d. bindM (the_handle that) (\<lambda>e.
       if this = that then skipM
       else thenM (case m_param e of None \<Rightarrow> skipM | Some i \<Rightarrow> thenM (the_param i) skipM)
              (modM (\<lambda>s. attach_handle this (m_param e) (h_originator d) (detach_handle this s)))))"

definition invalidate :: "hid \<Rightarrow> ('v, 'j, unit) cci" where
  "invalidate h = bindM (the_handle h) (\<lambda>_. modM (detach_handle h))"

definition delete_handle :: "hid \<Rightarrow> ('v, 'j, unit) cci" where
  "delete_handle h = bindM (the_handle h) (\<lambda>_. modM (destroy_handle h))"

definition is_valid :: "param_handle \<Rightarrow> bool" where
  "is_valid d \<longleftrightarrow> m_param d \<noteq> None"

definition read_handle :: "hid \<Rightarrow> (param_handle \<Rightarrow> 'a) \<Rightarrow> ('v, 'j, 'a) cci" where
  "read_handle h f = bindM (the_handle h) (\<lambda>d. retM (f d))"

definition check_is_valid :: "('v, 'j) env \<Rightarrow> hid \<Rightarrow> ('v, 'j, unit) cci" where
  "check_is_valid E h =
     bindM (the_handle h) (\<lambda>d.
       let invalid_error = \<not> is_valid d
       in if invalid_error then
            thenM (CCI_REPORT_ERROR E ''cci_param_untyped_handle/check_is_valid''
                     ''The handled parameter is not valid.'')
              abortM
          else skipM)"

text \<open>The parameter behind a handle and the originator of the handle, after the check.\<close>

definition handled :: "('v, 'j) env \<Rightarrow> hid \<Rightarrow> (pid \<Rightarrow> originator \<Rightarrow> ('v, 'j, 'a) cci) \<Rightarrow> ('v, 'j, 'a) cci" where
  "handled E h k =
     thenM (check_is_valid E h)
       (bindM (the_handle h) (\<lambda>d. case m_param d of None \<Rightarrow> abortM | Some i \<Rightarrow> k i (h_originator d)))"

section \<open>Operations of the untyped handle\<close>

definition handle_set_cci_value :: "('v, 'j) env \<Rightarrow> ('v, 'j) invoker \<Rightarrow> nat \<Rightarrow> hid \<Rightarrow> 'j \<Rightarrow> address option
    \<Rightarrow> ('v, 'j, unit) cci" where
  "handle_set_cci_value E run n h x pwd = handled E h (\<lambda>i og. set_cci_value E run n i x pwd og)"

definition handle_get_cci_value :: "('v, 'j) env \<Rightarrow> ('v, 'j) invoker \<Rightarrow> nat \<Rightarrow> hid \<Rightarrow> ('v, 'j, 'j) cci" where
  "handle_get_cci_value E run n h = handled E h (\<lambda>i og. get_cci_value E run n i og)"

definition handle_get_default_cci_value :: "('v, 'j) env \<Rightarrow> hid \<Rightarrow> ('v, 'j, 'j) cci" where
  "handle_get_default_cci_value E h = handled E h (\<lambda>i og. get_default_cci_value E i)"

definition handle_is_preset_value :: "('v, 'j) env \<Rightarrow> nat \<Rightarrow> hid \<Rightarrow> ('v, 'j, bool) cci" where
  "handle_is_preset_value E n h = handled E h (\<lambda>i og. is_preset_value E n i)"

definition handle_get_data_category :: "('v, 'j) env \<Rightarrow> ('v, 'j) invoker \<Rightarrow> nat \<Rightarrow> hid
    \<Rightarrow> ('v, 'j, cci_param_data_category) cci" where
  "handle_get_data_category E run n h = handled E h (\<lambda>i og. get_data_category E run n i)"

text \<open>The queries and changes that are functions on the parameter alone.\<close>

definition handle_query :: "('v, 'j) env \<Rightarrow> hid \<Rightarrow> (('v, 'j) param \<Rightarrow> 'a) \<Rightarrow> ('v, 'j, 'a) cci" where
  "handle_query E h f = handled E h (\<lambda>i og. read_param i f)"

definition handle_lock :: "('v, 'j) env \<Rightarrow> hid \<Rightarrow> address option \<Rightarrow> ('v, 'j, bool) cci" where
  "handle_lock E h pwd = handled E h (\<lambda>i og. on_param i (lock i pwd))"

definition handle_unlock :: "('v, 'j) env \<Rightarrow> hid \<Rightarrow> address option \<Rightarrow> ('v, 'j, bool) cci" where
  "handle_unlock E h pwd = handled E h (\<lambda>i og. on_param i (unlock i pwd))"

definition handle_register_callback :: "('v, 'j) env \<Rightarrow> hid \<Rightarrow> cbkind \<Rightarrow> cci_callback_untyped_handle
    \<Rightarrow> ('v, 'j, cci_callback_untyped_handle) cci" where
  "handle_register_callback E h k cb =
     handled E h (\<lambda>i og. on_param i (\<lambda>p. (cb, untyped_register_callback k cb og p)))"

definition handle_unregister_callback :: "('v, 'j) env \<Rightarrow> hid \<Rightarrow> cbkind \<Rightarrow> cci_callback_untyped_handle
    \<Rightarrow> ('v, 'j, bool) cci" where
  "handle_unregister_callback E h k cb =
     handled E h (\<lambda>i og. on_param i (untyped_unregister_callback E k cb og))"

definition handle_unregister_all_callbacks :: "('v, 'j) env \<Rightarrow> hid \<Rightarrow> ('v, 'j, bool) cci" where
  "handle_unregister_all_callbacks E h =
     handled E h (\<lambda>i og. on_param i (untyped_unregister_all_callbacks E og))"

section \<open>The typed handle\<close>

text \<open>
  The constructor takes an untyped handle by value: a copy is made for the argument, a second
  handle is moved from it, which is invalidated if the parameter has another type, and the
  argument is destroyed.
\<close>

definition cci_param_cast :: "('v, 'j) env \<Rightarrow> tid \<Rightarrow> hid \<Rightarrow> ('v, 'j, hid) cci" where
  "cci_param_cast E T h =
     bindM (copy_handle E h) (\<lambda>arg.
       bindM (move_handle E arg) (\<lambda>h'.
         bindM (the_handle h') (\<lambda>d.
           thenM (case m_param d of
                    None \<Rightarrow> skipM
                  | Some i \<Rightarrow> bindM (read_param i get_type_info) (\<lambda>U.
                      if T \<noteq> U then modM (detach_handle h') else skipM))
             (thenM (delete_handle arg) (retM h')))))"

text \<open>
  A typed handle of type \<open>T\<close> is used at type \<open>T\<close> only; a valid one refers to a parameter of
  that type, and anything else would be undefined behaviour.
\<close>

definition typed_handled :: "('v, 'j) env \<Rightarrow> tid \<Rightarrow> hid \<Rightarrow> (pid \<Rightarrow> originator \<Rightarrow> ('v, 'j, 'a) cci)
    \<Rightarrow> ('v, 'j, 'a) cci" where
  "typed_handled E T h k =
     handled E h (\<lambda>i og. bindM (read_param i get_type_info) (\<lambda>U. if T = U then k i og else abortM))"

definition typed_handle_set_value :: "('v, 'j) env \<Rightarrow> ('v, 'j) invoker \<Rightarrow> nat \<Rightarrow> tid \<Rightarrow> hid \<Rightarrow> 'v
    \<Rightarrow> address option \<Rightarrow> ('v, 'j, unit) cci" where
  "typed_handle_set_value E run n T h v pwd =
     typed_handled E T h (\<lambda>i og. set_raw_value E run n i v pwd og)"

definition typed_handle_get_value :: "('v, 'j) env \<Rightarrow> ('v, 'j) invoker \<Rightarrow> nat \<Rightarrow> tid \<Rightarrow> hid
    \<Rightarrow> ('v, 'j, 'v) cci" where
  "typed_handle_get_value E run n T h = typed_handled E T h (\<lambda>i og. get_raw_value E run n i og)"

definition typed_handle_get_default_value :: "('v, 'j) env \<Rightarrow> tid \<Rightarrow> hid \<Rightarrow> ('v, 'j, 'v) cci" where
  "typed_handle_get_default_value E T h = typed_handled E T h (\<lambda>i og. read_param i get_default_value)"

section \<open>Lemmas\<close>

lemma handled_valid:
  "handles s h = Some d \<Longrightarrow> m_param d = Some i \<Longrightarrow> handled E h k s = k i (h_originator d) s"
  by (simp add: handled_def check_is_valid_def is_valid_def bindM_def Let_def)

text \<open>An operation on an invalid handle never returns: it reports and does nothing else.\<close>

lemma handled_invalid:
  assumes "handles s h = Some d" and "m_param d = None"
  shows "(\<exists>e. fst (handled E h k s) = Exc e) \<or> fst (handled E h k s) = Abort"
    and "\<exists>rs. snd (handled E h k s) = s\<lparr>reports := reports s @ rs\<rparr>"
  using assms
  by (auto simp: handled_def check_is_valid_def is_valid_def bindM_def Let_def CCI_REPORT_ERROR_def
      report_def intro: exI)

section \<open>Copies\<close>

text \<open>The originator of a copy: the current object, or outside the hierarchy that of the source.\<close>

definition promoted :: "'x sc_env_scheme \<Rightarrow> originator \<Rightarrow> originator" where
  "promoted E og = (case sc_current E of None \<Rightarrow> og
     | Some ob \<Rightarrow> \<lparr>m_originator_obj = Some ob, m_originator_str = None\<rparr>)"

lemma promote_run: "promote_originator E og s = (Ret (promoted E og), s)"
  by (cases "sc_current E") (simp_all add: promote_originator_def promoted_def default_originator_inside)

lemma promoted_again [simp]: "promoted E (promoted E og) = promoted E og"
  by (simp add: promoted_def split: option.splits)

lemma copy_handle_run:
  assumes "handles s h = Some d" and "m_param d = Some i" and "params s i = Some p"
  shows "copy_handle E h s = (Ret (next_address s), new_handle (Some i) (promoted E (h_originator d)) s)"
  using assms by (simp add: copy_handle_def bindM_Ret [OF promote_run] handle_to_def alloc_handle_def)

end
