(* ===== verification/Lifecycle.thy ===== *)
theory Lifecycle
  imports Param_Handle Broker_Manager
begin

text \<open>
  The life of a parameter: naming and construction (cci_param_untyped.cpp, cci_param_typed.h),
  \<open>cci_param_if::init\<close> and \<open>destroy\<close> (cci_param_if.cpp), and the operations of the brokers that
  run user code: \<open>add_param\<close> and \<open>remove_param\<close> with the create and destroy callbacks, and
  \<open>get_cci_value\<close>.
\<close>

section \<open>Brokers: values of parameters\<close>

definition consuming_get_cci_value :: "('v, 'j) env \<Rightarrow> ('v, 'j) invoker \<Rightarrow> nat \<Rightarrow> string \<Rightarrow> originator
    \<Rightarrow> bid \<Rightarrow> ('v, 'j, 'j) cci" where
  "consuming_get_cci_value E run n nm og b =
     bindM (the_broker b) (\<lambda>r.
       case get_orig_param nm r of
         Some i \<Rightarrow> get_cci_value E run n i og
       | None \<Rightarrow>
           (case map_find nm (m_unused_value_registry r) of
              Some x \<Rightarrow> retM x
            | None \<Rightarrow> thenM (get_param_failed E ''Unable to find the parameter to get value'')
                        (retM (null_value E))))"

text \<open>
  The forwarding broker passes on the name only, so that the default originator is built, by
  the parent and also for its own parameters.
\<close>

fun broker_get_cci_value :: "('v, 'j) env \<Rightarrow> ('v, 'j) invoker \<Rightarrow> nat \<Rightarrow> nat \<Rightarrow> bid \<Rightarrow> string \<Rightarrow> originator
    \<Rightarrow> ('v, 'j, 'j) cci" where
  "broker_get_cci_value E run n 0 b nm og = nofuelM"
| "broker_get_cci_value E run n (Suc m) b nm og =
     bindM (the_broker b) (\<lambda>r.
       if \<not> b_forwarding r then consuming_get_cci_value E run n nm og b
       else bindM (default_originator E) (\<lambda>og'.
         if sendToParent nm r then broker_get_cci_value E run n m (m_parent r) nm og'
         else consuming_get_cci_value E run n nm og' b))"

section \<open>Brokers: adding and removing a parameter\<close>

text \<open>The callbacks of a broker get a handle with the originator of the parameter.\<close>

definition invoke_param :: "('v, 'j) invoker \<Rightarrow> cci_callback_untyped_handle \<Rightarrow> hid \<Rightarrow> ('v, 'j, unit) cci" where
  "invoke_param run cb h =
     (case cb of
        None \<Rightarrow> abortM
      | Some ref \<Rightarrow> if cb_signature ref = Sig_param then thenM (run ref (Param_event h)) skipM else abortM)"

fun broker_callback_loop :: "('v, 'j) invoker \<Rightarrow> nat \<Rightarrow> ('j broker \<Rightarrow> callback_obj list) \<Rightarrow> bid \<Rightarrow> pid
    \<Rightarrow> nat \<Rightarrow> ('v, 'j, unit) cci" where
  "broker_callback_loop run 0 cbs b i j = nofuelM"
| "broker_callback_loop run (Suc n) cbs b i j =
     bindM (the_broker b) (\<lambda>r.
       if j < length (cbs r) then
         bindM (the_param i) (\<lambda>p.
           thenM (with_handle i (m_originator p) (\<lambda>h. invoke_param run (callback (cbs r ! j)) h))
             (broker_callback_loop run n cbs b i (Suc j)))
       else skipM)"

definition register_param :: "string \<Rightarrow> pid \<Rightarrow> 'j broker \<Rightarrow> 'j broker" where
  "register_param nm i r = r\<lparr>m_param_registry := map_insert nm i (m_param_registry r)\<rparr>"

definition use_preset :: "string \<Rightarrow> 'j broker \<Rightarrow> 'j broker" where
  "use_preset nm r =
     (case map_find nm (m_unused_value_registry r) of
        Some x \<Rightarrow> r\<lparr>m_used_value_registry := map_insert nm x (m_used_value_registry r),
                   m_unused_value_registry := map_erase nm (m_unused_value_registry r)\<rparr>
      | None \<Rightarrow> r)"

definition unuse_preset :: "string \<Rightarrow> 'j broker \<Rightarrow> 'j broker" where
  "unuse_preset nm r =
     (case map_find nm (m_used_value_registry r) of
        Some x \<Rightarrow> r\<lparr>m_unused_value_registry := map_insert nm x (m_unused_value_registry r),
                   m_used_value_registry := map_erase nm (m_used_value_registry r)\<rparr>
      | None \<Rightarrow> r)"

definition consuming_add_param :: "('v, 'j) invoker \<Rightarrow> nat \<Rightarrow> pid \<Rightarrow> bid \<Rightarrow> ('v, 'j, unit) cci" where
  "consuming_add_param run n i b =
     bindM (the_param i) (\<lambda>p.
       let par_name = param_name p in
       bindM (the_broker b) (\<lambda>r.
         let new_element = (map_find par_name (m_param_registry r) = None) in
         thenM (upd_broker b (register_param par_name i))
           (thenM (assertM new_element)
             (thenM (upd_broker b (use_preset par_name))
               (broker_callback_loop run n m_create_callbacks b i 0)))))"

definition unregister_param :: "string \<Rightarrow> 'j broker \<Rightarrow> 'j broker" where
  "unregister_param nm r = r\<lparr>m_param_registry := map_erase nm (m_param_registry r)\<rparr>"

definition consuming_remove_param :: "('v, 'j) invoker \<Rightarrow> nat \<Rightarrow> pid \<Rightarrow> bid \<Rightarrow> ('v, 'j, unit) cci" where
  "consuming_remove_param run n i b =
     bindM (the_param i) (\<lambda>p.
       thenM (upd_broker b (unregister_param (param_name p)))
         (thenM (broker_callback_loop run n m_destroy_callbacks b i 0)
           (bindM (the_param i) (\<lambda>p. upd_broker b (unuse_preset (param_name p))))))"

definition add_param :: "('v, 'j) invoker \<Rightarrow> nat \<Rightarrow> bid \<Rightarrow> pid \<Rightarrow> ('v, 'j, unit) cci" where
  "add_param run n b i =
     bindM (the_param i) (\<lambda>p. forward n b (param_name p) (consuming_add_param run n i))"

definition remove_param :: "('v, 'j) invoker \<Rightarrow> nat \<Rightarrow> bid \<Rightarrow> pid \<Rightarrow> ('v, 'j, unit) cci" where
  "remove_param run n b i =
     bindM (the_param i) (\<lambda>p. forward n b (param_name p) (consuming_remove_param run n i))"

section \<open>Initialization and destruction\<close>

definition init :: "('v, 'j) env \<Rightarrow> ('v, 'j) invoker \<Rightarrow> nat \<Rightarrow> bid \<Rightarrow> pid \<Rightarrow> ('v, 'j, unit) cci" where
  "init E run n b i =
     bindM (the_param i) (\<lambda>p.
       let nm = param_name p in
       bindM (has_preset_value n b nm) (\<lambda>has.
         thenM (if has then
                  bindM (get_preset_cci_value E n b nm) (\<lambda>x.
                    bindM (get_value_origin_by_name n b nm) (\<lambda>og.
                      preset_cci_value E run n i x og))
                else skipM)
           (add_param run n b i)))"

definition destroy :: "('v, 'j) invoker \<Rightarrow> nat \<Rightarrow> bid \<Rightarrow> pid \<Rightarrow> ('v, 'j, unit) cci" where
  "destroy run n b i = thenM (remove_param run n b i) (invalidate_all_param_handles n i)"

section \<open>Names\<close>

text \<open>A process is not part of a name: the loop climbs to the module around it.\<close>

fun enclosing_module :: "('v, 'j) env \<Rightarrow> nat \<Rightarrow> sc_object option \<Rightarrow> ('v, 'j, sc_object option) cci" where
  "enclosing_module E 0 ob = nofuelM"
| "enclosing_module E (Suc n) ob =
     (case ob of
        None \<Rightarrow> retM None
      | Some x \<Rightarrow> if is_process E x then enclosing_module E n (sc_parent E x) else retM (Some x))"

definition param_full_name :: "('v, 'j) env \<Rightarrow> nat \<Rightarrow> string \<Rightarrow> cci_name_type \<Rightarrow> ('v, 'j, string) cci" where
  "param_full_name E n nm name_type =
     (if name_type = CCI_ABSOLUTE_NAME then retM nm
      else bindM (enclosing_module E n (sc_current E)) (\<lambda>ob.
        case ob of
          Some x \<Rightarrow> retM (sc_name E x @ ''.'' @ nm)
        | None \<Rightarrow> retM nm))"

text \<open>
  A unique name is registered in any case; the parameter takes it only if its own name is one
  of SystemC's or has a preset value.
\<close>

definition choose_name :: "('v, 'j) env \<Rightarrow> nat \<Rightarrow> bid \<Rightarrow> string \<Rightarrow> ('v, 'j, string) cci" where
  "choose_name E n b nm =
     bindM (cci_gen_unique_name E (Some nm)) (\<lambda>unique_name.
       if unique_name \<noteq> nm then
         bindM (getM (\<lambda>s. sc_name_exists E (c_str nm) (sc_names s))) (\<lambda>ex.
           if ex then retM unique_name
           else bindM (has_preset_value n b nm) (\<lambda>has. retM (if has then unique_name else nm)))
       else retM nm)"

section \<open>Construction\<close>

definition no_callbacks :: callback_obj_vector where
  "no_callbacks = \<lparr>vec = [], oncall = False\<rparr>"

definition fresh_param :: "string \<Rightarrow> string \<Rightarrow> broker_handle \<Rightarrow> originator \<Rightarrow> tid
    \<Rightarrow> cci_param_mutable_type \<Rightarrow> 'v \<Rightarrow> ('v, 'j) param" where
  "fresh_param nm desc bh og T TM v =
     \<lparr>m_name = nm, m_description = desc, metadata = [], m_lock_pwd = None, m_broker_handle = bh,
      m_value_origin = og, m_pre_write_callbacks = no_callbacks, m_post_write_callbacks = no_callbacks,
      m_pre_read_callbacks = no_callbacks, m_post_read_callbacks = no_callbacks, m_originator = og,
      m_param_handles = [], fast_read = False, fast_write = False, m_value = v, m_default_value = v,
      p_type = T, p_mutability = TM\<rparr>"

definition install_param :: "('v, 'j) param \<Rightarrow> ('v, 'j) world \<Rightarrow> ('v, 'j) world" where
  "install_param p s =
     s\<lparr>params := (params s)(next_address s \<mapsto> p), next_address := Suc (next_address s)\<rparr>"

definition forget_param :: "pid \<Rightarrow> ('v, 'j) world \<Rightarrow> ('v, 'j) world" where
  "forget_param i s = s\<lparr>params := (params s)(i := None)\<rparr>"

text \<open>The destructor of the base class \<open>cci_param_untyped\<close>.\<close>

definition unregister_base :: "('v, 'j) env \<Rightarrow> string \<Rightarrow> ('v, 'j, unit) cci" where
  "unregister_base E nm =
     (if nm \<noteq> [] then thenM (cci_unregister_name E (c_str nm)) skipM else skipM)"

definition untyped_destructor :: "('v, 'j) env \<Rightarrow> pid \<Rightarrow> ('v, 'j, unit) cci" where
  "untyped_destructor E i =
     bindM (the_param i) (\<lambda>p.
       thenM (assertM (m_param_handles p = []))
         (thenM (unregister_base E (m_name p)) (modM (forget_param i))))"

definition find_broker_convenience :: "('v, 'j) env \<Rightarrow> nat \<Rightarrow> originator \<Rightarrow> ('v, 'j, broker_handle) cci" where
  "find_broker_convenience E n og =
     (if sc_current E = None then cci_get_global_broker E n og else cci_get_broker E n)"

text \<open>
  The constructors of \<open>cci_param_typed\<close>: with a typed default value, or with a \<open>cci_value\<close> that
  is converted after the base class has been built. When the conversion or \<open>init\<close> throws,
  the base class is destroyed again.
\<close>

definition construct_param :: "('v, 'j) env \<Rightarrow> ('v, 'j) invoker \<Rightarrow> nat \<Rightarrow> string \<Rightarrow> ('v, 'j, 'v) cci \<Rightarrow> tid
    \<Rightarrow> cci_param_mutable_type \<Rightarrow> cci_name_type \<Rightarrow> broker_handle option \<Rightarrow> originator \<Rightarrow> string
    \<Rightarrow> ('v, 'j, pid) cci" where
  "construct_param E run n nm default_value T TM name_type private_broker og desc =
     bindM (case private_broker of None \<Rightarrow> find_broker_convenience E n og | Some bh \<Rightarrow> retM bh) (\<lambda>bh.
       bindM (promote_originator E (bh_originator bh)) (\<lambda>bog.
         bindM (param_full_name E n nm name_type) (\<lambda>full.
           bindM (choose_name E n (m_broker bh) full) (\<lambda>name.
             bindM (on_exception default_value (unregister_base E name)) (\<lambda>v.
               bindM (getM next_address) (\<lambda>i.
                 thenM (modM (install_param
                          (fresh_param name desc (create_broker_handle (m_broker bh) bog) og T TM v)))
                   (thenM (on_exception (init E run n (m_broker bh) i) (untyped_destructor E i))
                     (retM i))))))))"

definition new_param :: "('v, 'j) env \<Rightarrow> ('v, 'j) invoker \<Rightarrow> nat \<Rightarrow> string \<Rightarrow> 'v \<Rightarrow> tid
    \<Rightarrow> cci_param_mutable_type \<Rightarrow> cci_name_type \<Rightarrow> broker_handle option \<Rightarrow> originator \<Rightarrow> string
    \<Rightarrow> ('v, 'j, pid) cci" where
  "new_param E run n nm v = construct_param E run n nm (retM v)"

definition new_param_cci :: "('v, 'j) env \<Rightarrow> ('v, 'j) invoker \<Rightarrow> nat \<Rightarrow> string \<Rightarrow> 'j \<Rightarrow> tid
    \<Rightarrow> cci_param_mutable_type \<Rightarrow> cci_name_type \<Rightarrow> broker_handle option \<Rightarrow> originator \<Rightarrow> string
    \<Rightarrow> ('v, 'j, pid) cci" where
  "new_param_cci E run n nm x T = construct_param E run n nm (from_cci_value E T x) T"

text \<open>The destructor of a parameter; an exception from a destroy callback ends the process.\<close>

definition delete_param :: "('v, 'j) env \<Rightarrow> ('v, 'j) invoker \<Rightarrow> nat \<Rightarrow> pid \<Rightarrow> ('v, 'j, unit) cci" where
  "delete_param E run n i =
     noexceptM (bindM (the_param i) (\<lambda>p.
       thenM (destroy run n (m_broker (m_broker_handle p)) i) (untyped_destructor E i)))"

text \<open>
  The destructors of \<open>consuming_broker\<close> and \<open>broker\<close> (src/src/cci/utils) are empty: the object goes,
  and nothing else changes.
\<close>

definition forget_broker :: "bid \<Rightarrow> ('v, 'j) world \<Rightarrow> ('v, 'j) world" where
  "forget_broker b s = s\<lparr>brokers := (brokers s)(b := None)\<rparr>"

definition delete_broker :: "bid \<Rightarrow> ('v, 'j, unit) cci" where
  "delete_broker b = bindM (the_broker b) (\<lambda>_. modM (forget_broker b))"

section \<open>The invariant of a broker\<close>

lemma broker_inv_disjoint:
  "broker_inv r \<Longrightarrow> map_find nm (m_used_value_registry r) = Some x \<Longrightarrow>
   map_find nm (m_unused_value_registry r) = None"
  by (auto simp: broker_inv_def map_find_None_iff dest: map_find_Some_key)

lemma broker_inv_disjoint':
  "broker_inv r \<Longrightarrow> map_find nm (m_unused_value_registry r) = Some x \<Longrightarrow>
   map_find nm (m_used_value_registry r) = None"
  by (auto simp: broker_inv_def map_find_None_iff dest: map_find_Some_key)

lemma use_preset_inv: "broker_inv r \<Longrightarrow> broker_inv (use_preset nm r)"
  by (auto simp: use_preset_def broker_inv_def sorted_map_insert sorted_map_erase
      dest: map_find_Some_key split: option.splits)

lemma unuse_preset_inv: "broker_inv r \<Longrightarrow> broker_inv (unuse_preset nm r)"
  by (auto simp: unuse_preset_def broker_inv_def sorted_map_insert sorted_map_erase
      dest: map_find_Some_key split: option.splits)

lemma register_param_inv: "broker_inv r \<Longrightarrow> broker_inv (register_param nm i r)"
  by (simp add: register_param_def broker_inv_def sorted_map_insert)

lemma unregister_param_inv: "broker_inv r \<Longrightarrow> broker_inv (unregister_param nm r)"
  by (simp add: unregister_param_def broker_inv_def sorted_map_erase)

text \<open>Using or giving back a preset value does not change what the broker answers about it.\<close>

lemma use_preset_same:
  assumes "broker_inv r"
  shows "consuming_get_preset_cci_value E j (use_preset nm r) = consuming_get_preset_cci_value E j r"
    and "consuming_has_preset_value j (use_preset nm r) = consuming_has_preset_value j r"
  using broker_inv_disjoint' [OF assms]
  by (auto simp: use_preset_def consuming_get_preset_cci_value_def consuming_has_preset_value_def
      split: option.splits)

lemma unuse_preset_same:
  assumes "broker_inv r"
  shows "consuming_get_preset_cci_value E j (unuse_preset nm r) = consuming_get_preset_cci_value E j r"
    and "consuming_has_preset_value j (unuse_preset nm r) = consuming_has_preset_value j r"
  using broker_inv_disjoint [OF assms]
  by (auto simp: unuse_preset_def consuming_get_preset_cci_value_def consuming_has_preset_value_def
      split: option.splits)

end
