(* ===== verification/Client.thy ===== *)
theory Client
  imports Lifecycle
begin

text \<open>
  User code running against the library. \<open>dispatch\<close> is one call of the public interface,
  \<open>exec\<close> runs a program. A functor that the library invokes is run by \<open>exec\<close> again, with one
  unit of fuel less: this closes the recursion through \<open>run\<close> of the components. Every access
  in the model goes the way the C++ call goes, whether it comes from the owner of an object
  or from a callback in the middle of another operation.
\<close>

section \<open>Brokers through a handle\<close>

text \<open>
  \<open>cci_broker_handle\<close> (src/src/cci/cfg/cci_broker_handle.h and .cpp) forwards to the broker with
  its own originator, except \<open>get_cci_value\<close>, which leaves it to the default argument.
\<close>

definition handle_broker_set_preset :: "('v, 'j) env \<Rightarrow> nat \<Rightarrow> broker_handle \<Rightarrow> string \<Rightarrow> 'j
    \<Rightarrow> ('v, 'j, unit) cci" where
  "handle_broker_set_preset E n bh nm x = set_preset_cci_value E n (m_broker bh) nm x (bh_originator bh)"

definition handle_broker_get_cci_value :: "('v, 'j) env \<Rightarrow> ('v, 'j) invoker \<Rightarrow> nat \<Rightarrow> broker_handle
    \<Rightarrow> string \<Rightarrow> ('v, 'j, 'j) cci" where
  "handle_broker_get_cci_value E run n bh nm =
     bindM (default_originator E) (\<lambda>og. broker_get_cci_value E run n n (m_broker bh) nm og)"

definition handle_broker_get_param_handle :: "nat \<Rightarrow> broker_handle \<Rightarrow> string \<Rightarrow> ('v, 'j, hid) cci" where
  "handle_broker_get_param_handle n bh nm = get_param_handle n (m_broker bh) nm (bh_originator bh)"

definition handle_broker_get_param_handles :: "('v, 'j) env \<Rightarrow> nat \<Rightarrow> broker_handle \<Rightarrow> ('v, 'j, hid list) cci" where
  "handle_broker_get_param_handles E n bh = get_param_handles E n (m_broker bh) (bh_originator bh)"

text \<open>Adding a name to the public set of exposed names of a broker.\<close>

definition expose_name :: "string \<Rightarrow> 'j broker \<Rightarrow> 'j broker" where
  "expose_name nm r = r\<lparr>expose := insert nm (expose r)\<rparr>"

section \<open>Calls\<close>

definition answer :: "('a \<Rightarrow> ('v, 'j) answer) \<Rightarrow> ('v, 'j, 'a) cci \<Rightarrow> ('v, 'j, ('v, 'j) answer) cci" where
  "answer f m = bindM m (\<lambda>x. retM (f x))"

abbreviation no_answer :: "unit \<Rightarrow> ('v, 'j) answer" where
  "no_answer \<equiv> \<lambda>_. A_unit"

fun dispatch_param :: "('v, 'j) env \<Rightarrow> ('v, 'j) invoker \<Rightarrow> nat \<Rightarrow> pid \<Rightarrow> ('v, 'j) param_call
    \<Rightarrow> ('v, 'j, ('v, 'j) answer) cci" where
  "dispatch_param E run n i (Set_value v) = answer no_answer (set_value E run n i v)"
| "dispatch_param E run n i (Set_value_pwd v pwd) = answer no_answer (set_value_pwd E run n i v pwd)"
| "dispatch_param E run n i Get_value = answer A_value (get_value E run n i)"
| "dispatch_param E run n i (Get_value_originator og) = answer A_value (get_raw_value E run n i og)"
| "dispatch_param E run n i Get_default_value = answer A_value (read_param i get_default_value)"
| "dispatch_param E run n i (Set_cci_value x pwd og) = answer no_answer (set_cci_value E run n i x pwd og)"
| "dispatch_param E run n i (Get_cci_value og) = answer A_cci (get_cci_value E run n i og)"
| "dispatch_param E run n i Get_default_cci_value = answer A_cci (get_default_cci_value E i)"
| "dispatch_param E run n i Is_default_value = answer A_bool (read_param i (is_default_value E))"
| "dispatch_param E run n i Is_preset_value = answer A_bool (is_preset_value E n i)"
| "dispatch_param E run n i Reset = answer A_bool (reset E run n i)"
| "dispatch_param E run n i (Lock pwd) = answer A_bool (on_param i (lock i pwd))"
| "dispatch_param E run n i (Unlock pwd) = answer A_bool (on_param i (unlock i pwd))"
| "dispatch_param E run n i Is_locked = answer A_bool (read_param i is_locked)"
| "dispatch_param E run n i (Register_callback k cb) =
     answer A_callback (on_param i (\<lambda>p. (cb, register_callback k cb p)))"
| "dispatch_param E run n i (Unregister_callback k cb) =
     answer A_bool (on_param i (\<lambda>p. untyped_unregister_callback E k cb (m_originator p) p))"
| "dispatch_param E run n i Unregister_all_callbacks =
     answer A_bool (on_param i (\<lambda>p. untyped_unregister_all_callbacks E (m_originator p) p))"
| "dispatch_param E run n i Has_callbacks = answer A_bool (read_param i has_callbacks)"
| "dispatch_param E run n i (Set_description d) = answer no_answer (on_param i (\<lambda>p. ((), set_description d p)))"
| "dispatch_param E run n i Get_description = answer A_string (read_param i get_description)"
| "dispatch_param E run n i (Add_metadata nm x d) =
     answer no_answer (on_param i (\<lambda>p. ((), add_metadata nm x d p)))"
| "dispatch_param E run n i Get_metadata = answer A_metadata (read_param i get_metadata)"
| "dispatch_param E run n i Get_name = answer A_string (read_param i param_name)"
| "dispatch_param E run n i Get_originator = answer A_originator (read_param i get_originator)"
| "dispatch_param E run n i Get_value_origin = answer A_originator (read_param i get_value_origin)"
| "dispatch_param E run n i Get_mutable_type = answer A_mutable_type (read_param i get_mutable_type)"
| "dispatch_param E run n i Get_data_category = answer A_category (get_data_category E run n i)"
| "dispatch_param E run n i (Create_param_handle og) = answer A_address (handle_to i og)"

fun dispatch_handle :: "('v, 'j) env \<Rightarrow> ('v, 'j) invoker \<Rightarrow> nat \<Rightarrow> hid \<Rightarrow> ('v, 'j) handle_call
    \<Rightarrow> ('v, 'j, ('v, 'j) answer) cci" where
  "dispatch_handle E run n h (H_set_cci_value x pwd) = answer no_answer (handle_set_cci_value E run n h x pwd)"
| "dispatch_handle E run n h H_get_cci_value = answer A_cci (handle_get_cci_value E run n h)"
| "dispatch_handle E run n h H_get_default_cci_value = answer A_cci (handle_get_default_cci_value E h)"
| "dispatch_handle E run n h (H_set_value T v pwd) = answer no_answer (typed_handle_set_value E run n T h v pwd)"
| "dispatch_handle E run n h (H_get_value T) = answer A_value (typed_handle_get_value E run n T h)"
| "dispatch_handle E run n h (H_get_default_value T) = answer A_value (typed_handle_get_default_value E T h)"
| "dispatch_handle E run n h H_is_default_value = answer A_bool (handle_query E h (is_default_value E))"
| "dispatch_handle E run n h H_is_preset_value = answer A_bool (handle_is_preset_value E n h)"
| "dispatch_handle E run n h (H_lock pwd) = answer A_bool (handle_lock E h pwd)"
| "dispatch_handle E run n h (H_unlock pwd) = answer A_bool (handle_unlock E h pwd)"
| "dispatch_handle E run n h H_is_locked = answer A_bool (handle_query E h is_locked)"
| "dispatch_handle E run n h (H_register_callback k cb) = answer A_callback (handle_register_callback E h k cb)"
| "dispatch_handle E run n h (H_unregister_callback k cb) = answer A_bool (handle_unregister_callback E h k cb)"
| "dispatch_handle E run n h H_unregister_all_callbacks = answer A_bool (handle_unregister_all_callbacks E h)"
| "dispatch_handle E run n h H_has_callbacks = answer A_bool (handle_query E h has_callbacks)"
| "dispatch_handle E run n h H_get_description = answer A_string (handle_query E h get_description)"
| "dispatch_handle E run n h H_get_metadata = answer A_metadata (handle_query E h get_metadata)"
| "dispatch_handle E run n h H_name = answer A_string (handle_query E h param_name)"
| "dispatch_handle E run n h H_get_originator = answer A_originator (read_handle h h_originator)"
| "dispatch_handle E run n h H_get_value_origin = answer A_originator (handle_query E h get_value_origin)"
| "dispatch_handle E run n h H_get_mutable_type = answer A_mutable_type (handle_query E h get_mutable_type)"
| "dispatch_handle E run n h H_get_data_category = answer A_category (handle_get_data_category E run n h)"
| "dispatch_handle E run n h H_is_valid = answer A_bool (read_handle h is_valid)"
| "dispatch_handle E run n h H_invalidate = answer no_answer (invalidate h)"
| "dispatch_handle E run n h H_copy = answer A_address (copy_handle E h)"
| "dispatch_handle E run n h (H_cast T) = answer A_address (cci_param_cast E T h)"
| "dispatch_handle E run n h (H_assign g) = answer no_answer (assign_handle h g)"
| "dispatch_handle E run n h H_destroy = answer no_answer (delete_handle h)"

fun dispatch_broker :: "('v, 'j) env \<Rightarrow> ('v, 'j) invoker \<Rightarrow> nat \<Rightarrow> broker_handle \<Rightarrow> 'j broker_call
    \<Rightarrow> ('v, 'j, ('v, 'j) answer) cci" where
  "dispatch_broker E run n bh (B_set_preset_cci_value nm x) = answer no_answer (handle_broker_set_preset E n bh nm x)"
| "dispatch_broker E run n bh (B_get_preset_cci_value nm) =
     answer A_cci (get_preset_cci_value E n (m_broker bh) nm)"
| "dispatch_broker E run n bh (B_has_preset_value nm) = answer A_bool (has_preset_value n (m_broker bh) nm)"
| "dispatch_broker E run n bh B_get_unconsumed_preset_values =
     answer A_pairs (read_broker (m_broker bh) get_unconsumed_preset_values)"
| "dispatch_broker E run n bh (B_ignore_unconsumed_preset_values pred) =
     answer no_answer (on_broker (m_broker bh) (\<lambda>r. ((), ignore_unconsumed_preset_values pred r)))"
| "dispatch_broker E run n bh (B_get_value_origin nm) =
     answer A_originator (get_value_origin_by_name n (m_broker bh) nm)"
| "dispatch_broker E run n bh (B_get_preset_value_origin nm) =
     answer A_originator (get_preset_value_origin (m_broker bh) nm)"
| "dispatch_broker E run n bh (B_lock_preset_value nm) = answer no_answer (lock_preset_value n (m_broker bh) nm)"
| "dispatch_broker E run n bh (B_get_cci_value nm) = answer A_cci (handle_broker_get_cci_value E run n bh nm)"
| "dispatch_broker E run n bh (B_get_param_handle nm) = answer A_address (handle_broker_get_param_handle n bh nm)"
| "dispatch_broker E run n bh B_get_param_handles = answer A_handles (handle_broker_get_param_handles E n bh)"
| "dispatch_broker E run n bh (B_register_create_callback cb) =
     answer A_callback (on_broker (m_broker bh) (\<lambda>r. (cb, register_create_callback cb (bh_originator bh) r)))"
| "dispatch_broker E run n bh (B_unregister_create_callback cb) =
     answer A_bool (on_broker (m_broker bh) (unregister_create_callback E cb (bh_originator bh)))"
| "dispatch_broker E run n bh (B_register_destroy_callback cb) =
     answer A_callback (on_broker (m_broker bh) (\<lambda>r. (cb, register_destroy_callback cb (bh_originator bh) r)))"
| "dispatch_broker E run n bh (B_unregister_destroy_callback cb) =
     answer A_bool (on_broker (m_broker bh) (unregister_destroy_callback E cb (bh_originator bh)))"
| "dispatch_broker E run n bh B_unregister_all_callbacks =
     answer A_bool (on_broker (m_broker bh) (broker_unregister_all_callbacks E (bh_originator bh)))"
| "dispatch_broker E run n bh B_has_callbacks = answer A_bool (read_broker (m_broker bh) broker_has_callbacks)"
| "dispatch_broker E run n bh B_is_global_broker = answer A_bool (read_broker (m_broker bh) is_global_broker)"
| "dispatch_broker E run n bh (B_expose nm) =
     answer no_answer (on_broker (m_broker bh) (\<lambda>r. ((), expose_name nm r)))"

fun dispatch :: "('v, 'j) env \<Rightarrow> ('v, 'j) invoker \<Rightarrow> nat \<Rightarrow> ('v, 'j) call
    \<Rightarrow> ('v, 'j, ('v, 'j) answer) cci" where
  "dispatch E run n (On_param i c) = dispatch_param E run n i c"
| "dispatch E run n (On_handle h c) = dispatch_handle E run n h c"
| "dispatch E run n (On_broker bh c) = dispatch_broker E run n bh c"
| "dispatch E run n (New_param nm v T TM nt bh og desc) =
     answer A_address (new_param E run n nm v T TM nt bh og desc)"
| "dispatch E run n (New_param_cci nm x T TM nt bh og desc) =
     answer A_address (new_param_cci E run n nm x T TM nt bh og desc)"
| "dispatch E run n (Delete_param i) = answer no_answer (delete_param E run n i)"
| "dispatch E run n (New_broker nm fwd) =
     answer A_address (if fwd then new_broker E n nm else new_consuming_broker E nm)"
| "dispatch E run n (Delete_broker b) = answer no_answer (delete_broker b)"
| "dispatch E run n (Register_broker b) = answer A_broker (thenM (the_broker b) (register_broker E b))"
| "dispatch E run n Cci_get_broker = answer A_broker (cci_get_broker E n)"
| "dispatch E run n (Cci_get_global_broker og) = answer A_broker (cci_get_global_broker E n og)"

section \<open>Programs\<close>

fun exec :: "('v, 'j) env \<Rightarrow> nat \<Rightarrow> ('v, 'j) prog \<Rightarrow> ('v, 'j, bool) cci" where
  "exec E 0 c = nofuelM"
| "exec E (Suc n) (P_return b) = retM b"
| "exec E (Suc n) (P_throw e) = throwM e"
| "exec E (Suc n) P_abort = abortM"
| "exec E (Suc n) (P_call a k) =
     bindM (dispatch E (\<lambda>ref ev. exec E n (body E (cb_object ref) ev)) n a) (\<lambda>x. exec E n (k x))"
| "exec E (Suc n) (P_try c k) = tryM (exec E n c) (\<lambda>r. exec E n (k r))"

text \<open>A program, and an environment of callbacks, that destroy no broker.\<close>

primrec spares_brokers :: "('v, 'j) prog \<Rightarrow> bool" where
  "spares_brokers (P_return b) = True"
| "spares_brokers (P_throw e) = True"
| "spares_brokers P_abort = True"
| "spares_brokers (P_call a k) = ((\<forall>b. a \<noteq> Delete_broker b) \<and> (\<forall>x. spares_brokers (k x)))"
| "spares_brokers (P_try c k) = (spares_brokers c \<and> (\<forall>r. spares_brokers (k r)))"

definition callbacks_spare_brokers :: "('v, 'j) env \<Rightarrow> bool" where
  "callbacks_spare_brokers E \<longleftrightarrow> (\<forall>ob ev. spares_brokers (body E ob ev))"

text \<open>The invoker of a run with fuel \<open>n\<close>.\<close>

definition runner :: "('v, 'j) env \<Rightarrow> nat \<Rightarrow> ('v, 'j) invoker" where
  "runner E n ref ev = exec E n (body E (cb_object ref) ev)"

lemma exec_call: "exec E (Suc n) (P_call a k) = bindM (dispatch E (runner E n) n a) (\<lambda>x. exec E n (k x))"
  by (simp add: runner_def [abs_def])

end
