(* ===== verification/Client_Relation.thy ===== *)
theory Client_Relation
  imports Client
begin

text \<open>
  One proof for every client program: a relation between states that is reflexive, transitive
  and holds across each elementary change of the library is kept by every run of every
  program. The elementary changes of a parameter and of a broker are the step relations
  \<open>param_step\<close> and \<open>broker_step\<close>; the locale \<open>client_relation\<close> collects what a relation must
  satisfy, and its lemmas go through all operations of the library up to \<open>exec\<close>. The theories
  that follow interpret it on the relations of the invariants. The locale \<open>library_relation\<close> asks for
  all elementary changes but the destruction of a broker, and covers the programs without one.
\<close>

section \<open>The state machine of a parameter\<close>

inductive param_step :: "('v, 'j) env \<Rightarrow> pid \<Rightarrow> ('v, 'j) param \<Rightarrow> ('v, 'j) param \<Rightarrow> bool" for E i where
  describe: "param_step E i p (set_description d p)"
| annotate: "param_step E i p (add_metadata nm x d p)"
| locking: "param_step E i p (snd (lock i pwd p))"
| unlocking: "param_step E i p (snd (unlock i pwd p))"
| registering: "param_step E i p (untyped_register_callback k cb og p)"
| unregistering: "param_step E i p (snd (untyped_unregister_callback E k cb og p))"
| unregistering_all: "param_step E i p (snd (untyped_unregister_all_callbacks E og p))"
| writing: "param_step E i p (write_param v og p)"
| fast_writing: "fast_write p \<Longrightarrow> param_step E i p (p\<lparr>m_value := v\<rparr>)"
| written: "param_step E i p (update_fast_write E og p)"
| was_read: "param_step E i p (update_fast_read p)"

inductive_simps param_step_simps: "param_step E i p q"

section \<open>The state machine of a broker\<close>

inductive broker_step :: "('v, 'j) env \<Rightarrow> 'j broker \<Rightarrow> 'j broker \<Rightarrow> bool" for E where
  presetting: "nm \<notin> locked r \<Longrightarrow> broker_step E r (store_preset nm x og r)"
| preset_locking: "broker_step E r (consuming_lock_preset_value nm r)"
| ignoring: "broker_step E r (ignore_unconsumed_preset_values pred r)"
| b_register_create: "broker_step E r (register_create_callback cb og r)"
| b_unregister_create: "broker_step E r (snd (unregister_create_callback E cb og r))"
| b_register_destroy: "broker_step E r (register_destroy_callback cb og r)"
| b_unregister_destroy: "broker_step E r (snd (unregister_destroy_callback E cb og r))"
| b_unregister_all: "broker_step E r (snd (broker_unregister_all_callbacks E og r))"
| param_registered: "broker_step E r (register_param nm i r)"
| param_unregistered: "broker_step E r (unregister_param nm r)"
| preset_used: "broker_step E r (use_preset nm r)"
| preset_unused: "broker_step E r (unuse_preset nm r)"
| exposing: "broker_step E r (expose_name nm r)"

text \<open>The typed registration clears the flags that the untyped one clears again.\<close>

lemma register_callback_eq: "register_callback k cb p = untyped_register_callback k cb (m_originator p) p"
  by (simp add: register_callback_def untyped_register_callback_def get_originator_def)

section \<open>Relations kept by every client\<close>

locale library_relation = step_relation R
  for R :: "('v, 'j) world \<Rightarrow> ('v, 'j) world \<Rightarrow> bool" +
  fixes E :: "('v, 'j) env"
  assumes R_report: "R s (s\<lparr>reports := reports s @ [rp]\<rparr>)"
    and R_names: "R s (s\<lparr>sc_names := ns\<rparr>)"
    and R_registry: "brokers s b \<noteq> None \<Longrightarrow> m_brokers s ob = None \<Longrightarrow>
          R s (s\<lparr>m_brokers := (m_brokers s)(ob \<mapsto> b)\<rparr>)"
    and R_param: "params s i = Some p \<Longrightarrow> param_step E i p (f p) \<Longrightarrow> R s (map_param i f s)"
    and R_guard: "params s i = Some p \<Longrightarrow> \<not> oncall (callbacks_of k p) \<Longrightarrow>
          R (map_param i (set_oncall k True) s) t \<Longrightarrow> R s (map_param i (set_oncall k False) t)"
    and R_broker: "brokers s b = Some r \<Longrightarrow> broker_step E r (g r) \<Longrightarrow> R s (map_broker b g s)"
    and R_new_handle: "(\<And>j. io = Some j \<Longrightarrow> params s j \<noteq> None) \<Longrightarrow> R s (new_handle io og s)"
    and R_assign_handle: "handles s h \<noteq> None \<Longrightarrow> (\<And>j. io = Some j \<Longrightarrow> params s j \<noteq> None) \<Longrightarrow>
          R s (attach_handle h io og (detach_handle h s))"
    and R_detach_handle: "R s (detach_handle h s)"
    and R_destroy_handle: "R s (destroy_handle h s)"
    and R_install_param: "R s (install_param (fresh_param nm desc bh og T TM v) s)"
    and R_forget_param: "params s i = Some p \<Longrightarrow> m_param_handles p = [] \<Longrightarrow> R s (forget_param i s)"
    and R_install_broker: "(has \<Longrightarrow> \<exists>ob. m_brokers s ob = Some parent) \<Longrightarrow>
          R s (install_broker ((empty_broker nm)\<lparr>b_forwarding := fwd, has_parent := has, m_parent := parent\<rparr>) s)"
begin

subsection \<open>Primitives\<close>

lemmas basic [keeps_intros] = keeps_retM keeps_throwM keeps_abortM keeps_nofuelM keeps_getM keeps_assertM
  keeps_bindM keeps_if keeps_noexceptM keeps_on_exception

text \<open>The simplifier unfolds \<open>retM\<close> and its kin to \<open>Pair\<close>.\<close>

lemma keeps_Pair [keeps_intros, simp]: "keeps R (Pair r)"
  by (simp add: keeps_def R_refl)

lemma keeps_the_param [keeps_intros]: "keeps R (the_param i)"
  by (auto simp: keeps_def the_param_def R_refl split: option.splits)

lemma keeps_the_handle [keeps_intros]: "keeps R (the_handle h)"
  by (auto simp: keeps_def the_handle_def R_refl split: option.splits)

lemma keeps_the_broker [keeps_intros]: "keeps R (the_broker b)"
  by (auto simp: keeps_def the_broker_def R_refl split: option.splits)

lemma keeps_bind_the_param:
  assumes "\<And>s p. params s i = Some p \<Longrightarrow> R s (snd (k p s))"
  shows "keeps R (bindM (the_param i) k)"
  using assms by (auto simp: keeps_def bindM_def the_param_def R_refl split: option.splits)

lemma keeps_bind_the_broker:
  assumes "\<And>s r. brokers s b = Some r \<Longrightarrow> R s (snd (k r s))"
  shows "keeps R (bindM (the_broker b) k)"
  using assms by (auto simp: keeps_def bindM_def the_broker_def R_refl split: option.splits)

lemma keeps_bind_the_handle:
  assumes "\<And>s d. handles s h = Some d \<Longrightarrow> R s (snd (k d s))"
  shows "keeps R (bindM (the_handle h) k)"
  using assms by (auto simp: keeps_def bindM_def the_handle_def R_refl split: option.splits)

lemma keeps_at: "keeps R m \<Longrightarrow> R s (snd (m s))"
  by (simp add: keeps_def)

lemma keeps_upd_param [keeps_intros]: "(\<And>p. param_step E i p (f p)) \<Longrightarrow> keeps R (upd_param i f)"
  unfolding upd_param_def by (rule keeps_bind_the_param) (simp add: R_param)

lemma keeps_on_param [keeps_intros]: "(\<And>p. param_step E i p (snd (f p))) \<Longrightarrow> keeps R (on_param i f)"
  unfolding on_param_def by (rule keeps_bind_the_param) (simp add: R_param bindM_def)

lemma keeps_read_param [keeps_intros]: "keeps R (read_param i f)"
  unfolding read_param_def by (intro keeps_intros)

lemma keeps_map_broker: "brokers s b = Some r \<Longrightarrow> broker_step E r (f r) \<Longrightarrow> R s (snd (modM (map_broker b f) s))"
  by (simp add: R_broker)

lemma keeps_upd_broker [keeps_intros]: "(\<And>r. broker_step E r (f r)) \<Longrightarrow> keeps R (upd_broker b f)"
  unfolding upd_broker_def by (rule keeps_bind_the_broker) (simp add: R_broker)

lemma keeps_on_broker [keeps_intros]: "(\<And>r. broker_step E r (snd (f r))) \<Longrightarrow> keeps R (on_broker b f)"
  unfolding on_broker_def by (rule keeps_bind_the_broker) (simp add: R_broker bindM_def)

lemma keeps_read_broker [keeps_intros]: "keeps R (read_broker b f)"
  unfolding read_broker_def by (intro keeps_intros)

lemma keeps_report [keeps_intros]: "keeps R (report E sev mt m)"
  by (simp add: keeps_def report_state R_report)

lemma keeps_failed [keeps_intros]:
  "keeps R (set_param_failed E m)" "keeps R (get_param_failed E m)" "keeps R (cci_value_failure E m)"
  "keeps R (CCI_REPORT_ERROR E mt m)" "keeps R (CCI_REPORT_WARNING E mt m)"
  by (simp_all add: failed_defs keeps_report)

lemma keeps_names [keeps_intros]: "keeps R (modM (\<lambda>s. s\<lparr>sc_names := ns\<rparr>))"
  by (rule keeps_modM) (rule R_names)

subsection \<open>Originators and handles\<close>

lemma keeps_default_originator [keeps_intros]: "keeps R (default_originator E)"
  unfolding default_originator_def check_originator_valid_def Let_def by (intro keeps_intros)

lemma keeps_promote_originator [keeps_intros]: "keeps R (promote_originator E og)"
  unfolding promote_originator_def by (intro keeps_intros)

lemma keeps_named_originator [keeps_intros]:
  "keeps R (named_originator E nm)" "keeps R (named_originator_c E p)"
  unfolding named_originator_c_def named_originator_def check_originator_valid_def Let_def
  by (intro keeps_intros)+

lemma keeps_handle_to [keeps_intros]: "keeps R (handle_to i og)"
  unfolding handle_to_def
  by (rule keeps_bind_the_param) (auto simp: alloc_handle_def intro: R_new_handle)

lemma keeps_alloc_None [keeps_intros]: "keeps R (alloc_handle None og)"
  by (auto simp: keeps_def alloc_handle_def intro: R_new_handle)

lemma keeps_detach [keeps_intros]: "keeps R (modM (detach_handle h))"
  by (rule keeps_modM) (rule R_detach_handle)

lemma keeps_destroy [keeps_intros]: "keeps R (modM (destroy_handle h))"
  by (rule keeps_modM) (rule R_destroy_handle)

text \<open>The two scopes: a local handle, and the flag of a vector.\<close>

lemma with_handle_R:
  assumes "params s i \<noteq> None" and "\<And>h. keeps R (k h)"
  shows "R s (snd (with_handle i og k s))"
proof -
  let ?h = "next_address s" and ?s = "new_handle (Some i) og s"
  obtain r t where k: "k ?h ?s = (r, t)" by (cases "k ?h ?s")
  have "R s ?s" using assms(1) by (intro R_new_handle) simp
  moreover have "R ?s t" using assms(2) k by (rule keepsD)
  moreover have "R t (destroy_handle ?h t)" by (rule R_destroy_handle)
  ultimately have "R s (destroy_handle ?h t)" by (blast intro: R_trans)
  with k show ?thesis by (simp add: with_handle_def guardM_def Let_def)
qed

lemma scoped_true_R:
  assumes "params s i = Some p" and "\<not> oncall (callbacks_of k p)" and "keeps R m"
  shows "R s (snd (scoped_true i k m s))"
proof -
  let ?s = "map_param i (set_oncall k True) s"
  obtain r t where m: "m ?s = (r, t)" by (cases "m ?s")
  have "R ?s t" using assms(3) m by (rule keepsD)
  with assms(1,2) have "R s (map_param i (set_oncall k False) t)" by (rule R_guard)
  with m show ?thesis by (simp add: scoped_true_def guardM_def)
qed

lemma bind_R: "R s (snd (m s)) \<Longrightarrow> (\<And>x. keeps R (f x)) \<Longrightarrow> R s (snd (bindM m f s))"
  by (cases "m s"; cases "fst (m s)")
    (auto simp: bindM_def keeps_def intro: R_trans)

lemma keeps_on_vec:
  assumes "\<And>p s. params s i = Some p \<Longrightarrow> c p \<Longrightarrow> R s (snd (f p s))"
    and "\<And>p. keeps R (g p)"
  shows "keeps R (bindM (the_param i) (\<lambda>p. if c p then f p else g p))"
  using assms by (intro keeps_bind_the_param) (auto simp: keeps_def)

subsection \<open>Reading and writing\<close>

lemma keeps_conversion [keeps_intros]: "keeps R (to_cci_value E T v)" "keeps R (from_cci_value E T x)"
  unfolding to_cci_value_def from_cci_value_def by (auto intro!: keeps_intros split: prod.splits)

lemma keeps_invoke_write:
  "(\<And>ref ev. keeps R (run ref ev)) \<Longrightarrow> keeps R (invoke_write E run T cb old new og h)"
  by (cases cb) (auto simp: invoke_write_def intro!: keeps_intros)

lemma keeps_invoke_read:
  "(\<And>ref ev. keeps R (run ref ev)) \<Longrightarrow> keeps R (invoke_read E run T cb v og h)"
  by (cases cb) (auto simp: invoke_read_def intro!: keeps_intros)

lemma keeps_pre_write_loop:
  assumes "\<And>ref ev. keeps R (run ref ev)"
  shows "keeps R (pre_write_loop E run n i new og j result)"
proof (induction n arbitrary: j result)
  case 0
  show ?case by simp
next
  case (Suc n)
  show ?case
    unfolding pre_write_loop.simps Let_def
    by (rule keeps_on_vec; (rule bind_R, rule with_handle_R)?)
      (auto intro!: keeps_intros keeps_invoke_write assms Suc)
qed

lemma keeps_post_write_loop:
  assumes "\<And>ref ev. keeps R (run ref ev)"
  shows "keeps R (post_write_loop E run n i old new og j)"
proof (induction n arbitrary: j)
  case 0
  show ?case by simp
next
  case (Suc n)
  have turn: "params s i = Some p \<Longrightarrow>
      R s (snd ((if cb \<noteq> Invalid_callback
                 then with_handle i og' (\<lambda>h. thenM (invoke_write E run T cb old new og h) skipM)
                 else skipM) s))" for s p cb og' T
    by (auto intro!: with_handle_R keeps_intros keeps_invoke_write assms R_refl)
  show ?case
    unfolding post_write_loop.simps Let_def
    by (rule keeps_on_vec, rule bind_R, erule turn) (auto intro!: keeps_intros Suc)
qed

lemma keeps_read_loop:
  assumes "\<And>ref ev. keeps R (run ref ev)"
  shows "keeps R (read_loop E run n k i og j)"
proof (induction n arbitrary: j)
  case 0
  show ?case by simp
next
  case (Suc n)
  have turn: "params s i = Some p \<Longrightarrow>
      R s (snd ((if cb \<noteq> Invalid_callback
                 then with_handle i og' (\<lambda>h. thenM (invoke_read E run T cb v og h) skipM)
                 else skipM) s))" for s p cb og' T v
    by (auto intro!: with_handle_R keeps_intros keeps_invoke_read assms R_refl)
  show ?case
    unfolding read_loop.simps Let_def
    by (rule keeps_on_vec, rule bind_R, erule turn) (auto intro!: keeps_intros Suc)
qed

text \<open>The four callback functions: the flag is free when they enter the scope.\<close>

lemma keeps_scope:
  assumes "keeps R m" and "keeps R n"
  shows "keeps R (bindM (the_param i) (\<lambda>p. if oncall (callbacks_of k p) then n else scoped_true i k m))"
proof (rule keeps_bind_the_param)
  fix p and s :: "('v, 'j) world"
  assume "params s i = Some p"
  then show "R s (snd ((if oncall (callbacks_of k p) then n else scoped_true i k m) s))"
    using assms by (auto intro: scoped_true_R keeps_at)
qed

lemma keeps_callbacks:
  assumes "\<And>ref ev. keeps R (run ref ev)"
  shows "keeps R (pre_write_callback E run n i new og)"
    and "keeps R (post_write_callback E run n i old new og)"
    and "keeps R (pre_read_callback E run n i og)"
    and "keeps R (post_read_callback E run n i og)"
proof -
  note loops = keeps_pre_write_loop [OF assms] keeps_post_write_loop [OF assms] keeps_read_loop [OF assms]
  note scope = keeps_scope [where k = Pre_write] keeps_scope [where k = Post_write]
    keeps_scope [where k = Pre_read] keeps_scope [where k = Post_read]
  show "keeps R (pre_write_callback E run n i new og)"
    unfolding pre_write_callback_def
    using scope(1) [of "pre_write_loop E run n i new og 0 True" "retM False" i] loops
    by (simp add: callbacks_of.simps keeps_retM)
  show "keeps R (post_write_callback E run n i old new og)"
    unfolding post_write_callback_def
    using scope(2) [of "post_write_loop E run n i old new og 0" skipM i] loops
    by (simp add: callbacks_of.simps keeps_retM)
  show "keeps R (pre_read_callback E run n i og)"
    unfolding pre_read_callback_def
    using scope(3) [of "read_loop E run n Pre_read i og 0" skipM i] loops
    by (simp add: callbacks_of.simps keeps_retM)
  show "keeps R (post_read_callback E run n i og)"
    unfolding post_read_callback_def
    using scope(4) [of "read_loop E run n Post_read i og 0" skipM i] loops
    by (simp add: callbacks_of.simps keeps_retM)
qed

lemmas steps [intro!, keeps_intros] = param_step.intros

lemma keeps_set_raw_value:
  assumes "\<And>ref ev. keeps R (run ref ev)"
  shows "keeps R (set_raw_value E run n i new pwd og)"
  unfolding set_raw_value_def write_with_callbacks_def set_cci_value_allowed_def
  by (intro keeps_intros keeps_callbacks assms)

lemma keeps_set_value:
  assumes "\<And>ref ev. keeps R (run ref ev)"
  shows "keeps R (set_value E run n i v)"
  unfolding set_value_def
proof (rule keeps_on_vec)
  show "params s i = Some p \<Longrightarrow> fast_write p \<Longrightarrow> R s (snd (upd_param i (\<lambda>p. p\<lparr>m_value := v\<rparr>) s))"
    for p and s :: "('v, 'j) world" by (simp add: R_param param_step.fast_writing)
qed (rule keeps_set_raw_value [OF assms])

lemma keeps_param_values:
  assumes "\<And>ref ev. keeps R (run ref ev)"
  shows "keeps R (set_value_pwd E run n i v pwd)"
    and "keeps R (set_cci_value E run n i x pwd og)"
    and "keeps R (get_raw_value E run n i og)"
    and "keeps R (get_value E run n i)"
    and "keeps R (get_cci_value E run n i og)"
    and "keeps R (get_default_cci_value E i)"
    and "keeps R (get_data_category E run n i)"
    and "keeps R (preset_cci_value E run n i x og)"
  unfolding set_value_pwd_def set_cci_value_def get_value_def get_cci_value_def get_raw_value_def
    get_default_cci_value_def get_data_category_def preset_cci_value_def
  by (intro keeps_intros keeps_callbacks keeps_set_raw_value assms)+

subsection \<open>Brokers\<close>

lemmas broker_steps [intro!, keeps_intros] = broker_step.intros

lemma keeps_forward [keeps_intros]:
  assumes "\<And>b. keeps R (op b)"
  shows "keeps R (forward n b nm op)"
proof (induction n arbitrary: b)
  case 0
  show ?case by simp
next
  case (Suc n)
  show ?case unfolding forward.simps by (intro keeps_intros assms Suc)
qed

lemma keeps_preset_queries [keeps_intros]:
  "keeps R (has_preset_value n b nm)" "keeps R (get_preset_cci_value E n b nm)"
  "keeps R (get_preset_value_origin b nm)" "keeps R (lock_preset_value n b nm)"
  unfolding has_preset_value_def get_preset_cci_value_def get_preset_value_origin_def
    lock_preset_value_def
  by (intro keeps_intros; simp add: broker_step.intros)+

lemma keeps_set_preset [keeps_intros]: "keeps R (set_preset_cci_value E n b nm x og)"
  unfolding set_preset_cci_value_def
proof (rule keeps_forward)
  fix b
  show "keeps R (consuming_set_preset_cci_value E nm x og b)"
    unfolding consuming_set_preset_cci_value_def
    by (rule keeps_bind_the_broker)
      (auto intro!: R_broker broker_step.intros keeps_at keeps_intros)
qed

lemma keeps_get_value_origin [keeps_intros]: "keeps R (get_value_origin_by_name n b nm)"
  unfolding get_value_origin_by_name_def consuming_get_value_origin_def
  by (intro keeps_intros) (auto intro!: keeps_intros split: option.splits)

lemma keeps_consuming_get_param_handle [keeps_intros]: "keeps R (consuming_get_param_handle nm og b)"
  unfolding consuming_get_param_handle_def
  by (intro keeps_intros) (auto intro!: keeps_intros split: option.splits)

lemma keeps_get_param_handle [keeps_intros]: "keeps R (get_param_handle n b nm og)"
proof (induction n arbitrary: b)
  case 0
  show ?case by simp
next
  case (Suc n)
  have "keeps R (case z of Some i \<Rightarrow> handle_to i og
        | None \<Rightarrow> if c then get_param_handle n b' nm og else alloc_handle None og)" for z c b'
    by (cases z) (simp_all add: Suc keeps_handle_to keeps_alloc_None)
  then show ?case unfolding get_param_handle.simps by (intro keeps_intros Suc)
qed

lemma keeps_handles_of [keeps_intros]: "keeps R (handles_of E og es)"
proof (induction es)
  case Nil
  show ?case by simp
next
  case (Cons e es)
  then show ?case by (cases e) (simp, intro keeps_intros, simp_all)
qed

lemma keeps_get_param_handles [keeps_intros]: "keeps R (get_param_handles E n b og)"
proof (induction n arbitrary: b og)
  case 0
  show ?case by simp
next
  case (Suc n)
  then show ?case
    unfolding get_param_handles.simps consuming_get_param_handles_def by (intro keeps_intros Suc)
qed

lemma keeps_status:
  "keeps R (is_preset_value E n i)"
  unfolding is_preset_value_def Let_def
  by (intro keeps_intros) (auto intro!: keeps_intros split: prod.splits)

lemma keeps_reset:
  assumes "\<And>ref ev. keeps R (run ref ev)"
  shows "keeps R (reset E run n i)"
  unfolding reset_def Let_def
  by (intro keeps_intros keeps_param_values keeps_callbacks assms)

subsection \<open>The registry of brokers\<close>

lemma keeps_find_broker [keeps_intros]: "keeps R (find_broker E n org)"
proof (induction n arbitrary: org)
  case 0
  show ?case by simp
next
  case (Suc n)
  have "keeps R (case r of Some b \<Rightarrow> retM b
       | None \<Rightarrow> (case org of
            None \<Rightarrow> thenM (CCI_REPORT_ERROR E ''cci_broker_manager'' ''No global broker found!'') abortM
          | Some ob \<Rightarrow> find_broker E n (sc_parent E ob)))" for r
    by (cases r; cases org) (auto intro!: keeps_intros Suc)
  then show ?case unfolding find_broker.simps by (intro keeps_intros)
qed

lemma keeps_get_broker [keeps_intros]:
  "keeps R (get_broker E n og)" "keeps R (cci_get_broker E n)" "keeps R (cci_get_global_broker E n og)"
  unfolding cci_get_broker_def cci_get_global_broker_def get_broker_def by (intro keeps_intros)+

lemma keeps_register_broker: "keeps R (thenM (the_broker b) (register_broker E b))"
proof (rule keeps_bind_the_broker)
  fix r and s :: "('v, 'j) world"
  assume b: "brokers s b = Some r"
  let ?entry = "case m_brokers s (sc_current E) of None \<Rightarrow> b | Some c \<Rightarrow> c"
  let ?t = "s\<lparr>m_brokers := (m_brokers s)(sc_current E \<mapsto> ?entry)\<rparr>"
  have "R s ?t"
  proof (cases "m_brokers s (sc_current E)")
    case None
    with b show ?thesis by (simp add: R_registry)
  next
    case (Some c)
    then have "?t = s" by (simp add: fun_upd_idem)
    then show ?thesis by (simp add: R_refl)
  qed
  moreover have "keeps R
      (thenM (if b \<noteq> ?entry
              then CCI_REPORT_ERROR E ''cci_broker_manager/register_broker''
                ''A broker is already registered in the current hierarchy.''
              else skipM)
        (bindM (if sc_current E \<noteq> None then default_originator E
                else named_originator_c E (Some CCI_UNKNOWN_ORIGINATOR_STRING))
          (\<lambda>og. retM (create_broker_handle ?entry og))))" (is "keeps R ?rest")
    by (intro keeps_intros)
  ultimately have "R s (snd (?rest ?t))" by (auto simp: keeps_def intro: R_trans)
  then show "R s (snd (register_broker E b s))"
    by (simp only: register_broker_def bindM_getM_apply bindM_modM_apply)
qed

lemma keeps_gen_unique_name [keeps_intros]: "keeps R (cci_gen_unique_name E p)"
  unfolding cci_gen_unique_name_def Let_def return_name_def
  by (intro keeps_intros; simp split: prod.split option.split; intro allI conjI impI keeps_intros)+

lemma keeps_new_consuming_broker: "keeps R (new_consuming_broker E nm)"
proof -
  have "keeps R (modM (install_broker (empty_broker unique)))" for unique
  proof (rule keeps_modM)
    fix s
    have "R s (install_broker ((empty_broker unique)\<lparr>b_forwarding := False, has_parent := False, m_parent := 0\<rparr>) s)"
      by (rule R_install_broker) simp
    then show "R s (install_broker (empty_broker unique) s)" by (simp add: empty_broker_def)
  qed
  then show ?thesis unfolding new_consuming_broker_def by (intro keeps_intros)
qed

lemma new_broker_parent:
  assumes "get_parent_broker E n b s = (Ret (has, parent), t)" and has
  shows "\<exists>ob. m_brokers t ob = Some parent"
proof -
  from assms obtain org where "find_broker E n org s = (Ret parent, t)"
    by (auto simp: get_parent_broker_def cci_get_broker_def get_broker_def create_broker_handle_def
        bindM_eq_Ret default_originator_inside split: if_splits)
  then show ?thesis by (auto simp: find_broker_nearest)
qed

lemma keeps_get_parent_broker [keeps_intros]: "keeps R (get_parent_broker E n b)"
  unfolding get_parent_broker_def by (intro keeps_intros)

lemma keeps_new_broker: "keeps R (new_broker E n nm)"
proof -
  have "keeps R (bindM (get_parent_broker E n b) (\<lambda>(has, parent).
      thenM (modM (install_broker
        ((empty_broker unique)\<lparr>b_forwarding := True, has_parent := has, m_parent := parent\<rparr>)))
      (retM b)))" for b unique
  proof (rule keepsI)
    fix s
    obtain r t where g: "get_parent_broker E n b s = (r, t)" by (cases "get_parent_broker E n b s")
    have st: "R s t" using keeps_get_parent_broker g by (rule keepsD)
    show "R s (snd (bindM (get_parent_broker E n b) (\<lambda>(has, parent).
      thenM (modM (install_broker
        ((empty_broker unique)\<lparr>b_forwarding := True, has_parent := has, m_parent := parent\<rparr>)))
      (retM b)) s))"
    proof (cases r)
      case (Ret x)
      obtain has parent where x: "x = (has, parent)" by (cases x)
      have "R t (install_broker
          ((empty_broker unique)\<lparr>b_forwarding := True, has_parent := has, m_parent := parent\<rparr>) t)"
        by (rule R_install_broker) (use new_broker_parent g Ret x in blast)
      with st show ?thesis by (simp add: bindM_def g Ret x) (blast intro: R_trans)
    qed (use st g in \<open>simp_all add: bindM_def\<close>)
  qed
  note last = this
  show ?thesis unfolding new_broker_def by (intro keeps_assertM keeps_bindM keeps_gen_unique_name keeps_getM last)
qed

subsection \<open>Handles\<close>

lemma keeps_copy_handle [keeps_intros]: "keeps R (copy_handle E h)"
  unfolding copy_handle_def
  by (intro keeps_intros) (auto intro!: keeps_intros split: option.splits)

lemma keeps_assign_handle: "keeps R (assign_handle this that)"
  unfolding assign_handle_def
proof (intro keeps_bind_the_handle)
  fix d and s :: "('v, 'j) world"
  assume d: "handles s this = Some d"
  show "R s (snd (bindM (the_handle that) (\<lambda>e. if this = that then skipM
      else thenM (case m_param e of None \<Rightarrow> skipM | Some i \<Rightarrow> thenM (the_param i) skipM)
             (modM (\<lambda>s. attach_handle this (m_param e) (h_originator d) (detach_handle this s)))) s))"
  proof (cases "handles s that")
    case None
    then show ?thesis by (simp add: bindM_def the_handle_def R_refl)
  next
    case (Some e)
    show ?thesis
    proof (cases "m_param e")
      case None
      with d Some show ?thesis by (auto simp: R_refl intro!: R_assign_handle)
    next
      case (Some i)
      with d \<open>handles s that = Some e\<close> show ?thesis
        by (cases "params s i") (auto simp: R_refl bindM_def the_param_def intro!: R_assign_handle)
    qed
  qed
qed

lemma keeps_handle_ends [keeps_intros]: "keeps R (invalidate h)" "keeps R (delete_handle h)"
  unfolding invalidate_def delete_handle_def by (intro keeps_intros)+

lemma keeps_handled:
  assumes "\<And>i og. keeps R (k i og)"
  shows "keeps R (handled E h k)"
  unfolding handled_def check_is_valid_def Let_def
  by (intro keeps_intros) (auto intro!: keeps_intros assms split: option.splits)

lemma keeps_param_cast: "keeps R (cci_param_cast E T h)"
proof -
  have "keeps R (case z of None \<Rightarrow> skipM
      | Some i \<Rightarrow> bindM (read_param i get_type_info) (\<lambda>U. if T \<noteq> U then modM (detach_handle h') else skipM))"
    for z h' by (cases z) (auto intro!: keeps_intros)
  then show ?thesis unfolding cci_param_cast_def move_handle_def by (intro keeps_intros)
qed

lemma keeps_typed_handled:
  assumes "\<And>i og. keeps R (k i og)"
  shows "keeps R (typed_handled E T h k)"
  unfolding typed_handled_def by (intro keeps_handled keeps_intros assms)

subsection \<open>Life of a parameter\<close>

lemma keeps_invoke_param:
  "(\<And>ref ev. keeps R (run ref ev)) \<Longrightarrow> keeps R (invoke_param run cb h)"
  by (cases cb) (auto simp: invoke_param_def intro!: keeps_intros)

lemma keeps_broker_callback_loop:
  assumes "\<And>ref ev. keeps R (run ref ev)"
  shows "keeps R (broker_callback_loop run n cbs b i j)"
proof (induction n arbitrary: j)
  case 0
  show ?case by simp
next
  case (Suc n)
  have "keeps R (bindM (the_param i) (\<lambda>p.
          thenM (with_handle i (m_originator p) (\<lambda>h. invoke_param run cb h))
            (broker_callback_loop run n cbs b i (Suc j))))" for cb
    by (rule keeps_bind_the_param, rule bind_R, rule with_handle_R)
      (auto intro: keeps_invoke_param assms Suc)
  then show ?case
    unfolding broker_callback_loop.simps
    by - (rule keeps_bindM, rule keeps_the_broker, rule keeps_if, assumption, rule keeps_retM)
qed

lemma keeps_add_remove_param:
  assumes "\<And>ref ev. keeps R (run ref ev)"
  shows "keeps R (add_param run n b i)" and "keeps R (remove_param run n b i)"
  unfolding add_param_def remove_param_def consuming_add_param_def consuming_remove_param_def Let_def
  by (intro keeps_intros keeps_broker_callback_loop assms)+

lemma keeps_init:
  assumes "\<And>ref ev. keeps R (run ref ev)"
  shows "keeps R (init E run n b i)"
  unfolding init_def Let_def
  by (intro keeps_intros keeps_param_values keeps_add_remove_param assms)

lemma keeps_invalidate_all: "keeps R (invalidate_all_param_handles n i)"
proof (induction n)
  case 0
  show ?case by simp
next
  case (Suc n)
  have "keeps R (case hs of [] \<Rightarrow> skipM
      | h # hs \<Rightarrow> bindM (the_handle h) (\<lambda>_.
          thenM (modM (detach_handle h)) (invalidate_all_param_handles n i)))" for hs
    by (cases hs) (auto intro!: keeps_intros Suc)
  then show ?case unfolding invalidate_all_param_handles.simps by (intro keeps_intros)
qed

lemma keeps_unregister_base [keeps_intros]: "keeps R (unregister_base E nm)"
  unfolding unregister_base_def cci_unregister_name_def
  by (intro keeps_intros; simp split: prod.split; intro allI impI keeps_intros)

lemma keeps_untyped_destructor [keeps_intros]: "keeps R (untyped_destructor E i)"
  unfolding untyped_destructor_def
proof (rule keeps_bind_the_param)
  fix p and s :: "('v, 'j) world"
  assume p: "params s i = Some p"
  show "R s (snd (thenM (assertM (m_param_handles p = []))
      (thenM (unregister_base E (m_name p)) (modM (forget_param i))) s))"
  proof (cases "m_param_handles p = []")
    case True
    obtain r t where u: "unregister_base E (m_name p) s = (r, t)"
      by (cases "unregister_base E (m_name p) s")
    have st: "R s t" using keeps_unregister_base u by (rule keepsD)
    have "params t = params s"
      using u by (auto simp: unregister_base_def cci_unregister_name_def bindM_def split: if_splits prod.splits)
    with p True have "R t (forget_param i t)" by (intro R_forget_param) simp_all
    with st have "R s (forget_param i t)" by (rule R_trans)
    with st u True show ?thesis by (cases r) (simp_all add: bindM_def)
  qed (simp add: R_refl)
qed

lemma keeps_enclosing_module [keeps_intros]: "keeps R (enclosing_module E n ob)"
proof (induction n arbitrary: ob)
  case 0
  show ?case by simp
next
  case (Suc n)
  show ?case by (cases ob) (auto intro!: keeps_intros Suc)
qed

lemma keeps_param_name [keeps_intros]:
  "keeps R (param_full_name E n nm nt)" "keeps R (choose_name E n b nm)"
  unfolding param_full_name_def choose_name_def
  by (intro keeps_intros; auto intro!: keeps_intros split: option.splits)+

lemma keeps_find_broker_convenience [keeps_intros]: "keeps R (find_broker_convenience E n og)"
  unfolding find_broker_convenience_def by (intro keeps_intros)

lemma keeps_construct_param:
  assumes "\<And>ref ev. keeps R (run ref ev)" and "keeps R default_value"
  shows "keeps R (construct_param E run n nm default_value T TM nt pb og desc)"
proof -
  have "keeps R (case pb of None \<Rightarrow> find_broker_convenience E n og | Some bh \<Rightarrow> retM bh)"
    by (cases pb) (auto intro!: keeps_intros)
  moreover have "keeps R (modM (install_param (fresh_param nm' desc bh og T TM v)))" for nm' bh v
    by (rule keeps_modM) (rule R_install_param)
  ultimately show ?thesis
    unfolding construct_param_def by (intro keeps_intros keeps_init assms)
qed

lemma keeps_new_param:
  assumes "\<And>ref ev. keeps R (run ref ev)"
  shows "keeps R (new_param E run n nm v T TM nt pb og desc)"
    and "keeps R (new_param_cci E run n nm x T TM nt pb og desc)"
  unfolding new_param_def new_param_cci_def
  by (intro keeps_construct_param assms keeps_intros)+

lemma keeps_delete_param:
  assumes "\<And>ref ev. keeps R (run ref ev)"
  shows "keeps R (delete_param E run n i)"
  unfolding delete_param_def destroy_def
  by (intro keeps_intros keeps_add_remove_param keeps_invalidate_all assms)

lemma keeps_consuming_get_cci_value:
  assumes "\<And>ref ev. keeps R (run ref ev)"
  shows "keeps R (consuming_get_cci_value E run n nm og b)"
proof -
  have "keeps R (case z of Some i \<Rightarrow> get_cci_value E run n i og
      | None \<Rightarrow> (case y of Some x \<Rightarrow> retM x
          | None \<Rightarrow> thenM (get_param_failed E m) (retM (null_value E))))" for z y m
    by (cases z; cases y) (auto intro!: keeps_intros keeps_param_values assms)
  then show ?thesis unfolding consuming_get_cci_value_def by (intro keeps_intros)
qed

lemma keeps_broker_get_cci_value:
  assumes "\<And>ref ev. keeps R (run ref ev)"
  shows "keeps R (broker_get_cci_value E run n m b nm og)"
proof (induction m arbitrary: b og)
  case 0
  show ?case by simp
next
  case (Suc m)
  show ?case unfolding broker_get_cci_value.simps
    by (intro keeps_intros keeps_consuming_get_cci_value assms Suc)
qed

subsection \<open>Calls and programs\<close>

lemma keeps_answer: "keeps R m \<Longrightarrow> keeps R (answer f m)"
  unfolding answer_def by (intro keeps_intros)

lemma keeps_dispatch_param:
  assumes "\<And>ref ev. keeps R (run ref ev)"
  shows "keeps R (dispatch_param E run n i c)"
  by (cases c)
    (auto simp: register_callback_eq
      intro!: keeps_answer keeps_set_value keeps_param_values keeps_reset keeps_status keeps_on_param
        keeps_read_param keeps_handle_to assms)

lemma keeps_dispatch_handle:
  assumes "\<And>ref ev. keeps R (run ref ev)"
  shows "keeps R (dispatch_handle E run n h c)"
proof -
  note defs = handle_set_cci_value_def handle_get_cci_value_def handle_get_default_cci_value_def
    handle_is_preset_value_def handle_get_data_category_def handle_query_def handle_lock_def
    handle_unlock_def handle_register_callback_def handle_unregister_callback_def
    handle_unregister_all_callbacks_def typed_handle_set_value_def typed_handle_get_value_def
    typed_handle_get_default_value_def read_handle_def
  show ?thesis
    by (cases c)
      (auto simp: defs
        intro!: keeps_answer keeps_handled keeps_typed_handled keeps_set_raw_value keeps_param_values
          keeps_status keeps_on_param keeps_read_param keeps_handle_ends keeps_copy_handle
          keeps_param_cast keeps_assign_handle keeps_bindM keeps_the_handle keeps_retM assms)
qed

lemma keeps_dispatch_broker:
  assumes "\<And>ref ev. keeps R (run ref ev)"
  shows "keeps R (dispatch_broker E run n bh c)"
proof -
  note defs = handle_broker_set_preset_def handle_broker_get_cci_value_def
    handle_broker_get_param_handle_def handle_broker_get_param_handles_def
  show ?thesis
    by (cases c)
      (auto simp: defs
        intro!: keeps_answer keeps_preset_queries keeps_set_preset keeps_get_value_origin
          keeps_on_broker keeps_read_broker keeps_get_param_handle keeps_get_param_handles
          keeps_bindM keeps_default_originator keeps_broker_get_cci_value assms)
qed

lemma keeps_dispatch:
  assumes "\<And>ref ev. keeps R (run ref ev)" and "\<And>b. c = Delete_broker b \<Longrightarrow> keeps R (delete_broker b)"
  shows "keeps R (dispatch E run n c)"
  by (cases c)
    (auto intro!: keeps_answer keeps_dispatch_param keeps_dispatch_handle keeps_dispatch_broker
      keeps_new_param keeps_delete_param keeps_new_broker keeps_new_consuming_broker
      keeps_register_broker keeps_get_broker assms)

text \<open>Every program that spares the brokers keeps the relation, with any fuel and whatever its outcome.\<close>

lemma keeps_sparing_exec:
  assumes E: "callbacks_spare_brokers E"
  shows "spares_brokers c \<Longrightarrow> keeps R (exec E n c)"
proof (induction n arbitrary: c)
  case 0
  show ?case by simp
next
  case (Suc n)
  show ?case
  proof (cases c)
    case (P_try c' k)
    then show ?thesis using Suc.prems by (simp add: keeps_tryM Suc.IH)
  next
    case (P_call a k)
    have "keeps R (dispatch E (runner E n) n a)"
      using E Suc.prems P_call
      by (intro keeps_dispatch) (auto simp: runner_def [abs_def] callbacks_spare_brokers_def intro: Suc.IH)
    then show ?thesis unfolding P_call exec_call
      by (rule keeps_bindM) (use Suc.prems P_call in \<open>simp add: Suc.IH\<close>)
  qed simp_all
qed

end

section \<open>Clients that destroy brokers too\<close>

locale client_relation = library_relation R E
  for R :: "('v, 'j) world \<Rightarrow> ('v, 'j) world \<Rightarrow> bool" and E :: "('v, 'j) env" +
  assumes R_delete_broker: "brokers s b = Some r \<Longrightarrow> R s (forget_broker b s)"
begin

lemma keeps_delete_broker: "keeps R (delete_broker b)"
  unfolding delete_broker_def by (rule keeps_bind_the_broker) (simp add: R_delete_broker)

text \<open>Every program keeps the relation, with any fuel and whatever its outcome.\<close>

theorem keeps_exec: "keeps R (exec E n c)"
proof (induction n arbitrary: c)
  case 0
  show ?case by simp
next
  case (Suc n)
  show ?case
  proof (cases c)
    case (P_return b)
    then show ?thesis by simp
  next
    case (P_throw k)
    then show ?thesis by simp
  next
    case P_abort
    then show ?thesis by simp
  next
    case (P_try c' k)
    then show ?thesis by (simp add: keeps_tryM Suc)
  next
    case (P_call a k)
    have "keeps R (dispatch E (runner E n) n a)"
      by (rule keeps_dispatch) (simp_all add: runner_def [abs_def] Suc keeps_delete_broker)
    then show ?thesis unfolding P_call exec_call by (rule keeps_bindM) (rule Suc)
  qed
qed

corollary keeps_runner: "keeps R (runner E n ref ev)"
  unfolding runner_def [abs_def] by (rule keeps_exec)

lemma exec_R: "exec E n c s = (r, t) \<Longrightarrow> R s t"
  by (rule keepsD [OF keeps_exec])

end

end
