(* ===== verification/Param_Protocol.thy ===== *)
theory Param_Protocol
  imports Client_Relation
begin

text \<open>
  What a client can do to a parameter that exists. \<open>param_history Q\<close> says of two states that
  every parameter of the second which is not new was there in the first, and \<open>Q\<close> relates its
  two records. The locale \<open>param_protocol\<close> asks of \<open>Q\<close> only that it holds across the steps of
  one parameter; it is a \<open>client_relation\<close> then. Two interpretations follow: what never
  changes, and the soundness of the fast paths.
\<close>

section \<open>Histories of parameters\<close>

text \<open>Nothing lives at an address that has not been given out yet.\<close>

definition fresh :: "('v, 'j) world \<Rightarrow> bool" where
  "fresh s \<longleftrightarrow> (\<forall>a \<ge> next_address s. params s a = None \<and> handles s a = None \<and> brokers s a = None)"

definition param_history :: "(('v, 'j) param \<Rightarrow> ('v, 'j) param \<Rightarrow> bool) \<Rightarrow> ('v, 'j) world
    \<Rightarrow> ('v, 'j) world \<Rightarrow> bool" where
  "param_history Q s t \<longleftrightarrow>
     (fresh s \<longrightarrow> fresh t \<and> next_address s \<le> next_address t \<and>
       (\<forall>i < next_address s. \<forall>q. params t i = Some q \<longrightarrow> (\<exists>p. params s i = Some p \<and> Q p q)))"

lemma param_historyD:
  "param_history Q s t \<Longrightarrow> fresh s \<Longrightarrow> params s i \<noteq> None \<Longrightarrow> params t i = Some q \<Longrightarrow>
   \<exists>p. params s i = Some p \<and> Q p q"
  unfolding param_history_def fresh_def by (meson not_le)

locale param_protocol =
  fixes E :: "('v, 'j) env" and Q :: "('v, 'j) param \<Rightarrow> ('v, 'j) param \<Rightarrow> bool"
  assumes Q_refl: "Q p p"
    and Q_trans: "Q p q \<Longrightarrow> Q q r \<Longrightarrow> Q p r"
    and Q_step: "param_step E i p q \<Longrightarrow> Q p q"
    and Q_push: "Q p (push_handle h p)"
    and Q_drop: "Q p (drop_handle h p)"
    and Q_guard: "\<not> oncall (callbacks_of k p) \<Longrightarrow> Q (set_oncall k True p) q \<Longrightarrow>
          Q p (set_oncall k False q)"
begin

lemma history_refl: "param_history Q s s"
  by (auto simp: param_history_def Q_refl)

lemma history_trans:
  assumes "param_history Q s t" and "param_history Q t u"
  shows "param_history Q s u"
  unfolding param_history_def
proof (intro impI conjI allI)
  assume "fresh s"
  with assms show "fresh u" and "next_address s \<le> next_address u"
    by (auto simp: param_history_def)
  fix i r
  assume i: "i < next_address s" and r: "params u i = Some r"
  from \<open>fresh s\<close> assms i r obtain q where "params t i = Some q" and "Q q r"
    unfolding param_history_def by (meson less_le_trans)
  moreover from \<open>fresh s\<close> assms(1) i \<open>params t i = Some q\<close> obtain p where
    "params s i = Some p" and "Q p q" unfolding param_history_def by blast
  ultimately show "\<exists>p. params s i = Some p \<and> Q p r" by (blast intro: Q_trans)
qed

text \<open>A change that leaves the parameters alone and gives out no address that is taken.\<close>

lemma history_frame:
  assumes "params t = params s" and "fresh s \<Longrightarrow> fresh t" and "next_address s \<le> next_address t"
  shows "param_history Q s t"
  using assms by (auto simp: param_history_def Q_refl)

lemma history_map_param:
  assumes "\<And>p. params s i = Some p \<Longrightarrow> Q p (f p)"
  shows "param_history Q s (map_param i f s)"
  using assms by (auto simp: param_history_def fresh_def Q_refl)

lemma history_detach: "param_history Q s (detach_handle h s)"
proof (cases "handles s h")
  case None
  then show ?thesis by (simp add: detach_handle_def history_refl)
next
  case (Some d)
  have "h < next_address s \<or> \<not> fresh s" using Some by (auto simp: fresh_def not_less)
  then show ?thesis
    using Some
    by (cases "m_param d")
      (auto simp: detach_handle_def param_history_def fresh_def Q_refl Q_drop split: if_splits)
qed

lemma history_attach:
  assumes "h < next_address s"
  shows "param_history Q s (attach_handle h i og s)"
  using assms
  by (cases i) (auto simp: attach_handle_def param_history_def fresh_def Q_refl Q_push split: if_splits)

lemma next_detach [simp]: "next_address (detach_handle h s) = next_address s"
  by (simp add: detach_handle_def split: option.splits)

end

sublocale param_protocol \<subseteq> client_relation "param_history Q" E
proof
  show "param_history Q s s" for s by (rule history_refl)
  show "param_history Q s t \<Longrightarrow> param_history Q t u \<Longrightarrow> param_history Q s u" for s t u
    by (rule history_trans)
  show "param_history Q s (s\<lparr>reports := reports s @ [rp]\<rparr>)" for s rp
    by (rule history_frame) (auto simp: fresh_def)
  show "param_history Q s (s\<lparr>sc_names := ns\<rparr>)" for s ns
    by (rule history_frame) (auto simp: fresh_def)
  show "param_history Q s (s\<lparr>m_brokers := (m_brokers s)(ob \<mapsto> b)\<rparr>)" for s ob b
    by (rule history_frame) (auto simp: fresh_def)
  show "params s i = Some p \<Longrightarrow> param_step E i p (f p) \<Longrightarrow> param_history Q s (map_param i f s)"
    for s i p f by (rule history_map_param) (auto intro: Q_step)
  show "param_history Q s (map_param i (set_oncall k False) t)"
    if "params s i = Some p" "\<not> oncall (callbacks_of k p)"
      "param_history Q (map_param i (set_oncall k True) s) t" for s i p k t
    using that Q_guard
    by (auto simp: param_history_def fresh_def split: if_splits)
  show "param_history Q s (map_broker b g s)" for s b g
    by (rule history_frame) (auto simp: fresh_def)
  show "param_history Q s (new_handle io og s)" for s io og
  proof -
    let ?s = "s\<lparr>next_address := Suc (next_address s)\<rparr>"
    have "param_history Q s ?s" by (rule history_frame) (auto simp: fresh_def)
    moreover have "param_history Q ?s (attach_handle (next_address s) io og ?s)"
      by (rule history_attach) simp
    ultimately show ?thesis unfolding new_handle_def by (rule history_trans)
  qed
  show "param_history Q s (attach_handle h io og (detach_handle h s))" if "handles s h \<noteq> None" for s h io og
  proof (cases "fresh s")
    case True
    with that have "h < next_address (detach_handle h s)" by (auto simp: fresh_def not_less[symmetric])
    then show ?thesis by (rule history_trans [OF history_detach history_attach])
  qed (simp add: param_history_def)
  show "param_history Q s (detach_handle h s)" for s h by (rule history_detach)
  show "param_history Q s (destroy_handle h s)" for s h
    unfolding destroy_handle_def
    by (rule history_trans [OF history_detach], rule history_frame)
      (auto simp: forget_handle_def fresh_def)
  show "param_history Q s (install_param (fresh_param nm desc bh og T TM v) s)" for s nm desc bh og T TM v
    by (auto simp: param_history_def install_param_def fresh_def Q_refl)
  show "param_history Q s (forget_param i s)" for s i
    by (auto simp: param_history_def forget_param_def fresh_def Q_refl)
  show "param_history Q s (install_broker
      ((empty_broker nm)\<lparr>b_forwarding := fwd, has_parent := has, m_parent := parent\<rparr>) s)"
    for s nm fwd has parent
    by (rule history_frame) (auto simp: install_broker_def fresh_def)
  show "param_history Q s (forget_broker b s)" for s b
    by (rule history_frame) (auto simp: forget_broker_def fresh_def)
qed

section \<open>What never changes\<close>

text \<open>
  The name, the owner, the broker, the default value, the type and the mutability of a
  parameter never change, and the flags that mark running callbacks are restored.
\<close>

definition same_identity :: "('v, 'j) param \<Rightarrow> ('v, 'j) param \<Rightarrow> bool" where
  "same_identity p q \<longleftrightarrow>
     m_name q = m_name p \<and> m_originator q = m_originator p \<and> m_broker_handle q = m_broker_handle p
     \<and> m_default_value q = m_default_value p \<and> p_type q = p_type p \<and> p_mutability q = p_mutability p
     \<and> (\<forall>k. oncall (callbacks_of k q) = oncall (callbacks_of k p))"

lemmas step_defs = set_description_def add_metadata_def lock_def untyped_lock_def unlock_def
  untyped_register_callback_def untyped_unregister_callback_def
  untyped_unregister_all_callbacks_def erase_all_of_def write_param_def update_fast_write_def
  update_fast_read_def map_vec_def push_handle_def drop_handle_def

interpretation identity: param_protocol E same_identity for E :: "('v, 'j) env"
proof
  show "same_identity p p" for p :: "('v, 'j) param" by (simp add: same_identity_def)
  show "same_identity p q \<Longrightarrow> same_identity q r \<Longrightarrow> same_identity p r" for p q r :: "('v, 'j) param"
    by (simp add: same_identity_def)
  show "same_identity p q" if "param_step E i p q" for i and p q :: "('v, 'j) param"
    using that by cases (simp_all add: same_identity_def step_defs Let_def)
  show "same_identity p (push_handle h p)" for h and p :: "('v, 'j) param"
    by (simp add: same_identity_def push_handle_def)
  show "same_identity p (drop_handle h p)" for h and p :: "('v, 'j) param"
    by (simp add: same_identity_def drop_handle_def)
  show "same_identity p (set_oncall k False q)"
    if "\<not> oncall (callbacks_of k p)" "same_identity (set_oncall k True p) q"
    for k and p q :: "('v, 'j) param"
    using that by (auto simp: same_identity_def) (simp_all add: set_oncall_def)
qed

section \<open>Invariants of one parameter\<close>

text \<open>
  A predicate that holds of a new parameter and across the steps of one parameter holds of
  every parameter in every state that a client reaches.
\<close>

definition params_satisfy :: "(('v, 'j) param \<Rightarrow> bool) \<Rightarrow> ('v, 'j) world \<Rightarrow> bool" where
  "params_satisfy I s \<longleftrightarrow> (\<forall>i p. params s i = Some p \<longrightarrow> I p)"

definition keeps_params :: "(('v, 'j) param \<Rightarrow> bool) \<Rightarrow> ('v, 'j) world \<Rightarrow> ('v, 'j) world \<Rightarrow> bool" where
  "keeps_params I s t \<longleftrightarrow> (params_satisfy I s \<longrightarrow> params_satisfy I t)"

locale param_invariant =
  fixes E :: "('v, 'j) env" and I :: "('v, 'j) param \<Rightarrow> bool"
  assumes I_fresh: "I (fresh_param nm desc bh og T TM v)"
    and I_step: "I p \<Longrightarrow> param_step E i p q \<Longrightarrow> I q"
    and I_push: "I p \<Longrightarrow> I (push_handle h p)"
    and I_drop: "I p \<Longrightarrow> I (drop_handle h p)"
    and I_oncall: "I p \<Longrightarrow> I (set_oncall k b p)"
begin

lemma satisfy_frame: "params t = params s \<Longrightarrow> keeps_params I s t"
  by (simp add: keeps_params_def params_satisfy_def)

lemma satisfy_map: "(\<And>p. params s i = Some p \<Longrightarrow> I p \<Longrightarrow> I (f p)) \<Longrightarrow> keeps_params I s (map_param i f s)"
  by (auto simp: keeps_params_def params_satisfy_def)

lemma satisfy_trans: "keeps_params I s t \<Longrightarrow> keeps_params I t u \<Longrightarrow> keeps_params I s u"
  by (simp add: keeps_params_def)

lemma satisfy_attach: "keeps_params I s (attach_handle h i og s)"
  by (cases i) (auto simp: attach_handle_def keeps_params_def params_satisfy_def I_push)

lemma satisfy_detach: "keeps_params I s (detach_handle h s)"
  by (auto simp: detach_handle_def keeps_params_def params_satisfy_def I_drop split: option.splits if_splits)

end

sublocale param_invariant \<subseteq> client_relation "keeps_params I" E
proof
  fix s t u :: "('v, 'j) world"
  show "keeps_params I s s" by (simp add: satisfy_frame)
  show "keeps_params I s t \<Longrightarrow> keeps_params I t u \<Longrightarrow> keeps_params I s u" by (rule satisfy_trans)
  show "params s i = Some p \<Longrightarrow> param_step E i p (f p) \<Longrightarrow> keeps_params I s (map_param i f s)" for i p f
    by (rule satisfy_map) (auto intro: I_step)
  show "keeps_params I s (map_param i (set_oncall k False) t)"
    if "keeps_params I (map_param i (set_oncall k True) s) t" for i k
    by (rule satisfy_trans [OF satisfy_map satisfy_trans [OF that satisfy_map]]) (simp_all add: I_oncall)
  show "keeps_params I s (new_handle io og s)" for io og
    unfolding new_handle_def by (rule satisfy_trans [OF satisfy_frame satisfy_attach]) simp
  show "keeps_params I s (attach_handle h io og (detach_handle h s))" for h io og
    by (rule satisfy_trans [OF satisfy_detach satisfy_attach])
  show "keeps_params I s (detach_handle h s)" for h by (rule satisfy_detach)
  show "keeps_params I s (destroy_handle h s)" for h
    unfolding destroy_handle_def
    by (rule satisfy_trans [OF satisfy_detach satisfy_frame]) (simp add: forget_handle_def)
  show "keeps_params I s (install_param (fresh_param nm desc bh og T TM v) s)" for nm desc bh og T TM v
    by (auto simp: keeps_params_def params_satisfy_def install_param_def I_fresh)
  show "keeps_params I s (forget_param i s)" for i
    by (auto simp: keeps_params_def params_satisfy_def forget_param_def)
qed (auto intro!: satisfy_frame simp: install_broker_def forget_broker_def)

section \<open>The fast paths\<close>

text \<open>
  \<open>fast_write\<close> is set only while nothing has to be done for a write by the owner but the
  write itself, and \<open>fast_read\<close> only while there is no read callback.
\<close>

definition fast_ok :: "('v, 'j) param \<Rightarrow> bool" where
  "fast_ok p \<longleftrightarrow>
     (fast_write p \<longrightarrow> p_mutability p = CCI_MUTABLE_PARAM \<and> \<not> is_locked p
        \<and> vec (callbacks_of Pre_write p) = [] \<and> vec (callbacks_of Post_write p) = [])
     \<and> (fast_read p \<longrightarrow> vec (callbacks_of Pre_read p) = [] \<and> vec (callbacks_of Post_read p) = [])"

lemma fast_ok_set_oncall [simp]: "fast_ok (set_oncall k b p) \<longleftrightarrow> fast_ok p"
  by (simp add: fast_ok_def is_locked_def) (simp add: set_oncall_def)

lemma fast_ok_step:
  assumes "param_step E i p q" and "fast_ok p"
  shows "fast_ok q"
  using assms(1)
proof cases
  case (written og)
  then show ?thesis
    using assms(2) by (auto simp: fast_ok_def update_fast_write_def callbacks_of.simps is_locked_def)
next
  case was_read
  then show ?thesis
    using assms(2) by (auto simp: fast_ok_def update_fast_read_def callbacks_of.simps is_locked_def)
qed (use assms(2) in \<open>auto simp: fast_ok_def is_locked_def step_defs Let_def\<close>)

lemma fast_ok_handles [simp]:
  "fast_ok (push_handle h p) = fast_ok p" "fast_ok (drop_handle h p) = fast_ok p"
  by (simp_all add: fast_ok_def push_handle_def drop_handle_def is_locked_def)

interpretation fast: param_invariant E fast_ok for E :: "('v, 'j) env"
proof
  show "fast_ok (fresh_param nm desc bh og T TM v)" for nm desc bh og T TM and v :: 'v
    by (simp add: fast_ok_def fresh_param_def)
  show "fast_ok p \<Longrightarrow> param_step E i p q \<Longrightarrow> fast_ok q" for i and p q :: "('v, 'j) param"
    by (rule fast_ok_step)
qed simp_all

end
