(* ===== verification/World_Invariants.thy ===== *)
theory World_Invariants
  imports Param_Protocol
begin

text \<open>
  Invariants that span objects: handles and parameters refer to each other, and the brokers
  are well formed and form a hierarchy. Each is a \<open>client_relation\<close>, so that every program
  keeps it.
\<close>

section \<open>Handles and parameters\<close>

text \<open>
  A parameter lists exactly the handles that refer to it, each once; so no handle refers to a
  parameter that has been destroyed.
\<close>

definition handles_ok :: "('v, 'j) world \<Rightarrow> bool" where
  "handles_ok s \<longleftrightarrow> fresh s
     \<and> (\<forall>i p. params s i = Some p \<longrightarrow> distinct (m_param_handles p)
          \<and> (\<forall>h \<in> set (m_param_handles p). \<exists>d. handles s h = Some d \<and> m_param d = Some i))
     \<and> (\<forall>h d i. handles s h = Some d \<longrightarrow> m_param d = Some i \<longrightarrow>
          (\<exists>p. params s i = Some p \<and> h \<in> set (m_param_handles p)))"

lemma handles_okD:
  assumes "handles_ok s"
  shows "fresh s"
    and "params s i = Some p \<Longrightarrow> distinct (m_param_handles p)"
    and "params s i = Some p \<Longrightarrow> h \<in> set (m_param_handles p) \<Longrightarrow> \<exists>d. handles s h = Some d \<and> m_param d = Some i"
    and "handles s h = Some d \<Longrightarrow> m_param d = Some i \<Longrightarrow> \<exists>p. params s i = Some p \<and> h \<in> set (m_param_handles p)"
  using assms by (auto simp: handles_ok_def)

text \<open>Only the handles and the lists of the parameters matter.\<close>

lemma handles_ok_frame:
  assumes "handles_ok s" and "fresh t" and "handles t = handles s"
    and "\<And>i. map_option m_param_handles (params t i) = map_option m_param_handles (params s i)"
  shows "handles_ok t"
proof -
  have st: "params t i = Some q \<Longrightarrow> \<exists>p. params s i = Some p \<and> m_param_handles p = m_param_handles q" for i q
    using assms(4) [of i] by (cases "params s i") auto
  have ts: "params s i = Some p \<Longrightarrow> \<exists>q. params t i = Some q \<and> m_param_handles q = m_param_handles p" for i p
    using assms(4) [of i] by (cases "params t i") auto
  show ?thesis
    using assms(1-3) unfolding handles_ok_def
    by (metis st ts)
qed

lemma fresh_map_param [simp]: "fresh (map_param i f s) \<longleftrightarrow> fresh s"
  by (auto simp: fresh_def map_param_def)

lemma handles_ok_map_param:
  assumes "handles_ok s" and "\<And>p. params s i = Some p \<Longrightarrow> m_param_handles (f p) = m_param_handles p"
  shows "handles_ok (map_param i f s)"
  by (rule handles_ok_frame [OF assms(1)])
    (use assms in \<open>auto simp: handles_okD(1) option.map_comp comp_def intro!: option.map_cong\<close>)

lemma param_step_handles: "param_step E i p q \<Longrightarrow> m_param_handles q = m_param_handles p"
  by (erule param_step.cases) (simp_all add: step_defs Let_def)

lemma handles_ok_detach:
  assumes ok: "handles_ok s"
  shows "handles_ok (detach_handle h s)"
proof (cases "handles s h")
  case None
  with ok show ?thesis by (simp add: detach_handle_def)
next
  case (Some d)
  note d = Some
  have h: "h < next_address s" using d handles_okD(1) [OF ok] by (auto simp: fresh_def not_le [symmetric])
  show ?thesis
  proof (cases "m_param d")
    case None
    then have "detach_handle h s = s\<lparr>handles := (handles s)(h := Some d)\<rparr>"
      using d by (cases d) (simp add: detach_handle_def)
    also have "\<dots> = s" using d by (simp add: fun_upd_idem)
    finally show ?thesis using ok by simp
  next
    case (Some i)
    let ?t = "detach_handle h s"
    have t: "?t = map_param i (drop_handle h) s\<lparr>handles := (handles s)(h := Some (d\<lparr>m_param := None\<rparr>))\<rparr>"
      using d Some by (simp add: detach_handle_def)
    show ?thesis
      unfolding handles_ok_def
    proof (intro conjI allI impI)
      show "fresh ?t" using handles_okD(1) [OF ok] h by (auto simp: t fresh_def)
    next
      fix j q
      assume "params ?t j = Some q"
      then obtain p where p: "params s j = Some p"
        and q: "q = (if j = i then drop_handle h p else p)" by (auto simp: t split: if_splits)
      show "distinct (m_param_handles q)"
        using handles_okD(2) [OF ok p] by (simp add: q drop_handle_def distinct_removeAll)
      show "\<forall>g \<in> set (m_param_handles q). \<exists>e. handles ?t g = Some e \<and> m_param e = Some j"
      proof
        fix g assume g: "g \<in> set (m_param_handles q)"
        then have "g \<in> set (m_param_handles p)" by (auto simp: q drop_handle_def split: if_splits)
        from handles_okD(3) [OF ok p this] obtain e where e: "handles s g = Some e" "m_param e = Some j"
          by blast
        have "g \<noteq> h" using g e d Some by (auto simp: q drop_handle_def split: if_splits)
        with e show "\<exists>e. handles ?t g = Some e \<and> m_param e = Some j" by (simp add: t)
      qed
    next
      fix g e j
      assume "handles ?t g = Some e" and ej: "m_param e = Some j"
      then have "g \<noteq> h" and e: "handles s g = Some e" by (auto simp: t split: if_splits)
      from handles_okD(4) [OF ok e ej] obtain p where "params s j = Some p" "g \<in> set (m_param_handles p)"
        by blast
      with \<open>g \<noteq> h\<close> show "\<exists>p. params ?t j = Some p \<and> g \<in> set (m_param_handles p)"
        by (auto simp: t drop_handle_def)
    qed
  qed
qed

text \<open>A handle that refers to nothing can be attached.\<close>

lemma handles_ok_attach:
  assumes ok: "handles_ok s" and h: "h < next_address s"
    and free: "\<And>d. handles s h = Some d \<Longrightarrow> m_param d = None"
    and alive: "\<And>j. i = Some j \<Longrightarrow> params s j \<noteq> None"
  shows "handles_ok (attach_handle h i og s)"
proof -
  have not_listed: "h \<notin> set (m_param_handles p)" if "params s j = Some p" for j p
    using handles_okD(3) [OF ok that] free by fastforce
  show ?thesis
  proof (cases i)
    case None
    then show ?thesis
      using ok h not_listed by (auto simp: handles_ok_def attach_handle_def fresh_def; metis)
  next
    case (Some k)
    let ?t = "attach_handle h (Some k) og s"
    have t: "?t = map_param k (push_handle h) s\<lparr>handles := (handles s)(h := Some \<lparr>m_param = Some k, h_originator = og\<rparr>)\<rparr>"
      by (simp add: attach_handle_def)
    show ?thesis
      unfolding handles_ok_def Some
    proof (intro conjI allI impI)
      show "fresh ?t" using handles_okD(1) [OF ok] h by (auto simp: t fresh_def)
    next
      fix j q
      assume "params ?t j = Some q"
      then obtain p where p: "params s j = Some p"
        and q: "q = (if j = k then push_handle h p else p)" by (auto simp: t split: if_splits)
      show "distinct (m_param_handles q)"
        using handles_okD(2) [OF ok p] not_listed [OF p] by (simp add: q push_handle_def)
      show "\<forall>g \<in> set (m_param_handles q). \<exists>e. handles ?t g = Some e \<and> m_param e = Some j"
        using handles_okD(3) [OF ok p] not_listed [OF p]
        by (auto simp: q t push_handle_def split: if_splits)
    next
      fix g e j
      assume "handles ?t g = Some e" and ej: "m_param e = Some j"
      then consider "g = h" "k = j" | "g \<noteq> h" "handles s g = Some e"
        by (auto simp: t split: if_splits)
      then show "\<exists>p. params ?t j = Some p \<and> g \<in> set (m_param_handles p)"
      proof cases
        case 1
        obtain p where "params s k = Some p" using alive Some by auto
        then have "params ?t k = Some (push_handle h p)" by (simp add: t)
        with 1 show ?thesis by (auto simp: push_handle_def)
      next
        case 2
        from handles_okD(4) [OF ok 2(2) ej] show ?thesis by (auto simp: t push_handle_def)
      qed
    qed
  qed
qed

lemma detach_free: "handles (detach_handle h s) h = Some d \<Longrightarrow> m_param d = None"
  by (auto simp: detach_handle_def split: option.splits)

lemma detach_alive: "params (detach_handle h s) j = None \<longleftrightarrow> params s j = None"
  by (auto simp: detach_handle_def split: option.splits)

lemma next_detach_handle [simp]: "next_address (detach_handle h s) = next_address s"
  by (simp add: detach_handle_def split: option.splits)

lemma handles_ok_forget_handle:
  assumes "handles_ok s" and "\<And>d. handles s h = Some d \<Longrightarrow> m_param d = None"
  shows "handles_ok (forget_handle h s)"
  unfolding handles_ok_def
proof (intro conjI allI impI ballI)
  show "fresh (forget_handle h s)" using handles_okD(1) [OF assms(1)] by (simp add: forget_handle_def fresh_def)
next
  fix i p
  assume "params (forget_handle h s) i = Some p"
  then have p: "params s i = Some p" by (simp add: forget_handle_def)
  show "distinct (m_param_handles p)" using assms(1) p by (rule handles_okD(2))
  fix g
  assume g: "g \<in> set (m_param_handles p)"
  from handles_okD(3) [OF assms(1) p this] obtain e where e: "handles s g = Some e" "m_param e = Some i"
    by blast
  then have "g \<noteq> h" using assms(2) by auto
  with e show "\<exists>d. handles (forget_handle h s) g = Some d \<and> m_param d = Some i"
    by (simp add: forget_handle_def)
next
  fix g d i
  assume "handles (forget_handle h s) g = Some d" and "m_param d = Some i"
  then show "\<exists>p. params (forget_handle h s) i = Some p \<and> g \<in> set (m_param_handles p)"
    using handles_okD(4) [OF assms(1)] by (auto simp: forget_handle_def split: if_splits)
qed

lemma handles_ok_destroy: "handles_ok s \<Longrightarrow> handles_ok (destroy_handle h s)"
  unfolding destroy_handle_def
  by (rule handles_ok_forget_handle [OF handles_ok_detach detach_free])

lemma handles_ok_install:
  "handles_ok s \<Longrightarrow> m_param_handles p = [] \<Longrightarrow> handles_ok (install_param p s)"
  unfolding handles_ok_def
proof (intro conjI allI impI; elim conjE)
  assume f: "fresh s" and p: "m_param_handles p = []"
  show "fresh (install_param p s)" using f by (auto simp: install_param_def fresh_def)
  assume down: "\<forall>i q. params s i = Some q \<longrightarrow> distinct (m_param_handles q)
          \<and> (\<forall>h \<in> set (m_param_handles q). \<exists>d. handles s h = Some d \<and> m_param d = Some i)"
    and up: "\<forall>h d i. handles s h = Some d \<longrightarrow> m_param d = Some i \<longrightarrow>
          (\<exists>q. params s i = Some q \<and> h \<in> set (m_param_handles q))"
  fix i q
  assume q: "params (install_param p s) i = Some q"
  show "distinct (m_param_handles q)" using q p down by (auto simp: install_param_def split: if_splits)
  show "\<forall>h \<in> set (m_param_handles q). \<exists>d. handles (install_param p s) h = Some d \<and> m_param d = Some i"
    using q p down by (auto simp: install_param_def split: if_splits)
next
  fix h d i
  assume f: "fresh s" and up: "\<forall>h d i. handles s h = Some d \<longrightarrow> m_param d = Some i \<longrightarrow>
          (\<exists>q. params s i = Some q \<and> h \<in> set (m_param_handles q))"
    and "handles (install_param p s) h = Some d" and "m_param d = Some i"
  then have "handles s h = Some d" by (simp add: install_param_def)
  with up \<open>m_param d = Some i\<close> obtain q where q: "params s i = Some q" "h \<in> set (m_param_handles q)"
    by blast
  with f have "i \<noteq> next_address s" by (auto simp: fresh_def)
  with q show "\<exists>q. params (install_param p s) i = Some q \<and> h \<in> set (m_param_handles q)"
    by (simp add: install_param_def)
qed

lemma handles_ok_forget:
  "handles_ok s \<Longrightarrow> params s i = Some p \<Longrightarrow> m_param_handles p = [] \<Longrightarrow> handles_ok (forget_param i s)"
  by (fastforce simp: handles_ok_def forget_param_def fresh_def)

definition keeps_handles_ok :: "('v, 'j) world \<Rightarrow> ('v, 'j) world \<Rightarrow> bool" where
  "keeps_handles_ok s t \<longleftrightarrow> (handles_ok s \<longrightarrow> handles_ok t)"

interpretation handle_lists: client_relation keeps_handles_ok E for E :: "('v, 'j) env"
proof
  fix s t u :: "('v, 'j) world"
  show "keeps_handles_ok s s" by (simp add: keeps_handles_ok_def)
  show "keeps_handles_ok s t \<Longrightarrow> keeps_handles_ok t u \<Longrightarrow> keeps_handles_ok s u"
    by (simp add: keeps_handles_ok_def)
  show "keeps_handles_ok s (s\<lparr>reports := reports s @ [rp]\<rparr>)" for rp
    by (auto simp: keeps_handles_ok_def handles_ok_def fresh_def)
  show "keeps_handles_ok s (s\<lparr>sc_names := ns\<rparr>)" for ns
    by (auto simp: keeps_handles_ok_def handles_ok_def fresh_def)
  show "keeps_handles_ok s (s\<lparr>m_brokers := (m_brokers s)(ob \<mapsto> b)\<rparr>)" for ob b
    by (auto simp: keeps_handles_ok_def handles_ok_def fresh_def)
  show "params s i = Some p \<Longrightarrow> param_step E i p (f p) \<Longrightarrow> keeps_handles_ok s (map_param i f s)" for i p f
    by (auto simp: keeps_handles_ok_def dest: param_step_handles intro!: handles_ok_map_param)
  show "keeps_handles_ok s (map_param i (set_oncall k False) t)"
    if "keeps_handles_ok (map_param i (set_oncall k True) s) t" for i k
    using that by (auto simp: keeps_handles_ok_def set_oncall_def intro!: handles_ok_map_param)
  show "keeps_handles_ok s (map_broker b g s)" if "brokers s b = Some r" for b r g
    using that by (auto simp: keeps_handles_ok_def handles_ok_def fresh_def)
  show "keeps_handles_ok s (new_handle io og s)" if "\<And>j. io = Some j \<Longrightarrow> params s j \<noteq> None" for io og
  proof -
    let ?s = "s\<lparr>next_address := Suc (next_address s)\<rparr>"
    have "handles_ok s \<Longrightarrow> handles_ok ?s" by (auto simp: handles_ok_def fresh_def)
    moreover have "handles_ok s \<Longrightarrow> handles s (next_address s) = None"
      by (auto simp: handles_ok_def fresh_def)
    ultimately show ?thesis
      using that unfolding keeps_handles_ok_def new_handle_def by (auto intro!: handles_ok_attach)
  qed
  show "keeps_handles_ok s (attach_handle h io og (detach_handle h s))"
    if "handles s h \<noteq> None" and "\<And>j. io = Some j \<Longrightarrow> params s j \<noteq> None" for h io og
    unfolding keeps_handles_ok_def
  proof
    assume ok: "handles_ok s"
    with that(1) have "h < next_address s" by (auto simp: handles_ok_def fresh_def not_le [symmetric])
    then show "handles_ok (attach_handle h io og (detach_handle h s))"
      using that(2) ok by (intro handles_ok_attach handles_ok_detach) (auto simp: detach_alive dest: detach_free)
  qed
  show "keeps_handles_ok s (detach_handle h s)" for h
    by (simp add: keeps_handles_ok_def handles_ok_detach)
  show "keeps_handles_ok s (destroy_handle h s)" for h
    by (simp add: keeps_handles_ok_def handles_ok_destroy)
  show "keeps_handles_ok s (install_param (fresh_param nm desc bh og T TM v) s)" for nm desc bh og T TM v
    by (simp add: keeps_handles_ok_def handles_ok_install fresh_param_def)
  show "params s i = Some p \<Longrightarrow> m_param_handles p = [] \<Longrightarrow> keeps_handles_ok s (forget_param i s)" for i p
    by (simp add: keeps_handles_ok_def handles_ok_forget)
  show "keeps_handles_ok s (install_broker
      ((empty_broker nm)\<lparr>b_forwarding := fwd, has_parent := has, m_parent := parent\<rparr>) s)"
    for nm fwd has parent
    by (auto simp: keeps_handles_ok_def handles_ok_def install_broker_def fresh_def)
  show "keeps_handles_ok s (forget_broker b s)" for b
    by (auto simp: keeps_handles_ok_def handles_ok_def forget_broker_def fresh_def)
qed

section \<open>Brokers\<close>

text \<open>
  Every broker keeps its databases in order; the parent of a broker lives and was built
  before it; the registry of brokers refers to brokers that live.
\<close>

definition brokers_ok :: "('v, 'j) world \<Rightarrow> bool" where
  "brokers_ok s \<longleftrightarrow> fresh s
     \<and> (\<forall>b r. brokers s b = Some r \<longrightarrow> broker_inv r)
     \<and> parents_below s
     \<and> (\<forall>ob b. m_brokers s ob = Some b \<longrightarrow> brokers s b \<noteq> None)"

lemma broker_inv_other [simp]:
  "broker_inv (ignore_unconsumed_preset_values pred r) = broker_inv r"
  "broker_inv (register_create_callback cb og r) = broker_inv r"
  "broker_inv (snd (unregister_create_callback E cb og r)) = broker_inv r"
  "broker_inv (register_destroy_callback cb og r) = broker_inv r"
  "broker_inv (snd (unregister_destroy_callback E cb og r)) = broker_inv r"
  "broker_inv (snd (broker_unregister_all_callbacks E og r)) = broker_inv r"
  "broker_inv (expose_name nm r) = broker_inv r"
  by (simp_all add: broker_inv_def ignore_unconsumed_preset_values_def register_create_callback_def
      unregister_create_callback_def register_destroy_callback_def unregister_destroy_callback_def
      broker_unregister_all_callbacks_def expose_name_def)

lemma broker_step_inv: "broker_step E r r' \<Longrightarrow> broker_inv r \<Longrightarrow> broker_inv r'"
  by (erule broker_step.cases)
    (simp_all add: store_preset_inv lock_preset_inv register_param_inv unregister_param_inv
      use_preset_inv unuse_preset_inv)

text \<open>The place of a broker in the hierarchy is fixed.\<close>

lemma broker_step_place:
  "broker_step E r r' \<Longrightarrow>
   b_forwarding r' = b_forwarding r \<and> has_parent r' = has_parent r \<and> m_parent r' = m_parent r \<and> b_name r' = b_name r"
  by (erule broker_step.cases)
    (auto simp: store_preset_def Let_def consuming_lock_preset_value_def register_param_def
      unregister_param_def use_preset_def unuse_preset_def ignore_unconsumed_preset_values_def
      register_create_callback_def unregister_create_callback_def register_destroy_callback_def
      unregister_destroy_callback_def broker_unregister_all_callbacks_def expose_name_def
      split: option.splits)

lemma brokers_ok_frame:
  assumes "brokers_ok s" and "fresh t" and "brokers t = brokers s" and "m_brokers t = m_brokers s"
  shows "brokers_ok t"
  using assms by (simp add: brokers_ok_def parents_below_def)

lemma brokers_ok_map_param: "brokers_ok (map_param i f s) \<longleftrightarrow> brokers_ok s"
  unfolding brokers_ok_def parents_below_def by simp

lemma fresh_detach: "fresh s \<Longrightarrow> fresh (detach_handle h s)"
  by (auto simp: detach_handle_def fresh_def split: option.splits)

lemma fresh_attach: "fresh s \<Longrightarrow> h < next_address s \<Longrightarrow> fresh (attach_handle h i og s)"
  by (cases i) (auto simp: attach_handle_def fresh_def)

lemma attach_brokers [simp]:
  "brokers (attach_handle h i og s) = brokers s" "m_brokers (attach_handle h i og s) = m_brokers s"
  by (cases i; simp add: attach_handle_def)+

lemma detach_brokers [simp]:
  "brokers (detach_handle h s) = brokers s" "m_brokers (detach_handle h s) = m_brokers s"
  by (auto simp: detach_handle_def split: option.splits)

lemma brokers_ok_map_broker:
  assumes "brokers_ok s" and r: "brokers s b = Some r" and step: "broker_step E r (g r)"
  shows "brokers_ok (map_broker b g s)"
  unfolding brokers_ok_def
proof (intro conjI allI impI)
  show "fresh (map_broker b g s)" using assms by (auto simp: brokers_ok_def fresh_def)
  show "broker_inv q" if "brokers (map_broker b g s) c = Some q" for c q
    using that assms broker_step_inv [OF step] by (auto simp: brokers_ok_def split: if_splits)
  show "parents_below (map_broker b g s)"
    using assms broker_step_place [OF step] by (auto simp: brokers_ok_def parents_below_def)
  show "brokers (map_broker b g s) c \<noteq> None" if "m_brokers (map_broker b g s) ob = Some c" for ob c
    using that assms by (auto simp: brokers_ok_def)
qed

lemma brokers_ok_install:
  assumes ok: "brokers_ok s" and parent: "has \<Longrightarrow> \<exists>ob. m_brokers s ob = Some parent"
  shows "brokers_ok (install_broker
    ((empty_broker nm)\<lparr>b_forwarding := fwd, has_parent := has, m_parent := parent\<rparr>) s)"
    (is "brokers_ok (install_broker ?r s)")
  unfolding brokers_ok_def
proof (intro conjI allI impI)
  have f: "fresh s" using ok by (simp add: brokers_ok_def)
  show "fresh (install_broker ?r s)" using f by (auto simp: fresh_def install_broker_def)
  show "broker_inv q" if "brokers (install_broker ?r s) c = Some q" for c q
    using that ok by (auto simp: brokers_ok_def install_broker_def broker_inv_def empty_broker_def
        split: if_splits)
  show "brokers (install_broker ?r s) c \<noteq> None" if "m_brokers (install_broker ?r s) ob = Some c" for ob c
    using that ok by (auto simp: brokers_ok_def install_broker_def)
  show "parents_below (install_broker ?r s)"
    unfolding parents_below_def
  proof (intro allI impI)
    fix c q
    assume q: "brokers (install_broker ?r s) c = Some q" and hp: "has_parent q"
    show "m_parent q < c \<and> brokers (install_broker ?r s) (m_parent q) \<noteq> None"
    proof (cases "c = next_address s")
      case True
      with q have "q = ?r" by (simp add: install_broker_def)
      with hp parent obtain ob where "m_brokers s ob = Some parent" by auto
      with ok have "brokers s parent \<noteq> None" by (auto simp: brokers_ok_def)
      with f have "parent < next_address s" by (auto simp: fresh_def not_le [symmetric])
      with \<open>brokers s parent \<noteq> None\<close> True \<open>q = ?r\<close> show ?thesis by (simp add: install_broker_def)
    next
      case False
      with q hp ok show ?thesis
        by (auto simp: install_broker_def brokers_ok_def parents_below_def split: if_splits)
    qed
  qed
qed

text \<open>No broker is lost on the way: what a program achieves that destroys none.\<close>

definition keeps_brokers_ok :: "('v, 'j) world \<Rightarrow> ('v, 'j) world \<Rightarrow> bool" where
  "keeps_brokers_ok s t \<longleftrightarrow>
     (brokers_ok s \<longrightarrow> brokers_ok t) \<and> (\<forall>b. brokers s b \<noteq> None \<longrightarrow> brokers t b \<noteq> None)"

lemma keeps_brokers_ok_frame:
  assumes "fresh s \<Longrightarrow> fresh t" and "brokers t = brokers s" and "m_brokers t = m_brokers s"
  shows "keeps_brokers_ok s t"
  using assms brokers_ok_frame [OF _ _ assms(2,3)] by (auto simp: keeps_brokers_ok_def brokers_ok_def)

interpretation broker_states: library_relation keeps_brokers_ok E for E :: "('v, 'j) env"
proof
  fix s t u :: "('v, 'j) world"
  show "keeps_brokers_ok s s" by (simp add: keeps_brokers_ok_def)
  show "keeps_brokers_ok s t \<Longrightarrow> keeps_brokers_ok t u \<Longrightarrow> keeps_brokers_ok s u"
    by (simp add: keeps_brokers_ok_def)
  show "keeps_brokers_ok s (s\<lparr>reports := reports s @ [rp]\<rparr>)" for rp
    by (rule keeps_brokers_ok_frame) (simp_all add: fresh_def)
  show "keeps_brokers_ok s (s\<lparr>sc_names := ns\<rparr>)" for ns
    by (rule keeps_brokers_ok_frame) (simp_all add: fresh_def)
  show "keeps_brokers_ok s (s\<lparr>m_brokers := (m_brokers s)(ob \<mapsto> b)\<rparr>)" if "brokers s b \<noteq> None" for ob b
    using that by (auto simp: keeps_brokers_ok_def brokers_ok_def fresh_def parents_below_def)
  show "keeps_brokers_ok s (map_param i f s)" for i f
    by (rule keeps_brokers_ok_frame) (simp_all add: fresh_def)
  show "keeps_brokers_ok s (map_param i (set_oncall k False) t)"
    if "keeps_brokers_ok (map_param i (set_oncall k True) s) t" for i k
    using that by (simp add: keeps_brokers_ok_def brokers_ok_map_param)
  show "brokers s b = Some r \<Longrightarrow> broker_step E r (g r) \<Longrightarrow> keeps_brokers_ok s (map_broker b g s)" for b r g
    by (simp add: keeps_brokers_ok_def brokers_ok_map_broker)
  show "keeps_brokers_ok s (new_handle io og s)" for io og
  proof (rule keeps_brokers_ok_frame)
    assume "fresh s"
    then have "fresh (s\<lparr>next_address := Suc (next_address s)\<rparr>)" by (simp add: fresh_def)
    then show "fresh (new_handle io og s)" unfolding new_handle_def by (rule fresh_attach) simp
  qed (simp_all add: new_handle_def)
  show "keeps_brokers_ok s (attach_handle h io og (detach_handle h s))" if "handles s h \<noteq> None" for h io og
  proof (rule keeps_brokers_ok_frame)
    assume f: "fresh s"
    with that have "h < next_address s" by (auto simp: fresh_def not_le [symmetric])
    then show "fresh (attach_handle h io og (detach_handle h s))"
      using f by (intro fresh_attach fresh_detach) simp_all
  qed simp_all
  show "keeps_brokers_ok s (detach_handle h s)" for h
    by (rule keeps_brokers_ok_frame) (simp_all add: fresh_detach)
  show "keeps_brokers_ok s (destroy_handle h s)" for h
  proof (rule keeps_brokers_ok_frame)
    assume "fresh s"
    then have "fresh (detach_handle h s)" by (rule fresh_detach)
    then show "fresh (destroy_handle h s)" by (simp add: destroy_handle_def forget_handle_def fresh_def)
  qed (simp_all add: destroy_handle_def forget_handle_def)
  show "keeps_brokers_ok s (install_param p s)" for p
    by (rule keeps_brokers_ok_frame) (auto simp: install_param_def fresh_def)
  show "keeps_brokers_ok s (forget_param i s)" for i
    by (rule keeps_brokers_ok_frame) (auto simp: forget_param_def fresh_def)
  show "(has \<Longrightarrow> \<exists>ob. m_brokers s ob = Some parent) \<Longrightarrow> keeps_brokers_ok s (install_broker
      ((empty_broker nm)\<lparr>b_forwarding := fwd, has_parent := has, m_parent := parent\<rparr>) s)"
    for nm fwd has parent
    by (simp add: keeps_brokers_ok_def brokers_ok_install) (simp add: install_broker_def)
qed

text \<open>
  What holds even if brokers are destroyed, while their children live and the registry still refers
  to them: the databases of the living brokers are in order, parents were built before their children,
  and the registry refers to brokers that live or once lived.
\<close>

definition databases_ok :: "('v, 'j) world \<Rightarrow> bool" where
  "databases_ok s \<longleftrightarrow> fresh s
     \<and> (\<forall>b r. brokers s b = Some r \<longrightarrow> broker_inv r \<and> (has_parent r \<longrightarrow> m_parent r < b))
     \<and> (\<forall>ob b. m_brokers s ob = Some b \<longrightarrow> b < next_address s)"

lemma brokers_ok_databases: "brokers_ok s \<Longrightarrow> databases_ok s"
  by (fastforce simp: brokers_ok_def databases_ok_def parents_below_def fresh_def not_le [symmetric])

lemma fresh_living: "fresh s \<Longrightarrow> brokers s b \<noteq> None \<Longrightarrow> b < next_address s"
  by (auto simp: fresh_def not_le [symmetric])

definition keeps_databases_ok :: "('v, 'j) world \<Rightarrow> ('v, 'j) world \<Rightarrow> bool" where
  "keeps_databases_ok s t \<longleftrightarrow> (databases_ok s \<longrightarrow> databases_ok t)"

lemma keeps_databases_ok_frame:
  assumes "fresh s \<Longrightarrow> fresh t" and "brokers t = brokers s" and "m_brokers t = m_brokers s"
    and "next_address s \<le> next_address t"
  shows "keeps_databases_ok s t"
  using assms by (simp add: keeps_databases_ok_def databases_ok_def) (meson less_le_trans)

lemma databases_ok_map_param: "databases_ok (map_param i f s) \<longleftrightarrow> databases_ok s"
  unfolding databases_ok_def by simp

lemma databases_ok_register:
  assumes "databases_ok s" and "brokers s b \<noteq> None"
  shows "databases_ok (s\<lparr>m_brokers := (m_brokers s)(ob \<mapsto> b)\<rparr>)"
  using assms fresh_living [of s b] unfolding databases_ok_def by (simp add: fresh_def)

lemma next_address_ends [simp]:
  "next_address (detach_handle h s) = next_address s" "next_address (attach_handle h io og s) = next_address s"
  by (auto simp: detach_handle_def attach_handle_def split: option.splits)

lemma databases_ok_map_broker:
  assumes "databases_ok s" and r: "brokers s b = Some r" and step: "broker_step E r (g r)"
  shows "databases_ok (map_broker b g s)"
  using assms broker_step_inv [OF step] broker_step_place [OF step]
  by (auto simp: databases_ok_def fresh_def)

lemma databases_ok_install:
  assumes ok: "databases_ok s" and parent: "has \<Longrightarrow> \<exists>ob. m_brokers s ob = Some parent"
  shows "databases_ok (install_broker
    ((empty_broker nm)\<lparr>b_forwarding := fwd, has_parent := has, m_parent := parent\<rparr>) s)"
proof -
  have "has \<Longrightarrow> parent < next_address s" using ok parent by (auto simp: databases_ok_def)
  with ok show ?thesis
    by (auto simp: databases_ok_def install_broker_def fresh_def broker_inv_def empty_broker_def
        intro: less_SucI)
qed

interpretation databases: client_relation keeps_databases_ok E for E :: "('v, 'j) env"
proof
  fix s t u :: "('v, 'j) world"
  show "keeps_databases_ok s s" by (simp add: keeps_databases_ok_def)
  show "keeps_databases_ok s t \<Longrightarrow> keeps_databases_ok t u \<Longrightarrow> keeps_databases_ok s u"
    by (simp add: keeps_databases_ok_def)
  show "keeps_databases_ok s (s\<lparr>reports := reports s @ [rp]\<rparr>)" for rp
    by (rule keeps_databases_ok_frame) (simp_all add: fresh_def)
  show "keeps_databases_ok s (s\<lparr>sc_names := ns\<rparr>)" for ns
    by (rule keeps_databases_ok_frame) (simp_all add: fresh_def)
  show "keeps_databases_ok s (s\<lparr>m_brokers := (m_brokers s)(ob \<mapsto> b)\<rparr>)" if "brokers s b \<noteq> None" for ob b
    using that by (simp add: keeps_databases_ok_def databases_ok_register)
  show "keeps_databases_ok s (map_param i f s)" for i f
    by (rule keeps_databases_ok_frame) (simp_all add: fresh_def)
  show "keeps_databases_ok s (map_param i (set_oncall k False) t)"
    if "keeps_databases_ok (map_param i (set_oncall k True) s) t" for i k
    using that by (simp add: keeps_databases_ok_def databases_ok_map_param)
  show "brokers s b = Some r \<Longrightarrow> broker_step E r (g r) \<Longrightarrow> keeps_databases_ok s (map_broker b g s)" for b r g
    by (simp add: keeps_databases_ok_def databases_ok_map_broker)
  show "keeps_databases_ok s (new_handle io og s)" for io og
  proof (rule keeps_databases_ok_frame)
    assume "fresh s"
    then have "fresh (s\<lparr>next_address := Suc (next_address s)\<rparr>)" by (simp add: fresh_def)
    then show "fresh (new_handle io og s)" unfolding new_handle_def by (rule fresh_attach) simp
  qed (simp_all add: new_handle_def)
  show "keeps_databases_ok s (attach_handle h io og (detach_handle h s))" if "handles s h \<noteq> None" for h io og
  proof (rule keeps_databases_ok_frame)
    assume f: "fresh s"
    with that have "h < next_address s" by (auto simp: fresh_def not_le [symmetric])
    then show "fresh (attach_handle h io og (detach_handle h s))"
      using f by (intro fresh_attach fresh_detach) simp_all
  qed simp_all
  show "keeps_databases_ok s (detach_handle h s)" for h
    by (rule keeps_databases_ok_frame) (simp_all add: fresh_detach)
  show "keeps_databases_ok s (destroy_handle h s)" for h
  proof (rule keeps_databases_ok_frame)
    assume "fresh s"
    then have "fresh (detach_handle h s)" by (rule fresh_detach)
    then show "fresh (destroy_handle h s)" by (simp add: destroy_handle_def forget_handle_def fresh_def)
  qed (simp_all add: destroy_handle_def forget_handle_def)
  show "keeps_databases_ok s (install_param p s)" for p
    by (rule keeps_databases_ok_frame) (auto simp: install_param_def fresh_def)
  show "keeps_databases_ok s (forget_param i s)" for i
    by (rule keeps_databases_ok_frame) (auto simp: forget_param_def fresh_def)
  show "(has \<Longrightarrow> \<exists>ob. m_brokers s ob = Some parent) \<Longrightarrow> keeps_databases_ok s (install_broker
      ((empty_broker nm)\<lparr>b_forwarding := fwd, has_parent := has, m_parent := parent\<rparr>) s)"
    for nm fwd has parent
    by (simp add: keeps_databases_ok_def databases_ok_install)
  show "keeps_databases_ok s (forget_broker b s)" for b
    by (auto simp: keeps_databases_ok_def databases_ok_def forget_broker_def fresh_def)
qed

end
