(* ===== verification/Fuel.thy ===== *)
theory Fuel
  imports Client
begin

text \<open>
  More fuel only completes: a run that has an outcome of the program keeps it, with the same
  state, under any larger fuel. So the fuel of a theorem about a run that ends is no
  restriction, and the outcome does not depend on it.
\<close>

section \<open>Loops\<close>

lemma refines_list [refines_intros]:
  "refines m m' \<Longrightarrow> (\<And>x xs. refines (f x xs) (g x xs)) \<Longrightarrow>
   refines (case ys of [] \<Rightarrow> m | x # xs \<Rightarrow> f x xs) (case ys of [] \<Rightarrow> m' | x # xs \<Rightarrow> g x xs)"
  by (cases ys) simp_all

lemma refines_invoke [refines_intros]:
  assumes "\<And>ref ev. refines (run ref ev) (run' ref ev)"
  shows "refines (invoke_write E run T cb old new og h) (invoke_write E run' T cb old new og h)"
    and "refines (invoke_read E run T cb v og h) (invoke_read E run' T cb v og h)"
    and "refines (invoke_param run c h) (invoke_param run' c h)"
  using assms
  by (cases cb; auto simp: invoke_write_def invoke_read_def invoke_param_def intro!: refines_intros
      split: option.splits)+

lemma refines_pre_write_loop:
  assumes "\<And>ref ev. refines (run ref ev) (run' ref ev)"
  shows "n \<le> m \<Longrightarrow> refines (pre_write_loop E run n i new og j result) (pre_write_loop E run' m i new og j result)"
proof (induction n arbitrary: m j result)
  case 0
  show ?case unfolding pre_write_loop.simps by (rule refines_nofuelM)
next
  case (Suc n)
  then obtain k where m: "m = Suc k" "n \<le> k" by (cases m) auto
  show ?case
    unfolding m pre_write_loop.simps by (intro refines_intros assms Suc.IH m)
qed

lemma refines_post_write_loop:
  assumes "\<And>ref ev. refines (run ref ev) (run' ref ev)"
  shows "n \<le> m \<Longrightarrow> refines (post_write_loop E run n i old new og j) (post_write_loop E run' m i old new og j)"
proof (induction n arbitrary: m j)
  case 0
  show ?case unfolding post_write_loop.simps by (rule refines_nofuelM)
next
  case (Suc n)
  then obtain k where m: "m = Suc k" "n \<le> k" by (cases m) auto
  show ?case
    unfolding m post_write_loop.simps by (intro refines_intros assms Suc.IH m)
qed

lemma refines_read_loop:
  assumes "\<And>ref ev. refines (run ref ev) (run' ref ev)"
  shows "n \<le> m \<Longrightarrow> refines (read_loop E run n k i og j) (read_loop E run' m k i og j)"
proof (induction n arbitrary: m j)
  case 0
  show ?case unfolding read_loop.simps by (rule refines_nofuelM)
next
  case (Suc n)
  then obtain l where m: "m = Suc l" "n \<le> l" by (cases m) auto
  show ?case
    unfolding m read_loop.simps by (intro refines_intros assms Suc.IH m)
qed

lemma refines_broker_callback_loop:
  assumes "\<And>ref ev. refines (run ref ev) (run' ref ev)"
  shows "n \<le> m \<Longrightarrow> refines (broker_callback_loop run n cbs b i j) (broker_callback_loop run' m cbs b i j)"
proof (induction n arbitrary: m j)
  case 0
  show ?case unfolding broker_callback_loop.simps by (rule refines_nofuelM)
next
  case (Suc n)
  then obtain l where m: "m = Suc l" "n \<le> l" by (cases m) auto
  show ?case
    unfolding m broker_callback_loop.simps by (intro refines_intros assms Suc.IH m)
qed

lemma refines_forward:
  assumes "\<And>b. refines (op b) (op' b)"
  shows "n \<le> m \<Longrightarrow> refines (forward n b nm op) (forward m b nm op')"
proof (induction n arbitrary: m b)
  case 0
  show ?case unfolding forward.simps by (rule refines_nofuelM)
next
  case (Suc n)
  then obtain l where m: "m = Suc l" "n \<le> l" by (cases m) auto
  show ?case unfolding m forward.simps by (intro refines_intros assms Suc.IH m)
qed

lemma refines_get_param_handle:
  "n \<le> m \<Longrightarrow> refines (get_param_handle n b nm og) (get_param_handle m b nm og)"
proof (induction n arbitrary: m b)
  case 0
  show ?case unfolding get_param_handle.simps by (rule refines_nofuelM)
next
  case (Suc n)
  then obtain l where m: "m = Suc l" "n \<le> l" by (cases m) auto
  show ?case unfolding m get_param_handle.simps by (intro refines_intros Suc.IH m)
qed

lemma refines_get_param_handles:
  "n \<le> m \<Longrightarrow> refines (get_param_handles E n b og) (get_param_handles E m b og)"
proof (induction n arbitrary: m b og)
  case 0
  show ?case unfolding get_param_handles.simps by (rule refines_nofuelM)
next
  case (Suc n)
  then obtain l where m: "m = Suc l" "n \<le> l" by (cases m) auto
  show ?case unfolding m get_param_handles.simps by (intro refines_intros Suc.IH m)
qed

lemma refines_find_broker: "n \<le> m \<Longrightarrow> refines (find_broker E n org) (find_broker E m org)"
proof (induction n arbitrary: m org)
  case 0
  show ?case unfolding find_broker.simps by (rule refines_nofuelM)
next
  case (Suc n)
  then obtain l where m: "m = Suc l" "n \<le> l" by (cases m) auto
  show ?case unfolding m find_broker.simps by (intro refines_intros Suc.IH m)
qed

lemma refines_enclosing_module: "n \<le> m \<Longrightarrow> refines (enclosing_module E n ob) (enclosing_module E m ob)"
proof (induction n arbitrary: m ob)
  case 0
  show ?case unfolding enclosing_module.simps by (rule refines_nofuelM)
next
  case (Suc n)
  then obtain l where m: "m = Suc l" "n \<le> l" by (cases m) auto
  show ?case unfolding m enclosing_module.simps by (intro refines_intros Suc.IH m)
qed

lemma refines_invalidate_all:
  "n \<le> m \<Longrightarrow> refines (invalidate_all_param_handles n i) (invalidate_all_param_handles m i)"
proof (induction n arbitrary: m)
  case 0
  show ?case unfolding invalidate_all_param_handles.simps by (rule refines_nofuelM)
next
  case (Suc n)
  then obtain l where m: "m = Suc l" "n \<le> l" by (cases m) auto
  show ?case unfolding m invalidate_all_param_handles.simps by (intro refines_intros Suc.IH m)
qed

lemma refines_broker_get_cci_value:
  assumes "\<And>b og. refines (consuming_get_cci_value E run k nm og b) (consuming_get_cci_value E run' k' nm og b)"
  shows "n \<le> m \<Longrightarrow> refines (broker_get_cci_value E run k n b nm og) (broker_get_cci_value E run' k' m b nm og)"
proof (induction n arbitrary: m b og)
  case 0
  show ?case unfolding broker_get_cci_value.simps by (rule refines_nofuelM)
next
  case (Suc n)
  then obtain l where m: "m = Suc l" "n \<le> l" by (cases m) auto
  show ?case unfolding m broker_get_cci_value.simps by (intro refines_intros assms Suc.IH m)
qed

section \<open>Operations\<close>

text \<open>One invoker above another, and one fuel above another.\<close>

locale more_fuel =
  fixes E :: "('v, 'j) env" and run run' :: "('v, 'j) invoker" and n m :: nat
  assumes run: "refines (run ref ev) (run' ref ev)" and nm: "n \<le> m"
begin

lemmas loops = refines_pre_write_loop [OF run nm] refines_post_write_loop [OF run nm]
  refines_read_loop [OF run nm] refines_broker_callback_loop [OF run nm] refines_forward [OF _ nm]
  refines_get_param_handle [OF nm] refines_get_param_handles [OF nm] refines_find_broker [OF nm]
  refines_enclosing_module [OF nm] refines_invalidate_all [OF nm]

lemma refines_values:
  "refines (set_raw_value E run n i v pwd og) (set_raw_value E run' m i v pwd og)"
  "refines (get_raw_value E run n i og) (get_raw_value E run' m i og)"
  "refines (preset_cci_value E run n i x og) (preset_cci_value E run' m i x og)"
  unfolding set_raw_value_def write_with_callbacks_def get_raw_value_def preset_cci_value_def
    pre_write_callback_def post_write_callback_def pre_read_callback_def post_read_callback_def
  by (intro refines_intros loops)+

lemma refines_presets:
  "refines (has_preset_value n b nm) (has_preset_value m b nm)"
  "refines (get_preset_cci_value E n b nm) (get_preset_cci_value E m b nm)"
  "refines (get_value_origin_by_name n b nm) (get_value_origin_by_name m b nm)"
  "refines (lock_preset_value n b nm) (lock_preset_value m b nm)"
  "refines (set_preset_cci_value E n b nm x og) (set_preset_cci_value E m b nm x og)"
  unfolding has_preset_value_def get_preset_cci_value_def get_value_origin_by_name_def
    lock_preset_value_def set_preset_cci_value_def
  by (intro loops refines_refl)+

lemma refines_param:
  "refines (set_value E run n i v) (set_value E run' m i v)"
  "refines (set_value_pwd E run n i v pwd) (set_value_pwd E run' m i v pwd)"
  "refines (get_value E run n i) (get_value E run' m i)"
  "refines (set_cci_value E run n i x pwd og) (set_cci_value E run' m i x pwd og)"
  "refines (get_cci_value E run n i og) (get_cci_value E run' m i og)"
  "refines (is_preset_value E n i) (is_preset_value E m i)"
  unfolding set_value_def set_value_pwd_def get_value_def set_cci_value_def get_cci_value_def
    is_preset_value_def
  by (intro refines_intros refines_values refines_presets)+

lemma refines_category:
  "refines (get_data_category E run n i) (get_data_category E run' m i)"
  unfolding get_data_category_def by (intro refines_intros refines_param)

lemma refines_reset: "refines (reset E run n i) (reset E run' m i)"
  unfolding reset_def pre_write_callback_def post_write_callback_def
  by (intro refines_intros loops refines_values refines_presets)

lemma refines_brokers:
  "refines (get_broker E n og) (get_broker E m og)"
  "refines (cci_get_broker E n) (cci_get_broker E m)"
  "refines (cci_get_global_broker E n og) (cci_get_global_broker E m og)"
  "refines (new_broker E n nm) (new_broker E m nm)"
  "refines (find_broker_convenience E n og) (find_broker_convenience E m og)"
  unfolding new_broker_def get_parent_broker_def find_broker_convenience_def
    cci_get_broker_def cci_get_global_broker_def get_broker_def
  by (intro refines_intros loops)+

lemma refines_lifecycle:
  "refines (add_param run n b i) (add_param run' m b i)"
  "refines (remove_param run n b i) (remove_param run' m b i)"
  unfolding add_param_def remove_param_def consuming_add_param_def consuming_remove_param_def
  by (intro refines_intros loops)+

lemma refines_init: "refines (init E run n b i) (init E run' m b i)"
  unfolding init_def by (intro refines_intros refines_values refines_presets refines_lifecycle)

lemma refines_names:
  "refines (param_full_name E n nm nt) (param_full_name E m nm nt)"
  "refines (choose_name E n b nm) (choose_name E m b nm)"
  unfolding param_full_name_def choose_name_def
  by (intro refines_intros loops refines_presets)+

lemma refines_construct:
  "refines (construct_param E run n nm dv T TM nt pb og desc) (construct_param E run' m nm dv T TM nt pb og desc)"
  unfolding construct_param_def
  by (intro refines_intros refines_brokers refines_names refines_init)

lemma refines_delete: "refines (delete_param E run n i) (delete_param E run' m i)"
  unfolding delete_param_def destroy_def by (intro refines_intros refines_lifecycle loops)

lemma refines_get_broker_value:
  "refines (broker_get_cci_value E run n n b nm og) (broker_get_cci_value E run' m m b nm og)"
  by (rule refines_broker_get_cci_value [OF _ nm])
    (unfold consuming_get_cci_value_def, intro refines_intros refines_param)

section \<open>Calls\<close>

lemma refines_answer: "refines f g \<Longrightarrow> refines (answer h f) (answer h g)"
  unfolding answer_def by (intro refines_intros)

lemma refines_dispatch_param: "refines (dispatch_param E run n i c) (dispatch_param E run' m i c)"
  by (cases c; simp only: dispatch_param.simps;
      intro refines_answer refines_values refines_param refines_category refines_reset refines_refl)

lemma refines_handled:
  "(\<And>i og. refines (f i og) (g i og)) \<Longrightarrow> refines (handled E h f) (handled E h g)"
  "(\<And>i og. refines (f i og) (g i og)) \<Longrightarrow> refines (typed_handled E T h f) (typed_handled E T h g)"
  unfolding typed_handled_def handled_def by (intro refines_intros; simp)+

lemma refines_dispatch_handle: "refines (dispatch_handle E run n h c) (dispatch_handle E run' m h c)"
  by (cases c; simp only: dispatch_handle.simps handle_set_cci_value_def handle_get_cci_value_def
        handle_is_preset_value_def handle_get_data_category_def typed_handle_set_value_def
        typed_handle_get_value_def;
      intro refines_answer refines_handled refines_values refines_param refines_category refines_refl)

lemma refines_dispatch_broker: "refines (dispatch_broker E run n bh c) (dispatch_broker E run' m bh c)"
  by (cases c; simp only: dispatch_broker.simps handle_broker_set_preset_def
        handle_broker_get_cci_value_def handle_broker_get_param_handle_def
        handle_broker_get_param_handles_def;
      intro refines_answer refines_bindM refines_presets refines_get_broker_value loops refines_refl)

lemma refines_dispatch: "refines (dispatch E run n c) (dispatch E run' m c)"
  by (cases c; simp only: dispatch.simps new_param_def new_param_cci_def;
      intro refines_answer refines_dispatch_param refines_dispatch_handle refines_dispatch_broker
        refines_construct refines_delete refines_if refines_brokers refines_refl)

end

section \<open>Programs\<close>

lemma refines_exec: "n \<le> m \<Longrightarrow> refines (exec E n c) (exec E m c)"
proof (induction n arbitrary: m c)
  case 0
  show ?case unfolding exec.simps by (rule refines_nofuelM)
next
  case (Suc n)
  then obtain k where m: "m = Suc k" "n \<le> k" by (cases m) auto
  show ?case
  proof (cases c)
    case (P_call a f)
    have "more_fuel (runner E n) (runner E k) n k"
      by unfold_locales (simp_all add: runner_def [abs_def] Suc.IH m)
    then have "refines (dispatch E (runner E n) n a) (dispatch E (runner E k) k a)"
      by (rule more_fuel.refines_dispatch)
    then show ?thesis
      unfolding P_call m exec_call by (intro refines_bindM Suc.IH m)
  next
    case (P_try c' f)
    then show ?thesis
      unfolding m by (simp add: refines_tryM Suc.IH m)
  qed (simp_all add: m)
qed

interpretation more: more_fuel E "runner E n" "runner E (n + d)" n "n + d" for E n d
  by unfold_locales (simp_all add: runner_def [abs_def] refines_exec)

end
