(* ===== verification/Param_Spec.thy ===== *)
theory Param_Spec
  imports Fuel World_Invariants
begin

text \<open>
  What the operations of a parameter do, branch by branch: the access checks of a write, the
  write with and without callbacks, the two fast paths against the full paths, the lock as
  a state machine of its own, and \<open>reset\<close>.
\<close>

section \<open>Access control\<close>

text \<open>Why a write is refused before any callback runs; \<open>None\<close> if it is not.\<close>

definition refusal :: "('v, 'j) param \<Rightarrow> address option \<Rightarrow> string option" where
  "refusal p pwd =
     (if p_mutability p = CCI_IMMUTABLE_PARAM then Some (''Parameter ('' @ param_name p @ '') is immutable.'')
      else if pwd = None \<and> is_locked p then Some ''Parameter locked.''
      else if pwd \<noteq> None \<and> pwd \<noteq> m_lock_pwd p then Some ''Wrong key.''
      else None)"

lemma set_raw_value_refused:
  assumes "params s i = Some p" and "refusal p pwd = Some m"
  shows "snd (set_raw_value E run n i v pwd og s) = snd (set_param_failed E m s)"
    and "fst (set_raw_value E run n i v pwd og s) = fst (set_param_failed E m s)"
  using assms
  by (auto simp: set_raw_value_def set_cci_value_allowed_def refusal_def bindM_def
      split: if_splits prod.splits outcome.splits)

lemma set_raw_value_admitted:
  assumes "params s i = Some p" and "refusal p pwd = None"
  shows "set_raw_value E run n i v pwd og s = write_with_callbacks E run n i v og s"
  using assms
  by (auto simp: set_raw_value_def set_cci_value_allowed_def refusal_def bindM_def split: if_splits)

section \<open>Writing without callbacks\<close>

lemma set_oncall_undo: "oncall (callbacks_of k p) = b \<Longrightarrow> set_oncall k b (set_oncall k c p) = p"
  by (cases p; cases k) (auto simp: set_oncall_def map_callbacks.simps callbacks_of.simps)

lemma scoped_no_callbacks:
  "params s i = Some p \<Longrightarrow> oncall (callbacks_of k p) = b \<Longrightarrow>
   map_param i (set_oncall k b) (map_param i (set_oncall k c) s) = s"
  by (simp add: map_param_def set_oncall_undo fun_upd_idem)

lemma pre_write_none:
  assumes "params s i = Some p" and "vec (callbacks_of Pre_write p) = []" and "\<not> oncall (callbacks_of Pre_write p)"
  shows "pre_write_callback E run (Suc n) i v og s = (Ret True, s)"
proof -
  have p': "params (map_param i (set_oncall Pre_write True) s) i = Some (set_oncall Pre_write True p)"
    using assms(1) by simp
  have "vec (m_pre_write_callbacks (set_oncall Pre_write True p)) = []"
    using assms(2) by (metis callbacks_of.simps(1) vec_set_oncall)
  with assms p' show ?thesis
    using scoped_no_callbacks [of s i p Pre_write False True]
    by (simp add: pre_write_callback_def scoped_true_def guardM_def callbacks_of.simps)
qed

lemma post_write_none:
  assumes "params s i = Some p" and "vec (callbacks_of Post_write p) = []" and "\<not> oncall (callbacks_of Post_write p)"
  shows "post_write_callback E run (Suc n) i old v og s = (Ret (), s)"
proof -
  have p': "params (map_param i (set_oncall Post_write True) s) i = Some (set_oncall Post_write True p)"
    using assms(1) by simp
  have "vec (m_post_write_callbacks (set_oncall Post_write True p)) = []"
    using assms(2) by (metis callbacks_of.simps(2) vec_set_oncall)
  with assms p' show ?thesis
    using scoped_no_callbacks [of s i p Post_write False True]
    by (simp add: post_write_callback_def scoped_true_def guardM_def callbacks_of.simps)
qed

definition write_quiet :: "('v, 'j) param \<Rightarrow> bool" where
  "write_quiet p \<longleftrightarrow> (\<forall>k \<in> {Pre_write, Post_write}. vec (callbacks_of k p) = [] \<and> \<not> oncall (callbacks_of k p))"

lemma write_quiet_writes:
  assumes p: "params s i = Some p" and quiet: "write_quiet p"
  shows "write_with_callbacks E run (Suc n) i v og s =
           (Ret (), map_param i (\<lambda>p. update_fast_write E og (write_param v og p)) s)"
proof -
  let ?s = "map_param i (write_param v og) s"
  have pre: "pre_write_callback E run (Suc n) i v og s = (Ret True, s)"
    using quiet by (intro pre_write_none [OF p]) (simp_all add: write_quiet_def)
  have s': "params ?s i = Some (write_param v og p)" using p by simp
  have post: "post_write_callback E run (Suc n) i (m_value p) v og ?s = (Ret (), ?s)"
    using quiet by (intro post_write_none [OF s']) (simp_all add: write_quiet_def write_param_def)
  have "write_with_callbacks E run (Suc n) i v og s
      = upd_param i (update_fast_write E og) ?s"
    unfolding write_with_callbacks_def
    by (simp add: bindM_def pre post p)
  also have "\<dots> = (Ret (), map_param i (update_fast_write E og) ?s)"
    using s' by simp
  also have "map_param i (update_fast_write E og) ?s =
      map_param i (\<lambda>p. update_fast_write E og (write_param v og p)) s"
    by (simp add: map_param_def option.map_comp comp_def)
  finally show ?thesis .
qed

section \<open>The fast paths\<close>

lemma fast_write_same:
  assumes "fast_write p" and "fast_ok p" and "m_value_origin p = m_originator p"
  shows "update_fast_write E (m_originator p) (write_param v (m_originator p) p) = p\<lparr>m_value := v\<rparr>"
proof -
  have "p_mutability p = CCI_MUTABLE_PARAM" "\<not> is_locked p" "vec (m_pre_write_callbacks p) = []"
    "vec (m_post_write_callbacks p) = []"
    using assms(1,2) by (auto simp: fast_ok_def callbacks_of.simps)
  with assms(1,3) show ?thesis
    by (cases p) (simp add: update_fast_write_def write_param_def is_locked_def)
qed

lemma read_none:
  assumes "params s i = Some p" and "vec (callbacks_of k p) = []" and "\<not> oncall (callbacks_of k p)"
  shows "scoped_true i k (read_loop E run (Suc n) k i og 0) s = (Ret (), s)"
proof -
  have p': "params (map_param i (set_oncall k True) s) i = Some (set_oncall k True p)"
    using assms(1) by simp
  with assms show ?thesis
    using scoped_no_callbacks [of s i p k False True] by (simp add: scoped_true_def guardM_def)
qed

lemma get_raw_value_quiet:
  assumes p: "params s i = Some p"
    and quiet: "\<And>k. k \<in> {Pre_read, Post_read} \<Longrightarrow> vec (callbacks_of k p) = [] \<and> \<not> oncall (callbacks_of k p)"
  shows "get_raw_value E run (Suc n) i og s = (Ret (m_value p), map_param i update_fast_read s)"
proof -
  have pre: "pre_read_callback E run (Suc n) i og s = (Ret (), s)"
    using p quiet [of Pre_read] read_none [of s i p Pre_read]
    by (simp add: pre_read_callback_def callbacks_of.simps)
  have post: "post_read_callback E run (Suc n) i og s = (Ret (), s)"
    using p quiet [of Post_read] read_none [of s i p Post_read]
    by (simp add: post_read_callback_def callbacks_of.simps)
  show ?thesis
    unfolding get_raw_value_def
    by (simp add: bindM_def pre post p update_fast_read_def)
qed

section \<open>Callbacks that only judge\<close>

text \<open>
  A pre-write callback that has no effect and returns a verdict: then the loop calls each
  callback once, in order, and its result is the conjunction of the verdicts. Every handle
  of an event is gone when the loop ends.
\<close>

definition accepts :: "('v, 'j) param \<Rightarrow> (callback_ref \<Rightarrow> bool) \<Rightarrow> bool" where
  "accepts p verdict \<longleftrightarrow> (\<forall>it \<in> set (vec (m_pre_write_callbacks p)). verdict (the (callback it)))"

text \<open>The rejections that the loop reports from index \<open>j\<close> on.\<close>

definition rejections :: "('v, 'j) param \<Rightarrow> (callback_ref \<Rightarrow> bool) \<Rightarrow> nat \<Rightarrow> nat" where
  "rejections p verdict j =
     length (filter (\<lambda>it. \<not> verdict (the (callback it))) (drop j (vec (m_pre_write_callbacks p))))"

lemma destroy_new_handle:
  assumes "handles_ok s" and "params s i = Some p"
  shows "destroy_handle (next_address s) (new_handle (Some i) og s)
       = s\<lparr>next_address := Suc (next_address s)\<rparr>"
proof -
  let ?h = "next_address s"
  have h: "handles s ?h = None" using handles_okD(1) [OF assms(1)] by (simp add: fresh_def)
  have "?h \<notin> set (m_param_handles p)"
    using handles_okD(3) [OF assms] h by fastforce
  then have "drop_handle ?h (push_handle ?h p) = p"
    by (cases p) (simp add: drop_handle_def push_handle_def removeAll_id)
  with assms(2) h show ?thesis
    by (simp add: destroy_handle_def forget_handle_def detach_handle_def new_handle_def
        attach_handle_def map_param_def fun_upd_idem)
qed

lemma destroy_handle_reports [simp]:
  "destroy_handle h (s\<lparr>reports := rs\<rparr>) = (destroy_handle h s)\<lparr>reports := rs\<rparr>"
  by (auto simp: destroy_handle_def forget_handle_def detach_handle_def map_param_def split: option.splits)

lemma reports_destroy_handle [simp]: "reports (destroy_handle h s) = reports s"
  by (auto simp: destroy_handle_def forget_handle_def detach_handle_def split: option.splits)

lemma reports_new_handle [simp]: "reports (new_handle i og s) = reports s"
  by (cases i) (auto simp: new_handle_def attach_handle_def)

definition set_param_report :: "string \<Rightarrow> sc_report" where
  "set_param_report m =
     \<lparr>severity = SC_ERROR, msg_type = CCI_SC_REPORT_MSG_TYPE_PREFIX @ ''SET_PARAM_FAILED'', msg = m\<rparr>"

definition suppressed :: "'x sc_env_scheme \<Rightarrow> bool" where
  "suppressed E \<longleftrightarrow> \<not> sc_throws E SC_ERROR (CCI_SC_REPORT_MSG_TYPE_PREFIX @ ''SET_PARAM_FAILED'')"

lemma set_param_failed_run:
  "set_param_failed E m s =
     (if suppressed E then Ret () else Exc (Sc_report (set_param_report m)),
      s\<lparr>reports := reports s @ [set_param_report m]\<rparr>)"
  by (simp add: set_param_failed_def report_def Let_def suppressed_def set_param_report_def)

text \<open>A functor that answers with a verdict and does nothing else, for a callback of type \<open>T\<close>.\<close>

definition judges :: "('v, 'j) invoker \<Rightarrow> (callback_ref \<Rightarrow> bool) \<Rightarrow> bool" where
  "judges run verdict \<longleftrightarrow> (\<forall>ref ev s. run ref ev s = (Ret (verdict ref), s))"

definition direct_callbacks :: "('v, 'j) param \<Rightarrow> bool" where
  "direct_callbacks p \<longleftrightarrow>
     (\<forall>it \<in> set (vec (m_pre_write_callbacks p)).
        \<exists>ref. callback it = Some ref \<and> cb_signature ref = Sig_pre_write (Some (p_type p)))"

lemma judge_turn:
  assumes ok: "handles_ok s" and p: "params s i = Some p" and "judges run verdict" and "suppressed E"
  shows "with_handle i og' (\<lambda>h.
           bindM (invoke_write E run T (Direct_callback ref) old v og h) (\<lambda>ok.
             if ok then retM result
             else thenM (set_param_failed E ''Value rejected by callback.'') (retM False))) s
       = (Ret (result \<and> verdict ref),
          s\<lparr>next_address := Suc (next_address s),
            reports := reports s @ (if verdict ref then [] else [set_param_report ''Value rejected by callback.''])\<rparr>)"
  using assms(3,4)
  by (simp add: with_handle_def guardM_def Let_def invoke_write_def judges_def bindM_def
      set_param_failed_run destroy_new_handle [OF ok p])

lemma handles_ok_bump:
  "handles_ok s \<Longrightarrow> handles_ok (s\<lparr>next_address := Suc (next_address s), reports := rs\<rparr>)"
  by (auto simp: handles_ok_def fresh_def)

lemma judged_loop:
  assumes "judges run verdict" and "suppressed E" and "direct_callbacks p"
  shows "handles_ok s \<Longrightarrow> params s i = Some p \<Longrightarrow> j \<le> length (vec (m_pre_write_callbacks p)) \<Longrightarrow>
    length (vec (m_pre_write_callbacks p)) - j < n \<Longrightarrow>
    pre_write_loop E run n i v og j result s =
      (Ret (result \<and> (\<forall>it \<in> set (drop j (vec (m_pre_write_callbacks p))). verdict (the (callback it)))),
       s\<lparr>next_address := next_address s + (length (vec (m_pre_write_callbacks p)) - j),
         reports := reports s
           @ replicate (rejections p verdict j) (set_param_report ''Value rejected by callback.'')\<rparr>)"
proof (induction n arbitrary: j s result)
  case 0
  then show ?case by simp
next
  case (Suc n)
  let ?cbs = "vec (m_pre_write_callbacks p)"
  show ?case
  proof (cases "j < length ?cbs")
    case False
    with Suc.prems show ?thesis by (simp add: rejections_def)
  next
    case True
    let ?it = "?cbs ! j"
    have "?it \<in> set ?cbs" using True by simp
    with assms(3) obtain ref where ref: "callback ?it = Some ref"
      "cb_signature ref = Sig_pre_write (Some (p_type p))" by (auto simp: direct_callbacks_def)
    have direct: "typed_callback_handle Pre_write (p_type p) (callback ?it) = Direct_callback ref"
      by (simp add: typed_callback_handle_def ref)
    let ?s = "s\<lparr>next_address := Suc (next_address s),
      reports := reports s @ (if verdict ref then [] else [set_param_report ''Value rejected by callback.''])\<rparr>"
    note turn = judge_turn [OF Suc.prems(1,2) assms(1,2), of "cb_originator ?it" "p_type p" ref "m_value p" v og result]
    have drop: "drop j ?cbs = ?it # drop (Suc j) ?cbs" using True by (simp add: Cons_nth_drop_Suc)
    have rej: "rejections p verdict j = (if verdict ref then 0 else 1) + rejections p verdict (Suc j)"
      by (simp add: rejections_def drop ref)
    have "pre_write_loop E run (Suc n) i v og j result s
        = pre_write_loop E run n i v og (Suc j) (result \<and> verdict ref) ?s"
      using True Suc.prems(2) by (simp add: direct bindM_def turn)
    also have "\<dots> = (Ret ((result \<and> verdict ref)
          \<and> (\<forall>it \<in> set (drop (Suc j) ?cbs). verdict (the (callback it)))),
        ?s\<lparr>next_address := next_address ?s + (length ?cbs - Suc j),
          reports := reports ?s @ replicate (rejections p verdict (Suc j))
            (set_param_report ''Value rejected by callback.'')\<rparr>)"
      using Suc.prems True by (intro Suc.IH handles_ok_bump) simp_all
    finally show ?thesis using True by (auto simp: drop rej ref)
  qed
qed

end
