(* ===== verification/Examples.thy ===== *)
theory Examples
  imports World_Invariants
begin

text \<open>
  Small concrete instances on which the theorems are applied: an environment with integers as
  values and as \<open>cci_value\<close>, a broker, a parameter of that broker, and states built from them.
\<close>

definition ex_originator :: originator where
  "ex_originator = \<lparr>m_originator_obj = None, m_originator_str = Some ''owner''\<rparr>"

definition ex_other :: originator where
  "ex_other = \<lparr>m_originator_obj = None, m_originator_str = Some ''tool''\<rparr>"

definition ex_broker_handle :: broker_handle where
  "ex_broker_handle = \<lparr>m_broker = 0, bh_originator = ex_originator\<rparr>"

text \<open>
  Values convert unchanged, but a negative \<open>cci_value\<close> does not convert to a value. Whether
  errors are thrown is a parameter. The functor of callback 0 accepts, that of callback 1
  rejects, that of callback 2 throws.
\<close>

definition ex_env :: "bool \<Rightarrow> (int, int) env" where
  "ex_env throws =
     \<lparr>sc_throws = (\<lambda>sev mt. throws \<and> (sev = SC_ERROR \<or> sev = SC_FATAL)), sc_current = None,
      sc_name = (\<lambda>_. ''top''), sc_parent = (\<lambda>_. None),
      pack = (\<lambda>T v. (True, v)), unpack = (\<lambda>T x. (0 \<le> x, x)), value_eq = (\<lambda>T v w. v = w),
      category = (\<lambda>_. CCI_INTEGRAL_VALUE), null_value = - 1, is_process = (\<lambda>_. False),
      sc_register_name = (\<lambda>nm ns. (nm \<notin> ns, insert nm ns)),
      sc_unregister_name = (\<lambda>nm ns. (nm \<in> ns, ns - {nm})),
      sc_gen_name = (\<lambda>nm ns. (replicate (Suc (Max (insert 0 (length ` ns)))) CHR ''x'', ns)),
      sc_hierarchical_name = (\<lambda>nm ns. if nm \<in> ns then Some nm else None),
      sc_name_exists = (\<lambda>nm ns. nm \<in> ns),
      body = (\<lambda>cb ev. if cb = 2 then P_throw (User_exn 7) else P_return (cb = 0))\<rparr>"

lemma ex_env_names: "systemc_names (ex_env b)"
proof -
  have "replicate (Suc (Max (insert 0 (length ` ns)))) CHR ''x'' \<notin> ns" if "finite ns" for ns :: "string set"
  proof
    let ?k = "Max (insert 0 (length ` ns))"
    assume "replicate (Suc ?k) CHR ''x'' \<in> ns"
    then have "length (replicate (Suc ?k) CHR ''x'') \<in> insert 0 (length ` ns)" by blast
    with that have "length (replicate (Suc ?k) CHR ''x'') \<le> ?k" by (intro Max_ge) auto
    then show False by simp
  qed
  then show ?thesis by (simp add: systemc_names_def ex_env_def)
qed

definition ex_param :: "(int, int) param" where
  "ex_param = fresh_param ''p'' ''a parameter'' ex_broker_handle ex_originator 0 CCI_MUTABLE_PARAM 5"

definition ex_broker :: "int broker" where
  "ex_broker = (empty_broker ''b'')\<lparr>m_param_registry := [(''p'', 1)]\<rparr>"

definition ex_world :: "(int, int) world" where
  "ex_world =
     \<lparr>reports = [], params = Map.empty(1 \<mapsto> ex_param), handles = Map.empty,
      brokers = Map.empty(0 \<mapsto> ex_broker), m_brokers = Map.empty(None \<mapsto> 0),
      sc_names = {''b'', ''p''}, next_address = 2\<rparr>"

lemma ex_world_simps [simp]:
  "params ex_world 1 = Some ex_param" "params ex_world (Suc 0) = Some ex_param"
  "brokers ex_world 0 = Some ex_broker"
  "handles ex_world h = None" "next_address ex_world = 2" "reports ex_world = []"
  "m_brokers ex_world None = Some 0"
  by (simp_all add: ex_world_def)

lemma ex_world_fresh: "fresh ex_world"
  by (simp add: fresh_def ex_world_def)

lemma ex_world_handles: "handles_ok ex_world"
  using ex_world_fresh
  by (auto simp: handles_ok_def ex_world_def ex_param_def fresh_param_def split: if_splits)

lemma ex_world_brokers: "brokers_ok ex_world"
  using ex_world_fresh
  by (auto simp: brokers_ok_def parents_below_def ex_world_def ex_broker_def empty_broker_def broker_inv_def
      sorted_map_Cons split: if_splits)

lemma ex_world_fast: "params_satisfy fast_ok ex_world"
  by (auto simp: params_satisfy_def ex_world_def ex_param_def fresh_param_def fast_ok_def split: if_splits)

end
