(* ===== verification/Client_Properties.thy ===== *)
theory Client_Properties
  imports Examples Param_Spec
begin

text \<open>
  Properties of every client program, and of the life of handles and parameters.
\<close>

section \<open>A concrete run\<close>

definition ex_set :: "(int, int) prog" where
  "ex_set = P_call (On_param 1 (Set_value 7)) (\<lambda>_. P_return True)"

definition ex_after_set :: "(int, int) world" where
  "ex_after_set = map_param 1 (\<lambda>p. p\<lparr>m_value := 7, fast_write := True\<rparr>) ex_world"

lemma ex_set_value:
  "set_value (ex_env b) run (Suc n) 1 7 ex_world = (Ret (), ex_after_set)"
proof -
  have quiet: "write_quiet ex_param"
    by (simp add: write_quiet_def ex_param_def fresh_param_def no_callbacks_def callbacks_of.simps)
  have adm: "refusal ex_param None = None"
    by (simp add: refusal_def ex_param_def fresh_param_def is_locked_def)
  have w: "update_fast_write (ex_env b) ex_originator (write_param 7 ex_originator ex_param)
      = ex_param\<lparr>m_value := 7, fast_write := True\<rparr>"
    by (simp add: update_fast_write_def write_param_def ex_param_def fresh_param_def is_locked_def
        no_callbacks_def)
  have "set_raw_value (ex_env b) run (Suc n) 1 7 None ex_originator ex_world = (Ret (), ex_after_set)"
    using write_quiet_writes [of ex_world 1 ex_param "ex_env b" run n 7 ex_originator] quiet w
    by (simp add: set_raw_value_admitted [OF _ adm] ex_after_set_def map_param_def)
  then show ?thesis
    by (simp add: set_value_def get_originator_def ex_param_def fresh_param_def)
qed

lemma ex_set_run: "exec (ex_env b) (Suc (Suc n)) ex_set ex_world = (Ret True, ex_after_set)"
  unfolding ex_set_def exec_call dispatch.simps dispatch_param.simps
  by (simp only: answer_def bindM_def ex_set_value) (simp add: runner_def [abs_def])

section \<open>Invariants\<close>

text \<open>
  C1. Soundness of the fast paths. Whatever a client program does, with callbacks that call
  back into the library at any depth, exceptions and errors included: if the flag for the
  fast write of a parameter is set then the parameter is mutable, unlocked and without write
  callbacks, and if the flag for the fast read is set then there are no read callbacks. So
  skipping these checks is sound.
\<close>

theorem exec_fast_paths_sound:
  assumes "params_satisfy fast_ok s"
  shows "params_satisfy fast_ok (snd (exec E n c s))"
  using fast.exec_R [of E n c s "fst (exec E n c s)" "snd (exec E n c s)"] assms
  by (simp add: keeps_params_def)

theorem exec_fast_paths_sound_witness:
  "params_satisfy fast_ok (snd (exec (ex_env True) (Suc (Suc 7)) ex_set ex_world))"
  by (rule exec_fast_paths_sound [OF ex_world_fast])

text \<open>
  C25. Identity of a parameter. Over any run of any program a parameter that still lives has
  its name, owner, broker, default value, type and mutability, and the flags that mark
  callbacks in progress are as they were before, however the run ended.
\<close>

theorem exec_identity:
  assumes "fresh s" and "params s i = Some p" and "params (snd (exec E n c s)) i = Some q"
  shows "m_name q = m_name p \<and> m_originator q = m_originator p \<and> m_broker_handle q = m_broker_handle p
    \<and> m_default_value q = m_default_value p \<and> p_type q = p_type p \<and> p_mutability q = p_mutability p
    \<and> (\<forall>k. oncall (callbacks_of k q) = oncall (callbacks_of k p))"
proof -
  have "param_history same_identity s (snd (exec E n c s))"
    by (rule identity.exec_R [of E n c s "fst (exec E n c s)"]) simp
  from param_historyD [OF this assms(1) _ assms(3)] assms(2) show ?thesis
    by (auto simp: same_identity_def)
qed

theorem exec_identity_witness:
  "m_default_value (ex_param\<lparr>m_value := 7, fast_write := True\<rparr>) = m_default_value ex_param"
  using exec_identity [of ex_world 1 ex_param "ex_env True" "Suc (Suc 7)" ex_set "ex_param\<lparr>m_value := 7, fast_write := True\<rparr>"]
  by (simp add: ex_world_fresh ex_set_run ex_after_set_def)

text \<open>
  C4. Handles and parameters agree in every state that a client reaches: each parameter lists
  exactly the handles that refer to it, once each, and every handle that is not invalid
  refers to a parameter that lives. A handle never dangles.
\<close>

theorem exec_no_dangling_handles:
  assumes "handles_ok s"
  shows "handles_ok (snd (exec E n c s))
    \<and> (\<forall>h d i. handles (snd (exec E n c s)) h = Some d \<longrightarrow> m_param d = Some i \<longrightarrow>
         params (snd (exec E n c s)) i \<noteq> None)"
proof -
  have ok: "handles_ok (snd (exec E n c s))"
    using handle_lists.exec_R [of E n c s "fst (exec E n c s)" "snd (exec E n c s)"] assms
    by (simp add: keeps_handles_ok_def)
  then show ?thesis using handles_okD(4) [OF ok] by blast
qed

theorem exec_no_dangling_handles_witness:
  "handles_ok (snd (exec (ex_env True) (Suc (Suc 7)) ex_set ex_world))"
  using exec_no_dangling_handles [OF ex_world_handles] by blast

text \<open>
  C23. The databases of the brokers under every client, also one that destroys brokers while others
  use them: those of the brokers that live stay well formed (sorted, a name never both among the used
  and the unused preset values, an originator for every preset value), a parent was built before its
  children, and the registry refers to brokers that live or once lived. If neither the program nor a
  callback destroys a broker, then no broker is lost, and the registry and the parents stay free of dead
  brokers.
\<close>

theorem exec_brokers_ok:
  assumes "databases_ok s"
  shows "databases_ok (snd (exec E n c s))
    \<and> (brokers_ok s \<longrightarrow> callbacks_spare_brokers E \<longrightarrow> spares_brokers c \<longrightarrow>
        brokers_ok (snd (exec E n c s)) \<and> (\<forall>b. brokers s b \<noteq> None \<longrightarrow> brokers (snd (exec E n c s)) b \<noteq> None))"
  using databases.exec_R [of E n c s "fst (exec E n c s)" "snd (exec E n c s)"] assms
    keepsD [OF broker_states.keeps_sparing_exec, of E c n s "fst (exec E n c s)" "snd (exec E n c s)"]
  by (auto simp: keeps_brokers_ok_def keeps_databases_ok_def)

text \<open>A client that destroys its broker, and the one above, which does not.\<close>

definition ex_end_broker :: "(int, int) prog" where
  "ex_end_broker = P_call (Delete_broker 0) (\<lambda>_. P_return True)"

lemma ex_env_spares: "callbacks_spare_brokers (ex_env b)"
  by (simp add: callbacks_spare_brokers_def ex_env_def)

theorem exec_brokers_ok_witness:
  "brokers_ok (snd (exec (ex_env True) (Suc (Suc 7)) ex_set ex_world))
    \<and> databases_ok (snd (exec (ex_env True) (Suc (Suc 7)) ex_end_broker ex_world))"
proof
  have "spares_brokers ex_set" by (simp add: ex_set_def)
  with exec_brokers_ok [OF brokers_ok_databases [OF ex_world_brokers], of "ex_env True" "Suc (Suc 7)" ex_set]
  show "brokers_ok (snd (exec (ex_env True) (Suc (Suc 7)) ex_set ex_world))"
    using ex_world_brokers ex_env_spares by blast
  show "databases_ok (snd (exec (ex_env True) (Suc (Suc 7)) ex_end_broker ex_world))"
    using exec_brokers_ok [OF brokers_ok_databases [OF ex_world_brokers]] by blast
qed

text \<open>
  The outcome of a program does not depend on the fuel of the model: a run that ends in
  an outcome of the program ends in the same outcome and state with any larger fuel.
\<close>

lemma exec_fuel_monotone:
  assumes "exec E n c s = (r, t)" and "r \<noteq> NoFuel" and "n \<le> m"
  shows "exec E m c s = (r, t)"
  using refinesD [OF refines_exec [OF assms(3)] assms(1,2)] .

lemma exec_fuel_monotone_witness: "exec (ex_env True) 100 ex_set ex_world = (Ret True, ex_after_set)"
  by (rule exec_fuel_monotone [OF ex_set_run [of _ 7]]) simp_all

section \<open>Handles\<close>

text \<open>
  An operation on an invalid handle does not touch the parameter and never returns: it
  makes reports only, and ends in an exception or, if the error is suppressed, in the end of
  the process.
\<close>

lemma invalid_handle_denied:
  assumes "handles s h = Some d" and "m_param d = None"
  shows "((\<exists>e. fst (handled E h k s) = Exc e) \<or> fst (handled E h k s) = Abort)
    \<and> (\<exists>rs. snd (handled E h k s) = s\<lparr>reports := reports s @ rs\<rparr>)"
  using handled_invalid [OF assms] by blast

definition ex_invalid :: "(int, int) world" where
  "ex_invalid = new_handle None ex_other ex_world"

lemma invalid_handle_denied_witness:
  "\<exists>e. fst (handled (ex_env True) 2 (\<lambda>i og. read_param i is_locked) ex_invalid) = Exc e
    \<or> fst (handled (ex_env True) 2 (\<lambda>i og. read_param i is_locked) ex_invalid) = Abort"
  using invalid_handle_denied [of ex_invalid 2 "\<lparr>m_param = None, h_originator = ex_other\<rparr>" "ex_env True"
      "\<lambda>i og. read_param i is_locked"]
  by (auto simp: ex_invalid_def new_handle_def attach_handle_def)

text \<open>
  C26. Destroying a parameter ends: with fuel above the number of its handles the loop that
  invalidates them returns, the parameter has no handle left, every handle that referred to
  it is invalid, and nothing else changed in the parameter.
\<close>

theorem invalidate_all_terminates:
  assumes "handles_ok s" and "params s i = Some p" and "length (m_param_handles p) < n"
  shows "\<exists>t. invalidate_all_param_handles n i s = (Ret (), t)
    \<and> params t i = Some (p\<lparr>m_param_handles := []\<rparr>)
    \<and> (\<forall>h d. handles t h = Some d \<longrightarrow> m_param d \<noteq> Some i)"
  using assms
proof (induction n arbitrary: s p)
  case 0
  then show ?case by simp
next
  case (Suc n)
  note ok = Suc.prems(1) and p = Suc.prems(2)
  show ?case
  proof (cases "m_param_handles p")
    case Nil
    have "m_param d \<noteq> Some i" if "handles s h = Some d" for h d
      using handles_okD(4) [OF ok that] p Nil by auto
    moreover have "p\<lparr>m_param_handles := []\<rparr> = p" using Nil by (cases p) simp
    ultimately show ?thesis using p Nil by simp
  next
    case (Cons h hs)
    from handles_okD(3) [OF ok p, of h] Cons obtain d where d: "handles s h = Some d" "m_param d = Some i"
      by auto
    have "h \<notin> set hs" using handles_okD(2) [OF ok p] Cons by simp
    then have "drop_handle h p = p\<lparr>m_param_handles := hs\<rparr>"
      using Cons by (cases p) (simp add: drop_handle_def removeAll_id)
    then have p': "params (detach_handle h s) i = Some (p\<lparr>m_param_handles := hs\<rparr>)"
      using p d by (simp add: detach_handle_def)
    have step: "invalidate_all_param_handles (Suc n) i s = invalidate_all_param_handles n i (detach_handle h s)"
      using p d Cons by simp
    have "length (m_param_handles (p\<lparr>m_param_handles := hs\<rparr>)) < n" using Suc.prems(3) Cons by simp
    from Suc.IH [OF handles_ok_detach [OF ok] p' this] show ?thesis unfolding step by simp
  qed
qed

definition ex_handled :: "(int, int) world" where
  "ex_handled = new_handle (Some 1) ex_other ex_world"

lemma ex_handled_ok: "handles_ok ex_handled"
  using handle_lists.R_new_handle [of "Some 1" ex_world ex_other]
  by (simp add: keeps_handles_ok_def ex_world_handles ex_handled_def)

lemma ex_handled_param: "params ex_handled 1 = Some (push_handle 2 ex_param)"
  by (simp add: ex_handled_def new_handle_def attach_handle_def)

theorem invalidate_all_terminates_witness:
  "\<exists>t. invalidate_all_param_handles 2 1 ex_handled = (Ret (), t)
    \<and> (\<forall>h d. handles t h = Some d \<longrightarrow> m_param d \<noteq> Some 1)"
  using invalidate_all_terminates [OF ex_handled_ok ex_handled_param, of 2]
  by (auto simp: push_handle_def ex_param_def fresh_param_def)

text \<open>
  After a parameter has been destroyed it is gone and no handle refers to it, whatever the
  destroy callbacks of the brokers did in between.
\<close>

lemma delete_param_leaves_no_handle:
  assumes "handles_ok s" and "delete_param E (runner E n) n i s = (Ret (), t)"
  shows "params t i = None \<and> (\<forall>h d. handles t h = Some d \<longrightarrow> m_param d \<noteq> Some i)"
proof -
  have ok: "handles_ok t"
    using keepsD [OF handle_lists.keeps_delete_param [OF handle_lists.keeps_runner] assms(2)] assms(1)
    by (simp add: keeps_handles_ok_def)
  have "\<exists>u p. untyped_destructor E i u = (Ret (), t)"
    using assms(2)
    by (auto simp: delete_param_def noexceptM_def bindM_eq_Ret split: prod.splits outcome.splits)
  then have gone: "params t i = None"
    by (auto simp: untyped_destructor_def forget_param_def bindM_eq_Ret)
  then show ?thesis using handles_okD(4) [OF ok] by fastforce
qed

definition ex_deleted :: "(exn, unit) outcome \<times> (int, int) world" where
  "ex_deleted = delete_param (ex_env True) (runner (ex_env True) 3) 3 1 ex_handled"

lemma ex_deleted_ret: "fst ex_deleted = Ret ()"
  by (simp add: ex_deleted_def delete_param_def noexceptM_def destroy_def remove_param_def
      untyped_destructor_def unregister_base_def cci_unregister_name_def consuming_remove_param_def
      forward.simps ex_handled_param push_handle_def ex_param_def fresh_param_def ex_env_def
      ex_broker_handle_def ex_handled_def new_handle_def attach_handle_def ex_broker_def empty_broker_def
      eval_nat_numeral detach_handle_def drop_handle_def unuse_preset_def unregister_param_def
      bindM_def the_broker_def the_param_def param_name_def c_str_def)

lemma delete_param_leaves_no_handle_witness: "params (snd ex_deleted) 1 = None"
  using delete_param_leaves_no_handle [OF ex_handled_ok, of "ex_env True" 3 1 "snd ex_deleted"] ex_deleted_ret
  by (simp add: ex_deleted_def prod_eq_iff)

end
