(* ===== verification/Lock_Interface.thy ===== *)
theory Lock_Interface
  imports Param_Typed
begin

text \<open>
  The lock of a parameter as an interface. A lock is free or held with one key; a call without
  a key uses the key of the object itself. \<open>Param_Typed\<close> provides it through \<open>lock\<close> and
  \<open>unlock\<close>.
\<close>

datatype lock_call = L_lock "address option" | L_unlock "address option"

text \<open>The key that a call uses, and a sequence of calls.\<close>

definition effective_key :: "address \<Rightarrow> address option \<Rightarrow> address" where
  "effective_key this pwd = (case pwd of None \<Rightarrow> this | Some k \<Rightarrow> k)"

fun run_locks :: "(address option \<Rightarrow> 's \<Rightarrow> bool \<times> 's) \<Rightarrow> (address option \<Rightarrow> 's \<Rightarrow> bool \<times> 's)
    \<Rightarrow> lock_call list \<Rightarrow> 's \<Rightarrow> 's" where
  "run_locks lk ul [] s = s"
| "run_locks lk ul (L_lock pwd # cs) s = run_locks lk ul cs (snd (lk pwd s))"
| "run_locks lk ul (L_unlock pwd # cs) s = run_locks lk ul cs (snd (ul pwd s))"

locale lock_interface =
  fixes lk ul :: "address option \<Rightarrow> 's \<Rightarrow> bool \<times> 's"
    and key :: "'s \<Rightarrow> address option"
    and this :: address
  assumes lk_result: "fst (lk pwd s) \<longleftrightarrow> key s = None \<or> key s = Some (effective_key this pwd)"
    and lk_key: "key (snd (lk pwd s)) = (if fst (lk pwd s) then Some (effective_key this pwd) else key s)"
    and ul_result: "fst (ul pwd s) \<longleftrightarrow> key s = Some (effective_key this pwd)"
    and ul_key: "key (snd (ul pwd s)) = (if fst (ul pwd s) then None else key s)"
begin

text \<open>Only an unlock with the key of the holder frees the lock.\<close>

lemma holder_keeps_lock:
  assumes "key s = Some k" and "\<forall>pwd. L_unlock pwd \<in> set cs \<longrightarrow> effective_key this pwd \<noteq> k"
  shows "key (run_locks lk ul cs s) = Some k"
  using assms
proof (induction cs arbitrary: s)
  case Nil
  then show ?case by simp
next
  case (Cons c cs)
  show ?case
  proof (cases c)
    case (L_lock pwd)
    have "key (snd (lk pwd s)) = Some k" using Cons.prems(1) by (auto simp: lk_key lk_result)
    then show ?thesis using Cons.IH Cons.prems(2) L_lock by simp
  next
    case (L_unlock pwd)
    with Cons.prems have "effective_key this pwd \<noteq> k" by auto
    with Cons.prems(1) have "key (snd (ul pwd s)) = Some k" by (auto simp: ul_key ul_result)
    then show ?thesis using Cons.IH Cons.prems(2) L_unlock by simp
  qed
qed

lemma lock_then_locked: "fst (lk pwd s) \<Longrightarrow> key (snd (lk pwd s)) = Some (effective_key this pwd)"
  by (simp add: lk_key)

lemma unlock_after_lock: "fst (lk pwd s) \<Longrightarrow> fst (ul pwd (snd (lk pwd s))) \<and> key (snd (ul pwd (snd (lk pwd s)))) = None"
  by (simp add: ul_result ul_key lk_key)

end

interpretation param_lock: lock_interface "lock this" "unlock this" m_lock_pwd this for this
  by unfold_locales
    (auto simp: lock_def untyped_lock_def unlock_def Let_def effective_key_def split: option.splits)

end
