(* ===== verification/Param_Properties.thy ===== *)
theory Param_Properties
  imports Client_Properties Lock_Interface
begin

text \<open>
  Properties of the operations of a parameter: access control, writing with callbacks, the
  fast paths, the lock, \<open>reset\<close> and the callback lists.
\<close>

section \<open>Writing\<close>

text \<open>
  C3. Access control. A write that is refused - the parameter is immutable, or locked and no
  key is given, or the key is wrong - reports exactly one error and changes nothing else: no
  callback runs, and the value, its origin and the lock stay. It throws the report or, if
  errors are suppressed, returns.
\<close>

theorem refused_write_has_no_effect:
  assumes "params s i = Some p" and "refusal p pwd = Some m"
  shows "set_raw_value E run n i v pwd og s =
    (if suppressed E then Ret () else Exc (Sc_report (set_param_report m)),
     s\<lparr>reports := reports s @ [set_param_report m]\<rparr>)"
  using set_raw_value_refused [OF assms, of E run n v og] by (simp add: set_param_failed_run prod_eq_iff)

definition ex_locked :: "(int, int) world" where
  "ex_locked = map_param 1 (\<lambda>p. snd (lock 1 (Some 99) p)) ex_world"

lemma ex_locked_param: "params ex_locked 1 = Some (ex_param\<lparr>m_lock_pwd := Some 99\<rparr>)"
  by (simp add: ex_locked_def lock_def untyped_lock_def ex_param_def fresh_param_def)

theorem refused_write_has_no_effect_witness:
  "\<forall>run. set_raw_value (ex_env False) run 0 1 8 (Some 98) ex_other ex_locked
     = (Ret (), ex_locked\<lparr>reports := reports ex_locked @ [set_param_report ''Wrong key.'']\<rparr>)
   \<and> set_raw_value (ex_env True) run 0 1 8 None ex_other ex_locked
     = (Exc (Sc_report (set_param_report ''Parameter locked.'')),
        ex_locked\<lparr>reports := reports ex_locked @ [set_param_report ''Parameter locked.'']\<rparr>)"
proof
  fix run
  show "set_raw_value (ex_env False) run 0 1 8 (Some 98) ex_other ex_locked
      = (Ret (), ex_locked\<lparr>reports := reports ex_locked @ [set_param_report ''Wrong key.'']\<rparr>)
    \<and> set_raw_value (ex_env True) run 0 1 8 None ex_other ex_locked
      = (Exc (Sc_report (set_param_report ''Parameter locked.'')),
         ex_locked\<lparr>reports := reports ex_locked @ [set_param_report ''Parameter locked.'']\<rparr>)"
    using refused_write_has_no_effect [OF ex_locked_param, of "Some 98" "''Wrong key.''" "ex_env False" run 0 8 ex_other]
      refused_write_has_no_effect [OF ex_locked_param, of None "''Parameter locked.''" "ex_env True" run 0 8 ex_other]
    by (simp add: refusal_def ex_param_def fresh_param_def is_locked_def suppressed_def ex_env_def)
qed

text \<open>
  C2. A write that the access check admits, outside of any other write of the parameter, with
  typed pre-write callbacks that only judge, without post-write callbacks, and with errors suppressed: every
  callback is asked, each rejection is reported, and the value is written if and only if all of them
  accept. Then the value, its origin and the flag of the fast write are updated, and in
  either case nothing else of the parameter changes.
\<close>

theorem write_iff_all_accept:
  assumes ok: "handles_ok s" and p: "params s i = Some p" and adm: "refusal p pwd = None"
    and "judges run verdict" and "suppressed E" and "direct_callbacks p"
    and free: "\<not> oncall (callbacks_of Pre_write p)" "\<not> oncall (callbacks_of Post_write p)"
    and post: "vec (callbacks_of Post_write p) = []"
    and fuel: "length (vec (m_pre_write_callbacks p)) < n"
  shows "\<exists>t. set_raw_value E run n i v pwd og s = (Ret (), t)
    \<and> params t i = Some (if accepts p verdict then update_fast_write E og (write_param v og p) else p)
    \<and> reports t = reports s
        @ replicate (rejections p verdict 0) (set_param_report ''Value rejected by callback.'')"
proof -
  obtain m where n: "n = Suc m" using fuel by (cases n) auto
  let ?p = "set_oncall Pre_write True p"
  let ?s = "map_param i (set_oncall Pre_write True) s"
  have vec: "vec (m_pre_write_callbacks ?p) = vec (m_pre_write_callbacks p)"
    by (simp add: callbacks_of.simps(1) [symmetric] del: callbacks_of.simps)
  have "direct_callbacks ?p" using assms(6) vec by (simp add: direct_callbacks_def set_oncall_def)
  moreover have "handles_ok ?s" using ok by (intro handles_ok_map_param) (simp_all add: set_oncall_def)
  moreover have "params ?s i = Some ?p" using p by simp
  ultimately have loop: "pre_write_loop E run n i v og 0 True ?s =
      (Ret (accepts p verdict),
       ?s\<lparr>next_address := next_address s + length (vec (m_pre_write_callbacks p)),
         reports := reports s @ replicate (rejections p verdict 0) (set_param_report ''Value rejected by callback.'')\<rparr>)"
    using judged_loop [of run verdict E ?p ?s i 0 n v og True] assms(4,5) fuel vec
    by (simp add: accepts_def rejections_def)
  let ?u = "s\<lparr>next_address := next_address s + length (vec (m_pre_write_callbacks p)),
    reports := reports s @ replicate (rejections p verdict 0) (set_param_report ''Value rejected by callback.'')\<rparr>"
  have "map_param i (set_oncall Pre_write False) (?s\<lparr>next_address := na, reports := rs\<rparr>)
      = s\<lparr>next_address := na, reports := rs\<rparr>" for na rs
    using p free by (simp add: map_param_def set_oncall_undo fun_upd_idem)
  then have pre: "pre_write_callback E run n i v og s = (Ret (accepts p verdict), ?u)"
    using p free(1) by (simp add: pre_write_callback_def callbacks_of.simps scoped_true_def guardM_def loop)
  have u: "params ?u i = Some p" using p by simp
  show ?thesis
  proof (cases "accepts p verdict")
    case False
    have "write_with_callbacks E run n i v og s = (Ret (), ?u)"
      by (simp add: write_with_callbacks_def bindM_def pre False)
    then show ?thesis using u set_raw_value_admitted [OF p adm, of E run n v og] False by simp
  next
    case True
    let ?w = "map_param i (write_param v og) ?u"
    have w: "params ?w i = Some (write_param v og p)" using u by simp
    have post': "post_write_callback E run n i (m_value p) v og ?w = (Ret (), ?w)"
      unfolding n using post free by (intro post_write_none [OF w]) (simp_all add: write_param_def)
    have "write_with_callbacks E run n i v og s = upd_param i (update_fast_write E og) ?w"
      by (simp add: write_with_callbacks_def bindM_def pre True p post')
    also have "\<dots> = (Ret (), map_param i (update_fast_write E og) ?w)" using w by simp
    finally show ?thesis
      using p set_raw_value_admitted [OF p adm, of E run n v og] True by simp
  qed
qed

text \<open>A parameter with two pre-write callbacks, of which one rejects.\<close>

definition ex_judge :: "(int, int) invoker" where
  "ex_judge ref ev = retM (cb_object ref = 0)"

definition ex_callback :: "cb_id \<Rightarrow> callback_obj" where
  "ex_callback cb = \<lparr>callback = Some \<lparr>cb_object = cb, cb_signature = Sig_pre_write (Some 0)\<rparr>, cb_originator = ex_other\<rparr>"

definition ex_guarded :: "(int, int) world" where
  "ex_guarded = map_param 1 (map_vec Pre_write (\<lambda>_. [ex_callback 0, ex_callback 1])) ex_world"

lemma ex_guarded_param: "params ex_guarded 1 = Some (map_vec Pre_write (\<lambda>_. [ex_callback 0, ex_callback 1]) ex_param)"
  by (simp add: ex_guarded_def)

lemma ex_guarded_ok: "handles_ok ex_guarded"
  unfolding ex_guarded_def
  by (rule handles_ok_map_param [OF ex_world_handles]) (simp add: map_vec_def)

theorem write_iff_all_accept_witness:
  "\<exists>t. set_raw_value (ex_env False) ex_judge 3 1 8 None ex_other ex_guarded = (Ret (), t)
    \<and> reports t = [set_param_report ''Value rejected by callback.'']"
  using write_iff_all_accept [OF ex_guarded_ok ex_guarded_param, of None ex_judge "\<lambda>ref. cb_object ref = 0" "ex_env False" 3 8 ex_other]
  by (auto simp: refusal_def is_locked_def judges_def ex_judge_def suppressed_def ex_env_def
      direct_callbacks_def accepts_def rejections_def ex_callback_def ex_param_def fresh_param_def
      map_vec_def map_callbacks.simps callbacks_of.simps no_callbacks_def ex_guarded_def)

text \<open>
  A write from within a pre-write callback of the same parameter is denied without a
  report: while the pre-write callbacks run, an admitted write changes nothing at all.
\<close>

lemma nested_write_silently_denied:
  assumes "params s i = Some p" and "refusal p pwd = None" and "oncall (callbacks_of Pre_write p)"
  shows "set_raw_value E run n i v pwd og s = (Ret (), s)"
  using assms
  by (simp add: set_raw_value_admitted write_with_callbacks_def pre_write_callback_def bindM_def
      callbacks_of.simps)

lemma nested_write_silently_denied_witness:
  "set_raw_value (ex_env True) ex_judge 3 1 8 None ex_other (map_param 1 (set_oncall Pre_write True) ex_world)
     = (Ret (), map_param 1 (set_oncall Pre_write True) ex_world)"
  using nested_write_silently_denied [of "map_param 1 (set_oncall Pre_write True) ex_world" 1
      "set_oncall Pre_write True ex_param" None "ex_env True" ex_judge 3 8 ex_other]
  by (simp add: refusal_def is_locked_def set_oncall_def ex_param_def fresh_param_def)

section \<open>The fast paths\<close>

text \<open>
  C21. The fast write is equivalent to the full write: for a parameter whose flag is sound and
  whose last write was by its owner, \<open>set_value\<close>, which takes the fast path, gives the same
  outcome and the same state as the full path of \<open>set_raw_value\<close> without a key.
\<close>

theorem fast_write_equals_full_write:
  assumes p: "params s i = Some p" and fast: "fast_write p" and ok: "fast_ok p"
    and owner: "m_value_origin p = m_originator p"
    and free: "\<not> oncall (callbacks_of Pre_write p)" "\<not> oncall (callbacks_of Post_write p)"
  shows "set_value E run n i v s = set_raw_value E run (Suc m) i v None (m_originator p) s"
proof -
  have quiet: "write_quiet p" using fast ok free by (auto simp: write_quiet_def fast_ok_def)
  have adm: "refusal p None = None" using fast ok by (auto simp: refusal_def fast_ok_def)
  show ?thesis
    using p fast set_raw_value_admitted [OF p adm] write_quiet_writes [OF p quiet]
      fast_write_same [OF fast ok owner, of E v]
    by (simp add: set_value_def map_param_Some)
qed

theorem fast_write_equals_full_write_witness:
  "set_value (ex_env True) ex_judge 0 1 9 ex_after_set
     = set_raw_value (ex_env True) ex_judge 1 1 9 None ex_originator ex_after_set"
  using fast_write_equals_full_write [of ex_after_set 1 "ex_param\<lparr>m_value := 7, fast_write := True\<rparr>" "ex_env True" ex_judge 0 9 0]
  by (simp add: ex_after_set_def ex_param_def fresh_param_def fast_ok_def is_locked_def no_callbacks_def
      callbacks_of.simps)

text \<open>
  The fast read is equivalent to the full read: for a parameter whose flag is sound,
  \<open>get_value\<close> gives the value that \<open>get_raw_value\<close> gives, and the full path changes nothing.
\<close>

lemma fast_read_equals_full_read:
  assumes p: "params s i = Some p" and fast: "fast_read p" and ok: "fast_ok p"
    and free: "\<not> oncall (callbacks_of Pre_read p)" "\<not> oncall (callbacks_of Post_read p)"
  shows "get_value E run n i s = get_raw_value E run (Suc m) i og s"
proof -
  have none: "vec (callbacks_of k p) = [] \<and> \<not> oncall (callbacks_of k p)" if "k \<in> {Pre_read, Post_read}" for k
    using that fast ok free by (auto simp: fast_ok_def)
  have "update_fast_read p = p"
    using none [of Pre_read] none [of Post_read] fast
    by (cases p) (simp add: update_fast_read_def callbacks_of.simps)
  with p have "map_param i update_fast_read s = s" by (simp add: map_param_def fun_upd_idem)
  with get_raw_value_quiet [OF p none] p fast show ?thesis by (simp add: get_value_def)
qed

definition ex_read :: "(int, int) world" where
  "ex_read = map_param 1 update_fast_read ex_world"

lemma fast_read_equals_full_read_witness:
  "get_value (ex_env True) ex_judge 0 1 ex_read = get_raw_value (ex_env True) ex_judge 1 1 ex_other ex_read"
  using fast_read_equals_full_read [of ex_read 1 "update_fast_read ex_param" "ex_env True" ex_judge 0 0 ex_other]
  by (simp add: ex_read_def update_fast_read_def ex_param_def fresh_param_def fast_ok_def is_locked_def
      no_callbacks_def callbacks_of.simps)

section \<open>The lock\<close>

text \<open>
  C22. Only the holder of the key unlocks. After a successful lock with a key, and after any
  further calls of \<open>lock\<close> and \<open>unlock\<close> of which no unlock uses that key, the parameter is
  locked with that key still, an unlock with another key fails, and a lock with another key
  fails. A call without a key uses the address of the parameter as its key, and that key is no weaker
  than others: in this the code departs from the documentation of \<open>lock\<close> (cci_param_untyped.h:485), by
  which a parameter that was locked without a key can be locked anew with a given one. The code
  refuses that, as the last conjunct says when \<open>pwd\<close> is \<open>None\<close>.
\<close>

theorem lock_exclusive:
  assumes "fst (lock this pwd p)"
    and "\<forall>pwd'. L_unlock pwd' \<in> set cs \<longrightarrow> effective_key this pwd' \<noteq> effective_key this pwd"
    and "effective_key this other \<noteq> effective_key this pwd"
  shows "m_lock_pwd (run_locks (lock this) (unlock this) cs (snd (lock this pwd p))) = Some (effective_key this pwd)
    \<and> \<not> fst (unlock this other (run_locks (lock this) (unlock this) cs (snd (lock this pwd p))))
    \<and> \<not> fst (lock this other (run_locks (lock this) (unlock this) cs (snd (lock this pwd p))))"
  using param_lock.holder_keeps_lock [OF param_lock.lock_then_locked [OF assms(1)] assms(2)] assms(3)
  by (simp add: param_lock.ul_result param_lock.lk_result)

theorem lock_exclusive_witness:
  "\<not> fst (unlock 1 None (run_locks (lock 1) (unlock 1) [L_lock (Some 5), L_unlock (Some 5), L_lock (Some 4)]
      (snd (lock 1 (Some 4) ex_param))))"
  using lock_exclusive [of 1 "Some 4" ex_param "[L_lock (Some 5), L_unlock (Some 5), L_lock (Some 4)]" None]
  by (simp add: lock_def untyped_lock_def ex_param_def fresh_param_def effective_key_def)

text \<open>
  A parameter locked without a key is locked with its own key: a lock with a key given
  fails and leaves it unchanged in that respect, although the documentation of \<open>lock\<close> says that
  the parameter is then locked with the given key.
\<close>

lemma relock_with_key_fails:
  assumes "m_lock_pwd p = Some this" and "k \<noteq> this"
  shows "\<not> fst (lock this (Some k) p) \<and> m_lock_pwd (snd (lock this (Some k) p)) = Some this"
  using assms by (simp add: lock_def untyped_lock_def)

lemma relock_with_key_fails_witness:
  "\<not> fst (lock 1 (Some 4) (snd (lock 1 None ex_param)))"
  using relock_with_key_fails [of "snd (lock 1 None ex_param)" 1 4]
  by (simp add: lock_def untyped_lock_def ex_param_def fresh_param_def)

section \<open>Callback lists\<close>

text \<open>
  Registering and unregistering. A callback that was registered can be unregistered with
  the same originator; the unregistration removes one entry, the first that matches, and
  keeps the order of the others and the other three lists.
\<close>

lemma unregister_removes_first_match:
  assumes "fst (untyped_unregister_callback E k cb og p)"
  shows "\<exists>us it vs. vec (callbacks_of k p) = us @ it # vs \<and> same_callback E cb og it
    \<and> (\<forall>u \<in> set us. \<not> same_callback E cb og u)
    \<and> vec (callbacks_of k (snd (untyped_unregister_callback E k cb og p))) = us @ vs
    \<and> (\<forall>j. j \<noteq> k \<longrightarrow> vec (callbacks_of j (snd (untyped_unregister_callback E k cb og p))) = vec (callbacks_of j p))"
proof -
  have others: "vec (callbacks_of j (snd (untyped_unregister_callback E k cb og p))) = vec (callbacks_of j p)"
    if "j \<noteq> k" for j
    using that by (simp add: untyped_unregister_callback_def)
  show ?thesis
    using param_cbs.unreg_removes_one [OF assms] others by blast
qed

definition ex_handle :: "cb_id \<Rightarrow> cci_callback_untyped_handle" where
  "ex_handle cb = Some \<lparr>cb_object = cb, cb_signature = Sig_read None\<rparr>"

lemma unregister_removes_first_match_witness:
  "\<exists>us it vs. vec (callbacks_of Pre_read (untyped_register_callback Pre_read (ex_handle 0) ex_other ex_param)) = us @ it # vs
    \<and> same_callback (ex_env True) (ex_handle 0) ex_other it"
  using unregister_removes_first_match [OF param_cbs.unreg_after_reg
      [of "ex_env True" Pre_read "ex_handle 0" ex_other ex_param]] by blast

text \<open>
  \<open>unregister_all_callbacks\<close> does not unregister all callbacks of an originator: when the
  first one that belongs to it is followed by a second one, the second one stays, because
  the loop increments the iterator after it has erased at it.
\<close>

lemma unregister_all_skips_neighbour:
  assumes "vec (callbacks_of k p) = us @ [a, b] @ vs"
    and "\<forall>u \<in> set us. \<not> same_originator E og u" and "same_originator E og a" and "same_originator E og b"
  shows "b \<in> set (vec (callbacks_of k (snd (untyped_unregister_all_callbacks E og p))))
    \<and> fst (untyped_unregister_all_callbacks E og p)"
  using param_cbs.unreg_all_leaves_neighbour [where E = E and k = k, OF assms(1,2,3)]
    param_cbs.unreg_all_result [where E = E and k = k and s = p and og = og] assms by auto

definition ex_twice :: "(int, int) param" where
  "ex_twice = untyped_register_callback Post_write (ex_handle 1) ex_other
     (untyped_register_callback Post_write (ex_handle 0) ex_other ex_param)"

lemma unregister_all_skips_neighbour_witness:
  "new_callback (ex_handle 1) ex_other
     \<in> set (vec (callbacks_of Post_write (snd (untyped_unregister_all_callbacks (ex_env True) ex_other ex_twice))))"
  using unregister_all_skips_neighbour [of Post_write ex_twice "[]" "new_callback (ex_handle 0) ex_other"
      "new_callback (ex_handle 1) ex_other" "[]" "ex_env True" ex_other]
  by (simp add: ex_twice_def untyped_register_callback_def ex_param_def fresh_param_def callbacks_of.simps
      no_callbacks_def map_vec_def map_callbacks.simps)

text \<open>
  \<open>unregister_all_callbacks\<close> is complete for a list in which no two callbacks of the
  originator are neighbours, and it never removes a callback of another originator.
\<close>

lemma unregister_all_exact:
  assumes "no_neighbours (same_originator E og) (vec (callbacks_of k p))"
  shows "vec (callbacks_of k (snd (untyped_unregister_all_callbacks E og p)))
       = filter (\<lambda>it. \<not> same_originator E og it) (vec (callbacks_of k p))"
  by (rule param_cbs.unreg_all_complete [OF assms])

lemma unregister_all_exact_witness:
  "vec (callbacks_of Post_read (snd (untyped_unregister_all_callbacks (ex_env True) ex_other
      (untyped_register_callback Post_read (ex_handle 0) ex_other ex_param)))) = []"
  using unregister_all_exact [of "ex_env True" ex_other Post_read
      "untyped_register_callback Post_read (ex_handle 0) ex_other ex_param"]
  by (simp add: untyped_register_callback_def ex_param_def fresh_param_def callbacks_of.simps
      no_callbacks_def map_vec_def map_callbacks.simps)

section \<open>Reset\<close>

text \<open>Without write callbacks \<open>preset_cci_value\<close> writes what the value converts to.\<close>

lemma preset_quiet:
  assumes p: "params s i = Some p" and quiet: "write_quiet p" and v: "unpack E (p_type p) x = (True, v)"
  shows "preset_cci_value E run (Suc n) i x og s = (Ret (), map_param i (write_param v og) s)"
proof -
  let ?s = "map_param i (write_param v og) s"
  have pre: "pre_write_callback E run (Suc n) i v og s = (Ret True, s)"
    using quiet by (intro pre_write_none [OF p]) (simp_all add: write_quiet_def)
  have s': "params ?s i = Some (write_param v og p)" using p by simp
  have post: "post_write_callback E run (Suc n) i (m_value p) v og ?s = (Ret (), ?s)"
    using quiet by (intro post_write_none [OF s']) (simp_all add: write_quiet_def write_param_def)
  show ?thesis
    by (simp add: preset_cci_value_def from_cci_value_def v bindM_def pre p post)
qed

text \<open>The broker of a parameter answers for its name: it does not pass the name on.\<close>

definition own_broker :: "('v, 'j) world \<Rightarrow> ('v, 'j) param \<Rightarrow> 'j broker \<Rightarrow> bool" where
  "own_broker s p r \<longleftrightarrow> brokers s (m_broker (m_broker_handle p)) = Some r
     \<and> \<not> (b_forwarding r \<and> sendToParent (param_name p) r)"

lemma own_broker_queries:
  assumes "own_broker s p r"
  shows "has_preset_value (Suc n) (m_broker (m_broker_handle p)) (param_name p) s
      = (Ret (consuming_has_preset_value (param_name p) r), s)"
    and "get_preset_cci_value E (Suc n) (m_broker (m_broker_handle p)) (param_name p) s
      = (Ret (consuming_get_preset_cci_value E (param_name p) r), s)"
    and "get_preset_value_origin (m_broker (m_broker_handle p)) (param_name p) s
      = (Ret (consuming_get_preset_value_origin (param_name p) r), s)"
  using assms
  by (auto simp: own_broker_def has_preset_value_def get_preset_cci_value_def get_preset_value_origin_def)

lemma reset_preset:
  assumes p: "params s i = Some p" and "\<not> is_locked p" and "write_quiet p" and own: "own_broker s p r"
    and "consuming_has_preset_value (param_name p) r"
    and "unpack E (p_type p) (consuming_get_preset_cci_value E (param_name p) r) = (True, v)"
  shows "reset E run (Suc n) i s =
    (Ret True, map_param i (write_param v (consuming_get_preset_value_origin (param_name p) r)) s)"
  using assms own_broker_queries(1) [OF own, of n] own_broker_queries(2) [OF own, of E n]
    own_broker_queries(3) [OF own] preset_quiet [OF p assms(3,6), of run n]
  by (simp add: reset_def Let_def bindM_def)


definition ex_preset :: "(int, int) world" where
  "ex_preset = map_broker 0 (store_preset ''p'' 12 ex_other) ex_after_set"

lemma ex_preset_own:
  "own_broker ex_preset (ex_param\<lparr>m_value := 7, fast_write := True\<rparr>) (store_preset ''p'' 12 ex_other ex_broker)"
  by (simp add: own_broker_def ex_preset_def ex_param_def fresh_param_def ex_broker_handle_def
      ex_broker_def empty_broker_def ex_after_set_def store_preset_def map_insert_def)

lemma ex_preset_param: "params ex_preset 1 = Some (ex_param\<lparr>m_value := 7, fast_write := True\<rparr>)"
  by (simp add: ex_preset_def ex_after_set_def)

lemma ex_param_name [simp]: "param_name (ex_param\<lparr>m_value := v, fast_write := b\<rparr>) = ''p''"
  by (simp add: param_name_def ex_param_def fresh_param_def c_str_def)

lemma ex_param_quiet: "write_quiet (ex_param\<lparr>m_value := v, fast_write := b\<rparr>)"
  by (simp add: write_quiet_def ex_param_def fresh_param_def no_callbacks_def callbacks_of.simps)

lemma ex_unpack: "0 \<le> x \<Longrightarrow> unpack (ex_env b) T x = (True, x)"
  by (simp add: ex_env_def)


text \<open>
  The fast write forgets the origin. If the owner has written a parameter, so that the
  fast write is on, and a reset then applies a preset value of somebody else, the next write
  by the owner still takes the fast path: the value is the owner's, but the parameter names
  the origin of the preset as the origin of its value.
\<close>

lemma owner_write_after_reset_keeps_preset_origin:
  assumes p: "params s i = Some p" and fast: "fast_write p" and ok: "fast_ok p"
    and free: "\<not> oncall (callbacks_of Pre_write p)" "\<not> oncall (callbacks_of Post_write p)"
    and own: "own_broker s p r" and has: "consuming_has_preset_value (param_name p) r"
    and conv: "unpack E (p_type p) (consuming_get_preset_cci_value E (param_name p) r) = (True, v)"
  shows "\<exists>t u q. reset E run (Suc n) i s = (Ret True, t) \<and> set_value E run (Suc n) i w t = (Ret (), u)
    \<and> params u i = Some q \<and> m_value q = w
    \<and> get_value_origin q = consuming_get_preset_value_origin (param_name p) r"
proof -
  have quiet: "write_quiet p" and unlocked: "\<not> is_locked p"
    using fast ok free by (auto simp: write_quiet_def fast_ok_def)
  let ?og = "consuming_get_preset_value_origin (param_name p) r"
  have "set_value E run (Suc n) i w (map_param i (write_param v ?og) s)
      = (Ret (), map_param i (\<lambda>p. p\<lparr>m_value := w\<rparr>) (map_param i (write_param v ?og) s))"
    using p fast by (simp add: set_value_def write_param_def)
  with reset_preset [OF p unlocked quiet own has conv, of run n] p show ?thesis
    by (simp add: write_param_def get_value_origin_def)
qed

lemma owner_write_after_reset_keeps_preset_origin_witness:
  "\<exists>t u q. reset (ex_env True) ex_judge 1 1 ex_preset = (Ret True, t)
    \<and> set_value (ex_env True) ex_judge 1 1 20 t = (Ret (), u)
    \<and> params u 1 = Some q \<and> m_value q = 20 \<and> get_value_origin q = ex_other \<and> m_originator q \<noteq> ex_other"
proof -
  have "fast_ok (ex_param\<lparr>m_value := 7, fast_write := True\<rparr>)"
    by (simp add: fast_ok_def ex_param_def fresh_param_def is_locked_def no_callbacks_def callbacks_of.simps)
  moreover have unlocked: "\<not> is_locked (ex_param\<lparr>m_value := 7, fast_write := True\<rparr>)"
    by (simp add: is_locked_def ex_param_def fresh_param_def)
  ultimately obtain t u q where *: "reset (ex_env True) ex_judge 1 1 ex_preset = (Ret True, t)"
    "set_value (ex_env True) ex_judge 1 1 20 t = (Ret (), u)" "params u 1 = Some q" "m_value q = 20"
    "get_value_origin q = ex_other"
    using owner_write_after_reset_keeps_preset_origin [OF ex_preset_param _ _ _ _ ex_preset_own, of "ex_env True" 12 ex_judge 0 20]
      ex_param_quiet [of True 7]
    by (auto simp: ex_unpack write_quiet_def)
  have t: "t = map_param 1 (write_param 12 ex_other) ex_preset"
    using *(1) reset_preset [OF ex_preset_param unlocked ex_param_quiet ex_preset_own, of "ex_env True" 12 ex_judge 0]
    by (simp add: ex_unpack)
  with *(2,3) have "m_originator q = ex_originator"
    by (auto simp: set_value_def ex_preset_def ex_after_set_def ex_param_def fresh_param_def write_param_def)
  with * show ?thesis by (auto simp: ex_originator_def ex_other_def)
qed

end
