(* ===== verification/Broker_Protocol.thy ===== *)
theory Broker_Protocol
  imports World_Invariants
begin

text \<open>
  What a client can do to a broker. \<open>broker_history Q\<close> says that every broker of the second state
  which is not new was there in the first, and \<open>Q\<close> relates its two records. The locale \<open>broker_protocol\<close>
  asks of \<open>Q\<close> only that it holds across the steps of one broker; it is a \<open>client_relation\<close>
  then, and the interpretation is on what the lock of preset values promises.
\<close>

section \<open>Histories of brokers\<close>

definition broker_history :: "('j broker \<Rightarrow> 'j broker \<Rightarrow> bool) \<Rightarrow> ('v, 'j) world
    \<Rightarrow> ('v, 'j) world \<Rightarrow> bool" where
  "broker_history Q s t \<longleftrightarrow>
     (fresh s \<longrightarrow> fresh t \<and> next_address s \<le> next_address t \<and>
       (\<forall>b < next_address s. \<forall>q. brokers t b = Some q \<longrightarrow> (\<exists>p. brokers s b = Some p \<and> Q p q)))"

lemma broker_historyD:
  "broker_history Q s t \<Longrightarrow> fresh s \<Longrightarrow> brokers s b = Some p \<Longrightarrow> brokers t b = Some q \<Longrightarrow> Q p q"
  unfolding broker_history_def fresh_def by (metis not_le option.distinct(1) option.inject)

locale broker_protocol =
  fixes E :: "('v, 'j) env" and Q :: "'j broker \<Rightarrow> 'j broker \<Rightarrow> bool"
  assumes bQ_refl: "Q r r"
    and bQ_trans: "Q p q \<Longrightarrow> Q q r \<Longrightarrow> Q p r"
    and bQ_step: "broker_step E p q \<Longrightarrow> Q p q"
begin

lemma bhistory_trans:
  assumes "broker_history Q s t" and "broker_history Q t u"
  shows "broker_history Q s u"
  unfolding broker_history_def
proof (intro impI conjI allI)
  assume "fresh s"
  with assms show "fresh u" and "next_address s \<le> next_address u"
    by (auto simp: broker_history_def)
  fix b r
  assume b: "b < next_address s" and r: "brokers u b = Some r"
  from \<open>fresh s\<close> assms b r obtain q where "brokers t b = Some q" and "Q q r"
    unfolding broker_history_def by (meson less_le_trans)
  moreover from \<open>fresh s\<close> assms(1) b \<open>brokers t b = Some q\<close> obtain p where
    "brokers s b = Some p" and "Q p q" unfolding broker_history_def by blast
  ultimately show "\<exists>p. brokers s b = Some p \<and> Q p r" by (blast intro: bQ_trans)
qed

lemma bhistory_frame:
  assumes "brokers t = brokers s" and "fresh s \<Longrightarrow> fresh t" and "next_address s \<le> next_address t"
  shows "broker_history Q s t"
  using assms by (auto simp: broker_history_def bQ_refl)

lemma bhistory_map_param: "broker_history Q s (map_param i f s)"
  by (rule bhistory_frame) simp_all

lemma bhistory_detach: "broker_history Q s (detach_handle h s)"
  by (rule bhistory_frame) (simp_all add: fresh_detach)

lemma bhistory_attach:
  "(fresh s \<Longrightarrow> h < next_address s) \<Longrightarrow> broker_history Q s (attach_handle h io og s)"
  by (rule bhistory_frame) (simp_all add: fresh_attach)

end

sublocale broker_protocol \<subseteq> client_relation "broker_history Q" E
proof
  fix s t u :: "('v, 'j) world"
  show "broker_history Q s s" by (rule bhistory_frame) simp_all
  show "broker_history Q s t \<Longrightarrow> broker_history Q t u \<Longrightarrow> broker_history Q s u"
    by (rule bhistory_trans)
  show "broker_history Q s (s\<lparr>reports := reports s @ [rp]\<rparr>)" for rp
    by (rule bhistory_frame) (simp_all add: fresh_def)
  show "broker_history Q s (s\<lparr>sc_names := ns\<rparr>)" for ns
    by (rule bhistory_frame) (simp_all add: fresh_def)
  show "broker_history Q s (s\<lparr>m_brokers := (m_brokers s)(ob \<mapsto> b)\<rparr>)" for ob b
    by (rule bhistory_frame) (simp_all add: fresh_def)
  show "broker_history Q s (map_param i f s)" for i f
    by (rule bhistory_map_param)
  show "broker_history Q s (map_param i (set_oncall k False) t)"
    if "broker_history Q (map_param i (set_oncall k True) s) t" for i k
    by (rule bhistory_trans [OF bhistory_map_param bhistory_trans [OF that bhistory_map_param]])
  show "broker_history Q s (map_broker b g s)" if "brokers s b = Some r" "broker_step E r (g r)" for b r g
    using that bQ_step by (auto simp: broker_history_def fresh_def bQ_refl)
  show "broker_history Q s (new_handle io og s)" for io og
  proof -
    let ?s = "s\<lparr>next_address := Suc (next_address s)\<rparr>"
    have "broker_history Q s ?s" by (rule bhistory_frame) (simp_all add: fresh_def)
    moreover have "broker_history Q ?s (attach_handle (next_address s) io og ?s)"
      by (rule bhistory_attach) simp
    ultimately show ?thesis unfolding new_handle_def by (rule bhistory_trans)
  qed
  show "broker_history Q s (attach_handle h io og (detach_handle h s))" if "handles s h \<noteq> None" for h io og
  proof (cases "fresh s")
    case True
    with that have "h < next_address (detach_handle h s)" by (auto simp: fresh_def not_less [symmetric])
    then show ?thesis by (intro bhistory_trans [OF bhistory_detach bhistory_attach])
  qed (simp add: broker_history_def)
  show "broker_history Q s (detach_handle h s)" for h by (rule bhistory_detach)
  show "broker_history Q s (destroy_handle h s)" for h
    unfolding destroy_handle_def
    by (rule bhistory_trans [OF bhistory_detach], rule bhistory_frame)
      (auto simp: forget_handle_def fresh_def)
  show "broker_history Q s (install_param (fresh_param nm desc bh og T TM v) s)" for nm desc bh og T TM v
    by (rule bhistory_frame) (auto simp: install_param_def fresh_def)
  show "broker_history Q s (forget_param i s)" for i
    by (rule bhistory_frame) (auto simp: forget_param_def fresh_def)
  show "broker_history Q s (install_broker
      ((empty_broker nm)\<lparr>b_forwarding := fwd, has_parent := has, m_parent := parent\<rparr>) s)"
    for nm fwd has parent
    by (auto simp: broker_history_def install_broker_def fresh_def bQ_refl)
  show "broker_history Q s (forget_broker b s)" for b
    by (auto simp: broker_history_def forget_broker_def fresh_def bQ_refl)
qed

section \<open>What the lock of preset values promises\<close>

text \<open>
  A lock of a preset value is never taken back, and the preset value of a locked name, whether
  there is one and who gave it do not change. The place of a broker in the hierarchy does not
  change, and an exposed name stays exposed.
\<close>

definition preset_answers :: "('v, 'j) env \<Rightarrow> string \<Rightarrow> 'j broker \<Rightarrow> 'j \<times> bool \<times> originator" where
  "preset_answers E nm r =
     (consuming_get_preset_cci_value E nm r, consuming_has_preset_value nm r,
      consuming_get_preset_value_origin nm r)"

definition preset_locks :: "('v, 'j) env \<Rightarrow> 'j broker \<Rightarrow> 'j broker \<Rightarrow> bool" where
  "preset_locks E r r' \<longleftrightarrow>
     (broker_inv r \<longrightarrow> broker_inv r' \<and> locked r \<subseteq> locked r' \<and> expose r \<subseteq> expose r'
        \<and> b_forwarding r' = b_forwarding r \<and> has_parent r' = has_parent r \<and> m_parent r' = m_parent r
        \<and> (\<forall>nm \<in> locked r.
             preset_answers E nm r' = preset_answers E nm r))"

lemma preset_fields [simp]:
  "locked (use_preset nm r) = locked r" "locked (unuse_preset nm r) = locked r"
  "locked (store_preset nm x og r) = locked r" "expose (use_preset nm r) = expose r"
  "expose (unuse_preset nm r) = expose r" "expose (store_preset nm x og r) = expose r"
  "m_preset_value_originator_map (use_preset nm r) = m_preset_value_originator_map r"
  "m_preset_value_originator_map (unuse_preset nm r) = m_preset_value_originator_map r"
  by (auto simp: use_preset_def unuse_preset_def store_preset_def Let_def split: option.splits)

lemmas preset_query_defs = consuming_get_preset_cci_value_def consuming_has_preset_value_def
  consuming_get_preset_value_origin_def

lemma preset_answers_cong:
  "m_used_value_registry r' = m_used_value_registry r \<Longrightarrow>
   m_unused_value_registry r' = m_unused_value_registry r \<Longrightarrow>
   m_preset_value_originator_map r' = m_preset_value_originator_map r \<Longrightarrow>
   preset_answers E nm r' = preset_answers E nm r"
  by (simp add: preset_answers_def preset_query_defs cong: option.case_cong)

text \<open>The steps that do not touch the presets.\<close>

lemmas other_broker_steps = consuming_lock_preset_value_def ignore_unconsumed_preset_values_def
  register_create_callback_def unregister_create_callback_def register_destroy_callback_def
  unregister_destroy_callback_def broker_unregister_all_callbacks_def register_param_def
  unregister_param_def expose_name_def

lemma preset_locks_step:
  assumes "broker_step E r r'"
  shows "preset_locks E r r'"
  unfolding preset_locks_def
proof
  assume ok: "broker_inv r"
  have "broker_inv r'" and "b_forwarding r' = b_forwarding r \<and> has_parent r' = has_parent r \<and> m_parent r' = m_parent r"
    using broker_step_inv [OF assms ok] broker_step_place [OF assms] by simp_all
  moreover have "locked r \<subseteq> locked r' \<and> expose r \<subseteq> expose r'"
    using assms by cases (auto simp: other_broker_steps)
  moreover have "preset_answers E nm r' = preset_answers E nm r" if nm: "nm \<in> locked r" for nm
    using assms
  proof cases
    case (presetting nm' x og)
    then show ?thesis using nm by (auto simp: preset_answers_def)
  next
    case (preset_used nm')
    then show ?thesis using use_preset_same [OF ok] by (simp add: preset_answers_def consuming_get_preset_value_origin_def)
  next
    case (preset_unused nm')
    then show ?thesis using unuse_preset_same [OF ok] by (simp add: preset_answers_def consuming_get_preset_value_origin_def)
  qed (auto intro!: preset_answers_cong simp: other_broker_steps)
  ultimately show "broker_inv r' \<and> locked r \<subseteq> locked r' \<and> expose r \<subseteq> expose r'
      \<and> b_forwarding r' = b_forwarding r \<and> has_parent r' = has_parent r \<and> m_parent r' = m_parent r
      \<and> (\<forall>nm \<in> locked r. preset_answers E nm r' = preset_answers E nm r)"
    by blast
qed

lemma preset_locks_trans:
  assumes "preset_locks E p q" and "preset_locks E q r"
  shows "preset_locks E p r"
  unfolding preset_locks_def
proof (intro impI conjI ballI)
  assume p: "broker_inv p"
  with assms(1) have q: "broker_inv q" by (simp add: preset_locks_def)
  note pq = assms(1) [unfolded preset_locks_def, rule_format, OF p]
    and qr = assms(2) [unfolded preset_locks_def, rule_format, OF q]
  show "broker_inv r" "b_forwarding r = b_forwarding p" "has_parent r = has_parent p" "m_parent r = m_parent p"
    "locked p \<subseteq> locked r" "expose p \<subseteq> expose r"
    using pq qr by auto
  show "preset_answers E nm r = preset_answers E nm p" if "nm \<in> locked p" for nm
    using pq qr that by (metis subsetD)
qed

interpretation preset_lock: broker_protocol E "preset_locks E" for E :: "('v, 'j) env"
proof
  show "preset_locks E r r" for r :: "'j broker" by (simp add: preset_locks_def)
  show "preset_locks E p q \<Longrightarrow> preset_locks E q r \<Longrightarrow> preset_locks E p r" for p q r :: "'j broker"
    by (rule preset_locks_trans)
  show "broker_step E p q \<Longrightarrow> preset_locks E p q" for p q :: "'j broker"
    by (rule preset_locks_step)
qed

end
