(* ===== verification/Broker_Properties.thy ===== *)
theory Broker_Properties
  imports Param_Properties Broker_Protocol
begin

text \<open>
  Properties of the brokers: preset values through the hierarchy, their locks, the unconsumed
  ones, the life of a preset value while parameters come and go, the registries of brokers
  and of names.
\<close>

section \<open>Which broker answers\<close>

lemma resolve_stops:
  "resolve n b nm s = (Ret c, t) \<Longrightarrow> \<exists>r. brokers s c = Some r \<and> \<not> (b_forwarding r \<and> sendToParent nm r)"
  by (induction n arbitrary: b)
    (auto simp: bindM_eq_Ret the_broker_def split: option.splits if_splits prod.splits)

lemma forward_at: "resolve n b nm s = (Ret c, s) \<Longrightarrow> forward n b nm op s = op c s"
  by (simp add: forward_resolve bindM_def)

text \<open>
  C38. Following the exposed names ends. In a state with well-formed brokers an operation on a
  name, given more fuel than the address of the broker, is carried out by exactly one broker:
  one that was built not after the broker that was asked, and that does not pass the name on.
\<close>

theorem forwarding_reaches_one_broker:
  fixes s :: "('v, 'j) world"
  assumes "brokers_ok s" and "brokers s b \<noteq> None" and "b < n"
  shows "\<exists>c r. c \<le> b \<and> brokers s c = Some r \<and> \<not> (b_forwarding r \<and> sendToParent nm r)
    \<and> (\<forall>op :: bid \<Rightarrow> ('v, 'j, 'a) cci. forward n b nm op s = op c s)"
proof -
  have "parents_below s" using assms(1) by (simp add: brokers_ok_def)
  from resolve_total [OF this assms(2,3), of nm] obtain c where
    c: "resolve n b nm s = (Ret c, s)" "c \<le> b" by blast
  from resolve_stops [OF c(1)] obtain r where "brokers s c = Some r" "\<not> (b_forwarding r \<and> sendToParent nm r)"
    by blast
  with c forward_at [OF c(1)] show ?thesis by blast
qed

text \<open>A broker of a submodule, at address 2, that exposes one name to the global broker.\<close>

definition ex_child :: "int broker" where
  "ex_child = (empty_broker ''sub'')\<lparr>b_forwarding := True, has_parent := True, m_parent := 0, expose := {''q''}\<rparr>"

definition ex_tree :: "(int, int) world" where
  "ex_tree = ex_world\<lparr>brokers := (brokers ex_world)(2 \<mapsto> ex_child), next_address := 3\<rparr>"

lemma ex_tree_simps [simp]:
  "brokers ex_tree 0 = Some ex_broker" "brokers ex_tree 2 = Some ex_child" "params ex_tree = params ex_world"
  "reports ex_tree = []"
  by (simp_all add: ex_tree_def)

lemma ex_tree_brokers: "brokers_ok ex_tree"
  using ex_world_brokers
  by (auto simp: brokers_ok_def parents_below_def fresh_def ex_tree_def ex_child_def empty_broker_def
      broker_inv_def ex_world_def)

lemma ex_tree_fields:
  "m_parent ex_child = 0" "locked ex_broker = {}" "m_preset_value_originator_map ex_child = []"
  by (simp_all add: ex_child_def ex_broker_def empty_broker_def)

lemma ex_child_sends: "b_forwarding ex_child \<and> sendToParent ''q'' ex_child"
  by (simp add: sendToParent_def is_global_broker_def ex_child_def empty_broker_def)

lemma ex_broker_keeps: "\<not> b_forwarding ex_broker"
  by (simp add: ex_broker_def empty_broker_def)

theorem forwarding_reaches_one_broker_witness:
  "\<exists>c \<le> 2. has_preset_value 3 2 ''q'' ex_tree = read_broker c (consuming_has_preset_value ''q'') ex_tree"
  using forwarding_reaches_one_broker [of ex_tree 2 3 "''q''"] ex_tree_brokers
  by (auto simp: has_preset_value_def)

section \<open>Preset values\<close>

lemma set_preset_at:
  assumes c: "resolve n b nm s = (Ret c, s)" and r: "brokers s c = Some r"
  shows "set_preset_cci_value E n b nm x og s =
    (if nm \<in> locked r then set_param_failed E ''Setting preset value failed (parameter locked).'' s
     else (Ret (), map_broker c (store_preset nm x og) s))"
  using r by (simp add: set_preset_cci_value_def forward_at [OF c] consuming_set_preset_cci_value_def)

lemma store_preset_place [simp]:
  "b_forwarding (store_preset nm x og r) = b_forwarding r" "has_parent (store_preset nm x og r) = has_parent r"
  "m_parent (store_preset nm x og r) = m_parent r"
  by (auto simp: store_preset_def Let_def split: option.splits)

lemma resolve_after_store:
  assumes "resolve n b nm s = (Ret c, s)"
  shows "resolve n b nm (map_broker d (store_preset nm' x og) s) = (Ret c, map_broker d (store_preset nm' x og) s)"
proof -
  let ?t = "map_broker d (store_preset nm' x og) s"
  have "fst (resolve n b nm ?t) = fst (resolve n b nm s)"
    by (rule resolve_cong) (simp add: option.map_comp comp_def)
  with assms resolve_state [of n b nm ?t] show ?thesis by (simp add: prod_eq_iff)
qed

lemma forward_after_store:
  assumes "resolve n b nm s = (Ret c, s)"
  shows "forward n b nm op (map_broker d (store_preset nm' x og) s) = op c (map_broker d (store_preset nm' x og) s)"
  by (rule forward_at [OF resolve_after_store [OF assms]])

lemma set_preset_done:
  assumes ok: "brokers_ok s" and c: "resolve n b nm s = (Ret c, s)" and r: "brokers s c = Some r"
    and free: "nm \<notin> locked r"
  shows "\<exists>t. set_preset_cci_value E n b nm x og s = (Ret (), t)
    \<and> get_preset_cci_value E n b nm t = (Ret x, t) \<and> has_preset_value n b nm t = (Ret True, t)
    \<and> (\<forall>d nm'. brokers s d \<noteq> None \<longrightarrow> d < n \<longrightarrow> nm' \<noteq> nm \<longrightarrow>
         fst (get_preset_cci_value E n d nm' t) = fst (get_preset_cci_value E n d nm' s)
         \<and> fst (has_preset_value n d nm' t) = fst (has_preset_value n d nm' s))
    \<and> brokers_ok t \<and> (\<forall>c. brokers t c = None \<longleftrightarrow> brokers s c = None)
    \<and> (\<forall>c r. brokers t c = Some r \<longrightarrow> (\<exists>q. brokers s c = Some q \<and> locked r = locked q))"
proof -
  have parents: "parents_below s" using ok by (simp add: brokers_ok_def)
  let ?t = "map_broker c (store_preset nm x og) s"
  have set: "set_preset_cci_value E n b nm x og s = (Ret (), ?t)"
    using set_preset_at [OF c r] free by simp
  have get: "get_preset_cci_value E n b nm ?t = (Ret x, ?t)" "has_preset_value n b nm ?t = (Ret True, ?t)"
    using r
    by (simp_all add: get_preset_cci_value_def has_preset_value_def forward_after_store [OF c])
  have others: "fst (get_preset_cci_value E n d nm' ?t) = fst (get_preset_cci_value E n d nm' s)
      \<and> fst (has_preset_value n d nm' ?t) = fst (has_preset_value n d nm' s)"
    if "brokers s d \<noteq> None" "d < n" "nm' \<noteq> nm" for d nm'
  proof -
    from resolve_total [OF parents that(1,2), of nm'] obtain e where
      e: "resolve n d nm' s = (Ret e, s)" "brokers s e \<noteq> None" by blast
    then obtain q where "brokers s e = Some q" by blast
    with that(3) r show ?thesis
      by (cases "e = c")
        (simp_all add: get_preset_cci_value_def has_preset_value_def forward_at [OF e(1)]
          forward_after_store [OF e(1)])
  qed
  have "brokers_ok ?t"
    using free by (intro brokers_ok_map_broker [OF ok r] broker_step.presetting)
  moreover have "brokers ?t d = None \<longleftrightarrow> brokers s d = None" for d
    by simp
  moreover have "\<exists>q. brokers s d = Some q \<and> locked r' = locked q" if "brokers ?t d = Some r'" for d r'
    using that by (auto split: if_splits)
  ultimately show ?thesis using set get others by blast
qed

lemma set_preset_run:
  assumes ok: "brokers_ok s" and b: "brokers s b \<noteq> None" and n: "b < n"
    and free: "\<forall>c r. brokers s c = Some r \<longrightarrow> nm \<notin> locked r"
  shows "\<exists>t. set_preset_cci_value E n b nm x og s = (Ret (), t)
    \<and> get_preset_cci_value E n b nm t = (Ret x, t) \<and> has_preset_value n b nm t = (Ret True, t)
    \<and> (\<forall>d nm'. brokers s d \<noteq> None \<longrightarrow> d < n \<longrightarrow> nm' \<noteq> nm \<longrightarrow>
         fst (get_preset_cci_value E n d nm' t) = fst (get_preset_cci_value E n d nm' s)
         \<and> fst (has_preset_value n d nm' t) = fst (has_preset_value n d nm' s))
    \<and> brokers_ok t \<and> (\<forall>c. brokers t c = None \<longleftrightarrow> brokers s c = None)
    \<and> (\<forall>c r. brokers t c = Some r \<longrightarrow> (\<exists>q. brokers s c = Some q \<and> locked r = locked q))"
proof -
  from resolve_total [OF _ b n, of nm] ok obtain c r where
    "resolve n b nm s = (Ret c, s)" "brokers s c = Some r" by (auto simp: brokers_ok_def)
  with free show ?thesis by (intro set_preset_done [OF ok]) blast+
qed

text \<open>
  C14. A preset value is read back through the same broker, whichever broker of the hierarchy keeps the
  name. That broker, which does not pass the name on, exists. If it has not locked the name then
  \<open>set_preset_cci_value\<close> returns, the name has a preset value, it is the one given, and the answers
  for all other names are as before, through every broker. If it has, then the call fails, and
  returns without having stored anything where errors are not thrown.
\<close>

theorem preset_value_roundtrip:
  assumes ok: "brokers_ok s" and b: "brokers s b \<noteq> None" and n: "b < n"
  shows "\<exists>c r. resolve n b nm s = (Ret c, s) \<and> brokers s c = Some r \<and> \<not> (b_forwarding r \<and> sendToParent nm r)
    \<and> (if nm \<in> locked r
        then set_preset_cci_value E n b nm x og s
          = set_param_failed E ''Setting preset value failed (parameter locked).'' s
        else (\<exists>t. set_preset_cci_value E n b nm x og s = (Ret (), t)
          \<and> get_preset_cci_value E n b nm t = (Ret x, t) \<and> has_preset_value n b nm t = (Ret True, t)
          \<and> (\<forall>d nm'. brokers s d \<noteq> None \<longrightarrow> d < n \<longrightarrow> nm' \<noteq> nm \<longrightarrow>
               fst (get_preset_cci_value E n d nm' t) = fst (get_preset_cci_value E n d nm' s)
               \<and> fst (has_preset_value n d nm' t) = fst (has_preset_value n d nm' s))))"
proof -
  from resolve_total [OF _ b n, of nm] ok obtain c r where
    c: "resolve n b nm s = (Ret c, s)" and r: "brokers s c = Some r" by (auto simp: brokers_ok_def)
  from resolve_stops [OF c] r have "\<not> (b_forwarding r \<and> sendToParent nm r)" by auto
  with c r show ?thesis
    using set_preset_at [OF c r, of E x og] set_preset_done [OF ok c r, of E x og] by auto
qed

lemma ex_tree_unlocked: "brokers ex_tree c = Some r \<Longrightarrow> locked r = {}"
  by (auto simp: ex_tree_def ex_child_def ex_broker_def empty_broker_def ex_world_def split: if_splits)

theorem preset_value_roundtrip_witness:
  "\<exists>t. set_preset_cci_value (ex_env True) 3 2 ''q'' 11 ex_other ex_tree = (Ret (), t)
    \<and> get_preset_cci_value (ex_env True) 3 2 ''q'' t = (Ret 11, t)"
  using preset_value_roundtrip [of ex_tree 2 3 "''q''" "ex_env True" 11 ex_other] ex_tree_brokers
    ex_tree_unlocked by (auto split: if_splits)

text \<open>
  C5. A locked preset value is final. Let a name be locked in a broker and let any client run, one that
  destroys brokers included. If the broker still lives then the name is still locked there; what the
  broker itself keeps of the name (whether there is a preset value, which one, its originator), and its
  answer to \<open>get_preset_value_origin\<close>, which it never passes on, are as before. As long as the broker does not
  pass the name on (it has not been told to expose it, or has no parent), \<open>has_preset_value\<close> and
  \<open>get_preset_cci_value\<close> answer as before too, and \<open>set_preset_cci_value\<close> fails without any effect
  but its report. All this also while parameters of that name are built and destroyed.
\<close>

theorem locked_preset_never_changes:
  assumes "databases_ok s" and "brokers s b = Some r" and "nm \<in> locked r"
    and run: "exec E n c s = (out, t)" and "brokers t b = Some r'"
  shows "nm \<in> locked r' \<and> preset_answers E nm r' = preset_answers E nm r
    \<and> fst (get_preset_value_origin b nm t) = fst (get_preset_value_origin b nm s)
    \<and> (\<not> (b_forwarding r' \<and> sendToParent nm r') \<longrightarrow>
         fst (has_preset_value (Suc m) b nm t) = fst (has_preset_value (Suc m) b nm s)
         \<and> fst (get_preset_cci_value E (Suc m) b nm t) = fst (get_preset_cci_value E (Suc m) b nm s)
         \<and> set_preset_cci_value E (Suc m) b nm x og t =
             set_param_failed E ''Setting preset value failed (parameter locked).'' t)"
proof -
  have "broker_history (preset_locks E) s t" by (rule preset_lock.exec_R [OF run])
  from broker_historyD [OF this _ assms(2,5)] assms(1)
  have "preset_locks E r r'" by (simp add: databases_ok_def)
  moreover have "broker_inv r" using assms(1,2) by (simp add: databases_ok_def)
  ultimately have locks: "nm \<in> locked r'" "preset_answers E nm r' = preset_answers E nm r"
    and place: "expose r \<subseteq> expose r'" "b_forwarding r' = b_forwarding r" "has_parent r' = has_parent r"
    using assms(3) by (auto simp: preset_locks_def)
  then have "\<not> (b_forwarding r' \<and> sendToParent nm r') \<longrightarrow> \<not> (b_forwarding r \<and> sendToParent nm r)"
    by (auto simp: sendToParent_def is_global_broker_def)
  with locks assms(2,5) show ?thesis
    by (auto simp: preset_answers_def get_preset_value_origin_def has_preset_value_def
        get_preset_cci_value_def set_preset_cci_value_def consuming_set_preset_cci_value_def)
qed

definition ex_final :: "(int, int) world" where
  "ex_final = map_broker 0 (consuming_lock_preset_value ''p'') ex_world"

lemma ex_final_brokers: "brokers_ok ex_final"
  unfolding ex_final_def
  by (rule brokers_ok_map_broker [OF ex_world_brokers]) (auto intro: broker_step.preset_locking)

definition ex_overwrite :: "(int, int) prog" where
  "ex_overwrite = P_call (On_broker ex_broker_handle (B_set_preset_cci_value ''p'' 3)) (\<lambda>_. P_return True)"

text \<open>With errors that are not thrown the program goes on after the refused preset.\<close>

lemma ex_overwrite_run:
  "\<exists>rs. exec (ex_env False) 5 ex_overwrite ex_final = (Ret True, ex_final\<lparr>reports := rs\<rparr>)"
proof -
  have "\<exists>rs. set_preset_cci_value (ex_env False) 4 0 ''p'' 3 ex_originator ex_final
      = (Ret (), ex_final\<lparr>reports := rs\<rparr>)"
    by (auto simp: set_preset_cci_value_def eval_nat_numeral ex_final_def ex_broker_def empty_broker_def
        consuming_lock_preset_value_def consuming_set_preset_cci_value_def set_param_failed_def report_def
        ex_env_def)
  then show ?thesis
    by (auto simp: ex_overwrite_def eval_nat_numeral answer_def handle_broker_set_preset_def
        ex_broker_handle_def bindM_def)
qed

theorem locked_preset_never_changes_witness:
  "\<exists>t. exec (ex_env False) 5 ex_overwrite ex_final = (Ret True, t)
    \<and> fst (has_preset_value 1 0 ''p'' t) = Ret False"
proof -
  let ?r = "consuming_lock_preset_value ''p'' ex_broker"
  have r: "brokers ex_final 0 = Some ?r" "''p'' \<in> locked ?r" "\<not> b_forwarding ?r"
    "fst (has_preset_value 1 0 ''p'' ex_final) = Ret False"
    by (simp_all add: ex_final_def consuming_lock_preset_value_def consuming_has_preset_value_def
        ex_broker_def empty_broker_def has_preset_value_def)
  obtain rs where run: "exec (ex_env False) 5 ex_overwrite ex_final = (Ret True, ex_final\<lparr>reports := rs\<rparr>)"
    using ex_overwrite_run by blast
  have "brokers (ex_final\<lparr>reports := rs\<rparr>) 0 = Some ?r" using r(1) by simp
  from locked_preset_never_changes [OF brokers_ok_databases [OF ex_final_brokers] r(1,2) run this, of 0]
  show ?thesis using run r(3,4) by auto
qed

text \<open>
  The origin of an exposed preset value is lost to the broker that exposes it: \<open>broker\<close>
  forwards \<open>set_preset_cci_value\<close> and \<open>get_preset_cci_value\<close> to the parent but does not override
  \<open>get_preset_value_origin\<close>. The value is found, its origin is unknown, although the parent
  knows it.
\<close>

lemma exposed_preset_origin_lost:
  assumes r: "brokers s b = Some r" and sends: "b_forwarding r \<and> sendToParent nm r"
    and parent: "brokers s (m_parent r) = Some q" "\<not> b_forwarding q" "m_parent r \<noteq> b"
    and free: "nm \<notin> locked q" and none: "map_find nm (m_preset_value_originator_map r) = None"
  shows "\<exists>t. set_preset_cci_value E (Suc (Suc n)) b nm x og s = (Ret (), t)
    \<and> get_preset_cci_value E (Suc (Suc n)) b nm t = (Ret x, t)
    \<and> get_preset_value_origin b nm t = (Ret unknown_originator, t)
    \<and> get_preset_value_origin (m_parent r) nm t = (Ret og, t)"
proof -
  have c: "resolve (Suc (Suc n)) b nm s = (Ret (m_parent r), s)"
    using r sends parent by simp
  let ?t = "map_broker (m_parent r) (store_preset nm x og) s"
  have "set_preset_cci_value E (Suc (Suc n)) b nm x og s = (Ret (), ?t)"
    using set_preset_at [OF c parent(1)] free by simp
  moreover have "get_preset_cci_value E (Suc (Suc n)) b nm ?t = (Ret x, ?t)"
    using parent by (simp add: get_preset_cci_value_def forward_after_store [OF c] del: forward.simps)
  moreover have "get_preset_value_origin b nm ?t = (Ret unknown_originator, ?t)"
    using r parent none by (simp add: get_preset_value_origin_def consuming_get_preset_value_origin_def)
  moreover have "get_preset_value_origin (m_parent r) nm ?t = (Ret og, ?t)"
    using parent by (simp add: get_preset_value_origin_def)
  ultimately show ?thesis by blast
qed

lemma exposed_preset_origin_lost_witness:
  "\<exists>t. set_preset_cci_value (ex_env True) 2 2 ''q'' 11 ex_other ex_tree = (Ret (), t)
    \<and> get_preset_cci_value (ex_env True) 2 2 ''q'' t = (Ret 11, t)
    \<and> get_preset_value_origin 2 ''q'' t = (Ret unknown_originator, t)"
  using exposed_preset_origin_lost [of ex_tree 2 ex_child "''q''" ex_broker "ex_env True" 0 11 ex_other]
    ex_child_sends ex_broker_keeps
    ex_tree_simps(2)
  by (simp add: ex_tree_fields numeral_2_eq_2) blast

text \<open>
  \<open>get_unconsumed_preset_values\<close> of a well-formed broker: the entries are those preset
  values that no parameter has used and that no predicate ignores, each name once, in the
  order of the names.
\<close>

lemma unconsumed_presets_exact:
  assumes "broker_inv r"
  shows "sorted_map (get_unconsumed_preset_values r)
    \<and> (\<forall>nm x. (nm, x) \<in> set (get_unconsumed_preset_values r) \<longleftrightarrow>
         map_find nm (m_unused_value_registry r) = Some x
         \<and> (\<forall>pred \<in> set (m_ignored_unconsumed_predicates r). \<not> pred (nm, x)))"
proof -
  have sorted: "sorted_map (m_unused_value_registry r)" using assms by (simp add: broker_inv_def)
  then have "sorted_map (filter P (m_unused_value_registry r))" for P
    by (simp add: sorted_map_def strict_sorted_iff sorted_filter distinct_map_filter)
  then show ?thesis using sorted_map_in_iff [OF sorted] by (auto simp: get_unconsumed_filter)
qed

definition ex_presets :: "int broker" where
  "ex_presets = ignore_unconsumed_preset_values (\<lambda>e. snd e = 0)
     (store_preset ''b'' 0 ex_other (store_preset ''c'' 2 ex_other (store_preset ''a'' 1 ex_other ex_broker)))"

lemma ex_presets_inv: "broker_inv ex_presets"
proof -
  have "broker_inv ex_broker" using ex_world_brokers unfolding brokers_ok_def by (metis ex_world_simps(3))
  then show ?thesis by (simp add: ex_presets_def store_preset_inv)
qed

lemma unconsumed_presets_exact_witness:
  "(''c'', 2) \<in> set (get_unconsumed_preset_values ex_presets)
    \<and> (''b'', 0) \<notin> set (get_unconsumed_preset_values ex_presets)"
  using conjunct2 [OF unconsumed_presets_exact [OF ex_presets_inv]]
  by (simp add: ex_presets_def store_preset_def ignore_unconsumed_preset_values_def ex_broker_def
      empty_broker_def map_insert_def)

section \<open>Adding and removing a parameter\<close>

lemma map_broker_comp: "map_broker b f (map_broker b g s) = map_broker b (\<lambda>r. f (g r)) s"
  by (simp add: map_broker_def option.map_comp comp_def)

lemma map_broker_id: "brokers s b = Some r \<Longrightarrow> f r = r \<Longrightarrow> map_broker b f s = s"
  by (simp add: map_broker_def fun_upd_idem)

lemma broker_registry_fields [simp]:
  "m_create_callbacks (register_param nm i r) = m_create_callbacks r"
  "m_create_callbacks (use_preset nm r) = m_create_callbacks r"
  "m_destroy_callbacks (register_param nm i r) = m_destroy_callbacks r"
  "m_destroy_callbacks (use_preset nm r) = m_destroy_callbacks r"
  "m_destroy_callbacks (unregister_param nm r) = m_destroy_callbacks r"
  "m_param_registry (use_preset nm r) = m_param_registry r"
  by (auto simp: register_param_def use_preset_def unregister_param_def split: option.splits)

text \<open>\<open>add_param\<close> of a broker without create callbacks.\<close>

lemma add_param_quiet:
  assumes p: "params s i = Some p" and r: "brokers s b = Some r"
    and new: "get_orig_param (param_name p) r = None" and quiet: "m_create_callbacks r = []"
  shows "consuming_add_param run (Suc n) i b s =
    (Ret (), map_broker b (\<lambda>r. use_preset (param_name p) (register_param (param_name p) i r)) s)"
  using assms
  by (simp add: consuming_add_param_def get_orig_param_def Let_def map_broker_comp)

lemma remove_param_quiet:
  assumes "params s i = Some p" and "brokers s b = Some r" and "m_destroy_callbacks r = []"
  shows "consuming_remove_param run (Suc n) i b s =
    (Ret (), map_broker b (\<lambda>r. unuse_preset (param_name p) (unregister_param (param_name p) r)) s)"
  using assms by (simp add: consuming_remove_param_def bindM_assoc map_broker_comp)

lemma unregister_undoes_register:
  "get_orig_param nm r = None \<Longrightarrow> unregister_param nm (register_param nm i r) = r"
  by (cases r) (simp add: unregister_param_def register_param_def get_orig_param_def map_insert_def map_erase_assign)

lemma unuse_undoes_use:
  assumes inv: "broker_inv r" and free: "map_find nm (m_used_value_registry r) = None"
  shows "unuse_preset nm (use_preset nm r) = r"
proof (cases "map_find nm (m_unused_value_registry r)")
  case None
  then show ?thesis using free by (simp add: use_preset_def unuse_preset_def)
next
  case (Some x)
  have "sorted_map (m_unused_value_registry r)" using inv by (simp add: broker_inv_def)
  from map_assign_erase [OF this Some] map_erase_assign [OF free, of x] Some free show ?thesis
    by (cases r) (simp add: use_preset_def unuse_preset_def map_insert_def)
qed

lemma use_commutes: "use_preset nm (register_param nm' i r) = register_param nm' i (use_preset nm r)"
  by (auto simp: use_preset_def register_param_def split: option.splits)

lemma preset_answers_added:
  assumes "broker_inv r"
  shows "preset_answers E j (use_preset nm (register_param nm i r)) = preset_answers E j r"
proof -
  have "preset_answers E j (use_preset nm (register_param nm i r)) = preset_answers E j (register_param nm i r)"
    using use_preset_same [OF register_param_inv [OF assms]]
    by (simp add: preset_answers_def consuming_get_preset_value_origin_def)
  also have "\<dots> = preset_answers E j r"
    by (rule preset_answers_cong) (simp_all add: register_param_def)
  finally show ?thesis .
qed

text \<open>
  C16. Adding a parameter and removing it again leaves the broker as it was: \<open>add_param\<close> enters
  the parameter in the registry and moves its preset value from the unused to the used ones,
  without changing what the broker answers about preset values; \<open>remove_param\<close> undoes both, so
  that a parameter that is built again under the same name finds the preset value again.
\<close>

theorem add_remove_param_roundtrip:
  assumes p: "params s i = Some p" and r: "brokers s b = Some r" and inv: "broker_inv r"
    and new: "get_orig_param (param_name p) r = None"
    and unused: "map_find (param_name p) (m_used_value_registry r) = None"
    and quiet: "m_create_callbacks r = []" "m_destroy_callbacks r = []"
  shows "\<exists>t r'. consuming_add_param run (Suc n) i b s = (Ret (), t) \<and> brokers t b = Some r'
    \<and> get_orig_param (param_name p) r' = Some i
    \<and> map_find (param_name p) (m_unused_value_registry r') = None
    \<and> (\<forall>nm. preset_answers E nm r' = preset_answers E nm r)
    \<and> consuming_remove_param run (Suc n) i b t = (Ret (), s)"
proof -
  let ?nm = "param_name p"
  let ?r = "use_preset ?nm (register_param ?nm i r)"
  let ?t = "map_broker b (\<lambda>r. use_preset ?nm (register_param ?nm i r)) s"
  have add: "consuming_add_param run (Suc n) i b s = (Ret (), ?t)"
    by (rule add_param_quiet [OF p r new quiet(1)])
  have t: "params ?t i = Some p" "brokers ?t b = Some ?r" using p r by simp_all
  have "unuse_preset ?nm (unregister_param ?nm ?r) = unuse_preset ?nm (use_preset ?nm r)"
    using new unregister_undoes_register [of ?nm "use_preset ?nm r" i]
    by (simp add: use_commutes get_orig_param_def)
  then have undo: "unuse_preset ?nm (unregister_param ?nm ?r) = r"
    by (simp add: unuse_undoes_use [OF inv unused])
  have "consuming_remove_param run (Suc n) i b ?t
      = (Ret (), map_broker b (\<lambda>r. unuse_preset ?nm (unregister_param ?nm r)) ?t)"
    by (rule remove_param_quiet [OF t]) (simp add: quiet)
  also have "\<dots> = (Ret (), s)"
    unfolding map_broker_comp using undo by (intro arg_cong [where f = "Pair (Ret ())"] map_broker_id [OF r])
  finally have remove: "consuming_remove_param run (Suc n) i b ?t = (Ret (), s)" .
  have "preset_answers E nm ?r = preset_answers E nm r" for nm
    by (rule preset_answers_added [OF inv])
  moreover have "get_orig_param ?nm ?r = Some i"
    using new by (simp add: get_orig_param_def register_param_def)
  moreover have "map_find ?nm (m_unused_value_registry ?r) = None"
    by (simp add: use_preset_def register_param_def split: option.splits)
  ultimately show ?thesis using add t(2) remove by blast
qed

text \<open>A second parameter, not yet added, whose name has a preset value.\<close>

definition ex_new :: "(int, int) world" where
  "ex_new = ex_world\<lparr>params := (params ex_world)(2 \<mapsto> ex_param\<lparr>m_name := ''a''\<rparr>),
     brokers := (brokers ex_world)(0 \<mapsto> ex_presets), next_address := 3\<rparr>"

lemma ex_new_simps [simp]:
  "params ex_new 2 = Some (ex_param\<lparr>m_name := ''a''\<rparr>)" "brokers ex_new 0 = Some ex_presets"
  "param_name (ex_param\<lparr>m_name := ''a''\<rparr>) = ''a''"
  by (simp_all add: ex_new_def param_name_def c_str_def)

lemma ex_presets_eq: "ex_presets = (empty_broker ''b'')\<lparr>m_param_registry := [(''p'', 1)],
    m_unused_value_registry := [(''a'', 1), (''b'', 0), (''c'', 2)],
    m_preset_value_originator_map := [(''a'', ex_other), (''b'', ex_other), (''c'', ex_other)],
    m_ignored_unconsumed_predicates := [\<lambda>e. snd e = 0]\<rparr>"
  by (simp add: ex_presets_def store_preset_def ignore_unconsumed_preset_values_def ex_broker_def
      empty_broker_def map_insert_def)

theorem add_remove_param_roundtrip_witness:
  "\<exists>t r'. consuming_add_param ex_judge 1 2 0 ex_new = (Ret (), t) \<and> brokers t 0 = Some r'
    \<and> map_find ''a'' (m_unused_value_registry r') = None \<and> consuming_get_preset_cci_value (ex_env True) ''a'' r' = 1
    \<and> consuming_remove_param ex_judge 1 2 0 t = (Ret (), ex_new)"
proof -
  have a: "get_orig_param (param_name (ex_param\<lparr>m_name := ''a''\<rparr>)) ex_presets = None"
    "map_find (param_name (ex_param\<lparr>m_name := ''a''\<rparr>)) (m_used_value_registry ex_presets) = None"
    "m_create_callbacks ex_presets = []" "m_destroy_callbacks ex_presets = []"
    "consuming_get_preset_cci_value (ex_env True) ''a'' ex_presets = 1"
    by (simp_all add: ex_presets_eq empty_broker_def get_orig_param_def consuming_get_preset_cci_value_def)
  show ?thesis
    using add_remove_param_roundtrip [OF ex_new_simps(1,2) ex_presets_inv a(1-4), of ex_judge 0 "ex_env True"] a(5)
    by (auto simp: preset_answers_def)
qed

section \<open>Initialization\<close>

lemma own_broker_answers:
  assumes "own_broker s p r" and "get_orig_param (param_name p) r = None"
  shows "get_value_origin_by_name (Suc n) (m_broker (m_broker_handle p)) (param_name p) s
      = (Ret (consuming_get_preset_value_origin (param_name p) r), s)"
  using assms
  by (auto simp: own_broker_def get_value_origin_by_name_def consuming_get_value_origin_def
      consuming_get_preset_value_origin_def split: option.splits)

text \<open>The broker of the parameter adds it itself.\<close>

lemma own_broker_adds:
  assumes "own_broker s p r" and "params s i = Some p"
  shows "add_param run (Suc n) (m_broker (m_broker_handle p)) i s
    = consuming_add_param run (Suc n) i (m_broker (m_broker_handle p)) s"
  using assms by (auto simp: own_broker_def add_param_def)

lemma init_preset_part:
  assumes p: "params s i = Some p" and quiet: "write_quiet p" and own: "own_broker s p r"
    and new: "get_orig_param (param_name p) r = None"
    and conv: "consuming_has_preset_value (param_name p) r \<Longrightarrow>
      unpack E (p_type p) (consuming_get_preset_cci_value E (param_name p) r) = (True, v)"
  shows "init E run (Suc n) (m_broker (m_broker_handle p)) i s =
    add_param run (Suc n) (m_broker (m_broker_handle p)) i
      (if consuming_has_preset_value (param_name p) r
       then map_param i (write_param v (consuming_get_preset_value_origin (param_name p) r)) s else s)"
proof (cases "consuming_has_preset_value (param_name p) r")
  case True
  with p own_broker_queries(1) [OF own, of n] own_broker_queries(2) [OF own, of E n]
    own_broker_answers [OF own new, of n] preset_quiet [OF p quiet conv [OF True], of run n]
  show ?thesis by (simp add: init_def Let_def bindM_def)
next
  case False
  with p own_broker_queries(1) [OF own, of n] show ?thesis by (simp add: init_def Let_def bindM_def)
qed

text \<open>
  C7. A new parameter takes its preset value. After \<open>init\<close> of a parameter whose broker has a
  preset value for its name, its value is that preset value, converted, and the origin of its
  value is the originator of the preset, not the owner of the parameter; without a preset
  value the parameter is unchanged. In both cases it is registered under its name and no
  preset value of that name is unconsumed any more.
\<close>

theorem init_applies_preset:
  assumes p: "params s i = Some p" and quiet: "write_quiet p" and own: "own_broker s p r"
    and new: "get_orig_param (param_name p) r = None" and none: "m_create_callbacks r = []"
    and conv: "consuming_has_preset_value (param_name p) r \<Longrightarrow>
      unpack E (p_type p) (consuming_get_preset_cci_value E (param_name p) r) = (True, v)"
  shows "\<exists>t r'. init E run (Suc n) (m_broker (m_broker_handle p)) i s = (Ret (), t)
    \<and> params t i = Some (if consuming_has_preset_value (param_name p) r
        then write_param v (consuming_get_preset_value_origin (param_name p) r) p else p)
    \<and> brokers t (m_broker (m_broker_handle p)) = Some r'
    \<and> get_orig_param (param_name p) r' = Some i
    \<and> map_find (param_name p) (m_unused_value_registry r') = None"
proof -
  let ?b = "m_broker (m_broker_handle p)" and ?nm = "param_name p"
  let ?p = "if consuming_has_preset_value ?nm r then write_param v (consuming_get_preset_value_origin ?nm r) p else p"
  let ?s = "if consuming_has_preset_value ?nm r
    then map_param i (write_param v (consuming_get_preset_value_origin ?nm r)) s else s"
  have nm: "param_name ?p = ?nm" "m_broker_handle ?p = m_broker_handle p"
    by (simp_all add: write_param_def param_name_def)
  have p': "params ?s i = Some ?p" using p by simp
  have b': "brokers ?s ?b = Some r" using own by (simp add: own_broker_def)
  have "own_broker ?s ?p r" using own b' by (simp only: own_broker_def nm) simp
  from own_broker_adds [OF this p'] have "init E run (Suc n) ?b i s = consuming_add_param run (Suc n) i ?b ?s"
    using init_preset_part [OF p quiet own new conv, of run n] by (simp only: nm)
  also have "\<dots> = (Ret (), map_broker ?b (\<lambda>r. use_preset ?nm (register_param ?nm i r)) ?s)"
    using add_param_quiet [OF p' b' _ none, of run n] new by (simp only: nm)
  finally have "init E run (Suc n) ?b i s = (Ret (), map_broker ?b (\<lambda>r. use_preset ?nm (register_param ?nm i r)) ?s)" .
  moreover have "get_orig_param ?nm (use_preset ?nm (register_param ?nm i r)) = Some i"
    using new by (simp add: get_orig_param_def register_param_def)
  moreover have "map_find ?nm (m_unused_value_registry (use_preset ?nm (register_param ?nm i r))) = None"
    by (simp add: use_preset_def register_param_def split: option.splits)
  ultimately show ?thesis using p' b' by simp
qed

lemma ex_new_facts:
  "own_broker ex_new (ex_param\<lparr>m_name := ''a''\<rparr>) ex_presets" "write_quiet (ex_param\<lparr>m_name := ''a''\<rparr>)"
  "get_orig_param ''a'' ex_presets = None" "m_create_callbacks ex_presets = []"
  "consuming_has_preset_value ''a'' ex_presets" "consuming_get_preset_cci_value (ex_env b) ''a'' ex_presets = 1"
  "consuming_get_preset_value_origin ''a'' ex_presets = ex_other"
  by (simp_all add: own_broker_def write_quiet_def ex_param_def fresh_param_def ex_broker_handle_def
      no_callbacks_def callbacks_of.simps ex_presets_eq empty_broker_def get_orig_param_def
      consuming_has_preset_value_def consuming_get_preset_cci_value_def consuming_get_preset_value_origin_def)

lemma ex_param_home: "m_broker (m_broker_handle ex_param) = 0"
  by (simp add: ex_param_def fresh_param_def ex_broker_handle_def)

theorem init_applies_preset_witness:
  "\<exists>t. init (ex_env True) ex_judge 1 0 2 ex_new = (Ret (), t)
    \<and> params t 2 = Some (write_param 1 ex_other (ex_param\<lparr>m_name := ''a''\<rparr>))"
  using init_applies_preset [OF ex_new_simps(1) ex_new_facts(2,1), of "ex_env True" 1 ex_judge 0]
    ex_param_home
  by (auto simp: ex_new_facts ex_unpack)

lemma unregister_base_run: "\<exists>ns. unregister_base E nm s = (Ret (), s\<lparr>sc_names := ns\<rparr>)"
proof (cases "nm = []")
  case True
  then have "unregister_base E nm s = (Ret (), s\<lparr>sc_names := sc_names s\<rparr>)"
    by (simp add: unregister_base_def)
  then show ?thesis by blast
next
  case False
  then show ?thesis
    by (cases "sc_unregister_name E (c_str nm) (sc_names s)")
      (auto simp: unregister_base_def cci_unregister_name_def bindM_assoc)
qed

lemma untyped_destructor_run:
  assumes "params s i = Some p" and "m_param_handles p = []"
  shows "\<exists>ns. untyped_destructor E i s = (Ret (), forget_param i (s\<lparr>sc_names := ns\<rparr>))"
proof -
  obtain ns where "unregister_base E (m_name p) s = (Ret (), s\<lparr>sc_names := ns\<rparr>)"
    using unregister_base_run by blast
  with assms have "untyped_destructor E i s = (Ret (), forget_param i (s\<lparr>sc_names := ns\<rparr>))"
    by (simp add: untyped_destructor_def bindM_Ret)
  then show ?thesis by blast
qed

text \<open>The handle for a callback leaves no trace in the parameter.\<close>

lemma handle_scope_trace:
  assumes "params s i = Some p" and "m_param_handles p = []"
  shows "params (destroy_handle (next_address s) (new_handle (Some i) og s)) i = Some p"
    and "brokers (destroy_handle (next_address s) (new_handle (Some i) og s)) = brokers s"
  using assms
  by (simp_all add: destroy_handle_def new_handle_def forget_handle_def)
    (simp add: detach_handle_def attach_handle_def drop_handle_def push_handle_def)

lemma first_callback_throws:
  assumes p: "params s i = Some p" "m_param_handles p = []" and r: "brokers s b = Some r"
    and first: "m_create_callbacks r = cb # cbs" "callback cb = Some ref" "cb_signature ref = Sig_param"
    and throws: "\<And>h u. run ref (Param_event h) u = (Exc e, u)"
  shows "broker_callback_loop run (Suc n) m_create_callbacks b i 0 s
    = (Exc e, destroy_handle (next_address s) (new_handle (Some i) (m_originator p) s))"
  using p r first throws
  by (simp add: with_handle_def guardM_def Let_def invoke_param_def bindM_Exc)

text \<open>
  C40. A create callback that throws leaves the broker with a dead parameter. \<open>add_param\<close> enters
  the parameter in the registry before it runs the callbacks and does not undo that, and the
  destructor of \<open>cci_param_typed\<close> does not run for an object whose constructor throws: the
  exception leaves the constructor, the parameter is gone, and the broker answers its name
  with the address of the destroyed object, so that asking for a handle is undefined.
\<close>

theorem create_exception_leaves_dead_entry:
  assumes p: "params s i = Some p" "m_param_handles p = []" and quiet: "write_quiet p" and own: "own_broker s p r"
    and new: "get_orig_param (param_name p) r = None"
    and nopreset: "\<not> consuming_has_preset_value (param_name p) r"
    and first: "m_create_callbacks r = cb # cbs" "callback cb = Some ref" "cb_signature ref = Sig_param"
    and throws: "\<And>h u. run ref (Param_event h) u = (Exc e, u)"
  shows "\<exists>t. on_exception (init E run (Suc n) (m_broker (m_broker_handle p)) i) (untyped_destructor E i) s
      = (Exc e, t)
    \<and> params t i = None
    \<and> (\<exists>r'. brokers t (m_broker (m_broker_handle p)) = Some r' \<and> get_orig_param (param_name p) r' = Some i)
    \<and> fst (consuming_get_param_handle (param_name p) og (m_broker (m_broker_handle p)) t) = Abort"
proof -
  let ?b = "m_broker (m_broker_handle p)" and ?nm = "param_name p"
  let ?g = "\<lambda>r. use_preset ?nm (register_param ?nm i r)"
  let ?s = "map_broker ?b ?g s"
  let ?u = "destroy_handle (next_address ?s) (new_handle (Some i) (m_originator p) ?s)"
  have r: "brokers s ?b = Some r" using own by (simp add: own_broker_def)
  have s: "params ?s i = Some p" "brokers ?s ?b = Some (?g r)" using p r by simp_all
  have cbs: "m_create_callbacks (?g r) = cb # cbs" using first(1) by simp
  have loop: "broker_callback_loop run (Suc n) m_create_callbacks ?b i 0 ?s = (Exc e, ?u)"
    by (rule first_callback_throws [OF s(1) p(2) s(2) cbs first(2,3)]) (rule throws)
  have "init E run (Suc n) ?b i s = add_param run (Suc n) ?b i s"
    using init_preset_part [OF p(1) quiet own new, of E undefined run n] nopreset by simp
  also have "\<dots> = broker_callback_loop run (Suc n) m_create_callbacks ?b i 0 ?s"
    using p(1) r new own_broker_adds [OF own p(1), of run n]
    by (simp add: consuming_add_param_def get_orig_param_def Let_def map_broker_comp del: broker_callback_loop.simps)
  finally have init: "init E run (Suc n) ?b i s = (Exc e, ?u)" using loop by simp
  have u: "params ?u i = Some p" "brokers ?u ?b = Some (?g r)"
    using handle_scope_trace [OF s(1) p(2), of "m_originator p"] s(2) by simp_all
  obtain ns where "untyped_destructor E i ?u = (Ret (), forget_param i (?u\<lparr>sc_names := ns\<rparr>))"
    using untyped_destructor_run [OF u(1) p(2)] by blast
  with init have "on_exception (init E run (Suc n) ?b i) (untyped_destructor E i) s
      = (Exc e, forget_param i (?u\<lparr>sc_names := ns\<rparr>))"
    by (simp add: on_exception_def noexceptM_def)
  moreover have "get_orig_param ?nm (?g r) = Some i"
    using new by (simp add: get_orig_param_def register_param_def)
  ultimately show ?thesis
    using u(2) by (auto simp: forget_param_def consuming_get_param_handle_def handle_to_def bindM_def the_param_def)
qed

definition ex_watched :: "int broker" where
  "ex_watched = register_create_callback (Some \<lparr>cb_object = 2, cb_signature = Sig_param\<rparr>) ex_other ex_broker"

definition ex_building :: "(int, int) world" where
  "ex_building = ex_world\<lparr>params := (params ex_world)(2 \<mapsto> ex_param\<lparr>m_name := ''a''\<rparr>),
     brokers := (brokers ex_world)(0 \<mapsto> ex_watched), next_address := 3\<rparr>"

lemma ex_building_facts:
  "params ex_building 2 = Some (ex_param\<lparr>m_name := ''a''\<rparr>)" "m_param_handles (ex_param\<lparr>m_name := ''a''\<rparr>) = []"
  "own_broker ex_building (ex_param\<lparr>m_name := ''a''\<rparr>) ex_watched"
  "get_orig_param ''a'' ex_watched = None" "\<not> consuming_has_preset_value ''a'' ex_watched"
  "m_create_callbacks ex_watched = [new_callback (Some \<lparr>cb_object = 2, cb_signature = Sig_param\<rparr>) ex_other]"
  by (simp_all add: ex_building_def own_broker_def ex_watched_def register_create_callback_def ex_broker_def
      empty_broker_def ex_param_def fresh_param_def ex_broker_handle_def get_orig_param_def
      consuming_has_preset_value_def)

theorem create_exception_leaves_dead_entry_witness:
  "\<exists>t. on_exception (init (ex_env True) (runner (ex_env True) 1) 1 0 2) (untyped_destructor (ex_env True) 2) ex_building
      = (Exc (User_exn 7), t)
    \<and> params t 2 = None \<and> fst (consuming_get_param_handle ''a'' ex_other 0 t) = Abort"
  using create_exception_leaves_dead_entry [OF ex_building_facts(1,2) ex_new_facts(2) ex_building_facts(3), of _ _
      "\<lparr>cb_object = 2, cb_signature = Sig_param\<rparr>" "runner (ex_env True) 1" "User_exn 7" "ex_env True" 0 ex_other]
    ex_building_facts ex_param_home
  by (auto simp: new_callback_def runner_def ex_env_def)

end
