(* ===== verification/Registry_Properties.thy ===== *)
theory Registry_Properties
  imports Broker_Properties
begin

text \<open>
  Properties of the global registries - brokers by hierarchy and names - and of originators,
  handles and reports.
\<close>

section \<open>The registry of brokers\<close>

definition nearest_broker :: "('v, 'j) env \<Rightarrow> nat \<Rightarrow> ('v, 'j) world \<Rightarrow> sc_object option \<Rightarrow> bid \<Rightarrow> bool" where
  "nearest_broker E n s org b \<longleftrightarrow>
     (\<exists>us ob vs. ancestors E n org = us @ ob # vs \<and> m_brokers s ob = Some b
        \<and> (\<forall>u \<in> set us. m_brokers s u = None))"

text \<open>
  The broker of an originator is the nearest one: \<open>get_broker\<close> returns exactly when an
  object on the way from the object of the originator up to the root of the hierarchy has a
  broker, and the answer is a handle of the broker of the first such object, with the
  originator that asked.
\<close>

lemma get_broker_nearest:
  "get_broker E n og s = (Ret bh, t) \<longleftrightarrow>
     t = s \<and> (\<exists>b. nearest_broker E n s (m_originator_obj og) b \<and> bh = create_broker_handle b og)"
proof -
  have "get_broker E n og s = (Ret bh, t) \<longleftrightarrow>
      (\<exists>b. find_broker E n (m_originator_obj og) s = (Ret b, t) \<and> bh = create_broker_handle b og)"
    by (auto simp: get_broker_def bindM_eq_Ret)
  then show ?thesis unfolding find_broker_nearest nearest_broker_def by blast
qed

text \<open>A hierarchy: module 5 in module 4, process 6 in module 5; module 4 has a broker.\<close>

definition ex_modules :: "sc_object option \<Rightarrow> (int, int) env" where
  "ex_modules cur = (ex_env True)\<lparr>sc_current := cur, is_process := (\<lambda>ob. ob = 6),
     sc_parent := (\<lambda>ob. if ob = 6 then Some 5 else if ob = 5 then Some 4 else None)\<rparr>"

definition ex_registered :: "(int, int) world" where
  "ex_registered = ex_tree\<lparr>m_brokers := (m_brokers ex_tree)(Some 4 \<mapsto> 2)\<rparr>"

definition ex_inner :: originator where
  "ex_inner = \<lparr>m_originator_obj = Some 6, m_originator_str = None\<rparr>"

lemma get_broker_nearest_witness:
  "get_broker (ex_modules None) 4 ex_inner ex_registered = (Ret (create_broker_handle 2 ex_inner), ex_registered)"
proof -
  have "ancestors (ex_modules None) 4 (Some 6) = [Some 6, Some 5] @ Some 4 # [None]"
    by (simp add: eval_nat_numeral ex_modules_def)
  moreover have "m_brokers ex_registered (Some 4) = Some 2" "m_brokers ex_registered (Some 5) = None"
    "m_brokers ex_registered (Some 6) = None"
    by (simp_all add: ex_registered_def ex_tree_def ex_world_def)
  ultimately have "nearest_broker (ex_modules None) 4 ex_registered (m_originator_obj ex_inner) 2"
    unfolding nearest_broker_def
    by (intro exI [of _ "[Some 6, Some 5]"] exI [of _ "Some 4"] exI [of _ "[None]"]) (simp add: ex_inner_def)
  then show ?thesis by (simp add: get_broker_nearest) blast
qed

text \<open>The functions of originators leave the registry of brokers alone.\<close>

interpretation registry_kept: step_relation "\<lambda>s t :: ('v, 'j) world. m_brokers t = m_brokers s"
  by unfold_locales simp_all

lemma originators_keep_registry:
  "keeps (\<lambda>s t :: ('v, 'j) world. m_brokers t = m_brokers s) (default_originator E)"
  "keeps (\<lambda>s t :: ('v, 'j) world. m_brokers t = m_brokers s) (named_originator_c E p)"
  "keeps (\<lambda>s t :: ('v, 'j) world. m_brokers t = m_brokers s) (CCI_REPORT_ERROR E mt m)"
proof -
  show *: "keeps (\<lambda>s t :: ('v, 'j) world. m_brokers t = m_brokers s) (CCI_REPORT_ERROR E mt m)" for mt m
    by (simp add: keeps_def CCI_REPORT_ERROR_def report_state)
  show "keeps (\<lambda>s t :: ('v, 'j) world. m_brokers t = m_brokers s) (default_originator E)"
    "keeps (\<lambda>s t :: ('v, 'j) world. m_brokers t = m_brokers s) (named_originator_c E p)"
    unfolding default_originator_def named_originator_c_def named_originator_def check_originator_valid_def Let_def
    by (intro registry_kept.keeps_rules *)+
qed

text \<open>
  The first registration of a place wins. \<open>register_broker\<close> enters the broker if the current
  place of the hierarchy has none, and otherwise leaves the registry alone; whatever it
  returns is a handle of the broker that is registered there afterwards, and a second broker
  at the same place is an error.
\<close>

lemma first_registration_wins:
  fixes s :: "('v, 'j) world"
  shows
  "m_brokers (snd (register_broker E b s)) =
     (if m_brokers s (sc_current E) = None then (m_brokers s)(sc_current E \<mapsto> b) else m_brokers s)
   \<and> (\<forall>bh t. register_broker E b s = (Ret bh, t) \<longrightarrow> m_brokers t (sc_current E) = Some (m_broker bh))
   \<and> (\<forall>c. m_brokers s (sc_current E) = Some c \<longrightarrow> c \<noteq> b \<longrightarrow>
        sc_throws E SC_ERROR (CCI_SC_REPORT_MSG_TYPE_PREFIX @ ''cci_broker_manager/register_broker'') \<longrightarrow>
        (\<exists>e. fst (register_broker E b s) = Exc e))"
proof -
  let ?entry = "case m_brokers s (sc_current E) of None \<Rightarrow> b | Some c \<Rightarrow> c"
  let ?s = "s\<lparr>m_brokers := (m_brokers s)(sc_current E \<mapsto> ?entry)\<rparr>"
  let ?err = "if b \<noteq> ?entry then CCI_REPORT_ERROR E ''cci_broker_manager/register_broker''
      ''A broker is already registered in the current hierarchy.'' else skipM"
  let ?og = "if sc_current E \<noteq> None then default_originator E
      else named_originator_c E (Some CCI_UNKNOWN_ORIGINATOR_STRING)"
  have run: "register_broker E b s = thenM ?err (bindM ?og (\<lambda>og. retM (create_broker_handle ?entry og))) ?s"
    by (simp add: register_broker_def)
  have "keeps (\<lambda>s t :: ('v, 'j) world. m_brokers t = m_brokers s)
      (thenM ?err (bindM ?og (\<lambda>og. retM (create_broker_handle ?entry og))))"
    by (intro registry_kept.keeps_rules originators_keep_registry)
  then have kept: "m_brokers (snd (register_broker E b s)) = m_brokers ?s"
    unfolding run keeps_def by blast
  then have "m_brokers (snd (register_broker E b s)) =
      (if m_brokers s (sc_current E) = None then (m_brokers s)(sc_current E \<mapsto> b) else m_brokers s)"
    by (auto simp: fun_upd_idem split: option.splits)
  moreover have "m_brokers t (sc_current E) = Some (m_broker bh)" if "register_broker E b s = (Ret bh, t)" for bh t
  proof -
    have "m_broker bh = ?entry"
      using that unfolding run by (auto simp: bindM_eq_Ret create_broker_handle_def)
    with kept that show ?thesis by simp
  qed
  moreover have "\<exists>e. fst (register_broker E b s) = Exc e"
    if "m_brokers s (sc_current E) = Some c" "c \<noteq> b"
      "sc_throws E SC_ERROR (CCI_SC_REPORT_MSG_TYPE_PREFIX @ ''cci_broker_manager/register_broker'')" for c
    using that unfolding run by (simp add: CCI_REPORT_ERROR_def report_def Let_def bindM_Exc)
  ultimately show ?thesis by blast
qed

lemma first_registration_wins_witness:
  "m_brokers (snd (register_broker (ex_modules (Some 5)) 2 ex_tree)) (Some 5) = Some 2
    \<and> (\<exists>e. fst (register_broker (ex_modules None) 2 ex_tree) = Exc e)"
  using first_registration_wins [of "ex_modules (Some 5)" 2 ex_tree] first_registration_wins [of "ex_modules None" 2 ex_tree]
  by (simp add: ex_modules_def ex_tree_def ex_world_def ex_env_def)

section \<open>Names\<close>

text \<open>
  A new parameter gets a name that nothing else has. With SystemC's registry of names, the
  name that the constructor of \<open>cci_param_untyped\<close> chooses was not registered before and is
  afterwards; it is the name that was asked for if that one (as a C string) was free, and no
  registered name is lost.
\<close>

lemma chosen_name_unique:
  assumes names: "systemc_names E" and finite: "finite (sc_names s)"
    and run: "choose_name E n b nm s = (Ret x, t)"
  shows "x \<notin> sc_names s \<and> x \<in> sc_names t \<and> sc_names s \<subseteq> sc_names t
    \<and> (c_str nm \<notin> sc_names s \<longrightarrow> x = c_str nm)"
proof -
  from run obtain y u where gen: "cci_gen_unique_name E (Some nm) s = (Ret y, u)"
    and rest: "(if y \<noteq> nm then
         bindM (getM (\<lambda>s. sc_name_exists E (c_str nm) (sc_names s))) (\<lambda>ex.
           if ex then retM y else bindM (has_preset_value n b nm) (\<lambda>has. retM (if has then y else nm)))
       else retM nm) u = (Ret x, t)"
    by (auto simp: choose_name_def bindM_eq_Ret)
  from gen_unique_name_result [OF names finite gen]
  have y: "y \<notin> sc_names s" "y \<in> sc_names u" "c_str nm \<notin> sc_names s \<longrightarrow> y = c_str nm" "sc_names s \<subseteq> sc_names u"
    by auto
  have "c_str nm \<in> sc_names u" using y by blast
  then have "sc_name_exists E (c_str nm) (sc_names u)" using names by (simp add: systemc_names_def)
  with rest have "x = y \<and> t = u" by (auto split: if_splits)
  with y show ?thesis by simp
qed

lemma chosen_name_unique_witness:
  "\<exists>t. choose_name (ex_env True) 1 0 ''p'' ex_world = (Ret ''xx'', t) \<and> ''xx'' \<notin> sc_names ex_world"
proof -
  obtain t where t: "choose_name (ex_env True) 1 0 ''p'' ex_world = (Ret ''xx'', t)"
    by (simp add: choose_name_def cci_gen_unique_name_def ex_env_def ex_world_def c_str_def Let_def
        CCI_REPORT_WARNING_def report_def return_name_def bindM_def)
  with chosen_name_unique [OF ex_env_names _ t] show ?thesis by (auto simp: ex_world_def)
qed

text \<open>Before SystemC 2.3.2: a new name, and a name that is in the table.\<close>

lemma pre232_new:
  assumes "nm \<noteq> []" and "map_find nm (cci_unique_names s) = None"
  shows "gen_unique_name_pre232 E (\<lambda>_. False) (Suc n) nm s =
    (Ret nm, s\<lparr>cci_unique_names := map_insert nm (0, cci_name_used) (cci_unique_names s)\<rparr>)"
  using assms by (simp add: Let_def)

lemma pre232_known:
  assumes "nm \<noteq> []" and "map_find nm (cci_unique_names s) = Some (k, st)"
  shows "gen_unique_name_pre232 E (\<lambda>_. False) (Suc n) nm s =
    thenM (gen_unique_name_pre232 E (\<lambda>_. False) n (nm @ ''_'' @ show_nat k)) (retM (nm @ ''_'' @ show_nat k))
      (s\<lparr>cci_unique_names := map_assign nm (Suc k, st) (cci_unique_names s)\<rparr>)"
  using assms by (simp add: Let_def map_insert_def del: retM_apply)

lemma show_nat_0: "show_nat 0 = ''0''"
  by code_simp

text \<open>
  Before SystemC 2.3.2 the generator of unique names gives the same name twice: the result
  of the recursive call, which makes the numbered name unique, is not used. If the name with
  the first number has been given out, asking twice for the plain name gives it out again.
\<close>

lemma old_generator_repeats_name:
  assumes "nm \<noteq> []" and "map_find nm (cci_unique_names s) = None"
    and "map_find (nm @ ''_0'') (cci_unique_names s) = None"
    and "map_find (nm @ ''_0_0'') (cci_unique_names s) = None"
  shows "\<exists>t u w. gen_unique_name_pre232 E (\<lambda>_. False) (Suc (Suc (Suc n))) (nm @ ''_0'') s = (Ret (nm @ ''_0''), t)
    \<and> gen_unique_name_pre232 E (\<lambda>_. False) (Suc (Suc (Suc n))) nm t = (Ret nm, u)
    \<and> gen_unique_name_pre232 E (\<lambda>_. False) (Suc (Suc (Suc n))) nm u = (Ret (nm @ ''_0''), w)"
proof -
  note [simp del] = gen_unique_name_pre232.simps
  let ?used = "(0, cci_name_used) :: nat \<times> cci_name_state"
  let ?t = "s\<lparr>cci_unique_names := map_insert (nm @ ''_0'') ?used (cci_unique_names s)\<rparr>"
  let ?u = "?t\<lparr>cci_unique_names := map_insert nm ?used (cci_unique_names ?t)\<rparr>"
  let ?v = "?u\<lparr>cci_unique_names := map_assign nm (Suc 0, cci_name_used) (cci_unique_names ?u)\<rparr>"
  let ?w = "?v\<lparr>cci_unique_names := map_assign (nm @ ''_0'') (Suc 0, cci_name_used) (cci_unique_names ?v)\<rparr>"
  have t: "gen_unique_name_pre232 E (\<lambda>_. False) (Suc (Suc (Suc n))) (nm @ ''_0'') s = (Ret (nm @ ''_0''), ?t)"
    using assms by (simp add: pre232_new)
  have u: "gen_unique_name_pre232 E (\<lambda>_. False) (Suc (Suc (Suc n))) nm ?t = (Ret nm, ?u)"
    using assms by (simp add: pre232_new)
  have nm2: "map_find (nm @ ''_0'') (cci_unique_names ?v) = Some ?used"
    and nm1: "map_find nm (cci_unique_names ?u) = Some ?used"
    and nm3: "map_find (nm @ ''_0_0'') (cci_unique_names ?w) = None"
    using assms by simp_all
  have "nm @ ''_0_0'' \<noteq> []" by simp
  then obtain x where "gen_unique_name_pre232 E (\<lambda>_. False) (Suc n) (nm @ ''_0_0'') ?w = (Ret (nm @ ''_0_0''), x)"
    using pre232_new [OF _ nm3, of E n] by blast
  then have "gen_unique_name_pre232 E (\<lambda>_. False) (Suc (Suc n)) (nm @ ''_0'') ?v = (Ret (nm @ ''_0_0''), x)"
    using pre232_known [OF _ nm2, of E "Suc n"] by (simp add: show_nat_0 bindM_Ret)
  then have "gen_unique_name_pre232 E (\<lambda>_. False) (Suc (Suc (Suc n))) nm ?u = (Ret (nm @ ''_0''), x)"
    using pre232_known [OF assms(1) nm1, of E "Suc (Suc n)"] by (simp add: show_nat_0 bindM_Ret)
  with t u show ?thesis by blast
qed

lemma old_generator_repeats_name_witness:
  "\<exists>t u w. gen_unique_name_pre232 (ex_env True) (\<lambda>_. False) 3 ''a_0'' \<lparr>reports = [], cci_unique_names = []\<rparr> = (Ret ''a_0'', t)
    \<and> gen_unique_name_pre232 (ex_env True) (\<lambda>_. False) 3 ''a'' t = (Ret ''a'', u)
    \<and> gen_unique_name_pre232 (ex_env True) (\<lambda>_. False) 3 ''a'' u = (Ret ''a_0'', w)"
  using old_generator_repeats_name [of "''a''" "\<lparr>reports = [], cci_unique_names = []\<rparr>" "ex_env True" 0]
  by (simp add: numeral_3_eq_3 del: gen_unique_name_pre232.simps)

section \<open>Originators\<close>

text \<open>
  Originators are compared consistently. Equality is an equivalence, the order by names is
  a strict weak order, and equal originators are equivalent in the order, so that they can be
  the keys of a \<open>std::map\<close>. The converse does not hold: an originator given by an object
  and one given by the name of that object are equivalent in the order and not equal.
\<close>

lemma originator_comparison:
  "originator_eq E a a \<and> (originator_eq E a b \<longrightarrow> originator_eq E b a)
   \<and> (originator_eq E a b \<and> originator_eq E b c \<longrightarrow> originator_eq E a c)
   \<and> \<not> originator_less E a a
   \<and> (originator_less E a b \<and> originator_less E b c \<longrightarrow> originator_less E a c)
   \<and> (originator_less E a c \<longrightarrow> originator_less E a b \<or> originator_less E b c)
   \<and> (originator_eq E a b \<longrightarrow> \<not> originator_less E a b \<and> \<not> originator_less E b a)"
proof -
  have same: "originator_eq E x y \<Longrightarrow> c_str (originator_name E x) = c_str (originator_name E y)" for x y
    by (cases "m_originator_obj x"; cases "m_originator_obj y")
      (auto simp: originator_eq_def strcmp_eq_0 originator_name_def)
  have "originator_less E a b \<and> originator_less E b c \<longrightarrow> originator_less E a c"
    unfolding originator_less_def strcmp_less_0 by (blast intro: less_trans)
  moreover have "originator_less E a c \<longrightarrow> originator_less E a b \<or> originator_less E b c"
    unfolding originator_less_def strcmp_less_0 by (metis less_linear less_trans)
  moreover have "originator_eq E a b \<longrightarrow> \<not> originator_less E a b \<and> \<not> originator_less E b a"
    unfolding originator_less_def strcmp_less_0 using same by simp
  moreover have "\<not> originator_less E a a" by (simp add: originator_less_def strcmp_less_0)
  ultimately show ?thesis using originator_eq_sym originator_eq_trans originator_eq_refl by blast
qed

lemma originator_comparison_witness:
  "originator_less (ex_env True) ex_originator ex_other
    \<and> \<not> originator_eq (ex_env True) ex_originator ex_other \<and> \<not> originator_less (ex_env True) ex_other ex_originator"
  using originator_comparison [of "ex_env True" ex_originator ex_other ex_originator]
  by (auto simp: originator_less_def strcmp_def originator_name_def ex_originator_def ex_other_def c_str_def)

section \<open>Handles\<close>

lemma new_handle_fields:
  assumes "params s i = Some p"
  shows "handles (new_handle (Some i) og s) = (handles s)(next_address s \<mapsto> \<lparr>m_param = Some i, h_originator = og\<rparr>)"
    and "params (new_handle (Some i) og s) i = Some (push_handle (next_address s) p)"
    and "next_address (new_handle (Some i) og s) = Suc (next_address s)"
  using assms by (simp_all add: new_handle_def attach_handle_def)

text \<open>
  C37. A typed handle is valid exactly if the type is right. \<open>cci_param_handle_typed<T>\<close> of a
  valid handle gives a new handle with the same originator rule as a copy; it refers to the
  same parameter if the parameter has type \<open>T\<close> and is invalid otherwise. The temporary copies
  are gone, the given handle is unchanged, and the parameter lists the new handle, if valid,
  and no other one more.
\<close>

theorem cast_valid_iff_type:
  assumes ok: "handles_ok s" and h: "handles s h = Some d" "m_param d = Some i" and p: "params s i = Some p"
  shows "\<exists>h' t. cci_param_cast E T h s = (Ret h', t) \<and> handles s h' = None
    \<and> handles t = (handles s)(h' \<mapsto> \<lparr>m_param = (if T = p_type p then Some i else None),
                                  h_originator = promoted E (h_originator d)\<rparr>)
    \<and> params t i = Some (p\<lparr>m_param_handles := m_param_handles p @ (if T = p_type p then [h'] else [])\<rparr>)"
proof -
  let ?og = "promoted E (h_originator d)" and ?a = "next_address s"
  have unused: "handles s a = None" if "?a \<le> a" for a
    using that handles_okD(1) [OF ok] by (simp add: fresh_def)
  have unlisted: "a \<notin> set (m_param_handles p)" if "?a \<le> a" for a
    using handles_okD(3) [OF ok p] unused [OF that] by fastforce
  let ?s1 = "new_handle (Some i) ?og s"
  note s1 = new_handle_fields [OF p, of ?og]
  let ?s2 = "new_handle (Some i) ?og ?s1"
  note s2 = new_handle_fields [OF s1(2), of ?og]
  let ?p2 = "push_handle (Suc ?a) (push_handle ?a p)"
  have a2: "handles ?s2 (Suc ?a) = Some \<lparr>m_param = Some i, h_originator = ?og\<rparr>"
    "handles ?s2 ?a = Some \<lparr>m_param = Some i, h_originator = ?og\<rparr>" "params ?s2 i = Some ?p2"
    using s1 s2 by simp_all
  have copy: "copy_handle E h s = (Ret ?a, ?s1)" by (rule copy_handle_run [OF h p])
  have move: "move_handle E ?a ?s1 = (Ret (Suc ?a), ?s2)"
    using copy_handle_run [of ?s1 ?a "\<lparr>m_param = Some i, h_originator = ?og\<rparr>" i "push_handle ?a p" E] s1
    by (simp add: move_handle_def)
  let ?s3 = "if T = p_type p then ?s2 else detach_handle (Suc ?a) ?s2"
  have type: "get_type_info ?p2 = p_type p" by (simp add: get_type_info_def push_handle_def)
  have a3: "handles ?s3 ?a = Some \<lparr>m_param = Some i, h_originator = ?og\<rparr>"
    using a2 by (simp add: detach_handle_def)
  have cast: "cci_param_cast E T h s = (Ret (Suc ?a), destroy_handle ?a ?s3)"
    using a2 a3 type
    by (cases "T = p_type p") (simp_all add: cci_param_cast_def bindM_def copy move read_param_def delete_handle_def)
  have "handles (destroy_handle ?a ?s3) =
      (handles s)(Suc ?a \<mapsto> \<lparr>m_param = (if T = p_type p then Some i else None), h_originator = ?og\<rparr>)"
    using a2 s1 s2 unused [of ?a]
    by (auto simp: destroy_handle_def forget_handle_def detach_handle_def fun_eq_iff)
  moreover have "params (destroy_handle ?a ?s3) i =
      Some (p\<lparr>m_param_handles := m_param_handles p @ (if T = p_type p then [Suc ?a] else [])\<rparr>)"
    using a2 unlisted [of ?a] unlisted [of "Suc ?a"]
    by (auto simp: destroy_handle_def forget_handle_def detach_handle_def drop_handle_def push_handle_def
        removeAll_id)
  ultimately show ?thesis using cast unused [of "Suc ?a"] by (intro exI conjI) auto
qed

theorem cast_valid_iff_type_witness:
  "\<exists>h' t. cci_param_cast (ex_env True) 1 2 ex_handled = (Ret h', t)
    \<and> handles t h' = Some \<lparr>m_param = None, h_originator = ex_other\<rparr>"
  using cast_valid_iff_type [OF ex_handled_ok _ _ ex_handled_param, of 2 "\<lparr>m_param = Some 1, h_originator = ex_other\<rparr>" "ex_env True" 1]
  by (auto simp: ex_handled_def new_handle_def attach_handle_def push_handle_def ex_param_def fresh_param_def
      promoted_def ex_env_def)

section \<open>Reports\<close>

text \<open>
  Failures are recognized. The report that \<open>cci_report_handler\<close> makes for each kind of
  failure is decoded as that kind, and \<open>cci_handle_exception\<close> returns it if it is the expected
  one or any failure is expected, and lets it propagate otherwise.
\<close>

lemma failure_roundtrip:
  assumes "(mt, f) \<in> set cci_msg_types"
  shows "decode_param_failure \<lparr>severity = SC_ERROR, msg_type = CCI_SC_REPORT_MSG_TYPE_PREFIX @ mt, msg = m\<rparr> = f
    \<and> cci_handle_exception (Sc_report \<lparr>severity = SC_ERROR, msg_type = CCI_SC_REPORT_MSG_TYPE_PREFIX @ mt, msg = m\<rparr>) expect
        = (if expect = f \<or> expect = CCI_ANY_FAILURE then Inr f
           else Inl (Sc_report \<lparr>severity = SC_ERROR, msg_type = CCI_SC_REPORT_MSG_TYPE_PREFIX @ mt, msg = m\<rparr>))"
proof -
  have "table_walk cci_msg_types mt = f" using assms by (auto simp: cci_msg_types_def)
  with table_walk_failure [of mt] show ?thesis
    by (auto simp: cci_handle_exception_def decode_prefixed Let_def)
qed

lemma failure_roundtrip_witness:
  "cci_handle_exception (Sc_report (set_param_report ''Parameter locked.'')) CCI_SET_PARAM_FAILURE
     = Inr CCI_SET_PARAM_FAILURE"
  using failure_roundtrip [of "''SET_PARAM_FAILED''" CCI_SET_PARAM_FAILURE "''Parameter locked.''" CCI_SET_PARAM_FAILURE]
  by (simp add: cci_msg_types_def set_param_report_def)

end
