(* ===== verification/Json_Interface.thy ===== *)
theory Json_Interface
  imports "HOL-Library.Word"
begin

text \<open>
  The document object model of RapidJSON, on which \<open>cci_value\<close> is built, as the library uses it.
  RapidJSON is not part of the repository: the record \<open>rapidjson\<close> holds the functions that the
  library calls, over a type \<open>'r\<close> of JSON values and a type \<open>'d\<close> of \<open>double\<close>; the locale
  \<open>rapidjson_model\<close> holds the documented behaviour that the lemmas use. Inside a value, a path
  (\<open>node_step list\<close>) leads to a nested value.
\<close>

section \<open>The functions\<close>

datatype json_type = kNullType | kFalseType | kTrueType | kObjectType | kArrayType
  | kStringType | kNumberType

text \<open>
  \<open>GetType\<close>, \<open>IsX\<close> and \<open>GetX\<close> are the functions of these names. \<open>Elements\<close> is what \<open>Size\<close>,
  \<open>operator[]\<close> and \<open>Begin\<close> read of an array, \<open>Members\<close> what \<open>MemberCount\<close>, \<open>MemberBegin\<close> and
  \<open>FindMember\<close> read of an object. The fields \<open>json_x\<close> are the values that \<open>SetX\<close> stores, for
  arrays and objects those with the given contents. \<open>json_equal\<close> is \<open>operator==\<close>,
  \<open>json_write\<close> is the text that \<open>Accept\<close> sends to a \<open>Writer\<close> with \<open>IsComplete\<close>, and
  \<open>json_parse\<close> is \<open>Parse\<close>, with \<open>Inl\<close> for the message and the offset of a \<open>ParseException\<close>;
  \<open>json_parse_stream\<close> is \<open>ParseStream\<close>, with the rest of the stream.
\<close>

record ('r, 'd) rapidjson =
  GetType :: "'r \<Rightarrow> json_type"
  IsInt :: "'r \<Rightarrow> bool"
  IsUint :: "'r \<Rightarrow> bool"
  IsInt64 :: "'r \<Rightarrow> bool"
  IsUint64 :: "'r \<Rightarrow> bool"
  IsDouble :: "'r \<Rightarrow> bool"
  GetInt :: "'r \<Rightarrow> 32 word"
  GetUint :: "'r \<Rightarrow> 32 word"
  GetInt64 :: "'r \<Rightarrow> 64 word"
  GetUint64 :: "'r \<Rightarrow> 64 word"
  GetDouble :: "'r \<Rightarrow> 'd"
  GetString :: "'r \<Rightarrow> string"
  Elements :: "'r \<Rightarrow> 'r list"
  Members :: "'r \<Rightarrow> (string \<times> 'r) list"
  json_null :: 'r
  json_bool :: "bool \<Rightarrow> 'r"
  json_int :: "32 word \<Rightarrow> 'r"
  json_uint :: "32 word \<Rightarrow> 'r"
  json_int64 :: "64 word \<Rightarrow> 'r"
  json_uint64 :: "64 word \<Rightarrow> 'r"
  json_double :: "'d \<Rightarrow> 'r"
  json_string :: "string \<Rightarrow> 'r"
  json_array :: "'r list \<Rightarrow> 'r"
  json_object :: "(string \<times> 'r) list \<Rightarrow> 'r"
  json_equal :: "'r \<Rightarrow> 'r \<Rightarrow> bool"
  json_write :: "'r \<Rightarrow> string \<times> bool"
  json_parse :: "string \<Rightarrow> string + 'r"
  json_parse_stream :: "string \<Rightarrow> (string + 'r) \<times> string"

definition IsNull :: "('r, 'd) rapidjson \<Rightarrow> 'r \<Rightarrow> bool" where
  "IsNull J r \<longleftrightarrow> GetType J r = kNullType"

definition IsBool :: "('r, 'd) rapidjson \<Rightarrow> 'r \<Rightarrow> bool" where
  "IsBool J r \<longleftrightarrow> GetType J r = kTrueType \<or> GetType J r = kFalseType"

definition GetBool :: "('r, 'd) rapidjson \<Rightarrow> 'r \<Rightarrow> bool" where
  "GetBool J r \<longleftrightarrow> GetType J r = kTrueType"

definition IsString :: "('r, 'd) rapidjson \<Rightarrow> 'r \<Rightarrow> bool" where
  "IsString J r \<longleftrightarrow> GetType J r = kStringType"

definition IsArray :: "('r, 'd) rapidjson \<Rightarrow> 'r \<Rightarrow> bool" where
  "IsArray J r \<longleftrightarrow> GetType J r = kArrayType"

definition IsObject :: "('r, 'd) rapidjson \<Rightarrow> 'r \<Rightarrow> bool" where
  "IsObject J r \<longleftrightarrow> GetType J r = kObjectType"

lemmas json_queries = IsNull_def IsBool_def GetBool_def IsString_def IsArray_def IsObject_def

section \<open>The documented behaviour\<close>

locale rapidjson_model =
  fixes J :: "('r, 'd) rapidjson"
  assumes type_null: "GetType J (json_null J) = kNullType"
    and type_bool: "GetType J (json_bool J b) = (if b then kTrueType else kFalseType)"
    and type_int: "GetType J (json_int J i) = kNumberType"
    and type_uint: "GetType J (json_uint J u) = kNumberType"
    and type_int64: "GetType J (json_int64 J l) = kNumberType"
    and type_uint64: "GetType J (json_uint64 J m) = kNumberType"
    and type_double: "GetType J (json_double J d) = kNumberType"
    and type_string: "GetType J (json_string J s) = kStringType"
    and type_array: "GetType J (json_array J xs) = kArrayType"
    and type_object: "GetType J (json_object J ms) = kObjectType"
    and number_type: "IsInt J r \<or> IsUint J r \<or> IsInt64 J r \<or> IsUint64 J r \<or> IsDouble J r
      \<Longrightarrow> GetType J r = kNumberType"
    and int: "IsInt J (json_int J i)" "GetInt J (json_int J i) = i"
    and uint: "IsUint J (json_uint J u)" "GetUint J (json_uint J u) = u"
    and int64: "IsInt64 J (json_int64 J l)" "GetInt64 J (json_int64 J l) = l"
    and uint64: "IsUint64 J (json_uint64 J m)" "GetUint64 J (json_uint64 J m) = m"
    and double: "IsDouble J (json_double J d)" "GetDouble J (json_double J d) = d"
    and integral: "\<not> IsDouble J (json_int J i)" "\<not> IsDouble J (json_uint J u)"
      "\<not> IsDouble J (json_int64 J l)" "\<not> IsDouble J (json_uint64 J m)"
    and string: "GetString J (json_string J s) = s"
    and equal_string: "json_equal J (json_string J s) (json_string J t) \<longleftrightarrow> s = t"
    and elements: "Elements J (json_array J xs) = xs"
    and members: "Members J (json_object J ms) = ms"
    and array_eta: "GetType J r = kArrayType \<Longrightarrow> json_array J (Elements J r) = r"
    and object_eta: "GetType J r = kObjectType \<Longrightarrow> json_object J (Members J r) = r"
begin

lemmas json_types = type_null type_bool type_int type_uint type_int64 type_uint64 type_double
  type_string type_array type_object

lemmas json_laws = json_types int uint int64 uint64 double integral string elements members

end

section \<open>Paths\<close>

text \<open>
  \<open>At i\<close> is the element \<open>i\<close> of an array, \<open>Key_of i\<close> and \<open>Value_of i\<close> are the name and the value of
  the member \<open>i\<close> of an object.
\<close>

datatype node_step = At nat | Key_of nat | Value_of nat

fun node_get :: "('r, 'd) rapidjson \<Rightarrow> node_step list \<Rightarrow> 'r \<Rightarrow> 'r option" where
  "node_get J [] r = Some r"
| "node_get J (At i # p) r =
     (if IsArray J r \<and> i < length (Elements J r) then node_get J p (Elements J r ! i) else None)"
| "node_get J (Key_of i # p) r =
     (if IsObject J r \<and> i < length (Members J r)
      then node_get J p (json_string J (fst (Members J r ! i))) else None)"
| "node_get J (Value_of i # p) r =
     (if IsObject J r \<and> i < length (Members J r) then node_get J p (snd (Members J r ! i)) else None)"

text \<open>Names of members are reached through constant references only.\<close>

fun node_put :: "('r, 'd) rapidjson \<Rightarrow> node_step list \<Rightarrow> 'r \<Rightarrow> 'r \<Rightarrow> 'r" where
  "node_put J [] x r = x"
| "node_put J (At i # p) x r =
     json_array J ((Elements J r)[i := node_put J p x (Elements J r ! i)])"
| "node_put J (Key_of i # p) x r = r"
| "node_put J (Value_of i # p) x r =
     json_object J ((Members J r)[i := (fst (Members J r ! i), node_put J p x (snd (Members J r ! i)))])"

fun writable :: "node_step list \<Rightarrow> bool" where
  "writable [] = True"
| "writable (Key_of i # p) = False"
| "writable (_ # p) = writable p"

text \<open>Two paths are apart if neither leads through the other.\<close>

fun apart :: "node_step list \<Rightarrow> node_step list \<Rightarrow> bool" where
  "apart (a # p) (b # q) = (a \<noteq> b \<or> apart p q)"
| "apart _ _ = False"

lemma node_get_append: "node_get J (p @ q) r = Option.bind (node_get J p r) (node_get J q)"
proof (induction p arbitrary: r)
  case Nil
  show ?case by simp
next
  case (Cons a p)
  then show ?case by (cases a) auto
qed

lemma node_get_snoc:
  "node_get J p r = Some y \<Longrightarrow> node_get J (p @ [a]) r = node_get J [a] y"
  by (simp add: node_get_append)

lemma apart_sym: "apart p q \<longleftrightarrow> apart q p"
  by (induction p q rule: apart.induct) auto

lemma apart_not_refl [simp]: "\<not> apart p p"
  by (induction p) auto

lemma writable_append: "writable (p @ q) \<longleftrightarrow> writable p \<and> writable q"
proof (induction p)
  case Nil
  show ?case by simp
next
  case (Cons a p)
  then show ?case by (cases a) auto
qed

context rapidjson_model
begin

lemma is_array [simp]: "IsArray J (json_array J xs)"
  by (simp add: IsArray_def type_array)

lemma is_object [simp]: "IsObject J (json_object J ms)"
  by (simp add: IsObject_def type_object)

text \<open>Writing at a path and reading at it, at another one, and writing again.\<close>

lemma get_put:
  "node_get J p r = Some y \<Longrightarrow> writable p \<Longrightarrow> node_get J p (node_put J p x r) = Some x"
proof (induction p arbitrary: r)
  case Nil
  show ?case by simp
next
  case (Cons a p)
  then show ?case by (cases a) (auto simp: elements members split: if_splits)
qed

lemma get_put_apart:
  "node_get J p r = Some y \<Longrightarrow> writable p \<Longrightarrow> apart p q
   \<Longrightarrow> node_get J q (node_put J p x r) = node_get J q r"
proof (induction p q arbitrary: r rule: apart.induct)
  case (1 a p b q)
  show ?case
  proof (cases "a = b")
    case True
    with 1 show ?thesis
      by (cases a) (auto simp: elements members split: if_splits)
  next
    case False
    with 1 show ?thesis
      by (cases a; cases b)
        (auto simp: elements members IsArray_def IsObject_def type_array type_object nth_list_update
          split: if_splits)
  qed
qed simp_all

lemma put_get: "node_get J p r = Some y \<Longrightarrow> writable p \<Longrightarrow> node_put J p y r = r"
proof (induction p arbitrary: r)
  case Nil
  then show ?case by simp
next
  case (Cons a p)
  then show ?case
    by (cases a) (auto simp: IsArray_def IsObject_def array_eta object_eta split: if_splits)
qed

lemma put_put:
  "node_get J p r = Some y \<Longrightarrow> writable p \<Longrightarrow> node_put J p x (node_put J p z r) = node_put J p x r"
proof (induction p arbitrary: r)
  case Nil
  show ?case by simp
next
  case (Cons a p)
  then show ?case by (cases a) (auto simp: elements members split: if_splits)
qed

text \<open>What a path leads to after its end has been written.\<close>

lemma get_put_below:
  "node_get J p r = Some y \<Longrightarrow> writable p \<Longrightarrow> node_get J (p @ q) (node_put J p x r) = node_get J q x"
  by (simp add: node_get_append get_put)

end

section \<open>An instance\<close>

text \<open>
  That the documented behaviour is consistent: a concrete type of JSON values. Integral numbers
  are integers in the range of the two 64-bit types, and integers stand for \<open>double\<close> too.
\<close>

datatype json =
    JNull
  | JBool bool
  | JInt int
  | JDouble int
  | JString string
  | JArray "json list"
  | JObject "(string \<times> json) list"

fun plain_type :: "json \<Rightarrow> json_type" where
  "plain_type JNull = kNullType"
| "plain_type (JBool b) = (if b then kTrueType else kFalseType)"
| "plain_type (JInt i) = kNumberType"
| "plain_type (JDouble d) = kNumberType"
| "plain_type (JString s) = kStringType"
| "plain_type (JArray xs) = kArrayType"
| "plain_type (JObject ms) = kObjectType"

fun plain_int :: "json \<Rightarrow> int" where
  "plain_int (JInt i) = i"
| "plain_int (JDouble d) = d"
| "plain_int _ = 0"

fun plain_is_int :: "json \<Rightarrow> bool" where
  "plain_is_int (JInt i) = True"
| "plain_is_int _ = False"

fun plain_elements :: "json \<Rightarrow> json list" where
  "plain_elements (JArray xs) = xs"
| "plain_elements _ = []"

fun plain_members :: "json \<Rightarrow> (string \<times> json) list" where
  "plain_members (JObject ms) = ms"
| "plain_members _ = []"

fun plain_string :: "json \<Rightarrow> string" where
  "plain_string (JString s) = s"
| "plain_string _ = []"

definition plain_json :: "(json, int) rapidjson" where
  "plain_json = \<lparr>
     GetType = plain_type,
     IsInt = (\<lambda>r. plain_is_int r \<and> - (2 ^ 31) \<le> plain_int r \<and> plain_int r < 2 ^ 31),
     IsUint = (\<lambda>r. plain_is_int r \<and> 0 \<le> plain_int r \<and> plain_int r < 2 ^ 32),
     IsInt64 = (\<lambda>r. plain_is_int r \<and> - (2 ^ 63) \<le> plain_int r \<and> plain_int r < 2 ^ 63),
     IsUint64 = (\<lambda>r. plain_is_int r \<and> 0 \<le> plain_int r \<and> plain_int r < 2 ^ 64),
     IsDouble = (\<lambda>r. plain_type r = kNumberType \<and> \<not> plain_is_int r),
     GetInt = (\<lambda>r. word_of_int (plain_int r)), GetUint = (\<lambda>r. word_of_int (plain_int r)),
     GetInt64 = (\<lambda>r. word_of_int (plain_int r)), GetUint64 = (\<lambda>r. word_of_int (plain_int r)),
     GetDouble = plain_int, GetString = plain_string,
     Elements = plain_elements, Members = plain_members,
     json_null = JNull, json_bool = JBool, json_int = (\<lambda>i. JInt (sint i)), json_uint = (\<lambda>u. JInt (uint u)),
     json_int64 = (\<lambda>l. JInt (sint l)), json_uint64 = (\<lambda>m. JInt (uint m)),
     json_double = JDouble, json_string = JString, json_array = JArray, json_object = JObject,
     json_equal = (=), json_write = (\<lambda>r. (''...'', True)),
     json_parse = (\<lambda>s. if s = ''null'' then Inr JNull else Inl ''Invalid value. (offset: 0)''),
     json_parse_stream = (\<lambda>s. if take 4 s = ''null'' then (Inr JNull, drop 4 s)
                               else (Inl ''Invalid value. (offset: 0)'', s))\<rparr>"

lemma plain_json_model: "rapidjson_model plain_json"
proof
  fix r :: json
  show "GetType plain_json r = kArrayType \<Longrightarrow> json_array plain_json (Elements plain_json r) = r"
    by (cases r) (simp_all add: plain_json_def split: if_splits)
  show "GetType plain_json r = kObjectType \<Longrightarrow> json_object plain_json (Members plain_json r) = r"
    by (cases r) (simp_all add: plain_json_def split: if_splits)
  show "IsInt plain_json r \<or> IsUint plain_json r \<or> IsInt64 plain_json r \<or> IsUint64 plain_json r
      \<or> IsDouble plain_json r \<Longrightarrow> GetType plain_json r = kNumberType"
    by (cases r) (auto simp: plain_json_def)
next
  fix i :: "32 word"
  show "IsInt plain_json (json_int plain_json i)"
    using sint_range_size [of i] by (simp add: plain_json_def word_size)
  show "IsUint plain_json (json_uint plain_json i)"
    using uint_lt2p [of i] by (simp add: plain_json_def)
next
  fix l :: "64 word"
  show "IsInt64 plain_json (json_int64 plain_json l)"
    using sint_range_size [of l] by (simp add: plain_json_def word_size)
  show "IsUint64 plain_json (json_uint64 plain_json l)"
    using uint_lt2p [of l] by (simp add: plain_json_def)
qed (simp_all add: plain_json_def)

interpretation plain: rapidjson_model plain_json
  by (rule plain_json_model)

end
