(* ===== verification/Value_State.thy ===== *)
theory Value_State
  imports Report Json_Interface
begin

text \<open>
  The memory of \<open>cci_value\<close> (src/src/cci/core/cci_value.cpp): the pool of the RapidJSON values at
  the top level (\<open>impl_pool\<close>), the pointers into them, and the owning objects \<open>cci_value\<close>,
  \<open>cci_value_list\<close> and \<open>cci_value_map\<close>. Every pointer \<open>pimpl_\<close> is null or leads to a value of the
  pool or to a value nested in one. Reading through a null pointer, into a released value or at
  a path that is not there is undefined behaviour in C++ and the outcome \<open>Abort\<close> here.
\<close>

section \<open>State\<close>

type_synonym impl_addr = nat
type_synonym node = "impl_addr \<times> node_step list"
type_synonym impl_type = "node option"
type_synonym wid = nat

datatype wrapper_kind = Kind_value | Kind_list | Kind_map

record wrapper =
  w_kind :: wrapper_kind
  pimpl :: impl_type
  own_pimpl :: "impl_addr option"

record 'r value_state = sc_state +
  pool :: "impl_addr \<Rightarrow> 'r option"
  free_list :: "impl_addr list"
  next_impl :: impl_addr
  wrappers :: "wid \<Rightarrow> wrapper option"
  next_wid :: wid

type_synonym ('r, 'a) vcomp = "('r value_state, exn, 'a) comp"

section \<open>Values by pointer\<close>

definition node_at :: "('r, 'd) rapidjson \<Rightarrow> 'r value_state \<Rightarrow> node \<Rightarrow> 'r option" where
  "node_at J s n = (case pool s (fst n) of None \<Rightarrow> None | Some r \<Rightarrow> node_get J (snd n) r)"

definition write_node :: "('r, 'd) rapidjson \<Rightarrow> node \<Rightarrow> 'r \<Rightarrow> 'r value_state \<Rightarrow> 'r value_state" where
  "write_node J n x s =
     (case pool s (fst n) of
        None \<Rightarrow> s
      | Some r \<Rightarrow> s\<lparr>pool := (pool s)(fst n := Some (node_put J (snd n) x r))\<rparr>)"

text \<open>\<open>the_node\<close> is \<open>*THIS\<close>, \<open>set_node\<close> an assignment to it.\<close>

definition the_node :: "('r, 'd) rapidjson \<Rightarrow> impl_type \<Rightarrow> ('r, 'r) vcomp" where
  "the_node J v s =
     (case v of
        None \<Rightarrow> (Abort, s)
      | Some n \<Rightarrow> (case node_at J s n of None \<Rightarrow> (Abort, s) | Some r \<Rightarrow> (Ret r, s)))"

definition set_node :: "('r, 'd) rapidjson \<Rightarrow> impl_type \<Rightarrow> 'r \<Rightarrow> ('r, unit) vcomp" where
  "set_node J v x s =
     (case v of
        None \<Rightarrow> (Abort, s)
      | Some n \<Rightarrow> (case node_at J s n of None \<Rightarrow> (Abort, s) | Some r \<Rightarrow> (Ret (), write_node J n x s)))"

text \<open>
  Assignment between RapidJSON values moves: the source becomes null.
\<close>

definition take_node :: "('r, 'd) rapidjson \<Rightarrow> impl_type \<Rightarrow> ('r, 'r) vcomp" where
  "take_node J v = bindM (the_node J v) (\<lambda>r. thenM (set_node J v (json_null J)) (retM r))"

text \<open>
  Two pointers into the same value overlap if one leads through the other. RapidJSON does not say
  what \<open>CopyFrom\<close> and \<open>Swap\<close> do then.
\<close>

definition overlap :: "impl_type \<Rightarrow> impl_type \<Rightarrow> bool" where
  "overlap v w =
     (case v of None \<Rightarrow> False
      | Some n \<Rightarrow> (case w of None \<Rightarrow> False
                  | Some m \<Rightarrow> fst n = fst m \<and> \<not> apart (snd n) (snd m)))"

text \<open>The macro \<open>VALUE_ASSERT\<close>.\<close>

definition value_assert :: "'x sc_env_scheme \<Rightarrow> bool \<Rightarrow> string \<Rightarrow> string \<Rightarrow> ('r, unit) vcomp" where
  "value_assert E c m cond =
     (if c then skipM
      else thenM (cci_value_failure E (m @ CHR 0x0A # '' Condition: '' @ cond)) abortM)"

section \<open>The pool\<close>

definition impl_allocate :: "('r, 'd) rapidjson \<Rightarrow> ('r, impl_addr) vcomp" where
  "impl_allocate J s =
     (case free_list s of
        a # as \<Rightarrow> (Ret a, s\<lparr>free_list := as, pool := (pool s)(a := Some (json_null J))\<rparr>)
      | [] \<Rightarrow> (Ret (next_impl s), s\<lparr>next_impl := Suc (next_impl s),
                                  pool := (pool s)(next_impl s := Some (json_null J))\<rparr>))"

definition impl_deallocate :: "impl_addr option \<Rightarrow> 'r value_state \<Rightarrow> 'r value_state" where
  "impl_deallocate e s =
     (case e of
        None \<Rightarrow> s
      | Some a \<Rightarrow> s\<lparr>pool := (pool s)(a := None), free_list := a # free_list s\<rparr>)"

section \<open>The owning objects\<close>

definition the_wrapper :: "wid \<Rightarrow> ('r, wrapper) vcomp" where
  "the_wrapper w s = (case wrappers s w of None \<Rightarrow> (Abort, s) | Some x \<Rightarrow> (Ret x, s))"

definition set_wrapper :: "wid \<Rightarrow> wrapper \<Rightarrow> 'r value_state \<Rightarrow> 'r value_state" where
  "set_wrapper w x s = s\<lparr>wrappers := (wrappers s)(w := Some x)\<rparr>"

definition alloc_wrapper :: "wrapper_kind \<Rightarrow> ('r, wid) vcomp" where
  "alloc_wrapper k s =
     (Ret (next_wid s),
      s\<lparr>wrappers := (wrappers s)(next_wid s := Some \<lparr>w_kind = k, pimpl = None, own_pimpl = None\<rparr>),
        next_wid := Suc (next_wid s)\<rparr>)"

text \<open>\<open>do_init\<close>, with what \<open>WRAPPER_DO_INIT_\<close> is for the class.\<close>

definition do_init :: "('r, 'd) rapidjson \<Rightarrow> wid \<Rightarrow> ('r, impl_type) vcomp" where
  "do_init J w =
     bindM (the_wrapper w) (\<lambda>x.
       thenM (assertM (own_pimpl x = None))
         (bindM (impl_allocate J) (\<lambda>a.
           thenM (modM (set_wrapper w (x\<lparr>pimpl := Some (a, []), own_pimpl := Some a\<rparr>)))
             (thenM (case w_kind x of
                       Kind_value \<Rightarrow> skipM
                     | Kind_list \<Rightarrow> set_node J (Some (a, [])) (json_array J [])
                     | Kind_map \<Rightarrow> set_node J (Some (a, [])) (json_object J []))
               (retM (Some (a, [])))))))"

definition init_wrapper :: "('r, 'd) rapidjson \<Rightarrow> wid \<Rightarrow> ('r, impl_type) vcomp" where
  "init_wrapper J w =
     bindM (the_wrapper w) (\<lambda>x. if pimpl x = None then do_init J w else retM (pimpl x))"

text \<open>The destructor.\<close>

definition delete_wrapper :: "wid \<Rightarrow> 'r value_state \<Rightarrow> 'r value_state" where
  "delete_wrapper w s =
     (case wrappers s w of
        None \<Rightarrow> s
      | Some x \<Rightarrow> (impl_deallocate (own_pimpl x) s)\<lparr>wrappers := (wrappers s)(w := None)\<rparr>)"

section \<open>Lemmas\<close>

lemma the_node_Some: "node_at J s n = Some r \<Longrightarrow> the_node J (Some n) s = (Ret r, s)"
  by (simp add: the_node_def)

lemma set_node_Some: "node_at J s n = Some r \<Longrightarrow> set_node J (Some n) x s = (Ret (), write_node J n x s)"
  by (simp add: set_node_def)

lemma the_node_None [simp]: "the_node J None = abortM"
  by (rule ext) (simp add: the_node_def)

lemma set_node_None [simp]: "set_node J None x = abortM"
  by (rule ext) (simp add: set_node_def)

lemma take_node_Some:
  "node_at J s n = Some r \<Longrightarrow> take_node J (Some n) s = (Ret r, write_node J n (json_null J) s)"
  by (simp add: take_node_def bindM_def the_node_Some set_node_Some)

lemma the_wrapper_Some: "wrappers s w = Some x \<Longrightarrow> the_wrapper w s = (Ret x, s)"
  by (simp add: the_wrapper_def)

lemma write_node_frame [simp]:
  "wrappers (write_node J n x s) = wrappers s" "free_list (write_node J n x s) = free_list s"
  "next_impl (write_node J n x s) = next_impl s" "next_wid (write_node J n x s) = next_wid s"
  "reports (write_node J n x s) = reports s"
  "pool (write_node J n x s) a = None \<longleftrightarrow> pool s a = None"
  by (simp_all add: write_node_def split: option.splits)

context rapidjson_model
begin

lemma node_at_write:
  "node_at J s n = Some r \<Longrightarrow> writable (snd n) \<Longrightarrow> node_at J (write_node J n x s) n = Some x"
  by (auto simp: node_at_def write_node_def get_put split: option.splits)

text \<open>A value that does not overlap the one written stays.\<close>

lemma node_at_write_apart:
  "node_at J s n = Some r \<Longrightarrow> writable (snd n) \<Longrightarrow> \<not> overlap (Some n) (Some m)
   \<Longrightarrow> node_at J (write_node J n x s) m = node_at J s m"
  by (auto simp: node_at_def write_node_def overlap_def get_put_apart split: option.splits)

lemma node_at_below:
  "node_at J s n = Some r \<Longrightarrow> node_at J s (fst n, snd n @ q) = node_get J q r"
  by (auto simp: node_at_def node_get_append split: option.splits)

lemma write_node_same: "node_at J s n = Some r \<Longrightarrow> writable (snd n) \<Longrightarrow> write_node J n r s = s"
  by (auto simp: node_at_def write_node_def put_get fun_upd_idem split: option.splits)

lemma write_node_twice:
  "node_at J s n = Some r \<Longrightarrow> writable (snd n) \<Longrightarrow> write_node J n x (write_node J n y s) = write_node J n x s"
  by (auto simp: node_at_def write_node_def put_put split: option.splits)

end

end
