(* ===== verification/Cci_Value.thy ===== *)
theory Cci_Value
  imports Value_State Cci_State
begin

text \<open>
  The references to values (src/src/cci/core/cci_value.h and .cpp): \<open>cci_value_cref\<close>,
  \<open>cci_value_ref\<close>, \<open>cci_value_string_cref\<close> and \<open>cci_value_string_ref\<close>. A reference is a pointer to a
  RapidJSON value, which can be null; copying a reference copies the pointer. The operations of
  lists, maps and owning objects are in the theories that follow.
\<close>

type_synonym cci_value_cref = impl_type
type_synonym cci_value_ref = impl_type

text \<open>
  Failing preconditions of RapidJSON throw \<open>AssertException\<close> (src/src/cci/core/rapidjson.h).
\<close>

definition AssertException :: exn where
  "AssertException = User_exn 0"

definition json_assert :: "bool \<Rightarrow> ('r, unit) vcomp" where
  "json_assert c = (if c then skipM else throwM AssertException)"

section \<open>Queries\<close>

text \<open>\<open>THIS && THIS->f()\<close>.\<close>

definition query :: "('r, 'd) rapidjson \<Rightarrow> ('r \<Rightarrow> bool) \<Rightarrow> cci_value_cref \<Rightarrow> ('r, bool) vcomp" where
  "query J f v = (if v = None then retM False else bindM (the_node J v) (\<lambda>r. retM (f r)))"

definition category :: "('r, 'd) rapidjson \<Rightarrow> cci_value_cref \<Rightarrow> ('r, cci_value_category) vcomp" where
  "category J v =
     (if v = None then retM CCI_NULL_VALUE
      else bindM (the_node J v) (\<lambda>r. retM
        (case GetType J r of
           kFalseType \<Rightarrow> CCI_BOOL_VALUE
         | kTrueType \<Rightarrow> CCI_BOOL_VALUE
         | kNumberType \<Rightarrow> if IsDouble J r then CCI_REAL_VALUE else CCI_INTEGRAL_VALUE
         | kStringType \<Rightarrow> CCI_STRING_VALUE
         | kArrayType \<Rightarrow> CCI_LIST_VALUE
         | kObjectType \<Rightarrow> CCI_OTHER_VALUE
         | kNullType \<Rightarrow> CCI_NULL_VALUE)))"

definition is_null :: "('r, 'd) rapidjson \<Rightarrow> cci_value_cref \<Rightarrow> ('r, bool) vcomp" where
  "is_null J v = (if v = None then retM True else bindM (the_node J v) (\<lambda>r. retM (IsNull J r)))"

definition is_bool :: "('r, 'd) rapidjson \<Rightarrow> cci_value_cref \<Rightarrow> ('r, bool) vcomp" where
  "is_bool J v = query J (IsBool J) v"

definition is_int :: "('r, 'd) rapidjson \<Rightarrow> cci_value_cref \<Rightarrow> ('r, bool) vcomp" where
  "is_int J v = query J (IsInt J) v"

definition is_uint :: "('r, 'd) rapidjson \<Rightarrow> cci_value_cref \<Rightarrow> ('r, bool) vcomp" where
  "is_uint J v = query J (IsUint J) v"

definition is_int64 :: "('r, 'd) rapidjson \<Rightarrow> cci_value_cref \<Rightarrow> ('r, bool) vcomp" where
  "is_int64 J v = query J (IsInt64 J) v"

definition is_uint64 :: "('r, 'd) rapidjson \<Rightarrow> cci_value_cref \<Rightarrow> ('r, bool) vcomp" where
  "is_uint64 J v = query J (IsUint64 J) v"

definition is_double :: "('r, 'd) rapidjson \<Rightarrow> cci_value_cref \<Rightarrow> ('r, bool) vcomp" where
  "is_double J v = query J (IsDouble J) v"

definition is_string :: "('r, 'd) rapidjson \<Rightarrow> cci_value_cref \<Rightarrow> ('r, bool) vcomp" where
  "is_string J v = query J (IsString J) v"

definition is_list :: "('r, 'd) rapidjson \<Rightarrow> cci_value_cref \<Rightarrow> ('r, bool) vcomp" where
  "is_list J v = query J (IsArray J) v"

definition is_map :: "('r, 'd) rapidjson \<Rightarrow> cci_value_cref \<Rightarrow> ('r, bool) vcomp" where
  "is_map J v = query J (IsObject J) v"

definition is_number :: "('r, 'd) rapidjson \<Rightarrow> cci_value_cref \<Rightarrow> ('r, bool) vcomp" where
  "is_number J v =
     bindM (is_int64 J v) (\<lambda>a. if a then retM True
       else bindM (is_uint64 J v) (\<lambda>b. if b then retM True else is_double J v))"

section \<open>Reading\<close>

text \<open>\<open>ASSERT_TYPE\<close> and the access behind it.\<close>

definition checked_get :: "'x sc_env_scheme \<Rightarrow> ('r, 'd) rapidjson \<Rightarrow> (cci_value_cref \<Rightarrow> ('r, bool) vcomp)
    \<Rightarrow> string \<Rightarrow> ('r \<Rightarrow> 'a) \<Rightarrow> cci_value_cref \<Rightarrow> ('r, 'a) vcomp" where
  "checked_get E J is cond get v =
     bindM (is v) (\<lambda>b. thenM (value_assert E b ''invalid type access'' cond)
       (bindM (the_node J v) (\<lambda>r. retM (get r))))"

definition get_bool :: "'x sc_env_scheme \<Rightarrow> ('r, 'd) rapidjson \<Rightarrow> cci_value_cref \<Rightarrow> ('r, bool) vcomp" where
  "get_bool E J v = checked_get E J (is_bool J) ''is_bool()'' (GetBool J) v"

definition get_int :: "'x sc_env_scheme \<Rightarrow> ('r, 'd) rapidjson \<Rightarrow> cci_value_cref \<Rightarrow> ('r, 32 word) vcomp" where
  "get_int E J v = checked_get E J (is_int J) ''is_int()'' (GetInt J) v"

definition get_uint :: "'x sc_env_scheme \<Rightarrow> ('r, 'd) rapidjson \<Rightarrow> cci_value_cref \<Rightarrow> ('r, 32 word) vcomp" where
  "get_uint E J v = checked_get E J (is_uint J) ''is_uint()'' (GetUint J) v"

definition get_int64 :: "'x sc_env_scheme \<Rightarrow> ('r, 'd) rapidjson \<Rightarrow> cci_value_cref \<Rightarrow> ('r, 64 word) vcomp" where
  "get_int64 E J v = checked_get E J (is_int64 J) ''is_int64()'' (GetInt64 J) v"

definition get_uint64 :: "'x sc_env_scheme \<Rightarrow> ('r, 'd) rapidjson \<Rightarrow> cci_value_cref \<Rightarrow> ('r, 64 word) vcomp" where
  "get_uint64 E J v = checked_get E J (is_uint64 J) ''is_uint64()'' (GetUint64 J) v"

definition get_double :: "'x sc_env_scheme \<Rightarrow> ('r, 'd) rapidjson \<Rightarrow> cci_value_cref \<Rightarrow> ('r, 'd) vcomp" where
  "get_double E J v = checked_get E J (is_number J) ''is_number()'' (GetDouble J) v"

definition get_number :: "'x sc_env_scheme \<Rightarrow> ('r, 'd) rapidjson \<Rightarrow> cci_value_cref \<Rightarrow> ('r, 'd) vcomp" where
  "get_number E J v = get_double E J v"

text \<open>A reference of the special class is the same pointer.\<close>

definition get_string :: "'x sc_env_scheme \<Rightarrow> ('r, 'd) rapidjson \<Rightarrow> cci_value_cref \<Rightarrow> ('r, cci_value_cref) vcomp" where
  "get_string E J v =
     bindM (is_string J v) (\<lambda>b. thenM (value_assert E b ''invalid type access'' ''is_string()'') (retM v))"

definition get_list :: "'x sc_env_scheme \<Rightarrow> ('r, 'd) rapidjson \<Rightarrow> cci_value_cref \<Rightarrow> ('r, cci_value_cref) vcomp" where
  "get_list E J v =
     bindM (is_list J v) (\<lambda>b. thenM (value_assert E b ''invalid type access'' ''is_list()'') (retM v))"

definition get_map :: "'x sc_env_scheme \<Rightarrow> ('r, 'd) rapidjson \<Rightarrow> cci_value_cref \<Rightarrow> ('r, cci_value_cref) vcomp" where
  "get_map E J v =
     bindM (is_map J v) (\<lambda>b. thenM (value_assert E b ''invalid type access'' ''is_map()'') (retM v))"

definition is_false :: "'x sc_env_scheme \<Rightarrow> ('r, 'd) rapidjson \<Rightarrow> cci_value_cref \<Rightarrow> ('r, bool) vcomp" where
  "is_false E J v = bindM (is_bool J v) (\<lambda>b. if b then bindM (get_bool E J v) (\<lambda>x. retM (\<not> x)) else retM False)"

definition is_true :: "'x sc_env_scheme \<Rightarrow> ('r, 'd) rapidjson \<Rightarrow> cci_value_cref \<Rightarrow> ('r, bool) vcomp" where
  "is_true E J v = bindM (is_bool J v) (\<lambda>b. if b then get_bool E J v else retM False)"

section \<open>Comparison and text\<close>

definition is_same :: "cci_value_cref \<Rightarrow> cci_value_cref \<Rightarrow> bool" where
  "is_same v that \<longleftrightarrow> v = that"

definition cref_equal :: "('r, 'd) rapidjson \<Rightarrow> cci_value_cref \<Rightarrow> cci_value_cref \<Rightarrow> ('r, bool) vcomp" where
  "cref_equal J left right =
     (if left = right then retM True
      else if left = None \<or> right = None then
        bindM (if left \<noteq> None then bindM (the_node J left) (\<lambda>r. retM (IsNull J r)) else retM False) (\<lambda>b.
          if b then retM True
          else if right \<noteq> None then bindM (the_node J right) (\<lambda>r. retM (IsNull J r)) else retM False)
      else bindM (the_node J left) (\<lambda>x. bindM (the_node J right) (\<lambda>y. retM (json_equal J x y))))"

definition to_json :: "'x sc_env_scheme \<Rightarrow> ('r, 'd) rapidjson \<Rightarrow> cci_value_cref \<Rightarrow> ('r, string) vcomp" where
  "to_json E J v =
     bindM (if v = None then retM (''null'', True) else bindM (the_node J v) (\<lambda>r. retM (json_write J r)))
       (\<lambda>(dst, complete).
         thenM (value_assert E complete ''incomplete JSON sequence'' ''writer.IsComplete()'') (retM dst))"

text \<open>\<open>operator<<\<close>; the text is what is written to the stream.\<close>

definition cref_print :: "('r, 'd) rapidjson \<Rightarrow> cci_value_cref \<Rightarrow> ('r, string) vcomp" where
  "cref_print J v =
     bindM (is_null J v) (\<lambda>n. if n then retM ''null''
       else bindM (the_node J v) (\<lambda>r. retM (fst (json_write J r))))"

section \<open>Writing\<close>

text \<open>\<open>THIS->CopyFrom(DEREF(that), json_allocator)\<close>.\<close>

definition copy_from :: "('r, 'd) rapidjson \<Rightarrow> cci_value_ref \<Rightarrow> cci_value_cref \<Rightarrow> ('r, unit) vcomp" where
  "copy_from J v that =
     bindM (the_node J that) (\<lambda>r. if overlap v that then abortM else set_node J v r)"

definition set_null :: "('r, 'd) rapidjson \<Rightarrow> cci_value_ref \<Rightarrow> ('r, cci_value_ref) vcomp" where
  "set_null J v = thenM (if v = None then skipM else set_node J v (json_null J)) (retM v)"

text \<open>The assertion of \<open>THIS\<close> and the setter behind it.\<close>

definition checked_set :: "('r, 'd) rapidjson \<Rightarrow> 'r \<Rightarrow> cci_value_ref \<Rightarrow> ('r, cci_value_ref) vcomp" where
  "checked_set J x v = thenM (assertM (v \<noteq> None)) (thenM (set_node J v x) (retM v))"

definition set_bool :: "('r, 'd) rapidjson \<Rightarrow> bool \<Rightarrow> cci_value_ref \<Rightarrow> ('r, cci_value_ref) vcomp" where
  "set_bool J b v = checked_set J (json_bool J b) v"

definition set_int :: "('r, 'd) rapidjson \<Rightarrow> 32 word \<Rightarrow> cci_value_ref \<Rightarrow> ('r, cci_value_ref) vcomp" where
  "set_int J i v = checked_set J (json_int J i) v"

definition set_uint :: "('r, 'd) rapidjson \<Rightarrow> 32 word \<Rightarrow> cci_value_ref \<Rightarrow> ('r, cci_value_ref) vcomp" where
  "set_uint J i v = checked_set J (json_uint J i) v"

definition set_int64 :: "('r, 'd) rapidjson \<Rightarrow> 64 word \<Rightarrow> cci_value_ref \<Rightarrow> ('r, cci_value_ref) vcomp" where
  "set_int64 J i v = checked_set J (json_int64 J i) v"

definition set_uint64 :: "('r, 'd) rapidjson \<Rightarrow> 64 word \<Rightarrow> cci_value_ref \<Rightarrow> ('r, cci_value_ref) vcomp" where
  "set_uint64 J i v = checked_set J (json_uint64 J i) v"

definition set_double :: "('r, 'd) rapidjson \<Rightarrow> 'd \<Rightarrow> cci_value_ref \<Rightarrow> ('r, cci_value_ref) vcomp" where
  "set_double J d v = checked_set J (json_double J d) v"

definition set_number :: "('r, 'd) rapidjson \<Rightarrow> 'd \<Rightarrow> cci_value_ref \<Rightarrow> ('r, cci_value_ref) vcomp" where
  "set_number J d v = set_double J d v"

text \<open>
  The length is cast to the 32 bits of RapidJSON's \<open>SizeType\<close>, like all lengths and indices.
\<close>

definition size_cast :: "nat \<Rightarrow> nat" where
  "size_cast n = n mod 2 ^ 32"

definition set_string :: "('r, 'd) rapidjson \<Rightarrow> string \<Rightarrow> cci_value_ref \<Rightarrow> ('r, cci_value_ref) vcomp" where
  "set_string J s v = checked_set J (json_string J (take (size_cast (length s)) s)) v"

definition set_string_chars :: "('r, 'd) rapidjson \<Rightarrow> string option \<Rightarrow> cci_value_ref \<Rightarrow> ('r, cci_value_ref) vcomp" where
  "set_string_chars J s v = set_string J (case s of None \<Rightarrow> [] | Some cs \<Rightarrow> c_str cs) v"

definition set_list :: "('r, 'd) rapidjson \<Rightarrow> cci_value_ref \<Rightarrow> ('r, cci_value_ref) vcomp" where
  "set_list J v = checked_set J (json_array J []) v"

definition set_map :: "('r, 'd) rapidjson \<Rightarrow> cci_value_ref \<Rightarrow> ('r, cci_value_ref) vcomp" where
  "set_map J v = checked_set J (json_object J []) v"

definition ref_assign :: "('r, 'd) rapidjson \<Rightarrow> cci_value_ref \<Rightarrow> cci_value_cref \<Rightarrow> ('r, cci_value_ref) vcomp" where
  "ref_assign J v that =
     bindM (is_null J that) (\<lambda>n.
       if n then set_null J v
       else if v \<noteq> that then thenM (assertM (v \<noteq> None)) (thenM (copy_from J v that) (retM v))
       else retM v)"

text \<open>\<open>THIS->Swap(DEREF(that))\<close>.\<close>

definition swap_nodes :: "('r, 'd) rapidjson \<Rightarrow> cci_value_ref \<Rightarrow> cci_value_ref \<Rightarrow> ('r, unit) vcomp" where
  "swap_nodes J v that =
     bindM (the_node J v) (\<lambda>x. bindM (the_node J that) (\<lambda>y.
       if v = that then skipM
       else if overlap v that then abortM
       else thenM (set_node J v y) (set_node J that x)))"

definition ref_swap :: "'x sc_env_scheme \<Rightarrow> ('r, 'd) rapidjson \<Rightarrow> cci_value_ref \<Rightarrow> cci_value_ref
    \<Rightarrow> ('r, unit) vcomp" where
  "ref_swap E J v that =
     thenM (value_assert E (v \<noteq> None \<and> that \<noteq> None) ''swap with invalid value failed'' ''pimpl_ && that.pimpl_'')
       (swap_nodes J v that)"

text \<open>
  \<open>move\<close> returns a new \<open>cci_value\<close> that takes the contents over; \<open>becomes\<close> is what the moved
  value is given afterwards, if anything.
\<close>

definition move_to_new :: "('r, 'd) rapidjson \<Rightarrow> 'r option \<Rightarrow> cci_value_ref \<Rightarrow> ('r, wid) vcomp" where
  "move_to_new J becomes v =
     bindM (alloc_wrapper Kind_value) (\<lambda>w.
       bindM (init_wrapper J w) (\<lambda>ret.
         bindM (take_node J v) (\<lambda>r.
           thenM (set_node J ret r)
             (thenM (case becomes of None \<Rightarrow> skipM | Some x \<Rightarrow> set_node J v x) (retM w)))))"

definition ref_move :: "('r, 'd) rapidjson \<Rightarrow> cci_value_ref \<Rightarrow> ('r, wid) vcomp" where
  "ref_move J v = move_to_new J None v"

text \<open>\<open>operator>>\<close>: the rest of the stream, and whether \<open>failbit\<close> is set.\<close>

definition ref_extract :: "'x sc_env_scheme \<Rightarrow> ('r, 'd) rapidjson \<Rightarrow> string \<Rightarrow> cci_value_ref
    \<Rightarrow> ('r, string \<times> bool) vcomp" where
  "ref_extract E J is v =
     thenM (assertM (v \<noteq> None))
       (case json_parse_stream J is of
          (Inr d, rest) \<Rightarrow> thenM (set_node J v d) (retM (rest, False))
        | (Inl what, rest) \<Rightarrow>
            thenM (CCI_REPORT_WARNING E ''CCI_VALUE_FAILURE'' (''JSON parse error: '' @ what))
              (retM (rest, True)))"

section \<open>Strings\<close>

text \<open>What \<open>GetString\<close> and \<open>GetStringLength\<close> read.\<close>

definition string_of_node :: "('r, 'd) rapidjson \<Rightarrow> cci_value_cref \<Rightarrow> ('r, string) vcomp" where
  "string_of_node J v =
     bindM (the_node J v) (\<lambda>r. thenM (json_assert (IsString J r)) (retM (GetString J r)))"

definition string_size :: "('r, 'd) rapidjson \<Rightarrow> cci_value_cref \<Rightarrow> ('r, nat) vcomp" where
  "string_size J v = bindM (string_of_node J v) (\<lambda>s. retM (length s))"

definition string_empty :: "('r, 'd) rapidjson \<Rightarrow> cci_value_cref \<Rightarrow> ('r, bool) vcomp" where
  "string_empty J v = bindM (string_size J v) (\<lambda>n. retM (n = 0))"

text \<open>\<open>operator std::string\<close>, and \<open>operator[]\<close>, which may read the terminating NUL.\<close>

definition string_value :: "('r, 'd) rapidjson \<Rightarrow> cci_value_cref \<Rightarrow> ('r, string) vcomp" where
  "string_value J v = string_of_node J v"

definition string_at :: "('r, 'd) rapidjson \<Rightarrow> cci_value_cref \<Rightarrow> nat \<Rightarrow> ('r, char) vcomp" where
  "string_at J v i =
     bindM (string_of_node J v) (\<lambda>s.
       if i < length s then retM (s ! i) else if i = length s then retM (CHR 0x00) else abortM)"

definition string_equal :: "('r, 'd) rapidjson \<Rightarrow> cci_value_cref \<Rightarrow> cci_value_cref \<Rightarrow> ('r, bool) vcomp" where
  "string_equal J v s = bindM (the_node J v) (\<lambda>x. bindM (the_node J s) (\<lambda>y. retM (json_equal J x y)))"

definition string_equal_chars :: "('r, 'd) rapidjson \<Rightarrow> cci_value_cref \<Rightarrow> string option \<Rightarrow> ('r, bool) vcomp" where
  "string_equal_chars J v s =
     (case s of
        None \<Rightarrow> retM False
      | Some cs \<Rightarrow> bindM (the_node J v) (\<lambda>x. retM (json_equal J x (json_string J (c_str cs)))))"

definition string_equal_std :: "('r, 'd) rapidjson \<Rightarrow> cci_value_cref \<Rightarrow> string \<Rightarrow> ('r, bool) vcomp" where
  "string_equal_std J v s = bindM (the_node J v) (\<lambda>x. retM (json_equal J x (json_string J s)))"

text \<open>Setting from another string value reads \<open>c_str()\<close> and \<open>length()\<close> of it.\<close>

definition set_string_value :: "('r, 'd) rapidjson \<Rightarrow> cci_value_cref \<Rightarrow> cci_value_ref \<Rightarrow> ('r, cci_value_ref) vcomp" where
  "set_string_value J s v = bindM (string_of_node J s) (\<lambda>cs. set_string J cs v)"

definition string_move :: "('r, 'd) rapidjson \<Rightarrow> cci_value_ref \<Rightarrow> ('r, wid) vcomp" where
  "string_move J v = move_to_new J (Some (json_string J [])) v"

definition string_swap :: "'x sc_env_scheme \<Rightarrow> ('r, 'd) rapidjson \<Rightarrow> cci_value_ref \<Rightarrow> cci_value_ref
    \<Rightarrow> ('r, unit) vcomp" where
  "string_swap E J v that =
     thenM (value_assert E (v \<noteq> None \<and> that \<noteq> None) ''swap with invalid value failed'' ''pimpl_ && that.pimpl_'')
       (swap_nodes J v that)"

section \<open>Lemmas\<close>

lemmas is_defs = is_bool_def is_int_def is_uint_def is_int64_def is_uint64_def is_double_def
  is_string_def is_list_def is_map_def query_def

lemmas get_defs = get_bool_def get_int_def get_uint_def get_int64_def get_uint64_def get_double_def
  get_number_def checked_get_def

lemmas set_defs = set_bool_def set_int_def set_uint_def set_int64_def set_uint64_def set_double_def
  set_number_def set_string_def set_list_def set_map_def checked_set_def

lemma query_Some: "node_at J s n = Some r \<Longrightarrow> query J f (Some n) s = (Ret (f r), s)"
  by (simp add: query_def bindM_def the_node_Some)

lemma is_null_Some: "node_at J s n = Some r \<Longrightarrow> is_null J (Some n) s = (Ret (IsNull J r), s)"
  by (simp add: is_null_def bindM_def the_node_Some)

lemma is_null_None [simp]: "is_null J None = retM True"
  by (simp add: is_null_def)

lemma value_assert_True [simp]: "value_assert E True m c = skipM"
  by (simp add: value_assert_def)

lemma checked_set_Some:
  "node_at J s n = Some r \<Longrightarrow> checked_set J x (Some n) s = (Ret (Some n), write_node J n x s)"
  by (simp add: checked_set_def bindM_def set_node_Some)

text \<open>Queries read only.\<close>

lemma the_node_state [simp]: "snd (the_node J v s) = s"
  by (simp add: the_node_def split: option.splits)

text \<open>
  A failed type check ends in an exception or in the end of the process, with one report.
\<close>

lemma value_assert_False:
  "fst (value_assert E False m c s) \<noteq> Ret x \<and> fst (value_assert E False m c s) \<noteq> NoFuel"
  by (simp add: value_assert_def bindM_def report_outcome cci_value_failure_def split: prod.splits outcome.splits)
    (metis fst_conv outcome.distinct(1) outcome.simps(6) report_not_NoFuel)

end
