(* ===== verification/Value_List.thy ===== *)
theory Value_List
  imports Cci_Value
begin

text \<open>
  Lists of values (src/src/cci/core/cci_value.h and .cpp): \<open>cci_value_list_cref\<close> and
  \<open>cci_value_list_ref\<close>, with the iterators of cci_value_iterator.h. The storage that an array
  reserves is not part of the model.
\<close>

section \<open>Iterators\<close>

text \<open>
  An iterator is a pointer into the array of the elements of a list or of the members of a map:
  the value whose array it is, and the position. \<open>compare\<close> and \<open>distance\<close> are for iterators of the
  same range, as the C++ operators are.
\<close>

record value_iterator =
  it_range :: node
  it_pos :: int

definition iterator_advance :: "int \<Rightarrow> value_iterator \<Rightarrow> value_iterator" where
  "iterator_advance n it = it\<lparr>it_pos := it_pos it + n\<rparr>"

definition iterator_increment :: "int \<Rightarrow> value_iterator \<Rightarrow> value_iterator" where
  "iterator_increment n it = iterator_advance n it"

definition iterator_decrement :: "int \<Rightarrow> value_iterator \<Rightarrow> value_iterator" where
  "iterator_decrement n it = iterator_advance (- n) it"

text \<open>\<open>it - that\<close>.\<close>

definition iterator_distance :: "value_iterator \<Rightarrow> value_iterator \<Rightarrow> int" where
  "iterator_distance it that = it_pos it - it_pos that"

definition iterator_compare :: "value_iterator \<Rightarrow> value_iterator \<Rightarrow> int" where
  "iterator_compare it that =
     (if it_pos it < it_pos that then -1 else if it_pos it > it_pos that then 1 else 0)"

text \<open>\<open>it++\<close> and \<open>it--\<close>: the old iterator, and the new value of the variable.\<close>

definition iterator_post_increment :: "value_iterator \<Rightarrow> value_iterator \<times> value_iterator" where
  "iterator_post_increment it = (it, iterator_increment 1 it)"

definition iterator_post_decrement :: "value_iterator \<Rightarrow> value_iterator \<times> value_iterator" where
  "iterator_post_decrement it = (it, iterator_decrement 1 it)"

text \<open>Dereferencing a list iterator gives a reference to the element.\<close>

definition list_iterator_deref :: "value_iterator \<Rightarrow> cci_value_cref" where
  "list_iterator_deref it = Some (fst (it_range it), snd (it_range it) @ [At (nat (it_pos it))])"

section \<open>Queries and access\<close>

definition elements_of :: "('r, 'd) rapidjson \<Rightarrow> cci_value_cref \<Rightarrow> ('r, 'r list) vcomp" where
  "elements_of J v = bindM (the_node J v) (\<lambda>r. thenM (json_assert (IsArray J r)) (retM (Elements J r)))"

definition vlist_size :: "('r, 'd) rapidjson \<Rightarrow> cci_value_cref \<Rightarrow> ('r, nat) vcomp" where
  "vlist_size J v = bindM (elements_of J v) (\<lambda>xs. retM (length xs))"

definition vlist_empty :: "('r, 'd) rapidjson \<Rightarrow> cci_value_cref \<Rightarrow> ('r, bool) vcomp" where
  "vlist_empty J v = bindM (vlist_size J v) (\<lambda>n. retM (n = 0))"

definition child :: "impl_type \<Rightarrow> node_step \<Rightarrow> impl_type" where
  "child v st = map_option (\<lambda>n. (fst n, snd n @ [st])) v"

text \<open>The unchecked access; an index out of bounds is undefined behaviour.\<close>

definition vlist_index :: "('r, 'd) rapidjson \<Rightarrow> cci_value_cref \<Rightarrow> nat \<Rightarrow> ('r, cci_value_cref) vcomp" where
  "vlist_index J v index =
     bindM (elements_of J v) (\<lambda>xs.
       if size_cast index < length xs then retM (child v (At (size_cast index))) else abortM)"

definition vlist_at :: "'x sc_env_scheme \<Rightarrow> ('r, 'd) rapidjson \<Rightarrow> cci_value_cref \<Rightarrow> nat
    \<Rightarrow> ('r, cci_value_cref) vcomp" where
  "vlist_at E J v index =
     bindM (vlist_size J v) (\<lambda>n.
       thenM (value_assert E (index < n) ''index out of bounds'' ''index < size()'') (vlist_index J v index))"

definition vlist_front :: "('r, 'd) rapidjson \<Rightarrow> cci_value_cref \<Rightarrow> ('r, cci_value_cref) vcomp" where
  "vlist_front J v = vlist_index J v 0"

definition vlist_back :: "('r, 'd) rapidjson \<Rightarrow> cci_value_cref \<Rightarrow> ('r, cci_value_cref) vcomp" where
  "vlist_back J v = bindM (vlist_size J v) (\<lambda>n. vlist_index J v ((n + 2 ^ 64 - 1) mod 2 ^ 64))"

definition vlist_begin :: "('r, 'd) rapidjson \<Rightarrow> cci_value_cref \<Rightarrow> ('r, value_iterator) vcomp" where
  "vlist_begin J v = bindM (elements_of J v) (\<lambda>xs. retM \<lparr>it_range = the v, it_pos = 0\<rparr>)"

definition vlist_end :: "('r, 'd) rapidjson \<Rightarrow> cci_value_cref \<Rightarrow> ('r, value_iterator) vcomp" where
  "vlist_end J v = bindM (elements_of J v) (\<lambda>xs. retM \<lparr>it_range = the v, it_pos = int (length xs)\<rparr>)"

section \<open>Modification\<close>

definition vlist_clear :: "('r, 'd) rapidjson \<Rightarrow> cci_value_ref \<Rightarrow> ('r, cci_value_ref) vcomp" where
  "vlist_clear J v = bindM (elements_of J v) (\<lambda>xs. thenM (set_node J v (json_array J [])) (retM v))"

definition vlist_reserve :: "('r, 'd) rapidjson \<Rightarrow> cci_value_ref \<Rightarrow> nat \<Rightarrow> ('r, cci_value_ref) vcomp" where
  "vlist_reserve J v n = bindM (elements_of J v) (\<lambda>xs. retM v)"

text \<open>\<open>json_value v; if( PIMPL(value) ) v.CopyFrom( DEREF(value) )\<close>.\<close>

definition fresh_copy :: "('r, 'd) rapidjson \<Rightarrow> cci_value_cref \<Rightarrow> ('r, 'r) vcomp" where
  "fresh_copy J value = (if value = None then retM (json_null J) else the_node J value)"

definition vlist_push_back :: "('r, 'd) rapidjson \<Rightarrow> cci_value_cref \<Rightarrow> cci_value_ref
    \<Rightarrow> ('r, cci_value_ref) vcomp" where
  "vlist_push_back J value v =
     bindM (fresh_copy J value) (\<lambda>x.
       bindM (elements_of J v) (\<lambda>xs. thenM (set_node J v (json_array J (xs @ [x]))) (retM v)))"

text \<open>The overload that moves the contents out of a \<open>cci_value\<close>.\<close>

definition fresh_move :: "('r, 'd) rapidjson \<Rightarrow> cci_value_ref \<Rightarrow> ('r, 'r) vcomp" where
  "fresh_move J value = (if value = None then retM (json_null J) else take_node J value)"

definition vlist_push_back_move :: "('r, 'd) rapidjson \<Rightarrow> cci_value_ref \<Rightarrow> cci_value_ref
    \<Rightarrow> ('r, cci_value_ref) vcomp" where
  "vlist_push_back_move J value v =
     bindM (fresh_move J value) (\<lambda>x.
       bindM (elements_of J v) (\<lambda>xs. thenM (set_node J v (json_array J (xs @ [x]))) (retM v)))"

text \<open>
  \<open>insert\<close> builds a new array: the elements before the position are moved into it, which leaves
  null behind, then the copies of the value are made, then the rest is moved. A pointer to a value
  inside one of the moved elements keeps pointing to it; a pointer to the element itself finds
  null.
\<close>

definition below_prefix :: "cci_value_ref \<Rightarrow> nat \<Rightarrow> cci_value_cref \<Rightarrow> bool" where
  "below_prefix v offset value =
     (case v of None \<Rightarrow> False
      | Some n \<Rightarrow> (case value of None \<Rightarrow> False
                  | Some m \<Rightarrow> fst m = fst n \<and> length (snd n) + 1 < length (snd m)
                      \<and> take (length (snd n)) (snd m) = snd n
                      \<and> (\<exists>i < offset. snd m ! length (snd n) = At i)))"

definition vlist_insert_count :: "'x sc_env_scheme \<Rightarrow> ('r, 'd) rapidjson \<Rightarrow> value_iterator \<Rightarrow> nat
    \<Rightarrow> cci_value_cref \<Rightarrow> cci_value_ref \<Rightarrow> ('r, value_iterator) vcomp" where
  "vlist_insert_count E J pos count value v =
     bindM (elements_of J v) (\<lambda>xs.
       let offset = nat (it_pos pos mod 2 ^ 64) in
       thenM (value_assert E (offset \<le> length xs) ''invalid insertion position'' ''offset <= THIS->Size()'')
         (if count = 0 then retM pos
          else
            bindM (fresh_copy J (if below_prefix v offset value then value else None)) (\<lambda>inner.
              thenM (set_node J v (json_array J (replicate offset (json_null J) @ drop offset xs)))
                (bindM (if below_prefix v offset value then retM inner else fresh_copy J value) (\<lambda>x.
                  thenM (set_node J v (json_array J (take offset xs @ replicate count x @ drop offset xs)))
                    (retM \<lparr>it_range = the v, it_pos = int offset\<rparr>))))))"

definition vlist_insert :: "'x sc_env_scheme \<Rightarrow> ('r, 'd) rapidjson \<Rightarrow> value_iterator
    \<Rightarrow> cci_value_cref \<Rightarrow> cci_value_ref \<Rightarrow> ('r, value_iterator) vcomp" where
  "vlist_insert E J pos value v = vlist_insert_count E J pos 1 value v"

text \<open>
  \<open>Erase\<close> requires positions of the array, \<open>PopBack\<close> an element.
\<close>

definition vlist_erase_range :: "('r, 'd) rapidjson \<Rightarrow> value_iterator \<Rightarrow> value_iterator \<Rightarrow> cci_value_ref
    \<Rightarrow> ('r, value_iterator) vcomp" where
  "vlist_erase_range J first stop v =
     bindM (elements_of J v) (\<lambda>xs.
       thenM (json_assert (0 \<le> it_pos first \<and> it_pos first \<le> it_pos stop \<and> it_pos stop \<le> int (length xs)))
         (thenM (set_node J v (json_array J (take (nat (it_pos first)) xs @ drop (nat (it_pos stop)) xs)))
           (retM \<lparr>it_range = the v, it_pos = it_pos first\<rparr>)))"

definition vlist_erase :: "('r, 'd) rapidjson \<Rightarrow> value_iterator \<Rightarrow> cci_value_ref
    \<Rightarrow> ('r, value_iterator) vcomp" where
  "vlist_erase J pos v =
     bindM (elements_of J v) (\<lambda>xs.
       thenM (json_assert (0 \<le> it_pos pos \<and> it_pos pos < int (length xs)))
         (vlist_erase_range J pos (iterator_advance 1 pos) v))"

definition vlist_pop_back :: "('r, 'd) rapidjson \<Rightarrow> cci_value_ref \<Rightarrow> ('r, unit) vcomp" where
  "vlist_pop_back J v =
     bindM (elements_of J v) (\<lambda>xs.
       thenM (json_assert (xs \<noteq> [])) (set_node J v (json_array J (butlast xs))))"

text \<open>
  \<open>move\<close> first makes the new value a list; the contents overwrite that. \<open>operator=\<close> is the
  assignment of references.
\<close>

definition vlist_move :: "('r, 'd) rapidjson \<Rightarrow> cci_value_ref \<Rightarrow> ('r, wid) vcomp" where
  "vlist_move J v = move_to_new J (Some (json_array J [])) v"

definition vlist_swap :: "'x sc_env_scheme \<Rightarrow> ('r, 'd) rapidjson \<Rightarrow> cci_value_ref \<Rightarrow> cci_value_ref
    \<Rightarrow> ('r, unit) vcomp" where
  "vlist_swap E J v that =
     thenM (value_assert E (v \<noteq> None \<and> that \<noteq> None) ''swap with invalid value failed'' ''pimpl_ && that.pimpl_'')
       (swap_nodes J v that)"

definition vlist_assign :: "('r, 'd) rapidjson \<Rightarrow> cci_value_ref \<Rightarrow> cci_value_cref \<Rightarrow> ('r, cci_value_ref) vcomp" where
  "vlist_assign J v that = thenM (ref_assign J v that) (retM v)"

section \<open>Lemmas\<close>

lemma json_assert_True [simp]: "json_assert True = skipM"
  by (simp add: json_assert_def)

lemma elements_of_Some:
  "node_at J s n = Some r \<Longrightarrow> IsArray J r \<Longrightarrow> elements_of J (Some n) s = (Ret (Elements J r), s)"
  by (simp add: elements_of_def bindM_def the_node_Some)

lemma child_Some [simp]: "child (Some n) st = Some (fst n, snd n @ [st])"
  by (simp add: child_def)

context rapidjson_model
begin

text \<open>
  An element of a list can be read and written through its reference.
\<close>

lemma node_at_element:
  "node_at J s n = Some r \<Longrightarrow> IsArray J r \<Longrightarrow> i < length (Elements J r)
   \<Longrightarrow> node_at J s (fst n, snd n @ [At i]) = Some (Elements J r ! i)"
  by (simp add: node_at_below)

lemma node_at_array:
  "node_at J s n = Some r \<Longrightarrow> writable (snd n) \<Longrightarrow>
   node_at J (write_node J n (json_array J xs) s) (fst n, snd n @ [At i])
     = (if i < length xs then Some (xs ! i) else None)"
  by (subst node_at_below [OF node_at_write]) (simp_all add: elements)

text \<open>What \<open>insert\<close> does, with the value that the copies get.\<close>

lemma vlist_insert_count_eq:
  assumes r: "node_at J s n = Some (json_array J xs)" and n: "writable (snd n)"
    and pos: "it_pos pos = int k" "k \<le> length xs" "length xs < 2 ^ 64" and c: "count \<noteq> 0"
    and x: "\<not> below_prefix (Some n) k value"
      "fresh_copy J value (write_node J n (json_array J (replicate k (json_null J) @ drop k xs)) s)
         = (Ret x, write_node J n (json_array J (replicate k (json_null J) @ drop k xs)) s)"
  shows "vlist_insert_count E J pos count value (Some n) s
     = (Ret \<lparr>it_range = n, it_pos = int k\<rparr>,
        write_node J n (json_array J (take k xs @ replicate count x @ drop k xs)) s)"
proof -
  have k: "nat (it_pos pos mod 2 ^ 64) = k"
    using pos by (simp add: nat_mod_distrib flip: zmod_int)
  let ?t = "write_node J n (json_array J (replicate k (json_null J) @ drop k xs)) s"
  have t: "node_at J ?t n = Some (json_array J (replicate k (json_null J) @ drop k xs))"
    using r n by (rule node_at_write)
  show ?thesis
    using pos c x
    by (simp add: vlist_insert_count_def k bindM_def elements_of_Some [OF r] elements fresh_copy_def [of J None]
        set_node_Some [OF r] set_node_Some [OF t] write_node_twice [OF r n] Let_def)
qed

end

end
