(* ===== verification/Value_Map.thy ===== *)
theory Value_Map
  imports Value_List
begin

text \<open>
  Maps of values (src/src/cci/core/cci_value.h and .cpp): \<open>cci_value_map_cref\<close>,
  \<open>cci_value_map_ref\<close> and the references to map elements. A map is the list of the members of a
  JSON object; a key can occur in it more than once. Keys are shorter than \<open>2 ^ 32\<close>.
\<close>

section \<open>Keys\<close>

text \<open>A key is given as a C string, of which \<open>strlen\<close> finds the end, or as a \<open>std::string\<close>.\<close>

datatype key_arg = Key_chars string | Key_std string

fun key_string :: "key_arg \<Rightarrow> string" where
  "key_string (Key_chars cs) = c_str cs"
| "key_string (Key_std s) = s"

section \<open>Queries and access\<close>

definition members_of :: "('r, 'd) rapidjson \<Rightarrow> cci_value_cref \<Rightarrow> ('r, (string \<times> 'r) list) vcomp" where
  "members_of J v = bindM (the_node J v) (\<lambda>r. thenM (json_assert (IsObject J r)) (retM (Members J r)))"

definition vmap_size :: "('r, 'd) rapidjson \<Rightarrow> cci_value_cref \<Rightarrow> ('r, nat) vcomp" where
  "vmap_size J v = bindM (members_of J v) (\<lambda>ms. retM (length ms))"

definition vmap_empty :: "('r, 'd) rapidjson \<Rightarrow> cci_value_cref \<Rightarrow> ('r, bool) vcomp" where
  "vmap_empty J v = bindM (vmap_size J v) (\<lambda>n. retM (n = 0))"

text \<open>
  \<open>FindMember\<close>: the first member with the name, or \<open>MemberEnd\<close>. RapidJSON takes the length of a key
  as a 32-bit \<open>SizeType\<close>, to which the code converts \<open>keylen\<close> here, in \<open>do_lookup\<close> and in \<open>do_push\<close>. The
  conversion is not modelled: the keys of this model stand for those of fewer than \<open>2 ^ 32\<close> characters.
\<close>

fun find_member :: "string \<Rightarrow> (string \<times> 'r) list \<Rightarrow> nat" where
  "find_member k [] = 0"
| "find_member k (m # ms) = (if fst m = k then 0 else Suc (find_member k ms))"

datatype lookup_mode = KEY_REQUIRED | KEY_OPTIONAL | KEY_CREATE

definition do_lookup :: "'x sc_env_scheme \<Rightarrow> ('r, 'd) rapidjson \<Rightarrow> string \<Rightarrow> lookup_mode \<Rightarrow> cci_value_cref
    \<Rightarrow> ('r, impl_type) vcomp" where
  "do_lookup E J key mode v =
     bindM (members_of J v) (\<lambda>ms.
       let it = find_member key ms in
       if it \<noteq> length ms then retM (child v (Value_of it))
       else case mode of
         KEY_OPTIONAL \<Rightarrow> retM None
       | KEY_CREATE \<Rightarrow>
           thenM (set_node J v (json_object J (ms @ [(key, json_null J)])))
             (bindM (members_of J v) (\<lambda>ms.
               let it = find_member key ms in
               thenM (assertM (it \<noteq> length ms)) (retM (child v (Value_of it)))))
       | KEY_REQUIRED \<Rightarrow>
           thenM (cci_value_failure E
                    (''cci_value map has no element with key '' @ [CHR 0x27] @ c_str key @ [CHR 0x27]))
             (retM None))"

definition has_entry :: "'x sc_env_scheme \<Rightarrow> ('r, 'd) rapidjson \<Rightarrow> key_arg \<Rightarrow> cci_value_cref \<Rightarrow> ('r, bool) vcomp" where
  "has_entry E J key v = bindM (do_lookup E J (key_string key) KEY_OPTIONAL v) (\<lambda>p. retM (p \<noteq> None))"

text \<open>The key can be another string value.\<close>

definition has_entry_value :: "'x sc_env_scheme \<Rightarrow> ('r, 'd) rapidjson \<Rightarrow> cci_value_cref \<Rightarrow> cci_value_cref
    \<Rightarrow> ('r, bool) vcomp" where
  "has_entry_value E J key v =
     bindM (string_of_node J key) (\<lambda>k. bindM (do_lookup E J k KEY_OPTIONAL v) (\<lambda>p. retM (p \<noteq> None)))"

definition vmap_at :: "'x sc_env_scheme \<Rightarrow> ('r, 'd) rapidjson \<Rightarrow> key_arg \<Rightarrow> cci_value_cref
    \<Rightarrow> ('r, cci_value_cref) vcomp" where
  "vmap_at E J key v = do_lookup E J (key_string key) KEY_REQUIRED v"

text \<open>\<open>operator[]\<close> of a mutable map.\<close>

definition vmap_index :: "'x sc_env_scheme \<Rightarrow> ('r, 'd) rapidjson \<Rightarrow> key_arg \<Rightarrow> cci_value_ref
    \<Rightarrow> ('r, cci_value_ref) vcomp" where
  "vmap_index E J key v = do_lookup E J (key_string key) KEY_CREATE v"

definition vmap_begin :: "('r, 'd) rapidjson \<Rightarrow> cci_value_cref \<Rightarrow> ('r, value_iterator) vcomp" where
  "vmap_begin J v = bindM (members_of J v) (\<lambda>ms. retM \<lparr>it_range = the v, it_pos = 0\<rparr>)"

definition vmap_end :: "('r, 'd) rapidjson \<Rightarrow> cci_value_cref \<Rightarrow> ('r, value_iterator) vcomp" where
  "vmap_end J v = bindM (members_of J v) (\<lambda>ms. retM \<lparr>it_range = the v, it_pos = int (length ms)\<rparr>)"

definition do_find :: "('r, 'd) rapidjson \<Rightarrow> string \<Rightarrow> cci_value_cref \<Rightarrow> ('r, value_iterator) vcomp" where
  "do_find J key v =
     bindM (members_of J v) (\<lambda>ms. retM \<lparr>it_range = the v, it_pos = int (find_member key ms)\<rparr>)"

definition vmap_find :: "('r, 'd) rapidjson \<Rightarrow> key_arg \<Rightarrow> cci_value_cref \<Rightarrow> ('r, value_iterator) vcomp" where
  "vmap_find J key v = do_find J (key_string key) v"

text \<open>An element holds a reference to its key and one to its value.\<close>

record map_elem =
  elem_key :: cci_value_cref
  elem_value :: cci_value_cref

definition map_iterator_deref :: "value_iterator \<Rightarrow> map_elem" where
  "map_iterator_deref it =
     \<lparr>elem_key = Some (fst (it_range it), snd (it_range it) @ [Key_of (nat (it_pos it))]),
      elem_value = Some (fst (it_range it), snd (it_range it) @ [Value_of (nat (it_pos it))])\<rparr>"

section \<open>Modification\<close>

definition vmap_clear :: "('r, 'd) rapidjson \<Rightarrow> cci_value_ref \<Rightarrow> ('r, cci_value_ref) vcomp" where
  "vmap_clear J v = bindM (members_of J v) (\<lambda>ms. thenM (set_node J v (json_object J [])) (retM v))"

definition do_push :: "('r, 'd) rapidjson \<Rightarrow> string \<Rightarrow> cci_value_cref \<Rightarrow> cci_value_ref
    \<Rightarrow> ('r, cci_value_ref) vcomp" where
  "do_push J key value v =
     bindM (fresh_copy J value) (\<lambda>x.
       bindM (members_of J v) (\<lambda>ms. thenM (set_node J v (json_object J (ms @ [(key, x)]))) (retM v)))"

definition do_push_move :: "('r, 'd) rapidjson \<Rightarrow> string \<Rightarrow> cci_value_ref \<Rightarrow> cci_value_ref
    \<Rightarrow> ('r, cci_value_ref) vcomp" where
  "do_push_move J key value v =
     bindM (fresh_move J value) (\<lambda>x.
       bindM (members_of J v) (\<lambda>ms. thenM (set_node J v (json_object J (ms @ [(key, x)]))) (retM v)))"

definition push_entry :: "('r, 'd) rapidjson \<Rightarrow> key_arg \<Rightarrow> cci_value_cref \<Rightarrow> cci_value_ref
    \<Rightarrow> ('r, cci_value_ref) vcomp" where
  "push_entry J key value v = do_push J (key_string key) value v"

definition push_entry_move :: "('r, 'd) rapidjson \<Rightarrow> key_arg \<Rightarrow> cci_value_ref \<Rightarrow> cci_value_ref
    \<Rightarrow> ('r, cci_value_ref) vcomp" where
  "push_entry_move J key value v = do_push_move J (key_string key) value v"

text \<open>\<open>do_erase\<close> erases the first member with the name until there is none.\<close>

function erase_members :: "string \<Rightarrow> (string \<times> 'r) list \<Rightarrow> nat \<Rightarrow> nat \<times> (string \<times> 'r) list" where
  "erase_members k ms count =
     (let it = find_member k ms
      in if it \<ge> length ms then (count, ms)
         else erase_members k (take it ms @ drop (Suc it) ms) (Suc count))"
  by pat_completeness auto

termination
  by (relation "measure (\<lambda>(k, ms, count). length ms)") auto

definition do_erase :: "('r, 'd) rapidjson \<Rightarrow> string \<Rightarrow> cci_value_ref \<Rightarrow> ('r, nat) vcomp" where
  "do_erase J key v =
     bindM (members_of J v) (\<lambda>ms.
       case erase_members key ms 0 of
         (count, ms') \<Rightarrow> thenM (set_node J v (json_object J ms')) (retM count))"

definition vmap_erase_key :: "('r, 'd) rapidjson \<Rightarrow> key_arg \<Rightarrow> cci_value_ref \<Rightarrow> ('r, nat) vcomp" where
  "vmap_erase_key J key v = do_erase J (key_string key) v"

definition vmap_erase_range :: "('r, 'd) rapidjson \<Rightarrow> value_iterator \<Rightarrow> value_iterator \<Rightarrow> cci_value_ref
    \<Rightarrow> ('r, value_iterator) vcomp" where
  "vmap_erase_range J first stop v =
     bindM (members_of J v) (\<lambda>ms.
       thenM (json_assert (0 \<le> it_pos first \<and> it_pos first \<le> it_pos stop \<and> it_pos stop \<le> int (length ms)))
         (thenM (set_node J v (json_object J (take (nat (it_pos first)) ms @ drop (nat (it_pos stop)) ms)))
           (retM \<lparr>it_range = the v, it_pos = it_pos first\<rparr>)))"

definition vmap_erase :: "('r, 'd) rapidjson \<Rightarrow> value_iterator \<Rightarrow> cci_value_ref
    \<Rightarrow> ('r, value_iterator) vcomp" where
  "vmap_erase J pos v =
     bindM (members_of J v) (\<lambda>ms.
       thenM (json_assert (0 \<le> it_pos pos \<and> it_pos pos < int (length ms)))
         (vmap_erase_range J pos (iterator_advance 1 pos) v))"

definition vmap_move :: "('r, 'd) rapidjson \<Rightarrow> cci_value_ref \<Rightarrow> ('r, wid) vcomp" where
  "vmap_move J v = move_to_new J (Some (json_object J [])) v"

definition vmap_swap :: "'x sc_env_scheme \<Rightarrow> ('r, 'd) rapidjson \<Rightarrow> cci_value_ref \<Rightarrow> cci_value_ref
    \<Rightarrow> ('r, unit) vcomp" where
  "vmap_swap E J v that =
     thenM (value_assert E (v \<noteq> None \<and> that \<noteq> None) ''swap with invalid value failed'' ''pimpl_ && that.pimpl_'')
       (swap_nodes J v that)"

definition vmap_assign :: "('r, 'd) rapidjson \<Rightarrow> cci_value_ref \<Rightarrow> cci_value_cref \<Rightarrow> ('r, cci_value_ref) vcomp" where
  "vmap_assign J v that = thenM (ref_assign J v that) (retM v)"

section \<open>Lemmas\<close>

text \<open>The first member of a name, as the brokers' \<open>std::map\<close> would answer it.\<close>

lemma find_member_le: "find_member k ms \<le> length ms"
  by (induction ms) auto

lemma find_member_absent: "find_member k ms = length ms \<longleftrightarrow> k \<notin> fst ` set ms"
proof (induction ms)
  case Nil
  show ?case by simp
next
  case (Cons m ms)
  then show ?case using find_member_le [of k ms] by auto
qed

lemma find_member_value:
  "find_member k ms < length ms \<Longrightarrow> map_of ms k = Some (snd (ms ! find_member k ms))"
  by (induction ms) auto

lemma find_member_name:
  "find_member k ms < length ms \<Longrightarrow> fst (ms ! find_member k ms) = k"
  by (induction ms) auto

lemma find_member_append:
  "find_member k (ms @ ns) = (if k \<in> fst ` set ms then find_member k ms else length ms + find_member k ns)"
  by (induction ms) auto

lemma erase_found:
  "find_member k ms < length ms \<Longrightarrow>
   filter (\<lambda>m. fst m \<noteq> k) (take (find_member k ms) ms @ drop (Suc (find_member k ms)) ms)
     = filter (\<lambda>m. fst m \<noteq> k) ms
   \<and> Suc (length (filter (\<lambda>m. fst m = k) (take (find_member k ms) ms @ drop (Suc (find_member k ms)) ms)))
     = length (filter (\<lambda>m. fst m = k) ms)"
  by (induction ms) auto

declare erase_members.simps [simp del]

text \<open>The loop of \<open>do_erase\<close> ends with all members of the name erased and counted.\<close>

lemma erase_members_eq:
  "erase_members k ms count
     = (count + length (filter (\<lambda>m. fst m = k) ms), filter (\<lambda>m. fst m \<noteq> k) ms)"
proof (induction k ms count rule: erase_members.induct)
  case (1 k ms count)
  show ?case
  proof (cases "find_member k ms \<ge> length ms")
    case True
    then have "find_member k ms = length ms" using find_member_le [of k ms] by simp
    then have "k \<notin> fst ` set ms" by (simp add: find_member_absent)
    then have "filter (\<lambda>m. fst m = k) ms = []" "filter (\<lambda>m. fst m \<noteq> k) ms = ms"
      by (auto simp: filter_empty_conv intro!: filter_True)
    with True show ?thesis by (subst erase_members.simps) (simp add: Let_def)
  next
    case False
    then have "find_member k ms < length ms" by simp
    from "1.IH" [OF refl False] erase_found [OF this] False show ?thesis
      by (subst erase_members.simps) (simp add: Let_def)
  qed
qed

lemma members_of_Some:
  "node_at J s n = Some r \<Longrightarrow> IsObject J r \<Longrightarrow> members_of J (Some n) s = (Ret (Members J r), s)"
  by (simp add: members_of_def bindM_def the_node_Some)

context rapidjson_model
begin

lemma members_of_object:
  "node_at J s n = Some (json_object J ms) \<Longrightarrow> members_of J (Some n) s = (Ret ms, s)"
  by (simp add: members_of_Some members)

lemma node_at_member:
  "node_at J s n = Some (json_object J ms) \<Longrightarrow> i < length ms
   \<Longrightarrow> node_at J s (fst n, snd n @ [Value_of i]) = Some (snd (ms ! i))"
  by (simp add: node_at_below members)

lemma node_at_key:
  "node_at J s n = Some (json_object J ms) \<Longrightarrow> i < length ms
   \<Longrightarrow> node_at J s (fst n, snd n @ [Key_of i]) = Some (json_string J (fst (ms ! i)))"
  by (simp add: node_at_below members)

lemma do_lookup_eq:
  assumes r: "node_at J s n = Some (json_object J ms)" and n: "writable (snd n)"
  shows "do_lookup E J key mode (Some n) s =
    (if key \<in> fst ` set ms then (Ret (Some (fst n, snd n @ [Value_of (find_member key ms)])), s)
     else case mode of
       KEY_OPTIONAL \<Rightarrow> (Ret None, s)
     | KEY_CREATE \<Rightarrow> (Ret (Some (fst n, snd n @ [Value_of (length ms)])),
                      write_node J n (json_object J (ms @ [(key, json_null J)])) s)
     | KEY_REQUIRED \<Rightarrow>
         bindM (cci_value_failure E
           (''cci_value map has no element with key '' @ [CHR 0x27] @ c_str key @ [CHR 0x27])) (\<lambda>_. retM None) s)"
proof -
  have 1: "find_member key ms \<noteq> length ms \<longleftrightarrow> key \<in> fst ` set ms"
    by (simp add: find_member_absent)
  have 2: "members_of J (Some n) (write_node J n (json_object J (ms @ [(key, json_null J)])) s)
      = (Ret (ms @ [(key, json_null J)]), write_node J n (json_object J (ms @ [(key, json_null J)])) s)"
    by (rule members_of_object) (rule node_at_write [OF r n])
  have 3: "key \<notin> fst ` set ms \<Longrightarrow> find_member key (ms @ [(key, json_null J)]) = length ms"
    by (simp add: find_member_append)
  show ?thesis
    by (cases mode) (auto simp: do_lookup_def bindM_def members_of_object [OF r] 1 2 3 Let_def
        set_node_Some [OF r] find_member_absent)
qed

lemma do_push_eq:
  assumes r: "node_at J s n = Some (json_object J ms)"
    and x: "fresh_copy J value s = (Ret x, s)"
  shows "do_push J key value (Some n) s = (Ret (Some n), write_node J n (json_object J (ms @ [(key, x)])) s)"
  using x by (simp add: do_push_def bindM_def members_of_object [OF r] set_node_Some [OF r])

lemma do_erase_eq:
  assumes r: "node_at J s n = Some (json_object J ms)"
  shows "do_erase J key (Some n) s
     = (Ret (length (filter (\<lambda>m. fst m = key) ms)),
        write_node J n (json_object J (filter (\<lambda>m. fst m \<noteq> key) ms)) s)"
  by (simp add: do_erase_def bindM_def members_of_object [OF r] set_node_Some [OF r] erase_members_eq)

end

end
