(* ===== verification/Value_Wrapper.thy ===== *)
theory Value_Wrapper
  imports Value_Map
begin

text \<open>
  The objects that own a value (src/src/cci/core/cci_value.h and .cpp): \<open>cci_value\<close>,
  \<open>cci_value_list\<close> and \<open>cci_value_map\<close>. Each owns at most one value of the pool; a \<open>cci_value\<close> gets
  one when it is first written. The three classes share the macro \<open>DEFINE_WRAPPER_\<close>.
\<close>

section \<open>Assignment and exchange\<close>

text \<open>\<open>WRAPPER_ASSIGN_PRECOND_\<close> and \<open>operator=( const_reference )\<close> for each class.\<close>

definition value_assign :: "('r, 'd) rapidjson \<Rightarrow> wid \<Rightarrow> cci_value_cref \<Rightarrow> ('r, unit) vcomp" where
  "value_assign J w that =
     bindM (is_null J that) (\<lambda>n.
       if n then bindM (init_wrapper J w) (\<lambda>v. thenM (set_null J v) skipM)
       else bindM (init_wrapper J w) (\<lambda>v. thenM (ref_assign J v that) skipM))"

definition list_assign :: "('r, 'd) rapidjson \<Rightarrow> wid \<Rightarrow> cci_value_cref \<Rightarrow> ('r, unit) vcomp" where
  "list_assign J w that =
     bindM (the_wrapper w) (\<lambda>x.
       bindM (is_list J (pimpl x)) (\<lambda>a. bindM (if a then is_list J that else retM False) (\<lambda>b.
         thenM (assertM b) (thenM (vlist_assign J (pimpl x) that) skipM))))"

definition map_obj_assign :: "('r, 'd) rapidjson \<Rightarrow> wid \<Rightarrow> cci_value_cref \<Rightarrow> ('r, unit) vcomp" where
  "map_obj_assign J w that =
     bindM (the_wrapper w) (\<lambda>x.
       bindM (is_map J (pimpl x)) (\<lambda>a. bindM (if a then is_map J that else retM False) (\<lambda>b.
         thenM (assertM b) (thenM (vmap_assign J (pimpl x) that) skipM))))"

text \<open>\<open>swap( this_type& )\<close> exchanges the pointers; the two are objects of the same class.\<close>

definition wrapper_swap :: "wid \<Rightarrow> wid \<Rightarrow> ('r, unit) vcomp" where
  "wrapper_swap w that =
     bindM (the_wrapper w) (\<lambda>x. bindM (the_wrapper that) (\<lambda>y.
       thenM (assertM (w_kind x = w_kind y))
         (modM (\<lambda>s. set_wrapper w (x\<lparr>pimpl := pimpl y, own_pimpl := own_pimpl y\<rparr>)
                      (set_wrapper that (y\<lparr>pimpl := pimpl x, own_pimpl := own_pimpl x\<rparr>) s)))))"

text \<open>\<open>swap( reference )\<close>.\<close>

definition value_swap :: "'x sc_env_scheme \<Rightarrow> ('r, 'd) rapidjson \<Rightarrow> wid \<Rightarrow> cci_value_ref \<Rightarrow> ('r, unit) vcomp" where
  "value_swap E J w that = bindM (init_wrapper J w) (\<lambda>v. ref_swap E J v that)"

definition list_swap :: "'x sc_env_scheme \<Rightarrow> ('r, 'd) rapidjson \<Rightarrow> wid \<Rightarrow> cci_value_ref \<Rightarrow> ('r, unit) vcomp" where
  "list_swap E J w that = bindM (the_wrapper w) (\<lambda>x. vlist_swap E J (pimpl x) that)"

definition map_obj_swap :: "'x sc_env_scheme \<Rightarrow> ('r, 'd) rapidjson \<Rightarrow> wid \<Rightarrow> cci_value_ref \<Rightarrow> ('r, unit) vcomp" where
  "map_obj_swap E J w that = bindM (the_wrapper w) (\<lambda>x. vmap_swap E J (pimpl x) that)"

section \<open>Construction\<close>

definition new_value :: "('r, wid) vcomp" where
  "new_value = alloc_wrapper Kind_value"

definition new_value_copy :: "('r, 'd) rapidjson \<Rightarrow> cci_value_cref \<Rightarrow> ('r, wid) vcomp" where
  "new_value_copy J that =
     bindM (alloc_wrapper Kind_value) (\<lambda>w. thenM (value_assign J w that) (retM w))"

definition new_list :: "('r, 'd) rapidjson \<Rightarrow> ('r, wid) vcomp" where
  "new_list J = bindM (alloc_wrapper Kind_list) (\<lambda>w. thenM (do_init J w) (retM w))"

definition new_list_copy :: "('r, 'd) rapidjson \<Rightarrow> cci_value_cref \<Rightarrow> ('r, wid) vcomp" where
  "new_list_copy J that =
     bindM (alloc_wrapper Kind_list) (\<lambda>w.
       thenM (do_init J w) (thenM (list_assign J w that) (retM w)))"

definition new_map :: "('r, 'd) rapidjson \<Rightarrow> ('r, wid) vcomp" where
  "new_map J = bindM (alloc_wrapper Kind_map) (\<lambda>w. thenM (do_init J w) (retM w))"

definition new_map_copy :: "('r, 'd) rapidjson \<Rightarrow> cci_value_cref \<Rightarrow> ('r, wid) vcomp" where
  "new_map_copy J that =
     bindM (alloc_wrapper Kind_map) (\<lambda>w.
       thenM (do_init J w) (thenM (map_obj_assign J w that) (retM w)))"

text \<open>The move constructor of \<open>cci_value\<close> takes the pointers over.\<close>

definition new_value_move :: "wid \<Rightarrow> ('r, wid) vcomp" where
  "new_value_move that =
     bindM (the_wrapper that) (\<lambda>y.
       bindM (alloc_wrapper Kind_value) (\<lambda>w.
         thenM (modM (\<lambda>s. set_wrapper w \<lparr>w_kind = Kind_value, pimpl = pimpl y, own_pimpl = own_pimpl y\<rparr>
                            (set_wrapper that (y\<lparr>pimpl := None, own_pimpl := None\<rparr>) s)))
           (retM w)))"

text \<open>
  Moving the contents of a list or a map into \<open>*THIS\<close>, and what is left behind.
\<close>

definition take_contents :: "('r, 'd) rapidjson \<Rightarrow> 'r \<Rightarrow> impl_type \<Rightarrow> impl_type \<Rightarrow> ('r, unit) vcomp" where
  "take_contents J becomes v that =
     bindM (take_node J that) (\<lambda>r. thenM (set_node J v r) (set_node J that becomes))"

text \<open>
  The constructors from a temporary list or map: \<open>cci_value\<close> from both, \<open>cci_value_list\<close> and
  \<open>cci_value_map\<close> from their own class.
\<close>

definition new_from_list :: "('r, 'd) rapidjson \<Rightarrow> wrapper_kind \<Rightarrow> wid \<Rightarrow> ('r, wid) vcomp" where
  "new_from_list J k that =
     bindM (the_wrapper that) (\<lambda>y.
       bindM (alloc_wrapper k) (\<lambda>w.
         bindM (do_init J w) (\<lambda>v.
           thenM (take_contents J (json_array J []) v (pimpl y)) (retM w))))"

definition new_from_map :: "('r, 'd) rapidjson \<Rightarrow> wrapper_kind \<Rightarrow> wid \<Rightarrow> ('r, wid) vcomp" where
  "new_from_map J k that =
     bindM (the_wrapper that) (\<lambda>y.
       bindM (alloc_wrapper k) (\<lambda>w.
         bindM (do_init J w) (\<lambda>v.
           thenM (take_contents J (json_object J []) v (pimpl y)) (retM w))))"

section \<open>Move assignment\<close>

definition value_move_assign :: "wid \<Rightarrow> wid \<Rightarrow> ('r, unit) vcomp" where
  "value_move_assign w that =
     bindM (the_wrapper w) (\<lambda>x. bindM (the_wrapper that) (\<lambda>y.
       if own_pimpl x = own_pimpl y then skipM
       else modM (\<lambda>s.
         set_wrapper that (y\<lparr>pimpl := None, own_pimpl := None\<rparr>)
           (set_wrapper w (x\<lparr>pimpl := map_option (\<lambda>a. (a, [])) (own_pimpl y), own_pimpl := own_pimpl y\<rparr>)
             (impl_deallocate (own_pimpl x) s)))))"

definition value_move_assign_list :: "('r, 'd) rapidjson \<Rightarrow> wid \<Rightarrow> wid \<Rightarrow> ('r, unit) vcomp" where
  "value_move_assign_list J w that =
     bindM (the_wrapper that) (\<lambda>y.
       bindM (init_wrapper J w) (\<lambda>v. take_contents J (json_array J []) v (pimpl y)))"

definition value_move_assign_map :: "('r, 'd) rapidjson \<Rightarrow> wid \<Rightarrow> wid \<Rightarrow> ('r, unit) vcomp" where
  "value_move_assign_map J w that =
     bindM (the_wrapper that) (\<lambda>y.
       bindM (init_wrapper J w) (\<lambda>v. take_contents J (json_object J []) v (pimpl y)))"

definition list_move_assign :: "('r, 'd) rapidjson \<Rightarrow> wid \<Rightarrow> wid \<Rightarrow> ('r, unit) vcomp" where
  "list_move_assign J w that =
     bindM (the_wrapper w) (\<lambda>x. bindM (the_wrapper that) (\<lambda>y.
       if own_pimpl x = own_pimpl y then skipM
       else take_contents J (json_array J []) (pimpl x) (pimpl y)))"

definition map_move_assign :: "('r, 'd) rapidjson \<Rightarrow> wid \<Rightarrow> wid \<Rightarrow> ('r, unit) vcomp" where
  "map_move_assign J w that =
     bindM (the_wrapper w) (\<lambda>x. bindM (the_wrapper that) (\<lambda>y.
       if own_pimpl x = own_pimpl y then skipM
       else take_contents J (json_object J []) (pimpl x) (pimpl y)))"

section \<open>Setters and JSON\<close>

text \<open>
  Each setter of \<open>cci_value\<close> calls \<open>init()\<close> and the setter of the reference.
\<close>

definition value_set :: "('r, 'd) rapidjson \<Rightarrow> (cci_value_ref \<Rightarrow> ('r, cci_value_ref) vcomp) \<Rightarrow> wid
    \<Rightarrow> ('r, cci_value_ref) vcomp" where
  "value_set J setter w = bindM (init_wrapper J w) setter"

text \<open>\<open>operator>>\<close> of \<open>cci_value\<close>.\<close>

definition value_extract :: "'x sc_env_scheme \<Rightarrow> ('r, 'd) rapidjson \<Rightarrow> string \<Rightarrow> wid
    \<Rightarrow> ('r, string \<times> bool) vcomp" where
  "value_extract E J is w = bindM (init_wrapper J w) (\<lambda>v. ref_extract E J is v)"

definition from_json :: "'x sc_env_scheme \<Rightarrow> ('r, 'd) rapidjson \<Rightarrow> string \<Rightarrow> ('r, wid) vcomp" where
  "from_json E J json =
     bindM (alloc_wrapper Kind_value) (\<lambda>ret.
       case json_parse J (c_str json) of
         Inr doc \<Rightarrow> bindM (init_wrapper J ret) (\<lambda>v. thenM (set_node J v doc) (retM ret))
       | Inl what \<Rightarrow>
           thenM (on_exception (cci_value_failure E (''JSON parse error: '' @ what))
                    (modM (delete_wrapper ret)))
             (retM ret))"

section \<open>What a program does with values\<close>

text \<open>
  The calls that change values: through references, which a program can keep and copy as it
  likes, and on owning objects.
\<close>

datatype 'r ref_call =
    Ref_set "'r"
  | Ref_set_null
  | Ref_set_string string
  | Ref_assign cci_value_cref
  | Ref_swap cci_value_ref
  | Ref_move
  | Ref_extract string
  | String_assign cci_value_cref
  | String_move

datatype list_call =
    List_clear
  | List_push_back cci_value_cref
  | List_push_back_move cci_value_ref
  | List_insert value_iterator nat cci_value_cref
  | List_erase value_iterator
  | List_erase_range value_iterator value_iterator
  | List_pop_back
  | List_move

datatype map_call =
    Map_index key_arg
  | Map_clear
  | Map_push_entry key_arg cci_value_cref
  | Map_push_entry_move key_arg cci_value_ref
  | Map_erase_key key_arg
  | Map_erase value_iterator
  | Map_erase_range value_iterator value_iterator
  | Map_move

datatype new_call =
    New_value
  | New_value_copy cci_value_cref
  | New_value_move wid
  | New_list
  | New_list_copy cci_value_cref
  | New_map
  | New_map_copy cci_value_cref
  | New_from_list wrapper_kind wid
  | New_from_map wrapper_kind wid
  | From_json string

datatype 'r obj_call =
    Value_assign cci_value_cref
  | List_assign cci_value_cref
  | Map_assign cci_value_cref
  | Value_move_assign wid
  | Value_move_assign_list wid
  | Value_move_assign_map wid
  | List_move_assign wid
  | Map_move_assign wid
  | Wrapper_swap wid
  | Value_swap cci_value_ref
  | Value_set 'r
  | Value_set_null
  | Value_extract string
  | Delete

datatype 'r value_call =
    Call_ref cci_value_ref "'r ref_call"
  | Call_list cci_value_ref list_call
  | Call_map cci_value_ref map_call
  | Call_new new_call
  | Call_obj wid "'r obj_call"

definition ignoreM :: "('r, 'a) vcomp \<Rightarrow> ('r, unit) vcomp" where
  "ignoreM m = bindM m (\<lambda>_. skipM)"

fun ref_dispatch :: "'x sc_env_scheme \<Rightarrow> ('r, 'd) rapidjson \<Rightarrow> cci_value_ref \<Rightarrow> 'r ref_call \<Rightarrow> ('r, unit) vcomp" where
  "ref_dispatch E J v (Ref_set x) = ignoreM (checked_set J x v)"
| "ref_dispatch E J v Ref_set_null = ignoreM (set_null J v)"
| "ref_dispatch E J v (Ref_set_string cs) = ignoreM (set_string J cs v)"
| "ref_dispatch E J v (Ref_assign that) = ignoreM (ref_assign J v that)"
| "ref_dispatch E J v (Ref_swap that) = ref_swap E J v that"
| "ref_dispatch E J v Ref_move = ignoreM (ref_move J v)"
| "ref_dispatch E J v (Ref_extract is) = ignoreM (ref_extract E J is v)"
| "ref_dispatch E J v (String_assign cs) = ignoreM (set_string_value J cs v)"
| "ref_dispatch E J v String_move = ignoreM (string_move J v)"

fun list_dispatch :: "'x sc_env_scheme \<Rightarrow> ('r, 'd) rapidjson \<Rightarrow> cci_value_ref \<Rightarrow> list_call \<Rightarrow> ('r, unit) vcomp" where
  "list_dispatch E J v List_clear = ignoreM (vlist_clear J v)"
| "list_dispatch E J v (List_push_back x) = ignoreM (vlist_push_back J x v)"
| "list_dispatch E J v (List_push_back_move x) = ignoreM (vlist_push_back_move J x v)"
| "list_dispatch E J v (List_insert pos n x) = ignoreM (vlist_insert_count E J pos n x v)"
| "list_dispatch E J v (List_erase pos) = ignoreM (vlist_erase J pos v)"
| "list_dispatch E J v (List_erase_range pos stop) = ignoreM (vlist_erase_range J pos stop v)"
| "list_dispatch E J v List_pop_back = vlist_pop_back J v"
| "list_dispatch E J v List_move = ignoreM (vlist_move J v)"

fun map_dispatch :: "'x sc_env_scheme \<Rightarrow> ('r, 'd) rapidjson \<Rightarrow> cci_value_ref \<Rightarrow> map_call \<Rightarrow> ('r, unit) vcomp" where
  "map_dispatch E J v (Map_index k) = ignoreM (vmap_index E J k v)"
| "map_dispatch E J v Map_clear = ignoreM (vmap_clear J v)"
| "map_dispatch E J v (Map_push_entry k x) = ignoreM (push_entry J k x v)"
| "map_dispatch E J v (Map_push_entry_move k x) = ignoreM (push_entry_move J k x v)"
| "map_dispatch E J v (Map_erase_key k) = ignoreM (vmap_erase_key J k v)"
| "map_dispatch E J v (Map_erase pos) = ignoreM (vmap_erase J pos v)"
| "map_dispatch E J v (Map_erase_range pos stop) = ignoreM (vmap_erase_range J pos stop v)"
| "map_dispatch E J v Map_move = ignoreM (vmap_move J v)"

fun new_dispatch :: "'x sc_env_scheme \<Rightarrow> ('r, 'd) rapidjson \<Rightarrow> new_call \<Rightarrow> ('r, unit) vcomp" where
  "new_dispatch E J New_value = ignoreM new_value"
| "new_dispatch E J (New_value_copy that) = ignoreM (new_value_copy J that)"
| "new_dispatch E J (New_value_move that) = ignoreM (new_value_move that)"
| "new_dispatch E J New_list = ignoreM (new_list J)"
| "new_dispatch E J (New_list_copy that) = ignoreM (new_list_copy J that)"
| "new_dispatch E J New_map = ignoreM (new_map J)"
| "new_dispatch E J (New_map_copy that) = ignoreM (new_map_copy J that)"
| "new_dispatch E J (New_from_list k that) = ignoreM (new_from_list J k that)"
| "new_dispatch E J (New_from_map k that) = ignoreM (new_from_map J k that)"
| "new_dispatch E J (From_json json) = ignoreM (from_json E J json)"

fun obj_dispatch :: "'x sc_env_scheme \<Rightarrow> ('r, 'd) rapidjson \<Rightarrow> wid \<Rightarrow> 'r obj_call \<Rightarrow> ('r, unit) vcomp" where
  "obj_dispatch E J w (Value_assign that) = value_assign J w that"
| "obj_dispatch E J w (List_assign that) = list_assign J w that"
| "obj_dispatch E J w (Map_assign that) = map_obj_assign J w that"
| "obj_dispatch E J w (Value_move_assign that) = value_move_assign w that"
| "obj_dispatch E J w (Value_move_assign_list that) = value_move_assign_list J w that"
| "obj_dispatch E J w (Value_move_assign_map that) = value_move_assign_map J w that"
| "obj_dispatch E J w (List_move_assign that) = list_move_assign J w that"
| "obj_dispatch E J w (Map_move_assign that) = map_move_assign J w that"
| "obj_dispatch E J w (Wrapper_swap that) = wrapper_swap w that"
| "obj_dispatch E J w (Value_swap that) = value_swap E J w that"
| "obj_dispatch E J w (Value_set x) = ignoreM (value_set J (checked_set J x) w)"
| "obj_dispatch E J w Value_set_null = ignoreM (value_set J (set_null J) w)"
| "obj_dispatch E J w (Value_extract is) = ignoreM (value_extract E J is w)"
| "obj_dispatch E J w Delete = modM (delete_wrapper w)"

fun value_dispatch :: "'x sc_env_scheme \<Rightarrow> ('r, 'd) rapidjson \<Rightarrow> 'r value_call \<Rightarrow> ('r, unit) vcomp" where
  "value_dispatch E J (Call_ref v c) = ref_dispatch E J v c"
| "value_dispatch E J (Call_list v c) = list_dispatch E J v c"
| "value_dispatch E J (Call_map v c) = map_dispatch E J v c"
| "value_dispatch E J (Call_new c) = new_dispatch E J c"
| "value_dispatch E J (Call_obj w c) = obj_dispatch E J w c"

text \<open>A program that catches what its calls throw; an abort ends it.\<close>

fun run_values :: "'x sc_env_scheme \<Rightarrow> ('r, 'd) rapidjson \<Rightarrow> 'r value_call list \<Rightarrow> ('r, unit) vcomp" where
  "run_values E J [] = skipM"
| "run_values E J (c # cs) = (\<lambda>s.
     case value_dispatch E J c s of
       (Abort, t) \<Rightarrow> (Abort, t)
     | (NoFuel, t) \<Rightarrow> (NoFuel, t)
     | (r, t) \<Rightarrow> run_values E J cs t)"

end
