(* ===== verification/Value_Ownership.thy ===== *)
theory Value_Ownership
  imports Value_Wrapper
begin

text \<open>
  Who owns the values of the pool. In every state that a program reaches, each value of the pool
  has exactly one owning object, an object owns what it points to, and the addresses that have
  been handed out are in use or in the free list, once: nothing is released twice, used after its
  release by its owner, or lost.
\<close>

section \<open>The invariant\<close>

definition owned_by :: "'r value_state \<Rightarrow> wid \<Rightarrow> impl_addr option" where
  "owned_by s w = (case wrappers s w of None \<Rightarrow> None | Some x \<Rightarrow> own_pimpl x)"

definition pool_ok :: "'r value_state \<Rightarrow> bool" where
  "pool_ok s \<longleftrightarrow> distinct (free_list s)
     \<and> (\<forall>a. a \<in> set (free_list s) \<longleftrightarrow> a < next_impl s \<and> pool s a = None)
     \<and> (\<forall>a \<ge> next_impl s. pool s a = None)"

definition owners_ok :: "'r value_state \<Rightarrow> bool" where
  "owners_ok s \<longleftrightarrow>
     (\<forall>w x. wrappers s w = Some x \<longrightarrow> w < next_wid s \<and> pimpl x = map_option (\<lambda>a. (a, [])) (own_pimpl x))
     \<and> (\<forall>a. pool s a \<noteq> None \<longleftrightarrow> (\<exists>w. owned_by s w = Some a))
     \<and> (\<forall>w w' a. owned_by s w = Some a \<and> owned_by s w' = Some a \<longrightarrow> w = w')"

definition values_ok :: "'r value_state \<Rightarrow> bool" where
  "values_ok s \<longleftrightarrow> pool_ok s \<and> owners_ok s"

lemma values_okI:
  assumes "distinct (free_list s)"
    and "\<And>a. a \<in> set (free_list s) \<longleftrightarrow> a < next_impl s \<and> pool s a = None"
    and "\<And>a. next_impl s \<le> a \<Longrightarrow> pool s a = None"
    and "\<And>w x. wrappers s w = Some x \<Longrightarrow> w < next_wid s \<and> pimpl x = map_option (\<lambda>a. (a, [])) (own_pimpl x)"
    and "\<And>a. pool s a \<noteq> None \<longleftrightarrow> (\<exists>w. owned_by s w = Some a)"
    and "\<And>w w' a. owned_by s w = Some a \<Longrightarrow> owned_by s w' = Some a \<Longrightarrow> w = w'"
  shows "values_ok s"
  using assms unfolding values_ok_def pool_ok_def owners_ok_def by blast

lemma values_okD:
  assumes "values_ok s"
  shows "distinct (free_list s)"
    and "a \<in> set (free_list s) \<longleftrightarrow> a < next_impl s \<and> pool s a = None"
    and "next_impl s \<le> a \<Longrightarrow> pool s a = None"
    and "wrappers s w = Some x \<Longrightarrow> w < next_wid s"
    and "wrappers s w = Some x \<Longrightarrow> pimpl x = map_option (\<lambda>a. (a, [])) (own_pimpl x)"
    and "pool s a \<noteq> None \<longleftrightarrow> (\<exists>w. owned_by s w = Some a)"
    and "owned_by s w = Some a \<Longrightarrow> owned_by s w' = Some a \<Longrightarrow> w = w'"
  using assms unfolding values_ok_def pool_ok_def owners_ok_def by blast+

text \<open>Only which addresses are in use matters, not what is stored there.\<close>

lemma values_ok_cong:
  assumes "values_ok s" and "wrappers t = wrappers s" and "free_list t = free_list s"
    and "next_impl t = next_impl s" and "next_wid t = next_wid s"
    and "\<And>a. pool t a = None \<longleftrightarrow> pool s a = None"
  shows "values_ok t"
proof -
  have "owned_by t = owned_by s" by (rule ext) (simp add: owned_by_def assms)
  with assms show ?thesis by (simp add: values_ok_def pool_ok_def owners_ok_def)
qed

section \<open>The steps\<close>

lemma values_ok_write: "values_ok s \<Longrightarrow> values_ok (write_node J n x s)"
  by (erule values_ok_cong) simp_all

lemma values_ok_report: "values_ok s \<Longrightarrow> values_ok (s\<lparr>reports := rs\<rparr>)"
  by (erule values_ok_cong) simp_all

lemma values_ok_alloc_wrapper:
  assumes "values_ok s"
  shows "values_ok (snd (alloc_wrapper k s))"
proof -
  let ?t = "snd (alloc_wrapper k s)"
  have new: "wrappers s (next_wid s) = None"
    using values_okD(4) [OF assms] by (metis less_irrefl option.exhaust)
  then have "owned_by ?t = owned_by s"
    by (auto simp: owned_by_def alloc_wrapper_def)
  then show ?thesis
    using values_okD [OF assms]
    by (intro values_okI) (auto simp: alloc_wrapper_def less_SucI split: if_splits)
qed

text \<open>An object without a value gets one from the pool.\<close>

lemma impl_allocate_cases:
  assumes "values_ok s"
  obtains a t where "impl_allocate J s = (Ret a, t)" and "pool s a = None"
    and "pool t = (pool s)(a \<mapsto> json_null J)" and "wrappers t = wrappers s" and "next_wid t = next_wid s"
    and "distinct (free_list t)" and "set (free_list t) = set (free_list s) - {a}"
    and "next_impl s \<le> next_impl t" and "\<And>b. b < next_impl t \<longleftrightarrow> b < next_impl s \<or> b = a"
proof (cases "free_list s")
  case Nil
  with values_okD [OF assms] show thesis
    by (intro that [of "next_impl s" "snd (impl_allocate J s)"]) (auto simp: impl_allocate_def less_Suc_eq)
next
  case (Cons a as)
  then have "a < next_impl s \<and> pool s a = None" using values_okD(2) [OF assms, of a] by simp
  with Cons values_okD(1) [OF assms] show thesis
    by (intro that [of a "snd (impl_allocate J s)"]) (auto simp: impl_allocate_def)
qed

lemma values_ok_acquire:
  assumes ok: "values_ok s" and w: "wrappers s w = Some x" and x: "own_pimpl x = None"
    and al: "impl_allocate J s = (Ret a, t)"
  shows "values_ok (set_wrapper w (x\<lparr>pimpl := Some (a, []), own_pimpl := Some a\<rparr>) t)" (is "values_ok ?u")
proof -
  obtain a' t' where al': "impl_allocate J s = (Ret a', t')" and a': "pool s a' = None"
    and pool': "pool t' = (pool s)(a' \<mapsto> json_null J)" and wr': "wrappers t' = wrappers s"
    and nw': "next_wid t' = next_wid s" and d': "distinct (free_list t')"
    and fl': "set (free_list t') = set (free_list s) - {a'}"
    and ni': "next_impl s \<le> next_impl t'" "\<And>b. b < next_impl t' \<longleftrightarrow> b < next_impl s \<or> b = a'"
    using impl_allocate_cases [OF ok, of J] by metis
  have eq: "a' = a" "t' = t" using al al' by simp_all
  note a = a' [unfolded eq] and pool = pool' [unfolded eq] and wr = wr' [unfolded eq]
    and nw = nw' [unfolded eq] and d = d' [unfolded eq] and fl = fl' [unfolded eq] and ni = ni' [unfolded eq]
  define u where "u = ?u"
  have u: "wrappers u = (wrappers s)(w \<mapsto> x\<lparr>pimpl := Some (a, []), own_pimpl := Some a\<rparr>)"
    "pool u = (pool s)(a \<mapsto> json_null J)" "next_wid u = next_wid s" "distinct (free_list u)"
    "set (free_list u) = set (free_list s) - {a}" "next_impl s \<le> next_impl u"
    "\<And>b. b < next_impl u \<longleftrightarrow> b < next_impl s \<or> b = a"
    using wr pool nw d fl ni by (simp_all add: u_def set_wrapper_def)
  have ow: "owned_by u = (owned_by s)(w := Some a)"
    by (auto simp: owned_by_def u)
  have own: "owned_by s w = None" by (simp add: owned_by_def w x)
  have none: "owned_by s v \<noteq> Some a" for v using values_okD(6) [OF ok, of a] a by blast
  have "values_ok u"
  proof (rule values_okI)
    fix b
    have "(\<exists>v. owned_by u v = Some b) \<longleftrightarrow> b = a \<or> (\<exists>v. owned_by s v = Some b)"
      using own by (auto simp: ow) (metis option.distinct(1))
    then show "pool u b \<noteq> None \<longleftrightarrow> (\<exists>v. owned_by u v = Some b)"
      using values_okD(6) [OF ok, of b] by (auto simp: u)
  next
    fix v v' b
    show "owned_by u v = Some b \<Longrightarrow> owned_by u v' = Some b \<Longrightarrow> v = v'"
      using values_okD(7) [OF ok] none by (auto simp: ow split: if_splits)
  next
    fix v y
    show "wrappers u v = Some y \<Longrightarrow> v < next_wid u \<and> pimpl y = map_option (\<lambda>a. (a, [])) (own_pimpl y)"
      using values_okD(4,5) [OF ok] w by (auto simp: u split: if_splits)
  next
    fix b
    show "b \<in> set (free_list u) \<longleftrightarrow> b < next_impl u \<and> pool u b = None"
      using values_okD(2) [OF ok, of b] by (auto simp: u)
  next
    fix b
    show "next_impl u \<le> b \<Longrightarrow> pool u b = None"
      using values_okD(3) [OF ok, of b] u(6) u(7) [of b] by (auto simp: u(2))
  qed (rule u)
  then show ?thesis by (simp add: u_def)
qed

lemma values_ok_delete:
  assumes ok: "values_ok s"
  shows "values_ok (delete_wrapper w s)"
proof (cases "wrappers s w")
  case None
  with ok show ?thesis by (simp add: delete_wrapper_def)
next
  case (Some x)
  let ?t = "delete_wrapper w s"
  have ow: "owned_by ?t = (owned_by s)(w := None)"
    by (auto simp: owned_by_def delete_wrapper_def Some impl_deallocate_def split: option.splits)
  have own: "owned_by s w = own_pimpl x" by (simp add: owned_by_def Some)
  show ?thesis
  proof (cases "own_pimpl x")
    case None
    then have "owned_by ?t = owned_by s" using ow own by auto
    moreover have "free_list ?t = free_list s" "next_impl ?t = next_impl s" "pool ?t = pool s"
      "next_wid ?t = next_wid s" "wrappers ?t = (wrappers s)(w := None)"
      using None by (simp_all add: delete_wrapper_def Some impl_deallocate_def)
    ultimately show ?thesis
      using ok unfolding values_ok_def pool_ok_def owners_ok_def by (simp add: fun_upd_def)
  next
    case (Some a)
    have a: "pool s a \<noteq> None" using values_okD(6) [OF ok, of a] own Some by auto
    have t: "pool ?t = (pool s)(a := None)" "free_list ?t = a # free_list s" "next_impl ?t = next_impl s"
      "next_wid ?t = next_wid s" "wrappers ?t = (wrappers s)(w := None)"
      using \<open>wrappers s w = Some x\<close> Some by (simp_all add: delete_wrapper_def impl_deallocate_def)
    have lt: "a < next_impl s" using a values_okD(3) [OF ok, of a] by (meson not_le)
    have uniq: "owned_by s v = Some a \<Longrightarrow> v = w" for v
      using values_okD(7) [OF ok, of v a w] own Some by simp
    have "values_ok u" if "u = ?t" for u
    proof (rule values_okI)
      fix b
      have "(\<exists>v. owned_by u v = Some b) \<longleftrightarrow> b \<noteq> a \<and> (\<exists>v. owned_by s v = Some b)"
      proof -
        have "(\<exists>v. owned_by u v = Some b) \<longleftrightarrow> (\<exists>v. v \<noteq> w \<and> owned_by s v = Some b)"
          unfolding that ow by auto
        moreover have "owned_by s w = Some a" using own Some by simp
        ultimately show ?thesis using uniq by (metis option.inject)
      qed
      then show "pool u b \<noteq> None \<longleftrightarrow> (\<exists>v. owned_by u v = Some b)"
        using values_okD(6) [OF ok, of b] by (simp add: t that)
    next
      fix b
      show "b \<in> set (free_list u) \<longleftrightarrow> b < next_impl u \<and> pool u b = None"
        using values_okD(2) [OF ok, of b] a lt by (auto simp: t that)
    next
      fix b
      show "next_impl u \<le> b \<Longrightarrow> pool u b = None"
        using values_okD(3) [OF ok, of b] by (simp add: t that)
    next
      show "distinct (free_list u)"
        using values_okD(1) [OF ok] values_okD(2) [OF ok, of a] a by (simp add: t that)
    next
      fix v y
      show "wrappers u v = Some y \<Longrightarrow> v < next_wid u \<and> pimpl y = map_option (\<lambda>a. (a, [])) (own_pimpl y)"
        using values_okD(4,5) [OF ok] by (auto simp: t that split: if_splits)
    next
      fix v v' b
      show "owned_by u v = Some b \<Longrightarrow> owned_by u v' = Some b \<Longrightarrow> v = v'"
        using values_okD(7) [OF ok] by (auto simp: ow that split: if_splits)
    qed
    then show ?thesis by simp
  qed
qed

text \<open>The pointers of one object pass to another one, which had none or releases its own before.\<close>

lemma values_ok_transfer:
  assumes ok: "values_ok s" and x: "wrappers s w = Some x" "own_pimpl x = None"
    and y: "wrappers s v = Some y" and ne: "v \<noteq> w"
  shows "values_ok (set_wrapper v (y\<lparr>pimpl := None, own_pimpl := None\<rparr>)
    (set_wrapper w (x\<lparr>pimpl := map_option (\<lambda>a. (a, [])) (own_pimpl y), own_pimpl := own_pimpl y\<rparr>) s))"
    (is "values_ok ?u")
proof -
  have u: "wrappers ?u = (wrappers s)(w \<mapsto> x\<lparr>pimpl := map_option (\<lambda>a. (a, [])) (own_pimpl y), own_pimpl := own_pimpl y\<rparr>,
        v \<mapsto> y\<lparr>pimpl := None, own_pimpl := None\<rparr>)"
    "pool ?u = pool s" "next_wid ?u = next_wid s" "free_list ?u = free_list s" "next_impl ?u = next_impl s"
    by (simp_all add: set_wrapper_def)
  have ow: "owned_by ?u = (owned_by s)(w := own_pimpl y, v := None)"
    by (rule ext) (simp add: owned_by_def u(1))
  have own: "owned_by s w = None" "owned_by s v = own_pimpl y" by (simp_all add: owned_by_def x y)
  show ?thesis
  proof (rule values_okI)
    fix b
    have "(\<exists>z. owned_by ?u z = Some b) \<longleftrightarrow> (\<exists>z. owned_by s z = Some b)"
      unfolding ow using own ne by (metis fun_upd_apply option.distinct(1))
    then show "pool ?u b \<noteq> None \<longleftrightarrow> (\<exists>v. owned_by ?u v = Some b)"
      using values_okD(6) [OF ok, of b] by (simp add: u(2))
  next
    fix z z' b
    show "owned_by ?u z = Some b \<Longrightarrow> owned_by ?u z' = Some b \<Longrightarrow> z = z'"
      unfolding ow using own ne values_okD(7) [OF ok] by (metis fun_upd_apply option.distinct(1))
  next
    fix z q
    show "wrappers ?u z = Some q \<Longrightarrow> z < next_wid ?u \<and> pimpl q = map_option (\<lambda>a. (a, [])) (own_pimpl q)"
      unfolding u using values_okD(4,5) [OF ok] x y by (auto split: if_splits)
  qed (use values_okD [OF ok] in \<open>simp_all add: u(2-)\<close>)
qed

text \<open>An object can be put back without a value after its destructor has run.\<close>

lemma values_ok_add_null:
  assumes ok: "values_ok s" and w: "w < next_wid s" "wrappers s w = None"
  shows "values_ok (set_wrapper w (x\<lparr>pimpl := None, own_pimpl := None\<rparr>) s)" (is "values_ok ?u")
proof -
  have ow: "owned_by ?u = owned_by s"
    using w(2) by (auto simp: owned_by_def set_wrapper_def)
  show ?thesis
  proof (rule values_okI)
    fix z q
    show "wrappers ?u z = Some q \<Longrightarrow> z < next_wid ?u \<and> pimpl q = map_option (\<lambda>a. (a, [])) (own_pimpl q)"
      using values_okD(4,5) [OF ok] w by (auto simp: set_wrapper_def split: if_splits)
  qed (unfold ow, use values_okD [OF ok] in \<open>simp_all add: set_wrapper_def\<close>)
qed

lemma values_ok_release:
  assumes ok: "values_ok s" and w: "wrappers s w = Some x"
  shows "values_ok (set_wrapper w (x\<lparr>pimpl := None, own_pimpl := None\<rparr>) (impl_deallocate (own_pimpl x) s))"
proof -
  have "set_wrapper w (x\<lparr>pimpl := None, own_pimpl := None\<rparr>) (impl_deallocate (own_pimpl x) s)
      = set_wrapper w (x\<lparr>pimpl := None, own_pimpl := None\<rparr>) (delete_wrapper w s)"
    by (simp add: delete_wrapper_def w set_wrapper_def impl_deallocate_def split: option.split)
  moreover have "values_ok \<dots>"
    using values_okD(4) [OF ok w]
    by (intro values_ok_add_null values_ok_delete ok)
      (simp_all add: delete_wrapper_def w impl_deallocate_def split: option.split)
  ultimately show ?thesis by simp
qed

lemma values_ok_swap:
  assumes ok: "values_ok s" and x: "wrappers s w = Some x" and y: "wrappers s v = Some y"
  shows "values_ok (set_wrapper w (x\<lparr>pimpl := pimpl y, own_pimpl := own_pimpl y\<rparr>)
    (set_wrapper v (y\<lparr>pimpl := pimpl x, own_pimpl := own_pimpl x\<rparr>) s))" (is "values_ok ?u")
proof -
  have u: "wrappers ?u = (wrappers s)(v \<mapsto> y\<lparr>pimpl := pimpl x, own_pimpl := own_pimpl x\<rparr>,
        w \<mapsto> x\<lparr>pimpl := pimpl y, own_pimpl := own_pimpl y\<rparr>)"
    "pool ?u = pool s" "next_wid ?u = next_wid s" "free_list ?u = free_list s" "next_impl ?u = next_impl s"
    by (simp_all add: set_wrapper_def)
  have ow: "owned_by ?u = (owned_by s)(v := owned_by s w, w := owned_by s v)"
    using x y by (auto simp: owned_by_def u(1))
  show ?thesis
  proof (rule values_okI)
    fix b
    have "(\<exists>z. owned_by ?u z = Some b) \<longleftrightarrow> (\<exists>z. owned_by s z = Some b)"
      unfolding ow by (metis fun_upd_apply)
    then show "pool ?u b \<noteq> None \<longleftrightarrow> (\<exists>v. owned_by ?u v = Some b)"
      using values_okD(6) [OF ok, of b] by (simp add: u(2))
  next
    fix z z' b
    show "owned_by ?u z = Some b \<Longrightarrow> owned_by ?u z' = Some b \<Longrightarrow> z = z'"
      unfolding ow using values_okD(7) [OF ok] by (metis fun_upd_apply)
  next
    fix z q
    show "wrappers ?u z = Some q \<Longrightarrow> z < next_wid ?u \<and> pimpl q = map_option (\<lambda>a. (a, [])) (own_pimpl q)"
      unfolding u using values_okD(4,5) [OF ok] x y by (auto split: if_splits)
  qed (use values_okD [OF ok] in \<open>simp_all add: u(2-)\<close>)
qed

section \<open>Every call keeps the invariant\<close>

interpretation ok: step_relation "\<lambda>s t. values_ok s \<longrightarrow> values_ok t"
  by unfold_locales auto

abbreviation keeps_values :: "('r value_state, 'e, 'a) comp \<Rightarrow> bool" where
  "keeps_values \<equiv> keeps (\<lambda>s t. values_ok s \<longrightarrow> values_ok t)"

lemma ok_the_node: "keeps_values (the_node J v)"
  by (simp add: keeps_def)

lemma ok_the_wrapper: "keeps_values (the_wrapper w)"
  by (simp add: keeps_def the_wrapper_def split: option.split)

lemma ok_set_node: "keeps_values (set_node J v x)"
  by (simp add: keeps_def set_node_def values_ok_write split: option.split)

lemma ok_report: "keeps_values (report E sev mt m)"
  by (simp add: keeps_def report_state values_ok_report)

lemma ok_alloc_wrapper: "keeps_values (alloc_wrapper k)"
  by (simp add: keeps_def values_ok_alloc_wrapper)

lemma ok_delete: "keeps_values (modM (delete_wrapper w))"
  by (simp add: keeps_def values_ok_delete)

text \<open>What follows the creation of the value in \<open>do_init\<close> only writes to it.\<close>

lemma ok_do_init: "keeps_values (do_init J w)"
proof (rule keepsI, rule impI)
  fix s
  assume ok: "values_ok (s :: 'a value_state)"
  show "values_ok (snd (do_init J w s))"
  proof (cases "wrappers s w")
    case None
    with ok show ?thesis by (simp add: do_init_def bindM_def the_wrapper_def)
  next
    case (Some x)
    obtain a t where al: "impl_allocate J s = (Ret a, t)"
      using impl_allocate_cases [OF ok, of J] by metis
    let ?u = "set_wrapper w (x\<lparr>pimpl := Some (a, []), own_pimpl := Some a\<rparr>) t"
    show ?thesis
    proof (cases "own_pimpl x")
      case None
      with ok Some al have "values_ok ?u" by (intro values_ok_acquire)
      let ?rest = "thenM (case w_kind x of
                       Kind_value \<Rightarrow> skipM
                     | Kind_list \<Rightarrow> set_node J (Some (a, [])) (json_array J [])
                     | Kind_map \<Rightarrow> set_node J (Some (a, [])) (json_object J []))
               (retM (Some (a, [])))"
      have "keeps_values ?rest"
        by (intro ok.keeps_bindM ok.keeps_retM)
          (cases "w_kind x"; simp add: ok_set_node ok.keeps_retM del: retM_apply)
      then have "values_ok (snd (?rest ?u))"
        using \<open>values_ok ?u\<close> unfolding keeps_def by blast
      moreover have "do_init J w s = ?rest ?u"
        unfolding do_init_def
        by (subst bindM_Ret, rule the_wrapper_Some, rule Some) (simp add: None bindM_Ret [where m = "impl_allocate J", OF al])
      ultimately show ?thesis by simp
    next
      case (Some b)
      with ok \<open>wrappers s w = Some x\<close> show ?thesis
        by (simp add: do_init_def bindM_def the_wrapper_Some assertM_def)
    qed
  qed
qed

lemma ok_init_wrapper: "keeps_values (init_wrapper J w)"
  unfolding init_wrapper_def
  by (intro ok.keeps_rules ok_the_wrapper ok_do_init)

lemma ok_wrapper_swap: "keeps_values (wrapper_swap w v)"
proof (rule keepsI, rule impI)
  fix s
  assume ok: "values_ok (s :: 'a value_state)"
  show "values_ok (snd (wrapper_swap w v s))"
    using ok values_ok_swap [OF ok]
    by (auto simp: wrapper_swap_def bindM_def the_wrapper_def assertM_def split: option.split)
qed

lemma ok_new_value_move: "keeps_values (new_value_move v)"
proof (rule keepsI, rule impI)
  fix s
  assume ok: "values_ok (s :: 'a value_state)"
  show "values_ok (snd (new_value_move v s))"
  proof (cases "wrappers s v")
    case None
    with ok show ?thesis by (simp add: new_value_move_def bindM_def the_wrapper_def)
  next
    case (Some y)
    let ?t = "snd (alloc_wrapper Kind_value s)" and ?w = "next_wid s"
    have "values_ok ?t" using ok by (rule values_ok_alloc_wrapper)
    moreover have "v \<noteq> ?w" using values_okD(4) [OF ok Some] by simp
    moreover have "wrappers ?t v = Some y" "wrappers ?t ?w = Some \<lparr>w_kind = Kind_value, pimpl = None, own_pimpl = None\<rparr>"
      using Some \<open>v \<noteq> ?w\<close> by (simp_all add: alloc_wrapper_def)
    ultimately show ?thesis
      using values_ok_transfer [of ?t ?w _ v y] values_okD(5) [OF ok Some] Some
      by (simp add: new_value_move_def bindM_def the_wrapper_Some alloc_wrapper_def set_wrapper_def fun_upd_twist)
  qed
qed

lemma ok_value_move_assign: "keeps_values (value_move_assign w v)"
proof (rule keepsI, rule impI)
  fix s
  assume ok: "values_ok (s :: 'a value_state)"
  show "values_ok (snd (value_move_assign w v s))"
  proof (cases "\<exists>x y. wrappers s w = Some x \<and> wrappers s v = Some y \<and> own_pimpl x \<noteq> own_pimpl y")
    case False
    with ok show ?thesis
      by (auto simp: value_move_assign_def bindM_def the_wrapper_def split: option.split)
  next
    case True
    then obtain x y where x: "wrappers s w = Some x" and y: "wrappers s v = Some y"
      and ne: "own_pimpl x \<noteq> own_pimpl y" by blast
    have vw: "v \<noteq> w" using x y ne by auto
    let ?t = "set_wrapper w (x\<lparr>pimpl := None, own_pimpl := None\<rparr>) (impl_deallocate (own_pimpl x) s)"
    have t: "wrappers ?t = (wrappers s)(w \<mapsto> x\<lparr>pimpl := None, own_pimpl := None\<rparr>)"
      by (simp add: set_wrapper_def impl_deallocate_def split: option.split)
    from ok x have "values_ok ?t" by (rule values_ok_release)
    then have "values_ok (set_wrapper v (y\<lparr>pimpl := None, own_pimpl := None\<rparr>)
      (set_wrapper w (x\<lparr>pimpl := None, own_pimpl := None,
          pimpl := map_option (\<lambda>a. (a, [])) (own_pimpl y), own_pimpl := own_pimpl y\<rparr>) ?t))"
      by (rule values_ok_transfer) (simp_all add: t y vw)
    then show ?thesis
      by (simp add: value_move_assign_def bindM_def the_wrapper_Some x y ne set_wrapper_def)
  qed
qed

lemmas ok_rules = ok_the_node ok_the_wrapper ok_set_node ok_report ok_alloc_wrapper ok_delete ok_do_init
  ok_init_wrapper ok_wrapper_swap ok_new_value_move ok_value_move_assign

text \<open>Queries and shared parts.\<close>

lemma ok_json_assert: "keeps_values (json_assert c)"
  unfolding json_assert_def by (intro ok.keeps_rules)

lemma ok_value_assert: "keeps_values (value_assert E c m cond)"
  unfolding value_assert_def cci_value_failure_def by (intro ok.keeps_rules ok_rules)

lemma ok_query: "keeps_values (query J f v)"
  unfolding query_def by (intro ok.keeps_rules ok_rules)

lemma ok_is_null: "keeps_values (is_null J v)"
  unfolding is_null_def by (intro ok.keeps_rules ok_rules)

lemma ok_checked_set: "keeps_values (checked_set J x v)"
  unfolding checked_set_def by (intro ok.keeps_rules ok_rules)

lemma ok_set_null: "keeps_values (set_null J v)"
  unfolding set_null_def by (intro ok.keeps_rules ok_rules)

lemma ok_take_node: "keeps_values (take_node J v)"
  unfolding take_node_def by (intro ok.keeps_rules ok_rules)

lemma ok_ref_assign: "keeps_values (ref_assign J v that)"
  unfolding ref_assign_def copy_from_def
  by (intro ok.keeps_rules ok_rules ok_is_null ok_set_null)

lemma ok_swap_nodes: "keeps_values (swap_nodes J v that)"
  unfolding swap_nodes_def by (intro ok.keeps_rules ok_rules)

lemma ok_move_to_new: "keeps_values (move_to_new J b v)"
  unfolding move_to_new_def by (intro ok.keeps_rules ok_rules ok_take_node)

lemma ok_string_of_node: "keeps_values (string_of_node J v)"
  unfolding string_of_node_def by (intro ok.keeps_rules ok_rules ok_json_assert)

lemma ok_elements_of: "keeps_values (elements_of J v)"
  unfolding elements_of_def by (intro ok.keeps_rules ok_rules ok_json_assert)

lemma ok_members_of: "keeps_values (members_of J v)"
  unfolding members_of_def by (intro ok.keeps_rules ok_rules ok_json_assert)

lemma ok_fresh_copy: "keeps_values (fresh_copy J v)"
  unfolding fresh_copy_def by (intro ok.keeps_rules ok_rules)

lemma ok_fresh_move: "keeps_values (fresh_move J v)"
  unfolding fresh_move_def by (intro ok.keeps_rules ok_take_node)

lemma ok_take_contents: "keeps_values (take_contents J b v that)"
  unfolding take_contents_def by (intro ok.keeps_rules ok_rules ok_take_node)

lemma keeps_sum:
  "(\<And>x. keeps R (f x)) \<Longrightarrow> (\<And>y. keeps R (g y)) \<Longrightarrow> keeps R (case z of Inl x \<Rightarrow> f x | Inr y \<Rightarrow> g y)"
  by (cases z) simp_all

lemma keeps_prod: "(\<And>x y. keeps R (f x y)) \<Longrightarrow> keeps R (case z of (x, y) \<Rightarrow> f x y)"
  by (cases z) simp

lemma keeps_mode:
  "keeps R m \<Longrightarrow> keeps R n \<Longrightarrow> keeps R k \<Longrightarrow>
   keeps R (case mode of KEY_OPTIONAL \<Rightarrow> m | KEY_CREATE \<Rightarrow> n | KEY_REQUIRED \<Rightarrow> k)"
  by (cases mode) simp_all

lemma ok_do_lookup: "keeps_values (do_lookup E J key mode v)"
  unfolding do_lookup_def Let_def cci_value_failure_def
  by (intro ok.keeps_rules ok_rules keeps_mode ok_members_of)

lemma ok_ref_extract: "keeps_values (ref_extract E J is v)"
proof -
  have "keeps_values (case z of (Inr d, rest) \<Rightarrow> thenM (set_node J v d) (retM (rest, False))
      | (Inl what, rest) \<Rightarrow> thenM (CCI_REPORT_WARNING E ''CCI_VALUE_FAILURE'' (''JSON parse error: '' @ what))
          (retM (rest, True)))" for z :: "(string + 'a) \<times> string"
    by (cases z rule: prod.exhaust; cases "fst z")
      (auto simp: CCI_REPORT_WARNING_def intro!: ok.keeps_bindM ok.keeps_retM ok_set_node ok_report
        simp del: retM_apply)
  then show ?thesis
    unfolding ref_extract_def by (intro ok.keeps_bindM ok.keeps_assertM)
qed

lemmas ok_parts = ok_json_assert ok_value_assert ok_query ok_is_null ok_checked_set ok_set_null ok_take_node
  ok_ref_assign ok_swap_nodes ok_move_to_new ok_string_of_node ok_elements_of ok_members_of ok_fresh_copy
  ok_fresh_move ok_take_contents ok_do_lookup ok_ref_extract

text \<open>The calls, class by class.\<close>

lemma ok_ref_dispatch: "keeps_values (ref_dispatch E J v c)"
  by (cases c; simp only: ref_dispatch.simps ignoreM_def ref_swap_def ref_move_def set_string_def
      set_string_value_def string_move_def)
    (intro ok.keeps_rules ok_rules ok_parts)+

lemma ok_list_dispatch: "keeps_values (list_dispatch E J v c)"
  by (cases c; simp only: list_dispatch.simps ignoreM_def vlist_clear_def vlist_push_back_def
      vlist_push_back_move_def vlist_insert_count_def vlist_erase_def vlist_erase_range_def
      vlist_pop_back_def vlist_move_def Let_def)
    (intro ok.keeps_rules ok_rules ok_parts)+

lemma ok_map_dispatch: "keeps_values (map_dispatch E J v c)"
  by (cases c; simp only: map_dispatch.simps ignoreM_def vmap_index_def vmap_clear_def push_entry_def
      push_entry_move_def do_push_def do_push_move_def vmap_erase_key_def do_erase_def vmap_erase_def
      vmap_erase_range_def vmap_move_def)
    (intro ok.keeps_rules ok_rules ok_parts keeps_prod)+

lemma ok_value_assign: "keeps_values (value_assign J w that)"
  unfolding value_assign_def by (intro ok.keeps_rules ok_rules ok_parts)

lemma ok_list_assign: "keeps_values (list_assign J w that)"
  unfolding list_assign_def is_list_def vlist_assign_def by (intro ok.keeps_rules ok_rules ok_parts)

lemma ok_map_assign: "keeps_values (map_obj_assign J w that)"
  unfolding map_obj_assign_def is_map_def vmap_assign_def by (intro ok.keeps_rules ok_rules ok_parts)

lemma ok_new_dispatch: "keeps_values (new_dispatch E J c)"
  by (cases c; simp only: new_dispatch.simps ignoreM_def new_value_def new_value_copy_def new_list_def
      new_list_copy_def new_map_def new_map_copy_def new_from_list_def new_from_map_def from_json_def
      cci_value_failure_def)
    (intro ok.keeps_rules ok_rules ok_parts keeps_sum ok_value_assign ok_list_assign ok_map_assign)+

lemma ok_obj_dispatch: "keeps_values (obj_dispatch E J w c)"
  by (cases c; simp only: obj_dispatch.simps ignoreM_def value_move_assign_list_def
      value_move_assign_map_def list_move_assign_def map_move_assign_def value_swap_def ref_swap_def
      value_set_def value_extract_def)
    (intro ok.keeps_rules ok_rules ok_parts ok_value_assign ok_list_assign ok_map_assign)+

lemma ok_value_dispatch: "keeps_values (value_dispatch E J c)"
  by (cases c) (simp_all only: value_dispatch.simps ok_ref_dispatch ok_list_dispatch ok_map_dispatch
      ok_new_dispatch ok_obj_dispatch)

lemma values_ok_run: "values_ok s \<Longrightarrow> values_ok (snd (run_values E J cs s))"
proof (induction cs arbitrary: s)
  case Nil
  then show ?case by simp
next
  case (Cons c cs)
  obtain r t where c: "value_dispatch E J c s = (r, t)" by (cases "value_dispatch E J c s")
  have "values_ok t" using keepsD [OF ok_value_dispatch c] Cons.prems by blast
  then show ?case using c Cons.IH by (simp split: outcome.split)
qed

end
