(* ===== verification/Value_Converter.thy ===== *)
theory Value_Converter
  imports Value_Ownership
begin

text \<open>
  Conversion between C++ types and values (src/src/cci/core/cci_value_converter.h and .cpp), and
  the templates of cci_value.h that use it. A converter of a type packs a value of the type into a
  reference and unpacks a reference into a variable of the type; both say whether they succeeded.
  The locale \<open>lawful_converter\<close> is the contract of a converter that loses nothing; arrays and
  vectors of such a type have one again.
\<close>

section \<open>The interface\<close>

text \<open>
  \<open>conv_unpack C dst src\<close> gives the result and what the variable \<open>dst\<close> holds afterwards.
\<close>

record ('t, 'r) converter =
  conv_pack :: "cci_value_ref \<Rightarrow> 't \<Rightarrow> ('r, bool) vcomp"
  conv_unpack :: "'t \<Rightarrow> cci_value_cref \<Rightarrow> ('r, bool \<times> 't) vcomp"

definition cref_try_get :: "('t, 'r) converter \<Rightarrow> 't \<Rightarrow> cci_value_cref \<Rightarrow> ('r, bool \<times> 't) vcomp" where
  "cref_try_get C dst v = conv_unpack C dst v"

text \<open>
  \<open>get\<close> unpacks into a variable that it has just declared; \<open>result\<close> is what that holds first.
\<close>

definition cref_get :: "'x sc_env_scheme \<Rightarrow> ('t, 'r) converter \<Rightarrow> 't \<Rightarrow> cci_value_cref \<Rightarrow> ('r, 't) vcomp" where
  "cref_get E C result v =
     bindM (cref_try_get C result v) (\<lambda>(ok, x).
       thenM (if ok then skipM else cci_value_failure E ''conversion from cci_value failed'') (retM x))"

definition ref_try_set :: "('t, 'r) converter \<Rightarrow> 't \<Rightarrow> cci_value_ref \<Rightarrow> ('r, bool) vcomp" where
  "ref_try_set C x v = conv_pack C v x"

definition ref_set :: "'x sc_env_scheme \<Rightarrow> ('t, 'r) converter \<Rightarrow> 't \<Rightarrow> cci_value_ref \<Rightarrow> ('r, cci_value_ref) vcomp" where
  "ref_set E C x v =
     bindM (ref_try_set C x v) (\<lambda>ok.
       thenM (if ok then skipM else cci_value_failure E ''conversion to cci_value failed'') (retM v))"

definition value_try_set :: "('r, 'd) rapidjson \<Rightarrow> ('t, 'r) converter \<Rightarrow> 't \<Rightarrow> wid \<Rightarrow> ('r, bool) vcomp" where
  "value_try_set J C x w = bindM (init_wrapper J w) (ref_try_set C x)"

definition value_conv_set :: "'x sc_env_scheme \<Rightarrow> ('r, 'd) rapidjson \<Rightarrow> ('t, 'r) converter \<Rightarrow> 't \<Rightarrow> wid
    \<Rightarrow> ('r, cci_value_ref) vcomp" where
  "value_conv_set E J C x w = bindM (init_wrapper J w) (ref_set E C x)"

text \<open>
  The constructor of \<open>cci_value\<close> from a value of a C++ type. If \<open>set\<close> throws, the object is gone
  and its destructor does not run.
\<close>

definition forget_wrapper :: "wid \<Rightarrow> 'r value_state \<Rightarrow> 'r value_state" where
  "forget_wrapper w s = s\<lparr>wrappers := (wrappers s)(w := None)\<rparr>"

definition new_value_from :: "'x sc_env_scheme \<Rightarrow> ('r, 'd) rapidjson \<Rightarrow> ('t, 'r) converter \<Rightarrow> 't
    \<Rightarrow> ('r, wid) vcomp" where
  "new_value_from E J C x =
     bindM (alloc_wrapper Kind_value) (\<lambda>w.
       on_exception (thenM (do_init J w) (thenM (value_conv_set E J C x w) (retM w)))
         (modM (forget_wrapper w)))"

text \<open>
  A temporary \<open>cci_value\<close>, whose contents are moved out, and its destructor.
\<close>

definition with_value :: "wid \<Rightarrow> (cci_value_ref \<Rightarrow> ('r, 'a) vcomp) \<Rightarrow> ('r, 'a) vcomp" where
  "with_value w f = bindM (the_wrapper w) (\<lambda>x. guardM (\<lambda>s. s) (f (pimpl x)) (delete_wrapper w))"

definition push_back_conv :: "'x sc_env_scheme \<Rightarrow> ('r, 'd) rapidjson \<Rightarrow> ('t, 'r) converter \<Rightarrow> 't
    \<Rightarrow> cci_value_ref \<Rightarrow> ('r, cci_value_ref) vcomp" where
  "push_back_conv E J C x v =
     bindM (new_value_from E J C x) (\<lambda>w. with_value w (\<lambda>t. vlist_push_back_move J t v))"

text \<open>
  \<open>do_push\<close> of a converted value goes through \<open>push_entry( const char* )\<close> and leaves the length
  of the key behind.
\<close>

definition do_push_conv :: "'x sc_env_scheme \<Rightarrow> ('r, 'd) rapidjson \<Rightarrow> ('t, 'r) converter \<Rightarrow> string \<Rightarrow> 't
    \<Rightarrow> cci_value_ref \<Rightarrow> ('r, cci_value_ref) vcomp" where
  "do_push_conv E J C key x v =
     bindM (new_value_from E J C x) (\<lambda>w. with_value w (\<lambda>t. push_entry_move J (Key_chars key) t v))"

definition push_entry_conv :: "'x sc_env_scheme \<Rightarrow> ('r, 'd) rapidjson \<Rightarrow> ('t, 'r) converter \<Rightarrow> key_arg \<Rightarrow> 't
    \<Rightarrow> cci_value_ref \<Rightarrow> ('r, cci_value_ref) vcomp" where
  "push_entry_conv E J C key x v = do_push_conv E J C (key_string key) x v"

text \<open>\<open>cci_value_converter_disabled\<close>: a type whose conversions always fail.\<close>

definition disabled_converter :: "('t, 'r) converter" where
  "disabled_converter =
     \<lparr>conv_pack = (\<lambda>dst src. retM False), conv_unpack = (\<lambda>dst src. retM (False, dst))\<rparr>"

section \<open>Builtin types\<close>

text \<open>The macro \<open>DEFINE_BUILTIN_\<close>.\<close>

definition builtin_converter :: "(cci_value_cref \<Rightarrow> ('r, bool) vcomp) \<Rightarrow> (cci_value_cref \<Rightarrow> ('r, 't) vcomp)
    \<Rightarrow> ('t \<Rightarrow> cci_value_ref \<Rightarrow> ('r, cci_value_ref) vcomp) \<Rightarrow> ('t, 'r) converter" where
  "builtin_converter is get setter =
     \<lparr>conv_pack = (\<lambda>dst src. thenM (setter src dst) (retM True)),
      conv_unpack = (\<lambda>dst src. bindM (is src) (\<lambda>b.
        if \<not> b then retM (False, dst) else bindM (get src) (\<lambda>x. retM (True, x))))\<rparr>"

definition bool_converter :: "'x sc_env_scheme \<Rightarrow> ('r, 'd) rapidjson \<Rightarrow> (bool, 'r) converter" where
  "bool_converter E J = builtin_converter (is_bool J) (get_bool E J) (set_bool J)"

definition int_converter :: "'x sc_env_scheme \<Rightarrow> ('r, 'd) rapidjson \<Rightarrow> (32 word, 'r) converter" where
  "int_converter E J = builtin_converter (is_int J) (get_int E J) (set_int J)"

definition int64_converter :: "'x sc_env_scheme \<Rightarrow> ('r, 'd) rapidjson \<Rightarrow> (64 word, 'r) converter" where
  "int64_converter E J = builtin_converter (is_int64 J) (get_int64 E J) (set_int64 J)"

definition uint_converter :: "'x sc_env_scheme \<Rightarrow> ('r, 'd) rapidjson \<Rightarrow> (32 word, 'r) converter" where
  "uint_converter E J = builtin_converter (is_uint J) (get_uint E J) (set_uint J)"

definition uint64_converter :: "'x sc_env_scheme \<Rightarrow> ('r, 'd) rapidjson \<Rightarrow> (64 word, 'r) converter" where
  "uint64_converter E J = builtin_converter (is_uint64 J) (get_uint64 E J) (set_uint64 J)"

definition double_converter :: "'x sc_env_scheme \<Rightarrow> ('r, 'd) rapidjson \<Rightarrow> ('d, 'r) converter" where
  "double_converter E J = builtin_converter (is_number J) (get_number E J) (set_number J)"

definition string_converter :: "'x sc_env_scheme \<Rightarrow> ('r, 'd) rapidjson \<Rightarrow> (string, 'r) converter" where
  "string_converter E J =
     builtin_converter (is_string J) (\<lambda>v. bindM (get_string E J v) (string_value J)) (set_string J)"

text \<open>
  \<open>cci_value_delegate_converter\<close>: a type \<open>T\<close> is cast to a type \<open>U\<close> and back, without a check of
  the range. \<open>u_dst\<close> is the variable of type \<open>U\<close> before it is written.
\<close>

definition delegate_converter :: "('t \<Rightarrow> 'u) \<Rightarrow> ('u \<Rightarrow> 't) \<Rightarrow> 'u \<Rightarrow> ('u, 'r) converter \<Rightarrow> ('t, 'r) converter" where
  "delegate_converter to_u of_u u_dst C =
     \<lparr>conv_pack = (\<lambda>dst src. conv_pack C dst (to_u src)),
      conv_unpack = (\<lambda>dst src. bindM (conv_unpack C u_dst src) (\<lambda>(ret, u).
        retM (ret, if ret then of_u u else dst)))\<rparr>"

text \<open>\<open>char\<close> is taken as signed; \<open>signed char\<close> and \<open>char\<close> then convert alike.\<close>

definition schar_converter :: "'x sc_env_scheme \<Rightarrow> ('r, 'd) rapidjson \<Rightarrow> (8 word, 'r) converter" where
  "schar_converter E J = delegate_converter scast ucast 0 (int_converter E J)"

definition short_converter :: "'x sc_env_scheme \<Rightarrow> ('r, 'd) rapidjson \<Rightarrow> (16 word, 'r) converter" where
  "short_converter E J = delegate_converter scast ucast 0 (int_converter E J)"

definition uchar_converter :: "'x sc_env_scheme \<Rightarrow> ('r, 'd) rapidjson \<Rightarrow> (8 word, 'r) converter" where
  "uchar_converter E J = delegate_converter ucast ucast 0 (uint_converter E J)"

definition ushort_converter :: "'x sc_env_scheme \<Rightarrow> ('r, 'd) rapidjson \<Rightarrow> (16 word, 'r) converter" where
  "ushort_converter E J = delegate_converter ucast ucast 0 (uint_converter E J)"

definition long_converter :: "'x sc_env_scheme \<Rightarrow> ('r, 'd) rapidjson \<Rightarrow> (64 word, 'r) converter" where
  "long_converter E J = delegate_converter (\<lambda>x. x) (\<lambda>x. x) 0 (int64_converter E J)"

definition ulong_converter :: "'x sc_env_scheme \<Rightarrow> ('r, 'd) rapidjson \<Rightarrow> (64 word, 'r) converter" where
  "ulong_converter E J = delegate_converter (\<lambda>x. x) (\<lambda>x. x) 0 (uint64_converter E J)"

section \<open>Arrays and vectors\<close>

text \<open>
  \<open>char[N]\<close>: the variable holds \<open>N\<close> characters, \<open>0 < N\<close>. \<open>strncpy\<close> copies up to the first NUL and
  fills the rest with NUL.
\<close>

definition strncpy :: "string \<Rightarrow> nat \<Rightarrow> string" where
  "strncpy src n = take n (c_str src) @ replicate (n - length (c_str src)) (CHR 0x00)"

definition chars_converter :: "'x sc_env_scheme \<Rightarrow> ('r, 'd) rapidjson \<Rightarrow> nat \<Rightarrow> (string, 'r) converter" where
  "chars_converter E J N =
     \<lparr>conv_pack = (\<lambda>dst src. thenM (set_string_chars J (Some src) dst) (retM True)),
      conv_unpack = (\<lambda>dst src.
        bindM (is_null J src) (\<lambda>null.
          if null then retM (True, CHR 0x00 # tl dst)
          else bindM (is_string J src) (\<lambda>b.
            if \<not> b then retM (False, dst)
            else bindM (get_string E J src) (\<lambda>str.
              bindM (string_of_node J str) (\<lambda>cs.
                retM (length cs \<le> N - 1, strncpy cs (N - 1) @ [CHR 0x00]))))))\<rparr>"

text \<open>
  Packing a sequence: a list is filled and exchanged with the list that the destination becomes.
\<close>

fun push_all :: "'x sc_env_scheme \<Rightarrow> ('r, 'd) rapidjson \<Rightarrow> ('t, 'r) converter \<Rightarrow> 't list \<Rightarrow> cci_value_ref
    \<Rightarrow> ('r, unit) vcomp" where
  "push_all E J C [] ret = skipM"
| "push_all E J C (x # xs) ret = thenM (push_back_conv E J C x ret) (push_all E J C xs ret)"

definition pack_sequence :: "'x sc_env_scheme \<Rightarrow> ('r, 'd) rapidjson \<Rightarrow> ('t, 'r) converter \<Rightarrow> cci_value_ref
    \<Rightarrow> 't list \<Rightarrow> ('r, bool) vcomp" where
  "pack_sequence E J C dst src =
     bindM (new_list J) (\<lambda>w.
       with_value w (\<lambda>ret.
         thenM (vlist_reserve J ret (length src))
           (thenM (push_all E J C src ret)
             (bindM (set_list J dst) (\<lambda>l. thenM (list_swap E J w l) (retM True))))))"

text \<open>
  The loops that unpack: into the elements of an array, one by one, and through a variable \<open>cur\<close>
  into a new vector. Both give the index at which they stop. The second one is given the size of the
  list, which the unpacking of an element, through a constant reference, does not change.
\<close>

function unpack_array :: "('r, 'd) rapidjson \<Rightarrow> ('t, 'r) converter \<Rightarrow> cci_value_cref \<Rightarrow> nat \<Rightarrow> 't list
    \<Rightarrow> ('r, nat \<times> 't list) vcomp" where
  "unpack_array J C lst i dst =
     (if i < length dst then
        bindM (vlist_size J lst) (\<lambda>n.
          if i < n then
            bindM (vlist_index J lst i) (\<lambda>v.
              bindM (cref_try_get C (dst ! i) v) (\<lambda>(ok, x).
                if ok then unpack_array J C lst (Suc i) (dst[i := x]) else retM (i, dst[i := x])))
          else retM (i, dst))
      else retM (i, dst))"
  by pat_completeness auto

termination
  by (relation "measure (\<lambda>(J, C, lst, i, dst). length dst - i)") auto

definition array_converter :: "'x sc_env_scheme \<Rightarrow> ('r, 'd) rapidjson \<Rightarrow> ('t, 'r) converter
    \<Rightarrow> ('t list, 'r) converter" where
  "array_converter E J C =
     \<lparr>conv_pack = pack_sequence E J C,
      conv_unpack = (\<lambda>dst src.
        bindM (is_list J src) (\<lambda>b.
          if \<not> b then retM (False, dst)
          else bindM (get_list E J src) (\<lambda>lst.
            bindM (unpack_array J C lst 0 dst) (\<lambda>(i, dst).
              bindM (vlist_size J lst) (\<lambda>n. retM (i = n, dst))))))\<rparr>"

fun unpack_vector :: "('r, 'd) rapidjson \<Rightarrow> ('t, 'r) converter \<Rightarrow> cci_value_cref \<Rightarrow> nat \<Rightarrow> nat \<Rightarrow> 't
    \<Rightarrow> 't list \<Rightarrow> ('r, nat \<times> 't list) vcomp" where
  "unpack_vector J C lst i 0 cur ret = retM (i, ret)"
| "unpack_vector J C lst i (Suc n) cur ret =
     bindM (vlist_index J lst i) (\<lambda>v.
       bindM (cref_try_get C cur v) (\<lambda>(ok, cur).
         if ok then unpack_vector J C lst (Suc i) n cur (ret @ [cur]) else retM (i, ret)))"

definition vector_converter :: "'x sc_env_scheme \<Rightarrow> ('r, 'd) rapidjson \<Rightarrow> 't \<Rightarrow> ('t, 'r) converter
    \<Rightarrow> ('t list, 'r) converter" where
  "vector_converter E J cur C =
     \<lparr>conv_pack = pack_sequence E J C,
      conv_unpack = (\<lambda>dst src.
        bindM (is_list J src) (\<lambda>b.
          if \<not> b then retM (False, dst)
          else bindM (get_list E J src) (\<lambda>lst.
            bindM (vlist_size J lst) (\<lambda>n.
              bindM (unpack_vector J C lst 0 n cur []) (\<lambda>(i, ret).
                retM (if i = n then (True, ret) else (False, dst)))))))\<rparr>"

end
