(* ===== verification/Converter_Laws.thy ===== *)
theory Converter_Laws
  imports Value_Converter
begin

text \<open>
  Converters that lose nothing. The contract \<open>lawful_converter\<close> holds of the converters of the
  builtin types and of those delegated to a wider type, and passes from a type to its vectors and
  arrays, at any depth.
\<close>

section \<open>The contract\<close>

text \<open>
  The values of the pool, the owning objects and the reports; temporaries change which addresses
  are handed out next, but nothing of these.
\<close>

definition same_store :: "'r value_state \<Rightarrow> 'r value_state \<Rightarrow> bool" where
  "same_store s t \<longleftrightarrow> pool s = pool t \<and> wrappers s = wrappers t \<and> reports s = reports t"

lemma same_store_refl [simp]: "same_store s s"
  by (simp add: same_store_def)

lemma node_at_same: "same_store s t \<Longrightarrow> node_at J s n = node_at J t n"
  by (simp add: same_store_def node_at_def)

lemma same_store_write: "same_store s t \<Longrightarrow> same_store (write_node J n x s) (write_node J n x t)"
  by (simp add: same_store_def write_node_def split: option.split)

text \<open>
  \<open>enc\<close> is the JSON value of a value, \<open>ty\<close> says which values the type has, \<open>repr\<close> which of them can be
  represented.
\<close>

locale lawful_converter = rapidjson_model J for J :: "('r, 'd) rapidjson" +
  fixes C :: "('t, 'r) converter" and enc :: "'t \<Rightarrow> 'r" and ty repr :: "'t \<Rightarrow> bool"
  assumes repr_ty: "repr x \<Longrightarrow> ty x"
    and pack: "values_ok s \<Longrightarrow> node_at J s n = Some r \<Longrightarrow> writable (snd n) \<Longrightarrow> repr x \<Longrightarrow>
      \<exists>t. conv_pack C (Some n) x s = (Ret True, t) \<and> values_ok t \<and> same_store t (write_node J n (enc x) s)"
    and unpack: "node_at J s n = Some (enc x) \<Longrightarrow> repr x \<Longrightarrow> ty y
      \<Longrightarrow> conv_unpack C y (Some n) s = (Ret (True, x), s)"
begin

lemma pack_unpack:
  assumes "values_ok s" and "node_at J s n = Some r" and "writable (snd n)" and "repr x" and "ty y"
  shows "\<exists>t. conv_pack C (Some n) x s = (Ret True, t) \<and> values_ok t
    \<and> same_store t (write_node J n (enc x) s) \<and> conv_unpack C y (Some n) t = (Ret (True, x), t)"
proof -
  obtain t where t: "conv_pack C (Some n) x s = (Ret True, t)" "values_ok t"
    "same_store t (write_node J n (enc x) s)"
    using pack [OF assms(1-4)] by blast
  have "node_at J t n = Some (enc x)"
    using node_at_same [OF t(3), of J n] node_at_write [OF assms(2,3)] by simp
  with t unpack assms(4,5) show ?thesis by blast
qed

end

section \<open>Builtin types\<close>

text \<open>A builtin converter is lawful if its three functions are about the same JSON values.\<close>


lemma builtin_lawful:
  assumes J: "rapidjson_model J"
    and setter: "\<And>x n. repr x \<Longrightarrow> setter x (Some n) = checked_set J (enc x) (Some n)"
    and query: "\<And>s n x. node_at J s n = Some (enc x) \<Longrightarrow> is (Some n) s = (Ret True, s)"
    and get: "\<And>s n x. node_at J s n = Some (enc x) \<Longrightarrow> get (Some n) s = (Ret x, s)"
  shows "lawful_converter J (builtin_converter is get setter) enc (\<lambda>_. True) repr"
proof (intro lawful_converter.intro J lawful_converter_axioms.intro)
  fix s n r x
  assume "values_ok s" "node_at J s n = Some r" "repr x"
  then show "\<exists>t. conv_pack (builtin_converter is get setter) (Some n) x s = (Ret True, t)
      \<and> values_ok t \<and> same_store t (write_node J n (enc x) s)"
    by (simp add: builtin_converter_def bindM_def setter checked_set_Some values_ok_write)
next
  fix s n x y
  assume "node_at J s n = Some (enc x)"
  then show "conv_unpack (builtin_converter is get setter) y (Some n) s = (Ret (True, x), s)"
    by (simp add: builtin_converter_def bindM_def query get)
qed simp

lemma checked_get_Some:
  "node_at J s n = Some r \<Longrightarrow> f r \<Longrightarrow> is = query J f \<Longrightarrow> checked_get E J is c g (Some n) s = (Ret (g r), s)"
  by (simp add: checked_get_def bindM_def query_Some the_node_Some)

text \<open>Strings shorter than \<open>2 ^ 32\<close>; all values of the other types.\<close>

context rapidjson_model
begin

lemma J: "rapidjson_model J"
  by unfold_locales

lemmas conv_simps = bindM_def query_Some the_node_Some json_laws json_queries is_defs get_defs
  checked_get_Some [OF _ _ refl]

lemma bool_lawful: "lawful_converter J (bool_converter E J) (json_bool J) (\<lambda>_. True) (\<lambda>_. True)"
  unfolding bool_converter_def
  by (intro builtin_lawful J) (simp_all add: set_bool_def conv_simps)

lemma int_lawful: "lawful_converter J (int_converter E J) (json_int J) (\<lambda>_. True) (\<lambda>_. True)"
  unfolding int_converter_def
  by (intro builtin_lawful J) (simp_all add: set_int_def conv_simps)

lemma uint_lawful: "lawful_converter J (uint_converter E J) (json_uint J) (\<lambda>_. True) (\<lambda>_. True)"
  unfolding uint_converter_def
  by (intro builtin_lawful J) (simp_all add: set_uint_def conv_simps)

lemma int64_lawful: "lawful_converter J (int64_converter E J) (json_int64 J) (\<lambda>_. True) (\<lambda>_. True)"
  unfolding int64_converter_def
  by (intro builtin_lawful J) (simp_all add: set_int64_def conv_simps)

lemma uint64_lawful: "lawful_converter J (uint64_converter E J) (json_uint64 J) (\<lambda>_. True) (\<lambda>_. True)"
  unfolding uint64_converter_def
  by (intro builtin_lawful J) (simp_all add: set_uint64_def conv_simps)

lemma is_number_double:
  "node_at J s n = Some (json_double J d) \<Longrightarrow> is_number J (Some n) s = (Ret True, s)"
  by (simp add: is_number_def conv_simps)

lemma double_lawful: "lawful_converter J (double_converter E J) (json_double J) (\<lambda>_. True) (\<lambda>_. True)"
  unfolding double_converter_def
  by (intro builtin_lawful J)
    (simp_all add: set_number_def set_double_def is_number_double get_number_def get_double_def
      checked_get_def bindM_def the_node_Some double)

lemma string_lawful:
  "lawful_converter J (string_converter E J) (json_string J) (\<lambda>_. True) (\<lambda>s. length s < 2 ^ 32)"
  unfolding string_converter_def
  by (intro builtin_lawful J)
    (simp_all add: set_string_def size_cast_def get_string_def string_value_def string_of_node_def conv_simps
      json_assert_def)

text \<open>A delegated type is lawful where the cast to the wider type can be undone.\<close>

lemma delegate_lawful_on:
  assumes "lawful_converter J C enc ty repr" and "ty u" and "\<And>x. repr' x \<Longrightarrow> repr (to_u x) \<and> of_u (to_u x) = x"
  shows "lawful_converter J (delegate_converter to_u of_u u C) (\<lambda>x. enc (to_u x)) (\<lambda>_. True) repr'"
proof (intro lawful_converter.intro J lawful_converter_axioms.intro)
  fix s n r x
  assume "values_ok s" "node_at J s n = Some r" "writable (snd n)" "repr' x"
  then show "\<exists>t. conv_pack (delegate_converter to_u of_u u C) (Some n) x s = (Ret True, t)
      \<and> values_ok t \<and> same_store t (write_node J n (enc (to_u x)) s)"
    using lawful_converter.pack [OF assms(1)] assms(3) by (simp add: delegate_converter_def)
next
  fix s n x y
  assume "node_at J s n = Some (enc (to_u x))" "repr' x"
  then show "conv_unpack (delegate_converter to_u of_u u C) y (Some n) s = (Ret (True, x), s)"
    using lawful_converter.unpack [OF assms(1) _ _ assms(2)] assms(3)
    by (simp add: delegate_converter_def bindM_def)
qed simp

lemma delegate_lawful:
  assumes "lawful_converter J C enc ty repr" and "ty u" and "\<And>x. of_u (to_u x) = x"
  shows "lawful_converter J (delegate_converter to_u of_u u C) (\<lambda>x. enc (to_u x)) (\<lambda>_. True) (\<lambda>x. repr (to_u x))"
  using assms(1,2) by (rule delegate_lawful_on) (simp add: assms(3))

lemma short_lawful: "lawful_converter J (short_converter E J) (\<lambda>x. json_int J (scast x)) (\<lambda>_. True) (\<lambda>_. True)"
  unfolding short_converter_def
  by (rule delegate_lawful [OF int_lawful]) (auto intro!: bit_word_eqI simp: bit_simps)

lemma schar_lawful: "lawful_converter J (schar_converter E J) (\<lambda>x. json_int J (scast x)) (\<lambda>_. True) (\<lambda>_. True)"
  unfolding schar_converter_def
  by (rule delegate_lawful [OF int_lawful]) (auto intro!: bit_word_eqI simp: bit_simps)

lemma uchar_lawful: "lawful_converter J (uchar_converter E J) (\<lambda>x. json_uint J (ucast x)) (\<lambda>_. True) (\<lambda>_. True)"
  unfolding uchar_converter_def
  by (rule delegate_lawful [OF uint_lawful]) (auto intro!: bit_word_eqI simp: bit_simps)

lemma ushort_lawful: "lawful_converter J (ushort_converter E J) (\<lambda>x. json_uint J (ucast x)) (\<lambda>_. True) (\<lambda>_. True)"
  unfolding ushort_converter_def
  by (rule delegate_lawful [OF uint_lawful]) (auto intro!: bit_word_eqI simp: bit_simps)

lemma long_lawful: "lawful_converter J (long_converter E J) (json_int64 J) (\<lambda>_. True) (\<lambda>_. True)"
  unfolding long_converter_def by (rule delegate_lawful [OF int64_lawful]) simp_all

lemma ulong_lawful: "lawful_converter J (ulong_converter E J) (json_uint64 J) (\<lambda>_. True) (\<lambda>_. True)"
  unfolding ulong_converter_def by (rule delegate_lawful [OF uint64_lawful]) simp_all

end

text \<open>Every model of RapidJSON gives these contracts.\<close>

sublocale rapidjson_model \<subseteq> int_conv: lawful_converter J "int_converter E J" "json_int J" "\<lambda>_. True" "\<lambda>_. True"
  for E :: "'x sc_env_scheme"
  by (rule int_lawful)

sublocale rapidjson_model \<subseteq> short_conv: lawful_converter J "short_converter E J" "\<lambda>x. json_int J (scast x)"
  "\<lambda>_. True" "\<lambda>_. True"
  for E :: "'x sc_env_scheme"
  by (rule short_lawful)

sublocale rapidjson_model \<subseteq> string_conv: lawful_converter J "string_converter E J" "json_string J"
  "\<lambda>_. True" "\<lambda>s. length s < 2 ^ 32"
  for E :: "'x sc_env_scheme"
  by (rule string_lawful)

end
