(* ===== verification/Converter_Sequences.thy ===== *)
theory Converter_Sequences
  imports Converter_Laws
begin

text \<open>
  Arrays and vectors of a type with a lawful converter are lawful: the temporary values and lists
  that the packing builds are gone afterwards, and the loops that unpack reach the end.
\<close>

section \<open>Temporary objects\<close>

text \<open>
  \<open>temporary k a x w s t\<close>: \<open>t\<close> is \<open>s\<close> with a new object \<open>w\<close> of class \<open>k\<close> that owns the new address \<open>a\<close>,
  where \<open>x\<close> is stored.
\<close>

definition temporary :: "wrapper_kind \<Rightarrow> impl_addr \<Rightarrow> 'r \<Rightarrow> wid \<Rightarrow> 'r value_state \<Rightarrow> 'r value_state \<Rightarrow> bool" where
  "temporary k a x w s t \<longleftrightarrow> values_ok t \<and> wrappers s w = None \<and> pool s a = None
     \<and> pool t = (pool s)(a \<mapsto> x) \<and> reports t = reports s
     \<and> wrappers t = (wrappers s)(w \<mapsto> \<lparr>w_kind = k, pimpl = Some (a, []), own_pimpl = Some a\<rparr>)"

lemma temporary_root:
  assumes "temporary k a x w s t"
  shows "node_at J t (a, []) = Some x" and "the_wrapper w t = (Ret \<lparr>w_kind = k, pimpl = Some (a, []), own_pimpl = Some a\<rparr>, t)"
    and "values_ok t" and "pool s a = None" and "wrappers s w = None" and "init_wrapper J w t = (Ret (Some (a, [])), t)"
  using assms by (simp_all add: temporary_def node_at_def the_wrapper_def init_wrapper_def bindM_def)

text \<open>What lived before is where it was.\<close>

lemma temporary_other:
  "temporary k a x w s t \<Longrightarrow> node_at J s n = Some r \<Longrightarrow> node_at J t n = Some r \<and> fst n \<noteq> a"
  by (auto simp: temporary_def node_at_def)

text \<open>Writing to the temporary, and writing elsewhere.\<close>

lemma temporary_write:
  "temporary k a x w s t \<Longrightarrow> same_store u (write_node J (a, []) y t) \<Longrightarrow> values_ok u \<Longrightarrow> temporary k a y w s u"
  by (auto simp: temporary_def same_store_def write_node_def)

lemma temporary_write_other:
  "temporary k a x w s t \<Longrightarrow> node_at J s n = Some r
   \<Longrightarrow> temporary k a x w (write_node J n y s) (write_node J n y t)"
  by (auto simp: temporary_def write_node_def node_at_def values_ok_write fun_upd_twist
      intro: values_ok_cong split: option.splits)
    (rule values_ok_cong, auto)

text \<open>The destructor takes the temporary away.\<close>

lemma temporary_delete:
  assumes "temporary k a x w s t"
  shows "same_store (delete_wrapper w t) s" and "values_ok (delete_wrapper w t)"
proof -
  show "values_ok (delete_wrapper w t)"
    using assms by (intro values_ok_delete) (simp add: temporary_def)
  show "same_store (delete_wrapper w t) s"
    using assms by (auto simp: temporary_def same_store_def delete_wrapper_def impl_deallocate_def)
qed

lemma do_init_temporary:
  assumes ok: "values_ok s"
  shows "\<exists>a t. do_init J (next_wid s) (snd (alloc_wrapper k s)) = (Ret (Some (a, [])), t)
    \<and> temporary k a (case k of Kind_value \<Rightarrow> json_null J | Kind_list \<Rightarrow> json_array J []
                     | Kind_map \<Rightarrow> json_object J []) (next_wid s) s t"
proof -
  let ?s = "snd (alloc_wrapper k s)" and ?w = "next_wid s"
  let ?x = "\<lparr>w_kind = k, pimpl = None, own_pimpl = None\<rparr>"
  have ok': "values_ok ?s" using ok by (rule values_ok_alloc_wrapper)
  have w: "wrappers ?s ?w = Some ?x" by (simp add: alloc_wrapper_def)
  obtain a u where al: "impl_allocate J ?s = (Ret a, u)" and a: "pool ?s a = None"
    and u: "pool u = (pool ?s)(a \<mapsto> json_null J)" "wrappers u = wrappers ?s"
    using impl_allocate_cases [OF ok', of J] by metis
  have r: "reports u = reports ?s"
    using al by (auto simp: impl_allocate_def split: list.splits)
  define v where "v = set_wrapper ?w (?x\<lparr>pimpl := Some (a, []), own_pimpl := Some a\<rparr>) u"
  have okv: "values_ok v" unfolding v_def using ok' w _ al by (rule values_ok_acquire) simp
  moreover have "wrappers s ?w = None"
    using values_okD(4) [OF ok] by (metis less_irrefl option.exhaust)
  ultimately have v: "temporary k a (json_null J) ?w s v"
    using a u r by (simp add: v_def temporary_def set_wrapper_def alloc_wrapper_def)
  have "do_init J ?w ?s = bindM (case k of
          Kind_value \<Rightarrow> skipM
        | Kind_list \<Rightarrow> set_node J (Some (a, [])) (json_array J [])
        | Kind_map \<Rightarrow> set_node J (Some (a, [])) (json_object J [])) (\<lambda>_. retM (Some (a, []))) v"
    unfolding do_init_def v_def
    by (subst bindM_Ret, rule the_wrapper_Some, rule w) (simp add: bindM_Ret [where m = "impl_allocate J", OF al])
  moreover have "temporary k a y ?w s (write_node J (a, []) y v)" for y
    using v same_store_refl values_ok_write [OF okv] by (rule temporary_write)
  ultimately show ?thesis
    using v by (cases k) (simp_all add: bindM_def set_node_Some [OF temporary_root(1) [OF v]])
qed

text \<open>A value of a C++ type as a temporary \<open>cci_value\<close>, and its contents moved to the end of a list.\<close>

context lawful_converter
begin

lemma new_value_from_temporary:
  assumes ok: "values_ok s" and x: "repr x"
  shows "\<exists>a w t. new_value_from E J C x s = (Ret w, t) \<and> temporary Kind_value a (enc x) w s t"
proof -
  let ?w = "next_wid s" and ?s = "snd (alloc_wrapper Kind_value s)"
  obtain a t where i: "do_init J ?w ?s = (Ret (Some (a, [])), t)" and t: "temporary Kind_value a (json_null J) ?w s t"
    using do_init_temporary [OF ok, of J Kind_value] by auto
  obtain u where p: "conv_pack C (Some (a, [])) x t = (Ret True, u)" and u: "values_ok u"
    "same_store u (write_node J (a, []) (enc x) t)"
    using pack [OF temporary_root(3) [OF t] temporary_root(1) [OF t] _ x] by auto
  have "value_conv_set E J C x ?w t = (Ret (Some (a, [])), u)"
    by (simp add: value_conv_set_def ref_set_def ref_try_set_def bindM_def temporary_root(6) [OF t] p)
  then have "new_value_from E J C x s = (Ret ?w, u)"
    using i by (simp add: new_value_from_def on_exception_def bindM_def alloc_wrapper_def)
  moreover have "temporary Kind_value a (enc x) ?w s u"
    using t u(2,1) by (rule temporary_write)
  ultimately show ?thesis by blast
qed

lemma push_back_conv_eq:
  assumes ok: "values_ok s" and n: "node_at J s n = Some (json_array J xs)" "writable (snd n)" and x: "repr x"
  shows "\<exists>t. push_back_conv E J C x (Some n) s = (Ret (Some n), t) \<and> values_ok t
    \<and> same_store t (write_node J n (json_array J (xs @ [enc x])) s)"
proof -
  obtain a w t where t: "new_value_from E J C x s = (Ret w, t)" "temporary Kind_value a (enc x) w s t"
    using new_value_from_temporary [OF ok x] by blast
  let ?u = "write_node J (a, []) (json_null J) t"
  have u: "temporary Kind_value a (json_null J) w s ?u"
    using t(2) same_store_refl values_ok_write [OF temporary_root(3) [OF t(2)]] by (rule temporary_write)
  have n': "node_at J ?u n = Some (json_array J xs)"
    using temporary_other [OF u n(1)] by blast
  let ?v = "write_node J n (json_array J (xs @ [enc x])) ?u"
  have v: "temporary Kind_value a (json_null J) w (write_node J n (json_array J (xs @ [enc x])) s) ?v"
    using u n(1) by (rule temporary_write_other)
  have "vlist_push_back_move J (Some (a, [])) (Some n) t = (Ret (Some n), ?v)"
    by (simp add: vlist_push_back_move_def fresh_move_def bindM_def take_node_Some [OF temporary_root(1) [OF t(2)]]
        elements_of_Some [OF n'] elements set_node_Some [OF n'])
  then have "push_back_conv E J C x (Some n) s = (Ret (Some n), delete_wrapper w ?v)"
    by (simp add: push_back_conv_def with_value_def bindM_def t(1) temporary_root(2) [OF t(2)] guardM_def)
  with temporary_delete [OF v] show ?thesis by blast
qed

lemma push_all_eq:
  assumes "values_ok s" and "node_at J s n = Some (json_array J ys)" and "writable (snd n)" and "\<forall>x \<in> set xs. repr x"
  shows "\<exists>t. push_all E J C xs (Some n) s = (Ret (), t) \<and> values_ok t
    \<and> same_store t (write_node J n (json_array J (ys @ map enc xs)) s)"
  using assms
proof (induction xs arbitrary: s ys)
  case Nil
  then show ?case by (simp add: write_node_same)
next
  case (Cons x xs)
  obtain t where t: "push_back_conv E J C x (Some n) s = (Ret (Some n), t)" "values_ok t"
    "same_store t (write_node J n (json_array J (ys @ [enc x])) s)"
    using push_back_conv_eq [OF Cons.prems(1-3)] Cons.prems(4) by fastforce
  have "node_at J t n = Some (json_array J (ys @ [enc x]))"
    using node_at_same [OF t(3), of J n] node_at_write [OF Cons.prems(2,3)] by simp
  then obtain u where u: "push_all E J C xs (Some n) t = (Ret (), u)" "values_ok u"
    "same_store u (write_node J n (json_array J ((ys @ [enc x]) @ map enc xs)) t)"
    using Cons.IH [OF t(2) _ Cons.prems(3)] Cons.prems(4) by fastforce
  have "same_store u (write_node J n (json_array J (ys @ map enc (x # xs))) s)"
    using u(3) same_store_write [OF t(3), of J n] write_node_twice [OF Cons.prems(2,3)]
    by (simp add: same_store_def)
  with t u show ?case by (auto simp: bindM_def)
qed

text \<open>Packing a sequence.\<close>

lemma pack_sequence_eq:
  assumes ok: "values_ok s" and n: "node_at J s n = Some r" "writable (snd n)" and x: "\<forall>x \<in> set xs. repr x"
  shows "\<exists>t. pack_sequence E J C (Some n) xs s = (Ret True, t) \<and> values_ok t
    \<and> same_store t (write_node J n (json_array J (map enc xs)) s)"
proof -
  let ?w = "next_wid s" and ?s = "snd (alloc_wrapper Kind_list s)"
  obtain a t where i: "do_init J ?w ?s = (Ret (Some (a, [])), t)" and t: "temporary Kind_list a (json_array J []) ?w s t"
    using do_init_temporary [OF ok, of J Kind_list] by auto
  obtain u where u: "push_all E J C xs (Some (a, [])) t = (Ret (), u)" "values_ok u"
    "same_store u (write_node J (a, []) (json_array J (map enc xs)) t)"
    using push_all_eq [OF temporary_root(3) [OF t] temporary_root(1) [OF t] _ x] by auto
  have tu: "temporary Kind_list a (json_array J (map enc xs)) ?w s u"
    using t u(3,2) by (rule temporary_write)
  let ?e = "write_node J n (json_array J [])"
  have n': "node_at J u n = Some r" "fst n \<noteq> a" using temporary_other [OF tu n(1)] by blast+
  then have ne': "(a, []) \<noteq> n" by auto
  have te: "temporary Kind_list a (json_array J (map enc xs)) ?w (?e s) (?e u)"
    using tu n(1) by (rule temporary_write_other)
  have ne: "node_at J (?e u) n = Some (json_array J [])" using n'(1) n(2) by (rule node_at_write)
  let ?f = "write_node J (a, []) (json_array J [])"
  have tf: "temporary Kind_list a (json_array J []) ?w (?e s) (?f (?e u))"
    using te same_store_refl values_ok_write [OF temporary_root(3) [OF te]] by (rule temporary_write)
  have nes: "node_at J (?e s) n = Some (json_array J [])" using n by (rule node_at_write)
  have nf: "node_at J (?f (?e u)) n = Some (json_array J [])" using temporary_other [OF tf nes] by blast
  let ?g = "write_node J n (json_array J (map enc xs))"
  have tg: "temporary Kind_list a (json_array J []) ?w (?g (?e s)) (?g (?f (?e u)))"
    using tf nes by (rule temporary_write_other)
  have "list_swap E J ?w (Some n) (?e u) = (Ret (), ?g (?f (?e u)))"
    using n'(2) ne' by (simp add: list_swap_def vlist_swap_def swap_nodes_def bindM_def temporary_root(2) [OF te]
        the_node_Some [OF temporary_root(1) [OF te]] the_node_Some [OF ne] overlap_def
        set_node_Some [OF temporary_root(1) [OF te]] set_node_Some [OF nf])
  then have "pack_sequence E J C (Some n) xs s = (Ret True, delete_wrapper ?w (?g (?f (?e u))))"
    using i u(1)
    by (simp add: pack_sequence_def new_list_def with_value_def bindM_def alloc_wrapper_def guardM_def
        temporary_root(2) [OF t] vlist_reserve_def elements_of_Some [OF temporary_root(1) [OF t]]
        set_list_def checked_set_Some [OF n'(1)])
  with temporary_delete [OF tg] write_node_twice [OF n] show ?thesis by auto
qed

text \<open>Unpacking the elements of a list.\<close>

lemma vlist_size_eq: "node_at J s n = Some (json_array J xs) \<Longrightarrow> vlist_size J (Some n) s = (Ret (length xs), s)"
  by (simp add: vlist_size_def bindM_def elements_of_Some elements)

lemma vlist_index_eq:
  "node_at J s n = Some (json_array J xs) \<Longrightarrow> i < length xs \<Longrightarrow> length xs < 2 ^ 32
   \<Longrightarrow> vlist_index J (Some n) i s = (Ret (Some (fst n, snd n @ [At i])), s)"
  by (simp add: vlist_index_def bindM_def elements_of_Some elements size_cast_def)

lemma unpack_element:
  assumes "node_at J s n = Some (json_array J (map enc xs))" and "i < length xs" and "repr (xs ! i)" and "ty y"
  shows "cref_try_get C y (Some (fst n, snd n @ [At i])) s = (Ret (True, xs ! i), s)"
proof -
  have "node_at J s (fst n, snd n @ [At i]) = Some (enc (xs ! i))"
    using node_at_element [OF assms(1), of i] assms(2) by (simp add: elements)
  from unpack [OF this assms(3,4)] show ?thesis by (simp add: cref_try_get_def)
qed

lemma unpack_vector_eq:
  assumes n: "node_at J s n = Some (json_array J (map enc xs))" and x: "\<forall>x \<in> set xs. repr x" and len: "length xs < 2 ^ 32"
  shows "k = length xs - i \<Longrightarrow> i \<le> length xs \<Longrightarrow> ty cur
    \<Longrightarrow> unpack_vector J C (Some n) i k cur ret s = (Ret (length xs, ret @ drop i xs), s)"
proof (induction k arbitrary: i cur ret)
  case 0
  then show ?case by simp
next
  case (Suc k)
  then have i: "i < length xs" by simp
  then have r: "repr (xs ! i)" using x by simp
  have "unpack_vector J C (Some n) (Suc i) k (xs ! i) (ret @ [xs ! i]) s
      = (Ret (length xs, (ret @ [xs ! i]) @ drop (Suc i) xs), s)"
    using Suc.prems i repr_ty [OF r] by (intro Suc.IH) auto
  then show ?case
    using i len vlist_index_eq [OF n, of i] unpack_element [OF n i r Suc.prems(3)]
    by (simp add: bindM_def Cons_nth_drop_Suc)
qed

declare unpack_array.simps [simp del]

lemma unpack_array_eq:
  assumes n: "node_at J s n = Some (json_array J (map enc xs))" and x: "\<forall>x \<in> set xs. repr x" and len: "length xs < 2 ^ 32"
  shows "k = length xs - i \<Longrightarrow> i \<le> length xs \<Longrightarrow> length dst = length xs \<Longrightarrow> \<forall>y \<in> set dst. ty y
    \<Longrightarrow> unpack_array J C (Some n) i dst s = (Ret (length xs, take i dst @ drop i xs), s)"
proof (induction k arbitrary: i dst)
  case 0
  then show ?case by (simp add: unpack_array.simps)
next
  case (Suc k)
  then have i: "i < length xs" by simp
  then have r: "repr (xs ! i)" using x by simp
  have ty: "ty (dst ! i)" using Suc.prems i by simp
  have "unpack_array J C (Some n) (Suc i) (dst[i := xs ! i]) s
      = (Ret (length xs, take (Suc i) (dst[i := xs ! i]) @ drop (Suc i) xs), s)"
    using Suc.prems i repr_ty [OF r] set_update_subset_insert [of dst i "xs ! i"]
    by (intro Suc.IH) auto
  then show ?case
    using i len Suc.prems vlist_index_eq [OF n, of i] unpack_element [OF n i r ty] vlist_size_eq [OF n]
    by (subst unpack_array.simps)
      (simp add: bindM_def take_Suc_conv_app_nth Cons_nth_drop_Suc take_update_cancel)
qed

text \<open>Vectors of any length below \<open>2 ^ 32\<close>, and arrays of one length.\<close>

lemma is_list_eq: "node_at J s n = Some (json_array J xs) \<Longrightarrow> is_list J (Some n) s = (Ret True, s)"
  by (simp add: is_list_def query_Some)

lemma get_list_eq: "node_at J s n = Some (json_array J xs) \<Longrightarrow> get_list E J (Some n) s = (Ret (Some n), s)"
  by (simp add: get_list_def bindM_def is_list_eq)

lemma vector_lawful:
  assumes "ty cur"
  shows "lawful_converter J (vector_converter E J cur C) (\<lambda>xs. json_array J (map enc xs)) (\<lambda>_. True)
    (\<lambda>xs. length xs < 2 ^ 32 \<and> (\<forall>x \<in> set xs. repr x))"
proof (intro lawful_converter.intro J lawful_converter_axioms.intro)
  fix s n xs y
  assume n: "node_at J s n = Some (json_array J (map enc xs))" and x: "length xs < 2 ^ 32 \<and> (\<forall>x \<in> set xs. repr x)"
  show "conv_unpack (vector_converter E J cur C) y (Some n) s = (Ret (True, xs), s)"
    using x assms unpack_vector_eq [OF n, of "length xs" 0 cur "[]"]
    by (simp add: vector_converter_def bindM_def is_list_eq [OF n] get_list_eq [OF n] vlist_size_eq [OF n])
qed (simp_all add: vector_converter_def pack_sequence_eq)

lemma array_lawful:
  "lawful_converter J (array_converter E J C) (\<lambda>xs. json_array J (map enc xs))
    (\<lambda>xs. length xs = N \<and> (\<forall>x \<in> set xs. ty x)) (\<lambda>xs. length xs = N \<and> length xs < 2 ^ 32 \<and> (\<forall>x \<in> set xs. repr x))"
proof (intro lawful_converter.intro J lawful_converter_axioms.intro)
  fix s n xs y
  assume n: "node_at J s n = Some (json_array J (map enc xs))"
    and x: "length xs = N \<and> length xs < 2 ^ 32 \<and> (\<forall>x \<in> set xs. repr x)" and y: "length y = N \<and> (\<forall>x \<in> set y. ty x)"
  show "conv_unpack (array_converter E J C) y (Some n) s = (Ret (True, xs), s)"
    using x y unpack_array_eq [OF n, of "length xs" 0 y]
    by (simp add: array_converter_def bindM_def is_list_eq [OF n] get_list_eq [OF n] vlist_size_eq [OF n])
qed (simp_all add: array_converter_def pack_sequence_eq repr_ty)

end

end
