(* ===== verification/Systemc_Converters.thy ===== *)
theory Systemc_Converters
  imports Converter_Sequences
begin

text \<open>
  The converters of the SystemC types (src/src/cci/core/cci_value_converter.cpp). SystemC is not
  part of the repository: what the converters call of it are the fields of the records below.
\<close>

section \<open>Times\<close>

text \<open>
  \<open>sc_time_tuple\<close> (value and unit symbol), the constructors of \<open>sc_time\<close>, \<open>to_seconds\<close>, the
  product of a number and a time; \<open>systemc_232\<close> says whether SystemC is 2.3.2 or later.
\<close>

record ('tm, 'd) sc_time_ops =
  systemc_232 :: bool
  time_tuple :: "'tm \<Rightarrow> 'd \<times> string"
  time_of :: "'d \<Rightarrow> string \<Rightarrow> 'tm"
  time_from_string :: "string \<Rightarrow> 'tm"
  time_to_seconds :: "'tm \<Rightarrow> 'd"
  time_unit :: "nat \<Rightarrow> 'tm"
  time_scale :: "'d \<Rightarrow> 'tm \<Rightarrow> 'tm"

definition SC_SEC :: nat where
  "SC_SEC = 5"

definition sc_time_from_unit :: "('tm, 'd) sc_time_ops \<Rightarrow> nat \<Rightarrow> ('r, 'tm) vcomp" where
  "sc_time_from_unit S u = thenM (assertM (u \<le> SC_SEC)) (retM (time_unit S u))"

text \<open>
  Before 2.3.2 the units are looked up in a table of up to two symbols each; the entry behind the
  last one is the sentinel. The position in the table is taken as the unit.
\<close>

definition symbol_table :: "(string \<times> string option) list" where
  "symbol_table = [(''fs'', Some ''SC_FS''), (''ps'', Some ''SC_PS''), (''ns'', Some ''SC_NS''),
     (''us'', Some ''SC_US''), (''ms'', Some ''SC_MS''), (''s'', Some ''SC_SEC''), (''sec'', None)]"

fun symbol_cursor :: "('r, 'd) rapidjson \<Rightarrow> cci_value_cref \<Rightarrow> (string \<times> string option) list \<Rightarrow> nat
    \<Rightarrow> ('r, nat) vcomp" where
  "symbol_cursor J symb [] i = retM i"
| "symbol_cursor J symb ((s0, s1) # ts) i =
     bindM (string_equal_chars J symb (Some s0)) (\<lambda>a.
       bindM (if a then retM True else string_equal_chars J symb s1) (\<lambda>b.
         if b then retM i else symbol_cursor J symb ts (Suc i)))"

definition sc_time_from_symbol :: "('r, 'd) rapidjson \<Rightarrow> ('tm, 'd) sc_time_ops \<Rightarrow> cci_value_cref \<Rightarrow> ('r, 'tm) vcomp" where
  "sc_time_from_symbol J S symb =
     bindM (symbol_cursor J symb symbol_table 0) (\<lambda>i.
       thenM (assertM (i < length symbol_table + 1)) (sc_time_from_unit S i))"

definition sc_time_pack :: "'x sc_env_scheme \<Rightarrow> ('r, 'd) rapidjson \<Rightarrow> ('tm, 'd) sc_time_ops \<Rightarrow> cci_value_ref
    \<Rightarrow> 'tm \<Rightarrow> ('r, bool) vcomp" where
  "sc_time_pack E J S dst src =
     bindM (set_list J dst) (\<lambda>l.
       thenM (if systemc_232 S then
                bindM (push_back_conv E J (double_converter E J) (fst (time_tuple S src)) l)
                  (push_back_conv E J (string_converter E J) (snd (time_tuple S src)))
              else
                bindM (push_back_conv E J (double_converter E J) (time_to_seconds S src) l)
                  (push_back_conv E J (chars_converter E J 2) (''s'' @ [CHR 0x00])))
         (retM True))"

text \<open>
  Unpacking: a tuple, a map with the entries \<open>value\<close> and \<open>unit\<close>, or since 2.3.2 a string. The two
  local values are null if none of these fits.
\<close>

definition list_of_two :: "'x sc_env_scheme \<Rightarrow> ('r, 'd) rapidjson \<Rightarrow> cci_value_cref \<Rightarrow> ('r, bool) vcomp" where
  "list_of_two E J src =
     bindM (is_list J src) (\<lambda>b. if b then bindM (get_list E J src) (\<lambda>l. bindM (vlist_size J l) (\<lambda>n. retM (n = 2)))
       else retM False)"

definition map_of_two :: "'x sc_env_scheme \<Rightarrow> ('r, 'd) rapidjson \<Rightarrow> cci_value_cref \<Rightarrow> ('r, bool) vcomp" where
  "map_of_two E J src =
     bindM (is_map J src) (\<lambda>b. if b then bindM (get_map E J src) (\<lambda>m. bindM (vmap_size J m) (\<lambda>n. retM (n = 2)))
       else retM False)"

definition sc_time_finish :: "'x sc_env_scheme \<Rightarrow> ('r, 'd) rapidjson \<Rightarrow> ('tm, 'd) sc_time_ops \<Rightarrow> 'tm
    \<Rightarrow> wid \<Rightarrow> wid \<Rightarrow> ('r, bool \<times> 'tm) vcomp" where
  "sc_time_finish E J S dst value unit =
     bindM (the_wrapper value) (\<lambda>x. bindM (the_wrapper unit) (\<lambda>y.
       bindM (is_number J (pimpl x)) (\<lambda>num.
         if \<not> num then retM (False, dst)
         else bindM (is_string J (pimpl y)) (\<lambda>str.
           if str then
             bindM (get_double E J (pimpl x)) (\<lambda>v.
               bindM (get_string E J (pimpl y)) (\<lambda>u.
                 if systemc_232 S then
                   bindM (string_of_node J u) (\<lambda>cs. retM (True, time_of S v (c_str cs)))
                 else bindM (sc_time_from_symbol J S u) (\<lambda>t. retM (True, time_scale S v t))))
           else bindM (is_uint J (pimpl y)) (\<lambda>ui.
             if \<not> ui then retM (False, dst)
             else bindM (get_uint E J (pimpl y)) (\<lambda>u.
               if unat u \<le> SC_SEC then
                 bindM (get_double E J (pimpl x)) (\<lambda>v.
                   bindM (sc_time_from_unit S (unat u)) (\<lambda>t. retM (True, time_scale S v t)))
               else retM (False, dst)))))))"

definition sc_time_unpack :: "'x sc_env_scheme \<Rightarrow> ('r, 'd) rapidjson \<Rightarrow> ('tm, 'd) sc_time_ops \<Rightarrow> 'tm
    \<Rightarrow> cci_value_cref \<Rightarrow> ('r, bool \<times> 'tm) vcomp" where
  "sc_time_unpack E J S dst src =
     bindM new_value (\<lambda>value. guardM (\<lambda>s. s)
       (bindM new_value (\<lambda>unit. guardM (\<lambda>s. s)
         (bindM (list_of_two E J src) (\<lambda>tuple.
            if tuple then
              bindM (get_list E J src) (\<lambda>l.
                thenM (bindM (vlist_index J l 0) (value_assign J value))
                  (thenM (bindM (vlist_index J l 1) (value_assign J unit))
                    (sc_time_finish E J S dst value unit)))
            else bindM (map_of_two E J src) (\<lambda>dict.
              if dict then
                bindM (get_map E J src) (\<lambda>m.
                  bindM (has_entry E J (Key_chars ''value'') m) (\<lambda>a.
                    bindM (if a then has_entry E J (Key_chars ''unit'') m else retM False) (\<lambda>b.
                      thenM (if b then
                               thenM (bindM (vmap_at E J (Key_chars ''value'') m) (value_assign J value))
                                 (bindM (vmap_at E J (Key_chars ''unit'') m) (value_assign J unit))
                             else skipM)
                        (sc_time_finish E J S dst value unit))))
              else bindM (if systemc_232 S then is_string J src else retM False) (\<lambda>str.
                if str then
                  bindM (get_string E J src) (\<lambda>u.
                    bindM (string_of_node J u) (\<lambda>cs. retM (True, time_from_string S (c_str cs))))
                else sc_time_finish E J S dst value unit))))
         (delete_wrapper unit)))
       (delete_wrapper value))"

definition sc_time_converter :: "'x sc_env_scheme \<Rightarrow> ('r, 'd) rapidjson \<Rightarrow> ('tm, 'd) sc_time_ops
    \<Rightarrow> ('tm, 'r) converter" where
  "sc_time_converter E J S = \<lparr>conv_pack = sc_time_pack E J S, conv_unpack = sc_time_unpack E J S\<rparr>"

section \<open>Bits and logic values\<close>

definition sc_bit_converter :: "'x sc_env_scheme \<Rightarrow> ('r, 'd) rapidjson \<Rightarrow> (bool, 'r) converter" where
  "sc_bit_converter E J = builtin_converter (is_bool J) (get_bool E J) (set_bool J)"

datatype sc_logic = Log_0 | Log_1 | Log_Z | Log_X

fun logic_char :: "sc_logic \<Rightarrow> char" where
  "logic_char Log_0 = CHR ''0''"
| "logic_char Log_1 = CHR ''1''"
| "logic_char Log_Z = CHR ''Z''"
| "logic_char Log_X = CHR ''X''"

definition logic_of_bool :: "bool \<Rightarrow> sc_logic" where
  "logic_of_bool b = (if b then Log_1 else Log_0)"

definition sc_logic_pack :: "('r, 'd) rapidjson \<Rightarrow> cci_value_ref \<Rightarrow> sc_logic \<Rightarrow> ('r, bool) vcomp" where
  "sc_logic_pack J dst src =
     (case src of
        Log_0 \<Rightarrow> thenM (set_bool J False dst) (retM True)
      | Log_1 \<Rightarrow> thenM (set_bool J True dst) (retM True)
      | _ \<Rightarrow> thenM (set_string J [logic_char src] dst) (retM True))"

text \<open>\<open>logic_of_int\<close> is the constructor of \<open>sc_logic\<close> from an integer.\<close>

definition sc_logic_unpack :: "'x sc_env_scheme \<Rightarrow> ('r, 'd) rapidjson \<Rightarrow> (32 word \<Rightarrow> sc_logic) \<Rightarrow> sc_logic
    \<Rightarrow> cci_value_cref \<Rightarrow> ('r, bool \<times> sc_logic) vcomp" where
  "sc_logic_unpack E J logic_of_int dst src =
     bindM (is_bool J src) (\<lambda>b.
       if b then bindM (get_bool E J src) (\<lambda>x. retM (True, logic_of_bool x))
       else bindM (is_int J src) (\<lambda>i.
         if i then bindM (get_int E J src) (\<lambda>x. retM (True, logic_of_int x))
         else bindM (is_string J src) (\<lambda>str.
           if \<not> str then retM (False, dst)
           else bindM (get_string E J src) (\<lambda>v.
             bindM (string_size J v) (\<lambda>n.
               if n \<noteq> 1 then retM (False, dst)
               else bindM (string_at J v 0) (\<lambda>c. retM
                 (if c = CHR ''0'' then (True, Log_0)
                  else if c = CHR ''1'' then (True, Log_1)
                  else if c = CHR ''z'' \<or> c = CHR ''Z'' then (True, Log_Z)
                  else if c = CHR ''x'' \<or> c = CHR ''X'' then (True, Log_X)
                  else (False, dst))))))))"

definition sc_logic_converter :: "'x sc_env_scheme \<Rightarrow> ('r, 'd) rapidjson \<Rightarrow> (32 word \<Rightarrow> sc_logic)
    \<Rightarrow> (sc_logic, 'r) converter" where
  "sc_logic_converter E J logic_of_int =
     \<lparr>conv_pack = sc_logic_pack J, conv_unpack = sc_logic_unpack E J logic_of_int\<rparr>"

section \<open>Numbers and vectors\<close>

text \<open>
  What the converters use of \<open>sc_int_base\<close>, \<open>sc_uint_base\<close>, \<open>sc_signed\<close>, \<open>sc_unsigned\<close>,
  \<open>sc_bv_base\<close>, \<open>sc_lv_base\<close> and the fixed-point types; an assignment keeps the width of the
  variable, which is in its old value.
\<close>

record ('s, 'd) sc_number =
  num_length :: "'s \<Rightarrow> nat"
  num_int64 :: "'s \<Rightarrow> 64 word"
  num_uint64 :: "'s \<Rightarrow> 64 word"
  num_double :: "'s \<Rightarrow> 'd"
  num_string :: "'s \<Rightarrow> string"
  num_of_int64 :: "'s \<Rightarrow> 64 word \<Rightarrow> 's"
  num_of_uint64 :: "'s \<Rightarrow> 64 word \<Rightarrow> 's"
  num_of_double :: "'s \<Rightarrow> 'd \<Rightarrow> 's"
  num_of_chars :: "'s \<Rightarrow> string \<Rightarrow> 's"

definition chars_of :: "'x sc_env_scheme \<Rightarrow> ('r, 'd) rapidjson \<Rightarrow> cci_value_cref \<Rightarrow> ('r, string) vcomp" where
  "chars_of E J src = bindM (get_string E J src) (\<lambda>v. bindM (string_of_node J v) (\<lambda>cs. retM (c_str cs)))"

text \<open>The unpacking that the signed and the unsigned types share.\<close>

definition sc_unpack_int64 :: "'x sc_env_scheme \<Rightarrow> ('r, 'd) rapidjson \<Rightarrow> ('s, 'd) sc_number \<Rightarrow> 's
    \<Rightarrow> cci_value_cref \<Rightarrow> ('r, bool \<times> 's) vcomp" where
  "sc_unpack_int64 E J N dst src =
     bindM (is_int64 J src) (\<lambda>i.
       if i then bindM (get_int64 E J src) (\<lambda>x. retM (True, num_of_int64 N dst x))
       else bindM (is_string J src) (\<lambda>str.
         if str then bindM (chars_of E J src) (\<lambda>cs. retM (True, num_of_chars N dst cs))
         else retM (False, dst)))"

definition sc_unpack_uint64 :: "'x sc_env_scheme \<Rightarrow> ('r, 'd) rapidjson \<Rightarrow> ('s, 'd) sc_number \<Rightarrow> 's
    \<Rightarrow> cci_value_cref \<Rightarrow> ('r, bool \<times> 's) vcomp" where
  "sc_unpack_uint64 E J N dst src =
     bindM (is_uint64 J src) (\<lambda>i.
       if i then bindM (get_uint64 E J src) (\<lambda>x. retM (True, num_of_uint64 N dst x))
       else bindM (is_string J src) (\<lambda>str.
         if str then bindM (chars_of E J src) (\<lambda>cs. retM (True, num_of_chars N dst cs))
         else retM (False, dst)))"

definition sc_int_base_converter :: "'x sc_env_scheme \<Rightarrow> ('r, 'd) rapidjson \<Rightarrow> ('s, 'd) sc_number \<Rightarrow> ('s, 'r) converter" where
  "sc_int_base_converter E J N =
     \<lparr>conv_pack = (\<lambda>dst src. thenM (set_int64 J (num_int64 N src) dst) (retM True)),
      conv_unpack = sc_unpack_int64 E J N\<rparr>"

definition sc_uint_base_converter :: "'x sc_env_scheme \<Rightarrow> ('r, 'd) rapidjson \<Rightarrow> ('s, 'd) sc_number \<Rightarrow> ('s, 'r) converter" where
  "sc_uint_base_converter E J N =
     \<lparr>conv_pack = (\<lambda>dst src. thenM (set_uint64 J (num_uint64 N src) dst) (retM True)),
      conv_unpack = sc_unpack_uint64 E J N\<rparr>"

definition sc_signed_converter :: "'x sc_env_scheme \<Rightarrow> ('r, 'd) rapidjson \<Rightarrow> ('s, 'd) sc_number \<Rightarrow> ('s, 'r) converter" where
  "sc_signed_converter E J N =
     \<lparr>conv_pack = (\<lambda>dst src.
        if num_length N src \<le> 64 then thenM (set_int64 J (num_int64 N src) dst) (retM True)
        else thenM (set_string J (num_string N src) dst) (retM True)),
      conv_unpack = sc_unpack_int64 E J N\<rparr>"

definition sc_unsigned_converter :: "'x sc_env_scheme \<Rightarrow> ('r, 'd) rapidjson \<Rightarrow> ('s, 'd) sc_number \<Rightarrow> ('s, 'r) converter" where
  "sc_unsigned_converter E J N =
     \<lparr>conv_pack = (\<lambda>dst src.
        if num_length N src \<le> 64 then thenM (set_uint64 J (num_uint64 N src) dst) (retM True)
        else thenM (set_string J (num_string N src) dst) (retM True)),
      conv_unpack = sc_unpack_uint64 E J N\<rparr>"

text \<open>\<open>sc_bv_base\<close> and \<open>sc_lv_base\<close>, which have the same code.\<close>

definition sc_bits_converter :: "'x sc_env_scheme \<Rightarrow> ('r, 'd) rapidjson \<Rightarrow> ('s, 'd) sc_number \<Rightarrow> ('s, 'r) converter" where
  "sc_bits_converter E J N =
     \<lparr>conv_pack = (\<lambda>dst src. thenM (set_string J (num_string N src) dst) (retM True)),
      conv_unpack = (\<lambda>dst src. bindM (is_string J src) (\<lambda>str.
        if \<not> str then retM (False, dst)
        else bindM (chars_of E J src) (\<lambda>cs. retM (True, num_of_chars N dst cs))))\<rparr>"

definition cci_value_unpack_fx :: "'x sc_env_scheme \<Rightarrow> ('r, 'd) rapidjson \<Rightarrow> ('s, 'd) sc_number \<Rightarrow> 's
    \<Rightarrow> cci_value_cref \<Rightarrow> ('r, bool \<times> 's) vcomp" where
  "cci_value_unpack_fx E J N dst src =
     bindM (is_int64 J src) (\<lambda>i.
       if i then bindM (get_int64 E J src) (\<lambda>x. retM (True, num_of_int64 N dst x))
       else bindM (is_uint64 J src) (\<lambda>u.
         if u then bindM (get_uint64 E J src) (\<lambda>x. retM (True, num_of_uint64 N dst x))
         else bindM (is_double J src) (\<lambda>d.
           if d then bindM (get_double E J src) (\<lambda>x. retM (True, num_of_double N dst x))
           else bindM (is_string J src) (\<lambda>str.
             if str then bindM (chars_of E J src) (\<lambda>cs. retM (True, num_of_chars N dst cs))
             else retM (False, dst)))))"

text \<open>The exact fixed-point types pack as strings, the fast ones as \<open>double\<close>.\<close>

definition fx_converter :: "'x sc_env_scheme \<Rightarrow> ('r, 'd) rapidjson \<Rightarrow> ('s, 'd) sc_number \<Rightarrow> ('s, 'r) converter" where
  "fx_converter E J N =
     \<lparr>conv_pack = (\<lambda>dst src. thenM (set_string J (num_string N src) dst) (retM True)),
      conv_unpack = cci_value_unpack_fx E J N\<rparr>"

definition fx_fast_converter :: "'x sc_env_scheme \<Rightarrow> ('r, 'd) rapidjson \<Rightarrow> ('s, 'd) sc_number \<Rightarrow> ('s, 'r) converter" where
  "fx_fast_converter E J N =
     \<lparr>conv_pack = (\<lambda>dst src. thenM (set_double J (num_double N src) dst) (retM True)),
      conv_unpack = cci_value_unpack_fx E J N\<rparr>"

section \<open>Lemmas\<close>

definition logic_enc :: "('r, 'd) rapidjson \<Rightarrow> sc_logic \<Rightarrow> 'r" where
  "logic_enc J l = (case l of Log_0 \<Rightarrow> json_bool J False | Log_1 \<Rightarrow> json_bool J True
     | _ \<Rightarrow> json_string J [logic_char l])"

context rapidjson_model
begin

text \<open>Logic values and bits are converted without loss.\<close>

lemma sc_bit_lawful: "lawful_converter J (sc_bit_converter E J) (json_bool J) (\<lambda>_. True) (\<lambda>_. True)"
  using bool_lawful by (simp add: sc_bit_converter_def bool_converter_def)

lemma string_not_int: "\<not> IsInt J (json_string J cs)"
  using number_type [of "json_string J cs"] type_string [of cs] by auto

lemma sc_logic_lawful:
  "lawful_converter J (sc_logic_converter E J f) (logic_enc J) (\<lambda>_. True) (\<lambda>_. True)"
proof (intro lawful_converter.intro J lawful_converter_axioms.intro)
  fix s n r and x :: sc_logic
  assume "values_ok s" "node_at J s n = Some r"
  then show "\<exists>t. conv_pack (sc_logic_converter E J f) (Some n) x s = (Ret True, t)
      \<and> values_ok t \<and> same_store t (write_node J n (logic_enc J x) s)"
    by (cases x) (simp_all add: sc_logic_converter_def sc_logic_pack_def logic_enc_def bindM_def set_bool_def
        set_string_def size_cast_def checked_set_Some values_ok_write)
next
  fix s n y and x :: sc_logic
  assume "node_at J s n = Some (logic_enc J x)"
  then show "conv_unpack (sc_logic_converter E J f) y (Some n) s = (Ret (True, x), s)"
    by (cases x) (simp_all add: sc_logic_converter_def sc_logic_unpack_def logic_enc_def conv_simps
        logic_of_bool_def string_not_int get_string_def string_size_def string_at_def string_of_node_def)
qed simp

end

text \<open>
  The table before SystemC 2.3.2: a symbol at position \<open>i\<close> is found there, and the last one,
  \<open>sec\<close>, stands behind the position of the last unit.
\<close>

context rapidjson_model
begin

lemma string_equal_chars_eq:
  "node_at J s n = Some (json_string J cs) \<Longrightarrow>
   string_equal_chars J (Some n) k s = (Ret (case k of None \<Rightarrow> False | Some ks \<Rightarrow> cs = c_str ks), s)"
  by (simp add: string_equal_chars_def bindM_def the_node_Some equal_string split: option.split)

lemma sc_time_from_symbol_eq:
  assumes "node_at J s n = Some (json_string J cs)" and "i < 6" and "cs = fst (symbol_table ! i)"
  shows "sc_time_from_symbol J S (Some n) s = (Ret (time_unit S i), s)"
proof -
  have "i = 0 \<or> i = 1 \<or> i = 2 \<or> i = 3 \<or> i = 4 \<or> i = 5" using assms(2) by linarith
  then show ?thesis
    using string_equal_chars_eq [OF assms(1)] assms(3)
    by (elim disjE) (simp_all add: sc_time_from_symbol_def symbol_table_def bindM_def c_str_def
        sc_time_from_unit_def SC_SEC_def eval_nat_numeral)
qed

lemma sc_time_from_symbol_sec:
  assumes "node_at J s n = Some (json_string J ''sec'')"
  shows "sc_time_from_symbol J S (Some n) s = (Abort, s)"
  using string_equal_chars_eq [OF assms]
  by (simp add: sc_time_from_symbol_def symbol_table_def bindM_def c_str_def sc_time_from_unit_def SC_SEC_def)

end

end
