(* ===== verification/Filtered_Range.thy ===== *)
theory Filtered_Range
  imports Broker
begin

text \<open>
  \<open>cci_filtered_range\<close> (src/src/cci/core/cci_filtered_range.h): a container with a predicate,
  iterated over lazily in both directions, and the operation of the brokers that returns one of presets.
  An iterator holds a position and, unless it came from \<open>end()\<close>, a pointer to its range; the
  pointer is the flag \<open>m_fr\<close>. Predicates are functions.
\<close>

section \<open>The range and its iterators\<close>

record range_iterator =
  m_current :: nat
  m_fr :: bool

record 'a filtered_range =
  m_pred :: "'a \<Rightarrow> bool"
  m_container :: "'a list"
  m_begin :: range_iterator

text \<open>The loops of \<open>increment\<close> and \<open>decrement\<close>.\<close>

function skip_forward :: "('a \<Rightarrow> bool) \<Rightarrow> 'a list \<Rightarrow> nat \<Rightarrow> nat" where
  "skip_forward pr xs c = (if c < length xs \<and> \<not> pr (xs ! c) then skip_forward pr xs (Suc c) else c)"
  by pat_completeness auto

termination
  by (relation "measure (\<lambda>(pr, xs, c). length xs - c)") auto

fun skip_backward :: "('a \<Rightarrow> bool) \<Rightarrow> 'a list \<Rightarrow> nat \<Rightarrow> nat \<Rightarrow> nat" where
  "skip_backward pr xs b 0 = 0"
| "skip_backward pr xs b (Suc c) =
     (if Suc c \<noteq> b \<and> \<not> pr (xs ! Suc c) then skip_backward pr xs b c else Suc c)"

definition increment :: "'a filtered_range \<Rightarrow> range_iterator \<Rightarrow> range_iterator" where
  "increment r it =
     (if m_fr it then
        let c = (if m_current it \<noteq> length (m_container r) then Suc (m_current it) else m_current it)
        in it\<lparr>m_current := skip_forward (m_pred r) (m_container r) c\<rparr>
      else it)"

definition decrement :: "'a filtered_range \<Rightarrow> range_iterator \<Rightarrow> range_iterator" where
  "decrement r it =
     (if m_fr it then
        let c = (if m_current it \<noteq> m_current (m_begin r) then m_current it - 1 else m_current it)
        in it\<lparr>m_current := skip_backward (m_pred r) (m_container r) (m_current (m_begin r)) c\<rparr>
      else it)"

text \<open>\<open>it++\<close> and \<open>it--\<close>: the result and the new value of the variable.\<close>

definition post_increment :: "'a filtered_range \<Rightarrow> range_iterator \<Rightarrow> range_iterator \<times> range_iterator" where
  "post_increment r it = (it, increment r it)"

definition post_decrement :: "'a filtered_range \<Rightarrow> range_iterator \<Rightarrow> range_iterator \<times> range_iterator" where
  "post_decrement r it = (it, decrement r it)"

definition range_deref :: "'a filtered_range \<Rightarrow> range_iterator \<Rightarrow> 'a" where
  "range_deref r it = m_container r ! m_current it"

definition iterator_eq :: "range_iterator \<Rightarrow> range_iterator \<Rightarrow> bool" where
  "iterator_eq it it' \<longleftrightarrow> m_current it = m_current it'"

definition range_end :: "'a filtered_range \<Rightarrow> range_iterator" where
  "range_end r = \<lparr>m_current = length (m_container r), m_fr = False\<rparr>"

definition range_begin :: "'a filtered_range \<Rightarrow> range_iterator" where
  "range_begin r = m_begin r"

text \<open>The iterators under the reverse iterators \<open>rbegin()\<close> and \<open>rend()\<close>.\<close>

definition range_rbegin :: "'a filtered_range \<Rightarrow> range_iterator" where
  "range_rbegin r = \<lparr>m_current = length (m_container r), m_fr = True\<rparr>"

definition range_rend :: "'a filtered_range \<Rightarrow> range_iterator" where
  "range_rend r = \<lparr>m_current = m_current (m_begin r), m_fr = True\<rparr>"

text \<open>The constructor, with \<open>init\<close>.\<close>

definition range_init :: "'a filtered_range \<Rightarrow> 'a filtered_range" where
  "range_init r =
     (if \<not> iterator_eq (m_begin r) (range_end r) \<and> \<not> m_pred r (range_deref r (m_begin r))
      then r\<lparr>m_begin := increment r (m_begin r)\<rparr> else r)"

definition new_range :: "('a \<Rightarrow> bool) \<Rightarrow> 'a list \<Rightarrow> 'a filtered_range" where
  "new_range pr xs =
     range_init \<lparr>m_pred = pr, m_container = xs, m_begin = \<lparr>m_current = 0, m_fr = True\<rparr>\<rparr>"

section \<open>Traversal\<close>

text \<open>
  \<open>for( it = begin(); it != end(); ++it )\<close> and the loop over the reverse iterators, whose
  dereference reads the element before; \<open>n\<close> bounds the rounds.
\<close>

fun forward_from :: "nat \<Rightarrow> 'a filtered_range \<Rightarrow> range_iterator \<Rightarrow> 'a list" where
  "forward_from 0 r it = []"
| "forward_from (Suc n) r it =
     (if iterator_eq it (range_end r) then [] else range_deref r it # forward_from n r (increment r it))"

fun backward_from :: "nat \<Rightarrow> 'a filtered_range \<Rightarrow> range_iterator \<Rightarrow> 'a list" where
  "backward_from 0 r it = []"
| "backward_from (Suc n) r it =
     (if iterator_eq it (range_rend r) then []
      else range_deref r (decrement r it) # backward_from n r (decrement r it))"

section \<open>Ranges of the brokers\<close>

text \<open>
  The overload with a predicate; the call inside is that of the virtual function. A range of handles,
  whose predicate is a program that may look at parameters, is in \<open>Param_Range\<close>.
\<close>

definition get_unconsumed_preset_range :: "(string \<times> 'j \<Rightarrow> bool) \<Rightarrow> 'j broker \<Rightarrow> (string \<times> 'j) filtered_range" where
  "get_unconsumed_preset_range pr r = new_range pr (get_unconsumed_preset_values r)"

section \<open>Lemmas\<close>

declare skip_forward.simps [simp del]

text \<open>The elements from a position on that satisfy the predicate, and those before one.\<close>

lemma skip_forward_le: "c \<le> length xs \<Longrightarrow> c \<le> skip_forward pr xs c \<and> skip_forward pr xs c \<le> length xs"
proof (induction pr xs c rule: skip_forward.induct)
  case (1 pr xs c)
  then show ?case by (subst (1 2) skip_forward.simps) auto
qed

lemma skip_forward_drop:
  "c \<le> length xs \<Longrightarrow> filter pr (drop c xs) =
     (if skip_forward pr xs c = length xs then []
      else xs ! skip_forward pr xs c # filter pr (drop (Suc (skip_forward pr xs c)) xs))"
proof (induction pr xs c rule: skip_forward.induct)
  case (1 pr xs c)
  show ?case
  proof (cases "c < length xs \<and> \<not> pr (xs ! c)")
    case True
    with 1 show ?thesis
      by (subst (1 2 3) skip_forward.simps) (simp add: Cons_nth_drop_Suc [symmetric])
  next
    case False
    with 1(2) show ?thesis
      by (subst (1 2 3) skip_forward.simps) (auto simp: Cons_nth_drop_Suc [symmetric])
  qed
qed

lemma skip_forward_pred: "skip_forward pr xs c < length xs \<Longrightarrow> pr (xs ! skip_forward pr xs c)"
proof (induction pr xs c rule: skip_forward.induct)
  case (1 pr xs c)
  then show ?case by (subst skip_forward.simps, subst (asm) skip_forward.simps) (auto split: if_splits)
qed

lemma skip_forward_take: "c \<le> length xs \<Longrightarrow> filter pr (take (skip_forward pr xs c) xs) = filter pr (take c xs)"
proof (induction pr xs c rule: skip_forward.induct)
  case (1 pr xs c)
  then show ?case by (subst skip_forward.simps) (auto simp: take_Suc_conv_app_nth)
qed

lemma skip_backward_take:
  "b \<le> c \<Longrightarrow> c < length xs \<Longrightarrow> filter pr (take b xs) = [] \<Longrightarrow> pr (xs ! b) \<Longrightarrow>
   b \<le> skip_backward pr xs b c \<and> skip_backward pr xs b c \<le> c
   \<and> filter pr (take (Suc c) xs) = filter pr (take (skip_backward pr xs b c) xs) @ [xs ! skip_backward pr xs b c]"
proof (induction c)
  case 0
  then show ?case by (simp add: take_Suc_conv_app_nth)
next
  case (Suc c)
  show ?case
  proof (cases "Suc c \<noteq> b \<and> \<not> pr (xs ! Suc c)")
    case True
    with Suc show ?thesis by (simp add: take_Suc_conv_app_nth [of "Suc c"])
  next
    case False
    with Suc.prems show ?thesis by (auto simp: take_Suc_conv_app_nth [of "Suc c"])
  qed
qed

lemma new_range_begin:
  "m_pred (new_range pr xs) = pr" "m_container (new_range pr xs) = xs" "m_fr (m_begin (new_range pr xs))"
  "m_current (m_begin (new_range pr xs)) = skip_forward pr xs 0"
  by (auto simp: new_range_def range_init_def iterator_eq_def range_end_def range_deref_def increment_def
      skip_forward.simps [of pr xs 0])

lemma forward_from_eq:
  assumes "m_container r = xs" and "m_pred r = pr"
  shows "length xs < n + c \<Longrightarrow> c \<le> length xs \<Longrightarrow>
    forward_from n r \<lparr>m_current = skip_forward pr xs c, m_fr = True\<rparr> = filter pr (drop c xs)"
proof (induction n arbitrary: c)
  case 0
  then show ?case by simp
next
  case (Suc n)
  let ?k = "skip_forward pr xs c"
  show ?case
  proof (cases "?k = length xs")
    case True
    with Suc.prems skip_forward_drop [of c xs pr] assms show ?thesis
      by (simp add: iterator_eq_def range_end_def)
  next
    case False
    then have k: "?k < length xs" "c \<le> ?k" using skip_forward_le [OF Suc.prems(2), of pr] by auto
    have "increment r \<lparr>m_current = ?k, m_fr = True\<rparr> = \<lparr>m_current = skip_forward pr xs (Suc ?k), m_fr = True\<rparr>"
      using k assms by (simp add: increment_def)
    moreover have "forward_from n r \<lparr>m_current = skip_forward pr xs (Suc ?k), m_fr = True\<rparr>
        = filter pr (drop (Suc ?k) xs)"
      using k Suc.prems by (intro Suc.IH) auto
    ultimately show ?thesis
      using False skip_forward_drop [OF Suc.prems(2), of pr] assms
      by (simp add: iterator_eq_def range_end_def range_deref_def)
  qed
qed

lemma backward_from_eq:
  assumes r: "r = new_range pr xs" and b: "b = skip_forward pr xs 0"
  shows "c < n + b \<Longrightarrow> b \<le> c \<Longrightarrow> c \<le> length xs \<Longrightarrow>
    backward_from n r \<lparr>m_current = c, m_fr = True\<rparr> = rev (filter pr (take c xs))"
proof (induction n arbitrary: c)
  case 0
  then show ?case by simp
next
  case (Suc n)
  have before: "filter pr (take b xs) = []" using skip_forward_take [of 0 xs pr] b by simp
  show ?case
  proof (cases "c = b")
    case True
    then show ?thesis using before by (simp add: iterator_eq_def range_rend_def r new_range_begin b)
  next
    case False
    then have c: "b < c" "c - 1 < length xs" "b \<le> c - 1" "Suc (c - 1) = c" using Suc.prems by auto
    then have "b \<noteq> length xs" by simp
    then have pb: "pr (xs ! b)"
      using skip_forward_pred [of pr xs 0] skip_forward_le [of 0 xs pr] b by simp
    let ?k = "skip_backward pr xs b (c - 1)"
    have k: "b \<le> ?k" "?k \<le> c - 1" "filter pr (take c xs) = filter pr (take ?k xs) @ [xs ! ?k]"
      using skip_backward_take [OF c(3,2) before pb] c(4) by auto
    have "decrement r \<lparr>m_current = c, m_fr = True\<rparr> = \<lparr>m_current = ?k, m_fr = True\<rparr>"
      using False by (simp add: decrement_def r new_range_begin b)
    moreover have "backward_from n r \<lparr>m_current = ?k, m_fr = True\<rparr> = rev (filter pr (take ?k xs))"
      using k c Suc.prems by (intro Suc.IH) auto
    ultimately show ?thesis
      using False k(3) by (simp add: iterator_eq_def range_rend_def range_deref_def r new_range_begin b)
  qed
qed

end
