(* ===== verification/Value_Properties.thy ===== *)
theory Value_Properties
  imports Systemc_Converters Filtered_Range
begin

text \<open>
  Properties of values, their owning objects, the conversions and filtered ranges.
\<close>

section \<open>Concrete states\<close>

text \<open>No values, and one \<open>cci_value\<close> that holds a given JSON value.\<close>

definition no_values :: "json value_state" where
  "no_values = \<lparr>reports = [], pool = Map.empty, free_list = [], next_impl = 0,
     wrappers = Map.empty, next_wid = 0\<rparr>"

definition ex_value :: "json \<Rightarrow> json value_state" where
  "ex_value r = \<lparr>reports = [], pool = [0 \<mapsto> r], free_list = [], next_impl = 1,
     wrappers = [0 \<mapsto> \<lparr>w_kind = Kind_value, pimpl = Some (0, []), own_pimpl = Some 0\<rparr>], next_wid = 1\<rparr>"

definition ex_sc :: "bool \<Rightarrow> sc_env" where
  "ex_sc throws = \<lparr>sc_throws = (\<lambda>sev mt. throws), sc_current = None, sc_name = (\<lambda>ob. []), sc_parent = (\<lambda>ob. None)\<rparr>"

lemma no_values_ok: "values_ok no_values"
  by (rule values_okI) (simp_all add: no_values_def owned_by_def)

lemma ex_value_ok: "values_ok (ex_value r)"
  by (rule values_okI) (auto simp: ex_value_def owned_by_def split: if_splits)

lemma ex_value_root [simp]: "node_at J (ex_value r) (0, []) = Some r"
  by (simp add: ex_value_def node_at_def)

section \<open>Ownership\<close>

text \<open>
  C6. Every value has one owner. Whatever a program does with values, references to them and
  owning objects, exceptions included: each value of the pool belongs to exactly one object, an
  object points to what it owns, and the addresses that were handed out are in use or in the
  free list, once. Nothing is released twice and nothing is lost. The one constructor that is not
  among these calls, that from a typed value, does lose memory
  (\<open>failed_construction_leaks\<close>).
\<close>

theorem values_owned_once:
  assumes "values_ok s"
  shows "values_ok (snd (run_values E J cs s))"
  using assms by (rule values_ok_run)

theorem values_owned_once_witness:
  "values_ok (snd (run_values (ex_sc True) plain_json
     [Call_new New_list, Call_new New_value, Call_obj 1 (Value_set (JInt 5)),
      Call_list (Some (0, [])) (List_push_back (Some (1, []))), Call_new (New_value_move 1),
      Call_obj 1 Delete, Call_obj 2 (Value_move_assign_list 0), Call_obj 0 Delete] no_values))"
  by (rule values_owned_once) (rule no_values_ok)

text \<open>
  A conversion that fails in a constructor loses memory. When the converter of a type refuses
  and the report is thrown, the constructor of \<open>cci_value\<close> is left by the exception after
  \<open>do_init\<close>; the destructor does not run, and a value of the pool has no owner any more. If the
  report is not thrown, the constructor returns a null value.
\<close>

lemma failed_construction_leaks:
  assumes "values_ok s" and "rapidjson_model J"
  shows "(sc_throws E SC_ERROR (CCI_SC_REPORT_MSG_TYPE_PREFIX @ ''CCI_VALUE_FAILURE'') \<longrightarrow>
       (\<exists>e t a. new_value_from E J disabled_converter x s = (Exc e, t) \<and> wrappers t = wrappers s
          \<and> pool s a = None \<and> pool t a \<noteq> None \<and> (\<forall>w. owned_by t w \<noteq> Some a)))
     \<and> (\<not> sc_throws E SC_ERROR (CCI_SC_REPORT_MSG_TYPE_PREFIX @ ''CCI_VALUE_FAILURE'') \<longrightarrow>
       (\<exists>w t. new_value_from E J disabled_converter x s = (Ret w, t) \<and> values_ok t
          \<and> (\<exists>a. pimpl (the (wrappers t w)) = Some a \<and> is_null J (Some a) t = (Ret True, t))))"
proof -
  let ?w = "next_wid s" and ?s = "snd (alloc_wrapper Kind_value s)"
  obtain a t where i: "do_init J ?w ?s = (Ret (Some (a, [])), t)" and t: "temporary Kind_value a (json_null J) ?w s t"
    using do_init_temporary [OF assms(1), of J Kind_value] by auto
  let ?r = "\<lparr>severity = SC_ERROR, msg_type = CCI_SC_REPORT_MSG_TYPE_PREFIX @ ''CCI_VALUE_FAILURE'',
      msg = ''conversion to cci_value failed''\<rparr>"
  let ?u = "t\<lparr>reports := reports t @ [?r]\<rparr>"
  note run = new_value_from_def on_exception_def noexceptM_def bindM_def alloc_wrapper_def value_conv_set_def
    ref_set_def ref_try_set_def disabled_converter_def cci_value_failure_def report_def Let_def
  have s: "s\<lparr>wrappers := (wrappers s)(?w \<mapsto> \<lparr>w_kind = Kind_value, pimpl = None, own_pimpl = None\<rparr>), next_wid := Suc ?w\<rparr> = ?s"
    by (simp add: alloc_wrapper_def)
  have other: "owned_by s v \<noteq> Some a" for v
    using values_okD(6) [OF assms(1), of a] t by (auto simp: temporary_def)
  show ?thesis
  proof (intro conjI impI)
    assume "sc_throws E SC_ERROR (CCI_SC_REPORT_MSG_TYPE_PREFIX @ ''CCI_VALUE_FAILURE'')"
    then have "new_value_from E J disabled_converter x s = (Exc (Sc_report ?r), forget_wrapper ?w ?u)"
      using i [unfolded alloc_wrapper_def] temporary_root(6) [OF t, where J = J] by (simp add: run)
    moreover have "wrappers (forget_wrapper ?w ?u) = wrappers s" "pool (forget_wrapper ?w ?u) a \<noteq> None" "pool s a = None"
      using t by (auto simp: temporary_def forget_wrapper_def)
    moreover have "owned_by (forget_wrapper ?w ?u) v \<noteq> Some a" for v
      using other [of v] calculation(2) by (simp add: owned_by_def)
    ultimately show "\<exists>e t a. new_value_from E J disabled_converter x s = (Exc e, t) \<and> wrappers t = wrappers s
        \<and> pool s a = None \<and> pool t a \<noteq> None \<and> (\<forall>w. owned_by t w \<noteq> Some a)" by blast
  next
    assume "\<not> sc_throws E SC_ERROR (CCI_SC_REPORT_MSG_TYPE_PREFIX @ ''CCI_VALUE_FAILURE'')"
    then have "new_value_from E J disabled_converter x s = (Ret ?w, ?u)"
      using i [unfolded alloc_wrapper_def] temporary_root(6) [OF t, where J = J] by (simp add: run)
    moreover have "values_ok ?u" using t by (simp add: temporary_def values_ok_report)
    moreover have "pimpl (the (wrappers ?u ?w)) = Some (a, [])" using t by (simp add: temporary_def)
    moreover have "is_null J (Some (a, [])) ?u = (Ret True, ?u)"
      using temporary_root(1) [OF t, of J] assms(2)
      by (simp add: is_null_def bindM_def the_node_def node_at_def IsNull_def rapidjson_model.type_null)
    ultimately show "\<exists>w t. new_value_from E J disabled_converter x s = (Ret w, t) \<and> values_ok t
        \<and> (\<exists>a. pimpl (the (wrappers t w)) = Some a \<and> is_null J (Some a) t = (Ret True, t))" by blast
  qed
qed

lemma failed_construction_leaks_witness:
  "\<exists>e t a. new_value_from (ex_sc True) plain_json disabled_converter (3 :: int) no_values = (Exc e, t)
     \<and> wrappers t = wrappers no_values \<and> pool no_values a = None \<and> pool t a \<noteq> None \<and> (\<forall>w. owned_by t w \<noteq> Some a)"
  using failed_construction_leaks [OF no_values_ok plain_json_model, of "ex_sc True" "3 :: int"]
  by (simp add: ex_sc_def)

section \<open>References\<close>

text \<open>
  Assignment copies. After \<open>v = that\<close> of two references to values that do not overlap, both hold
  the value of \<open>that\<close>, no other value has changed, and writing to one of them afterwards does not
  change the other.
\<close>

lemma assignment_copies:
  assumes J: "rapidjson_model J" and v: "node_at J s n = Some r" "writable (snd n)"
    and that: "node_at J s m = Some x" "writable (snd m)" "GetType J x \<noteq> kNullType"
    and apart: "\<not> overlap (Some n) (Some m)"
  shows "\<exists>t. ref_assign J (Some n) (Some m) s = (Ret (Some n), t)
    \<and> node_at J t n = Some x \<and> node_at J t m = Some x
    \<and> (\<forall>k. \<not> overlap (Some n) (Some k) \<longrightarrow> node_at J t k = node_at J s k)
    \<and> node_at J (write_node J n y t) m = Some x \<and> node_at J (write_node J m y t) n = Some x"
proof -
  note put = rapidjson_model.node_at_write [OF J] and frame = rapidjson_model.node_at_write_apart [OF J]
  let ?t = "write_node J n x s"
  have ne: "n \<noteq> m" using apart by (auto simp: overlap_def)
  have apart': "\<not> overlap (Some m) (Some n)" using apart by (auto simp: overlap_def apart_sym)
  have t: "node_at J ?t n = Some x" using v by (rule put)
  have m: "node_at J ?t m = Some x" using frame [OF v apart] that(1) by simp
  have "ref_assign J (Some n) (Some m) s = (Ret (Some n), ?t)"
    using ne apart that(3) by (simp add: ref_assign_def bindM_def is_null_Some [OF that(1)] IsNull_def copy_from_def
        the_node_Some [OF that(1)] set_node_Some [OF v(1)])
  moreover have "node_at J (write_node J n y ?t) m = Some x" using frame [OF t v(2) apart] m by simp
  moreover have "node_at J (write_node J m y ?t) n = Some x" using frame [OF m that(2) apart'] t by simp
  ultimately show ?thesis using t m frame [OF v] by blast
qed

lemma assignment_copies_witness:
  "\<exists>t. ref_assign plain_json (Some (0, [At 0])) (Some (0, [At 1])) (ex_value (JArray [JNull, JInt 7]))
      = (Ret (Some (0, [At 0])), t) \<and> node_at plain_json t (0, [At 0]) = Some (JInt 7)
    \<and> node_at plain_json (write_node plain_json (0, [At 1]) (JInt 8) t) (0, [At 0]) = Some (JInt 7)"
  using assignment_copies [OF plain_json_model, of "ex_value (JArray [JNull, JInt 7])" "(0, [At 0])" JNull
      "(0, [At 1])" "JInt 7" "JInt 8"]
  by (fastforce simp: ex_value_def node_at_def plain_json_def IsArray_def overlap_def)

text \<open>Whether a call returns a value.\<close>

definition returns :: "('r, 'a) vcomp \<Rightarrow> 'r value_state \<Rightarrow> bool" where
  "returns m s \<longleftrightarrow> (case fst (m s) of Ret x \<Rightarrow> True | _ \<Rightarrow> False)"

lemma returns_checked_get:
  assumes "node_at J s n = Some r"
  shows "returns (checked_get E J (query J f) c g (Some n)) s \<longleftrightarrow> f r"
  using assms
  by (auto simp: returns_def checked_get_def bindM_def query_Some the_node_Some value_assert_def
      cci_value_failure_def report_outcome split: outcome.splits prod.splits)

lemma returns_checked_ref:
  assumes "node_at J s n = Some r"
  shows "returns (bindM (query J f (Some n)) (\<lambda>b. thenM (value_assert E b m c) (retM v))) s \<longleftrightarrow> f r"
  using assms
  by (auto simp: returns_def bindM_def query_Some value_assert_def
      cci_value_failure_def report_outcome split: outcome.splits prod.splits)

lemma category_of_null: "category J None s = (Ret CCI_NULL_VALUE, s)"
  by (simp add: category_def)

text \<open>\<open>is_number\<close> as one query.\<close>

lemma is_number_query: "is_number J v = query J (\<lambda>r. IsInt64 J r \<or> IsUint64 J r \<or> IsDouble J r) v"
proof (cases v)
  case None
  then show ?thesis by (simp add: is_number_def is_defs fun_eq_iff)
next
  case (Some n)
  show ?thesis
    by (rule ext) (auto simp: Some is_number_def is_defs bindM_def the_node_def split: option.split)
qed

text \<open>
  C39. The category of a value agrees with the type queries, and a value is read exactly as what it
  is: \<open>get_bool\<close>, \<open>get_int\<close>, \<open>get_uint\<close>, \<open>get_int64\<close>, \<open>get_uint64\<close>, \<open>get_string\<close>, \<open>get_list\<close> and \<open>get_map\<close>
  return exactly if the query of the same name holds, and \<open>get_double\<close> exactly if \<open>is_number\<close> holds, so on
  integers too, where \<open>is_double\<close> does not hold. Otherwise they end in an exception or in the end of the
  process.
\<close>

theorem category_agrees:
  assumes "node_at J s n = Some r" and "\<And>r. IsDouble J r \<Longrightarrow> GetType J r = kNumberType"
  shows "\<exists>c. category J (Some n) s = (Ret c, s)
    \<and> is_null J (Some n) s = (Ret (c = CCI_NULL_VALUE), s) \<and> is_bool J (Some n) s = (Ret (c = CCI_BOOL_VALUE), s)
    \<and> is_string J (Some n) s = (Ret (c = CCI_STRING_VALUE), s) \<and> is_list J (Some n) s = (Ret (c = CCI_LIST_VALUE), s)
    \<and> is_map J (Some n) s = (Ret (c = CCI_OTHER_VALUE), s) \<and> is_double J (Some n) s = (Ret (c = CCI_REAL_VALUE), s)
    \<and> (returns (get_bool E J (Some n)) s \<longleftrightarrow> c = CCI_BOOL_VALUE)
    \<and> (returns (get_string E J (Some n)) s \<longleftrightarrow> c = CCI_STRING_VALUE)
    \<and> (returns (get_list E J (Some n)) s \<longleftrightarrow> c = CCI_LIST_VALUE)
    \<and> (returns (get_map E J (Some n)) s \<longleftrightarrow> c = CCI_OTHER_VALUE)
    \<and> is_int J (Some n) s = (Ret (IsInt J r), s) \<and> (returns (get_int E J (Some n)) s \<longleftrightarrow> IsInt J r)
    \<and> is_uint J (Some n) s = (Ret (IsUint J r), s) \<and> (returns (get_uint E J (Some n)) s \<longleftrightarrow> IsUint J r)
    \<and> is_int64 J (Some n) s = (Ret (IsInt64 J r), s) \<and> (returns (get_int64 E J (Some n)) s \<longleftrightarrow> IsInt64 J r)
    \<and> is_uint64 J (Some n) s = (Ret (IsUint64 J r), s) \<and> (returns (get_uint64 E J (Some n)) s \<longleftrightarrow> IsUint64 J r)
    \<and> is_number J (Some n) s = (Ret (IsInt64 J r \<or> IsUint64 J r \<or> IsDouble J r), s)
    \<and> (returns (get_double E J (Some n)) s \<longleftrightarrow> IsInt64 J r \<or> IsUint64 J r \<or> IsDouble J r)"
proof -
  have "is_number J (Some n) s = (Ret (IsInt64 J r \<or> IsUint64 J r \<or> IsDouble J r), s)"
    unfolding is_number_query by (rule query_Some [OF assms(1)])
  moreover have "returns (get_bool E J (Some n)) s \<longleftrightarrow> IsBool J r" "returns (get_int E J (Some n)) s \<longleftrightarrow> IsInt J r"
    "returns (get_uint E J (Some n)) s \<longleftrightarrow> IsUint J r" "returns (get_int64 E J (Some n)) s \<longleftrightarrow> IsInt64 J r"
    "returns (get_uint64 E J (Some n)) s \<longleftrightarrow> IsUint64 J r"
    "returns (get_double E J (Some n)) s \<longleftrightarrow> IsInt64 J r \<or> IsUint64 J r \<or> IsDouble J r"
    unfolding get_bool_def get_int_def get_uint_def get_int64_def get_uint64_def get_double_def
      is_bool_def is_int_def is_uint_def is_int64_def is_uint64_def is_number_query checked_get_def
    by (fold checked_get_def) (rule returns_checked_get [OF assms(1)])+
  moreover have "returns (get_string E J (Some n)) s \<longleftrightarrow> IsString J r"
    "returns (get_list E J (Some n)) s \<longleftrightarrow> IsArray J r" "returns (get_map E J (Some n)) s \<longleftrightarrow> IsObject J r"
    unfolding get_string_def get_list_def get_map_def is_string_def is_list_def is_map_def
    by (rule returns_checked_ref [OF assms(1)])+
  moreover have "is_int J (Some n) s = (Ret (IsInt J r), s)" "is_uint J (Some n) s = (Ret (IsUint J r), s)"
    "is_int64 J (Some n) s = (Ret (IsInt64 J r), s)" "is_uint64 J (Some n) s = (Ret (IsUint64 J r), s)"
    unfolding is_int_def is_uint_def is_int64_def is_uint64_def by (rule query_Some [OF assms(1)])+
  moreover have "\<exists>c. category J (Some n) s = (Ret c, s)
    \<and> is_null J (Some n) s = (Ret (c = CCI_NULL_VALUE), s) \<and> is_bool J (Some n) s = (Ret (c = CCI_BOOL_VALUE), s)
    \<and> is_string J (Some n) s = (Ret (c = CCI_STRING_VALUE), s) \<and> is_list J (Some n) s = (Ret (c = CCI_LIST_VALUE), s)
    \<and> is_map J (Some n) s = (Ret (c = CCI_OTHER_VALUE), s) \<and> is_double J (Some n) s = (Ret (c = CCI_REAL_VALUE), s)
    \<and> (IsBool J r \<longleftrightarrow> c = CCI_BOOL_VALUE) \<and> (IsString J r \<longleftrightarrow> c = CCI_STRING_VALUE)
    \<and> (IsArray J r \<longleftrightarrow> c = CCI_LIST_VALUE) \<and> (IsObject J r \<longleftrightarrow> c = CCI_OTHER_VALUE)"
    using assms(2) [of r]
    by (cases "GetType J r") (auto simp: category_def is_null_def is_defs bindM_def the_node_Some [OF assms(1)]
        json_queries)
  ultimately show ?thesis by auto
qed

theorem category_agrees_witness:
  "\<exists>c. category plain_json (Some (0, [])) (ex_value (JDouble 3)) = (Ret c, ex_value (JDouble 3))
    \<and> is_double plain_json (Some (0, [])) (ex_value (JDouble 3)) = (Ret (c = CCI_REAL_VALUE), ex_value (JDouble 3))
    \<and> (returns (get_bool (ex_sc True) plain_json (Some (0, []))) (ex_value (JDouble 3)) \<longleftrightarrow> c = CCI_BOOL_VALUE)"
  using category_agrees [OF ex_value_root, of plain_json "JDouble 3" "ex_sc True"] plain.number_type by blast

section \<open>Lists\<close>

text \<open>
  C36. Bounds of a list access. \<open>at\<close> with an index below the size refers to the element; with any
  other index it makes one report, does not return and does not touch the list. \<open>operator[]\<close> casts
  the index to 32 bits without a check: an index of \<open>2 ^ 32\<close> or more can silently refer to another
  element.
\<close>

theorem list_access_bounds:
  assumes J: "rapidjson_model J" and n: "node_at J s n = Some (json_array J xs)" and len: "length xs < 2 ^ 32"
  shows "(i < length xs \<longrightarrow> vlist_at E J (Some n) i s = (Ret (child (Some n) (At i)), s)
      \<and> the_node J (child (Some n) (At i)) s = (Ret (xs ! i), s))
    \<and> (length xs \<le> i \<longrightarrow> \<not> returns (vlist_at E J (Some n) i) s
      \<and> (\<exists>r. snd (vlist_at E J (Some n) i s) = s\<lparr>reports := reports s @ [r]\<rparr>))
    \<and> (i mod 2 ^ 32 < length xs \<longrightarrow> vlist_index J (Some n) i s = (Ret (child (Some n) (At (i mod 2 ^ 32))), s))"
proof (intro conjI impI)
  have els: "elements_of J (Some n) s = (Ret xs, s)"
    using elements_of_Some [OF n] J by (simp add: rapidjson_model.elements rapidjson_model.is_array)
  then have size: "vlist_size J (Some n) s = (Ret (length xs), s)"
    by (simp add: vlist_size_def bindM_def)
  show "vlist_index J (Some n) i s = (Ret (child (Some n) (At (i mod 2 ^ 32))), s)" if "i mod 2 ^ 32 < length xs"
    using that by (simp add: vlist_index_def bindM_def els size_cast_def)
  assume i: "i < length xs"
  then show "vlist_at E J (Some n) i s = (Ret (child (Some n) (At i)), s)"
    using len by (simp add: vlist_at_def vlist_index_def bindM_def size els size_cast_def)
  show "the_node J (child (Some n) (At i)) s = (Ret (xs ! i), s)"
    using rapidjson_model.node_at_element [OF J n, of i] i J
    by (simp add: the_node_Some rapidjson_model.elements rapidjson_model.is_array)
next
  assume i: "length xs \<le> i"
  have els: "elements_of J (Some n) s = (Ret xs, s)"
    using elements_of_Some [OF n] J by (simp add: rapidjson_model.elements rapidjson_model.is_array)
  note simps = vlist_at_def vlist_size_def bindM_def els value_assert_def cci_value_failure_def report_def Let_def
  show "\<not> returns (vlist_at E J (Some n) i) s"
    using i by (simp add: returns_def simps)
  show "\<exists>r. snd (vlist_at E J (Some n) i s) = s\<lparr>reports := reports s @ [r]\<rparr>"
    using i by (auto simp: simps)
qed

theorem list_access_bounds_witness:
  "\<not> returns (vlist_at (ex_sc False) plain_json (Some (0, [])) (2 ^ 32 + 1)) (ex_value (JArray [JInt 4, JInt 5]))
   \<and> vlist_index plain_json (Some (0, [])) (2 ^ 32 + 1) (ex_value (JArray [JInt 4, JInt 5]))
     = (Ret (Some (0, [At 1])), ex_value (JArray [JInt 4, JInt 5]))"
  using list_access_bounds [OF plain_json_model, of "ex_value (JArray [JInt 4, JInt 5])" "(0, [])" "[JInt 4, JInt 5]"
      "2 ^ 32 + 1" "ex_sc False"]
  by (simp add: plain_json_def)

text \<open>
  Inserting into a list. The elements before the position stay in front, those from the position
  on move behind the inserted ones, and the result is an iterator to the first inserted element.
  What is inserted are copies of the value, unless the value is an element of the same list before
  the position: the elements before the position have been moved out when the copies are made, and
  null is inserted.
\<close>

lemma list_insert_copies:
  assumes J: "rapidjson_model J" and r: "node_at J s n = Some (json_array J xs)" and n: "writable (snd n)"
    and pos: "it_pos pos = int k" "k \<le> length xs" "length xs < 2 ^ 64" and c: "count \<noteq> 0"
  shows "(node_at J s m = Some x \<and> \<not> overlap (Some n) (Some m) \<longrightarrow>
      vlist_insert_count E J pos count (Some m) (Some n) s
        = (Ret \<lparr>it_range = n, it_pos = int k\<rparr>,
           write_node J n (json_array J (take k xs @ replicate count x @ drop k xs)) s))
    \<and> (i < length xs \<longrightarrow>
      vlist_insert_count E J pos count (child (Some n) (At i)) (Some n) s
        = (Ret \<lparr>it_range = n, it_pos = int k\<rparr>,
           write_node J n (json_array J (take k xs @ replicate count (if i < k then json_null J else xs ! i) @ drop k xs)) s))"
proof (intro conjI impI)
  let ?s = "write_node J n (json_array J (replicate k (json_null J) @ drop k xs)) s"
  note eq = rapidjson_model.vlist_insert_count_eq [OF J r n pos c]
  assume m: "node_at J s m = Some x \<and> \<not> overlap (Some n) (Some m)"
  have "\<not> apart p q" if "take (length p) q = p" for p q :: "node_step list"
    using that by (induction p q rule: apart.induct) auto
  with m have "\<not> below_prefix (Some n) k (Some m)"
    by (auto simp: below_prefix_def overlap_def)
  moreover have "fresh_copy J (Some m) ?s = (Ret x, ?s)"
    using rapidjson_model.node_at_write_apart [OF J r n, of m] m
    by (simp add: fresh_copy_def the_node_Some)
  ultimately show "vlist_insert_count E J pos count (Some m) (Some n) s = (Ret \<lparr>it_range = n, it_pos = int k\<rparr>,
      write_node J n (json_array J (take k xs @ replicate count x @ drop k xs)) s)"
    by (rule eq)
next
  let ?s = "write_node J n (json_array J (replicate k (json_null J) @ drop k xs)) s"
  note eq = rapidjson_model.vlist_insert_count_eq [OF J r n pos c]
  assume i: "i < length xs"
  have "\<not> below_prefix (Some n) k (child (Some n) (At i))"
    by (simp add: below_prefix_def)
  moreover have "fresh_copy J (child (Some n) (At i)) ?s = (Ret (if i < k then json_null J else xs ! i), ?s)"
    using rapidjson_model.node_at_array [OF J r n, of "replicate k (json_null J) @ drop k xs" i] i pos(2)
    by (auto simp: fresh_copy_def the_node_Some nth_append)
  ultimately show "vlist_insert_count E J pos count (child (Some n) (At i)) (Some n) s
      = (Ret \<lparr>it_range = n, it_pos = int k\<rparr>, write_node J n
          (json_array J (take k xs @ replicate count (if i < k then json_null J else xs ! i) @ drop k xs)) s)"
    by (rule eq)
qed

lemma list_insert_copies_witness:
  "vlist_insert_count (ex_sc True) plain_json \<lparr>it_range = (0, []), it_pos = 1\<rparr> 1 (Some (0, [At 0])) (Some (0, []))
      (ex_value (JArray [JInt 4, JInt 5]))
     = (Ret \<lparr>it_range = (0, []), it_pos = 1\<rparr>, ex_value (JArray [JInt 4, JNull, JInt 5]))"
  using list_insert_copies [OF plain_json_model, of "ex_value (JArray [JInt 4, JInt 5])" "(0, [])" "[JInt 4, JInt 5]"
      "\<lparr>it_range = (0, []), it_pos = 1\<rparr>" 1 1 "(0, [])" JNull "ex_sc True" 0]
  by (simp add: plain_json_def write_node_def ex_value_def node_at_def)

section \<open>Maps\<close>

text \<open>The map that a value with members stands for: the first member of a name counts.\<close>

definition vmap_abs :: "('r, 'd) rapidjson \<Rightarrow> 'r value_state \<Rightarrow> node \<Rightarrow> string \<Rightarrow> 'r option" where
  "vmap_abs J s n k = (case node_at J s n of None \<Rightarrow> None | Some r \<Rightarrow> map_of (Members J r) k)"

lemma map_of_filter_name: "map_of (filter (\<lambda>m. fst m \<noteq> k) ms) = (map_of ms)(k := None)"
  by (induction ms) auto

lemma map_of_snoc:
  "map_of (ms @ [(k, y)]) = (if map_of ms k = None then (map_of ms)(k \<mapsto> y) else map_of ms)"
  by (auto simp: fun_eq_iff map_add_def split: option.split)

text \<open>
  C18. A value map refines a partial function from names to values, although a name can occur in it
  more than once: \<open>has_entry\<close> is its domain, \<open>operator[]\<close> adds a null for a name that is not there
  and refers to the value of the name, \<open>push_entry\<close> adds a name that is not there and changes no
  name that is, and \<open>erase\<close> removes a name with all its members and says whether there were any.
\<close>

theorem value_map_refines_map:
  assumes J: "rapidjson_model J" and r: "node_at J s n = Some (json_object J ms)" and n: "writable (snd n)"
    and x: "fresh_copy J v s = (Ret x, s)"
    and f_def: "f = vmap_abs J s n" and k_def: "k = key_string key"
  shows "has_entry E J key (Some n) s = (Ret (f k \<noteq> None), s)
    \<and> (\<exists>p t. vmap_index E J key (Some n) s = (Ret (Some p), t)
        \<and> vmap_abs J t n = (if f k = None then f(k \<mapsto> json_null J) else f) \<and> node_at J t p = vmap_abs J t n k)
    \<and> (\<exists>t. push_entry J key v (Some n) s = (Ret (Some n), t) \<and> vmap_abs J t n = (if f k = None then f(k \<mapsto> x) else f))
    \<and> (\<exists>c t. vmap_erase_key J key (Some n) s = (Ret c, t) \<and> vmap_abs J t n = f(k := None)
        \<and> (0 < c \<longleftrightarrow> f k \<noteq> None))"
proof -
  note members = rapidjson_model.members [OF J]
  have f: "f = map_of ms" by (rule ext) (simp add: f_def vmap_abs_def r members)
  have abs_s: "vmap_abs J s n = map_of ms" using f f_def by simp
  have abs: "vmap_abs J (write_node J n (json_object J ns) s) n = map_of ns" for ns
    by (rule ext) (simp add: vmap_abs_def rapidjson_model.node_at_write [OF J r n] members)
  have at: "node_at J t (fst n, snd n @ [Value_of (find_member k ns)]) = map_of ns k"
    if "node_at J t n = Some (json_object J ns)" and "k \<in> fst ` set ns" for t ns
    using rapidjson_model.node_at_member [OF J that(1)] find_member_value [of k ns] find_member_le [of k ns]
      find_member_absent [of k ns] that(2) by simp
  note lookup = rapidjson_model.do_lookup_eq [OF J r n]
  have none: "f k = None \<longleftrightarrow> k \<notin> fst ` set ms" by (simp add: f map_of_eq_None_iff)
  have 1: "has_entry E J key (Some n) s = (Ret (f k \<noteq> None), s)"
    using lookup [of E k KEY_OPTIONAL] by (simp add: has_entry_def bindM_def none flip: k_def)
  have 2: "\<exists>p t. vmap_index E J key (Some n) s = (Ret (Some p), t)
      \<and> vmap_abs J t n = (if f k = None then f(k \<mapsto> json_null J) else f) \<and> node_at J t p = vmap_abs J t n k"
  proof (cases "k \<in> fst ` set ms")
    case True
    then show ?thesis
      using lookup [of E k KEY_CREATE] at [OF r] none by (simp add: vmap_index_def f abs_s flip: k_def) (simp add: map_of_eq_None_iff)
  next
    case False
    have "find_member k (ms @ [(k, json_null J)]) = length ms" using False by (simp add: find_member_append)
    with False show ?thesis
      using lookup [of E k KEY_CREATE] none
        at [OF rapidjson_model.node_at_write [OF J r n, of "json_object J (ms @ [(k, json_null J)])"]]
      by (simp add: vmap_index_def abs f map_of_snoc map_of_eq_None_iff flip: k_def del: map_of_append)
  qed
  have 3: "\<exists>t. push_entry J key v (Some n) s = (Ret (Some n), t) \<and> vmap_abs J t n = (if f k = None then f(k \<mapsto> x) else f)"
    using rapidjson_model.do_push_eq [OF J r x, of k]
    by (simp add: push_entry_def abs f map_of_snoc flip: k_def del: map_of_append)
  have 4: "\<exists>c t. vmap_erase_key J key (Some n) s = (Ret c, t) \<and> vmap_abs J t n = f(k := None) \<and> (0 < c \<longleftrightarrow> f k \<noteq> None)"
    using rapidjson_model.do_erase_eq [OF J r, of k] none
    by (auto simp: vmap_erase_key_def abs map_of_filter_name f filter_empty_conv simp flip: k_def)
  from 1 2 3 4 show ?thesis by blast
qed

theorem value_map_refines_map_witness:
  "\<exists>c t. vmap_erase_key plain_json (Key_chars ''a'') (Some (0, []))
      (ex_value (JObject [(''a'', JInt 1), (''b'', JInt 2), (''a'', JInt 3)])) = (Ret c, t)
    \<and> vmap_abs plain_json t (0, []) ''b'' = Some (JInt 2) \<and> vmap_abs plain_json t (0, []) ''a'' = None \<and> 0 < c"
  using value_map_refines_map [OF plain_json_model, of "ex_value (JObject [(''a'', JInt 1), (''b'', JInt 2), (''a'', JInt 3)])"
      "(0, [])" "[(''a'', JInt 1), (''b'', JInt 2), (''a'', JInt 3)]" None JNull _ "''a''" "Key_chars ''a''" "ex_sc True"]
  by (auto simp: plain_json_def fresh_copy_def c_str_def vmap_abs_def [of _ "ex_value _"])

text \<open>
  The key of a converted entry is cut. \<open>push_entry( std::string, T )\<close> for a type with a converter
  enters the value under the characters of the key before its first NUL, not under the key:
  \<open>do_push\<close> drops the length and calls the overload for C strings.
\<close>

lemma converted_entry_key_cut:
  assumes C: "lawful_converter J C enc ty repr" and ok: "values_ok s"
    and n: "node_at J s n = Some (json_object J ms)" "writable (snd n)" and x: "repr x"
  shows "\<exists>t. push_entry_conv E J C (Key_std k) x (Some n) s = (Ret (Some n), t) \<and> values_ok t
    \<and> node_at J t n = Some (json_object J (ms @ [(c_str k, enc x)]))"
proof -
  have J: "rapidjson_model J" using C by (simp add: lawful_converter_def)
  obtain a w t where t: "new_value_from E J C x s = (Ret w, t)" "temporary Kind_value a (enc x) w s t"
    using lawful_converter.new_value_from_temporary [OF C ok x] by blast
  let ?u = "write_node J (a, []) (json_null J) t"
  have u: "temporary Kind_value a (json_null J) w s ?u"
    using t(2) same_store_refl values_ok_write [OF temporary_root(3) [OF t(2)]] by (rule temporary_write)
  have n': "node_at J ?u n = Some (json_object J ms)" using temporary_other [OF u n(1)] by blast
  let ?x = "json_object J (ms @ [(c_str k, enc x)])"
  have v: "temporary Kind_value a (json_null J) w (write_node J n ?x s) (write_node J n ?x ?u)"
    using u n(1) by (rule temporary_write_other)
  have cc: "c_str (c_str k) = c_str k" by (simp add: c_str_def takeWhile_idem)
  have "push_entry_move J (Key_chars k) (Some (a, [])) (Some n) t = (Ret (Some n), write_node J n ?x ?u)"
    by (simp add: push_entry_move_def do_push_move_def fresh_move_def bindM_def
        take_node_Some [OF temporary_root(1) [OF t(2)]] rapidjson_model.members_of_object [OF J n'] set_node_Some [OF n'])
  then have "push_entry_conv E J C (Key_std k) x (Some n) s = (Ret (Some n), delete_wrapper w (write_node J n ?x ?u))"
    by (simp add: push_entry_conv_def do_push_conv_def with_value_def bindM_def t(1) temporary_root(2) [OF t(2)] guardM_def)
  moreover have "node_at J (delete_wrapper w (write_node J n ?x ?u)) n = Some ?x"
    using node_at_same [OF temporary_delete(1) [OF v], of J n] rapidjson_model.node_at_write [OF J n] by simp
  ultimately show ?thesis using temporary_delete(2) [OF v] by blast
qed

lemma converted_entry_key_cut_witness:
  "\<exists>t. push_entry_conv (ex_sc True) plain_json (bool_converter (ex_sc True) plain_json) (Key_std [CHR ''a'', CHR 0x00, CHR ''b''])
      True (Some (0, [])) (ex_value (JObject [])) = (Ret (Some (0, [])), t)
    \<and> values_ok t \<and> node_at plain_json t (0, []) = Some (JObject [(''a'', JBool True)])"
  using converted_entry_key_cut [OF plain.bool_lawful [where E = "ex_sc True"] ex_value_ok, where E = "ex_sc True" and n = "(0, [])" and ms = "[]"
      and k = "[CHR ''a'', CHR 0x00, CHR ''b'']" and x = True]
  by (simp add: c_str_def plain_json_def [THEN arg_cong [where f = json_object]]
      plain_json_def [THEN arg_cong [where f = json_bool]])

section \<open>Conversions\<close>

text \<open>
  C15. Nothing is lost in a sequence. Packing a \<open>std::vector\<close> of a type whose converter is lawful - a
  builtin type, a narrower integer, a logic value, a string, or again such a vector or array - and
  unpacking it gives the vector back; the value becomes a list of the packed elements, no other
  value, object or report changes, and the temporaries of the packing are released.
\<close>

theorem vector_roundtrip:
  assumes C: "lawful_converter J C enc ty repr" and ok: "values_ok s"
    and n: "node_at J s n = Some r" "writable (snd n)" and xs: "\<forall>x \<in> set xs. repr x" "length xs < 2 ^ 32" and cur: "ty cur"
  shows "\<exists>t. conv_pack (vector_converter E J cur C) (Some n) xs s = (Ret True, t) \<and> values_ok t
    \<and> same_store t (write_node J n (json_array J (map enc xs)) s)
    \<and> conv_unpack (vector_converter E J cur C) ys (Some n) t = (Ret (True, xs), t)"
  using lawful_converter.pack_unpack [OF lawful_converter.vector_lawful [OF C cur] ok n] xs by blast

theorem vector_roundtrip_witness:
  "\<exists>t. conv_pack (vector_converter (ex_sc True) plain_json [] (vector_converter (ex_sc True) plain_json 0
        (short_converter (ex_sc True) plain_json))) (Some (0, [])) [[-7, 5], []] (ex_value JNull) = (Ret True, t)
    \<and> values_ok t
    \<and> conv_unpack (vector_converter (ex_sc True) plain_json [] (vector_converter (ex_sc True) plain_json 0
        (short_converter (ex_sc True) plain_json))) [[1]] (Some (0, [])) t = (Ret (True, [[-7, 5], []]), t)"
  using vector_roundtrip [OF lawful_converter.vector_lawful [OF plain.short_lawful [where E = "ex_sc True"], where cur = 0 and E = "ex_sc True"]
      ex_value_ok ex_value_root, where E = "ex_sc True" and r = JNull and xs = "[[-7, 5], []]" and cur = "[]" and ys = "[[1]]"]
  by auto

section \<open>Filtered ranges\<close>

text \<open>
  C24. A filtered range has exactly the elements of its container that satisfy the predicate: the loop
  from \<open>begin()\<close> to \<open>end()\<close> and the loop over the reverse iterators meet each of them once, in
  order and in the opposite order. An iterator from \<open>end()\<close>, though, does not know its range: neither
  \<open>++\<close> nor \<open>--\<close> moves it.
\<close>

theorem filtered_range_exact:
  assumes "length xs < k"
  shows "forward_from k (new_range pr xs) (range_begin (new_range pr xs)) = filter pr xs
    \<and> backward_from k (new_range pr xs) (range_rbegin (new_range pr xs)) = rev (filter pr xs)
    \<and> increment (new_range pr xs) (range_end (new_range pr xs)) = range_end (new_range pr xs)
    \<and> decrement (new_range pr xs) (range_end (new_range pr xs)) = range_end (new_range pr xs)"
proof (intro conjI)
  let ?r = "new_range pr xs"
  have "range_begin ?r = \<lparr>m_current = skip_forward pr xs 0, m_fr = True\<rparr>"
    using new_range_begin(3,4) [of pr xs] by (simp add: range_begin_def)
  then show "forward_from k ?r (range_begin ?r) = filter pr xs"
    using forward_from_eq [OF new_range_begin(2,1), of xs k 0 pr] assms by (simp add: new_range_begin)
  show "backward_from k ?r (range_rbegin ?r) = rev (filter pr xs)"
    using backward_from_eq [OF refl refl, of "length xs" k pr xs] skip_forward_le [of 0 xs pr] assms
    by (simp add: range_rbegin_def new_range_begin)
qed (simp_all add: increment_def decrement_def range_end_def)

theorem filtered_range_exact_witness:
  "forward_from 5 (new_range (\<lambda>x. 2 < x) [5, 1, 3, 2 :: nat]) (range_begin (new_range (\<lambda>x. 2 < x) [5, 1, 3, 2 :: nat])) = [5, 3]"
  using filtered_range_exact [of "[5, 1, 3, 2 :: nat]" 5 "\<lambda>x. 2 < x"] by simp

end
