(* ===== verification/Callback_Objects.thy ===== *)
theory Callback_Objects
  imports Param_Typed "HOL-Library.Word"
begin

text \<open>
  The objects behind callbacks (src/src/cci/core/cci_callback.h and cci_callback_impl.h): a
  \<open>cci_callback\<close> owns an object with its functor, handles share it by a reference count, and an
  adapter wraps an object that takes a generic event so that it can be called with a typed one.
\<close>

section \<open>Objects, callbacks and handles\<close>

text \<open>
  A \<open>callback_impl\<close> with its functor, or a \<open>callback_generic_adapt\<close> with the object it adapts.
  \<open>cc_sig\<close> stands for the traits by which \<open>dynamic_cast\<close> finds out the type. A destroyed object
  stays in \<open>cells\<close> as \<open>None\<close>, so that no address is used twice.
\<close>

type_synonym cb_addr = nat
type_synonym functor_id = nat

datatype cb_content = Callback_impl functor_id | Callback_generic_adapt cb_addr

record cb_cell =
  cc_sig :: cb_sig
  cc_content :: cb_content
  m_refcnt :: "32 word"

text \<open>
  The objects of the program that point to them: a \<open>cci_callback\<close> of a signature, an untyped
  handle (\<open>slot_sig\<close> is \<open>None\<close>) or a typed one.
\<close>

type_synonym slot_id = nat

record cb_slot =
  slot_is_callback :: bool
  slot_sig :: "cb_sig option"
  m_cb :: "cb_addr option"

record cb_state =
  cells :: "cb_cell option list"
  slots :: "cb_slot option list"

text \<open>
  What must not happen: an access to an object that has been destroyed, a call through a pointer
  of the wrong type, an access through NULL. These are the exceptions of this model.
\<close>

datatype cb_fault = Dangling_access | Bad_cast | Null_access

type_synonym 'a cb_comp = "(cb_state, cb_fault, 'a) comp"

definition cell_at :: "cb_state \<Rightarrow> cb_addr \<Rightarrow> cb_cell option" where
  "cell_at s a = (if a < length (cells s) then cells s ! a else None)"

definition put_cell :: "cb_addr \<Rightarrow> cb_cell option \<Rightarrow> cb_state \<Rightarrow> cb_state" where
  "put_cell a c s = s\<lparr>cells := (cells s)[a := c]\<rparr>"

definition the_cell :: "cb_addr \<Rightarrow> cb_cell cb_comp" where
  "the_cell a s = (case cell_at s a of None \<Rightarrow> (Exc Dangling_access, s) | Some c \<Rightarrow> (Ret c, s))"

section \<open>The objects\<close>

definition new_cell :: "cb_sig \<Rightarrow> cb_content \<Rightarrow> cb_addr cb_comp" where
  "new_cell sg x s =
     (Ret (length (cells s)), s\<lparr>cells := cells s @ [Some \<lparr>cc_sig = sg, cc_content = x, m_refcnt = 1\<rparr>]\<rparr>)"

definition acquire :: "cb_addr \<Rightarrow> unit cb_comp" where
  "acquire a = bindM (the_cell a) (\<lambda>c. modM (put_cell a (Some (c\<lparr>m_refcnt := m_refcnt c + 1\<rparr>))))"

text \<open>\<open>release\<close> destroys the object with its last reference; an adapter then releases its own.\<close>

definition live_cells :: "cb_state \<Rightarrow> nat" where
  "live_cells s = length (filter (\<lambda>c. c \<noteq> None) (cells s))"

lemma live_cells_decrease:
  assumes "cell_at s a = Some c"
  shows "live_cells (put_cell a None s) < live_cells s"
proof -
  have a: "a < length (cells s)" and c: "cells s ! a = Some c"
    using assms by (simp_all add: cell_at_def split: if_splits)
  then have "cells s = take a (cells s) @ Some c # drop (Suc a) (cells s)"
    by (metis id_take_nth_drop)
  then have "live_cells s = live_cells (s\<lparr>cells := take a (cells s) @ Some c # drop (Suc a) (cells s)\<rparr>)"
    by (simp add: live_cells_def)
  also have "\<dots> > live_cells (s\<lparr>cells := take a (cells s) @ None # drop (Suc a) (cells s)\<rparr>)"
    by (simp add: live_cells_def)
  finally show ?thesis
    using a by (simp add: put_cell_def upd_conv_take_nth_drop)
qed

function release :: "cb_addr \<Rightarrow> unit cb_comp" where
  "release a s =
     (case cell_at s a of
        None \<Rightarrow> (Exc Dangling_access, s)
      | Some c \<Rightarrow>
          if m_refcnt c - 1 = 0 then
            (case cc_content c of
               Callback_impl f \<Rightarrow> (Ret (), put_cell a None s)
             | Callback_generic_adapt f \<Rightarrow> release f (put_cell a None s))
          else (Ret (), put_cell a (Some (c\<lparr>m_refcnt := m_refcnt c - 1\<rparr>)) s))"
  by pat_completeness auto

termination
  by (relation "measure (\<lambda>(a, s). live_cells s)") (auto intro: live_cells_decrease)

text \<open>The constructor of an adapter.\<close>

definition new_adapter :: "cb_sig \<Rightarrow> cb_addr option \<Rightarrow> cb_addr cb_comp" where
  "new_adapter sg f =
     (case f of
        None \<Rightarrow> throwM Null_access
      | Some g \<Rightarrow> bindM (new_cell sg (Callback_generic_adapt g)) (\<lambda>a. thenM (acquire g) (retM a)))"

text \<open>
  An adapter is created after the object that it adapts, so that what follows its pointer, here
  \<open>clone\<close>, \<open>get\<close> and \<open>invoke\<close>, ends.
\<close>

function clone :: "cb_addr \<Rightarrow> cb_addr cb_comp" where
  "clone a s =
     (case cell_at s a of
        None \<Rightarrow> (Exc Dangling_access, s)
      | Some c \<Rightarrow>
          (case cc_content c of
             Callback_impl f \<Rightarrow> new_cell (cc_sig c) (Callback_impl f) s
           | Callback_generic_adapt g \<Rightarrow>
               if g < a then
                 (case clone g s of
                    (Ret b, t) \<Rightarrow> new_adapter (cc_sig c) (Some b) t
                  | (r, t) \<Rightarrow> (r, t))
               else (Abort, s)))"
  by pat_completeness auto

termination
  by (relation "measure fst") auto

function get_object :: "cb_addr \<Rightarrow> cb_state \<Rightarrow> cb_addr" where
  "get_object a s =
     (case cell_at s a of
        None \<Rightarrow> a
      | Some c \<Rightarrow>
          (case cc_content c of
             Callback_impl f \<Rightarrow> a
           | Callback_generic_adapt g \<Rightarrow> if g < a then get_object g s else a))"
  by pat_completeness auto

termination
  by (relation "measure fst") auto

text \<open>\<open>invoke\<close>: which functor runs, and the signature of the event that it is given.\<close>

function invoke_object :: "cb_addr \<Rightarrow> (functor_id \<times> cb_sig) cb_comp" where
  "invoke_object a s =
     (case cell_at s a of
        None \<Rightarrow> (Exc Dangling_access, s)
      | Some c \<Rightarrow>
          (case cc_content c of
             Callback_impl f \<Rightarrow> (Ret (f, cc_sig c), s)
           | Callback_generic_adapt g \<Rightarrow> if g < a then invoke_object g s else (Abort, s)))"
  by pat_completeness auto

termination
  by (relation "measure fst") auto

declare release.simps [simp del] clone.simps [simp del] get_object.simps [simp del] invoke_object.simps [simp del]

section \<open>The variables of the program\<close>

definition slot_at :: "cb_state \<Rightarrow> slot_id \<Rightarrow> cb_slot option" where
  "slot_at s i = (if i < length (slots s) then slots s ! i else None)"

text \<open>A variable that does not exist, or not of this class, is no call that compiles.\<close>

definition the_slot :: "slot_id \<Rightarrow> cb_slot cb_comp" where
  "the_slot i s = (case slot_at s i of None \<Rightarrow> (Abort, s) | Some x \<Rightarrow> (Ret x, s))"

definition the_callback :: "slot_id \<Rightarrow> cb_slot cb_comp" where
  "the_callback i = bindM (the_slot i) (\<lambda>x. thenM (assertM (slot_is_callback x)) (retM x))"

definition the_cb_handle :: "slot_id \<Rightarrow> cb_slot cb_comp" where
  "the_cb_handle i = bindM (the_slot i) (\<lambda>x. thenM (assertM (\<not> slot_is_callback x)) (retM x))"

definition put_slot :: "slot_id \<Rightarrow> cb_slot option \<Rightarrow> cb_state \<Rightarrow> cb_state" where
  "put_slot i x s = s\<lparr>slots := (slots s)[i := x]\<rparr>"

definition set_m_cb :: "slot_id \<Rightarrow> cb_addr option \<Rightarrow> unit cb_comp" where
  "set_m_cb i p = bindM (the_slot i) (\<lambda>x. modM (put_slot i (Some (x\<lparr>m_cb := p\<rparr>))))"

definition new_slot :: "bool \<Rightarrow> cb_sig option \<Rightarrow> cb_addr option \<Rightarrow> slot_id cb_comp" where
  "new_slot cb sg p s =
     (Ret (length (slots s)), s\<lparr>slots := slots s @ [Some \<lparr>slot_is_callback = cb, slot_sig = sg, m_cb = p\<rparr>]\<rparr>)"

definition acquire_opt :: "cb_addr option \<Rightarrow> unit cb_comp" where
  "acquire_opt p = (case p of None \<Rightarrow> skipM | Some a \<Rightarrow> acquire a)"

definition release_opt :: "cb_addr option \<Rightarrow> unit cb_comp" where
  "release_opt p = (case p of None \<Rightarrow> skipM | Some a \<Rightarrow> release a)"

definition swap_slots :: "slot_id \<Rightarrow> slot_id \<Rightarrow> unit cb_comp" where
  "swap_slots i j =
     bindM (the_slot i) (\<lambda>x. bindM (the_slot j) (\<lambda>y.
       thenM (set_m_cb i (m_cb y)) (set_m_cb j (m_cb x))))"

text \<open>The destructors of \<open>cci_callback\<close> and of the handles.\<close>

definition delete_slot :: "slot_id \<Rightarrow> unit cb_comp" where
  "delete_slot i =
     bindM (the_slot i) (\<lambda>x. thenM (release_opt (m_cb x)) (modM (put_slot i None)))"

section \<open>\<open>cci_callback\<close>\<close>

definition new_callback_of :: "cb_sig \<Rightarrow> functor_id \<Rightarrow> slot_id cb_comp" where
  "new_callback_of sg c = bindM (new_cell sg (Callback_impl c)) (\<lambda>a. new_slot True (Some sg) (Some a))"

definition clone_opt :: "cb_addr option \<Rightarrow> cb_addr option cb_comp" where
  "clone_opt p = (case p of None \<Rightarrow> retM None | Some a \<Rightarrow> bindM (clone a) (\<lambda>b. retM (Some b)))"

definition copy_callback :: "slot_id \<Rightarrow> slot_id cb_comp" where
  "copy_callback i =
     bindM (the_callback i) (\<lambda>x.
       bindM (clone_opt (m_cb x)) (\<lambda>p. new_slot True (slot_sig x) p))"

definition move_callback :: "slot_id \<Rightarrow> slot_id cb_comp" where
  "move_callback i =
     bindM (the_callback i) (\<lambda>x.
       bindM (new_slot True (slot_sig x) (m_cb x)) (\<lambda>j. thenM (set_m_cb i None) (retM j)))"

text \<open>
  The construction from a generalised callback. \<open>cci_callback<T>\<close> there has the result \<open>void\<close>, so
  that the callbacks before a write, which return \<open>bool\<close>, have none.
\<close>

fun generic_of :: "cb_sig \<Rightarrow> cb_sig option" where
  "generic_of (Sig_pre_write (Some T)) = Some (Sig_pre_write None)"
| "generic_of (Sig_post_write (Some T)) = Some (Sig_post_write None)"
| "generic_of (Sig_read (Some T)) = Some (Sig_read None)"
| "generic_of _ = None"

fun returns_void :: "cb_sig \<Rightarrow> bool" where
  "returns_void (Sig_pre_write T) \<longleftrightarrow> False"
| "returns_void _ \<longleftrightarrow> True"

definition generalized_callback :: "cb_sig \<Rightarrow> slot_id \<Rightarrow> slot_id cb_comp" where
  "generalized_callback sg i =
     bindM (the_callback i) (\<lambda>x.
       thenM (assertM (returns_void sg \<and> generic_of sg \<noteq> None \<and> generic_of sg = slot_sig x))
         (bindM (new_adapter sg (m_cb x)) (\<lambda>a. new_slot True (Some sg) (Some a))))"

text \<open>\<open>operator=\<close> takes its argument by value, swaps, and destroys it.\<close>

definition assign_from :: "slot_id cb_comp \<Rightarrow> slot_id \<Rightarrow> unit cb_comp" where
  "assign_from mk i = bindM mk (\<lambda>j. thenM (swap_slots j i) (delete_slot j))"

definition assign_callback :: "slot_id \<Rightarrow> slot_id \<Rightarrow> unit cb_comp" where
  "assign_callback i j = thenM (the_callback i) (assign_from (copy_callback j) i)"

definition assign_callback_move :: "slot_id \<Rightarrow> slot_id \<Rightarrow> unit cb_comp" where
  "assign_callback_move i j = thenM (the_callback i) (assign_from (move_callback j) i)"

definition invoke_callback :: "slot_id \<Rightarrow> (functor_id \<times> cb_sig) cb_comp" where
  "invoke_callback i =
     bindM (the_callback i) (\<lambda>x.
       case m_cb x of None \<Rightarrow> abortM | Some a \<Rightarrow> invoke_object a)"

section \<open>Handles\<close>

definition new_cb_handle :: "cb_sig option \<Rightarrow> slot_id cb_comp" where
  "new_cb_handle sg = new_slot False sg None"

text \<open>A handle that shares what another handle or a callback points to.\<close>

definition share :: "cb_sig option \<Rightarrow> cb_addr option \<Rightarrow> slot_id cb_comp" where
  "share sg p = bindM (new_slot False sg p) (\<lambda>h. thenM (acquire_opt p) (retM h))"

definition handle_of_callback :: "cb_sig option \<Rightarrow> slot_id \<Rightarrow> slot_id cb_comp" where
  "handle_of_callback sg i =
     bindM (the_callback i) (\<lambda>x. thenM (assertM (sg = None \<or> sg = slot_sig x)) (share sg (m_cb x)))"

definition copy_cb_handle :: "cb_sig option \<Rightarrow> slot_id \<Rightarrow> slot_id cb_comp" where
  "copy_cb_handle sg h =
     bindM (the_cb_handle h) (\<lambda>x. thenM (assertM (sg = None \<or> sg = slot_sig x)) (share sg (m_cb x)))"

definition assign_cb_handle :: "slot_id \<Rightarrow> slot_id \<Rightarrow> unit cb_comp" where
  "assign_cb_handle h that =
     bindM (the_cb_handle h) (\<lambda>x. assign_from (copy_cb_handle (slot_sig x) that) h)"

text \<open>\<open>swap\<close> is inherited by the typed handles, and takes an untyped one.\<close>

definition swap_cb_handles :: "slot_id \<Rightarrow> slot_id \<Rightarrow> unit cb_comp" where
  "swap_cb_handles h that = thenM (the_cb_handle h) (thenM (the_cb_handle that) (swap_slots h that))"

definition reset_handle :: "slot_id \<Rightarrow> cb_addr option \<Rightarrow> unit cb_comp" where
  "reset_handle h p =
     bindM (the_slot h) (\<lambda>x.
       thenM (release_opt (m_cb x)) (thenM (set_m_cb h p) (acquire_opt p)))"

definition clear_handle :: "slot_id \<Rightarrow> unit cb_comp" where
  "clear_handle h = thenM (the_cb_handle h) (reset_handle h None)"

text \<open>\<open>dynamic_cast\<close> to the interface of a signature.\<close>

definition cast_to :: "cb_sig \<Rightarrow> cb_addr \<Rightarrow> bool cb_comp" where
  "cast_to sg a = bindM (the_cell a) (\<lambda>c. retM (cc_sig c = sg))"

definition valid_for :: "cb_sig \<Rightarrow> slot_id \<Rightarrow> bool cb_comp" where
  "valid_for sg h =
     bindM (the_slot h) (\<lambda>x. case m_cb x of None \<Rightarrow> retM False | Some a \<Rightarrow> cast_to sg a)"

definition get_of :: "slot_id \<Rightarrow> cb_addr option cb_comp" where
  "get_of h = bindM (the_slot h) (\<lambda>x. getM (\<lambda>s. map_option (\<lambda>a. get_object a s) (m_cb x)))"

definition cb_handle_eq :: "slot_id \<Rightarrow> slot_id \<Rightarrow> bool cb_comp" where
  "cb_handle_eq h that = bindM (get_of h) (\<lambda>p. bindM (get_of that) (\<lambda>q. retM (p = q)))"

text \<open>\<open>convert\<close>: an adapter for an object of the generic signature.\<close>

definition convert :: "cb_sig \<Rightarrow> cb_addr option \<Rightarrow> cb_addr option cb_comp" where
  "convert sg p =
     (case (generic_of sg, p) of
        (Some gs, Some f) \<Rightarrow>
          bindM (cast_to gs f) (\<lambda>b.
            if b then bindM (new_adapter sg (Some f)) (\<lambda>a. retM (Some a)) else retM None)
      | _ \<Rightarrow> retM None)"

text \<open>The typed handle of an untyped one.\<close>

definition recover_type :: "cb_sig \<Rightarrow> slot_id \<Rightarrow> slot_id cb_comp" where
  "recover_type sg h =
     bindM (the_cb_handle h) (\<lambda>x.
       bindM (share (Some sg) (m_cb x)) (\<lambda>j.
         if m_cb x = None then retM j
         else bindM (valid_for sg j) (\<lambda>b.
           if b then retM j
           else bindM (get_of j) (\<lambda>p.
             bindM (convert sg p) (\<lambda>cb_adapt.
               thenM (reset_handle j cb_adapt)
                 (thenM (release_opt cb_adapt) (retM j)))))))"

text \<open>The checked call, and that of a typed handle, which casts without a check.\<close>

definition invoke_checked :: "cb_sig \<Rightarrow> slot_id \<Rightarrow> (functor_id \<times> cb_sig) cb_comp" where
  "invoke_checked sg h =
     bindM (the_cb_handle h) (\<lambda>x.
       case m_cb x of
         None \<Rightarrow> abortM
       | Some a \<Rightarrow> bindM (cast_to sg a) (\<lambda>b. thenM (assertM b) (invoke_object a)))"

definition unchecked_invoke :: "cb_sig \<Rightarrow> slot_id \<Rightarrow> (functor_id \<times> cb_sig) cb_comp" where
  "unchecked_invoke sg h =
     bindM (the_cb_handle h) (\<lambda>x.
       case m_cb x of
         None \<Rightarrow> abortM
       | Some a \<Rightarrow> bindM (cast_to sg a) (\<lambda>b. if b then invoke_object a else throwM Bad_cast))"

definition invoke_typed :: "slot_id \<Rightarrow> (functor_id \<times> cb_sig) cb_comp" where
  "invoke_typed h =
     bindM (the_cb_handle h) (\<lambda>x.
       case slot_sig x of None \<Rightarrow> abortM | Some sg \<Rightarrow> unchecked_invoke sg h)"

end
