(* ===== verification/Callback_Counts.thy ===== *)
theory Callback_Counts
  imports Callback_Objects
begin

text \<open>
  Reference counts. The count of an object is the number of what points to it: the variables of the
  program, the adapters, and what the code in progress still holds. Copying an adapter leaves
  one reference too many on the copy of what it adapts.
\<close>

section \<open>References\<close>

text \<open>\<open>E a\<close> are the references to \<open>a\<close> from outside of the objects; \<open>add_ref p E\<close> has one more.\<close>

definition add_ref :: "cb_addr option \<Rightarrow> (cb_addr \<Rightarrow> nat) \<Rightarrow> cb_addr \<Rightarrow> nat" where
  "add_ref p E a = E a + (if p = Some a then 1 else 0)"

lemma add_ref_None [simp]: "add_ref None E = E"
  by (rule ext) (simp add: add_ref_def)

lemma add_ref_commute: "add_ref p (add_ref q E) = add_ref q (add_ref p E)"
  by (rule ext) (simp add: add_ref_def)

lemma add_ref_le: "E a \<le> n \<Longrightarrow> add_ref p E a \<le> Suc n"
  by (simp add: add_ref_def)

definition points_to :: "cb_addr \<Rightarrow> cb_slot option \<Rightarrow> bool" where
  "points_to a x \<longleftrightarrow> (case x of None \<Rightarrow> False | Some y \<Rightarrow> m_cb y = Some a)"

definition slot_refs :: "cb_slot option list \<Rightarrow> cb_addr \<Rightarrow> nat" where
  "slot_refs S a = length (filter (points_to a) S)"

definition adapts :: "cb_addr \<Rightarrow> cb_cell option \<Rightarrow> bool" where
  "adapts a x \<longleftrightarrow> (case x of None \<Rightarrow> False | Some c \<Rightarrow> cc_content c = Callback_generic_adapt a)"

definition adapt_refs :: "cb_state \<Rightarrow> cb_addr \<Rightarrow> nat" where
  "adapt_refs s a = length (filter (adapts a) (cells s))"

lemma length_filter_update:
  assumes "i < length xs"
  shows "length (filter P (xs[i := y])) + (if P (xs ! i) then 1 else 0)
    = length (filter P xs) + (if P y then 1 else 0)"
proof -
  have "length (filter P xs) = length (filter P (take i xs)) + (if P (xs ! i) then 1 else 0) + length (filter P (drop (Suc i) xs))"
    by (subst id_take_nth_drop [OF assms]) simp
  then show ?thesis
    by (simp add: upd_conv_take_nth_drop [OF assms])
qed

lemma slot_refs_snoc: "slot_refs (S @ [Some x]) = add_ref (m_cb x) (slot_refs S)"
  by (rule ext) (simp add: slot_refs_def add_ref_def points_to_def)

lemma slot_refs_nth:
  assumes "i < length S" and "S ! i = Some x"
  shows "slot_refs S = add_ref (m_cb x) (slot_refs (S[i := None]))"
proof
  fix a
  show "slot_refs S a = add_ref (m_cb x) (slot_refs (S[i := None])) a"
    using length_filter_update [OF assms(1), of "points_to a" None]
    by (simp add: slot_refs_def add_ref_def points_to_def assms(2) split: if_splits)
qed

lemma slot_refs_update:
  assumes "i < length S"
  shows "slot_refs (S[i := Some y]) = add_ref (m_cb y) (slot_refs (S[i := None]))"
  using slot_refs_nth [of i "S[i := Some y]" y] assms by simp

lemma slot_refs_le: "slot_refs S a \<le> length S"
  by (simp add: slot_refs_def)

section \<open>The invariant of the objects\<close>

text \<open>
  \<open>L a\<close> references to \<open>a\<close> are lost; \<open>K\<close> are addresses of objects that are no adapters; \<open>S\<close> are
  the variables.
\<close>

definition heap :: "(cb_addr \<Rightarrow> nat) \<Rightarrow> (cb_addr \<Rightarrow> nat) \<Rightarrow> cb_addr set \<Rightarrow> cb_slot option list \<Rightarrow> cb_state \<Rightarrow> bool" where
  "heap E L K S s \<longleftrightarrow> slots s = S
     \<and> (\<forall>a. 0 < adapt_refs s a + E a \<longrightarrow> cell_at s a \<noteq> None)
     \<and> (\<forall>a c. cell_at s a = Some c \<longrightarrow> unat (m_refcnt c) = adapt_refs s a + E a + L a \<and> 0 < unat (m_refcnt c))
     \<and> (\<forall>a c g. cell_at s a = Some c \<and> cc_content c = Callback_generic_adapt g \<longrightarrow> g < a)
     \<and> (\<forall>a. length (cells s) \<le> a \<longrightarrow> L a = 0)
     \<and> (\<forall>a \<in> K. a < length (cells s) \<and> (\<forall>c g. cell_at s a = Some c \<longrightarrow> cc_content c \<noteq> Callback_generic_adapt g))"

lemma heapI:
  assumes "slots s = S"
    and "\<And>a. 0 < adapt_refs s a + E a \<Longrightarrow> cell_at s a \<noteq> None"
    and "\<And>a c. cell_at s a = Some c \<Longrightarrow> unat (m_refcnt c) = adapt_refs s a + E a + L a \<and> 0 < unat (m_refcnt c)"
    and "\<And>a c g. cell_at s a = Some c \<Longrightarrow> cc_content c = Callback_generic_adapt g \<Longrightarrow> g < a"
    and "\<And>a. length (cells s) \<le> a \<Longrightarrow> L a = 0"
    and "\<And>a. a \<in> K \<Longrightarrow> a < length (cells s)"
    and "\<And>a c g. a \<in> K \<Longrightarrow> cell_at s a = Some c \<Longrightarrow> cc_content c \<noteq> Callback_generic_adapt g"
  shows "heap E L K S s"
  using assms unfolding heap_def by blast

lemma heapD:
  assumes "heap E L K S s"
  shows "slots s = S"
    and "0 < E a \<Longrightarrow> cell_at s a \<noteq> None"
    and "0 < adapt_refs s a \<Longrightarrow> cell_at s a \<noteq> None"
    and "cell_at s a = Some c \<Longrightarrow> unat (m_refcnt c) = adapt_refs s a + E a + L a"
    and "cell_at s a = Some c \<Longrightarrow> 0 < unat (m_refcnt c)"
    and "cell_at s a = Some c \<Longrightarrow> cc_content c = Callback_generic_adapt g \<Longrightarrow> g < a"
    and "length (cells s) \<le> a \<Longrightarrow> L a = 0"
    and "a \<in> K \<Longrightarrow> a < length (cells s)"
    and "a \<in> K \<Longrightarrow> cell_at s a = Some c \<Longrightarrow> cc_content c \<noteq> Callback_generic_adapt g"
  using assms unfolding heap_def by (auto dest: spec [where x = a])

text \<open>The two updates of an object.\<close>

lemma cell_at_put [simp]:
  "a < length (cells s) \<Longrightarrow> cell_at (put_cell a x s) b = (if b = a then x else cell_at s b)"
  by (simp add: cell_at_def put_cell_def nth_list_update)

lemma cell_at_lt: "cell_at s a = Some c \<Longrightarrow> a < length (cells s)"
  by (simp add: cell_at_def split: if_splits)

lemma put_cell_simps [simp]: "length (cells (put_cell a x s)) = length (cells s)" "slots (put_cell a x s) = slots s"
  by (simp_all add: put_cell_def)

lemma adapt_refs_put:
  assumes "cell_at s a = Some c"
  shows "adapt_refs (put_cell a x s) b + (if cc_content c = Callback_generic_adapt b then 1 else 0)
    = adapt_refs s b + (if adapts b x then 1 else 0)"
  using length_filter_update [OF cell_at_lt [OF assms], of "adapts b" x] assms
  by (auto simp: adapt_refs_def put_cell_def adapts_def cell_at_def split: if_splits)

lemma adapt_refs_put_count [simp]:
  assumes "cell_at s a = Some c"
  shows "adapt_refs (put_cell a (Some (c\<lparr>m_refcnt := n\<rparr>)) s) b = adapt_refs s b"
  using adapt_refs_put [OF assms, of "Some (c\<lparr>m_refcnt := n\<rparr>)" b] by (simp add: adapts_def split: if_splits)

lemma adapt_refs_pos:
  assumes "cell_at s a = Some c" and "cc_content c = Callback_generic_adapt g"
  shows "0 < adapt_refs s g"
  using adapt_refs_put [OF assms(1), of None g] assms(2) by (simp add: adapts_def)

lemma heap_put_count:
  assumes h: "heap E L K S s" and a: "cell_at s a = Some c" and n: "unat n = adapt_refs s a + E' a + L a" "0 < unat n"
    and E': "\<And>b. b \<noteq> a \<Longrightarrow> E' b = E b"
  shows "heap E' L K S (put_cell a (Some (c\<lparr>m_refcnt := n\<rparr>)) s)"
proof (rule heapI)
  note lt = cell_at_lt [OF a]
  fix b
  show "0 < adapt_refs (put_cell a (Some (c\<lparr>m_refcnt := n\<rparr>)) s) b + E' b \<Longrightarrow> cell_at (put_cell a (Some (c\<lparr>m_refcnt := n\<rparr>)) s) b \<noteq> None"
    using heapD(2,3) [OF h, of b] lt a E' [of b] by auto
  fix d g
  assume d: "cell_at (put_cell a (Some (c\<lparr>m_refcnt := n\<rparr>)) s) b = Some d"
  show "unat (m_refcnt d) = adapt_refs (put_cell a (Some (c\<lparr>m_refcnt := n\<rparr>)) s) b + E' b + L b \<and> 0 < unat (m_refcnt d)"
    using d heapD(4,5) [OF h, of b] lt a E' [of b] n by (auto split: if_splits)
  show "cc_content d = Callback_generic_adapt g \<Longrightarrow> g < b"
    using d heapD(6) [OF h, of b] lt a by (auto split: if_splits)
  show "b \<in> K \<Longrightarrow> cc_content d \<noteq> Callback_generic_adapt g"
    using d heapD(9) [OF h, of b] lt a by (auto split: if_splits)
qed (use heapD [OF h] in simp_all)

section \<open>Triples\<close>

text \<open>
  Counts have 32 bits: the statements hold as long as fewer than \<open>2 ^ 32 - 8\<close> objects and variables
  have been created. \<open>yields P m Q\<close>: from \<open>P\<close>, \<open>m\<close> does not access a destroyed object, and returns
  with \<open>Q\<close> if it does not end in an assertion or an access through NULL.
\<close>

definition size_of :: "cb_state \<Rightarrow> nat" where
  "size_of s = length (cells s) + length (slots s)"

definition room :: "cb_state \<Rightarrow> bool" where
  "room s \<longleftrightarrow> size_of s + 8 < 2 ^ 32"

interpretation grow: step_relation "\<lambda>s t. size_of s \<le> size_of t"
  by unfold_locales auto

abbreviation grows :: "'a cb_comp \<Rightarrow> bool" where
  "grows \<equiv> keeps (\<lambda>s t. size_of s \<le> size_of t)"

definition yields :: "(cb_state \<Rightarrow> bool) \<Rightarrow> 'a cb_comp \<Rightarrow> ('a \<Rightarrow> cb_state \<Rightarrow> bool) \<Rightarrow> bool" where
  "yields P m Q \<longleftrightarrow> (\<forall>s. P s \<and> room (snd (m s)) \<longrightarrow>
     (case m s of (Ret x, t) \<Rightarrow> Q x t | (Exc e, t) \<Rightarrow> e \<noteq> Dangling_access | (Abort, t) \<Rightarrow> True | (NoFuel, t) \<Rightarrow> False))"

lemma yieldsI:
  assumes "\<And>s r t. P s \<Longrightarrow> m s = (r, t) \<Longrightarrow> room t \<Longrightarrow>
    (case r of Ret x \<Rightarrow> Q x t | Exc e \<Rightarrow> e \<noteq> Dangling_access | Abort \<Rightarrow> True | NoFuel \<Rightarrow> False)"
  shows "yields P m Q"
  unfolding yields_def using assms by (fastforce split: prod.splits outcome.splits)

lemma yieldsD:
  assumes "yields P m Q" and "P s" and "m s = (r, t)" and "room t"
  shows "case r of Ret x \<Rightarrow> Q x t | Exc e \<Rightarrow> e \<noteq> Dangling_access | Abort \<Rightarrow> True | NoFuel \<Rightarrow> False"
  using assms unfolding yields_def by (fastforce split: prod.splits outcome.splits)

lemma room_mono: "room t \<Longrightarrow> size_of s \<le> size_of t \<Longrightarrow> room s"
  by (simp add: room_def)

lemma yields_bind:
  assumes "yields P m Q" and "\<And>x. grows (f x)" and "\<And>x. yields (Q x) (f x) R"
  shows "yields P (bindM m f) R"
proof (rule yieldsI)
  fix s r u
  assume P: "P s" and b: "bindM m f s = (r, u)" and u: "room u"
  obtain r' t where m: "m s = (r', t)" by (cases "m s")
  show "case r of Ret x \<Rightarrow> R x u | Exc e \<Rightarrow> e \<noteq> Dangling_access | Abort \<Rightarrow> True | NoFuel \<Rightarrow> False"
  proof (cases r')
    case (Ret x)
    with m b have f: "f x t = (r, u)" by (simp add: bindM_def)
    then have "room t" using room_mono [OF u] keepsD [OF assms(2)] by blast
    with yieldsD [OF assms(1) P m] Ret have "Q x t" by simp
    with f u assms(3) show ?thesis by (blast dest: yieldsD)
  next
    case (Exc e)
    with m b have "r = Exc e" "u = t" by (simp_all add: bindM_def)
    with yieldsD [OF assms(1) P m] Exc u show ?thesis by simp
  next
    case Abort
    with m b show ?thesis by (simp add: bindM_def split: outcome.split)
  next
    case NoFuel
    with m b have "r = NoFuel" "u = t" by (simp_all add: bindM_def)
    with yieldsD [OF assms(1) P m] NoFuel u show ?thesis by simp
  qed
qed

lemma yields_ret: "(\<And>s. P s \<Longrightarrow> Q x s) \<Longrightarrow> yields P (retM x) Q"
  by (rule yieldsI) auto

lemma yields_weaken:
  "yields P m Q \<Longrightarrow> (\<And>s. P' s \<Longrightarrow> P s) \<Longrightarrow> (\<And>x s. Q x s \<Longrightarrow> Q' x s) \<Longrightarrow> yields P' m Q'"
  by (rule yieldsI) (force dest: yieldsD split: outcome.splits)

lemma yields_abort: "yields P abortM Q"
  by (rule yieldsI) auto

lemma yields_throw: "e \<noteq> Dangling_access \<Longrightarrow> yields P (throwM e) Q"
  by (rule yieldsI) auto

lemma yields_assert: "yields P (assertM b) (\<lambda>_ s. P s \<and> b)"
  by (cases b) (auto intro: yields_ret yields_abort)

lemma yields_pure: "(A \<Longrightarrow> yields P m Q) \<Longrightarrow> yields (\<lambda>s. P s \<and> A) m Q"
  by (rule yieldsI) (auto dest: yieldsD)

lemma yields_ex: "(\<And>z. yields (P z) m Q) \<Longrightarrow> yields (\<lambda>s. \<exists>z. P z s) m Q"
  by (rule yieldsI) (auto dest: yieldsD)

lemma yields_if: "(b \<Longrightarrow> yields P m Q) \<Longrightarrow> (\<not> b \<Longrightarrow> yields P n Q) \<Longrightarrow> yields P (if b then m else n) Q"
  by simp

lemma yields_option:
  "(z = None \<Longrightarrow> yields P m Q) \<Longrightarrow> (\<And>x. z = Some x \<Longrightarrow> yields P (f x) Q) \<Longrightarrow>
   yields P (case z of None \<Rightarrow> m | Some x \<Rightarrow> f x) Q"
  by (cases z) simp_all

section \<open>Counting and releasing\<close>

lemma grows_the_cell: "grows (the_cell a)"
  by (simp add: keeps_def the_cell_def split: option.split)

lemma grows_put: "grows (modM (put_cell a x))"
  by (simp add: keeps_def size_of_def)

lemma grows_acquire: "grows (acquire a)"
  unfolding acquire_def by (intro grow.keeps_bindM grows_the_cell grows_put)

lemma yields_acquire:
  assumes "E a + L a \<le> length S + 4"
  shows "yields (\<lambda>s. heap E L K S s \<and> cell_at s a \<noteq> None) (acquire a) (\<lambda>_. heap (add_ref (Some a) E) L K S)"
proof (rule yieldsI)
  fix s r t
  assume P: "heap E L K S s \<and> cell_at s a \<noteq> None" and m: "acquire a s = (r, t)" and room: "room t"
  then obtain c where c: "cell_at s a = Some c" by auto
  have r: "r = Ret ()" and t: "t = put_cell a (Some (c\<lparr>m_refcnt := m_refcnt c + 1\<rparr>)) s"
    using m c by (simp_all add: acquire_def bindM_def the_cell_def)
  have "adapt_refs s a \<le> length (cells s)" by (simp add: adapt_refs_def)
  with assms room P have "unat (m_refcnt c) + 1 < 2 ^ 32"
    using heapD(1) [of E L K S s] heapD(4) [of E L K S s a c] c by (simp add: t room_def size_of_def)
  then have "unat (m_refcnt c + 1) = unat (m_refcnt c) + 1"
    by (simp add: unat_add_lem [THEN iffD1] unat_word_ariths)
  then have "heap (add_ref (Some a) E) L K S t"
    unfolding t using P c heapD(4) [of E L K S s a c]
    by (intro heap_put_count [of E]) (auto simp: add_ref_def)
  with r show "case r of Ret x \<Rightarrow> heap (add_ref (Some a) E) L K S t | Exc e \<Rightarrow> e \<noteq> Dangling_access | Abort \<Rightarrow> True | NoFuel \<Rightarrow> False"
    by simp
qed

lemma heap_delete:
  assumes h: "heap (add_ref (Some a) E) L K S s" and a: "cell_at s a = Some c" and one: "m_refcnt c = 1"
  shows "heap (case cc_content c of Callback_impl f \<Rightarrow> E | Callback_generic_adapt g \<Rightarrow> add_ref (Some g) E) L K S (put_cell a None s)"
    (is "heap ?E L K S ?t")
proof -
  have z: "adapt_refs s a = 0" "E a = 0" "L a = 0"
    using heapD(4) [OF h a] one by (simp_all add: add_ref_def)
  have ag: "cc_content c \<noteq> Callback_generic_adapt a"
    using adapt_refs_pos [OF a, of a] z by auto
  have refs: "adapt_refs ?t b + ?E b = adapt_refs s b + E b" for b
    using adapt_refs_put [OF a, of None b] by (cases "cc_content c") (auto simp: adapts_def add_ref_def)
  note lt = cell_at_lt [OF a]
  show ?thesis
  proof (rule heapI)
    fix b
    show "cell_at ?t b \<noteq> None" if "0 < adapt_refs ?t b + ?E b"
      using that z heapD(2,3) [OF h, of b] lt unfolding refs by (auto simp: add_ref_def)
    fix d g
    assume d: "cell_at ?t b = Some d"
    then have b: "b \<noteq> a" "cell_at s b = Some d" using lt by (auto split: if_splits)
    show "unat (m_refcnt d) = adapt_refs ?t b + ?E b + L b \<and> 0 < unat (m_refcnt d)"
      using heapD(4,5) [OF h b(2)] b(1) unfolding refs by (simp add: add_ref_def)
    show "cc_content d = Callback_generic_adapt g \<Longrightarrow> g < b"
      using heapD(6) [OF h b(2)] by simp
    show "b \<in> K \<Longrightarrow> cc_content d \<noteq> Callback_generic_adapt g"
      using heapD(9) [OF h _ b(2)] by simp
  qed (use heapD [OF h] in simp_all)
qed

lemma grows_release: "grows (release a)"
proof (rule keepsI)
  fix s
  show "size_of s \<le> size_of (snd (release a s))"
  proof (induction a s rule: release.induct)
    case (1 a s)
    show ?case
      using 1 by (subst release.simps) (auto simp: size_of_def split: option.split cb_content.split)
  qed
qed

lemma yields_release: "yields (heap (add_ref (Some a) E) L K S) (release a) (\<lambda>_. heap E L K S)"
proof -
  have "heap (add_ref (Some a) E) L K S s \<longrightarrow> (\<exists>t. release a s = (Ret (), t) \<and> heap E L K S t)" for s
  proof (induction a s arbitrary: E rule: release.induct)
    case (1 a s)
    show ?case
    proof (rule impI)
      assume h: "heap (add_ref (Some a) E) L K S s"
      then obtain c where c: "cell_at s a = Some c"
        using heapD(2) [OF h, of a] by (auto simp: add_ref_def)
      show "\<exists>t. release a s = (Ret (), t) \<and> heap E L K S t"
      proof (cases "m_refcnt c = 1")
        case True
        show ?thesis
        proof (cases "cc_content c")
          case (Callback_impl f)
          with heap_delete [OF h c True] c True show ?thesis
            by (subst release.simps) simp
        next
          case (Callback_generic_adapt g)
          with heap_delete [OF h c True] have "heap (add_ref (Some g) E) L K S (put_cell a None s)" by simp
          then have "\<exists>t. release g (put_cell a None s) = (Ret (), t) \<and> heap E L K S t"
            using "1.IH" [OF c _ Callback_generic_adapt] True by simp
          with c True Callback_generic_adapt show ?thesis
            by (subst release.simps) simp
        qed
      next
        case False
        have ne: "m_refcnt c \<noteq> 0" using heapD(5) [OF h c] by (metis less_irrefl unat_0)
        then have u: "unat (m_refcnt c - 1) = unat (m_refcnt c) - 1" by (rule unat_minus_one)
        have "m_refcnt c - 1 \<noteq> 0" using False by simp
        then have p: "0 < unat (m_refcnt c - 1)" by (simp add: unat_gt_0)
        have "heap E L K S (put_cell a (Some (c\<lparr>m_refcnt := m_refcnt c - 1\<rparr>)) s)"
          using heapD(4) [OF h c] u p
          by (intro heap_put_count [OF h c]) (auto simp: add_ref_def)
        with c False show ?thesis
          by (subst release.simps) simp
      qed
    qed
  qed
  then show ?thesis
    by (intro yieldsI) force
qed

section \<open>New objects\<close>

lemma grows_new_cell: "grows (new_cell sg x)"
  by (simp add: keeps_def new_cell_def size_of_def)

lemma cell_at_snoc:
  "cell_at (s\<lparr>cells := cells s @ [x]\<rparr>) a = (if a = length (cells s) then x else cell_at s a)"
  by (simp add: cell_at_def nth_append)

lemma adapt_refs_snoc:
  "adapt_refs (s\<lparr>cells := cells s @ [x]\<rparr>) a = adapt_refs s a + (if adapts a x then 1 else 0)"
  by (simp add: adapt_refs_def)

lemma heap_new_address:
  assumes h: "heap E L K S s" and a: "length (cells s) \<le> a"
  shows "E a = 0" and "adapt_refs s a = 0" and "L a = 0"
  using heapD(2,3) [OF h, of a] heapD(7) [OF h a] a by (auto simp: cell_at_def split: if_splits)

text \<open>An object with a functor, and the fresh address of it.\<close>

lemma heap_new_impl:
  assumes h: "heap E L K S s" and m: "new_cell sg (Callback_impl f) s = (Ret a, t)"
  shows "heap (add_ref (Some a) E) L (insert a K) S t" and "L a = 0" and "length (cells s) \<le> a"
    and "cell_at s a = None"
proof -
  let ?c = "\<lparr>cc_sig = sg, cc_content = Callback_impl f, m_refcnt = 1\<rparr>"
  have a: "a = length (cells s)" and t: "t = s\<lparr>cells := cells s @ [Some ?c]\<rparr>"
    using m by (auto simp: new_cell_def)
  note z = heap_new_address [OF h, of a]
  show "L a = 0" and "length (cells s) \<le> a" and "cell_at s a = None" using z a by (simp_all add: cell_at_def)
  have refs: "adapt_refs t b = adapt_refs s b" for b
    unfolding t adapt_refs_snoc by (simp add: adapts_def)
  have cell: "cell_at t b = (if b = a then Some ?c else cell_at s b)" for b
    unfolding t a by (rule cell_at_snoc)
  show "heap (add_ref (Some a) E) L (insert a K) S t"
  proof (rule heapI)
    fix b d g
    show "0 < adapt_refs t b + add_ref (Some a) E b \<Longrightarrow> cell_at t b \<noteq> None"
      using heapD(2,3) [OF h, of b] by (auto simp: refs cell add_ref_def)
    assume d: "cell_at t b = Some d"
    show "unat (m_refcnt d) = adapt_refs t b + add_ref (Some a) E b + L b \<and> 0 < unat (m_refcnt d)"
      using d heapD(4,5) [OF h, of b] z a by (auto simp: refs cell add_ref_def split: if_splits)
    show "cc_content d = Callback_generic_adapt g \<Longrightarrow> g < b"
      using d heapD(6) [OF h, of b] by (auto simp: cell split: if_splits)
    show "b \<in> insert a K \<Longrightarrow> cc_content d \<noteq> Callback_generic_adapt g"
      using d heapD(9) [OF h, of b] by (auto simp: cell split: if_splits)
  next
    fix b
    assume "b \<in> insert a K"
    then show "b < length (cells t)" using heapD(8) [OF h, of b] by (auto simp: t a)
  qed (use heapD [OF h] in \<open>auto simp: t\<close>)
qed

lemma yields_new_impl:
  "yields (heap E L K S) (new_cell sg (Callback_impl f)) (\<lambda>a. heap (add_ref (Some a) E) L (insert a K) S)"
  by (rule yieldsI) (auto dest: heap_new_impl simp: new_cell_def split: outcome.splits)

text \<open>An adapter counts as a reference to what it adapts.\<close>

lemma heap_new_adapter:
  assumes h: "heap E L K S s" and g: "cell_at s g = Some c" and n: "unat (m_refcnt c) + 1 < 2 ^ 32"
  shows "\<exists>a t. new_adapter sg (Some g) s = (Ret a, t) \<and> heap (add_ref (Some a) E) L K S t
    \<and> L a = 0 \<and> length (cells s) \<le> a"
proof -
  let ?d = "\<lparr>cc_sig = sg, cc_content = Callback_generic_adapt g, m_refcnt = 1\<rparr>"
  define a where "a = length (cells s)"
  define u where "u = s\<lparr>cells := cells s @ [Some ?d]\<rparr>"
  define t where "t = put_cell g (Some (c\<lparr>m_refcnt := m_refcnt c + 1\<rparr>)) u"
  have ga: "g < a" using cell_at_lt [OF g] by (simp add: a_def)
  have cell_u: "cell_at u b = (if b = a then Some ?d else cell_at s b)" for b
    unfolding u_def a_def by (rule cell_at_snoc)
  have gu: "cell_at u g = Some c" using g ga by (simp add: cell_u)
  have run: "new_adapter sg (Some g) s = (Ret a, t)"
    using gu by (simp add: new_adapter_def bindM_def new_cell_def acquire_def the_cell_def u_def a_def t_def)
  have refs: "adapt_refs t b = adapt_refs s b + (if b = g then 1 else 0)" for b
    using adapt_refs_put_count [OF gu] by (auto simp: t_def u_def adapt_refs_snoc adapts_def)
  have cell: "cell_at t b = (if b = g then Some (c\<lparr>m_refcnt := m_refcnt c + 1\<rparr>) else if b = a then Some ?d else cell_at s b)" for b
    using cell_at_put [of g u] ga by (simp add: t_def cell_u) (simp add: u_def a_def cell_at_snoc)
  have len: "length (cells t) = Suc a" by (simp add: t_def u_def a_def)
  have sl: "slots t = S" using heapD(1) [OF h] by (simp add: t_def u_def)
  note z = heap_new_address [OF h, of a]
  have plus: "unat (m_refcnt c + 1) = unat (m_refcnt c) + 1"
    using n by (simp add: unat_add_lem [THEN iffD1] unat_word_ariths)
  have "heap (add_ref (Some a) E) L K S t"
  proof (rule heapI)
    fix b d x
    show "0 < adapt_refs t b + add_ref (Some a) E b \<Longrightarrow> cell_at t b \<noteq> None"
      using heapD(2,3) [OF h, of b] by (auto simp: refs cell add_ref_def split: if_splits)
    assume d: "cell_at t b = Some d"
    show "unat (m_refcnt d) = adapt_refs t b + add_ref (Some a) E b + L b \<and> 0 < unat (m_refcnt d)"
      using d heapD(4,5) [OF h, of b] g z ga plus by (auto simp: refs cell add_ref_def a_def split: if_splits)
    show "cc_content d = Callback_generic_adapt x \<Longrightarrow> x < b"
      using d heapD(6) [OF h, of b] g ga by (auto simp: cell split: if_splits)
    show "b \<in> K \<Longrightarrow> cc_content d \<noteq> Callback_generic_adapt x"
      using d heapD(8,9) [OF h, of b] g ga by (auto simp: cell a_def split: if_splits)
  qed (use heapD [OF h] sl in \<open>auto simp: len a_def less_SucI\<close>)
  with run z show ?thesis by (auto simp: a_def)
qed

lemma grows_new_adapter: "grows (new_adapter sg p)"
  unfolding new_adapter_def
  by (intro grow.keeps_option grow.keeps_throwM grow.keeps_bindM grows_new_cell grows_acquire grow.keeps_retM)

lemma yields_new_adapter:
  assumes "\<And>g. p = Some g \<Longrightarrow> E g + L g \<le> length S + 4"
  shows "yields (\<lambda>s. heap E L K S s \<and> (\<forall>g. p = Some g \<longrightarrow> cell_at s g \<noteq> None)) (new_adapter sg p)
    (\<lambda>a. heap (add_ref (Some a) E) L K S)"
proof (cases p)
  case None
  then show ?thesis by (simp add: new_adapter_def yields_throw)
next
  case (Some g)
  show ?thesis
  proof (rule yieldsI)
    fix s r t
    assume P: "heap E L K S s \<and> (\<forall>g. p = Some g \<longrightarrow> cell_at s g \<noteq> None)" and m: "new_adapter sg p s = (r, t)"
      and room: "room t"
    then obtain c where c: "cell_at s g = Some c" using Some by auto
    have "size_of s \<le> size_of t" using keepsD [OF grows_new_adapter m] .
    moreover have "adapt_refs s g \<le> length (cells s)" by (simp add: adapt_refs_def)
    ultimately have "unat (m_refcnt c) + 1 < 2 ^ 32"
      using assms [OF Some] room P heapD(1) [of E L K S s] heapD(4) [of E L K S s g c] c
      by (simp add: room_def size_of_def)
    with heap_new_adapter [of E L K S s g c sg] P c m Some
    show "case r of Ret a \<Rightarrow> heap (add_ref (Some a) E) L K S t | Exc e \<Rightarrow> e \<noteq> Dangling_access | Abort \<Rightarrow> True | NoFuel \<Rightarrow> False"
      by auto
  qed
qed

section \<open>Copies\<close>

lemma grows_clone: "grows (clone a)"
proof (rule keepsI)
  fix s
  show "size_of s \<le> size_of (snd (clone a s))"
  proof (induction a s rule: clone.induct)
    case (1 a s)
    show ?case
    proof (cases "cell_at s a")
      case (Some c)
      show ?thesis
      proof (cases "cc_content c")
        case (Callback_generic_adapt g)
        show ?thesis
        proof (cases "g < a")
          case True
          obtain r t where cl: "clone g s = (r, t)" by (cases "clone g s")
          have st: "size_of s \<le> size_of t"
            using "1.IH" [OF Some Callback_generic_adapt True] cl by simp
          have "size_of t \<le> size_of (snd (new_adapter (cc_sig c) (Some b) t))" for b
            using grows_new_adapter unfolding keeps_def by blast
          with st Some Callback_generic_adapt True cl show ?thesis
            by (subst clone.simps) (auto split: outcome.split intro: le_trans)
        qed (use Some Callback_generic_adapt in \<open>subst clone.simps, simp\<close>)
      qed (use Some in \<open>subst clone.simps, simp add: new_cell_def size_of_def\<close>)
    qed (subst clone.simps, simp)
  qed
qed

text \<open>Dropping a reference without releasing it loses it.\<close>

lemma heap_lose:
  assumes h: "heap (add_ref (Some b) E) L K S s"
  shows "heap E (L(b := L b + 1)) K S s"
proof (rule heapI)
  fix a c
  show "cell_at s a = Some c \<Longrightarrow> unat (m_refcnt c) = adapt_refs s a + E a + (L(b := L b + 1)) a \<and> 0 < unat (m_refcnt c)"
    using heapD(4,5) [OF h, of a c] by (auto simp: add_ref_def)
  show "length (cells s) \<le> a \<Longrightarrow> (L(b := L b + 1)) a = 0"
    using heapD(2,7) [OF h, of a] heapD(2) [OF h, of b] by (auto simp: add_ref_def cell_at_def)
  show "0 < adapt_refs s a + E a \<Longrightarrow> cell_at s a \<noteq> None"
    using heapD(2,3) [OF h, of a] by (auto simp: add_ref_def)
qed (use heapD [OF h] in auto)

text \<open>
  The copy of an object with a functor is exact; that of an adapter loses one reference to the
  copy of what it adapts.
\<close>

lemma heap_clone:
  assumes "heap E L K S s" and "cell_at s a \<noteq> None" and "\<And>x. L x \<le> 1" and "\<And>x. E x \<le> length S + 2"
    and "clone a s = (r, t)" and "room t"
  shows "\<exists>b L' K'. r = Ret b \<and> heap (add_ref (Some b) E) L' K' S t \<and> (\<forall>x. L' x \<le> 1) \<and> L' b = 0 \<and> K \<subseteq> K'
    \<and> (a \<in> K \<longrightarrow> L' = L \<and> b \<in> K')"
  using assms
proof (induction a s arbitrary: r t rule: clone.induct)
  case (1 a s)
  note h = "1.prems"(1) and cl = "1.prems"(5) and rm = "1.prems"(6)
  obtain c where c: "cell_at s a = Some c" using "1.prems"(2) by auto
  show ?case
  proof (cases "cc_content c")
    case (Callback_impl f)
    with cl c have nc: "new_cell (cc_sig c) (Callback_impl f) s = (r, t)"
      by (subst (asm) clone.simps) simp
    then obtain b where r: "r = Ret b" by (auto simp: new_cell_def)
    with nc have nc': "new_cell (cc_sig c) (Callback_impl f) s = (Ret b, t)" by simp
    show ?thesis
      using heap_new_impl [OF h nc'] "1.prems"(3) r by blast
  next
    case (Callback_generic_adapt g)
    then have ga: "g < a" using heapD(6) [OF h c] by simp
    have nK: "a \<notin> K" using heapD(9) [OF h _ c] Callback_generic_adapt by blast
    have g: "cell_at s g \<noteq> None" using heapD(3) [OF h] adapt_refs_pos [OF c Callback_generic_adapt] by blast
    obtain r' u where cg: "clone g s = (r', u)" by (cases "clone g s")
    have eq: "(r, t) = (case (r', u) of (Ret b, t) \<Rightarrow> new_adapter (cc_sig c) (Some b) t | (r, t) \<Rightarrow> (case r of Exc e \<Rightarrow> (Exc e, t) | Abort \<Rightarrow> (Abort, t) | NoFuel \<Rightarrow> (NoFuel, t)))"
      using cl c Callback_generic_adapt ga cg by (subst (asm) clone.simps) (auto split: outcome.splits)
    have ru: "room u"
    proof -
      have "size_of u \<le> size_of t"
        using eq keepsD [OF grows_new_adapter, of "cc_sig c" _ u r t] by (auto split: outcome.splits)
      with rm show ?thesis by (rule room_mono)
    qed
    from "1.IH" [OF c Callback_generic_adapt ga h g "1.prems"(3,4) cg ru]
    obtain b L' K' where r': "r' = Ret b" and hb: "heap (add_ref (Some b) E) L' K' S u"
      and L': "\<And>x. L' x \<le> 1" "L' b = 0" and K': "K \<subseteq> K'" by blast
    with eq have na: "new_adapter (cc_sig c) (Some b) u = (r, t)" by simp
    have b: "cell_at u b \<noteq> None" using heapD(2) [OF hb, of b] by (simp add: add_ref_def)
    then obtain d where d: "cell_at u b = Some d" by auto
    have "adapt_refs u b \<le> length (cells u)" by (simp add: adapt_refs_def)
    moreover have "size_of u \<le> size_of t" using keepsD [OF grows_new_adapter na] .
    ultimately have n: "unat (m_refcnt d) + 1 < 2 ^ 32"
      using heapD(1) [OF hb] heapD(4) [OF hb d] "1.prems"(4) [of b] L'(2) rm
      by (simp add: room_def size_of_def add_ref_def)
    from heap_new_adapter [OF hb d n, of "cc_sig c"] na
    obtain e where r: "r = Ret e" and he: "heap (add_ref (Some e) (add_ref (Some b) E)) L' K' S t"
      and e: "L' e = 0" "length (cells u) \<le> e" by auto
    define M where "M = L'(b := L' b + 1)"
    have "heap (add_ref (Some e) E) M K' S t"
      unfolding M_def using he by (intro heap_lose) (simp add: add_ref_commute)
    moreover have "e \<noteq> b" using e(2) cell_at_lt [OF d] by auto
    then have "\<forall>x. M x \<le> 1" and "M e = 0" using L' e by (simp_all add: M_def)
    ultimately show ?thesis
      using r K' nK by blast
  qed
qed

end
