(* ===== verification/Callback_Runs.thy ===== *)
theory Callback_Runs
  imports Callback_Counts
begin

text \<open>
  Programs that make, copy, assign, move, share, convert, invoke and destroy callbacks and
  handles, and what holds along every run of them.
\<close>

section \<open>The invariant of a program\<close>

text \<open>
  Every reference is counted, and at most one is lost for each object; with \<open>exact\<close> none is lost,
  and no \<open>cci_callback\<close> owns an adapter.
\<close>

definition plain :: "cb_addr set \<Rightarrow> cb_slot option list \<Rightarrow> bool" where
  "plain K S \<longleftrightarrow> (\<forall>x a. Some x \<in> set S \<and> slot_is_callback x \<and> m_cb x = Some a \<longrightarrow> a \<in> K)"

definition counts :: "bool \<Rightarrow> (cb_addr \<Rightarrow> nat) \<Rightarrow> cb_addr set \<Rightarrow> cb_slot option list \<Rightarrow> cb_state \<Rightarrow> bool" where
  "counts exact L K S s \<longleftrightarrow> heap (slot_refs S) L K S s \<and> (\<forall>a. L a \<le> 1)
     \<and> (exact \<longrightarrow> (\<forall>a. L a = 0) \<and> plain K S)"

definition counted :: "bool \<Rightarrow> cb_state \<Rightarrow> bool" where
  "counted exact s \<longleftrightarrow> (\<exists>L K S. counts exact L K S s)"

definition has_kind :: "bool \<Rightarrow> slot_id \<Rightarrow> cb_state \<Rightarrow> bool" where
  "has_kind k i s \<longleftrightarrow> (\<exists>x. slot_at s i = Some x \<and> slot_is_callback x = k)"

lemma plain_snoc: "plain K S \<Longrightarrow> (slot_is_callback x \<Longrightarrow> set_option (m_cb x) \<subseteq> K) \<Longrightarrow> plain K (S @ [Some x])"
  by (auto simp: plain_def)

lemma plain_update:
  "plain K S \<Longrightarrow> (\<And>y. x = Some y \<Longrightarrow> slot_is_callback y \<Longrightarrow> set_option (m_cb y) \<subseteq> K) \<Longrightarrow> plain K (S[i := x])"
  using set_update_subset_insert [of S i x] unfolding plain_def by (auto dest!: subsetD)

lemma plain_mono: "plain K S \<Longrightarrow> K \<subseteq> K' \<Longrightarrow> plain K' S"
  by (auto simp: plain_def)

lemma plain_nth: "plain K S \<Longrightarrow> i < length S \<Longrightarrow> S ! i = Some x \<Longrightarrow> slot_is_callback x \<Longrightarrow> set_option (m_cb x) \<subseteq> K"
  unfolding plain_def by (metis elem_set nth_mem subsetI)

section \<open>Variables\<close>

lemma grows_the_slot: "grows (the_slot i)"
  by (simp add: keeps_def the_slot_def split: option.split)

lemma grows_put_slot: "grows (modM (put_slot i x))"
  by (simp add: keeps_def put_slot_def size_of_def)

lemma grows_new_slot: "grows (new_slot cb sg p)"
  by (simp add: keeps_def new_slot_def size_of_def)

lemma grows_invoke: "grows (invoke_object a)"
proof (rule keepsI)
  fix s
  have "snd (invoke_object a s) = s"
    by (induction a s rule: invoke_object.induct)
      (subst invoke_object.simps, auto split: option.split cb_content.split)
  then show "size_of s \<le> size_of (snd (invoke_object a s))" by simp
qed

lemmas callback_op_defs = the_callback_def the_cb_handle_def set_m_cb_def acquire_opt_def release_opt_def swap_slots_def
  delete_slot_def new_callback_of_def clone_opt_def copy_callback_def move_callback_def generalized_callback_def
  assign_from_def assign_callback_def assign_callback_move_def invoke_callback_def new_cb_handle_def share_def
  handle_of_callback_def copy_cb_handle_def assign_cb_handle_def swap_cb_handles_def reset_handle_def clear_handle_def
  cast_to_def valid_for_def get_of_def cb_handle_eq_def convert_def recover_type_def invoke_checked_def
  unchecked_invoke_def invoke_typed_def

lemmas grow_intros = grow.keeps_rules grows_the_slot grows_put_slot grows_new_slot grows_invoke grows_the_cell grows_acquire
  grows_release grows_new_cell grows_new_adapter grows_clone

lemma slot_at_heap: "heap E L K S s \<Longrightarrow> slot_at s i = Some x \<longleftrightarrow> i < length S \<and> S ! i = Some x"
  using heapD(1) [of E L K S s] by (auto simp: slot_at_def)

lemma yields_the_slot:
  "yields (heap E L K S) (the_slot i) (\<lambda>x s. heap E L K S s \<and> i < length S \<and> S ! i = Some x)"
  by (rule yieldsI) (auto simp: the_slot_def slot_at_heap split: option.splits)

lemma heap_slots:
  assumes "heap E L K S s" and "cells t = cells s" and "slots t = S'"
  shows "heap E L K S' t"
proof -
  have "cell_at t = cell_at s" "adapt_refs t = adapt_refs s"
    using assms(2) by (simp_all add: fun_eq_iff cell_at_def adapt_refs_def)
  note eqs = this assms(2)
  show ?thesis
    using assms(1,3) unfolding heap_def eqs by (elim conjE) (intro conjI; assumption)
qed

lemma yields_put_slot: "yields (heap E L K S) (modM (put_slot i x)) (\<lambda>_. heap E L K (S[i := x]))"
  by (rule yieldsI) (auto simp: put_slot_def heapD(1) elim!: heap_slots)

lemma yields_set_m_cb:
  "yields (\<lambda>s. heap E L K S s \<and> i < length S \<and> S ! i = Some x) (set_m_cb i p) (\<lambda>_. heap E L K (S[i := Some (x\<lparr>m_cb := p\<rparr>)]))"
  by (rule yieldsI)
    (auto simp: set_m_cb_def bindM_def the_slot_def slot_at_heap put_slot_def heapD(1) elim!: heap_slots split: option.splits)

lemma yields_new_slot:
  "yields (heap E L K S) (new_slot cb sg p)
     (\<lambda>j s. heap E L K (S @ [Some \<lparr>slot_is_callback = cb, slot_sig = sg, m_cb = p\<rparr>]) s \<and> j = length S)"
  by (rule yieldsI) (auto simp: new_slot_def heapD(1) elim!: heap_slots)

lemma yields_release_opt: "yields (heap (add_ref p E) L K S) (release_opt p) (\<lambda>_. heap E L K S)"
  by (cases p) (simp_all add: release_opt_def yields_release yields_ret)

lemma yields_acquire_opt:
  assumes "\<And>a. E a + L a \<le> length S + 4"
  shows "yields (\<lambda>s. heap E L K S s \<and> (\<forall>a. p = Some a \<longrightarrow> cell_at s a \<noteq> None)) (acquire_opt p) (\<lambda>_. heap (add_ref p E) L K S)"
  using yields_acquire [of E _ L S K] assms
  by (cases p) (auto simp: acquire_opt_def intro: yields_ret)

section \<open>The operations on variables\<close>

lemma counts_heap: "counts p L K S s \<Longrightarrow> heap (slot_refs S) L K S s"
  by (simp add: counts_def)

lemma counts_le: "counts p L K S s \<Longrightarrow> slot_refs S a + L a \<le> length S + 1"
  using add_mono [OF slot_refs_le [of S a], of "L a" 1] by (simp add: counts_def)

text \<open>From the objects to the whole: what is pure in \<open>counts\<close> is settled first.\<close>

lemma yields_counts:
  assumes "(\<And>a. L a \<le> 1) \<Longrightarrow> (p \<Longrightarrow> (\<forall>a. L a = 0) \<and> plain K S) \<Longrightarrow> yields (heap (slot_refs S) L K S) m Q"
  shows "yields (counts p L K S) m Q"
proof -
  have "yields (\<lambda>s. heap (slot_refs S) L K S s \<and> (\<forall>a. L a \<le> 1) \<and> (p \<longrightarrow> (\<forall>a. L a = 0) \<and> plain K S)) m Q"
    by (intro yields_pure assms) auto
  then show ?thesis
    by (rule yields_weaken) (auto simp: counts_def)
qed

lemma grows_delete_slot: "grows (delete_slot i)"
  unfolding callback_op_defs by (intro grow_intros)

lemma yields_delete_slot: "yields (counts p L K S) (delete_slot i) (\<lambda>_. counts p L K (S[i := None]))"
proof (rule yields_counts)
  assume L: "\<And>a. L a \<le> 1" and ex: "p \<Longrightarrow> (\<forall>a. L a = 0) \<and> plain K S"
  show "yields (heap (slot_refs S) L K S) (delete_slot i) (\<lambda>_. counts p L K (S[i := None]))"
    unfolding delete_slot_def
  proof (rule yields_bind [OF yields_the_slot])
    fix x
    have "yields (heap (slot_refs S) L K S) (thenM (release_opt (m_cb x)) (modM (put_slot i None))) (\<lambda>_. counts p L K (S[i := None]))"
      if i: "i < length S" "S ! i = Some x"
      unfolding slot_refs_nth [OF i]
    proof (rule yields_bind [OF yields_release_opt grows_put_slot])
      show "yields (heap (slot_refs (S[i := None])) L K S) (modM (put_slot i None)) (\<lambda>_. counts p L K (S[i := None]))"
        using L ex by (intro yields_weaken [OF yields_put_slot]) (auto simp: counts_def intro: plain_update)
    qed
    then show "yields (\<lambda>s. heap (slot_refs S) L K S s \<and> i < length S \<and> S ! i = Some x)
        (thenM (release_opt (m_cb x)) (modM (put_slot i None))) (\<lambda>_. counts p L K (S[i := None]))"
      by (intro yields_pure) auto
    show "grows (thenM (release_opt (m_cb x)) (modM (put_slot i None)))"
      unfolding release_opt_def by (intro grow_intros)
  qed
qed

lemma grows_swap_slots: "grows (swap_slots i j)"
  unfolding callback_op_defs by (intro grow_intros)

lemma slot_refs_swap:
  assumes "i < length S" "S ! i = Some x" "j < length S" "S ! j = Some y"
  shows "slot_refs ((S[i := Some (x\<lparr>m_cb := m_cb y\<rparr>)])[j := Some ((if i = j then x\<lparr>m_cb := m_cb y\<rparr> else y)\<lparr>m_cb := m_cb x\<rparr>)]) = slot_refs S"
proof (cases "i = j")
  case True
  with assms list_update_id [of S j] show ?thesis by simp
next
  case False
  let ?T = "S[i := None, j := None]"
  have "slot_refs S = add_ref (m_cb x) (add_ref (m_cb y) (slot_refs ?T))"
    using assms False slot_refs_nth [of i S x] slot_refs_nth [of j "S[i := None]" y] by simp
  moreover have "slot_refs (S[i := Some (x\<lparr>m_cb := m_cb y\<rparr>), j := Some (y\<lparr>m_cb := m_cb x\<rparr>)])
      = add_ref (m_cb x) (add_ref (m_cb y) (slot_refs ?T))"
    using assms False slot_refs_update [of j "S[i := Some (x\<lparr>m_cb := m_cb y\<rparr>)]" "y\<lparr>m_cb := m_cb x\<rparr>"]
      slot_refs_update [of i "S[j := None]" "x\<lparr>m_cb := m_cb y\<rparr>"]
    by (simp add: list_update_swap)
  ultimately show ?thesis using False by simp
qed

lemma yields_swap_slots:
  assumes "i < length S" "S ! i = Some x" "j < length S" "S ! j = Some y" "slot_is_callback x = slot_is_callback y"
  shows "yields (counts p L K S) (swap_slots i j) (\<lambda>_ s. \<exists>S'. counts p L K S' s \<and> length S' = length S)"
proof (rule yieldsI)
  fix s r t
  assume c: "counts p L K S s" and m: "swap_slots i j s = (r, t)"
  let ?S = "(S[i := Some (x\<lparr>m_cb := m_cb y\<rparr>)])[j := Some ((if i = j then x\<lparr>m_cb := m_cb y\<rparr> else y)\<lparr>m_cb := m_cb x\<rparr>)]"
  have S: "slots s = S" using heapD(1) [OF counts_heap [OF c]] .
  have r: "r = Ret ()" and t: "t = s\<lparr>slots := ?S\<rparr>"
    using m assms(1-4) S
    by (cases "i = j"; auto simp: swap_slots_def set_m_cb_def bindM_def the_slot_def slot_at_def put_slot_def)+
  have "heap (slot_refs ?S) L K ?S t"
    unfolding slot_refs_swap [OF assms(1-4)] t by (rule heap_slots [OF counts_heap [OF c]]) simp_all
  moreover have "plain K ?S" if "plain K S"
    using assms plain_nth [OF that, of i x] plain_nth [OF that, of j y]
    by (intro plain_update that) (auto split: if_splits)
  ultimately have "counts p L K ?S t" using c by (auto simp: counts_def)
  then have "\<exists>S'. counts p L K S' t \<and> length S' = length S" by (intro exI [where x = ?S]) simp
  with r show "case r of Ret u \<Rightarrow> \<exists>S'. counts p L K S' t \<and> length S' = length S | Exc e \<Rightarrow> e \<noteq> Dangling_access | Abort \<Rightarrow> True | NoFuel \<Rightarrow> False"
    by simp
qed

section \<open>Construction\<close>

text \<open>A new variable, at the end; the others are of the same classes as before.\<close>

definition kinds :: "cb_slot option list \<Rightarrow> bool option list" where
  "kinds S = map (map_option slot_is_callback) S"

lemma kinds_length: "kinds S' = kinds S \<Longrightarrow> length S' = length S"
  unfolding kinds_def by (metis length_map)

lemma kinds_nth: "kinds S' = kinds S \<Longrightarrow> i < length S \<Longrightarrow> map_option slot_is_callback (S' ! i) = map_option slot_is_callback (S ! i)"
  using kinds_length [of S' S] unfolding kinds_def by (metis nth_map)

lemma kinds_update: "i < length S \<Longrightarrow> S ! i = Some x \<Longrightarrow> slot_is_callback y = slot_is_callback x \<Longrightarrow> kinds (S[i := Some y]) = kinds S"
  by (simp add: kinds_def map_update list_update_same_conv)

definition grown :: "bool \<Rightarrow> bool \<Rightarrow> slot_id \<Rightarrow> cb_slot option list \<Rightarrow> cb_state \<Rightarrow> bool" where
  "grown p k j S s \<longleftrightarrow> (\<exists>L K S' x. counts p L K (S' @ [Some x]) s \<and> kinds S' = kinds S
     \<and> slot_is_callback x = k \<and> j = length S)"

lemma grownI:
  assumes "heap (add_ref (m_cb x) (slot_refs S)) L K (S @ [Some x]) s" and "\<And>a. L a \<le> 1"
    and "p \<Longrightarrow> (\<forall>a. L a = 0) \<and> plain K S" and "p \<Longrightarrow> slot_is_callback x \<Longrightarrow> set_option (m_cb x) \<subseteq> K"
  shows "grown p (slot_is_callback x) (length S) S s"
proof -
  have "plain K (S @ [Some x])" if p
    using assms(3,4) that by (intro plain_snoc) auto
  then have "counts p L K (S @ [Some x]) s"
    using assms(1-3) slot_refs_snoc [of S x] by (auto simp: counts_def)
  then show ?thesis unfolding grown_def by blast
qed

lemma yields_new_slot_grown:
  assumes "\<And>a. L a \<le> 1" and "p \<Longrightarrow> (\<forall>a. L a = 0) \<and> plain K S" and "p \<Longrightarrow> k \<Longrightarrow> set_option q \<subseteq> K"
  shows "yields (heap (add_ref q (slot_refs S)) L K S) (new_slot k sg q) (\<lambda>j. grown p k j S)"
proof (rule yields_weaken [OF yields_new_slot])
  fix j s
  assume "heap (add_ref q (slot_refs S)) L K (S @ [Some \<lparr>slot_is_callback = k, slot_sig = sg, m_cb = q\<rparr>]) s \<and> j = length S"
  then show "grown p k j S s"
    using grownI [of "\<lparr>slot_is_callback = k, slot_sig = sg, m_cb = q\<rparr>" S L K s p] assms by simp
qed

lemma yields_new_callback_of: "yields (counts p L K S) (new_callback_of sg f) (\<lambda>j. grown p True j S)"
proof (rule yields_counts)
  assume L: "\<And>a. L a \<le> 1" and ex: "p \<Longrightarrow> (\<forall>a. L a = 0) \<and> plain K S"
  show "yields (heap (slot_refs S) L K S) (new_callback_of sg f) (\<lambda>j. grown p True j S)"
    unfolding new_callback_of_def
    by (intro yields_bind [OF yields_new_impl] grows_new_slot yields_new_slot_grown L)
      (auto dest: ex intro: plain_mono)
qed

lemma clone_opt_lemma:
  assumes "\<And>a. L a \<le> 1" and "i < length S" "S ! i = Some x"
  shows "yields (heap (slot_refs S) L K S) (clone_opt (m_cb x))
    (\<lambda>q s. \<exists>L' K'. heap (add_ref q (slot_refs S)) L' K' S s \<and> (\<forall>a. L' a \<le> 1) \<and> K \<subseteq> K'
      \<and> (set_option (m_cb x) \<subseteq> K \<longrightarrow> L' = L \<and> set_option q \<subseteq> K'))"
proof (cases "m_cb x")
  case None
  with assms(1) show ?thesis by (auto simp: clone_opt_def intro!: yields_ret)
next
  case (Some a)
  show ?thesis
  proof (rule yieldsI)
    fix s r t
    assume h: "heap (slot_refs S) L K S s" and m: "clone_opt (m_cb x) s = (r, t)" and rm: "room t"
    have "0 < slot_refs S a"
      using slot_refs_nth [OF assms(2,3)] Some by (simp add: add_ref_def)
    then have live: "cell_at s a \<noteq> None" by (rule heapD(2) [OF h])
    obtain r' u where cl: "clone a s = (r', u)" by (cases "clone a s")
    with m Some have "u = t" by (auto simp: clone_opt_def bindM_def split: outcome.splits)
    with cl have cl: "clone a s = (r', t)" by simp
    have "\<And>b. slot_refs S b \<le> length S + 2" using slot_refs_le trans_le_add1 by blast
    from heap_clone [OF h live assms(1) this cl rm] obtain b L' K'
      where r': "r' = Ret b" and post: "heap (add_ref (Some b) (slot_refs S)) L' K' S t" "\<forall>x. L' x \<le> 1" "K \<subseteq> K'"
        "a \<in> K \<longrightarrow> L' = L \<and> b \<in> K'" by blast
    have r: "r = Ret (Some b)" using m cl r' Some by (simp add: clone_opt_def bindM_def)
    show "case r of Ret q \<Rightarrow> \<exists>L' K'. heap (add_ref q (slot_refs S)) L' K' S t \<and> (\<forall>a. L' a \<le> 1) \<and> K \<subseteq> K'
        \<and> (set_option (m_cb x) \<subseteq> K \<longrightarrow> L' = L \<and> set_option q \<subseteq> K')
      | Exc e \<Rightarrow> e \<noteq> Dangling_access | Abort \<Rightarrow> True | NoFuel \<Rightarrow> False"
      using r post Some by auto
  qed
qed

lemma yields_the_callback:
  "yields (heap E L K S) (the_callback i) (\<lambda>x s. heap E L K S s \<and> i < length S \<and> S ! i = Some x \<and> slot_is_callback x)"
  by (rule yieldsI) (auto simp: the_callback_def bindM_def the_slot_def slot_at_heap assertM_def split: option.splits if_splits)

lemma yields_the_cb_handle:
  "yields (heap E L K S) (the_cb_handle i) (\<lambda>x s. heap E L K S s \<and> i < length S \<and> S ! i = Some x \<and> \<not> slot_is_callback x)"
  by (rule yieldsI) (auto simp: the_cb_handle_def bindM_def the_slot_def slot_at_heap assertM_def split: option.splits if_splits)

lemma grows_copy_callback: "grows (copy_callback i)"
  unfolding callback_op_defs by (intro grow_intros)

lemma yields_copy_callback: "yields (counts p L K S) (copy_callback i) (\<lambda>j. grown p True j S)"
proof (rule yields_counts)
  assume L: "\<And>a. L a \<le> 1" and ex: "p \<Longrightarrow> (\<forall>a. L a = 0) \<and> plain K S"
  show "yields (heap (slot_refs S) L K S) (copy_callback i) (\<lambda>j. grown p True j S)"
    unfolding copy_callback_def
  proof (rule yields_bind [OF yields_the_callback])
    fix x :: cb_slot
    show "grows (bindM (clone_opt (m_cb x)) (\<lambda>q. new_slot True (slot_sig x) q))"
      unfolding clone_opt_def by (intro grow_intros)
    show "yields (\<lambda>s. heap (slot_refs S) L K S s \<and> i < length S \<and> S ! i = Some x \<and> slot_is_callback x)
        (bindM (clone_opt (m_cb x)) (\<lambda>q. new_slot True (slot_sig x) q)) (\<lambda>j. grown p True j S)"
    proof (rule yields_pure)
      assume i: "i < length S \<and> S ! i = Some x \<and> slot_is_callback x"
      show "yields (heap (slot_refs S) L K S) (bindM (clone_opt (m_cb x)) (\<lambda>q. new_slot True (slot_sig x) q)) (\<lambda>j. grown p True j S)"
      proof (rule yields_bind [OF clone_opt_lemma [OF L conjunct1 [OF i] conjunct1 [OF conjunct2 [OF i]]] grows_new_slot])
        fix q
        have sub: "set_option (m_cb x) \<subseteq> K" if p
          using ex that i plain_nth [of K S i x] by blast
        show "yields (\<lambda>s. \<exists>L' K'. heap (add_ref q (slot_refs S)) L' K' S s \<and> (\<forall>a. L' a \<le> 1) \<and> K \<subseteq> K'
              \<and> (set_option (m_cb x) \<subseteq> K \<longrightarrow> L' = L \<and> set_option q \<subseteq> K'))
            (new_slot True (slot_sig x) q) (\<lambda>j. grown p True j S)"
          using sub ex by (intro yields_ex yields_pure yields_new_slot_grown) (auto intro: plain_mono)
      qed
    qed
  qed
qed

lemma grows_move_callback: "grows (move_callback i)"
  unfolding callback_op_defs by (intro grow_intros)

lemma yields_move_callback: "yields (counts p L K S) (move_callback i) (\<lambda>j. grown p True j S)"
proof (rule yields_counts)
  assume L: "\<And>a. L a \<le> 1" and ex: "p \<Longrightarrow> (\<forall>a. L a = 0) \<and> plain K S"
  show "yields (heap (slot_refs S) L K S) (move_callback i) (\<lambda>j. \<lambda>s. grown p True j S s)"
    unfolding move_callback_def
  proof (rule yields_bind [OF yields_the_callback])
    fix x :: cb_slot
    show "grows (bindM (new_slot True (slot_sig x) (m_cb x)) (\<lambda>j. thenM (set_m_cb i None) (retM j)))"
      unfolding set_m_cb_def by (intro grow_intros)
    show "yields (\<lambda>s. heap (slot_refs S) L K S s \<and> i < length S \<and> S ! i = Some x \<and> slot_is_callback x)
        (bindM (new_slot True (slot_sig x) (m_cb x)) (\<lambda>j. thenM (set_m_cb i None) (retM j))) (\<lambda>j. grown p True j S)"
    proof (rule yields_pure)
      assume i: "i < length S \<and> S ! i = Some x \<and> slot_is_callback x"
      let ?y = "\<lparr>slot_is_callback = True, slot_sig = slot_sig x, m_cb = m_cb x\<rparr>"
      let ?T = "(S @ [Some ?y])[i := Some (x\<lparr>m_cb := None\<rparr>)]"
      have T: "?T = S[i := Some (x\<lparr>m_cb := None\<rparr>)] @ [Some ?y]" using i by (simp add: list_update_append1)
      have refs: "slot_refs ?T = slot_refs S"
        unfolding T slot_refs_snoc using i slot_refs_update [of i S "x\<lparr>m_cb := None\<rparr>"] slot_refs_nth [of i S x] by simp
      show "yields (heap (slot_refs S) L K S)
          (bindM (new_slot True (slot_sig x) (m_cb x)) (\<lambda>j. thenM (set_m_cb i None) (retM j))) (\<lambda>j. grown p True j S)"
      proof (rule yieldsI)
        fix s r t
        assume h: "heap (slot_refs S) L K S s"
          and m: "bindM (new_slot True (slot_sig x) (m_cb x)) (\<lambda>j. thenM (set_m_cb i None) (retM j)) s = (r, t)"
        have r: "r = Ret (length S)" and t: "t = s\<lparr>slots := ?T\<rparr>"
          using m i heapD(1) [OF h]
          by (auto simp: new_slot_def bindM_def set_m_cb_def the_slot_def slot_at_def put_slot_def nth_append)
        have "heap (slot_refs ?T) L K ?T t" unfolding refs t by (rule heap_slots [OF h]) simp_all
        moreover have "plain K ?T" if p
        proof -
          have "set_option (m_cb x) \<subseteq> K" using ex that i plain_nth [of K S i x] by blast
          with ex that show ?thesis by (intro plain_update plain_snoc) auto
        qed
        ultimately have c: "counts p L K ?T t" using L ex by (auto simp: counts_def)
        have "grown p True (length S) S t"
          using c i kinds_update [of i S x "x\<lparr>m_cb := None\<rparr>"] unfolding T grown_def by force
        with r show "case r of Ret j \<Rightarrow> grown p True j S t | Exc e \<Rightarrow> e \<noteq> Dangling_access | Abort \<Rightarrow> True | NoFuel \<Rightarrow> False"
          by simp
      qed
    qed
  qed
qed

text \<open>\<open>operator=\<close>: the copy takes what the variable had with it.\<close>

lemma yields_assign_from:
  assumes mk: "yields (counts p L K S) mk (\<lambda>j. grown p k j S)"
    and i: "i < length S" "map_option slot_is_callback (S ! i) = Some k"
  shows "yields (counts p L K S) (assign_from mk i) (\<lambda>_. counted p)"
  unfolding assign_from_def
proof (rule yields_bind [OF mk])
  fix j
  show "grows (thenM (swap_slots j i) (delete_slot j))"
    by (intro grow_intros grows_swap_slots grows_delete_slot)
  show "yields (grown p k j S) (thenM (swap_slots j i) (delete_slot j)) (\<lambda>_. counted p)"
    unfolding grown_def
  proof (intro yields_ex)
    fix L' K' T x
    have "yields (counts p L' K' (T @ [Some x])) (thenM (swap_slots j i) (delete_slot j)) (\<lambda>_. counted p)"
      if T: "kinds T = kinds S" "slot_is_callback x = k" "j = length S"
    proof -
      have len: "length T = length S" using kinds_length [OF T(1)] .
      obtain y where y: "T ! i = Some y" "slot_is_callback y = k"
        using kinds_nth [OF T(1) i(1)] i(2) by auto
      have "yields (counts p L' K' (T @ [Some x])) (swap_slots j i)
          (\<lambda>_ s. \<exists>T'. counts p L' K' T' s \<and> length T' = length (T @ [Some x]))"
        using i(1) len T y by (intro yields_swap_slots [of j _ x i y]) (auto simp: nth_append)
      then show ?thesis
      proof (rule yields_bind)
        show "yields (\<lambda>s. \<exists>T'. counts p L' K' T' s \<and> length T' = length (T @ [Some x])) (delete_slot j) (\<lambda>_. counted p)"
        proof (rule yields_ex)
          fix T'
          show "yields (\<lambda>s. counts p L' K' T' s \<and> length T' = length (T @ [Some x])) (delete_slot j) (\<lambda>_. counted p)"
            by (intro yields_pure yields_weaken [OF yields_delete_slot]) (auto simp: counted_def)
        qed
      qed (rule grows_delete_slot)
    qed
    then show "yields (\<lambda>s. counts p L' K' (T @ [Some x]) s \<and> kinds T = kinds S \<and> slot_is_callback x = k \<and> j = length S)
        (thenM (swap_slots j i) (delete_slot j)) (\<lambda>_. counted p)"
      by (intro yields_pure) auto
  qed
qed

lemma grown_counted: "grown p k j S s \<Longrightarrow> counted p s"
  by (auto simp: grown_def counted_def)

lemma counted_counts: "(\<And>L K S. yields (counts p L K S) m Q) \<Longrightarrow> yields (counted p) m Q"
  unfolding counted_def by (intro yields_ex)

text \<open>An adapter in a \<open>cci_callback\<close>: here exactness ends.\<close>

lemma yields_generalized: "yields (counts False L K S) (generalized_callback sg i) (\<lambda>j. grown False True j S)"
proof (rule yields_counts)
  assume L: "\<And>a. L a \<le> 1"
  show "yields (heap (slot_refs S) L K S) (generalized_callback sg i) (\<lambda>j. grown False True j S)"
    unfolding generalized_callback_def
  proof (rule yields_bind [OF yields_the_callback])
    fix x :: cb_slot
    let ?rest = "bindM (new_adapter sg (m_cb x)) (\<lambda>a. new_slot True (Some sg) (Some a))"
    let ?cond = "returns_void sg \<and> generic_of sg \<noteq> None \<and> generic_of sg = slot_sig x"
    have g: "grows ?rest" by (intro grow_intros)
    then show "grows (thenM (assertM ?cond) ?rest)" by (intro grow_intros)
    have rest: "yields (heap (slot_refs S) L K S) ?rest (\<lambda>j. grown False True j S)" if i: "i < length S" "S ! i = Some x"
    proof (rule yields_bind [OF _ grows_new_slot])
      have "slot_refs S g + L g \<le> length S + 4" for g
        using add_mono [OF slot_refs_le [of S g] L [of g]] by simp
      moreover have "0 < slot_refs S g" if "m_cb x = Some g" for g
        using slot_refs_nth [OF i] that by (simp add: add_ref_def)
      ultimately show "yields (heap (slot_refs S) L K S) (new_adapter sg (m_cb x)) (\<lambda>a. heap (add_ref (Some a) (slot_refs S)) L K S)"
        by (intro yields_weaken [OF yields_new_adapter]) (auto dest: heapD(2))
      show "yields (heap (add_ref (Some a) (slot_refs S)) L K S) (new_slot True (Some sg) (Some a)) (\<lambda>j. grown False True j S)" for a
        using L by (intro yields_new_slot_grown) auto
    qed
    show "yields (\<lambda>s. heap (slot_refs S) L K S s \<and> i < length S \<and> S ! i = Some x \<and> slot_is_callback x)
        (thenM (assertM ?cond) ?rest) (\<lambda>j. grown False True j S)"
      by (intro yields_pure yields_bind [OF yields_assert g]) (auto intro: rest)
  qed
qed

text \<open>A handle that shares.\<close>

lemma grows_share: "grows (share sg q)"
  unfolding callback_op_defs by (intro grow_intros)

lemma yields_share:
  assumes L: "\<And>a. L a \<le> 1" and i: "i < length S" "S ! i = Some x"
  shows "yields (heap (slot_refs S) L K S) (share sg (m_cb x))
    (\<lambda>j s. heap (slot_refs (S @ [Some \<lparr>slot_is_callback = False, slot_sig = sg, m_cb = m_cb x\<rparr>])) L K
              (S @ [Some \<lparr>slot_is_callback = False, slot_sig = sg, m_cb = m_cb x\<rparr>]) s \<and> j = length S)"
  unfolding share_def
proof (rule yields_bind [OF yields_new_slot])
  fix j :: slot_id
  let ?T = "S @ [Some \<lparr>slot_is_callback = False, slot_sig = sg, m_cb = m_cb x\<rparr>]"
  show "grows (thenM (acquire_opt (m_cb x)) (retM j))"
    unfolding acquire_opt_def by (intro grow_intros)
  have "slot_refs S a + L a \<le> length ?T + 4" for a
    using add_mono [OF slot_refs_le [of S a] L [of a]] by simp
  moreover have "0 < slot_refs S g" if "m_cb x = Some g" for g
    using slot_refs_nth [OF i] that by (simp add: add_ref_def)
  ultimately have acq: "yields (heap (slot_refs S) L K ?T) (acquire_opt (m_cb x)) (\<lambda>_. heap (add_ref (m_cb x) (slot_refs S)) L K ?T)"
    by (intro yields_weaken [OF yields_acquire_opt]) (auto dest: heapD(2))
  have "yields (heap (slot_refs S) L K ?T) (thenM (acquire_opt (m_cb x)) (retM j)) (\<lambda>j' s. heap (slot_refs ?T) L K ?T s \<and> j' = length S)"
    if "j = length S"
    using that by (intro yields_bind [OF acq] grow.keeps_retM yields_ret) (simp add: slot_refs_snoc)
  then show "yields (\<lambda>s. heap (slot_refs S) L K ?T s \<and> j = length S) (thenM (acquire_opt (m_cb x)) (retM j))
      (\<lambda>j s. heap (slot_refs ?T) L K ?T s \<and> j = length S)"
    by (intro yields_pure)
qed

lemma yields_share_grown:
  assumes L: "\<And>a. L a \<le> 1" and ex: "p \<Longrightarrow> (\<forall>a. L a = 0) \<and> plain K S" and i: "i < length S" "S ! i = Some x"
  shows "yields (heap (slot_refs S) L K S) (share sg (m_cb x)) (\<lambda>j. grown p False j S)"
proof (rule yields_weaken [OF yields_share [OF L i]])
  fix j s
  let ?y = "\<lparr>slot_is_callback = False, slot_sig = sg, m_cb = m_cb x\<rparr>"
  assume "heap (slot_refs (S @ [Some ?y])) L K (S @ [Some ?y]) s \<and> j = length S"
  then show "grown p False j S s"
    using grownI [of ?y S L K s p] L ex by (simp add: slot_refs_snoc)
qed auto

section \<open>Handles\<close>

lemma yields_share_of:
  assumes "\<And>E L. yields (heap E L K S) m (\<lambda>x s. heap E L K S s \<and> i < length S \<and> S ! i = Some x \<and> A x)"
  shows "yields (counts p L K S) (bindM m (\<lambda>x. thenM (assertM (B x)) (share sg (m_cb x)))) (\<lambda>j. grown p False j S)"
proof (rule yields_counts)
  assume L: "\<And>a. L a \<le> 1" and ex: "p \<Longrightarrow> (\<forall>a. L a = 0) \<and> plain K S"
  show "yields (heap (slot_refs S) L K S) (bindM m (\<lambda>x. thenM (assertM (B x)) (share sg (m_cb x)))) (\<lambda>j. grown p False j S)"
  proof (rule yields_bind [OF assms])
    fix x :: cb_slot
    show "grows (thenM (assertM (B x)) (share sg (m_cb x)))"
      by (intro grow_intros grows_share)
    show "yields (\<lambda>s. heap (slot_refs S) L K S s \<and> i < length S \<and> S ! i = Some x \<and> A x)
        (thenM (assertM (B x)) (share sg (m_cb x))) (\<lambda>j. grown p False j S)"
      by (intro yields_pure yields_bind [OF yields_assert grows_share]) (auto intro: yields_share_grown L dest: ex)
  qed
qed

lemma yields_copy_cb_handle: "yields (counts p L K S) (copy_cb_handle sg i) (\<lambda>j. grown p False j S)"
  unfolding copy_cb_handle_def by (rule yields_share_of [OF yields_the_cb_handle])

lemma yields_handle_of_callback: "yields (counts p L K S) (handle_of_callback sg i) (\<lambda>j. grown p False j S)"
  unfolding handle_of_callback_def by (rule yields_share_of [OF yields_the_callback])

lemma grows_copy_cb_handle: "grows (copy_cb_handle sg i)"
  unfolding copy_cb_handle_def the_cb_handle_def by (intro grow_intros grows_share)

lemma counts_the_callback:
  "yields (counts p L K S) (the_callback i) (\<lambda>x s. counts p L K S s \<and> i < length S \<and> S ! i = Some x \<and> slot_is_callback x)"
  by (rule yields_counts) (auto intro!: yields_weaken [OF yields_the_callback] simp: counts_def)

lemma counts_the_cb_handle:
  "yields (counts p L K S) (the_cb_handle i) (\<lambda>x s. counts p L K S s \<and> i < length S \<and> S ! i = Some x \<and> \<not> slot_is_callback x)"
  by (rule yields_counts) (auto intro!: yields_weaken [OF yields_the_cb_handle] simp: counts_def)

lemma yields_assign_cb_handle: "yields (counts p L K S) (assign_cb_handle h that) (\<lambda>_. counted p)"
  unfolding assign_cb_handle_def
proof (rule yields_bind [OF counts_the_cb_handle])
  fix x :: cb_slot
  show "grows (assign_from (copy_cb_handle (slot_sig x) that) h)"
    unfolding assign_from_def by (intro grow_intros grows_copy_cb_handle grows_swap_slots grows_delete_slot)
  show "yields (\<lambda>s. counts p L K S s \<and> h < length S \<and> S ! h = Some x \<and> \<not> slot_is_callback x)
      (assign_from (copy_cb_handle (slot_sig x) that) h) (\<lambda>_. counted p)"
    by (intro yields_pure yields_assign_from [OF yields_copy_cb_handle]) auto
qed

lemma yields_assign_callback:
  "yields (counts p L K S) (assign_callback i j) (\<lambda>_. counted p)"
  "yields (counts p L K S) (assign_callback_move i j) (\<lambda>_. counted p)"
proof -
  have "yields (counts p L K S) (thenM (the_callback i) (assign_from mk i)) (\<lambda>_. counted p)"
    if mk: "yields (counts p L K S) mk (\<lambda>j. grown p True j S)" and g: "grows mk" for mk
  proof (rule yields_bind [OF counts_the_callback])
    show "grows (assign_from mk i)"
      unfolding assign_from_def by (intro grow_intros g grows_swap_slots grows_delete_slot)
    show "yields (\<lambda>s. counts p L K S s \<and> i < length S \<and> S ! i = Some x \<and> slot_is_callback x) (assign_from mk i) (\<lambda>_. counted p)" for x
      by (intro yields_pure yields_assign_from [OF mk]) auto
  qed
  then show "yields (counts p L K S) (assign_callback i j) (\<lambda>_. counted p)"
    "yields (counts p L K S) (assign_callback_move i j) (\<lambda>_. counted p)"
    unfolding assign_callback_def assign_callback_move_def
    using yields_copy_callback grows_copy_callback yields_move_callback grows_move_callback by blast+
qed

lemma yields_swap_cb_handles: "yields (counts p L K S) (swap_cb_handles h that) (\<lambda>_. counted p)"
  unfolding swap_cb_handles_def
proof (rule yields_bind [OF counts_the_cb_handle])
  fix x :: cb_slot
  show "grows (thenM (the_cb_handle that) (swap_slots h that))"
    unfolding the_cb_handle_def by (intro grow_intros grows_swap_slots)
  show "yields (\<lambda>s. counts p L K S s \<and> h < length S \<and> S ! h = Some x \<and> \<not> slot_is_callback x)
      (thenM (the_cb_handle that) (swap_slots h that)) (\<lambda>_. counted p)"
  proof (intro yields_pure yields_bind [OF counts_the_cb_handle] grows_swap_slots)
    fix y :: cb_slot
    assume x: "h < length S \<and> S ! h = Some x \<and> \<not> slot_is_callback x"
      and y: "that < length S \<and> S ! that = Some y \<and> \<not> slot_is_callback y"
    show "yields (counts p L K S) (swap_slots h that) (\<lambda>_. counted p)"
      using x y by (intro yields_weaken [OF yields_swap_slots [of h S x that y]]) (auto simp: counted_def)
  qed
qed

text \<open>\<open>reset\<close>: the reference that the caller holds to the new object keeps it alive.\<close>

lemma grows_reset_handle: "grows (reset_handle h q)"
  unfolding callback_op_defs by (intro grow_intros)

lemma yields_reset_handle:
  assumes L: "\<And>a. L a \<le> 1" and h: "h < length S" "S ! h = Some x"
  shows "yields (heap (add_ref q (slot_refs S)) L K S) (reset_handle h q)
    (\<lambda>_. heap (add_ref q (slot_refs (S[h := Some (x\<lparr>m_cb := q\<rparr>)]))) L K (S[h := Some (x\<lparr>m_cb := q\<rparr>)]))"
  unfolding reset_handle_def
proof (rule yields_bind [OF yields_the_slot])
  fix y :: cb_slot
  let ?U = "S[h := None]" and ?T = "S[h := Some (x\<lparr>m_cb := q\<rparr>)]"
  show g: "grows (thenM (release_opt (m_cb y)) (thenM (set_m_cb h q) (acquire_opt q)))"
    unfolding release_opt_def set_m_cb_def acquire_opt_def by (intro grow_intros)
  have "yields (heap (add_ref q (slot_refs S)) L K S) (thenM (release_opt (m_cb x)) (thenM (set_m_cb h q) (acquire_opt q)))
      (\<lambda>_. heap (add_ref q (slot_refs ?T)) L K ?T)"
    unfolding slot_refs_nth [OF h] add_ref_commute [of q]
  proof (rule yields_bind [OF yields_release_opt])
    show "grows (thenM (set_m_cb h q) (acquire_opt q))"
      unfolding set_m_cb_def acquire_opt_def by (intro grow_intros)
    have set: "yields (heap (add_ref q (slot_refs ?U)) L K S) (set_m_cb h q) (\<lambda>_. heap (add_ref q (slot_refs ?U)) L K ?T)"
      using h by (intro yields_weaken [OF yields_set_m_cb [where x = x]]) auto
    have "add_ref q (slot_refs ?U) a + L a \<le> length ?T + 4" for a
      using add_mono [OF slot_refs_le [of ?U a] L [of a]] by (simp add: add_ref_def)
    then have acq: "yields (heap (add_ref q (slot_refs ?U)) L K ?T) (acquire_opt q)
        (\<lambda>_. heap (add_ref q (add_ref q (slot_refs ?U))) L K ?T)"
      by (intro yields_weaken [OF yields_acquire_opt]) (auto dest: heapD(2) simp: add_ref_def)
    have "grows (acquire_opt q)" unfolding acquire_opt_def by (intro grow_intros)
    then have "yields (heap (add_ref q (slot_refs ?U)) L K S) (thenM (set_m_cb h q) (acquire_opt q))
        (\<lambda>_. heap (add_ref q (add_ref q (slot_refs ?U))) L K ?T)"
      by (intro yields_bind [OF set] acq)
    then show "yields (heap (add_ref q (slot_refs ?U)) L K S) (thenM (set_m_cb h q) (acquire_opt q))
        (\<lambda>_. heap (add_ref q (slot_refs ?T)) L K ?T)"
      by (simp add: slot_refs_update h(1))
  qed
  then show "yields (\<lambda>s. heap (add_ref q (slot_refs S)) L K S s \<and> h < length S \<and> S ! h = Some y)
      (thenM (release_opt (m_cb y)) (thenM (set_m_cb h q) (acquire_opt q))) (\<lambda>_. heap (add_ref q (slot_refs ?T)) L K ?T)"
    using h(2) by (intro yields_pure) auto
qed

lemma yields_clear_handle: "yields (counts p L K S) (clear_handle h) (\<lambda>_. counted p)"
  unfolding clear_handle_def
proof (rule yields_bind [OF counts_the_cb_handle grows_reset_handle])
  fix x :: cb_slot
  show "yields (\<lambda>s. counts p L K S s \<and> h < length S \<and> S ! h = Some x \<and> \<not> slot_is_callback x) (reset_handle h None) (\<lambda>_. counted p)"
  proof (intro yields_pure yields_counts)
    assume x: "h < length S \<and> S ! h = Some x \<and> \<not> slot_is_callback x"
      and L: "\<And>a. L a \<le> 1" and ex: "p \<Longrightarrow> (\<forall>a. L a = 0) \<and> plain K S"
    let ?T = "S[h := Some (x\<lparr>m_cb := None\<rparr>)]"
    have "plain K ?T" if p using ex [OF that] by (intro plain_update) auto
    moreover have "yields (heap (add_ref None (slot_refs S)) L K S) (reset_handle h None) (\<lambda>_. heap (add_ref None (slot_refs ?T)) L K ?T)"
      using x by (intro yields_reset_handle L) auto
    ultimately show "yields (heap (slot_refs S) L K S) (reset_handle h None) (\<lambda>_. counted p)"
      using L ex by (elim yields_weaken) (auto simp: counted_def counts_def)
  qed
qed

section \<open>Following pointers\<close>

text \<open>What an adapter leads to exists as long as the adapter does.\<close>

lemma get_object_live:
  assumes "heap E L K S s" and "cell_at s a \<noteq> None"
  shows "cell_at s (get_object a s) \<noteq> None"
  using assms
proof (induction a s rule: get_object.induct)
  case (1 a s)
  then obtain c where c: "cell_at s a = Some c" by auto
  show ?case
  proof (cases "cc_content c")
    case (Callback_generic_adapt g)
    then have "g < a" and "cell_at s g \<noteq> None"
      using heapD(6) [OF "1.prems"(1) c] heapD(3) [OF "1.prems"(1)] adapt_refs_pos [OF c] by blast+
    with "1.IH" [OF c Callback_generic_adapt] "1.prems"(1) c Callback_generic_adapt show ?thesis
      by (subst get_object.simps) simp
  qed (use c in \<open>subst get_object.simps, simp\<close>)
qed

lemma invoke_object_live:
  assumes "heap E L K S s" and "cell_at s a \<noteq> None"
  shows "\<exists>x. invoke_object a s = (Ret x, s)"
  using assms
proof (induction a s rule: invoke_object.induct)
  case (1 a s)
  then obtain c where c: "cell_at s a = Some c" by auto
  show ?case
  proof (cases "cc_content c")
    case (Callback_generic_adapt g)
    then have "g < a" and "cell_at s g \<noteq> None"
      using heapD(6) [OF "1.prems"(1) c] heapD(3) [OF "1.prems"(1)] adapt_refs_pos [OF c] by blast+
    with "1.IH" [OF c Callback_generic_adapt] "1.prems"(1) c Callback_generic_adapt show ?thesis
      by (subst invoke_object.simps) simp
  qed (use c in \<open>subst invoke_object.simps, simp\<close>)
qed

lemma slot_live:
  assumes "heap (add_ref q (slot_refs S)) L K S s" and "i < length S" "S ! i = Some x" "m_cb x = Some a"
  shows "cell_at s a \<noteq> None"
  using assms slot_refs_nth [of i S x] by (intro heapD(2) [OF assms(1)]) (simp add: add_ref_def)

lemma counts_slot_live:
  "counts p L K S s \<Longrightarrow> i < length S \<Longrightarrow> S ! i = Some x \<Longrightarrow> m_cb x = Some a \<Longrightarrow> cell_at s a \<noteq> None"
  using slot_live [of None S L K s i x a] by (auto simp: counts_def)

lemma yields_cast_to: "yields (\<lambda>s. P s \<and> cell_at s a \<noteq> None) (cast_to sg a) (\<lambda>_ s. P s \<and> cell_at s a \<noteq> None)"
  by (rule yieldsI) (auto simp: cast_to_def bindM_def the_cell_def)

lemma grows_cast_to: "grows (cast_to sg a)"
  unfolding cast_to_def by (intro grow_intros)

lemma counts_counted: "counts p L K S s \<Longrightarrow> counted p s"
  by (auto simp: counted_def)

lemma yields_invoke_object:
  "yields (\<lambda>s. counts p L K S s \<and> cell_at s a \<noteq> None) (invoke_object a) (\<lambda>_. counted p)"
proof (rule yieldsI)
  fix s r t
  assume P: "counts p L K S s \<and> cell_at s a \<noteq> None" and m: "invoke_object a s = (r, t)"
  obtain x where "invoke_object a s = (Ret x, s)"
    using invoke_object_live [OF counts_heap [OF conjunct1 [OF P]] conjunct2 [OF P]] by blast
  with P m show "case r of Ret x \<Rightarrow> counted p t | Exc e \<Rightarrow> e \<noteq> Dangling_access | Abort \<Rightarrow> True | NoFuel \<Rightarrow> False"
    by (auto intro: counts_counted)
qed

text \<open>The three ways to invoke end in the functor of a live object.\<close>

lemma yields_invoke_callback: "yields (counts p L K S) (invoke_callback i) (\<lambda>_. counted p)"
  unfolding invoke_callback_def
proof (rule yields_bind [OF counts_the_callback])
  fix x :: cb_slot
  show "grows (case m_cb x of None \<Rightarrow> abortM | Some a \<Rightarrow> invoke_object a)" by (intro grow_intros)
  show "yields (\<lambda>s. counts p L K S s \<and> i < length S \<and> S ! i = Some x \<and> slot_is_callback x)
      (case m_cb x of None \<Rightarrow> abortM | Some a \<Rightarrow> invoke_object a) (\<lambda>_. counted p)"
    by (intro yields_option yields_abort yields_weaken [OF yields_invoke_object]) (auto dest: counts_slot_live)
qed

lemma yields_invoke_cast:
  assumes "h < length S" "S ! h = Some x" "m_cb x = Some a" and "\<And>b. grows (f b)"
    and "\<And>b. yields (\<lambda>s. counts p L K S s \<and> cell_at s a \<noteq> None) (f b) Q"
  shows "yields (counts p L K S) (bindM (cast_to sg a) f) Q"
proof (rule yields_bind [where Q = "\<lambda>_ s. counts p L K S s \<and> cell_at s a \<noteq> None"])
  show "yields (counts p L K S) (cast_to sg a) (\<lambda>_ s. counts p L K S s \<and> cell_at s a \<noteq> None)"
    by (rule yields_weaken [OF yields_cast_to [where P = "counts p L K S"]])
      (use counts_slot_live assms(1-3) in blast)+
qed (rule assms)+

lemma yields_invoke_checked: "yields (counts p L K S) (invoke_checked sg h) (\<lambda>_. counted p)"
  unfolding invoke_checked_def
proof (rule yields_bind [OF counts_the_cb_handle])
  fix x :: cb_slot
  show "grows (case m_cb x of None \<Rightarrow> abortM | Some a \<Rightarrow> bindM (cast_to sg a) (\<lambda>b. thenM (assertM b) (invoke_object a)))"
    by (intro grow_intros grows_cast_to)
  show "yields (\<lambda>s. counts p L K S s \<and> h < length S \<and> S ! h = Some x \<and> \<not> slot_is_callback x)
      (case m_cb x of None \<Rightarrow> abortM | Some a \<Rightarrow> bindM (cast_to sg a) (\<lambda>b. thenM (assertM b) (invoke_object a))) (\<lambda>_. counted p)"
  proof (intro yields_pure yields_option yields_abort)
    fix a
    assume x: "h < length S \<and> S ! h = Some x \<and> \<not> slot_is_callback x" and a: "m_cb x = Some a"
    show "yields (counts p L K S) (bindM (cast_to sg a) (\<lambda>b. thenM (assertM b) (invoke_object a))) (\<lambda>_. counted p)"
      using x a
      by (intro yields_invoke_cast [of h S x a]) (auto intro: yields_invoke_object yields_abort grow_intros simp del: not_None_eq simp: assertM_def)
  qed
qed

lemma grows_unchecked_invoke: "grows (unchecked_invoke sg h)"
  unfolding unchecked_invoke_def the_cb_handle_def cast_to_def by (intro grow_intros)

lemma yields_unchecked_invoke: "yields (counts p L K S) (unchecked_invoke sg h) (\<lambda>_. counted p)"
  unfolding unchecked_invoke_def
proof (rule yields_bind [OF counts_the_cb_handle])
  fix x :: cb_slot
  show "grows (case m_cb x of None \<Rightarrow> abortM | Some a \<Rightarrow> bindM (cast_to sg a) (\<lambda>b. if b then invoke_object a else throwM Bad_cast))"
    by (intro grow_intros grows_cast_to)
  show "yields (\<lambda>s. counts p L K S s \<and> h < length S \<and> S ! h = Some x \<and> \<not> slot_is_callback x)
      (case m_cb x of None \<Rightarrow> abortM | Some a \<Rightarrow> bindM (cast_to sg a) (\<lambda>b. if b then invoke_object a else throwM Bad_cast)) (\<lambda>_. counted p)"
  proof (intro yields_pure yields_option yields_abort)
    fix a
    assume x: "h < length S \<and> S ! h = Some x \<and> \<not> slot_is_callback x" and a: "m_cb x = Some a"
    show "yields (counts p L K S) (bindM (cast_to sg a) (\<lambda>b. if b then invoke_object a else throwM Bad_cast)) (\<lambda>_. counted p)"
      using x a
      by (intro yields_invoke_cast [of h S x a]) (auto intro: yields_invoke_object yields_throw grow_intros simp del: not_None_eq)
  qed
qed

lemma yields_invoke_typed: "yields (counts p L K S) (invoke_typed h) (\<lambda>_. counted p)"
  unfolding invoke_typed_def
proof (rule yields_bind [OF counts_the_cb_handle])
  fix x :: cb_slot
  show "grows (case slot_sig x of None \<Rightarrow> abortM | Some sg \<Rightarrow> unchecked_invoke sg h)"
    by (intro grow_intros grows_unchecked_invoke)
  show "yields (\<lambda>s. counts p L K S s \<and> h < length S \<and> S ! h = Some x \<and> \<not> slot_is_callback x)
      (case slot_sig x of None \<Rightarrow> abortM | Some sg \<Rightarrow> unchecked_invoke sg h) (\<lambda>_. counted p)"
    by (intro yields_pure yields_option yields_abort yields_unchecked_invoke)
qed

section \<open>Recovering a type\<close>

lemma grows_valid_for: "grows (valid_for sg h)"
  unfolding valid_for_def by (intro grow_intros grows_cast_to)

lemma yields_valid_for:
  assumes "h < length S" "S ! h = Some x"
  shows "yields (heap (slot_refs S) L K S) (valid_for sg h) (\<lambda>_. heap (slot_refs S) L K S)"
  unfolding valid_for_def
proof (rule yields_bind [OF yields_the_slot])
  fix y :: cb_slot
  show "grows (case m_cb y of None \<Rightarrow> retM False | Some a \<Rightarrow> cast_to sg a)"
    by (intro grow_intros grows_cast_to)
  show "yields (\<lambda>s. heap (slot_refs S) L K S s \<and> h < length S \<and> S ! h = Some y)
      (case m_cb y of None \<Rightarrow> retM False | Some a \<Rightarrow> cast_to sg a) (\<lambda>_. heap (slot_refs S) L K S)"
  proof (intro yields_pure yields_option yields_ret)
    fix a
    assume y: "h < length S \<and> S ! h = Some y" and a: "m_cb y = Some a"
    show "yields (heap (slot_refs S) L K S) (cast_to sg a) (\<lambda>_. heap (slot_refs S) L K S)"
      by (rule yields_weaken [OF yields_cast_to [where P = "heap (slot_refs S) L K S"]])
        (use slot_live [of None S L K _ h y a] y a in auto)
  qed
qed

lemma yields_get_of:
  "yields (heap (slot_refs S) L K S) (get_of h) (\<lambda>q s. heap (slot_refs S) L K S s \<and> (\<forall>a. q = Some a \<longrightarrow> cell_at s a \<noteq> None))"
proof (rule yieldsI)
  fix s r t
  assume h: "heap (slot_refs S) L K S s" and m: "get_of h s = (r, t)"
  show "case r of Ret q \<Rightarrow> heap (slot_refs S) L K S t \<and> (\<forall>a. q = Some a \<longrightarrow> cell_at t a \<noteq> None)
    | Exc e \<Rightarrow> e \<noteq> Dangling_access | Abort \<Rightarrow> True | NoFuel \<Rightarrow> False"
  proof (cases "slot_at s h")
    case None
    with m show ?thesis by (auto simp: get_of_def bindM_def the_slot_def)
  next
    case (Some x)
    then have "cell_at s a \<noteq> None" if "m_cb x = Some a" for a
      using slot_live [of None S L K s h x a] h that by (simp add: slot_at_heap [OF h])
    then have "cell_at s (get_object a s) \<noteq> None" if "m_cb x = Some a" for a
      using get_object_live [OF h] that by blast
    with m h Some show ?thesis
      by (auto simp: get_of_def bindM_def the_slot_def)
  qed
qed

lemma grows_get_of: "grows (get_of h)"
  unfolding get_of_def by (intro grow_intros)

lemma grows_convert: "grows (convert sg q)"
proof (cases "generic_of sg"; cases q)
  fix gs f
  assume "generic_of sg = Some gs" "q = Some f"
  then show ?thesis by (simp add: convert_def) (intro grow_intros grows_cast_to)
qed (simp_all add: convert_def grow.keeps_retM)

lemma yields_convert:
  assumes E: "\<And>a. E a + L a \<le> length S + 4"
  shows "yields (\<lambda>s. heap E L K S s \<and> (\<forall>a. q = Some a \<longrightarrow> cell_at s a \<noteq> None)) (convert sg q)
    (\<lambda>ad. heap (add_ref ad E) L K S)"
proof (cases "generic_of sg"; cases q)
  fix gs f
  assume gs: "generic_of sg = Some gs" and q: "q = Some f"
  have ad: "yields (\<lambda>s. heap E L K S s \<and> cell_at s f \<noteq> None)
      (if b then bindM (new_adapter sg (Some f)) (\<lambda>a. retM (Some a)) else retM None) (\<lambda>ad. heap (add_ref ad E) L K S)" for b
  proof (intro yields_if)
    show "yields (\<lambda>s. heap E L K S s \<and> cell_at s f \<noteq> None) (bindM (new_adapter sg (Some f)) (\<lambda>a. retM (Some a)))
        (\<lambda>ad. heap (add_ref ad E) L K S)"
    proof (rule yields_bind [where Q = "\<lambda>a. heap (add_ref (Some a) E) L K S"])
      show "yields (\<lambda>s. heap E L K S s \<and> cell_at s f \<noteq> None) (new_adapter sg (Some f)) (\<lambda>a. heap (add_ref (Some a) E) L K S)"
        by (rule yields_weaken [OF yields_new_adapter]) (auto intro: E)
    qed (auto intro: yields_ret grow_intros simp del: retM_apply)
  qed (auto intro: yields_ret)
  have "yields (\<lambda>s. heap E L K S s \<and> cell_at s f \<noteq> None)
      (bindM (cast_to gs f) (\<lambda>b. if b then bindM (new_adapter sg (Some f)) (\<lambda>a. retM (Some a)) else retM None))
      (\<lambda>ad. heap (add_ref ad E) L K S)"
    by (rule yields_bind [OF yields_cast_to [where P = "heap E L K S"]]) (intro grow_intros ad)+
  with gs q show ?thesis by (simp add: convert_def)
qed (auto simp: convert_def intro: yields_ret)

lemma grows_recover_type: "grows (recover_type sg h)"
  unfolding recover_type_def the_cb_handle_def release_opt_def
  by (intro grow_intros grows_share grows_valid_for grows_get_of grows_convert grows_reset_handle)

text \<open>The part of the constructor after the copy of the untyped handle.\<close>

lemma yields_recover_adapt:
  assumes L: "\<And>a. L a \<le> 1" and ex: "p \<Longrightarrow> (\<forall>a. L a = 0) \<and> plain K T" and j: "j < length T" "T ! j = Some y"
    and y: "\<not> slot_is_callback y"
  shows "yields (heap (slot_refs T) L K T)
    (bindM (get_of j) (\<lambda>q. bindM (convert sg q) (\<lambda>ad. thenM (reset_handle j ad) (thenM (release_opt ad) (retM j))))) (\<lambda>_. counted p)"
proof (rule yields_bind [OF yields_get_of])
  fix q
  have g: "grows (thenM (reset_handle j ad) (thenM (release_opt ad) (retM j)))" for ad
    unfolding release_opt_def by (intro grow_intros grows_reset_handle)
  show "grows (bindM (convert sg q) (\<lambda>ad. thenM (reset_handle j ad) (thenM (release_opt ad) (retM j))))"
    by (intro grow_intros grows_convert g)
  have E: "slot_refs T a + L a \<le> length T + 4" for a
    using add_mono [OF slot_refs_le [of T a] L [of a]] by simp
  show "yields (\<lambda>s. heap (slot_refs T) L K T s \<and> (\<forall>a. q = Some a \<longrightarrow> cell_at s a \<noteq> None))
      (bindM (convert sg q) (\<lambda>ad. thenM (reset_handle j ad) (thenM (release_opt ad) (retM j)))) (\<lambda>_. counted p)"
  proof (rule yields_bind [OF yields_convert [OF E] g])
    fix ad
    let ?U = "T[j := Some (y\<lparr>m_cb := ad\<rparr>)]"
    have "plain K ?U" if p using ex [OF that] y by (intro plain_update) auto
    then have fin: "heap (slot_refs ?U) L K ?U s \<Longrightarrow> counted p s" for s
      using L ex unfolding counted_def counts_def by blast
    have "yields (heap (add_ref ad (slot_refs ?U)) L K ?U) (thenM (release_opt ad) (retM j)) (\<lambda>_. counted p)"
      by (rule yields_bind [OF yields_release_opt]) (auto intro: yields_ret grow_intros fin simp del: retM_apply)
    moreover have "grows (thenM (release_opt ad) (retM j))"
      unfolding release_opt_def by (intro grow_intros)
    ultimately show "yields (heap (add_ref ad (slot_refs T)) L K T) (thenM (reset_handle j ad) (thenM (release_opt ad) (retM j))) (\<lambda>_. counted p)"
      by (intro yields_bind [OF yields_reset_handle [OF L j]])
  qed
qed

lemma yields_recover_type: "yields (counts p L K S) (recover_type sg h) (\<lambda>_. counted p)"
  unfolding recover_type_def
proof (rule yields_bind [OF counts_the_cb_handle])
  fix x :: cb_slot
  let ?T = "S @ [Some \<lparr>slot_is_callback = False, slot_sig = Some sg, m_cb = m_cb x\<rparr>]"
  let ?adapt = "\<lambda>j. bindM (get_of j) (\<lambda>q. bindM (convert sg q) (\<lambda>ad. thenM (reset_handle j ad) (thenM (release_opt ad) (retM j))))"
  let ?rest = "\<lambda>j. if m_cb x = None then retM j else bindM (valid_for sg j) (\<lambda>b. if b then retM j else ?adapt j)"
  have g: "grows (?adapt j)" for j
    unfolding release_opt_def by (intro grow_intros grows_get_of grows_convert grows_reset_handle)
  have g': "grows (?rest j)" for j
    by (intro grow_intros grows_valid_for g)
  show "grows (bindM (share (Some sg) (m_cb x)) ?rest)"
    by (intro grow_intros grows_share g')
  show "yields (\<lambda>s. counts p L K S s \<and> h < length S \<and> S ! h = Some x \<and> \<not> slot_is_callback x)
      (bindM (share (Some sg) (m_cb x)) ?rest) (\<lambda>_. counted p)"
  proof (intro yields_pure yields_counts)
    assume x: "h < length S \<and> S ! h = Some x \<and> \<not> slot_is_callback x"
      and L: "\<And>a. L a \<le> 1" and ex: "p \<Longrightarrow> (\<forall>a. L a = 0) \<and> plain K S"
    have exT: "(\<forall>a. L a = 0) \<and> plain K ?T" if p
      using ex [OF that] by (auto intro: plain_snoc)
    have fin: "heap (slot_refs ?T) L K ?T s \<Longrightarrow> counted p s" for s
      using L exT unfolding counted_def counts_def by blast
    show "yields (heap (slot_refs S) L K S) (bindM (share (Some sg) (m_cb x)) ?rest) (\<lambda>_. counted p)"
    proof (rule yields_bind [OF yields_share [OF L] g'])
      fix j
      have "yields (heap (slot_refs ?T) L K ?T) (?rest j) (\<lambda>_. counted p)" if j: "j = length S"
      proof (intro yields_if yields_ret fin)
        have T: "j < length ?T" "?T ! j = Some \<lparr>slot_is_callback = False, slot_sig = Some sg, m_cb = m_cb x\<rparr>"
          using j by simp_all
        show "yields (heap (slot_refs ?T) L K ?T) (bindM (valid_for sg j) (\<lambda>b. if b then retM j else ?adapt j)) (\<lambda>_. counted p)"
        proof (rule yields_bind [OF yields_valid_for [OF T]])
          fix b
          show "grows (if b then retM j else ?adapt j)" by (intro grow_intros g)
          show "yields (heap (slot_refs ?T) L K ?T) (if b then retM j else ?adapt j) (\<lambda>_. counted p)"
            by (intro yields_if yields_ret fin yields_recover_adapt [OF L exT T]) auto
        qed
      qed
      then show "yields (\<lambda>s. heap (slot_refs ?T) L K ?T s \<and> j = length S) (?rest j) (\<lambda>_. counted p)"
        by (intro yields_pure)
    qed (use x in auto)
  qed
qed

end
