(* ===== verification/Callback_Properties.thy ===== *)
theory Callback_Properties
  imports Callback_Runs
begin

text \<open>
  Programs over callbacks and handles, and the properties of callback objects: they live as long as
  something refers to them and no longer, unless a copy of an adapter loses one; and typed
  handles are what the model of parameters takes them for.
\<close>

section \<open>Programs\<close>

datatype cb_call =
    New_callback cb_sig functor_id
  | Copy_callback slot_id
  | Move_callback slot_id
  | Generalized_callback cb_sig slot_id
  | Assign_callback slot_id slot_id
  | Assign_callback_move slot_id slot_id
  | Invoke_callback slot_id
  | New_cb_handle "cb_sig option"
  | Handle_of_callback "cb_sig option" slot_id
  | Copy_cb_handle "cb_sig option" slot_id
  | Assign_cb_handle slot_id slot_id
  | Swap_cb_handles slot_id slot_id
  | Clear_handle slot_id
  | Recover_type cb_sig slot_id
  | Invoke_checked cb_sig slot_id
  | Invoke_typed slot_id
  | Delete_variable slot_id

fun cb_dispatch :: "cb_call \<Rightarrow> unit cb_comp" where
  "cb_dispatch (New_callback sg f) = thenM (new_callback_of sg f) skipM"
| "cb_dispatch (Copy_callback i) = thenM (copy_callback i) skipM"
| "cb_dispatch (Move_callback i) = thenM (move_callback i) skipM"
| "cb_dispatch (Generalized_callback sg i) = thenM (generalized_callback sg i) skipM"
| "cb_dispatch (Assign_callback i j) = assign_callback i j"
| "cb_dispatch (Assign_callback_move i j) = assign_callback_move i j"
| "cb_dispatch (Invoke_callback i) = thenM (invoke_callback i) skipM"
| "cb_dispatch (New_cb_handle sg) = thenM (new_cb_handle sg) skipM"
| "cb_dispatch (Handle_of_callback sg i) = thenM (handle_of_callback sg i) skipM"
| "cb_dispatch (Copy_cb_handle sg h) = thenM (copy_cb_handle sg h) skipM"
| "cb_dispatch (Assign_cb_handle h that) = assign_cb_handle h that"
| "cb_dispatch (Swap_cb_handles h that) = swap_cb_handles h that"
| "cb_dispatch (Clear_handle h) = clear_handle h"
| "cb_dispatch (Recover_type sg h) = thenM (recover_type sg h) skipM"
| "cb_dispatch (Invoke_checked sg h) = thenM (invoke_checked sg h) skipM"
| "cb_dispatch (Invoke_typed h) = thenM (invoke_typed h) skipM"
| "cb_dispatch (Delete_variable i) = delete_slot i"

fun cb_run :: "cb_call list \<Rightarrow> unit cb_comp" where
  "cb_run [] = skipM"
| "cb_run (c # cs) = thenM (cb_dispatch c) (cb_run cs)"

fun generalizes :: "cb_call \<Rightarrow> bool" where
  "generalizes (Generalized_callback sg i) \<longleftrightarrow> True"
| "generalizes _ \<longleftrightarrow> False"

definition no_objects :: cb_state where
  "no_objects = \<lparr>cells = [], slots = []\<rparr>"

text \<open>All references to an object.\<close>

definition refs_to :: "cb_state \<Rightarrow> cb_addr \<Rightarrow> nat" where
  "refs_to s a = slot_refs (slots s) a + adapt_refs s a"

section \<open>Every call keeps the counts\<close>

lemma grows_dispatch: "grows (cb_dispatch c)"
  by (cases c) (simp_all add: callback_op_defs del: retM_apply; intro grow_intros)+

lemma grows_run: "grows (cb_run cs)"
  by (induction cs) (simp_all del: retM_apply add: grow.keeps_retM grow.keeps_bindM grows_dispatch)

lemma yields_then_skip:
  assumes "yields P m (\<lambda>x. Q x)" and "\<And>x s. Q x s \<Longrightarrow> counted p s"
  shows "yields P (thenM m skipM) (\<lambda>_. counted p)"
  by (rule yields_bind [OF assms(1) grow.keeps_retM yields_ret]) (rule assms(2))

lemma yields_new_cb_handle: "yields (counts p L K S) (new_cb_handle sg) (\<lambda>j. grown p False j S)"
proof (rule yields_counts)
  assume "\<And>a. L a \<le> 1" and "p \<Longrightarrow> (\<forall>a. L a = 0) \<and> plain K S"
  then show "yields (heap (slot_refs S) L K S) (new_cb_handle sg) (\<lambda>j. grown p False j S)"
    using yields_new_slot_grown [of L p K S False None sg] by (simp add: new_cb_handle_def)
qed

lemmas constructor_yields = yields_new_callback_of yields_copy_callback yields_move_callback yields_new_cb_handle
  yields_handle_of_callback yields_copy_cb_handle

lemmas other_yields = yields_assign_callback yields_invoke_callback yields_assign_cb_handle yields_swap_cb_handles
  yields_clear_handle yields_recover_type yields_invoke_checked yields_invoke_typed

lemma yields_dispatch:
  assumes "p \<Longrightarrow> \<not> generalizes c"
  shows "yields (counted p) (cb_dispatch c) (\<lambda>_. counted p)"
proof (rule counted_counts)
  fix L K S
  show "yields (counts p L K S) (cb_dispatch c) (\<lambda>_. counted p)"
  proof (cases "generalizes c")
    case True
    with assms have "\<not> p" by blast
    with True show ?thesis
      by (cases c) (auto intro: yields_then_skip [OF yields_generalized grown_counted] simp del: retM_apply)
  next
    case False
    then show ?thesis
      by (cases c)
        (simp_all del: retM_apply,
          (rule other_yields yields_then_skip [OF constructor_yields(1) grown_counted]
            yields_then_skip [OF constructor_yields(2) grown_counted] yields_then_skip [OF constructor_yields(3) grown_counted]
            yields_then_skip [OF constructor_yields(4) grown_counted] yields_then_skip [OF constructor_yields(5) grown_counted]
            yields_then_skip [OF constructor_yields(6) grown_counted] yields_then_skip [OF yields_invoke_callback]
            yields_then_skip [OF yields_recover_type] yields_then_skip [OF yields_invoke_checked]
            yields_then_skip [OF yields_invoke_typed] yields_weaken [OF yields_delete_slot]; (assumption | erule counts_counted)?)+)
  qed
qed

lemma yields_run:
  assumes "p \<Longrightarrow> \<not> (\<exists>c \<in> set cs. generalizes c)"
  shows "yields (counted p) (cb_run cs) (\<lambda>_. counted p)"
  using assms
proof (induction cs)
  case Nil
  show ?case by (simp add: yields_ret del: retM_apply)
next
  case (Cons c cs)
  then have "yields (counted p) (cb_dispatch c) (\<lambda>_. counted p)"
    by (intro yields_dispatch) auto
  then show ?case
    using Cons by (auto intro!: yields_bind grows_run)
qed

lemma counted_none: "counted True no_objects"
  unfolding counted_def counts_def
  by (intro exI [where x = "\<lambda>_. 0"] exI [where x = "{}"] exI [where x = "[]"])
    (auto simp: plain_def no_objects_def slot_refs_def adapt_refs_def cell_at_def intro!: heapI)

section \<open>The life of callback objects\<close>

text \<open>
  C17. No dangling callbacks. Whatever a program does with callbacks and handles, no object is used
  after its destruction: when the program returns, each callback and each handle that points to an
  object points to one that exists, and the count of an object is the number of the references to
  it, or one more. Fewer than \<open>2 ^ 32 - 8\<close> objects and variables are created, so that no count
  overflows.
\<close>

theorem callback_objects_counted:
  assumes "cb_run cs no_objects = (r, t)" and "room t"
  shows "r \<noteq> Exc Dangling_access \<and> r \<noteq> NoFuel
    \<and> (r = Ret () \<longrightarrow> (\<forall>x a. Some x \<in> set (slots t) \<and> m_cb x = Some a \<longrightarrow> cell_at t a \<noteq> None)
        \<and> (\<forall>a c. cell_at t a = Some c \<longrightarrow> refs_to t a \<le> unat (m_refcnt c) \<and> unat (m_refcnt c) \<le> refs_to t a + 1))"
proof -
  have "yields (counted False) (cb_run cs) (\<lambda>_. counted False)" by (rule yields_run) simp
  moreover have "counted False no_objects" using counted_none by (auto simp: counted_def counts_def)
  ultimately have *: "case r of Ret x \<Rightarrow> counted False t | Exc e \<Rightarrow> e \<noteq> Dangling_access | Abort \<Rightarrow> True | NoFuel \<Rightarrow> False"
    using assms by (rule yieldsD)
  show ?thesis
  proof (cases "r = Ret ()")
    case True
    with * obtain L K S where c: "counts False L K S t" by (auto simp: counted_def)
    then have S: "slots t = S" and L: "\<And>a. L a \<le> 1" by (auto simp: counts_def dest: heapD(1))
    have "cell_at t a \<noteq> None" if "Some x \<in> set (slots t)" "m_cb x = Some a" for x a
      using that S counts_slot_live [OF c, of _ x a] by (metis in_set_conv_nth)
    moreover have "refs_to t a \<le> unat (m_refcnt c) \<and> unat (m_refcnt c) \<le> refs_to t a + 1" if "cell_at t a = Some c" for a c
      using heapD(4) [OF counts_heap [OF c] that] S L [of a] by (simp add: refs_to_def)
    ultimately show ?thesis using True by auto
  qed (use * in \<open>auto split: outcome.splits\<close>)
qed

theorem callback_objects_counted_witness:
  "\<exists>t. cb_run [New_callback (Sig_read None) 7, Handle_of_callback None 0, Delete_variable 0,
         Recover_type (Sig_read (Some 3)) 1, Delete_variable 1] no_objects = (Ret (), t)
     \<and> cell_at t 0 \<noteq> None \<and> m_cb (the (slots t ! 2)) = Some 1"
proof -
  let ?cs = "[New_callback (Sig_read None) 7, Handle_of_callback None 0, Delete_variable 0,
         Recover_type (Sig_read (Some 3)) 1, Delete_variable 1]"
  have run: "\<exists>t. cb_run ?cs no_objects = (Ret (), t) \<and> room t
      \<and> slots t = [None, None, Some \<lparr>slot_is_callback = False, slot_sig = Some (Sig_read (Some 3)), m_cb = Some 1\<rparr>]
      \<and> cell_at t 0 = Some \<lparr>cc_sig = Sig_read None, cc_content = Callback_impl 7, m_refcnt = 1\<rparr>"
    by (simp add: callback_op_defs bindM_def the_slot_def slot_at_def new_cell_def new_slot_def put_slot_def no_objects_def
        acquire_def the_cell_def cell_at_def put_cell_def release.simps get_object.simps new_adapter_def assertM_def
        room_def size_of_def)
  then obtain t where t: "cb_run ?cs no_objects = (Ret (), t)" "room t"
    "slots t = [None, None, Some \<lparr>slot_is_callback = False, slot_sig = Some (Sig_read (Some 3)), m_cb = Some 1\<rparr>]" by blast
  have "cell_at t 0 \<noteq> None" using run t(1) by auto
  moreover have "cell_at t 1 \<noteq> None"
    using callback_objects_counted [OF t(1,2)] t(3) by simp
  ultimately show ?thesis using t by auto
qed

text \<open>An object without a reference from a variable has one from a younger adapter.\<close>

lemma exact_referenced:
  assumes h: "heap (slot_refs S) (\<lambda>_. 0) K S s" and c: "cell_at s a = Some c" and none: "slot_refs S a = 0"
  shows "\<exists>b. a < b \<and> cell_at s b \<noteq> None"
proof -
  have "0 < adapt_refs s a" using heapD(4,5) [OF h c] none by simp
  then obtain d where "Some d \<in> set (cells s)" "cc_content d = Callback_generic_adapt a"
    by (auto simp: adapt_refs_def adapts_def filter_empty_conv split: option.splits)
  then obtain b where b: "b < length (cells s)" "cells s ! b = Some d" by (metis in_set_conv_nth)
  then have bd: "cell_at s b = Some d" by (simp add: cell_at_def)
  with heapD(6) [OF h bd] \<open>cc_content d = Callback_generic_adapt a\<close> show ?thesis by blast
qed

lemma exact_all_released:
  assumes h: "heap (slot_refs S) (\<lambda>_. 0) K S s" and none: "\<And>a. slot_refs S a = 0"
  shows "cell_at s a = None"
proof (induction "length (cells s) - a" arbitrary: a rule: less_induct)
  case less
  show ?case
  proof (rule ccontr)
    assume "cell_at s a \<noteq> None"
    then obtain c where c: "cell_at s a = Some c" by auto
    from exact_referenced [OF h c none] obtain b where b: "a < b" "cell_at s b \<noteq> None" by blast
    have "length (cells s) - b < length (cells s) - a" using b(1) cell_at_lt [OF c] by linarith
    then have "cell_at s b = None" by (rule less)
    with b(2) show False by simp
  qed
qed

text \<open>
  C27. Callbacks do not leak. When a program has destroyed all its callbacks and handles, no callback
  object and no adapter is left, however they were shared, copied and converted in between;
  provided that no \<open>cci_callback\<close> was constructed from a generalised one (see
  \<open>copied_adapter_leaks\<close>).
\<close>

theorem callback_objects_released:
  assumes "cb_run cs no_objects = (Ret (), t)" and "room t"
    and "\<forall>c \<in> set cs. \<not> generalizes c" and "\<forall>x \<in> set (slots t). x = None"
  shows "live_cells t = 0"
proof -
  have "yields (counted True) (cb_run cs) (\<lambda>_. counted True)" using assms(3) by (intro yields_run) blast
  from yieldsD [OF this counted_none assms(1,2)] obtain L K S where c: "counts True L K S t"
    by (auto simp: counted_def)
  then have "L = (\<lambda>_. 0)" by (auto simp: counts_def)
  with c have h: "heap (slot_refs S) (\<lambda>_. 0) K S t" by (simp add: counts_def)
  have S: "slots t = S" using heapD(1) [OF h] .
  have "slot_refs S a = 0" for a
    using assms(4) unfolding S slot_refs_def points_to_def by (auto simp: filter_empty_conv)
  then have "cell_at t a = None" for a using exact_all_released [OF h] by blast
  then have "\<forall>c \<in> set (cells t). c = None"
    unfolding cell_at_def by (metis in_set_conv_nth)
  then show ?thesis by (auto simp: live_cells_def filter_empty_conv)
qed

text \<open>A callback is shared, converted, copied and assigned, and everything is destroyed.\<close>

definition ex_callback_program :: "cb_call list" where
  "ex_callback_program =
     [New_callback (Sig_read None) 7, Handle_of_callback None 0, Recover_type (Sig_read (Some 3)) 1,
      Copy_callback 0, Assign_callback 0 3, Delete_variable 0, Delete_variable 1, Delete_variable 2,
      Delete_variable 3]"

lemma ex_callback_program_run:
  "fst (cb_run ex_callback_program no_objects) = Ret ()"
  "size_of (snd (cb_run ex_callback_program no_objects)) = 9"
  "list_all (\<lambda>x. x = None) (slots (snd (cb_run ex_callback_program no_objects)))"
  by code_simp+

theorem callback_objects_released_witness:
  "live_cells (snd (cb_run ex_callback_program no_objects)) = 0"
proof (rule callback_objects_released)
  show "cb_run ex_callback_program no_objects = (Ret (), snd (cb_run ex_callback_program no_objects))"
    using ex_callback_program_run(1) by (metis prod.collapse)
qed (use ex_callback_program_run in \<open>auto simp: room_def list_all_iff ex_callback_program_def\<close>)

section \<open>Adapters\<close>

lemmas run_callback_simps = callback_op_defs bindM_def the_slot_def slot_at_def new_cell_def new_slot_def put_slot_def
  acquire_def the_cell_def cell_at_def put_cell_def release.simps clone.simps get_object.simps
  invoke_object.simps new_adapter_def assertM_def nth_list_update nth_append

text \<open>
  A copied adapter leaks. A \<open>cci_callback\<close> constructed from a generalised one owns an adapter;
  a copy of it clones what is adapted, with a count of one, and the constructor of the new adapter
  acquires the clone once more, but the destructor releases it once. When everything has been
  destroyed, the clone of the functor is left, with a count of one and no reference to it.
\<close>

lemma copied_adapter_leaks:
  assumes "returns_void sg" and "generic_of sg = Some gs"
  shows "\<exists>t. cb_run [New_callback gs f, Generalized_callback sg 0, Copy_callback 1,
       Delete_variable 2, Delete_variable 1, Delete_variable 0] no_objects = (Ret (), t)
     \<and> slots t = [None, None, None] \<and> live_cells t = 1
     \<and> cell_at t 2 = Some \<lparr>cc_sig = gs, cc_content = Callback_impl f, m_refcnt = 1\<rparr> \<and> refs_to t 2 = 0"
  using assms
  by (simp add: run_callback_simps no_objects_def live_cells_def refs_to_def slot_refs_def points_to_def
      adapt_refs_def adapts_def)

lemma copied_adapter_leaks_witness:
  "\<exists>t. cb_run [New_callback (Sig_read None) 7, Generalized_callback (Sig_read (Some 3)) 0, Copy_callback 1,
       Delete_variable 2, Delete_variable 1, Delete_variable 0] no_objects = (Ret (), t)
     \<and> slots t = [None, None, None] \<and> live_cells t = 1 \<and> refs_to t 2 = 0"
  using copied_adapter_leaks [of "Sig_read (Some 3)" "Sig_read None" 7] by auto

text \<open>
  A typed handle inherits \<open>swap\<close> of untyped handles, and its \<open>invoke\<close> casts without a check: a
  typed handle that was swapped with a handle of a callback of another type is called through a
  pointer of the wrong type.
\<close>

lemma typed_handle_swap_unsafe:
  "fst (cb_run [New_callback (Sig_read (Some T)) f, Handle_of_callback (Some (Sig_read (Some T))) 0,
     New_callback (Sig_read (Some T')) f', Handle_of_callback None 2, Swap_cb_handles 1 3, Invoke_typed 1] no_objects)
   = (if T = T' then Ret () else Exc Bad_cast)"
  by (simp add: run_callback_simps no_objects_def)

section \<open>Typed handles as the model of parameters has them\<close>

definition abs_handle :: "cb_state \<Rightarrow> slot_id \<Rightarrow> cci_callback_untyped_handle" where
  "abs_handle s h =
     (case slot_at s h of
        None \<Rightarrow> None
      | Some x \<Rightarrow>
          (case m_cb x of
             None \<Rightarrow> None
           | Some a \<Rightarrow>
               (case cell_at s (get_object a s) of
                  None \<Rightarrow> None
                | Some d \<Rightarrow> Some \<lparr>cb_object = get_object a s, cb_signature = cc_sig d\<rparr>)))"

definition abs_typed :: "cb_state \<Rightarrow> slot_id \<Rightarrow> typed_callback" where
  "abs_typed s j =
     (case slot_at s j of
        None \<Rightarrow> Invalid_callback
      | Some x \<Rightarrow>
          (case m_cb x of
             None \<Rightarrow> Invalid_callback
           | Some a \<Rightarrow>
               (case cell_at s a of
                  None \<Rightarrow> Invalid_callback
                | Some c \<Rightarrow>
                    (case cc_content c of
                       Callback_impl f \<Rightarrow> Direct_callback \<lparr>cb_object = a, cb_signature = cc_sig c\<rparr>
                     | Callback_generic_adapt g \<Rightarrow>
                         Generic_adapt \<lparr>cb_object = get_object g s, cb_signature = the (generic_of (cc_sig c))\<rparr>))))"

lemma generic_of_kind [simp]: "generic_of (kind_signature k (Some T)) = Some (kind_signature k None)"
  by (cases k) simp_all

lemma generic_of_not_typed: "generic_of sg = Some gs \<Longrightarrow> gs \<noteq> kind_signature k (Some T)"
  by (cases sg rule: generic_of.cases; cases k) auto

lemma kind_signature_typed [simp]: "kind_signature k None \<noteq> kind_signature k (Some T)"
  by (cases k) simp_all

text \<open>
  An object that a handle may hold: a callback of its own, or an adapter of such a callback, which has
  the generic signature of the adapter. The counts leave room for the references of a conversion.
\<close>

definition plain_object :: "cb_state \<Rightarrow> cb_addr \<Rightarrow> cb_sig \<Rightarrow> bool" where
  "plain_object s a sg \<longleftrightarrow>
     (\<exists>c f. cell_at s a = Some c \<and> cc_content c = Callback_impl f \<and> cc_sig c = sg
        \<and> m_refcnt c \<noteq> 0 \<and> unat (m_refcnt c) + 2 < 2 ^ 32)"

definition adapter_object :: "cb_state \<Rightarrow> cb_addr \<Rightarrow> bool" where
  "adapter_object s a \<longleftrightarrow>
     (\<exists>c g gs. cell_at s a = Some c \<and> cc_content c = Callback_generic_adapt g \<and> g < a
        \<and> generic_of (cc_sig c) = Some gs \<and> plain_object s g gs
        \<and> m_refcnt c \<noteq> 0 \<and> unat (m_refcnt c) + 2 < 2 ^ 32)"

lemma count_room:
  assumes "unat (m :: 32 word) + 2 < 2 ^ 32"
  shows "m + 1 \<noteq> 0"
proof
  assume "m + 1 = 0"
  then have "unat (m + 1) = 0" by simp
  with assms show False by (simp add: unat_word_ariths)
qed

lemma typed_handle_plain:
  assumes "slot_at s h = Some x" and "\<not> slot_is_callback x" and "m_cb x = Some a" and "plain_object s a sg"
  shows "\<exists>t. recover_type (kind_signature k (Some T)) h s = (Ret (length (slots s)), t)
    \<and> abs_typed t (length (slots s)) = typed_callback_handle k T (abs_handle s h)"
proof -
  obtain c f where c: "cell_at s a = Some c" and f: "cc_content c = Callback_impl f"
    and ne: "m_refcnt c \<noteq> 0" and le: "unat (m_refcnt c) + 2 < 2 ^ 32"
    using assms(4) by (auto simp: plain_object_def)
  have a: "a < length (cells s)" and h: "h < length (slots s)"
    using c assms(1) by (simp_all add: cell_at_def slot_at_def split: if_splits)
  show ?thesis
    using c f ne count_room [OF le] le a h assms(1-3)
    by (cases "cc_sig c = kind_signature k (Some T)"; cases "cc_sig c = kind_signature k None")
      (simp_all add: run_callback_simps abs_typed_def abs_handle_def typed_callback_handle_def)
qed

lemma typed_handle_adapter:
  assumes "slot_at s h = Some x" and "\<not> slot_is_callback x" and "m_cb x = Some a" and "adapter_object s a"
  shows "\<exists>t. recover_type (kind_signature k (Some T)) h s = (Ret (length (slots s)), t)
    \<and> abs_typed t (length (slots s)) = typed_callback_handle k T (abs_handle s h)"
proof -
  obtain c g gs d f where c: "cell_at s a = Some c" "cc_content c = Callback_generic_adapt g"
      "generic_of (cc_sig c) = Some gs" and g: "g < a" and d: "cell_at s g = Some d" "cc_content d = Callback_impl f" "cc_sig d = gs"
    and ne: "m_refcnt c \<noteq> 0" "m_refcnt d \<noteq> 0"
    and le: "unat (m_refcnt c) + 2 < 2 ^ 32" "unat (m_refcnt d) + 2 < 2 ^ 32"
    using assms(4) by (auto simp: adapter_object_def plain_object_def)
  have a: "a < length (cells s)" and h: "h < length (slots s)"
    using c assms(1) by (simp_all add: cell_at_def slot_at_def split: if_splits)
  show ?thesis
    using c d g ne count_room [OF le(1)] count_room [OF le(2)] le a h
      generic_of_not_typed [OF c(3), of k T] assms(1-3)
    by (cases "cc_sig c = kind_signature k (Some T)"; cases "gs = kind_signature k None")
      (simp_all add: run_callback_simps abs_typed_def abs_handle_def typed_callback_handle_def)
qed

text \<open>
  C28. The typed handle of an untyped one. The constructor of \<open>cci_callback_typed_handle\<close>, with its
  copies, counts, casts and the adapter that it creates, results in what the model of parameters
  takes it for, whether the untyped handle is empty, holds a callback, or holds an adapter that was made
  of a generic callback for this or another type: the callback itself if it has the signature, an adapter
  for it if it, or the callback behind the adapter, has the generic signature of the same kind, an
  invalid handle otherwise. The counts of the objects must be below \<open>2 ^ 32 - 2\<close>.
\<close>

theorem typed_handle_refines:
  assumes "slot_at s h = Some x" and "\<not> slot_is_callback x"
    and "\<And>a. m_cb x = Some a \<Longrightarrow> (\<exists>sg. plain_object s a sg) \<or> adapter_object s a"
  shows "\<exists>t. recover_type (kind_signature k (Some T)) h s = (Ret (length (slots s)), t)
    \<and> abs_typed t (length (slots s)) = typed_callback_handle k T (abs_handle s h)"
proof (cases "m_cb x")
  case None
  with assms(1,2) show ?thesis
    by (simp add: recover_type_def share_def the_cb_handle_def the_slot_def bindM_def new_slot_def acquire_opt_def
        abs_typed_def abs_handle_def typed_callback_handle_def slot_at_def)
next
  case (Some a)
  with assms(3) typed_handle_plain [OF assms(1,2)] typed_handle_adapter [OF assms(1,2)] show ?thesis by blast
qed

text \<open>A generic callback, a callback of another type made from it, and an untyped handle of the latter.\<close>

definition ex_generic_handle :: cb_state where
  "ex_generic_handle =
     \<lparr>cells = [Some \<lparr>cc_sig = Sig_read None, cc_content = Callback_impl 7, m_refcnt = 2\<rparr>,
               Some \<lparr>cc_sig = Sig_read (Some 5), cc_content = Callback_generic_adapt 0, m_refcnt = 2\<rparr>],
      slots = [Some \<lparr>slot_is_callback = True, slot_sig = Some (Sig_read None), m_cb = Some 0\<rparr>,
               Some \<lparr>slot_is_callback = True, slot_sig = Some (Sig_read (Some 5)), m_cb = Some 1\<rparr>,
               Some \<lparr>slot_is_callback = False, slot_sig = None, m_cb = Some 1\<rparr>]\<rparr>"

theorem typed_handle_refines_witness:
  "\<exists>t. recover_type (kind_signature Post_read (Some 3)) 2 ex_generic_handle = (Ret (length (slots ex_generic_handle)), t)
    \<and> abs_typed t (length (slots ex_generic_handle)) = Generic_adapt \<lparr>cb_object = 0, cb_signature = Sig_read None\<rparr>"
proof -
  let ?x = "\<lparr>slot_is_callback = False, slot_sig = None, m_cb = Some 1\<rparr>"
  have x: "slot_at ex_generic_handle 2 = Some ?x"
    by (simp add: ex_generic_handle_def slot_at_def)
  have a: "adapter_object ex_generic_handle 1"
    by (simp add: adapter_object_def plain_object_def ex_generic_handle_def cell_at_def)
  have "get_object 0 ex_generic_handle = 0"
    by (subst get_object.simps) (simp add: ex_generic_handle_def cell_at_def)
  moreover have "get_object (Suc 0) ex_generic_handle = get_object 0 ex_generic_handle"
    by (subst get_object.simps [of "Suc 0"]) (simp add: ex_generic_handle_def cell_at_def)
  moreover have cell: "cell_at ex_generic_handle 0
      = Some \<lparr>cc_sig = Sig_read None, cc_content = Callback_impl 7, m_refcnt = 2\<rparr>"
    by (simp add: ex_generic_handle_def cell_at_def)
  ultimately have obj: "get_object (Suc 0) ex_generic_handle = 0" by simp
  have "typed_callback_handle Post_read 3 (abs_handle ex_generic_handle 2)
      = Generic_adapt \<lparr>cb_object = 0, cb_signature = Sig_read None\<rparr>"
    by (simp add: abs_handle_def x typed_callback_handle_def obj cell)
  with typed_handle_refines [OF x, of Post_read 3] a show ?thesis by auto
qed

end
