(* ===== verification/Value_Env.thy ===== *)
theory Value_Env
  imports Converter_Sequences Param_Spec Examples
begin

text \<open>
  The values of parameters and the JSON values between them. The model of parameters knows the
  conversion of a type as two functions of its environment; here they are what the converters do
  with a \<open>cci_value\<close>, so that what is proved of converters holds of parameters.
\<close>

section \<open>Converters as functions\<close>

text \<open>A state in which address 0 holds one value, owned by one \<open>cci_value\<close>.\<close>

definition one_value :: "'r \<Rightarrow> 'r value_state" where
  "one_value r =
     \<lparr>reports = [], pool = [0 \<mapsto> r], free_list = [], next_impl = 1,
      wrappers = [0 \<mapsto> \<lparr>w_kind = Kind_value, pimpl = Some (0, []), own_pimpl = Some 0\<rparr>], next_wid = 1\<rparr>"

definition converter_pack :: "('r, 'd) rapidjson \<Rightarrow> ('t, 'r) converter \<Rightarrow> 't \<Rightarrow> bool \<times> 'r" where
  "converter_pack J C x =
     (case conv_pack C (Some (0, [])) x (one_value (json_null J)) of
        (Ret ok, t) \<Rightarrow> (ok, case node_at J t (0, []) of Some r \<Rightarrow> r | None \<Rightarrow> json_null J)
      | (r, t) \<Rightarrow> (False, json_null J))"

definition converter_unpack :: "('t, 'r) converter \<Rightarrow> 't \<Rightarrow> 'r \<Rightarrow> bool \<times> 't" where
  "converter_unpack C y r =
     (case conv_unpack C y (Some (0, [])) (one_value r) of
        (Ret (ok, x), t) \<Rightarrow> (ok, x)
      | (r, t) \<Rightarrow> (False, y))"

text \<open>The environment of parameters whose types have the converters \<open>C\<close>; \<open>y\<close> are their initial values.\<close>

definition converter_env :: "('r, 'd) rapidjson \<Rightarrow> (tid \<Rightarrow> ('v, 'r) converter) \<Rightarrow> (tid \<Rightarrow> 'v) \<Rightarrow> ('v, 'r) env \<Rightarrow> ('v, 'r) env" where
  "converter_env J C y E =
     E\<lparr>pack := \<lambda>T. converter_pack J (C T), unpack := \<lambda>T. converter_unpack (C T) (y T)\<rparr>"

lemma one_value_ok: "values_ok (one_value r)"
  by (rule values_okI) (auto simp: one_value_def owned_by_def split: if_splits)

lemma one_value_node: "node_at J (one_value r) (0, []) = Some r"
  by (simp add: one_value_def node_at_def)

context lawful_converter
begin

lemma converter_pack_enc: "repr x \<Longrightarrow> converter_pack J C x = (True, enc x)"
proof -
  assume x: "repr x"
  obtain t where t: "conv_pack C (Some (0, [])) x (one_value (json_null J)) = (Ret True, t)"
    "same_store t (write_node J (0, []) (enc x) (one_value (json_null J)))"
    using pack [OF one_value_ok one_value_node _ x] by auto
  have "node_at J t (0, []) = Some (enc x)"
    using node_at_same [OF t(2), of J "(0, [])"] node_at_write [OF one_value_node] by simp
  with t(1) show ?thesis by (simp add: converter_pack_def)
qed

lemma converter_unpack_enc: "repr x \<Longrightarrow> ty y \<Longrightarrow> converter_unpack C y (enc x) = (True, x)"
  using unpack [OF one_value_node, of x y] by (simp add: converter_unpack_def)

end

section \<open>The interface between values and parameters\<close>

text \<open>
  What parameters need of the converters of their types: each is lawful, and the environment
  converts as they do.
\<close>

locale typed_env = rapidjson_model J for J :: "('r, 'd) rapidjson" +
  fixes E :: "('v, 'r) env" and C :: "tid \<Rightarrow> ('v, 'r) converter" and y :: "tid \<Rightarrow> 'v"
    and enc :: "tid \<Rightarrow> 'v \<Rightarrow> 'r" and ty repr :: "tid \<Rightarrow> 'v \<Rightarrow> bool"
  assumes lawful: "lawful_converter J (C T) (enc T) (ty T) (repr T)"
    and initial: "ty T (y T)"
    and pack_converts: "pack E T = converter_pack J (C T)"
    and unpack_converts: "unpack E T = converter_unpack (C T) (y T)"
begin

lemma pack_enc: "repr T v \<Longrightarrow> pack E T v = (True, enc T v)"
  unfolding pack_converts by (rule lawful_converter.converter_pack_enc [OF lawful])

lemma unpack_enc: "repr T v \<Longrightarrow> unpack E T (enc T v) = (True, v)"
  unfolding unpack_converts by (rule lawful_converter.converter_unpack_enc [OF lawful _ initial])

text \<open>
  The conversions of the model of parameters are the constructor of \<open>cci_value\<close> from a typed value
  and \<open>get\<close> of a \<open>cci_value\<close>.
\<close>

lemma to_cci_value_refines:
  assumes "values_ok s" and "repr T v"
  shows "\<exists>a w t. new_value_from E J (C T) v s = (Ret w, t) \<and> temporary Kind_value a (enc T v) w s t
    \<and> to_cci_value E T v W = (Ret (enc T v), W)"
  using lawful_converter.new_value_from_temporary [OF lawful assms, of E] pack_enc [OF assms(2)]
  by (simp add: to_cci_value_def)

lemma from_cci_value_refines:
  assumes "node_at J s n = Some (enc T v)" and "repr T v"
  shows "cref_get E (C T) (y T) (Some n) s = (Ret v, s) \<and> from_cci_value E T (enc T v) W = (Ret v, W)"
  using lawful_converter.unpack [OF lawful assms initial] unpack_enc [OF assms(2)]
  by (simp add: cref_get_def cref_try_get_def from_cci_value_def bindM_def)

end

text \<open>Every family of lawful converters gives such an environment.\<close>

lemma converter_env_typed:
  assumes "rapidjson_model J" and "\<And>T. lawful_converter J (C T) (enc T) (ty T) (repr T)" and "\<And>T. ty T (y T)"
  shows "typed_env J (converter_env J C y E) C y enc ty repr"
  using assms by (intro typed_env.intro typed_env_axioms.intro) (simp_all add: converter_env_def)

section \<open>Some types\<close>

text \<open>
  The values of three instances of \<open>cci_param_typed\<close>: \<open>int\<close>, \<open>std::string\<close> and
  \<open>std::vector<int>\<close>, with the converters of these types.
\<close>

datatype typed_value = V_int "32 word" | V_string string | V_ints "32 word list"

fun the_int :: "typed_value \<Rightarrow> 32 word" where
  "the_int (V_int x) = x"
| "the_int _ = 0"

fun the_string :: "typed_value \<Rightarrow> string" where
  "the_string (V_string x) = x"
| "the_string _ = []"

fun the_ints :: "typed_value \<Rightarrow> 32 word list" where
  "the_ints (V_ints x) = x"
| "the_ints _ = []"

definition typed_converter :: "'x sc_env_scheme \<Rightarrow> ('r, 'd) rapidjson \<Rightarrow> tid \<Rightarrow> (typed_value, 'r) converter" where
  "typed_converter E J T =
     (if T = 0 then delegate_converter the_int V_int 0 (int_converter E J)
      else if T = 1 then delegate_converter the_string V_string [] (string_converter E J)
      else delegate_converter the_ints V_ints [] (vector_converter E J 0 (int_converter E J)))"

definition typed_encoding :: "('r, 'd) rapidjson \<Rightarrow> tid \<Rightarrow> typed_value \<Rightarrow> 'r" where
  "typed_encoding J T v =
     (if T = 0 then json_int J (the_int v)
      else if T = 1 then json_string J (the_string v)
      else json_array J (map (json_int J) (the_ints v)))"

definition typed_repr :: "tid \<Rightarrow> typed_value \<Rightarrow> bool" where
  "typed_repr T v \<longleftrightarrow>
     (case v of
        V_int x \<Rightarrow> T = 0
      | V_string x \<Rightarrow> T = 1 \<and> length x < 2 ^ 32
      | V_ints x \<Rightarrow> 2 \<le> T \<and> length x < 2 ^ 32)"

lemma typed_converter_lawful:
  assumes J: "rapidjson_model J"
  shows "lawful_converter J (typed_converter E J T) (typed_encoding J T) (\<lambda>_. True) (typed_repr T)"
proof -
  have ints: "lawful_converter J (vector_converter E J 0 (int_converter E J)) (\<lambda>xs. json_array J (map (json_int J) xs))
      (\<lambda>_. True) (\<lambda>xs. length xs < 2 ^ 32 \<and> (\<forall>x \<in> set xs. True))"
    by (rule lawful_converter.vector_lawful [OF rapidjson_model.int_lawful [OF J]]) simp
  consider "T = 0" | "T = 1" | "2 \<le> T" by linarith
  then show ?thesis
  proof cases
    case 1
    have "lawful_converter J (delegate_converter the_int V_int 0 (int_converter E J)) (\<lambda>v. json_int J (the_int v)) (\<lambda>_. True) (typed_repr 0)"
      by (rule rapidjson_model.delegate_lawful_on [OF J rapidjson_model.int_lawful [OF J]])
        (auto simp: typed_repr_def split: typed_value.splits)
    with 1 show ?thesis by (simp add: typed_converter_def typed_encoding_def [abs_def])
  next
    case 2
    have "lawful_converter J (delegate_converter the_string V_string [] (string_converter E J)) (\<lambda>v. json_string J (the_string v))
        (\<lambda>_. True) (typed_repr 1)"
      by (rule rapidjson_model.delegate_lawful_on [OF J rapidjson_model.string_lawful [OF J]])
        (auto simp: typed_repr_def split: typed_value.splits)
    with 2 show ?thesis by (simp add: typed_converter_def typed_encoding_def [abs_def])
  next
    case 3
    then have "lawful_converter J (delegate_converter the_ints V_ints [] (vector_converter E J 0 (int_converter E J)))
        (\<lambda>v. json_array J (map (json_int J) (the_ints v))) (\<lambda>_. True) (typed_repr T)"
      by (intro rapidjson_model.delegate_lawful_on [OF J ints]) (auto simp: typed_repr_def split: typed_value.splits)
    with 3 show ?thesis by (simp add: typed_converter_def typed_encoding_def [abs_def])
  qed
qed

definition typed_initial :: "tid \<Rightarrow> typed_value" where
  "typed_initial T = (if T = 0 then V_int 0 else if T = 1 then V_string [] else V_ints [])"

interpretation plain_types: typed_env plain_json "converter_env plain_json (typed_converter E plain_json) typed_initial E"
  "typed_converter E plain_json" typed_initial "typed_encoding plain_json" "\<lambda>_ _. True" typed_repr
  for E :: "(typed_value, json) env"
  by (intro converter_env_typed plain_json_model typed_converter_lawful TrueI)

text \<open>An environment with these types, and two vectors of integers as parameters.\<close>

definition ex_typed_env :: "(typed_value, json) env" where
  "ex_typed_env =
     \<lparr>sc_throws = (\<lambda>sev mt. True), sc_current = None, sc_name = (\<lambda>_. ''top''), sc_parent = (\<lambda>_. None),
      pack = (\<lambda>T v. (False, JNull)), unpack = (\<lambda>T x. (False, V_int 0)), value_eq = (\<lambda>T v w. v = w),
      category = (\<lambda>_. CCI_OTHER_VALUE), null_value = JNull, is_process = (\<lambda>_. False),
      sc_register_name = (\<lambda>nm ns. (nm \<notin> ns, insert nm ns)),
      sc_unregister_name = (\<lambda>nm ns. (nm \<in> ns, ns - {nm})), sc_gen_name = (\<lambda>nm ns. (nm, ns)),
      sc_hierarchical_name = (\<lambda>nm ns. None), sc_name_exists = (\<lambda>nm ns. nm \<in> ns),
      body = (\<lambda>cb ev. P_return True)\<rparr>"

definition ex_vector :: "32 word list \<Rightarrow> (typed_value, json) param" where
  "ex_vector xs = fresh_param ''v'' ''a vector'' ex_broker_handle ex_originator 2 CCI_MUTABLE_PARAM (V_ints xs)"

definition ex_vectors :: "(typed_value, json) world" where
  "ex_vectors =
     \<lparr>reports = [], params = [1 \<mapsto> ex_vector [3, 4], 2 \<mapsto> ex_vector []], handles = Map.empty,
      brokers = Map.empty, m_brokers = Map.empty, sc_names = {}, next_address = 3\<rparr>"

section \<open>Properties\<close>

text \<open>
  The conversions of parameters are those of values. In an environment whose types have lawful
  converters, the conversion of a value in the model of parameters returns what the constructor of
  \<open>cci_value\<close> from a typed value stores in its new value, and the conversion back returns what \<open>get\<close>
  of the value returns, without a report.
\<close>

lemma param_conversions_refine:
  assumes J: "rapidjson_model J" and C: "\<And>T. lawful_converter J (C T) (enc T) (ty T) (repr T)" and y: "\<And>T. ty T (y T)"
    and s: "values_ok s" and v: "repr T v"
  shows "\<exists>a w t. new_value_from E J (C T) v s = (Ret w, t) \<and> pool t = (pool s)(a \<mapsto> enc T v)
    \<and> to_cci_value (converter_env J C y E) T v W = (Ret (enc T v), W)
    \<and> cref_get E (C T) (y T) (Some (a, [])) t = (Ret v, t)
    \<and> from_cci_value (converter_env J C y E) T (enc T v) W = (Ret v, W)"
proof -
  have env: "typed_env J (converter_env J C y E) C y enc ty repr" by (rule converter_env_typed [OF J C y])
  obtain a w t where t: "new_value_from E J (C T) v s = (Ret w, t)" "temporary Kind_value a (enc T v) w s t"
    using lawful_converter.new_value_from_temporary [OF C s v] by blast
  have n: "node_at J t (a, []) = Some (enc T v)" using t(2) by (rule temporary_root)
  have "cref_get E (C T) (y T) (Some (a, [])) t = (Ret v, t)"
    using lawful_converter.unpack [OF C n v y] by (simp add: cref_get_def cref_try_get_def bindM_def)
  moreover have "to_cci_value (converter_env J C y E) T v W = (Ret (enc T v), W)"
    using typed_env.to_cci_value_refines [OF env s v] by blast
  moreover have "from_cci_value (converter_env J C y E) T (enc T v) W = (Ret v, W)"
    using typed_env.from_cci_value_refines [OF env n v] by blast
  ultimately show ?thesis
    using t by (auto simp: temporary_def)
qed

lemma param_conversions_refine_witness:
  "\<exists>a w t. new_value_from ex_typed_env plain_json (typed_converter ex_typed_env plain_json 2) (V_ints [3, 4]) (one_value JNull) = (Ret w, t)
    \<and> pool t = (pool (one_value JNull))(a \<mapsto> typed_encoding plain_json 2 (V_ints [3, 4]))"
  using param_conversions_refine [where J = plain_json and C = "typed_converter ex_typed_env plain_json"
      and enc = "typed_encoding plain_json" and ty = "\<lambda>_ _. True" and repr = typed_repr and y = typed_initial
      and E = ex_typed_env and T = 2 and v = "V_ints [3, 4]" and s = "one_value JNull" and W = ex_vectors,
      OF plain_json_model typed_converter_lawful [OF plain_json_model] TrueI one_value_ok]
  by (auto simp: typed_repr_def)

text \<open>
  A value goes from one parameter to another as a \<open>cci_value\<close>. If the types of the parameters
  have lawful converters, what \<open>get_cci_value\<close> returns for one parameter makes \<open>set_cci_value\<close> write
  the same value to another parameter of the same type, with the given origin; neither reports.
\<close>

lemma param_value_transfer:
  assumes J: "rapidjson_model J" and C: "\<And>T. lawful_converter J (C T) (enc T) (ty T) (repr T)" and y: "\<And>T. ty T (y T)"
    and p: "params s i = Some p" and q: "params s j = Some q" and ij: "i \<noteq> j"
    and T: "p_type q = p_type p" and v: "repr (p_type p) (m_value p)"
    and read: "\<And>k. k \<in> {Pre_read, Post_read} \<Longrightarrow> vec (callbacks_of k p) = [] \<and> \<not> oncall (callbacks_of k p)"
    and quiet: "write_quiet q" "refusal q None = None"
  shows "\<exists>t. bindM (get_cci_value (converter_env J C y E) run (Suc n) i og)
      (\<lambda>x. set_cci_value (converter_env J C y E) run (Suc n) j x None og) s = (Ret (), t)
    \<and> map_option m_value (params t j) = Some (m_value p) \<and> map_option m_value_origin (params t j) = Some og
    \<and> map_option m_value (params t i) = Some (m_value p) \<and> reports t = reports s"
proof -
  let ?E = "converter_env J C y E"
  have env: "typed_env J ?E C y enc ty repr" by (rule converter_env_typed [OF J C y])
  define u where "u = map_param i update_fast_read s"
  have raw: "get_raw_value ?E run (Suc n) i og s = (Ret (m_value p), u)"
    unfolding u_def by (rule get_raw_value_quiet [OF p]) (rule read)
  have get: "get_cci_value ?E run (Suc n) i og s = (Ret (enc (p_type p) (m_value p)), u)"
    using typed_env.pack_enc [OF env v]
    by (simp add: get_cci_value_def bindM_def p raw to_cci_value_def)
  have q': "params u j = Some q" using q ij by (simp add: u_def map_param_def)
  have set: "set_cci_value ?E run (Suc n) j (enc (p_type p) (m_value p)) None og u
      = (Ret (), map_param j (\<lambda>q. update_fast_write ?E og (write_param (m_value p) og q)) u)"
    using typed_env.unpack_enc [OF env v] T
    by (simp add: set_cci_value_def bindM_def q' from_cci_value_def set_raw_value_admitted [OF q' quiet(2)]
        write_quiet_writes [OF q' quiet(1)])
  have "bindM (get_cci_value ?E run (Suc n) i og) (\<lambda>x. set_cci_value ?E run (Suc n) j x None og) s
      = (Ret (), map_param j (\<lambda>q. update_fast_write ?E og (write_param (m_value p) og q)) u)"
    by (subst bindM_Ret, rule get) (rule set)
  then show ?thesis
    using p q' ij by (simp add: u_def map_param_def update_fast_write_def update_fast_read_def write_param_def)
qed

lemma param_value_transfer_witness:
  "\<exists>t. bindM (get_cci_value (converter_env plain_json (typed_converter ex_typed_env plain_json) typed_initial ex_typed_env)
          (\<lambda>_ _. retM True) 1 1 ex_other)
        (\<lambda>x. set_cci_value (converter_env plain_json (typed_converter ex_typed_env plain_json) typed_initial ex_typed_env)
          (\<lambda>_ _. retM True) 1 2 x None ex_other) ex_vectors = (Ret (), t)
    \<and> map_option m_value (params t 2) = Some (V_ints [3, 4])"
proof -
  have p: "params ex_vectors 1 = Some (ex_vector [3, 4])" "params ex_vectors 2 = Some (ex_vector [])"
    by (simp_all add: ex_vectors_def)
  have same: "p_type (ex_vector []) = p_type (ex_vector [3, 4])"
    by (simp add: ex_vector_def fresh_param_def)
  have v: "typed_repr (p_type (ex_vector [3, 4])) (m_value (ex_vector [3, 4]))"
    by (simp add: ex_vector_def fresh_param_def typed_repr_def)
  have read: "vec (callbacks_of k (ex_vector [3, 4])) = [] \<and> \<not> oncall (callbacks_of k (ex_vector [3, 4]))"
    if "k \<in> {Pre_read, Post_read}" for k
    using that by (auto simp: ex_vector_def fresh_param_def Lifecycle.no_callbacks_def callbacks_of.simps)
  have quiet: "write_quiet (ex_vector [])" "refusal (ex_vector []) None = None"
    by (simp_all add: ex_vector_def fresh_param_def write_quiet_def refusal_def is_locked_def callbacks_of.simps
        Lifecycle.no_callbacks_def)
  show ?thesis
    using param_value_transfer [where J = plain_json and C = "typed_converter ex_typed_env plain_json"
        and enc = "typed_encoding plain_json" and ty = "\<lambda>_ _. True" and repr = typed_repr and y = typed_initial
        and E = ex_typed_env and run = "\<lambda>_ _. retM True" and n = 0 and og = ex_other,
        OF plain_json_model typed_converter_lawful [OF plain_json_model] TrueI p _ same v read quiet]
    by (auto simp: ex_vector_def fresh_param_def simp del: retM_apply)
qed

end
