(* ===== verification/Config_File.thy ===== *)
theory Config_File
  imports Client "HOL-Library.Word"
begin

text \<open>
  The configuration files of examples 17 and 18 (src/examples/cci/ex17_* and ex18_*,
  \<open>cci_configFile_Tool.h\<close> and \<open>configset.h\<close>): a set of names with their values, the reading of a file
  line by line, the parsing of a line, and the tool that turns each entry into a preset value of
  the global broker. The two tools differ in what they do with quotation marks. The file system
  is a parameter: the contents of the file, or \<open>None\<close> if it cannot be opened.
\<close>

section \<open>Strings\<close>

definition isspace :: "char \<Rightarrow> bool" where
  "isspace c \<longleftrightarrow> c \<in> set [CHR '' '', CHR 0x09, CHR 0x0A, CHR 0x0B, CHR 0x0C, CHR 0x0D]"

definition ltrim :: "string \<Rightarrow> string" where
  "ltrim s = dropWhile isspace s"

definition rtrim :: "string \<Rightarrow> string" where
  "rtrim s = rev (dropWhile isspace (rev s))"

definition trim :: "string \<Rightarrow> string" where
  "trim s = rtrim (ltrim s)"

text \<open>
  \<open>find\<close>, \<open>find_first_of\<close> and \<open>find_last_of\<close> of \<open>std::string\<close>, with \<open>None\<close> for \<open>npos\<close>, and \<open>substr\<close>,
  with \<open>None\<close> for \<open>std::out_of_range\<close>.
\<close>

fun find_first :: "(char \<Rightarrow> bool) \<Rightarrow> string \<Rightarrow> nat option" where
  "find_first P [] = None"
| "find_first P (c # s) = (if P c then Some 0 else map_option Suc (find_first P s))"

definition find_last :: "(char \<Rightarrow> bool) \<Rightarrow> string \<Rightarrow> nat option" where
  "find_last P s = map_option (\<lambda>i. length s - 1 - i) (find_first P (rev s))"

fun find_string :: "string \<Rightarrow> string \<Rightarrow> nat option" where
  "find_string t [] = (if t = [] then Some 0 else None)"
| "find_string t (c # s) = (if take (length t) (c # s) = t then Some 0 else map_option Suc (find_string t s))"

definition find_string_from :: "string \<Rightarrow> string \<Rightarrow> nat \<Rightarrow> nat option" where
  "find_string_from t s loc =
     (if loc \<le> length s then map_option (\<lambda>i. loc + i) (find_string t (drop loc s)) else None)"

definition substr :: "string \<Rightarrow> nat \<Rightarrow> string option" where
  "substr s pos = (if pos \<le> length s then Some (drop pos s) else None)"

text \<open>\<open>find_first_of(...) + 1\<close> wraps \<open>npos\<close> to 0.\<close>

definition after_position :: "nat option \<Rightarrow> nat" where
  "after_position i = (case i of None \<Rightarrow> 0 | Some k \<Rightarrow> Suc k)"

section \<open>\<open>ConfigSet\<close>\<close>

type_synonym config_set = "(string, string) std_map"

definition config_add :: "string \<Rightarrow> string \<Rightarrow> config_set \<Rightarrow> bool \<times> config_set" where
  "config_add nm x m =
     (if map_find nm m = None then (True, map_insert nm x m)
      else (False, map_insert nm x (map_erase nm m)))"

definition config_has :: "string \<Rightarrow> config_set \<Rightarrow> bool" where
  "config_has nm m = (case map_find nm m of None \<Rightarrow> False | Some _ \<Rightarrow> True)"

text \<open>The macros \<open>SC_REPORT_INFO\<close> and \<open>SC_REPORT_WARNING\<close> of SystemC.\<close>

definition sc_report :: "'x sc_env_scheme \<Rightarrow> sc_severity \<Rightarrow> string \<Rightarrow> string
    \<Rightarrow> ('y sc_state_scheme, exn, unit) comp" where
  "sc_report E sev mt m =
     (let r = \<lparr>severity = sev, msg_type = mt, msg = m\<rparr>
      in bindM (modM (\<lambda>s. s\<lparr>reports := reports s @ [r]\<rparr>)) (\<lambda>_.
           if sc_throws E sev mt then throwM (Sc_report r) else skipM))"

definition config_get :: "'x sc_env_scheme \<Rightarrow> string \<Rightarrow> config_set
    \<Rightarrow> ('y sc_state_scheme, exn, string) comp" where
  "config_get E nm m =
     (case map_find nm m of
        Some x \<Rightarrow> retM x
      | None \<Rightarrow>
          thenM (sc_report E SC_INFO ''ConfigSet'' ''get_value cannot return value of key not existing in ConfigSet!'')
            (retM []))"

section \<open>One line\<close>

datatype gc_config_parse_result = parse_result_ignore | parse_result_param

definition is_separator :: "char \<Rightarrow> bool" where
  "is_separator c \<longleftrightarrow> c = CHR '' '' \<or> c = CHR 0x09"

text \<open>The loop of \<open>parse\<close>: what is left of the token, and the words found so far.\<close>

function tokenize :: "string \<Rightarrow> string list \<Rightarrow> string \<times> string list" where
  "tokenize token tokenlist =
     (case find_first is_separator token of
        None \<Rightarrow> (token, tokenlist)
      | Some idx \<Rightarrow>
          tokenize (drop (idx + 1) token) (if 0 < idx then tokenlist @ [take idx token] else tokenlist))"
  by pat_completeness auto

termination
proof (relation "measure (\<lambda>(token, tokenlist). length token)", goal_cases)
  case (2 token tokenlist idx)
  then show ?case by (cases token) auto
qed simp

definition remove_comment :: "string \<Rightarrow> string" where
  "remove_comment s = (case find_first (\<lambda>c. c = CHR ''#'') s of None \<Rightarrow> s | Some i \<Rightarrow> take i s)"

definition parse :: "string \<Rightarrow> string list \<times> gc_config_parse_result" where
  "parse tok =
     (if tok = [] then ([], parse_result_ignore)
      else
        let (token, tokenlist) = tokenize (remove_comment tok) [];
            tokenlist = (if 0 < length token then tokenlist @ [token] else tokenlist)
        in if tokenlist = [] then (tokenlist, parse_result_ignore)
           else if length tokenlist = 1 then (tokenlist, parse_result_ignore)
           else (tokenlist, parse_result_param))"

text \<open>The value between the first and the last quotation mark.\<close>

definition is_quote :: "char \<Rightarrow> bool" where
  "is_quote c \<longleftrightarrow> c = CHR 0x22"

definition between_quotes :: "string \<Rightarrow> string" where
  "between_quotes val =
     (case (find_first is_quote val, find_last is_quote val) of
        (Some i, Some j) \<Rightarrow> if i \<noteq> j then take (j - i - 1) (drop (i + 1) val) else val
      | _ \<Rightarrow> val)"

text \<open>The loop that replaces a backslash with a quotation mark by the quotation mark.\<close>

definition escaped_quote :: string where
  "escaped_quote = [CHR 0x5C, CHR 0x22]"

function unescape :: "nat \<Rightarrow> string \<Rightarrow> string" where
  "unescape loc val =
     (case find_string_from escaped_quote val loc of
        None \<Rightarrow> val
      | Some l \<Rightarrow> unescape l (take l val @ [CHR 0x22] @ drop (l + 2) val))"
  by pat_completeness auto

lemma find_string_Some: "find_string t s = Some i \<Longrightarrow> i + length t \<le> length s \<and> take (length t) (drop i s) = t"
proof (induction t s arbitrary: i rule: find_string.induct)
  case (2 t c s)
  show ?case
  proof (cases "take (length t) (c # s) = t")
    case True
    then have "length t \<le> length (c # s)" by (metis length_take min.bounded_iff order_refl)
    with True 2 show ?thesis by auto
  next
    case False
    with 2 show ?thesis by auto
  qed
qed (auto split: if_splits)

lemma find_string_from_Some:
  assumes "find_string_from t s loc = Some l"
  shows "loc \<le> l" and "l + length t \<le> length s" and "take (length t) (drop l s) = t"
  using assms find_string_Some [of t "drop loc s" "l - loc"]
  by (auto simp: find_string_from_def add.commute split: if_splits)

termination unescape
proof (relation "measure (\<lambda>(loc, val). length val)", goal_cases)
  case (2 loc val l)
  then have "l + 2 \<le> length val"
    using find_string_from_Some(2) [of escaped_quote val loc l] by (simp add: escaped_quote_def)
  then show ?case by simp
qed simp

declare tokenize.simps [simp del] unescape.simps [simp del]

text \<open>
  \<open>interpret_config_line\<close>: the name and the value; both empty for an empty line, and an empty name
  with a value if parsing failed. \<open>None\<close> is the exception \<open>std::out_of_range\<close>. The tool of
  example 17 leaves the value as it is, that of example 18 removes quotation marks.
\<close>

definition parsed_value :: "string \<Rightarrow> string \<Rightarrow> string option" where
  "parsed_value tok word =
     Option.bind (find_string word tok) (\<lambda>pos.
       Option.bind (substr tok pos) (\<lambda>val.
         map_option trim (substr val (after_position (find_first is_separator val)))))"

definition ex18_value :: "string \<Rightarrow> string" where
  "ex18_value val = unescape 0 (between_quotes val)"

definition interpret_with :: "(string \<Rightarrow> string) \<Rightarrow> string \<Rightarrow> (string \<times> string) option" where
  "interpret_with f line =
     (let lstr = ltrim (remove_comment (c_str line))
      in if lstr \<noteq> [] then
           (case parse lstr of
              (words, parse_result_param) \<Rightarrow>
                map_option (\<lambda>val. (hd words, f val)) (parsed_value lstr (hd words))
            | (words, parse_result_ignore) \<Rightarrow> Some ([], ''parsing failed''))
         else Some ([], []))"

definition ex17_interpret_config_line :: "string \<Rightarrow> (string \<times> string) option" where
  "ex17_interpret_config_line line = interpret_with (\<lambda>val. val) line"

definition interpret_config_line :: "string \<Rightarrow> (string \<times> string) option" where
  "interpret_config_line line = interpret_with ex18_value line"

section \<open>A file\<close>

text \<open>
  \<open>std::ifstream\<close>: what is left, and the bits \<open>eofbit\<close> and \<open>failbit\<close>. \<open>getline(line, n)\<close> stores at most
  \<open>n - 1\<close> characters; it fails if there are more before the end of the line, and if there is nothing
  to read. A call on a stream that is not good stores an empty string and fails.
\<close>

record ifstream =
  rest :: string
  eofbit :: bool
  failbit :: bool

definition open_stream :: "string \<Rightarrow> ifstream" where
  "open_stream content = \<lparr>rest = content, eofbit = False, failbit = False\<rparr>"

definition newline :: char where
  "newline = CHR 0x0A"

fun take_line :: "nat \<Rightarrow> string \<Rightarrow> string \<times> ifstream" where
  "take_line k [] = ([], \<lparr>rest = [], eofbit = True, failbit = False\<rparr>)"
| "take_line k (c # cs) =
     (if c = newline then ([], \<lparr>rest = cs, eofbit = False, failbit = False\<rparr>)
      else if k = 0 then ([], \<lparr>rest = c # cs, eofbit = False, failbit = True\<rparr>)
      else (case take_line (k - 1) cs of (l, is) \<Rightarrow> (c # l, is)))"

definition getline :: "nat \<Rightarrow> ifstream \<Rightarrow> string \<times> ifstream" where
  "getline n is =
     (if eofbit is \<or> failbit is then ([], is\<lparr>failbit := True\<rparr>)
      else if rest is = [] then ([], is\<lparr>eofbit := True, failbit := True\<rparr>)
      else take_line (n - 1) (rest is))"

definition CONFIG_FILE_TOOL_BUFSIZE :: nat where
  "CONFIG_FILE_TOOL_BUFSIZE = 1024"

definition TRACENAME :: string where
  "TRACENAME = ''/Accellera/CCI_examples/CONFIG_FILE_TOOL''"

definition parsing_failed :: "'x sc_env_scheme \<Rightarrow> 32 word \<Rightarrow> string \<Rightarrow> ('y sc_state_scheme, exn, unit) comp" where
  "parsing_failed E ln line =
     sc_report E SC_WARNING TRACENAME
       (''In config file line '' @ show_nat (unat ln) @ '': Parsing failed ['' @ c_str line @ '']'' @ [newline])"

definition macro_name :: "string \<Rightarrow> bool" where
  "macro_name nm \<longleftrightarrow> list_all (\<lambda>c. c \<in> set ''ABCDEFGHIJKLMNOPQRSTUVWXYZ_'') nm"

text \<open>What is done with the name and the value of a line: the two sets are \<open>config_set\<close> and \<open>macro_set\<close>.\<close>

definition config_line :: "'x sc_env_scheme \<Rightarrow> 32 word \<Rightarrow> string \<Rightarrow> string \<times> string \<Rightarrow> config_set \<times> config_set
    \<Rightarrow> ('y sc_state_scheme, exn, config_set \<times> config_set) comp" where
  "config_line E ln line data sets =
     (case (data, sets) of
        ((nm, val), (cs, ms)) \<Rightarrow>
          if 0 < length nm then
            (if val \<noteq> [] \<and> hd val = CHR ''='' then
               (if macro_name nm then retM (cs, snd (config_add nm (trim (drop 1 val)) ms))
                else thenM (parsing_failed E ln line) (retM sets))
             else if \<not> config_has val ms then retM (snd (config_add nm val cs), ms)
             else bindM (config_get E val ms) (\<lambda>x. retM (snd (config_add nm x cs), ms)))
          else if 0 < length val then thenM (parsing_failed E ln line) (retM sets)
          else retM sets)"

text \<open>How much there is to do before the stream fails.\<close>

definition stream_size :: "ifstream \<Rightarrow> nat" where
  "stream_size is = (if failbit is then 0 else length (rest is) + (if eofbit is then 1 else 2))"

lemma take_line_size: "s \<noteq> [] \<Longrightarrow> take_line k s = (l, is) \<Longrightarrow> stream_size is < length s + 2"
proof (induction k s arbitrary: l rule: take_line.induct)
  case (2 k c cs)
  then show ?case
    by (cases cs) (auto simp: stream_size_def split: if_splits prod.splits)
qed simp

lemma getline_size:
  assumes "\<not> failbit is" and "getline n is = (l, is')"
  shows "stream_size is' < stream_size is"
  using assms take_line_size [of "rest is" "n - 1" l is']
  by (auto simp: getline_def stream_size_def split: if_splits)

text \<open>The loop over the lines, with what interprets a line; \<open>out_of_range\<close> is the exception.\<close>

function config_loop :: "(string \<Rightarrow> (string \<times> string) option) \<Rightarrow> exn \<Rightarrow> 'x sc_env_scheme \<Rightarrow> ifstream \<Rightarrow> 32 word
    \<Rightarrow> config_set \<times> config_set \<Rightarrow> ('y sc_state_scheme, exn, config_set \<times> config_set) comp" where
  "config_loop interp out_of_range E is ln sets =
     (if failbit is then retM sets
      else
        let (line, is) = getline CONFIG_FILE_TOOL_BUFSIZE is; ln = ln + 1
        in case interp line of
             None \<Rightarrow> throwM out_of_range
           | Some data \<Rightarrow>
               bindM (config_line E ln line data sets) (\<lambda>sets. config_loop interp out_of_range E is ln sets))"
  by pat_completeness auto

termination
  by (relation "measure (\<lambda>(interp, out_of_range, E, is, ln, sets). stream_size is)")
    (auto dest: sym [THEN getline_size [rotated]])

declare config_loop.simps [simp del]

text \<open>
  \<open>create_config_set_from_file\<close>. The member \<open>m_name\<close>, by which a file that cannot be opened is
  reported, is never set.
\<close>

definition cannot_open :: "'x sc_env_scheme \<Rightarrow> string \<Rightarrow> ('y sc_state_scheme, exn, unit) comp" where
  "cannot_open E filename =
     sc_report E SC_WARNING [] (''Cannot open config file '' @ [CHR 0x27] @ filename @ [CHR 0x27, newline])"

definition read_config :: "(string \<Rightarrow> (string \<times> string) option) \<Rightarrow> exn \<Rightarrow> 'x sc_env_scheme \<Rightarrow> string \<Rightarrow> string option
    \<Rightarrow> ('y sc_state_scheme, exn, config_set) comp" where
  "read_config interp out_of_range E filename content =
     (case content of
        None \<Rightarrow> thenM (cannot_open E filename) (retM [])
      | Some text \<Rightarrow>
          bindM (config_loop interp out_of_range E (open_stream text) 0 ([], [])) (\<lambda>sets. retM (fst sets)))"

definition ex17_create_config_set :: "exn \<Rightarrow> 'x sc_env_scheme \<Rightarrow> string \<Rightarrow> string option
    \<Rightarrow> ('y sc_state_scheme, exn, config_set) comp" where
  "ex17_create_config_set = read_config ex17_interpret_config_line"

definition create_config_set_from_file :: "exn \<Rightarrow> 'x sc_env_scheme \<Rightarrow> string \<Rightarrow> string option
    \<Rightarrow> ('y sc_state_scheme, exn, config_set) comp" where
  "create_config_set_from_file = read_config interpret_config_line"

section \<open>The tool\<close>

text \<open>
  \<open>cci_value::from_json\<close>, with the parser as parameter: a text that does not parse is reported,
  and is null if the report is not thrown.
\<close>

definition value_from_json :: "('v, 'j) env \<Rightarrow> (string \<Rightarrow> string + 'j) \<Rightarrow> string \<Rightarrow> ('v, 'j, 'j) cci" where
  "value_from_json E parser json =
     (case parser (c_str json) of
        Inr x \<Rightarrow> retM x
      | Inl what \<Rightarrow> thenM (cci_value_failure E (''JSON parse error: '' @ what)) (retM (null_value E)))"

text \<open>The loop of \<open>config\<close> over the entries.\<close>

fun apply_presets :: "('v, 'j) env \<Rightarrow> (string \<Rightarrow> string + 'j) \<Rightarrow> nat \<Rightarrow> broker_handle \<Rightarrow> config_set
    \<Rightarrow> ('v, 'j, unit) cci" where
  "apply_presets E parser n bh [] = skipM"
| "apply_presets E parser n bh ((nm, val) # es) =
     bindM (value_from_json E parser (c_str val)) (\<lambda>x.
       thenM (handle_broker_set_preset E n bh (c_str nm) x) (apply_presets E parser n bh es))"

definition ex17_config :: "('v, 'j) env \<Rightarrow> (string \<Rightarrow> string + 'j) \<Rightarrow> exn \<Rightarrow> nat \<Rightarrow> broker_handle \<Rightarrow> string \<Rightarrow> string option
    \<Rightarrow> ('v, 'j, unit) cci" where
  "ex17_config E parser out_of_range n bh filename content =
     bindM (ex17_create_config_set out_of_range E filename content) (\<lambda>cs. apply_presets E parser n bh cs)"

definition config :: "('v, 'j) env \<Rightarrow> (string \<Rightarrow> string + 'j) \<Rightarrow> exn \<Rightarrow> nat \<Rightarrow> broker_handle \<Rightarrow> string \<Rightarrow> string option
    \<Rightarrow> ('v, 'j, unit) cci" where
  "config E parser out_of_range n bh filename content =
     bindM (create_config_set_from_file out_of_range E filename content) (\<lambda>cs. apply_presets E parser n bh cs)"

text \<open>The constructor: the handle of the tool for the global broker.\<close>

definition new_config_tool :: "('v, 'j) env \<Rightarrow> nat \<Rightarrow> string \<Rightarrow> ('v, 'j, originator \<times> broker_handle) cci" where
  "new_config_tool E n nm =
     bindM (named_originator_c E (Some nm)) (\<lambda>og. bindM (cci_get_global_broker E n og) (\<lambda>bh. retM (og, bh)))"

end
