(* ===== verification/Config_Laws.thy ===== *)
theory Config_Laws
  imports Config_File
begin

text \<open>
  What the functions of \<open>Config_File\<close> compute: the searches as \<open>takeWhile\<close>, the words of a line, the
  loop over escaped quotation marks, the lines of a stream, and what is read from a written file.
\<close>

section \<open>Searching\<close>

lemma find_first_takeWhile:
  "find_first P s = (if list_all (\<lambda>c. \<not> P c) s then None else Some (length (takeWhile (\<lambda>c. \<not> P c) s)))"
  by (induction s) auto

lemma find_last_append: "P c \<Longrightarrow> list_all (\<lambda>c. \<not> P c) r \<Longrightarrow> find_last P (s @ c # r) = Some (length s)"
  by (auto simp: find_last_def find_first_takeWhile list_all_iff takeWhile_append)

lemma remove_comment_takeWhile: "remove_comment s = takeWhile (\<lambda>c. c \<noteq> CHR ''#'') s"
  by (induction s) (auto simp: remove_comment_def split: option.splits)

lemma find_string_prefix: "find_string t (t @ r) = Some 0"
proof (cases "t @ r")
  case (Cons a l)
  moreover have "take (length t) (t @ r) = t" by simp
  ultimately show ?thesis by simp
qed simp

lemma separator_isspace: "is_separator c \<Longrightarrow> isspace c"
  by (auto simp: is_separator_def isspace_def)

section \<open>Words\<close>

lemma tokenize_append: "tokenize t l = (fst (tokenize t []), l @ snd (tokenize t []))"
proof (induction t arbitrary: l rule: length_induct)
  case (1 t)
  show ?case
  proof (cases "find_first is_separator t")
    case None
    then show ?thesis by (simp add: tokenize.simps)
  next
    case (Some i)
    let ?t = "drop (i + 1) t"
    have "length ?t < length t" using Some by (cases t) auto
    with 1 have IH: "tokenize ?t l' = (fst (tokenize ?t []), l' @ snd (tokenize ?t []))" for l' by blast
    show ?thesis
      using IH [of l] IH [of "l @ [take i t]"] IH [of "[take i t]"]
      by (cases "i = 0") (simp_all add: tokenize.simps [of t] Some)
  qed
qed

text \<open>All words of a token.\<close>

definition words :: "string \<Rightarrow> string list" where
  "words t = (case tokenize t [] of (u, l) \<Rightarrow> if u \<noteq> [] then l @ [u] else l)"

lemma words_none: "find_first is_separator t = None \<Longrightarrow> words t = (if t = [] then [] else [t])"
  by (simp add: words_def tokenize.simps [of t])

lemma words_some:
  assumes "find_first is_separator t = Some i"
  shows "words t = (if 0 < i then [take i t] else []) @ words (drop (i + 1) t)"
  using tokenize_append [of "drop (i + 1) t" "[take i t]"] assms
  by (auto simp: words_def tokenize.simps [of t] split: prod.splits)

lemma words_Nil_iff: "words t = [] \<longleftrightarrow> list_all is_separator t"
proof (induction t rule: length_induct)
  case (1 t)
  show ?case
  proof (cases "find_first is_separator t")
    case None
    then show ?thesis
      by (cases t) (auto simp: words_none split: if_splits)
  next
    case (Some i)
    then obtain c r where t: "t = c # r" by (cases t) auto
    with Some 1 show ?thesis
      by (cases "is_separator c") (auto simp: words_some)
  qed
qed

lemma words_split:
  assumes "w \<noteq> []" and "list_all (\<lambda>c. \<not> is_separator c) w" and "r = [] \<or> is_separator (hd r)"
  shows "words (w @ r) = w # words (tl r)"
proof (cases r)
  case Nil
  then show ?thesis
    using assms by (simp add: words_none find_first_takeWhile list_all_iff)
next
  case (Cons c q)
  have "find_first is_separator (w @ r) = Some (length w)"
    using assms Cons by (auto simp: find_first_takeWhile list_all_iff takeWhile_append)
  with assms(1) Cons show ?thesis by (simp add: words_some)
qed

lemma parse_words:
  "parse t = (words (remove_comment t),
     if 1 < length (words (remove_comment t)) then parse_result_param else parse_result_ignore)"
proof (cases "t = []")
  case True
  then show ?thesis by (simp add: parse_def remove_comment_def words_none)
next
  case False
  then show ?thesis
    by (cases "tokenize (remove_comment t) []") (auto simp: parse_def words_def Let_def not_less le_Suc_eq)
qed

section \<open>Quotation marks\<close>

fun unescaped :: "string \<Rightarrow> string" where
  "unescaped [] = []"
| "unescaped [c] = [c]"
| "unescaped (c # d # s) = (if c = CHR 0x5C \<and> d = CHR 0x22 then d # unescaped s else c # unescaped (d # s))"

lemma unescaped_other: "c \<noteq> CHR 0x5C \<Longrightarrow> unescaped (c # s) = c # unescaped s"
  by (cases s) auto

lemma unescaped_none: "find_string escaped_quote s = None \<Longrightarrow> unescaped s = s"
  by (induction s rule: unescaped.induct) (auto simp: escaped_quote_def split: if_splits)

lemma unescaped_some:
  "find_string escaped_quote s = Some i \<Longrightarrow> unescaped s = take i s @ CHR 0x22 # unescaped (drop (i + 2) s)"
  by (induction s arbitrary: i rule: unescaped.induct) (auto simp: escaped_quote_def split: if_splits)

lemma unescape_unescaped: "loc \<le> length val \<Longrightarrow> unescape loc val = take loc val @ unescaped (drop loc val)"
proof (induction loc val rule: unescape.induct)
  case (1 loc val)
  show ?case
  proof (cases "find_string_from escaped_quote val loc")
    case None
    then have "unescaped (drop loc val) = drop loc val"
      using 1(2) by (intro unescaped_none) (simp add: find_string_from_def)
    with None show ?thesis by (simp add: unescape.simps [of loc])
  next
    case (Some l)
    then obtain i where i: "find_string escaped_quote (drop loc val) = Some i" and l: "l = loc + i"
      by (auto simp: find_string_from_def split: if_splits)
    have le: "l + 2 \<le> length val"
      using find_string_from_Some(2) [OF Some] by (simp add: escaped_quote_def)
    let ?v = "take l val @ [CHR 0x22] @ drop (l + 2) val"
    have "unescape loc val = unescape l ?v" using Some by (simp add: unescape.simps [of loc])
    also have "\<dots> = take l ?v @ unescaped (drop l ?v)" using 1(1) [OF Some] le by simp
    also have "\<dots> = take l val @ CHR 0x22 # unescaped (drop (l + 2) val)"
      using le by (simp add: min_absorb2 unescaped_other)
    also have "\<dots> = take loc val @ unescaped (drop loc val)"
      using unescaped_some [OF i] by (simp add: l take_add add.commute [of _ loc])
    finally show ?thesis .
  qed
qed

text \<open>How a value is written between quotation marks.\<close>

definition escape :: "string \<Rightarrow> string" where
  "escape v = concat (map (\<lambda>c. if is_quote c then escaped_quote else [c]) v)"

lemma escape_simps [simp]:
  "escape [] = []" "escape (c # v) = (if is_quote c then escaped_quote else [c]) @ escape v"
  by (simp_all add: escape_def)

lemma escape_hd: "escape v = d # s \<Longrightarrow> d \<noteq> CHR 0x22"
  by (cases v) (auto simp: escaped_quote_def is_quote_def split: if_splits)

lemma unescaped_escape: "unescaped (escape v) = v"
proof (induction v)
  case (Cons c v)
  then show ?case
    using escape_hd [of v]
    by (cases "escape v") (auto simp: escaped_quote_def is_quote_def unescaped_other)
qed simp

definition quoted :: "string \<Rightarrow> string" where
  "quoted v = [CHR 0x22] @ escape v @ [CHR 0x22]"

lemma between_quotes_quoted: "between_quotes (quoted v) = escape v"
proof -
  have "find_first is_quote (quoted v) = Some 0" by (simp add: quoted_def is_quote_def)
  moreover have "find_last is_quote (quoted v) = Some (Suc (length (escape v)))"
    using find_last_append [of is_quote "CHR 0x22" "[]" "CHR 0x22 # escape v"] by (simp add: quoted_def is_quote_def)
  ultimately show ?thesis by (simp add: between_quotes_def quoted_def)
qed

lemma ex18_value_quoted: "ex18_value (quoted v) = v"
  by (simp add: ex18_value_def between_quotes_quoted unescape_unescaped unescaped_escape)

section \<open>A line\<close>

text \<open>
  What a line says: the first word is the name, the rest without the space around it is the value,
  and a line with one word says nothing.
\<close>

definition line_name :: "string \<Rightarrow> string" where
  "line_name l = takeWhile (\<lambda>c. \<not> is_separator c) l"

definition line_rest :: "string \<Rightarrow> string" where
  "line_rest l = dropWhile (\<lambda>c. \<not> is_separator c) l"

definition read_line :: "(string \<Rightarrow> string) \<Rightarrow> string \<Rightarrow> string \<times> string" where
  "read_line f line =
     (let l = ltrim (takeWhile (\<lambda>c. c \<noteq> CHR ''#'') (c_str line))
      in if l = [] then ([], [])
         else if list_all is_separator (line_rest l) then ([], ''parsing failed'')
         else (line_name l, f (trim (tl (line_rest l)))))"

lemma line_parts: "line_name l @ line_rest l = l"
  by (simp add: line_name_def line_rest_def)

lemma line_name_words: "list_all (\<lambda>c. \<not> is_separator c) (line_name l)"
  by (auto simp: line_name_def list_all_iff dest: set_takeWhileD)

lemma line_rest_hd: "line_rest l = [] \<or> is_separator (hd (line_rest l))"
  using hd_dropWhile [of "\<lambda>c. \<not> is_separator c" l] by (auto simp: line_rest_def)

lemma line_name_start: "l \<noteq> [] \<Longrightarrow> \<not> isspace (hd l) \<Longrightarrow> line_name l \<noteq> []"
  by (cases l) (auto simp: line_name_def dest: separator_isspace)

lemma remove_comment_again:
  "remove_comment (ltrim (remove_comment s)) = ltrim (remove_comment s)"
proof -
  have "\<forall>c \<in> set (ltrim (remove_comment s)). c \<noteq> CHR ''#''"
    by (auto simp: ltrim_def remove_comment_takeWhile dest!: set_dropWhileD set_takeWhileD)
  then show ?thesis by (simp add: remove_comment_takeWhile [of "ltrim _"])
qed

lemma all_separators_tl: "r = [] \<or> is_separator (hd r) \<Longrightarrow> list_all is_separator (tl r) \<longleftrightarrow> list_all is_separator r"
  by (cases r) auto

lemma parsed_value_name:
  assumes "\<not> list_all is_separator (line_rest l)"
  shows "parsed_value l (line_name l) = Some (trim (tl (line_rest l)))"
proof -
  obtain c r where r: "line_rest l = c # r" using assms by (cases "line_rest l") auto
  then have l: "l = line_name l @ c # r" and c: "is_separator c"
    using line_parts [of l] line_rest_hd [of l] by auto
  have "find_first is_separator l = Some (length (line_name l))"
    using line_name_words [of l] c
    by (subst l) (auto simp: find_first_takeWhile list_all_iff takeWhile_append)
  moreover have "find_string (line_name l) l = Some 0" using find_string_prefix [of "line_name l" "c # r"] l by simp
  moreover have "substr l (Suc (length (line_name l))) = Some r"
    by (subst l) (simp add: substr_def)
  ultimately show ?thesis
    using r by (auto simp: parsed_value_def substr_def after_position_def split: if_splits)
qed

lemma interpret_with_read_line: "interpret_with f line = Some (read_line f line)"
proof -
  let ?l = "ltrim (remove_comment (c_str line))"
  have l: "ltrim (takeWhile (\<lambda>c. c \<noteq> CHR ''#'') (c_str line)) = ?l"
    by (simp add: remove_comment_takeWhile)
  show ?thesis
  proof (cases "?l = []")
    case True
    then show ?thesis by (simp add: interpret_with_def read_line_def l)
  next
    case False
    have "\<not> isspace (hd ?l)"
      using False hd_dropWhile [of isspace "remove_comment (c_str line)"] by (simp add: ltrim_def)
    from line_name_start [OF False this] have nm: "line_name ?l \<noteq> []" .
    have w: "words ?l = line_name ?l # words (tl (line_rest ?l))"
      using words_split [OF nm line_name_words line_rest_hd [of ?l]] line_parts [of ?l] by simp
    have "parse ?l = (words ?l, if list_all is_separator (line_rest ?l) then parse_result_ignore else parse_result_param)"
      using words_Nil_iff [of "tl (line_rest ?l)"] all_separators_tl [OF line_rest_hd [of ?l]]
      by (auto simp: parse_words remove_comment_again w)
    with False show ?thesis
      using parsed_value_name [of ?l]
      by (auto simp: interpret_with_def read_line_def l w Let_def)
  qed
qed

section \<open>What a line means\<close>

text \<open>
  The format of a line, without reference to how the tool reads it. The text of a line ends at a
  comment or at the end of the string. A blank separates words. A value is what is left without the space
  around it; if it has two quotation marks or more then only what is between the first and the last of
  them counts; and a backslash followed by a quotation mark stands for the quotation mark.
\<close>

abbreviation blank :: "char \<Rightarrow> bool" where
  "blank c \<equiv> c = CHR '' '' \<or> c = CHR 0x09"

definition text_of :: "string \<Rightarrow> string \<Rightarrow> bool" where
  "text_of line l \<longleftrightarrow> (\<exists>r. line = l @ r \<and> CHR ''#'' \<notin> set l \<and> CHR 0x00 \<notin> set l
     \<and> (r = [] \<or> hd r = CHR ''#'' \<or> hd r = CHR 0x00))"

definition trims_to :: "string \<Rightarrow> string \<Rightarrow> bool" where
  "trims_to s v \<longleftrightarrow> (\<exists>a b. s = a @ v @ b \<and> list_all isspace a \<and> list_all isspace b
     \<and> (v = [] \<or> \<not> isspace (hd v) \<and> \<not> isspace (last v)))"

inductive unescapes :: "string \<Rightarrow> string \<Rightarrow> bool" where
  unescapes_end: "unescapes [] []"
| unescapes_quote: "unescapes s x \<Longrightarrow> unescapes (CHR 0x5C # CHR 0x22 # s) (CHR 0x22 # x)"
| unescapes_other: "unescapes s x \<Longrightarrow> \<not> (c = CHR 0x5C \<and> s \<noteq> [] \<and> hd s = CHR 0x22) \<Longrightarrow> unescapes (c # s) (c # x)"

inductive value_means :: "string \<Rightarrow> string \<Rightarrow> bool" where
  in_quotes: "CHR 0x22 \<notin> set a \<Longrightarrow> CHR 0x22 \<notin> set b \<Longrightarrow> unescapes m x \<Longrightarrow>
    value_means (a @ CHR 0x22 # m @ CHR 0x22 # b) x"
| without_quotes: "length (filter (\<lambda>c. c = CHR 0x22) v) \<le> 1 \<Longrightarrow> unescapes v x \<Longrightarrow> value_means v x"

inductive line_means :: "string \<Rightarrow> string \<times> string \<Rightarrow> bool" where
  no_word: "text_of line l \<Longrightarrow> list_all isspace l \<Longrightarrow> line_means line ([], [])"
| one_word: "text_of line (sp @ w @ bl) \<Longrightarrow> list_all isspace sp \<Longrightarrow> w \<noteq> [] \<Longrightarrow> \<not> isspace (hd w) \<Longrightarrow>
    list_all (\<lambda>c. \<not> blank c) w \<Longrightarrow> list_all blank bl \<Longrightarrow> line_means line ([], ''parsing failed'')"
| name_and_value: "text_of line (sp @ nm @ c # r) \<Longrightarrow> list_all isspace sp \<Longrightarrow> nm \<noteq> [] \<Longrightarrow> \<not> isspace (hd nm) \<Longrightarrow>
    list_all (\<lambda>c. \<not> blank c) nm \<Longrightarrow> blank c \<Longrightarrow> \<not> list_all blank r \<Longrightarrow> trims_to r v \<Longrightarrow> value_means v x \<Longrightarrow>
    line_means line (nm, x)"

lemma takeWhile_absent: "c \<notin> set a \<Longrightarrow> takeWhile (\<lambda>x. x \<noteq> c) (a @ r) = a @ takeWhile (\<lambda>x. x \<noteq> c) r"
  by (induction a) auto

lemma text_of_iff: "text_of line l \<longleftrightarrow> l = takeWhile (\<lambda>c. c \<noteq> CHR ''#'') (c_str line)"
proof
  assume "text_of line l"
  then obtain r where r: "line = l @ r" "CHR ''#'' \<notin> set l" "CHR 0x00 \<notin> set l"
      "r = [] \<or> hd r = CHR ''#'' \<or> hd r = CHR 0x00" by (auto simp: text_of_def)
  have "c_str line = l @ c_str r" using r(1,3) by (simp add: c_str_def takeWhile_absent)
  moreover have "takeWhile (\<lambda>c. c \<noteq> CHR ''#'') (c_str r) = []"
    using r(4) by (cases r) (auto simp: c_str_def)
  ultimately show "l = takeWhile (\<lambda>c. c \<noteq> CHR ''#'') (c_str line)"
    using r(2) by (simp add: takeWhile_absent)
next
  assume l: "l = takeWhile (\<lambda>c. c \<noteq> CHR ''#'') (c_str line)"
  then have "l = takeWhile (\<lambda>c. c \<noteq> CHR 0x00 \<and> c \<noteq> CHR ''#'') line"
    by (simp add: c_str_def takeWhile_takeWhile conj_commute)
  then have "line = l @ dropWhile (\<lambda>c. c \<noteq> CHR 0x00 \<and> c \<noteq> CHR ''#'') line" "CHR ''#'' \<notin> set l" "CHR 0x00 \<notin> set l"
    by (auto dest: set_takeWhileD)
  then show "text_of line l"
    unfolding text_of_def using hd_dropWhile [of "\<lambda>c. c \<noteq> CHR 0x00 \<and> c \<noteq> CHR ''#''" line] by blast
qed

lemma trims_to_iff: "trims_to s v \<longleftrightarrow> v = trim s"
proof
  assume "trims_to s v"
  then obtain a b where s: "s = a @ v @ b" "list_all isspace a" "list_all isspace b"
      and v: "v = [] \<or> \<not> isspace (hd v) \<and> \<not> isspace (last v)" by (auto simp: trims_to_def)
  show "v = trim s"
  proof (cases "v = []")
    case True
    with s have "ltrim s = []" by (simp add: ltrim_def list_all_iff)
    with True show ?thesis by (simp add: trim_def rtrim_def)
  next
    case False
    with s v have "ltrim s = v @ b" by (cases v) (auto simp: ltrim_def list_all_iff dropWhile_append2)
    moreover have "dropWhile isspace (rev b @ rev v) = dropWhile isspace (rev v)"
      using s(3) by (intro dropWhile_append2) (simp add: list_all_iff)
    moreover have "dropWhile isspace (rev v) = rev v"
      using v False by (cases v rule: rev_cases) simp_all
    ultimately show ?thesis by (simp add: trim_def rtrim_def)
  qed
next
  assume v: "v = trim s"
  let ?l = "dropWhile isspace s"
  let ?b = "rev (takeWhile isspace (rev ?l))"
  have vl: "v = rev (dropWhile isspace (rev ?l))" by (simp add: v trim_def ltrim_def rtrim_def)
  have "v @ ?b = rev (takeWhile isspace (rev ?l) @ dropWhile isspace (rev ?l))"
    by (simp only: vl rev_append)
  then have l: "?l = v @ ?b" by (simp only: takeWhile_dropWhile_id rev_rev_ident)
  then have "s = takeWhile isspace s @ v @ ?b" using takeWhile_dropWhile_id [of isspace s] by simp
  moreover have "list_all isspace (takeWhile isspace s)" "list_all isspace ?b"
    by (auto simp: list_all_iff dest: set_takeWhileD)
  moreover have "v = [] \<or> \<not> isspace (hd v) \<and> \<not> isspace (last v)"
  proof (cases "v = []")
    case False
    then have "\<not> isspace (last v)"
      using hd_dropWhile [of isspace "rev ?l"] by (simp add: vl last_rev)
    moreover have "hd v = hd ?l" "?l \<noteq> []" using l False by (metis hd_append2, metis append_is_Nil_conv)
    then have "\<not> isspace (hd v)" using hd_dropWhile [of isspace s] by simp
    ultimately show ?thesis by blast
  qed simp
  ultimately show "trims_to s v" unfolding trims_to_def by blast
qed

lemma unescapes_iff: "unescapes s x \<longleftrightarrow> x = unescaped s"
proof
  show "unescapes s x \<Longrightarrow> x = unescaped s"
  proof (induction rule: unescapes.induct)
    case (unescapes_other s x c)
    then show ?case by (cases s) auto
  qed simp_all
  have "unescapes s (unescaped s)"
    by (induction s rule: unescaped.induct) (auto intro: unescapes.intros)
  then show "x = unescaped s \<Longrightarrow> unescapes s x" by simp
qed

lemma between_quotes_two:
  assumes "CHR 0x22 \<notin> set a" and "CHR 0x22 \<notin> set b"
  shows "between_quotes (a @ CHR 0x22 # m @ CHR 0x22 # b) = m"
proof -
  let ?v = "a @ CHR 0x22 # m @ CHR 0x22 # b"
  have "find_first is_quote ?v = Some (length a)"
    using assms(1) by (simp add: find_first_takeWhile is_quote_def takeWhile_absent)
  moreover have "find_last is_quote ?v = Some (length (a @ CHR 0x22 # m))"
    using find_last_append [of is_quote "CHR 0x22" b "a @ CHR 0x22 # m"] assms(2)
    by (auto simp: is_quote_def list_all_iff)
  ultimately show ?thesis by (simp add: between_quotes_def)
qed

lemma between_quotes_one:
  assumes "length (filter (\<lambda>c. c = CHR 0x22) v) \<le> 1"
  shows "between_quotes v = v"
proof (cases "CHR 0x22 \<in> set v")
  case True
  then obtain a b where v: "v = a @ CHR 0x22 # b" "CHR 0x22 \<notin> set a" using split_list_first by metis
  with assms have "CHR 0x22 \<notin> set b" by (auto simp: filter_empty_conv)
  then have "find_last is_quote v = Some (length a)"
    using find_last_append [of is_quote "CHR 0x22" b a] v by (auto simp: is_quote_def list_all_iff)
  moreover have "find_first is_quote v = Some (length a)"
    using v by (simp add: find_first_takeWhile is_quote_def takeWhile_absent)
  ultimately show ?thesis by (simp add: between_quotes_def)
next
  case False
  then have "find_first is_quote v = None" by (auto simp: find_first_takeWhile is_quote_def list_all_iff)
  then show ?thesis by (simp add: between_quotes_def)
qed

lemma ex18_value_unescaped: "ex18_value v = unescaped (between_quotes v)"
  by (simp add: ex18_value_def unescape_unescaped)

lemma value_means_iff: "value_means v x \<longleftrightarrow> x = ex18_value v"
proof
  show "value_means v x \<Longrightarrow> x = ex18_value v"
    by (auto simp: unescapes_iff ex18_value_unescaped between_quotes_two between_quotes_one elim!: value_means.cases)
  have "value_means v (ex18_value v)"
  proof (cases "length (filter (\<lambda>c. c = CHR 0x22) v) \<le> 1")
    case True
    then show ?thesis by (auto simp: ex18_value_unescaped between_quotes_one unescapes_iff intro: without_quotes)
  next
    case False
    then have "filter (\<lambda>c. c = CHR 0x22) v \<noteq> []" by auto
    then have "CHR 0x22 \<in> set v" by (auto simp: filter_empty_conv)
    then obtain a r where v: "v = a @ CHR 0x22 # r" "CHR 0x22 \<notin> set a" using split_list_first by metis
    with False have "CHR 0x22 \<in> set r" by (auto simp: filter_empty_conv)
    then obtain m b where "r = m @ CHR 0x22 # b" "CHR 0x22 \<notin> set b" using split_list_last by metis
    with v show ?thesis by (auto simp: ex18_value_unescaped between_quotes_two unescapes_iff intro!: in_quotes)
  qed
  then show "x = ex18_value v \<Longrightarrow> value_means v x" by simp
qed

lemma blank_separator: "blank c \<longleftrightarrow> is_separator c"
  by (simp add: is_separator_def)

lemma ltrim_text:
  assumes "list_all isspace sp" and "w \<noteq> []" and "\<not> isspace (hd w)"
  shows "ltrim (sp @ w @ r) = w @ r"
  using assms by (cases w) (auto simp: ltrim_def list_all_iff dropWhile_append2)

lemma line_split:
  assumes "list_all (\<lambda>c. \<not> blank c) w" and "r = [] \<or> blank (hd r)"
  shows "line_name (w @ r) = w" and "line_rest (w @ r) = r"
  using assms by (cases r; auto simp: line_name_def line_rest_def list_all_iff blank_separator takeWhile_append2 dropWhile_append2)+

lemma line_means_read:
  assumes "line_means line x"
  shows "x = read_line ex18_value line"
  using assms
proof cases
  case (no_word l)
  then have "ltrim l = []" by (simp add: ltrim_def list_all_iff)
  with no_word show ?thesis by (simp add: read_line_def text_of_iff)
next
  case (one_word sp w bl)
  then have "bl = [] \<or> blank (hd bl)" by (cases bl) auto
  from line_split [OF one_word(6) this] ltrim_text [OF one_word(3-5), of bl] one_word show ?thesis
    by (simp add: read_line_def text_of_iff blank_separator)
next
  case (name_and_value sp nm c r v y)
  have "c # r = [] \<or> blank (hd (c # r))" using name_and_value by simp
  from line_split [OF name_and_value(6) this] ltrim_text [OF name_and_value(3-5), of "c # r"] name_and_value
  show ?thesis
    by (simp add: read_line_def text_of_iff trims_to_iff value_means_iff blank_separator)
qed

lemma read_line_means: "line_means line (read_line ex18_value line)"
proof -
  let ?t = "takeWhile (\<lambda>c. c \<noteq> CHR ''#'') (c_str line)"
  let ?l = "ltrim ?t"
  have of_line: "text_of line ?t" by (simp add: text_of_iff)
  have sp: "?t = takeWhile isspace ?t @ ?l" "list_all isspace (takeWhile isspace ?t)"
    by (auto simp: ltrim_def list_all_iff dest: set_takeWhileD)
  show ?thesis
  proof (cases "?l = []")
    case True
    with sp have "list_all isspace ?t" by simp
    with of_line True show ?thesis by (auto simp: read_line_def intro: no_word)
  next
    case False
    have start: "\<not> isspace (hd ?l)" using False hd_dropWhile [of isspace ?t] by (simp add: ltrim_def)
    note nm = line_name_start [OF False start]
    have hd: "\<not> isspace (hd (line_name ?l))"
      using start line_parts [of ?l] nm by (metis hd_append2)
    have word: "list_all (\<lambda>c. \<not> blank c) (line_name ?l)" using line_name_words [of ?l] by (simp add: blank_separator)
    have parts: "text_of line (takeWhile isspace ?t @ line_name ?l @ line_rest ?l)"
      using of_line sp(1) line_parts [of ?l] by simp
    show ?thesis
    proof (cases "list_all is_separator (line_rest ?l)")
      case True
      from one_word [OF parts sp(2) nm hd word] True False show ?thesis
        by (simp add: read_line_def blank_separator)
    next
      case rest: False
      then obtain c r where cr: "line_rest ?l = c # r" by (cases "line_rest ?l") auto
      with line_rest_hd [of ?l] have c: "blank c" by (simp add: blank_separator)
      with rest cr have "\<not> list_all blank r" by (simp add: blank_separator)
      from name_and_value [OF parts [unfolded cr] sp(2) nm hd word c this] rest False cr c [unfolded blank_separator] show ?thesis
        by (simp add: read_line_def Let_def trims_to_iff value_means_iff)
    qed
  qed
qed

section \<open>Lines of a stream\<close>

lemma take_line_newline:
  "newline \<notin> set l \<Longrightarrow> length l \<le> k \<Longrightarrow>
    take_line k (l @ newline # r) = (l, \<lparr>rest = r, eofbit = False, failbit = False\<rparr>)"
proof (induction l arbitrary: k)
  case (Cons c l)
  then have "take_line (k - 1) (l @ newline # r) = (l, \<lparr>rest = r, eofbit = False, failbit = False\<rparr>)" by auto
  with Cons.prems show ?case by auto
qed simp

lemma take_line_long:
  "newline \<notin> set l \<Longrightarrow> c \<noteq> newline \<Longrightarrow> length l = k \<Longrightarrow>
    take_line k (l @ c # r) = (l, \<lparr>rest = c # r, eofbit = False, failbit = True\<rparr>)"
  by (induction l arbitrary: k) auto

lemma getline_line:
  assumes "newline \<notin> set l" and "length l < n"
  shows "getline n (open_stream (l @ newline # r)) = (l, open_stream r)"
  using take_line_newline [OF assms(1), of "n - 1" r] assms(2) by (simp add: getline_def open_stream_def)

lemma getline_end: "getline n (open_stream []) = ([], \<lparr>rest = [], eofbit = True, failbit = True\<rparr>)"
  by (simp add: getline_def open_stream_def)

lemma config_loop_failed: "failbit is \<Longrightarrow> config_loop interp oor E is ln = retM"
  by (rule ext) (simp add: config_loop.simps [of _ _ _ "is"])

end
