(* ===== verification/Config_Properties.thy ===== *)
theory Config_Properties
  imports Config_Laws Broker_Properties
begin

text \<open>
  The properties of configuration files: how a line is read, that a written file is read back,
  what a long line does, and that the entries become preset values.
\<close>

text \<open>
  C32. A line is read as the format says (\<open>line_means\<close>, which does not refer to the code). For every line
  the tool of example 18 answers without an exception, and its answer is the one meaning of the line. What
  follows a \<open>#\<close> is ignored; a line of space is empty; a line of one word fails; otherwise the first word is
  the name. The value is the rest without the space around it, or, if that has two quotation marks or
  more, only what is between the first and the last of them; and in it a backslash with a quotation mark
  stands for the quotation mark alone, whatever the loops over the words and over the escaped quotation
  marks and the searches of the name, the separators and the quotation marks do.
\<close>

theorem config_line_read:
  "\<exists>r. interpret_config_line line = Some r \<and> (\<forall>r'. line_means line r' \<longleftrightarrow> r' = r)"
proof -
  have "interpret_config_line line = Some (read_line ex18_value line)"
    by (simp add: interpret_config_line_def interpret_with_read_line)
  moreover have "\<forall>r'. line_means line r' \<longleftrightarrow> r' = read_line ex18_value line"
    using read_line_means line_means_read by blast
  ultimately show ?thesis by blast
qed

text \<open>A name with a value between quotation marks that has escaped ones, with text around it.\<close>

definition ex_line :: string where
  "ex_line = '' a.b =x '' @ [CHR 0x22] @ ''y'' @ [CHR 0x5C, CHR 0x22] @ ''z'' @ [CHR 0x22] @ '' ; # no more''"

theorem config_line_read_witness:
  "interpret_config_line ex_line = Some (''a.b'', ''y'' @ [CHR 0x22] @ ''z'')"
proof -
  have "unescapes (''y'' @ [CHR 0x5C, CHR 0x22] @ ''z'') (''y'' @ [CHR 0x22] @ ''z'')"
    by (simp add: unescapes.intros)
  from in_quotes [OF _ _ this, of "''=x ''" "'' ;''"]
  have x: "value_means (''=x '' @ CHR 0x22 # (''y'' @ [CHR 0x5C, CHR 0x22] @ ''z'') @ CHR 0x22 # '' ;'') (''y'' @ [CHR 0x22] @ ''z'')"
    by simp
  have t: "text_of ex_line ('' '' @ ''a.b'' @ CHR '' '' # ''=x '' @ CHR 0x22 # (''y'' @ [CHR 0x5C, CHR 0x22] @ ''z'') @ CHR 0x22 # '' ; '')"
    by (simp add: text_of_def ex_line_def)
  have tr: "trims_to (''=x '' @ CHR 0x22 # (''y'' @ [CHR 0x5C, CHR 0x22] @ ''z'') @ CHR 0x22 # '' ; '')
      (''=x '' @ CHR 0x22 # (''y'' @ [CHR 0x5C, CHR 0x22] @ ''z'') @ CHR 0x22 # '' ;'')"
    unfolding trims_to_def
    by (intro exI [of _ "[]"] exI [of _ "'' ''"]) (simp add: isspace_def)
  have "line_means ex_line (''a.b'', ''y'' @ [CHR 0x22] @ ''z'')"
    by (rule name_and_value [OF t _ _ _ _ _ _ tr x]) (simp_all add: isspace_def)
  with config_line_read [of ex_line] show ?thesis by auto
qed

lemma ex17_line_read: "ex17_interpret_config_line line = Some (read_line (\<lambda>v. v) line)"
  by (simp add: ex17_interpret_config_line_def interpret_with_read_line)

section \<open>Writing and reading a file\<close>

definition write_entry :: "string \<times> string \<Rightarrow> string" where
  "write_entry e = fst e @ '' '' @ quoted (snd e)"

definition write_config :: "(string \<times> string) list \<Rightarrow> string" where
  "write_config es = concat (map (\<lambda>e. write_entry e @ [newline]) es)"

text \<open>What can be written: no comments, no ends of lines or strings, no macros, and no long lines.\<close>

definition good_entry :: "string \<times> string \<Rightarrow> bool" where
  "good_entry e \<longleftrightarrow>
     fst e \<noteq> [] \<and> list_all (\<lambda>c. \<not> isspace c \<and> c \<notin> {CHR ''#'', CHR 0x00}) (fst e)
     \<and> list_all (\<lambda>c. c \<notin> {CHR ''#'', CHR 0x00, newline}) (snd e) \<and> (snd e = [] \<or> hd (snd e) \<noteq> CHR ''='')
     \<and> length (write_entry e) < CONFIG_FILE_TOOL_BUFSIZE"

lemma set_escape: "set (escape v) \<subseteq> insert (CHR 0x5C) (set v)"
  by (induction v) (auto simp: escaped_quote_def is_quote_def)

lemma set_write_entry: "set (write_entry e) \<subseteq> set (fst e) \<union> {CHR '' '', CHR 0x22, CHR 0x5C} \<union> set (snd e)"
  using set_escape [of "snd e"] by (auto simp: write_entry_def quoted_def)

lemma good_entry_chars:
  assumes "good_entry e" and "c \<in> set (write_entry e)"
  shows "c \<noteq> CHR ''#''" and "c \<noteq> CHR 0x00" and "c \<noteq> newline"
  using assms subsetD [OF set_write_entry assms(2)]
  by (auto simp: good_entry_def list_all_iff newline_def isspace_def)

lemma trim_quoted: "trim (quoted v) = quoted v"
  by (simp add: trim_def ltrim_def rtrim_def quoted_def isspace_def)

lemma read_written_line:
  assumes good: "good_entry e"
  shows "read_line ex18_value (write_entry e) = e"
proof -
  obtain nm v where e: "e = (nm, v)" by (cases e)
  have chars: "c_str (write_entry e) = write_entry e"
    "takeWhile (\<lambda>c. c \<noteq> CHR ''#'') (write_entry e) = write_entry e"
    using good_entry_chars [OF good] by (simp_all add: c_str_def takeWhile_eq_all_conv)
  have nm: "nm \<noteq> []" "\<forall>c \<in> set nm. \<not> isspace c"
    using good by (auto simp: e good_entry_def list_all_iff)
  then have trimmed: "ltrim (write_entry e) = write_entry e" and ne: "write_entry e \<noteq> []"
    by (cases nm; auto simp: ltrim_def e write_entry_def)+
  have "\<forall>c \<in> set nm. \<not> is_separator c" using nm(2) separator_isspace by blast
  then have parts: "line_name (write_entry e) = nm" "line_rest (write_entry e) = CHR '' '' # quoted v"
    by (simp_all add: line_name_def line_rest_def e write_entry_def is_separator_def)
  moreover have "\<not> list_all is_separator (CHR '' '' # quoted v)"
    by (simp add: quoted_def is_separator_def)
  ultimately show ?thesis
    using ne nm(1) unfolding read_line_def Let_def chars trimmed parts
    by (simp add: trim_quoted ex18_value_quoted e)
qed

definition add_entry :: "config_set \<Rightarrow> string \<times> string \<Rightarrow> config_set" where
  "add_entry cs e = snd (config_add (fst e) (snd e) cs)"

lemma config_line_good:
  "good_entry e \<Longrightarrow> config_line E ln line e (cs, []) s = (Ret (add_entry cs e, []), s)"
  by (auto simp: config_line_def good_entry_def add_entry_def config_has_def split: prod.splits)

lemma read_empty_line: "interpret_config_line [] = Some ([], [])"
  by (simp add: interpret_config_line_def interpret_with_def remove_comment_takeWhile c_str_def ltrim_def)

lemma config_loop_end: "config_loop interpret_config_line oor E (open_stream []) ln sets = retM sets"
proof -
  have "config_line E ln l ([], []) sets = retM sets" for ln l
    by (cases sets) (simp add: config_line_def)
  moreover have "\<not> failbit (open_stream [])" by (simp add: open_stream_def)
  ultimately show ?thesis
    by (simp add: config_loop.simps [of _ _ _ "open_stream []"] getline_end config_loop_failed read_empty_line Let_def)
qed

lemma read_written_loop:
  assumes "\<forall>e \<in> set es. good_entry e"
  shows "config_loop interpret_config_line oor E (open_stream (write_config es)) ln (cs, []) s
    = (Ret (foldl add_entry cs es, []), s)"
  using assms
proof (induction es arbitrary: ln cs)
  case Nil
  then show ?case
    by (simp add: write_config_def config_loop_end)
next
  case (Cons e es)
  let ?is = "open_stream (write_config (e # es))"
  have "length (write_entry e) < CONFIG_FILE_TOOL_BUFSIZE" "newline \<notin> set (write_entry e)"
    using Cons.prems good_entry_chars(3) [of e] by (auto simp: good_entry_def)
  from getline_line [OF this(2,1)]
  have line: "getline CONFIG_FILE_TOOL_BUFSIZE ?is = (write_entry e, open_stream (write_config es))"
    by (simp add: write_config_def)
  have "\<not> failbit ?is" by (simp add: open_stream_def)
  then have "config_loop interpret_config_line oor E ?is ln (cs, []) s
      = config_loop interpret_config_line oor E (open_stream (write_config es)) (ln + 1) (add_entry cs e, []) s"
    using Cons.prems line read_written_line [of e]
    by (simp add: config_loop.simps [of _ _ _ ?is] interpret_config_line_def interpret_with_read_line
        bindM_Ret [OF config_line_good] Let_def)
  with Cons show ?case by simp
qed

lemma config_add_find:
  "map_find k (snd (config_add nm x m)) = (if k = nm then Some x else map_find k m)"
  by (auto simp: config_add_def)

lemma config_add_sorted: "sorted_map m \<Longrightarrow> sorted_map (snd (config_add nm x m))"
  by (simp add: config_add_def sorted_map_insert sorted_map_erase)

lemma add_entries:
  "sorted_map cs \<Longrightarrow> sorted_map (foldl add_entry cs es)
    \<and> (\<forall>k. map_find k (foldl add_entry cs es) = (case map_of (rev es) k of Some x \<Rightarrow> Some x | None \<Rightarrow> map_find k cs))"
proof (induction es arbitrary: cs)
  case (Cons e es)
  from Cons.IH [of "add_entry cs e"] Cons.prems show ?case
    by (cases e) (auto simp: add_entry_def config_add_sorted config_add_find map_add_def split: option.splits)
qed simp

lemma read_written_config:
  assumes "\<forall>e \<in> set es. good_entry e"
  shows "\<exists>cs. create_config_set_from_file oor E f (Some (write_config es)) s = (Ret cs, s)
    \<and> sorted_map cs \<and> (\<forall>nm. map_find nm cs = map_of (rev es) nm)"
  using read_written_loop [OF assms, of oor E 0 "[]" s] add_entries [of "[]" es]
  by (auto simp: create_config_set_from_file_def read_config_def bindM_Ret split: option.splits)

text \<open>
  C33. What is written is read back. A file with a line for each entry, its value between
  quotation marks with those inside escaped, is read without a report as the map from the names to
  their last values, in the order of the names. The entries are those that the format can hold: names are
  not empty and without space, \<open>#\<close> and NUL; values are without \<open>#\<close>, which starts a comment also between
  quotation marks, NUL and the end of a line, and do not start with an equals sign, since such a line
  defines a macro; and lines have fewer than 1024 characters. Values may hold spaces, quotation marks and
  backslashes.
\<close>

theorem config_file_roundtrip:
  assumes "\<forall>e \<in> set es. good_entry e"
  shows "\<exists>cs. create_config_set_from_file oor E f (Some (write_config es)) s = (Ret cs, s)
    \<and> sorted_map cs \<and> (\<forall>nm. map_find nm cs = map_of (rev es) nm)"
  by (rule read_written_config [OF assms])

theorem config_file_roundtrip_witness:
  "\<exists>cs. create_config_set_from_file (User_exn 0) (ex_env True) ''f''
      (Some (write_config [(''a.b'', ''12''), (''a.c'', ''x y''), (''a.b'', [CHR 0x22, CHR 0x22])])) ex_world
    = (Ret cs, ex_world) \<and> map_find ''a.b'' cs = Some [CHR 0x22, CHR 0x22]"
proof -
  have "\<forall>e \<in> set [(''a.b'', ''12''), (''a.c'', ''x y''), (''a.b'', [CHR 0x22, CHR 0x22])]. good_entry e"
    by code_simp
  from config_file_roundtrip [OF this, of "User_exn 0" "ex_env True" "''f''" ex_world] show ?thesis by auto
qed

lemma config_loop_long:
  assumes "length p = 1023" and "newline \<notin> set p" and "c \<noteq> newline"
  shows "config_loop interp oor E (open_stream (p @ c # q)) ln sets = config_loop interp oor E (open_stream (p @ [c])) ln sets"
proof -
  have "getline CONFIG_FILE_TOOL_BUFSIZE (open_stream (p @ c # r)) = (p, \<lparr>rest = c # r, eofbit = False, failbit = True\<rparr>)" for r
    using take_line_long [OF assms(2,3,1), of r] by (simp add: getline_def open_stream_def CONFIG_FILE_TOOL_BUFSIZE_def)
  moreover have "\<not> failbit (open_stream r)" for r by (simp add: open_stream_def)
  ultimately show ?thesis
    by (cases "interp p") (simp_all add: config_loop.simps [of _ _ _ "open_stream _"] config_loop_failed Let_def)
qed

text \<open>
  A long line ends the file. Once 1023 characters of a line are read and there is another one,
  \<open>getline\<close> sets \<open>failbit\<close>, the line that was cut off is taken for a line of its own and the loop
  ends: nothing that follows, in the same line or after it, has an effect, and nothing is reported.
\<close>

lemma long_line_ends_file:
  assumes "length p = 1023" and "newline \<notin> set p" and "c \<noteq> newline"
  shows "create_config_set_from_file oor E f (Some (p @ c # q)) s = create_config_set_from_file oor E f (Some (p @ [c])) s"
  by (simp add: create_config_set_from_file_def read_config_def config_loop_long [OF assms, of _ _ _ q])

lemma long_line_ends_file_witness:
  "create_config_set_from_file (User_exn 0) (ex_env True) ''f'' (Some (replicate 1023 CHR ''x'' @ CHR ''x'' # newline # ''b 2'')) ex_world
    = create_config_set_from_file (User_exn 0) (ex_env True) ''f'' (Some (replicate 1023 CHR ''x'' @ [CHR ''x''])) ex_world"
  by (rule long_line_ends_file) (simp_all add: newline_def)

section \<open>Presets\<close>

lemma value_from_json_parsed: "parser (c_str v) = Inr x \<Longrightarrow> value_from_json E parser v = retM x"
  by (simp add: value_from_json_def)

lemma apply_presets_run:
  assumes "brokers_ok s" and "brokers s (m_broker bh) \<noteq> None" and "m_broker bh < n"
    and "\<forall>c r. brokers s c = Some r \<longrightarrow> locked r \<inter> fst ` set cs = {}"
    and "\<forall>e \<in> set cs. parser (snd e) = Inr (js (snd e)) \<and> c_str (fst e) = fst e \<and> c_str (snd e) = snd e"
    and "distinct (map fst cs)"
  shows "\<exists>t. apply_presets E parser n bh cs s = (Ret (), t)
    \<and> (\<forall>nm. fst (get_preset_cci_value E n (m_broker bh) nm t)
          = (case map_of cs nm of Some v \<Rightarrow> Ret (js v) | None \<Rightarrow> fst (get_preset_cci_value E n (m_broker bh) nm s))
        \<and> fst (has_preset_value n (m_broker bh) nm t)
          = (case map_of cs nm of Some v \<Rightarrow> Ret True | None \<Rightarrow> fst (has_preset_value n (m_broker bh) nm s)))"
  using assms
proof (induction cs arbitrary: s)
  case (Cons e cs)
  obtain nm v where e: "e = (nm, v)" by (cases e)
  have "\<forall>c r. brokers s c = Some r \<longrightarrow> nm \<notin> locked r" using Cons.prems(4) by (auto simp: e)
  from set_preset_run [OF Cons.prems(1,2,3) this, of E "js v" "bh_originator bh"] obtain t where
    t: "set_preset_cci_value E n (m_broker bh) nm (js v) (bh_originator bh) s = (Ret (), t)"
      "get_preset_cci_value E n (m_broker bh) nm t = (Ret (js v), t)" "has_preset_value n (m_broker bh) nm t = (Ret True, t)"
    and others: "\<And>nm'. nm' \<noteq> nm \<Longrightarrow>
      fst (get_preset_cci_value E n (m_broker bh) nm' t) = fst (get_preset_cci_value E n (m_broker bh) nm' s)
      \<and> fst (has_preset_value n (m_broker bh) nm' t) = fst (has_preset_value n (m_broker bh) nm' s)"
    and ok: "brokers_ok t" "\<forall>c. brokers t c = None \<longleftrightarrow> brokers s c = None"
    and locks: "\<forall>c r. brokers t c = Some r \<longrightarrow> (\<exists>q. brokers s c = Some q \<and> locked r = locked q)"
    using Cons.prems(2,3) by blast
  have "locked r \<inter> fst ` set cs = {}" if "brokers t c = Some r" for c r
  proof -
    from locks that obtain q where "brokers s c = Some q" "locked r = locked q" by blast
    with Cons.prems(4) have "locked r \<inter> fst ` set (e # cs) = {}" by metis
    then show ?thesis by simp
  qed
  moreover have "brokers t (m_broker bh) \<noteq> None" using Cons.prems(2) ok(2) by simp
  moreover have "\<forall>e \<in> set cs. parser (snd e) = Inr (js (snd e)) \<and> c_str (fst e) = fst e \<and> c_str (snd e) = snd e"
    using Cons.prems(5) by simp
  moreover have "distinct (map fst cs)" using Cons.prems(6) by simp
  ultimately obtain u where u: "apply_presets E parser n bh cs t = (Ret (), u)"
    and q: "\<And>nm. fst (get_preset_cci_value E n (m_broker bh) nm u)
          = (case map_of cs nm of Some v \<Rightarrow> Ret (js v) | None \<Rightarrow> fst (get_preset_cci_value E n (m_broker bh) nm t))
        \<and> fst (has_preset_value n (m_broker bh) nm u)
          = (case map_of cs nm of Some v \<Rightarrow> Ret True | None \<Rightarrow> fst (has_preset_value n (m_broker bh) nm t))"
    using Cons.IH [OF ok(1) _ Cons.prems(3)] by blast
  have "apply_presets E parser n bh (e # cs) s = (Ret (), u)"
    using Cons.prems(5) t(1) u
    by (simp add: e value_from_json_parsed handle_broker_set_preset_def bindM_Ret)
  moreover have "map_of cs nm = None"
    using Cons.prems(6) by (simp add: e map_of_eq_None_iff)
  ultimately show ?case
    using q t(2,3) others by (auto simp: e split: option.splits)
qed simp

text \<open>
  C34. The entries of a file become presets. After \<open>config\<close> of a file that was written for some
  entries that the format can hold (as in \<open>config_file_roundtrip\<close>: no \<open>#\<close>, NUL or end of a line in names
  and values, no space in names, no value that starts with an equals sign, no line of 1024
  characters), whose values are JSON texts and whose names are locked in no broker, each name has a preset
  value in the broker of the tool, wherever in the hierarchy it is kept, namely what its last
  value parses to; the presets of all other names are as before.
\<close>

theorem config_file_presets:
  assumes good: "\<forall>e \<in> set es. good_entry e" and json: "\<forall>e \<in> set es. parser (snd e) = Inr (js (snd e))"
    and ok: "brokers_ok s" "brokers s (m_broker bh) \<noteq> None" "m_broker bh < n"
    and free: "\<forall>c r. brokers s c = Some r \<longrightarrow> locked r \<inter> fst ` set es = {}"
  shows "\<exists>t. config E parser oor n bh f (Some (write_config es)) s = (Ret (), t)
    \<and> (\<forall>nm. fst (get_preset_cci_value E n (m_broker bh) nm t)
          = (case map_of (rev es) nm of Some v \<Rightarrow> Ret (js v) | None \<Rightarrow> fst (get_preset_cci_value E n (m_broker bh) nm s))
        \<and> fst (has_preset_value n (m_broker bh) nm t)
          = (case map_of (rev es) nm of Some v \<Rightarrow> Ret True | None \<Rightarrow> fst (has_preset_value n (m_broker bh) nm s)))"
proof -
  from read_written_config [OF good, of oor E f s] obtain cs where
    cs: "create_config_set_from_file oor E f (Some (write_config es)) s = (Ret cs, s)" "sorted_map cs"
      "\<And>nm. map_find nm cs = map_of (rev es) nm" by blast
  have sub: "set cs \<subseteq> set es"
  proof
    fix e assume "e \<in> set cs"
    with cs(2,3) have "map_of (rev es) (fst e) = Some (snd e)" by (cases e) (simp add: sorted_map_in_iff)
    from map_of_SomeD [OF this] show "e \<in> set es" by simp
  qed
  then have keys: "fst ` set cs \<subseteq> fst ` set es" by blast
  have plain: "c_str (fst e) = fst e \<and> c_str (snd e) = snd e" if "e \<in> set cs" for e
  proof -
    from good sub that have "good_entry e" by blast
    then show ?thesis by (simp add: good_entry_def list_all_iff c_str_def takeWhile_eq_all_conv)
  qed
  have "\<forall>c r. brokers s c = Some r \<longrightarrow> locked r \<inter> fst ` set cs = {}" using free keys by blast
  moreover have "\<forall>e \<in> set cs. parser (snd e) = Inr (js (snd e)) \<and> c_str (fst e) = fst e \<and> c_str (snd e) = snd e"
    using json sub plain by blast
  moreover have "map_of cs = map_of (rev es)" using cs(3) by (auto simp: map_find_def)
  moreover have "config E parser oor n bh f (Some (write_config es)) s = apply_presets E parser n bh cs s"
    unfolding config_def by (rule bindM_Ret) (rule cs(1))
  ultimately show ?thesis
    using apply_presets_run [OF ok, of cs parser js E] sorted_map_distinct [OF cs(2)] by simp
qed

theorem config_file_presets_witness:
  "\<exists>t. config (ex_env True) (\<lambda>x. Inr (int (length x))) (User_exn 0) 3 (create_broker_handle 2 ex_other) ''f''
        (Some (write_config [(''q'', ''12''), (''r'', ''abc'')])) ex_tree = (Ret (), t)
    \<and> fst (get_preset_cci_value (ex_env True) 3 2 ''q'' t) = Ret 2
    \<and> fst (get_preset_cci_value (ex_env True) 3 2 ''r'' t) = Ret 3"
proof -
  let ?es = "[(''q'', ''12''), (''r'', ''abc'')]" and ?bh = "create_broker_handle 2 ex_other"
  have good: "\<forall>e \<in> set ?es. good_entry e" by code_simp
  have b: "m_broker ?bh = 2" by (simp add: create_broker_handle_def)
  have free: "\<forall>c r. brokers ex_tree c = Some r \<longrightarrow> locked r \<inter> fst ` set ?es = {}"
    using ex_tree_unlocked by fast
  show ?thesis
    using config_file_presets [OF good, of "\<lambda>x. Inr (int (length x))" "\<lambda>x. int (length x)" ex_tree ?bh 3 "ex_env True"
        "User_exn 0" "''f''"] free ex_tree_brokers
    by (auto simp: b)
qed

end
