(* ===== verification/Route_Table.thy ===== *)
theory Route_Table
  imports Converter_Sequences Value_Properties
begin

text \<open>
  A type of a user with a converter of its own: \<open>route_table_ut\<close> of example 16
  (src/examples/cci/ex16_User_Defined_Data_Type/ex16_user_datatype.h), which is packed into a map with
  an entry for each member. The converter keeps the contract \<open>lawful_converter\<close>, so that all that
  is proved of lawful converters holds of parameters of this type and of vectors of it.
\<close>

section \<open>The type and its converter\<close>

record route_table_ut =
  s_address :: "32 word"
  d_address :: "32 word"
  rt_index :: "32 word"

definition new_route_table :: route_table_ut where
  "new_route_table = \<lparr>s_address = 0, d_address = 0, rt_index = 0\<rparr>"

definition route_table_pack :: "'x sc_env_scheme \<Rightarrow> ('r, 'd) rapidjson \<Rightarrow> cci_value_ref \<Rightarrow> route_table_ut
    \<Rightarrow> ('r, bool) vcomp" where
  "route_table_pack E J dst src =
     bindM (set_map J dst) (\<lambda>m.
       bindM (push_entry_conv E J (int_converter E J) (Key_chars ''s_address'') (s_address src) m) (\<lambda>m.
         bindM (push_entry_conv E J (int_converter E J) (Key_chars ''d_address'') (d_address src) m) (\<lambda>m.
           bindM (push_entry_conv E J (int_converter E J) (Key_chars ''index'') (rt_index src) m) (\<lambda>m.
             retM True))))"

text \<open>
  One conjunct pair of the condition of \<open>unpack\<close>: \<open>has_entry\<close> and \<open>at\<close> with \<open>try_get\<close>, which writes into
  the member; \<open>get\<close> and \<open>upd\<close> read and write the member.
\<close>

definition unpack_member :: "'x sc_env_scheme \<Rightarrow> ('r, 'd) rapidjson \<Rightarrow> string \<Rightarrow> (route_table_ut \<Rightarrow> 32 word)
    \<Rightarrow> (32 word \<Rightarrow> route_table_ut \<Rightarrow> route_table_ut) \<Rightarrow> cci_value_cref \<Rightarrow> route_table_ut
    \<Rightarrow> ('r, bool \<times> route_table_ut) vcomp" where
  "unpack_member E J key get upd m dst =
     bindM (has_entry E J (Key_chars key) m) (\<lambda>h.
       if \<not> h then retM (False, dst)
       else bindM (vmap_at E J (Key_chars key) m) (\<lambda>v.
         bindM (cref_try_get (int_converter E J) (get dst) v) (\<lambda>(ok, x). retM (ok, upd x dst))))"

definition route_table_unpack :: "'x sc_env_scheme \<Rightarrow> ('r, 'd) rapidjson \<Rightarrow> route_table_ut \<Rightarrow> cci_value_cref
    \<Rightarrow> ('r, bool \<times> route_table_ut) vcomp" where
  "route_table_unpack E J dst src =
     bindM (is_map J src) (\<lambda>b.
       if \<not> b then retM (False, dst)
       else bindM (get_map E J src) (\<lambda>m.
         bindM (unpack_member E J ''s_address'' s_address (\<lambda>x d. d\<lparr>s_address := x\<rparr>) m dst) (\<lambda>(ok, dst).
           if \<not> ok then retM (False, dst)
           else bindM (unpack_member E J ''d_address'' d_address (\<lambda>x d. d\<lparr>d_address := x\<rparr>) m dst) (\<lambda>(ok, dst).
             if \<not> ok then retM (False, dst)
             else bindM (unpack_member E J ''index'' rt_index (\<lambda>x d. d\<lparr>rt_index := x\<rparr>) m dst) (\<lambda>(ok, dst).
               if ok then retM (True, dst) else retM (False, dst))))))"

definition route_table_converter :: "'x sc_env_scheme \<Rightarrow> ('r, 'd) rapidjson \<Rightarrow> (route_table_ut, 'r) converter" where
  "route_table_converter E J =
     \<lparr>conv_pack = (\<lambda>dst src. route_table_pack E J dst src), conv_unpack = (\<lambda>dst src. route_table_unpack E J dst src)\<rparr>"

text \<open>The comparison, and \<open>operator<<\<close>: the JSON text of a temporary value.\<close>

definition route_table_eq :: "route_table_ut \<Rightarrow> route_table_ut \<Rightarrow> bool" where
  "route_table_eq lhs rhs \<longleftrightarrow>
     d_address lhs = d_address rhs \<and> rt_index lhs = rt_index rhs \<and> s_address lhs = s_address rhs"

definition route_table_text :: "'x sc_env_scheme \<Rightarrow> ('r, 'd) rapidjson \<Rightarrow> route_table_ut \<Rightarrow> ('r, string) vcomp" where
  "route_table_text E J ud =
     bindM (new_value_from E J (route_table_converter E J) ud) (\<lambda>w. with_value w (\<lambda>v. to_json E J v))"

section \<open>Entries of a map\<close>

text \<open>A value of a C++ type as a new member of a map, like \<open>push_back_conv_eq\<close> for lists.\<close>

context lawful_converter
begin

lemma push_entry_conv_eq:
  assumes ok: "values_ok s" and n: "node_at J s n = Some (json_object J ms)" "writable (snd n)" and x: "repr x"
  shows "\<exists>t. push_entry_conv E J C key x (Some n) s = (Ret (Some n), t) \<and> values_ok t
    \<and> same_store t (write_node J n (json_object J (ms @ [(c_str (key_string key), enc x)])) s)"
proof -
  obtain a w t where t: "new_value_from E J C x s = (Ret w, t)" "temporary Kind_value a (enc x) w s t"
    using new_value_from_temporary [OF ok x] by blast
  let ?u = "write_node J (a, []) (json_null J) t"
  have u: "temporary Kind_value a (json_null J) w s ?u"
    using t(2) same_store_refl values_ok_write [OF temporary_root(3) [OF t(2)]] by (rule temporary_write)
  have n': "node_at J ?u n = Some (json_object J ms)"
    using temporary_other [OF u n(1)] by blast
  let ?v = "write_node J n (json_object J (ms @ [(c_str (key_string key), enc x)])) ?u"
  have v: "temporary Kind_value a (json_null J) w
      (write_node J n (json_object J (ms @ [(c_str (key_string key), enc x)])) s) ?v"
    using u n(1) by (rule temporary_write_other)
  have "push_entry_move J (Key_chars (key_string key)) (Some (a, [])) (Some n) t = (Ret (Some n), ?v)"
    by (simp add: push_entry_move_def do_push_move_def fresh_move_def bindM_def
        take_node_Some [OF temporary_root(1) [OF t(2)]] members_of_object [OF n'] set_node_Some [OF n'])
  then have "push_entry_conv E J C key x (Some n) s = (Ret (Some n), delete_wrapper w ?v)"
    by (simp add: push_entry_conv_def do_push_conv_def with_value_def bindM_def t(1) temporary_root(2) [OF t(2)] guardM_def)
  with temporary_delete [OF v] show ?thesis by blast
qed

text \<open>The same in a value that was written before.\<close>

lemma push_entry_step:
  assumes t: "values_ok t" "same_store t (write_node J n (json_object J ms) s)"
    and n: "node_at J s n = Some r" "writable (snd n)" and x: "repr x"
  shows "\<exists>u. push_entry_conv E J C key x (Some n) t = (Ret (Some n), u) \<and> values_ok u
    \<and> same_store u (write_node J n (json_object J (ms @ [(c_str (key_string key), enc x)])) s)"
proof -
  have "node_at J t n = Some (json_object J ms)"
    using node_at_same [OF t(2), of J n] node_at_write [OF n] by simp
  from push_entry_conv_eq [OF t(1) this n(2) x] obtain u where
    u: "push_entry_conv E J C key x (Some n) t = (Ret (Some n), u)" "values_ok u"
      "same_store u (write_node J n (json_object J (ms @ [(c_str (key_string key), enc x)])) t)" by blast
  have "same_store u (write_node J n (json_object J (ms @ [(c_str (key_string key), enc x)])) s)"
    using u(3) same_store_write [OF t(2), of J n] write_node_twice [OF n] by (simp add: same_store_def)
  with u(1,2) show ?thesis by blast
qed

end

context rapidjson_model
begin

lemma do_lookup_found:
  "node_at J s n = Some (json_object J ms) \<Longrightarrow> key \<in> fst ` set ms \<Longrightarrow>
    do_lookup E J key mode (Some n) s = (Ret (Some (fst n, snd n @ [Value_of (find_member key ms)])), s)"
  by (simp add: do_lookup_def bindM_def members_of_object Let_def find_member_absent)

lemma unpack_member_eq:
  assumes n: "node_at J s n = Some (json_object J ms)" and k: "c_str key = key"
    and m: "find_member key ms < length ms" "snd (ms ! find_member key ms) = json_int J x"
  shows "unpack_member E J key get upd (Some n) dst s = (Ret (True, upd x dst), s)"
proof -
  let ?p = "(fst n, snd n @ [Value_of (find_member key ms)])"
  have key: "key \<in> fst ` set ms" using m(1) find_member_absent [of key ms] by auto
  have "node_at J s ?p = Some (json_int J x)" using node_at_member [OF n m(1)] m(2) by simp
  from lawful_converter.unpack [OF int_lawful [of E] this] show ?thesis
    by (simp add: unpack_member_def has_entry_def vmap_at_def bindM_def do_lookup_found [OF n key] k cref_try_get_def)
qed

end

section \<open>The converter is lawful\<close>

definition enc_route_table :: "('r, 'd) rapidjson \<Rightarrow> route_table_ut \<Rightarrow> 'r" where
  "enc_route_table J x =
     json_object J [(''s_address'', json_int J (s_address x)), (''d_address'', json_int J (d_address x)),
       (''index'', json_int J (rt_index x))]"

lemma route_table_keys: "c_str ''s_address'' = ''s_address''" "c_str ''d_address'' = ''d_address''" "c_str ''index'' = ''index''"
  by (simp_all add: c_str_def)

context rapidjson_model
begin

lemma route_table_pack_eq:
  assumes ok: "values_ok s" and n: "node_at J s n = Some r" "writable (snd n)"
  shows "\<exists>t. route_table_pack E J (Some n) x s = (Ret True, t) \<and> values_ok t
    \<and> same_store t (write_node J n (enc_route_table J x) s)"
proof -
  let ?s = "write_node J n (json_object J []) s"
  have m: "set_map J (Some n) s = (Ret (Some n), ?s)" by (simp add: set_map_def checked_set_Some [OF n(1)])
  note step = lawful_converter.push_entry_step [where E = E, OF int_lawful [of E] _ _ n TrueI]
  obtain t where t: "push_entry_conv E J (int_converter E J) (Key_chars ''s_address'') (s_address x) (Some n) ?s = (Ret (Some n), t)"
    "values_ok t" "same_store t (write_node J n (json_object J [(''s_address'', json_int J (s_address x))]) s)"
    using step [OF values_ok_write [OF ok] same_store_refl, where key = "Key_chars ''s_address''" and x = "s_address x" and ms = "[]"]
    by (auto simp: route_table_keys)
  obtain u where u: "push_entry_conv E J (int_converter E J) (Key_chars ''d_address'') (d_address x) (Some n) t = (Ret (Some n), u)"
    "values_ok u" "same_store u (write_node J n (json_object J [(''s_address'', json_int J (s_address x)),
      (''d_address'', json_int J (d_address x))]) s)"
    using step [OF t(2,3), where key = "Key_chars ''d_address''" and x = "d_address x"] by (auto simp: route_table_keys)
  obtain v where v: "push_entry_conv E J (int_converter E J) (Key_chars ''index'') (rt_index x) (Some n) u = (Ret (Some n), v)"
    "values_ok v" "same_store v (write_node J n (enc_route_table J x) s)"
    using step [OF u(2,3), where key = "Key_chars ''index''" and x = "rt_index x"] by (auto simp: route_table_keys enc_route_table_def)
  from m t(1) u(1) v show ?thesis by (simp add: route_table_pack_def bindM_def)
qed

lemma route_table_unpack_eq:
  assumes n: "node_at J s n = Some (enc_route_table J x)"
  shows "route_table_unpack E J y (Some n) s = (Ret (True, x), s)"
proof -
  note n' = n [unfolded enc_route_table_def]
  have "is_map J (Some n) s = (Ret True, s)" by (simp add: conv_simps n')
  then have "get_map E J (Some n) s = (Ret (Some n), s)" by (simp add: get_map_def bindM_def value_assert_def)
  with \<open>is_map J (Some n) s = (Ret True, s)\<close> show ?thesis
    by (simp add: route_table_unpack_def bindM_def unpack_member_eq [OF n'] route_table_keys)
qed

text \<open>
  A value that does not have all entries: \<open>unpack\<close> answers false, but the members before the missing
  one have been overwritten.
\<close>

lemma route_table_unpack_partial:
  assumes n: "node_at J s n = Some (json_object J [(''s_address'', json_int J a)])"
  shows "route_table_unpack E J y (Some n) s = (Ret (False, y\<lparr>s_address := a\<rparr>), s)"
proof -
  have m: "is_map J (Some n) s = (Ret True, s)" by (simp add: conv_simps n)
  then have "get_map E J (Some n) s = (Ret (Some n), s)" by (simp add: get_map_def bindM_def value_assert_def)
  moreover have "do_lookup E J ''d_address'' KEY_OPTIONAL (Some n) s = (Ret None, s)"
    by (simp add: do_lookup_def bindM_def members_of_object [OF n])
  then have "unpack_member E J ''d_address'' get upd (Some n) z s = (Ret (False, z), s)" for get upd z
    by (simp add: unpack_member_def has_entry_def bindM_def route_table_keys)
  ultimately show ?thesis
    using m by (simp add: route_table_unpack_def bindM_def unpack_member_eq [OF n] route_table_keys)
qed

lemma route_table_lawful: "lawful_converter J (route_table_converter E J) (enc_route_table J) (\<lambda>_. True) (\<lambda>_. True)"
  using route_table_pack_eq route_table_unpack_eq
  by (intro lawful_converter.intro J lawful_converter_axioms.intro) (simp_all add: route_table_converter_def)

end

text \<open>So the contract holds of the converter of the model, for the instance of RapidJSON.\<close>

interpretation route_table: lawful_converter plain_json "route_table_converter E plain_json" "enc_route_table plain_json" "\<lambda>_. True" "\<lambda>_. True"
  for E :: "'x sc_env_scheme"
  by (rule rapidjson_model.route_table_lawful [OF plain_json_model])

text \<open>
  C35. A type of a user round-trips. The converter of \<open>route_table_ut\<close> keeps the contract that makes
  sequences of it round-trip: a vector of route tables is packed into a list of maps with the three
  entries, unpacked again it is the same vector, and nothing else in the store changes.
\<close>

theorem route_tables_roundtrip:
  assumes J: "rapidjson_model J" and ok: "values_ok s" and n: "node_at J s n = Some r" "writable (snd n)"
    and len: "length xs < 2 ^ 32"
  shows "\<exists>t. conv_pack (vector_converter E J new_route_table (route_table_converter E J)) (Some n) xs s = (Ret True, t)
    \<and> same_store t (write_node J n (json_array J (map (enc_route_table J) xs)) s)
    \<and> conv_unpack (vector_converter E J new_route_table (route_table_converter E J)) ys (Some n) t = (Ret (True, xs), t)"
  using lawful_converter.pack_unpack [OF lawful_converter.vector_lawful
      [OF rapidjson_model.route_table_lawful [OF J], where cur = new_route_table] ok n] len by blast

theorem route_tables_roundtrip_witness:
  "\<exists>t. conv_pack (vector_converter (ex_sc True) plain_json new_route_table (route_table_converter (ex_sc True) plain_json))
      (Some (0, [])) [\<lparr>s_address = 1, d_address = 2, rt_index = -3\<rparr>, new_route_table] (ex_value JNull) = (Ret True, t)
    \<and> conv_unpack (vector_converter (ex_sc True) plain_json new_route_table (route_table_converter (ex_sc True) plain_json))
      [] (Some (0, [])) t = (Ret (True, [\<lparr>s_address = 1, d_address = 2, rt_index = -3\<rparr>, new_route_table]), t)"
  using route_tables_roundtrip [OF plain_json_model ex_value_ok ex_value_root, where E = "ex_sc True" and r = JNull
      and xs = "[\<lparr>s_address = 1, d_address = 2, rt_index = -3\<rparr>, new_route_table]" and ys = "[]"]
  by auto

end
