(* ===== verification/Broker_Life.thy ===== *)
theory Broker_Life
  imports World_Invariants
begin

text \<open>
  The end of a broker (\<open>delete_broker\<close>): the destructors of \<open>consuming_broker\<close> and \<open>broker\<close> are
  empty, so that neither its name is given back to the hierarchy, as that of a parameter is, nor its
  entry in the registry of \<open>cci_broker_manager\<close>.
\<close>

lemma delete_broker_result:
  "delete_broker b s = (case brokers s b of None \<Rightarrow> (Abort, s) | Some _ \<Rightarrow> (Ret (), forget_broker b s))"
  by (simp add: delete_broker_def the_broker_def bindM_def modM_def split: option.split)

text \<open>
  So the registry still answers with the broker, whose use is undefined then, and its name is still
  taken.
\<close>

lemma deleted_broker_stays_registered:
  assumes "find_broker E n org s = (Ret b, s)" and "delete_broker b s = (Ret (), t)"
  shows "find_broker E n org t = (Ret b, t)" and "brokers t b = None" and "sc_names t = sc_names s"
    and "get_param_handle (Suc m) b nm og t = (Abort, t)"
proof -
  have t: "t = s\<lparr>brokers := (brokers s)(b := None)\<rparr>"
    using assms(2) by (simp add: delete_broker_result forget_broker_def split: option.splits)
  then show "brokers t b = None" "sc_names t = sc_names s" by simp_all
  then show "get_param_handle (Suc m) b nm og t = (Abort, t)"
    by (simp add: bindM_def the_broker_def)
  show "find_broker E n org t = (Ret b, t)"
    using assms(1) t by (simp add: find_broker_nearest)
qed

text \<open>
  The destruction of a broker leaves the registry and the tree of brokers in order just if nothing is
  registered with it and no other broker has it as its parent.
\<close>

lemma delete_broker_keeps_ok_iff:
  assumes ok: "brokers_ok s" and t: "delete_broker b s = (Ret (), t)"
  shows "brokers_ok t \<longleftrightarrow> (\<forall>ob. m_brokers s ob \<noteq> Some b)
    \<and> (\<forall>c r. brokers s c = Some r \<longrightarrow> c \<noteq> b \<longrightarrow> has_parent r \<longrightarrow> m_parent r \<noteq> b)"
proof -
  have "t = s\<lparr>brokers := (brokers s)(b := None)\<rparr>"
    using t by (simp add: delete_broker_result forget_broker_def split: option.splits)
  then show ?thesis
    using ok by (auto simp: brokers_ok_def parents_below_def fresh_def)
qed

end
