(* ===== verification/Handle_View.thy ===== *)
theory Handle_View
  imports Param_Spec
begin

text \<open>
  What a computation does to the parameters, up to the handle objects that come and go while it
  runs. A write with callbacks makes a handle for every event, and a callback that takes a handle
  by value makes a copy; all of them enter the list of handles of a parameter and leave it again.
  \<open>runs E c H m x c'\<close> says that \<open>m\<close>, started in any world with the parameters \<open>c\<close> and the handles \<open>H\<close>,
  returns \<open>x\<close> and leaves the parameters \<open>c'\<close>, and that nothing else of the world differs but the next
  free address: a triple of total correctness, with one rule per operation.
\<close>

section \<open>The parameters but for their lists of handles\<close>

definition with_handles_of :: "('v, 'j) param \<Rightarrow> ('v, 'j) param \<Rightarrow> ('v, 'j) param" where
  "with_handles_of q p = p\<lparr>m_param_handles := m_param_handles q\<rparr>"

type_synonym ('v, 'j) view = "pid \<Rightarrow> ('v, 'j) param option"

text \<open>The world \<open>s\<close> with its parameters replaced, which keep their lists.\<close>

definition put :: "('v, 'j) view \<Rightarrow> ('v, 'j) world \<Rightarrow> ('v, 'j) world" where
  "put c s = s\<lparr>params := \<lambda>i. case params s i of None \<Rightarrow> None | Some q \<Rightarrow> map_option (with_handles_of q) (c i)\<rparr>"

definition bump :: "nat \<Rightarrow> ('v, 'j) world \<Rightarrow> ('v, 'j) world" where
  "bump k s = s\<lparr>next_address := next_address s + k\<rparr>"

text \<open>A function on a parameter that neither reads nor writes the list of handles.\<close>

definition handle_free :: "(('v, 'j) param \<Rightarrow> ('v, 'j) param) \<Rightarrow> bool" where
  "handle_free f \<longleftrightarrow> (\<forall>p q. f (with_handles_of q p) = with_handles_of q (f p))"

named_theorems handle_free_intros "functions that leave the list of handles alone"

lemma m_param_handles_with [simp]: "m_param_handles (with_handles_of q p) = m_param_handles q"
  by (simp add: with_handles_of_def)

lemma with_handles_of_twice [simp]: "with_handles_of q (with_handles_of r p) = with_handles_of q p"
  by (simp add: with_handles_of_def)

lemma with_handles_of_same [simp]: "with_handles_of p p = p"
  by (simp add: with_handles_of_def)

lemma with_handles_of_cong: "m_param_handles q = m_param_handles r \<Longrightarrow> with_handles_of q p = with_handles_of r p"
  by (simp add: with_handles_of_def)

lemma with_handles_of_fields [simp]:
  "m_name (with_handles_of q p) = m_name p" "m_description (with_handles_of q p) = m_description p"
  "metadata (with_handles_of q p) = metadata p" "m_lock_pwd (with_handles_of q p) = m_lock_pwd p"
  "m_broker_handle (with_handles_of q p) = m_broker_handle p"
  "m_value_origin (with_handles_of q p) = m_value_origin p"
  "m_pre_write_callbacks (with_handles_of q p) = m_pre_write_callbacks p"
  "m_post_write_callbacks (with_handles_of q p) = m_post_write_callbacks p"
  "m_pre_read_callbacks (with_handles_of q p) = m_pre_read_callbacks p"
  "m_post_read_callbacks (with_handles_of q p) = m_post_read_callbacks p"
  "m_originator (with_handles_of q p) = m_originator p" "fast_read (with_handles_of q p) = fast_read p"
  "fast_write (with_handles_of q p) = fast_write p" "m_value (with_handles_of q p) = m_value p"
  "m_default_value (with_handles_of q p) = m_default_value p" "p_type (with_handles_of q p) = p_type p"
  "p_mutability (with_handles_of q p) = p_mutability p" "callbacks_of k (with_handles_of q p) = callbacks_of k p"
  by (simp_all add: with_handles_of_def)

lemma refusal_with_handles [simp]: "refusal (with_handles_of q p) pwd = refusal p pwd"
  by (simp add: refusal_def param_name_def is_locked_def)

lemma handle_freeD: "handle_free f \<Longrightarrow> f (with_handles_of q p) = with_handles_of q (f p)"
  by (simp add: handle_free_def)

lemma handle_free_handles: "handle_free f \<Longrightarrow> m_param_handles (f p) = m_param_handles p"
  by (metis handle_freeD m_param_handles_with with_handles_of_same)

lemma handle_free_comp [handle_free_intros]:
  "handle_free f \<Longrightarrow> handle_free g \<Longrightarrow> handle_free (\<lambda>p. f (g p))"
  by (simp add: handle_free_def)

lemma handle_free_map_callbacks [handle_free_intros]: "handle_free (map_callbacks k f)"
  by (cases k) (simp_all add: handle_free_def with_handles_of_def map_callbacks.simps)

lemma handle_free_set_oncall [handle_free_intros]: "handle_free (set_oncall k b)"
  by (simp add: set_oncall_def handle_free_map_callbacks)

lemma handle_free_write_param [handle_free_intros]: "handle_free (write_param v og)"
  by (simp add: handle_free_def with_handles_of_def write_param_def)

lemma handle_free_update_fast_write [handle_free_intros]: "handle_free (update_fast_write E og)"
  by (simp add: handle_free_def with_handles_of_def update_fast_write_def is_locked_def)

lemma handle_free_update_fast_read [handle_free_intros]: "handle_free update_fast_read"
  by (simp add: handle_free_def with_handles_of_def update_fast_read_def)

lemma handle_free_register [handle_free_intros]: "handle_free (untyped_register_callback k cb og)"
  by (cases k) (simp_all add: handle_free_def with_handles_of_def untyped_register_callback_def map_vec_def
      map_callbacks.simps)

section \<open>Replacing the parameters of a world\<close>

lemma params_put: "params (put c s) i = (case params s i of None \<Rightarrow> None | Some q \<Rightarrow> map_option (with_handles_of q) (c i))"
  by (simp add: put_def)

lemma put_other [simp]:
  "handles (put c s) = handles s" "brokers (put c s) = brokers s" "m_brokers (put c s) = m_brokers s"
  "sc_names (put c s) = sc_names s" "reports (put c s) = reports s" "next_address (put c s) = next_address s"
  by (simp_all add: put_def)

lemma bump_other [simp]:
  "handles (bump k s) = handles s" "brokers (bump k s) = brokers s" "m_brokers (bump k s) = m_brokers s"
  "sc_names (bump k s) = sc_names s" "reports (bump k s) = reports s" "params (bump k s) = params s"
  "next_address (bump k s) = next_address s + k"
  by (simp_all add: bump_def)

lemma bump_bump [simp]: "bump k (bump l s) = bump (l + k) s"
  by (simp add: bump_def add.assoc)

lemma bump_0 [simp]: "bump 0 s = s"
  by (simp add: bump_def)

lemma put_bump: "put c (bump k s) = bump k (put c s)"
  by (simp add: put_def bump_def)

lemma put_params: "put (params s) s = s"
proof -
  have "(\<lambda>i. case params s i of None \<Rightarrow> None | Some q \<Rightarrow> map_option (with_handles_of q) (params s i)) = params s"
    by (rule ext) (simp split: option.split)
  then show ?thesis by (simp add: put_def)
qed

lemma params_put_Some:
  assumes "c i = Some p" and "dom c = dom (params s)"
  obtains q where "params s i = Some q" and "params (put c s) i = Some (with_handles_of q p)"
proof -
  from assms have "i \<in> dom (params s)" by auto
  then obtain q where "params s i = Some q" by blast
  with assms(1) that show ?thesis by (simp add: params_put)
qed

lemma map_param_put:
  assumes "c i = Some p" and "handle_free f"
  shows "map_param i f (put c s) = put (c(i \<mapsto> f p)) s"
proof -
  have "params (map_param i f (put c s)) = params (put (c(i \<mapsto> f p)) s)"
    using assms by (intro ext) (simp add: params_put handle_freeD split: option.split)
  then show ?thesis by (simp add: map_param_def put_def)
qed

text \<open>Handle objects come and go under the replacement.\<close>

lemma push_handle_put:
  assumes "dom c = dom (params s)"
  shows "map_param i (push_handle h) (put c s) = put c (map_param i (push_handle h) s)"
proof -
  have "params (map_param i (push_handle h) (put c s)) j = params (put c (map_param i (push_handle h) s)) j" for j
    by (cases "c i"; cases "params s i") (simp_all add: params_put push_handle_def with_handles_of_def)
  then show ?thesis by (simp add: map_param_def put_def fun_eq_iff)
qed

lemma drop_handle_put:
  "map_param i (drop_handle h) (put c s) = put c (map_param i (drop_handle h) s)"
proof -
  have "params (map_param i (drop_handle h) (put c s)) j = params (put c (map_param i (drop_handle h) s)) j" for j
    by (cases "c i"; cases "params s i") (simp_all add: params_put drop_handle_def with_handles_of_def)
  then show ?thesis by (simp add: map_param_def put_def fun_eq_iff)
qed

lemma put_handles_update [simp]: "put c (s\<lparr>handles := hs\<rparr>) = (put c s)\<lparr>handles := hs\<rparr>"
  by (simp add: put_def)

lemma new_handle_put:
  assumes "dom c = dom (params s)"
  shows "new_handle (Some i) og (put c s) = put c (new_handle (Some i) og s)"
proof -
  have "put c s\<lparr>next_address := Suc (next_address s)\<rparr> = put c (bump 1 s)"
    by (simp add: put_def bump_def)
  moreover have "map_param i (push_handle (next_address s)) (put c (bump 1 s))
      = put c (map_param i (push_handle (next_address s)) (bump 1 s))"
    using assms by (intro push_handle_put) simp
  ultimately show ?thesis
    by (simp add: new_handle_def attach_handle_def bump_def)
qed

lemma destroy_handle_put: "destroy_handle h (put c s) = put c (destroy_handle h s)"
  by (simp add: destroy_handle_def detach_handle_def forget_handle_def drop_handle_put
      split: option.split)

lemma destroy_handle_bump: "destroy_handle h (bump k s) = bump k (destroy_handle h s)"
  by (auto simp: destroy_handle_def detach_handle_def forget_handle_def bump_def map_param_def
      split: option.split)

lemma map_le_Some: "H \<subseteq>\<^sub>m H' \<Longrightarrow> H h = Some d \<Longrightarrow> H' h = Some d"
  by (auto simp: map_le_def dom_def)

section \<open>Total runs\<close>

text \<open>The worlds that a triple speaks of: some handles are known, and the invariant of handles holds.\<close>

definition has_view :: "('v, 'j) view \<Rightarrow> (hid \<Rightarrow> param_handle option) \<Rightarrow> ('v, 'j) world \<Rightarrow> bool" where
  "has_view c H s \<longleftrightarrow> handles_ok s \<and> dom c = dom (params s) \<and> H \<subseteq>\<^sub>m handles s"

definition runs :: "('v, 'j) view \<Rightarrow> (hid \<Rightarrow> param_handle option) \<Rightarrow> ('v, 'j, 'a) cci \<Rightarrow> 'a \<Rightarrow> ('v, 'j) view \<Rightarrow> bool" where
  "runs c H m x c' \<longleftrightarrow>
     (\<forall>s. has_view c H s \<longrightarrow> dom c' = dom c \<and> (\<exists>k. m (put c s) = (Ret x, put c' (bump k s))))"

lemma runsI:
  "(\<And>s. has_view c H s \<Longrightarrow> dom c' = dom c) \<Longrightarrow>
   (\<And>s. has_view c H s \<Longrightarrow> \<exists>k. m (put c s) = (Ret x, put c' (bump k s))) \<Longrightarrow> runs c H m x c'"
  by (simp add: runs_def)

lemma runsE:
  assumes "runs c H m x c'" and "has_view c H s"
  obtains k where "m (put c s) = (Ret x, put c' (bump k s))" and "dom c' = dom c"
  using assms by (auto simp: runs_def)

lemma handles_ok_bump_by [simp]: "handles_ok s \<Longrightarrow> handles_ok (bump k s)"
  by (auto simp: handles_ok_def fresh_def)

lemma has_view_bump: "has_view c H s \<Longrightarrow> dom c' = dom c \<Longrightarrow> has_view c' H (bump k s)"
  by (simp add: has_view_def)

lemma has_view_upd: "has_view c H s \<Longrightarrow> c i = Some p \<Longrightarrow> has_view (c(i \<mapsto> q)) H s"
  by (auto simp: has_view_def)

lemma has_view_alive:
  assumes "has_view c H s" and "c i = Some p"
  obtains q where "params s i = Some q" and "params (put c s) i = Some (with_handles_of q p)"
  using assms by (auto simp: has_view_def elim: params_put_Some)

lemma has_view_mono: "has_view c H' s \<Longrightarrow> H \<subseteq>\<^sub>m H' \<Longrightarrow> has_view c H s"
  by (auto simp: has_view_def intro: map_le_trans)

lemma runs_handles_mono: "runs c H m x c' \<Longrightarrow> H \<subseteq>\<^sub>m H' \<Longrightarrow> runs c H' m x c'"
  unfolding runs_def by (blast dest: has_view_mono)

text \<open>What a triple says of a world.\<close>

lemma runs_world:
  assumes "runs (params s) H m x c'" and "handles_ok s" and "H \<subseteq>\<^sub>m handles s"
  obtains k where "m s = (Ret x, put c' (bump k s))" and "dom c' = dom (params s)"
  using assms runsE [of "params s" H m x c' s] by (auto simp: put_params has_view_def)

section \<open>One rule per operation\<close>

lemma runs_retM: "runs c H (retM x) x c"
  by (auto simp: runs_def intro: exI [of _ 0])

lemma runs_bindM:
  assumes m: "runs c H m x c1" and f: "runs c1 H (f x) y c2"
  shows "runs c H (bindM m f) y c2"
proof (rule runsI)
  fix s assume s: "has_view c H s"
  obtain k where k: "m (put c s) = (Ret x, put c1 (bump k s))" "dom c1 = dom c" using m s by (rule runsE)
  have "has_view c1 H (bump k s)" using s k(2) by (rule has_view_bump)
  with f obtain l where l: "f x (put c1 (bump k s)) = (Ret y, put c2 (bump l (bump k s)))" "dom c2 = dom c1"
    by (rule runsE)
  then show "\<exists>k. bindM m f (put c s) = (Ret y, put c2 (bump k s))"
    by (auto simp: bindM_def k)
  show "dom c2 = dom c" using l k by simp
qed

lemma runs_the_param:
  assumes c: "c i = Some p" and f: "\<And>q. runs c H (f (with_handles_of q p)) x c'"
  shows "runs c H (bindM (the_param i) f) x c'"
proof (rule runsI)
  fix s assume s: "has_view c H s"
  obtain q where q: "params (put c s) i = Some (with_handles_of q p)" using s c by (rule has_view_alive)
  obtain k where k: "f (with_handles_of q p) (put c s) = (Ret x, put c' (bump k s))" "dom c' = dom c"
    using f s by (rule runsE)
  with q show "\<exists>k. bindM (the_param i) f (put c s) = (Ret x, put c' (bump k s))" by auto
  show "dom c' = dom c" by (rule k(2))
qed

lemma runs_read_param:
  assumes "c i = Some p" and "\<And>q. f (with_handles_of q p) = f p"
  shows "runs c H (read_param i f) (f p) c"
proof -
  have "runs c H (retM (f (with_handles_of q p))) (f p) c" for q
    unfolding assms(2) by (rule runs_retM)
  with assms(1) show ?thesis unfolding read_param_def by (rule runs_the_param)
qed

lemma runs_modM_param:
  assumes "c i = Some p" and "handle_free f"
  shows "runs c H (modM (map_param i f)) () (c(i \<mapsto> f p))"
  using assms by (intro runsI) (auto simp: map_param_put intro: exI [of _ 0])

lemma runs_upd_param:
  assumes "c i = Some p" and "handle_free f"
  shows "runs c H (upd_param i f) () (c(i \<mapsto> f p))"
  unfolding upd_param_def by (rule runs_the_param) (simp_all add: assms runs_modM_param)

lemma runs_scoped_true:
  assumes c: "c i = Some p" and m: "runs (c(i \<mapsto> set_oncall k True p)) H m x c1" and c1: "c1 i = Some p1"
  shows "runs c H (scoped_true i k m) x (c1(i \<mapsto> set_oncall k False p1))"
proof (rule runsI)
  fix s assume s: "has_view c H s"
  have "has_view (c(i \<mapsto> set_oncall k True p)) H s" using s c by (rule has_view_upd)
  with m obtain l where l: "m (put (c(i \<mapsto> set_oncall k True p)) s) = (Ret x, put c1 (bump l s))"
    "dom c1 = dom (c(i \<mapsto> set_oncall k True p))" by (rule runsE)
  have in_c: "map_param i (set_oncall k b) (put c t) = put (c(i \<mapsto> set_oncall k b p)) t" for b t
    using c by (rule map_param_put) (rule handle_free_set_oncall)
  have in_c1: "map_param i (set_oncall k b) (put c1 t) = put (c1(i \<mapsto> set_oncall k b p1)) t" for b t
    using c1 by (rule map_param_put) (rule handle_free_set_oncall)
  show "\<exists>l. scoped_true i k m (put c s) = (Ret x, put (c1(i \<mapsto> set_oncall k False p1)) (bump l s))"
    using l by (auto simp: scoped_true_def guardM_def in_c in_c1)
  show "dom (c1(i \<mapsto> set_oncall k False p1)) = dom c"
    using l(2) c by auto
qed

text \<open>A handle object of a block: known inside, gone afterwards.\<close>

lemma has_view_new_handle:
  assumes s: "has_view c H s" and i: "c i = Some p"
  shows "next_address s \<notin> dom H"
    and "has_view c (H(next_address s \<mapsto> \<lparr>m_param = Some i, h_originator = og\<rparr>)) (new_handle (Some i) og s)"
proof -
  let ?h = "next_address s" and ?t = "new_handle (Some i) og s"
  have ok: "handles_ok s" and H: "H \<subseteq>\<^sub>m handles s" and dom: "dom c = dom (params s)"
    using s by (simp_all add: has_view_def)
  obtain q where q: "params s i = Some q" using s i by (rule has_view_alive)
  have h: "handles s ?h = None" using handles_okD(1) [OF ok] by (simp add: fresh_def)
  with H show fresh: "?h \<notin> dom H" by (force simp: map_le_def dom_def)
  have t: "?t = attach_handle ?h (Some i) og (bump 1 s)" by (simp add: new_handle_def bump_def)
  have "handles_ok ?t"
    unfolding t using ok h q by (intro handles_ok_attach) auto
  moreover have "dom (params ?t) = dom (params s)"
    using q by (auto simp: t attach_handle_def split: if_splits)
  moreover have "H(?h \<mapsto> \<lparr>m_param = Some i, h_originator = og\<rparr>) \<subseteq>\<^sub>m handles ?t"
    using H by (auto simp: t attach_handle_def map_le_def)
  ultimately show "has_view c (H(?h \<mapsto> \<lparr>m_param = Some i, h_originator = og\<rparr>)) ?t"
    using dom by (simp add: has_view_def)
qed

lemma destroy_new_handle_bump:
  assumes "has_view c H s" and "c i = Some p"
  shows "destroy_handle (next_address s) (bump k (new_handle (Some i) og s)) = bump (Suc k) s"
proof -
  obtain q where "params s i = Some q" using assms by (rule has_view_alive)
  with assms(1) have "destroy_handle (next_address s) (new_handle (Some i) og s) = bump 1 s"
    by (simp add: has_view_def destroy_new_handle bump_def)
  then show ?thesis by (simp add: destroy_handle_bump)
qed

lemma runs_with_handle:
  assumes i: "c i = Some p"
    and m: "\<And>h. h \<notin> dom H \<Longrightarrow> runs c (H(h \<mapsto> \<lparr>m_param = Some i, h_originator = og\<rparr>)) (m h) x c'"
  shows "runs c H (with_handle i og m) x c'"
proof (rule runsI)
  fix s assume s: "has_view c H s"
  let ?h = "next_address s" and ?t = "new_handle (Some i) og s"
  note view = has_view_new_handle [OF s i]
  obtain k where k: "m ?h (put c ?t) = (Ret x, put c' (bump k ?t))" "dom c' = dom c"
    using m [OF view(1)] view(2) by (rule runsE)
  have "dom c = dom (params s)" using s by (simp add: has_view_def)
  then have "with_handle i og m (put c s) = (Ret x, put c' (bump (Suc k) s))"
    by (simp add: with_handle_def guardM_def Let_def new_handle_put k destroy_handle_put
        destroy_new_handle_bump [OF s i])
  then show "\<exists>k. with_handle i og m (put c s) = (Ret x, put c' (bump k s))" by blast
  show "dom c' = dom c" by (rule k(2))
qed

section \<open>Handles\<close>

lemma promote_originator_run: "promote_originator E og = retM (promoted E og)"
  by (rule ext) (simp add: promote_run)

lemma runs_the_handle:
  assumes h: "H h = Some d" and f: "runs c H (f d) x c'"
  shows "runs c H (bindM (the_handle h) f) x c'"
proof -
  have "handles s h = Some d" if "has_view c H s" for s
    using that h by (auto simp: has_view_def map_le_def dom_def)
  with f show ?thesis by (simp add: runs_def)
qed

lemma runs_handled:
  assumes "H h = Some d" and "m_param d = Some i" and "runs c H (k i (h_originator d)) x c'"
  shows "runs c H (handled E h k) x c'"
proof -
  have "runs c H (check_is_valid E h) () c"
    unfolding check_is_valid_def
    by (rule runs_the_handle [where H = H and h = h, OF assms(1)]) (simp add: is_valid_def assms(2) runs_retM)
  then show ?thesis
    unfolding handled_def
    by (rule runs_bindM) (rule runs_the_handle [where H = H and h = h, OF assms(1)], simp add: assms)
qed

lemma runs_answer: "runs c H m x c' \<Longrightarrow> y = f x \<Longrightarrow> runs c H (answer f m) y c'"
  unfolding answer_def by (erule runs_bindM) (simp add: runs_retM del: retM_apply)

section \<open>Programs\<close>

lemma runs_exec_call:
  assumes "runs c H (dispatch E (runner E n) n a) x c1" and "runs c1 H (exec E n (k x)) b c'"
  shows "runs c H (exec E (Suc n) (P_call a k)) b c'"
  unfolding exec_call using assms by (rule runs_bindM)

lemma runs_exec_return: "runs c H (exec E (Suc n) (P_return b)) b c"
  by (simp add: runs_retM)

text \<open>
  A handle taken by value: the caller copies the handle, and the copy is destroyed when the callee
  is left, also by an exception.
\<close>

definition destroy_copy :: "hid \<Rightarrow> exn + bool \<Rightarrow> ('v, 'j) prog" where
  "destroy_copy g r =
     P_call (On_handle g H_destroy) (\<lambda>_. case r of Inl e \<Rightarrow> P_throw e | Inr b \<Rightarrow> P_return b)"

definition with_copy :: "hid \<Rightarrow> (hid \<Rightarrow> ('v, 'j) prog) \<Rightarrow> ('v, 'j) prog" where
  "with_copy h callee =
     P_call (On_handle h H_copy) (\<lambda>x.
       case x of A_address g \<Rightarrow> P_try (callee g) (destroy_copy g) | _ \<Rightarrow> P_abort)"

lemma dispatch_copy:
  assumes "handles s h = Some d" "m_param d = Some i" and "params s i = Some p"
  shows "dispatch E run n (On_handle h H_copy) s
      = (Ret (A_address (next_address s)), new_handle (Some i) (promoted E (h_originator d)) s)"
  using copy_handle_run [OF assms] by (simp add: answer_def bindM_Ret)

lemma exec_destroy_copy:
  assumes "handles s g = Some d"
  shows "exec E (Suc (Suc n)) (destroy_copy g (Inr b)) s = (Ret b, destroy_handle g s)"
  using assms by (simp add: destroy_copy_def answer_def delete_handle_def bindM_def)

lemma exec_with_copy:
  assumes d: "handles s h = Some d" "m_param d = Some i" and p: "params s i = Some p"
    and callee: "exec E (Suc (Suc n)) (callee (next_address s)) (new_handle (Some i) (promoted E (h_originator d)) s) = (Ret b, t)"
    and g: "handles t (next_address s) = Some e"
  shows "exec E (Suc (Suc (Suc (Suc n)))) (with_copy h callee) s = (Ret b, destroy_handle (next_address s) t)"
proof -
  have "exec E (Suc (Suc (Suc (Suc n)))) (with_copy h callee) s
      = exec E (Suc (Suc (Suc n))) (P_try (callee (next_address s)) (destroy_copy (next_address s)))
          (new_handle (Some i) (promoted E (h_originator d)) s)"
    unfolding with_copy_def exec_call by (subst bindM_Ret, rule dispatch_copy [OF d p]) simp
  also have "\<dots> = exec E (Suc (Suc n)) (destroy_copy (next_address s) (Inr b)) t"
    using callee by (simp add: tryM_def del: exec.simps add: exec.simps(6))
  also have "\<dots> = (Ret b, destroy_handle (next_address s) t)"
    using g by (rule exec_destroy_copy)
  finally show ?thesis .
qed

lemma runs_with_copy:
  assumes h: "H h = Some d" "m_param d = Some i" and i: "c i = Some p"
    and callee: "\<And>g. g \<notin> dom H \<Longrightarrow>
      runs c (H(g \<mapsto> \<lparr>m_param = Some i, h_originator = promoted E (h_originator d)\<rparr>)) (exec E (Suc (Suc n)) (callee g)) b c'"
  shows "runs c H (exec E (Suc (Suc (Suc (Suc n)))) (with_copy h callee)) b c'"
proof (rule runsI)
  fix s assume s: "has_view c H s"
  let ?og = "promoted E (h_originator d)"
  let ?g = "next_address s" and ?t = "new_handle (Some i) ?og s"
  note new = has_view_new_handle(1) [OF s i] and view = has_view_new_handle(2) [OF s i, where og = ?og]
  obtain k where k: "exec E (Suc (Suc n)) (callee ?g) (put c ?t) = (Ret b, put c' (bump k ?t))" "dom c' = dom c"
    using callee [OF new] view by (rule runsE)
  have hs: "handles (put c s) h = Some d" using s h(1) by (auto simp: has_view_def map_le_def dom_def)
  obtain q where p: "params (put c s) i = Some (with_handles_of q p)" using s i by (rule has_view_alive)
  have "dom c = dom (params s)" using s by (simp add: has_view_def)
  then have start: "new_handle (Some i) ?og (put c s) = put c ?t" by (rule new_handle_put)
  have "handles (put c' (bump k ?t)) ?g = Some \<lparr>m_param = Some i, h_originator = ?og\<rparr>"
    by (simp add: new_handle_def attach_handle_def)
  with hs h(2) p k(1) start
  have "exec E (Suc (Suc (Suc (Suc n)))) (with_copy h callee) (put c s) = (Ret b, destroy_handle ?g (put c' (bump k ?t)))"
    by (intro exec_with_copy [where s = "put c s", simplified]) auto
  also have "destroy_handle ?g (put c' (bump k ?t)) = put c' (bump (Suc k) s)"
    by (simp add: destroy_handle_put destroy_new_handle_bump [OF s i])
  finally show "\<exists>k. exec E (Suc (Suc (Suc (Suc n)))) (with_copy h callee) (put c s) = (Ret b, put c' (bump k s))"
    by blast
  show "dom c' = dom c" by (rule k(2))
qed

section \<open>Reads and writes\<close>

text \<open>No callback of kind \<open>k\<close>, and none running.\<close>

definition no_callback :: "cbkind \<Rightarrow> ('v, 'j) param \<Rightarrow> bool" where
  "no_callback k p \<longleftrightarrow> vec (callbacks_of k p) = [] \<and> \<not> oncall (callbacks_of k p)"

lemma set_oncall_undo_view:
  assumes "c i = Some p" and "\<not> oncall (callbacks_of k p)"
  shows "c(i \<mapsto> set_oncall k False (set_oncall k True p)) = c"
  using assms by (simp add: set_oncall_undo fun_upd_idem)

lemma runs_scoped_nothing:
  assumes c: "c i = Some p" and k: "\<not> oncall (callbacks_of k p)"
    and m: "\<And>d. d i = Some (set_oncall k True p) \<Longrightarrow> runs d H m x d"
  shows "runs c H (scoped_true i k m) x c"
proof -
  have "runs c H (scoped_true i k m) x ((c(i \<mapsto> set_oncall k True p))(i \<mapsto> set_oncall k False (set_oncall k True p)))"
    using c by (rule runs_scoped_true) (auto intro: m)
  then show ?thesis by (simp add: set_oncall_undo_view [of c i p k, OF c k])
qed

lemma runs_read_none:
  assumes "c i = Some p" and "no_callback k p"
  shows "runs c H (scoped_true i k (read_loop E run (Suc n) k i og 0)) () c"
proof (rule runs_scoped_nothing)
  show "runs d H (read_loop E run (Suc n) k i og 0) () d" if "d i = Some (set_oncall k True p)" for d
    unfolding read_loop.simps
    by (rule runs_the_param, rule that) (use assms(2) in \<open>simp add: no_callback_def runs_retM del: retM_apply\<close>)
qed (use assms in \<open>simp_all add: no_callback_def\<close>)

lemma runs_get_raw_value:
  assumes c: "c i = Some p" and k: "no_callback Pre_read p" "no_callback Post_read p"
  shows "runs c H (get_raw_value E run (Suc n) i og) (m_value p) (c(i \<mapsto> update_fast_read p))"
proof -
  have pre: "runs c H (pre_read_callback E run (Suc n) i og) () c"
    unfolding pre_read_callback_def
    by (rule runs_the_param, rule c)
      (use k(1) in \<open>simp add: no_callback_def callbacks_of.simps runs_read_none [where c = c and i = i, OF c k(1)] del: read_loop.simps\<close>)
  have post: "runs c H (post_read_callback E run (Suc n) i og) () c"
    unfolding post_read_callback_def
    by (rule runs_the_param, rule c)
      (use k(2) in \<open>simp add: no_callback_def callbacks_of.simps runs_read_none [where c = c and i = i, OF c k(2)] del: read_loop.simps\<close>)
  have upd: "runs c H (upd_param i update_fast_read) () (c(i \<mapsto> update_fast_read p))"
    using c by (rule runs_upd_param) (rule handle_free_update_fast_read)
  have "runs (c(i \<mapsto> update_fast_read p)) H (read_param i m_value) (m_value (update_fast_read p)) (c(i \<mapsto> update_fast_read p))"
    by (rule runs_read_param) simp_all
  then show ?thesis
    unfolding get_raw_value_def
    by (intro runs_bindM [OF pre] runs_bindM [OF post] runs_bindM [OF upd]) (simp add: update_fast_read_def)
qed

lemma runs_to_cci_value: "pack E T v = (True, x) \<Longrightarrow> runs c H (to_cci_value E T v) x c"
  by (simp add: to_cci_value_def runs_retM del: retM_apply)

lemma runs_from_cci_value: "unpack E T x = (True, v) \<Longrightarrow> runs c H (from_cci_value E T x) v c"
  by (simp add: from_cci_value_def runs_retM del: retM_apply)

lemma runs_get_cci_value:
  assumes c: "c i = Some p" and k: "no_callback Pre_read p" "no_callback Post_read p"
    and x: "pack E (p_type p) (m_value p) = (True, x)"
  shows "runs c H (get_cci_value E run (Suc n) i og) x (c(i \<mapsto> update_fast_read p))"
  unfolding get_cci_value_def
  by (rule runs_the_param, rule c)
    (rule runs_bindM, rule runs_get_raw_value [where c = c and i = i, OF c k], use x in \<open>simp add: runs_to_cci_value\<close>)

lemma runs_pre_write_none:
  assumes c: "c i = Some p" and k: "no_callback Pre_write p"
  shows "runs c H (pre_write_callback E run (Suc n) i v og) True c"
proof -
  have "runs c H (scoped_true i Pre_write (pre_write_loop E run (Suc n) i v og 0 True)) True c"
  proof (rule runs_scoped_nothing)
    show "runs d H (pre_write_loop E run (Suc n) i v og 0 True) True d" if d: "d i = Some (set_oncall Pre_write True p)" for d
    proof -
      have "vec (callbacks_of Pre_write (set_oncall Pre_write True p)) = []"
        using k by (simp add: no_callback_def)
      with d show ?thesis
        unfolding pre_write_loop.simps
        by (intro runs_the_param [where c = d and i = i, OF d]) (simp add: callbacks_of.simps runs_retM del: retM_apply)
    qed
  qed (use c k in \<open>simp_all add: no_callback_def\<close>)
  then show ?thesis
    unfolding pre_write_callback_def
    by (intro runs_the_param [where c = c and i = i, OF c]) (use k in \<open>simp add: no_callback_def callbacks_of.simps\<close>)
qed

lemma runs_write:
  assumes c: "c i = Some p" and k: "no_callback Pre_write p"
    and post: "runs (c(i \<mapsto> write_param v og p)) H (post_write_callback E run (Suc n) i (m_value p) v og) () c1"
    and c1: "c1 i = Some p1"
  shows "runs c H (write_with_callbacks E run (Suc n) i v og) () (c1(i \<mapsto> update_fast_write E og p1))"
proof -
  have upd: "runs c H (upd_param i (write_param v og)) () (c(i \<mapsto> write_param v og p))"
    using c by (rule runs_upd_param) (rule handle_free_write_param)
  have fast: "runs c1 H (upd_param i (update_fast_write E og)) () (c1(i \<mapsto> update_fast_write E og p1))"
    using c1 by (rule runs_upd_param) (rule handle_free_update_fast_write)
  show ?thesis
    unfolding write_with_callbacks_def
    by (rule runs_bindM [OF runs_pre_write_none [where c = c and i = i, OF c k]], simp)
      (rule runs_the_param [where c = c and i = i, OF c], simp, intro runs_bindM [OF upd] runs_bindM [OF post] fast)
qed

lemma runs_set_raw_value:
  assumes c: "c i = Some p" and adm: "refusal p pwd = None"
    and m: "runs c H (write_with_callbacks E run n i v og) () c'"
  shows "runs c H (set_raw_value E run n i v pwd og) () c'"
  unfolding set_raw_value_def
  by (rule runs_the_param [where c = c and i = i, OF c])
    (use adm m in \<open>auto simp: refusal_def set_cci_value_allowed_def is_locked_def split: if_splits\<close>)

lemma runs_set_cci_value:
  assumes c: "c i = Some p" and x: "unpack E (p_type p) x = (True, v)"
    and m: "runs c H (set_raw_value E run n i v pwd og) () c'"
  shows "runs c H (set_cci_value E run n i x pwd og) () c'"
  unfolding set_cci_value_def
  by (rule runs_the_param [where c = c and i = i, OF c]) (rule runs_bindM, use x m in \<open>simp_all add: runs_from_cci_value\<close>)

section \<open>Post-write callbacks\<close>

lemma runs_post_write_nested:
  assumes "c i = Some p" and "oncall (callbacks_of Post_write p)"
  shows "runs c H (post_write_callback E run n i old v og) () c"
  unfolding post_write_callback_def
  by (rule runs_the_param [where c = c and i = i, OF assms(1)]) (use assms(2) in \<open>simp add: callbacks_of.simps runs_retM del: retM_apply\<close>)

text \<open>
  The loop over the list \<open>L\<close> of callbacks, if the callback at index \<open>j\<close> takes the parameters from \<open>cs j\<close> to
  \<open>cs (j + 1)\<close> and leaves the list as it is.
\<close>

lemma runs_post_write_loop:
  assumes step: "\<And>j h. j < length L \<Longrightarrow> h \<notin> dom H \<Longrightarrow>
      typed_callback_handle Post_write T (callback (L ! j)) \<noteq> Invalid_callback \<and>
      runs (cs j) (H(h \<mapsto> \<lparr>m_param = Some i, h_originator = cb_originator (L ! j)\<rparr>))
        (invoke_write E run T (typed_callback_handle Post_write T (callback (L ! j))) old v og h) (b j) (cs (Suc j))"
    and at: "\<And>j. j \<le> length L \<Longrightarrow> \<exists>p. cs j i = Some p \<and> vec (callbacks_of Post_write p) = L \<and> p_type p = T"
    and fresh: "\<exists>h. h \<notin> dom H"
  shows "j \<le> length L \<Longrightarrow> length L - j < n \<Longrightarrow>
    runs (cs j) H (post_write_loop E run n i old v og j) () (cs (length L))"
proof (induction n arbitrary: j)
  case 0
  then show ?case by simp
next
  case (Suc n)
  obtain p where p: "cs j i = Some p" "vec (callbacks_of Post_write p) = L" "p_type p = T" using at Suc.prems(1) by blast
  show ?case
  proof (cases "j < length L")
    case False
    then have "j = length L" using Suc.prems by simp
    with p show ?thesis
      unfolding post_write_loop.simps
      by (intro runs_the_param [where c = "cs j" and i = i, OF p(1)]) (simp add: callbacks_of.simps runs_retM del: retM_apply)
  next
    case True
    have valid: "typed_callback_handle Post_write T (callback (L ! j)) \<noteq> Invalid_callback"
      using step [OF True] fresh by blast
    have turn: "runs (cs j) H (with_handle i (cb_originator (L ! j)) (\<lambda>h.
        thenM (invoke_write E run T (typed_callback_handle Post_write T (callback (L ! j))) old v og h) skipM)) () (cs (Suc j))"
      by (rule runs_with_handle [where c = "cs j" and i = i, OF p(1)]) (rule runs_bindM, use step [OF True] in blast, rule runs_retM)
    have rest: "runs (cs (Suc j)) H (post_write_loop E run n i old v og (Suc j)) () (cs (length L))"
      using True Suc.prems by (intro Suc.IH) auto
    show ?thesis
      unfolding post_write_loop.simps
      by (intro runs_the_param [where c = "cs j" and i = i, OF p(1)])
        (use p True valid runs_bindM [OF turn rest] in \<open>simp add: callbacks_of.simps Let_def\<close>)
  qed
qed

section \<open>Runs that leave handles behind\<close>

text \<open>
  \<open>ends E c H m Q\<close>: started with the parameters \<open>c\<close> and the handles \<open>H\<close>, \<open>m\<close> returns, and \<open>Q\<close> holds of
  its value, of the parameters that it leaves and of handles that then exist. Of the rest of the
  world only handles made on the way differ.
\<close>

definition same_world :: "('v, 'j) world \<Rightarrow> ('v, 'j) world \<Rightarrow> bool" where
  "same_world s t \<longleftrightarrow> brokers t = brokers s \<and> m_brokers t = m_brokers s \<and> sc_names t = sc_names s
     \<and> reports t = reports s \<and> next_address s \<le> next_address t
     \<and> (\<forall>h < next_address s. handles t h = handles s h)"

definition ends :: "('v, 'j) view \<Rightarrow> (hid \<Rightarrow> param_handle option) \<Rightarrow> ('v, 'j, 'a) cci
    \<Rightarrow> ('a \<Rightarrow> ('v, 'j) view \<Rightarrow> (hid \<Rightarrow> param_handle option) \<Rightarrow> bool) \<Rightarrow> bool" where
  "ends c H m Q \<longleftrightarrow> (\<forall>s. has_view c H s \<longrightarrow>
     (\<exists>x c' H' t. m (put c s) = (Ret x, put c' t) \<and> has_view c' H' t \<and> same_world s t \<and> Q x c' H'))"

lemma same_world_trans: "same_world s t \<Longrightarrow> same_world t u \<Longrightarrow> same_world s u"
  by (auto simp: same_world_def)

lemma same_world_bump: "same_world s (bump k s)"
  by (simp add: same_world_def)

lemma endsE:
  assumes "ends c H m Q" and "has_view c H s"
  obtains x c' H' t where "m (put c s) = (Ret x, put c' t)" and "has_view c' H' t" and "same_world s t" and "Q x c' H'"
  using assms unfolding ends_def by blast

lemma endsI:
  assumes "\<And>s. has_view c H s \<Longrightarrow>
    \<exists>x c' H' t. m (put c s) = (Ret x, put c' t) \<and> has_view c' H' t \<and> same_world s t \<and> Q x c' H'"
  shows "ends c H m Q"
  using assms by (simp add: ends_def)

lemma ends_runs:
  assumes "runs c H m x c'" and "Q x c' H"
  shows "ends c H m Q"
proof (rule endsI)
  fix s assume s: "has_view c H s"
  with assms(1) obtain k where "m (put c s) = (Ret x, put c' (bump k s))" "dom c' = dom c" by (rule runsE)
  with s assms(2) show "\<exists>x c' H' t. m (put c s) = (Ret x, put c' t) \<and> has_view c' H' t \<and> same_world s t \<and> Q x c' H'"
    by (blast intro: has_view_bump same_world_bump)
qed

lemma ends_mono: "ends c H m Q \<Longrightarrow> (\<And>x c' H'. Q x c' H' \<Longrightarrow> R x c' H') \<Longrightarrow> ends c H m R"
  unfolding ends_def by blast

lemma ends_conj_mono:
  "ends c H m (\<lambda>b c' H'. b \<and> P c' H') \<Longrightarrow> (\<And>c' H'. P c' H' \<Longrightarrow> R c' H') \<Longrightarrow> ends c H m (\<lambda>b c' H'. b \<and> R c' H')"
  by (erule ends_mono) blast

lemma ends_bindM:
  assumes "ends c H m (\<lambda>x c1 H1. ends c1 H1 (f x) Q)"
  shows "ends c H (bindM m f) Q"
proof (rule endsI)
  fix s assume "has_view c H s"
  with assms obtain x c1 H1 t where t: "m (put c s) = (Ret x, put c1 t)" "has_view c1 H1 t" "same_world s t"
    and rest: "ends c1 H1 (f x) Q" by (rule endsE)
  from rest t(2) obtain y c2 H2 u where "f x (put c1 t) = (Ret y, put c2 u)" "has_view c2 H2 u" "same_world t u" "Q y c2 H2"
    by (rule endsE)
  with t show "\<exists>x c' H' t. bindM m f (put c s) = (Ret x, put c' t) \<and> has_view c' H' t \<and> same_world s t \<and> Q x c' H'"
    by (auto simp: bindM_def intro: same_world_trans)
qed

lemma ends_exec_call:
  assumes "runs c H (dispatch E (runner E n) n a) x c1" and "ends c1 H (exec E n (k x)) Q"
  shows "ends c H (exec E (Suc n) (P_call a k)) Q"
  unfolding exec_call using assms by (blast intro: ends_bindM ends_runs)

text \<open>A copy that stays: the program goes on with its address.\<close>

lemma same_world_new_handle: "same_world s (new_handle (Some i) og s)"
  by (simp add: same_world_def new_handle_def attach_handle_def)

lemma ends_exec_copy:
  assumes h: "H h = Some d" "m_param d = Some i" and i: "c i = Some p"
    and k: "\<And>g. g \<notin> dom H \<Longrightarrow>
      ends c (H(g \<mapsto> \<lparr>m_param = Some i, h_originator = promoted E (h_originator d)\<rparr>)) (exec E n (k (A_address g))) Q"
  shows "ends c H (exec E (Suc n) (P_call (On_handle h H_copy) k)) Q"
proof (rule endsI)
  fix s assume s: "has_view c H s"
  let ?og = "promoted E (h_originator d)"
  let ?g = "next_address s" and ?t = "new_handle (Some i) ?og s"
  note new = has_view_new_handle(1) [OF s i] and view = has_view_new_handle(2) [OF s i, where og = ?og]
  have hs: "handles (put c s) h = Some d" using s h(1) by (auto simp: has_view_def map_le_def dom_def)
  obtain q where p: "params (put c s) i = Some (with_handles_of q p)" using s i by (rule has_view_alive)
  have "dom c = dom (params s)" using s by (simp add: has_view_def)
  then have start: "new_handle (Some i) ?og (put c s) = put c ?t" by (rule new_handle_put)
  from k [OF new] view obtain x c' H' t where t: "exec E n (k (A_address ?g)) (put c ?t) = (Ret x, put c' t)"
    "has_view c' H' t" "same_world ?t t" "Q x c' H'" by (rule endsE)
  have "exec E (Suc n) (P_call (On_handle h H_copy) k) (put c s) = (Ret x, put c' t)"
    unfolding exec_call
    by (subst bindM_Ret, rule dispatch_copy [OF hs h(2) p]) (simp add: start t(1) del: exec.simps)
  moreover have "same_world s t" using same_world_new_handle t(3) by (rule same_world_trans)
  ultimately show "\<exists>x c' H' t. exec E (Suc n) (P_call (On_handle h H_copy) k) (put c s) = (Ret x, put c' t)
      \<and> has_view c' H' t \<and> same_world s t \<and> Q x c' H'"
    using t by blast
qed

lemma has_view_destroy:
  assumes "has_view c H s"
  shows "has_view c (H(h := None)) (destroy_handle h s)"
proof -
  have "dom (params (destroy_handle h s)) = dom (params s)"
    by (auto simp: destroy_handle_def forget_handle_def detach_handle_def split: option.splits if_splits)
  moreover have "H(h := None) \<subseteq>\<^sub>m handles (destroy_handle h s)"
    using assms by (auto simp: has_view_def map_le_def destroy_handle_def forget_handle_def detach_handle_def split: option.splits)
  ultimately show ?thesis
    using assms by (simp add: has_view_def handles_ok_destroy)
qed

lemma same_world_destroy:
  assumes "next_address s \<le> h" and "same_world s t"
  shows "same_world s (destroy_handle h t)"
  using assms
  by (auto simp: same_world_def destroy_handle_def forget_handle_def detach_handle_def split: option.splits)

lemma ends_with_copy:
  assumes h: "H h = Some d" "m_param d = Some i" and i: "c i = Some p"
    and callee: "\<And>g. g \<notin> dom H \<Longrightarrow>
      ends c (H(g \<mapsto> \<lparr>m_param = Some i, h_originator = promoted E (h_originator d)\<rparr>)) (exec E (Suc (Suc n)) (callee g))
        (\<lambda>b c' H'. Q b c' (H'(g := None)))"
  shows "ends c H (exec E (Suc (Suc (Suc (Suc n)))) (with_copy h callee)) Q"
proof (rule endsI)
  fix s assume s: "has_view c H s"
  let ?og = "promoted E (h_originator d)"
  let ?g = "next_address s" and ?t = "new_handle (Some i) ?og s"
  note new = has_view_new_handle(1) [OF s i] and view = has_view_new_handle(2) [OF s i, where og = ?og]
  have hs: "handles (put c s) h = Some d" using s h(1) by (auto simp: has_view_def map_le_def dom_def)
  obtain q where p: "params (put c s) i = Some (with_handles_of q p)" using s i by (rule has_view_alive)
  have "dom c = dom (params s)" using s by (simp add: has_view_def)
  then have start: "new_handle (Some i) ?og (put c s) = put c ?t" by (rule new_handle_put)
  from callee [OF new] view obtain b c' H' t where t: "exec E (Suc (Suc n)) (callee ?g) (put c ?t) = (Ret b, put c' t)"
    "has_view c' H' t" "same_world ?t t" "Q b c' (H'(?g := None))" by (rule endsE)
  have "handles ?t ?g = Some \<lparr>m_param = Some i, h_originator = ?og\<rparr>"
    by (simp add: new_handle_def attach_handle_def)
  then have g: "handles (put c' t) ?g = Some \<lparr>m_param = Some i, h_originator = ?og\<rparr>"
    using t(3) by (simp add: same_world_def new_handle_def attach_handle_def)
  have "exec E (Suc (Suc (Suc (Suc n)))) (with_copy h callee) (put c s) = (Ret b, put c' (destroy_handle ?g t))"
    using exec_with_copy [OF hs h(2) p, of E n callee b "put c' t"] g t(1) start
    by (simp add: destroy_handle_put del: exec.simps)
  moreover have "same_world s (destroy_handle ?g t)"
    by (rule same_world_destroy) (simp, rule same_world_trans [OF same_world_new_handle t(3)])
  ultimately show "\<exists>x c' H' t. exec E (Suc (Suc (Suc (Suc n)))) (with_copy h callee) (put c s) = (Ret x, put c' t)
      \<and> has_view c' H' t \<and> same_world s t \<and> Q x c' H'"
    using has_view_destroy [OF t(2), of ?g] t(4) by blast
qed

lemma runs_register:
  assumes "H h = Some d" "m_param d = Some i" and "c i = Some p"
  shows "runs c H (dispatch E run n (On_handle h (H_register_callback k cb))) (A_callback cb)
    (c(i \<mapsto> untyped_register_callback k cb (h_originator d) p))"
proof -
  have "runs c H (on_param i (\<lambda>p. (cb, untyped_register_callback k cb (h_originator d) p))) cb
      (c(i \<mapsto> untyped_register_callback k cb (h_originator d) p))"
    unfolding on_param_def fst_conv snd_conv
    by (rule runs_the_param [where c = c and i = i, OF assms(3)])
      (rule runs_bindM, rule runs_modM_param [where c = c and i = i, OF assms(3) handle_free_register], rule runs_retM)
  then have "runs c H (handle_register_callback E h k cb) cb (c(i \<mapsto> untyped_register_callback k cb (h_originator d) p))"
    unfolding handle_register_callback_def by (intro runs_handled [where H = H and h = h and i = i, OF assms(1,2)])
  then show ?thesis by (auto intro: runs_answer)
qed

end
