(* ===== verification/Param_Sync.thy ===== *)
theory Param_Sync
  imports Handle_View
begin

text \<open>
  Two parameters that a module keeps equal, or in proportion, with a post-write callback on each
  that writes the other one: \<open>ex11_param_value_sync\<close> (src/examples/cci/ex11_Directly_Associating_Parameters),
  \<open>ex12_param_value_sync_with_cf\<close> (ex12_Indirectly_Associating_Parameters) and, in one direction,
  \<open>ex14_parent\<close> (ex14_Hiding_Parameters). The callback of the first parameter writes the second one,
  whose callback writes the first one again, in the middle of the write that started it all.
\<close>

section \<open>The callbacks\<close>

text \<open>
  \<open>untyped_post_write_callback(ev, synced_handle)\<close>: the name of the event is reported, and the new
  value is written through the handle, which comes by value. \<open>f\<close> is what is done to the value in
  between: nothing in ex11, a multiplication in ex12, where \<open>None\<close> stands for a failed
  \<open>sc_assert(freq.is_number())\<close>.
\<close>

definition sync_callback :: "('j \<Rightarrow> 'j option) \<Rightarrow> hid \<Rightarrow> ('v, 'j) cb_event \<Rightarrow> ('v, 'j) prog" where
  "sync_callback f synced_handle ev =
     with_copy synced_handle (\<lambda>g.
       case ev of
         Write_event_generic old new og e \<Rightarrow>
           P_call (On_handle e H_name) (\<lambda>_.
             case f new of
               None \<Rightarrow> P_abort
             | Some x \<Rightarrow> P_call (On_handle g (H_set_cci_value x None)) (\<lambda>_. P_return True))
       | _ \<Rightarrow> P_abort)"

text \<open>A parameter that anyone may write, with one post-write callback, for the generic event.\<close>

definition one_post_write :: "cb_id \<Rightarrow> originator \<Rightarrow> ('v, 'j) param \<Rightarrow> bool" where
  "one_post_write cb og p \<longleftrightarrow>
     callbacks_of Post_write p =
       \<lparr>vec = [\<lparr>callback = Some \<lparr>cb_object = cb, cb_signature = Sig_post_write None\<rparr>, cb_originator = og\<rparr>],
        oncall = False\<rparr>
     \<and> no_callback Pre_write p \<and> refusal p None = None"

text \<open>What a write that came to its end has made of a parameter with a callback.\<close>

definition written :: "'v \<Rightarrow> originator \<Rightarrow> ('v, 'j) param \<Rightarrow> ('v, 'j) param" where
  "written v og p = p\<lparr>m_value := v, m_value_origin := og, fast_write := False\<rparr>"

lemma written_fields [simp]:
  "m_value (written v og p) = v" "m_value_origin (written v og p) = og" "p_type (written v og p) = p_type p"
  "callbacks_of k (written v og p) = callbacks_of k p" "m_param_handles (written v og p) = m_param_handles p"
  "fast_write (written v og p) = False" "m_originator (written v og p) = m_originator p"
  by (simp_all add: written_def)

lemma one_post_write_written [simp]: "one_post_write cb o1 (written v og p) = one_post_write cb o1 p"
  by (simp add: one_post_write_def written_def no_callback_def refusal_def param_name_def is_locked_def)

lemma written_twice [simp]: "written v og (written w og' p) = written v og p"
  by (simp add: written_def)

section \<open>A write with one callback\<close>

lemma runs_write_one_callback:
  assumes c: "c i = Some p" and one: "one_post_write cb o1 p"
    and old: "pack E (p_type p) (m_value p) = (True, x)" and new: "pack E (p_type p) v = (True, y)"
    and callee: "\<And>h. h \<notin> dom H \<Longrightarrow>
      runs (c(i \<mapsto> set_oncall Post_write True (write_param v og p))) (H(h \<mapsto> \<lparr>m_param = Some i, h_originator = o1\<rparr>))
        (run \<lparr>cb_object = cb, cb_signature = Sig_post_write None\<rparr> (Write_event_generic x y og h)) b c1"
    and c1: "c1 i = Some (set_oncall Post_write True (write_param w o2 p\<lparr>fast_write := fast\<rparr>))"
    and fresh: "\<exists>h. h \<notin> dom H"
  shows "runs c H (write_with_callbacks E run (Suc (Suc n)) i v og) () (c1(i \<mapsto> written w o2 p))"
proof -
  let ?cb = "\<lparr>cb_object = cb, cb_signature = Sig_post_write None\<rparr>"
  let ?L = "[\<lparr>callback = Some ?cb, cb_originator = o1\<rparr>]"
  let ?p = "write_param v og p" and ?q = "write_param w o2 p\<lparr>fast_write := fast\<rparr>"
  let ?cs = "\<lambda>j::nat. if j = 0 then c(i \<mapsto> set_oncall Post_write True ?p) else c1"
  have post: "callbacks_of Post_write (write_param u o' p) = \<lparr>vec = ?L, oncall = False\<rparr>" for u o'
    using one by (simp add: write_param_def one_post_write_def)
  have q: "callbacks_of Post_write ?q = \<lparr>vec = ?L, oncall = False\<rparr>"
    using post [of w o2] by simp
  have adapt: "typed_callback_handle Post_write (p_type p) (Some ?cb) = Generic_adapt ?cb"
    by (simp add: typed_callback_handle_def)
  have step: "typed_callback_handle Post_write (p_type p) (callback (?L ! j)) \<noteq> Invalid_callback \<and>
      runs (?cs j) (H(h \<mapsto> \<lparr>m_param = Some i, h_originator = cb_originator (?L ! j)\<rparr>))
        (invoke_write E run (p_type p) (typed_callback_handle Post_write (p_type p) (callback (?L ! j))) (m_value p) v og h)
        b (?cs (Suc j))" if "j < length ?L" and "h \<notin> dom H" for j h
    using that callee [OF that(2)]
    by (auto simp: adapt invoke_write_def intro: runs_bindM [OF runs_to_cci_value [OF old]]
        runs_bindM [OF runs_to_cci_value [OF new]])
  have at: "\<exists>p'. ?cs j i = Some p' \<and> vec (callbacks_of Post_write p') = ?L \<and> p_type p' = p_type p" for j
    using c1 post by (auto simp: write_param_def set_oncall_def simp del: map_callbacks.simps)
  have "runs (?cs 0) H (post_write_loop E run (Suc (Suc n)) i (m_value p) v og 0) () (?cs (length ?L))"
    by (rule runs_post_write_loop [where T = "p_type p" and b = "\<lambda>_. b" and cs = ?cs and L = ?L]) (use step at fresh in auto)
  then have "runs ((c(i \<mapsto> ?p))(i \<mapsto> set_oncall Post_write True ?p)) H
      (post_write_loop E run (Suc (Suc n)) i (m_value p) v og 0) () c1"
    by simp
  then have "runs (c(i \<mapsto> ?p)) H (scoped_true i Post_write (post_write_loop E run (Suc (Suc n)) i (m_value p) v og 0)) ()
      (c1(i \<mapsto> set_oncall Post_write False (set_oncall Post_write True ?q)))"
    by (intro runs_scoped_true [where c = "c(i \<mapsto> ?p)" and p = ?p]) (simp_all add: c1)
  then have "runs (c(i \<mapsto> ?p)) H (post_write_callback E run (Suc (Suc n)) i (m_value p) v og) ()
      (c1(i \<mapsto> set_oncall Post_write False (set_oncall Post_write True ?q)))"
    unfolding post_write_callback_def
    by (intro runs_the_param [where c = "c(i \<mapsto> ?p)" and i = i and p = ?p])
      (use post [of v og] in \<open>simp_all add: callbacks_of.simps del: post_write_loop.simps\<close>)
  moreover have "set_oncall Post_write False (set_oncall Post_write True ?q) = ?q"
    by (simp add: set_oncall_undo post)
  ultimately have "runs c H (write_with_callbacks E run (Suc (Suc n)) i v og) ()
      ((c1(i \<mapsto> ?q))(i \<mapsto> update_fast_write E og ?q))"
    using c one by (intro runs_write [where p = p]) (simp_all add: one_post_write_def)
  moreover have "update_fast_write E og ?q = written w o2 p"
    using q by (simp add: update_fast_write_def written_def callbacks_of.simps write_param_def)
  ultimately show ?thesis by simp
qed

section \<open>The callback at work\<close>

lemma runs_sync_callback:
  assumes k: "H k = Some d" "m_param d = Some j" and q: "c j = Some q"
    and e: "H e = Some de" "m_param de = Some i" and p: "c i = Some p"
    and f: "f new = Some x" and x: "unpack E (p_type q) x = (True, w)"
    and set: "runs c H (set_raw_value E (runner E (Suc n)) (Suc n) j w None (promoted E (h_originator d))) () c'"
  shows "runs c H (exec E (Suc (Suc (Suc (Suc (Suc n))))) (sync_callback f k (Write_event_generic old new og e))) True c'"
  unfolding sync_callback_def
proof (rule runs_with_copy [where H = H and h = k and c = c and i = j, OF k q])
  fix g assume g: "g \<notin> dom H"
  let ?H = "H(g \<mapsto> \<lparr>m_param = Some j, h_originator = promoted E (h_originator d)\<rparr>)"
  have sub: "H \<subseteq>\<^sub>m ?H" using g by (auto simp: map_le_def)
  have e': "?H e = Some de" using e(1) g by auto
  have name: "runs c ?H (dispatch E run m (On_handle e H_name)) (A_string (param_name p)) c" for run m
  proof -
    have "runs c ?H (handle_query E e param_name) (param_name p) c"
      unfolding handle_query_def
      by (rule runs_handled [where H = ?H and h = e and i = i, OF e' e(2)])
        (rule runs_read_param [where c = c and i = i, OF p], simp add: param_name_def)
    then show ?thesis by (auto intro: runs_answer)
  qed
  have "runs c ?H (set_cci_value E (runner E (Suc n)) (Suc n) j x None (promoted E (h_originator d))) () c'"
    by (rule runs_set_cci_value [where c = c and i = j, OF q x]) (rule runs_handles_mono [OF set sub])
  then have "runs c ?H (handle_set_cci_value E (runner E (Suc n)) (Suc n) g x None) () c'"
    unfolding handle_set_cci_value_def by (intro runs_handled [where i = j]) auto
  then have set': "runs c ?H (dispatch E (runner E (Suc n)) (Suc n) (On_handle g (H_set_cci_value x None))) A_unit c'"
    by (auto intro: runs_answer)
  have "runs c ?H (exec E (Suc (Suc n)) (P_call (On_handle g (H_set_cci_value x None)) (\<lambda>_. P_return True))) True c'"
    using set' by (rule runs_exec_call) (rule runs_exec_return)
  with f show "runs c ?H (exec E (Suc (Suc (Suc n)))
      (case Write_event_generic old new og e of
         Write_event_generic old new og e \<Rightarrow> P_call (On_handle e H_name) (\<lambda>_.
           case f new of None \<Rightarrow> P_abort | Some x \<Rightarrow> P_call (On_handle g (H_set_cci_value x None)) (\<lambda>_. P_return True))
       | _ \<Rightarrow> P_abort)) True c'"
    unfolding cb_event.case by (intro runs_exec_call [OF name]) (simp del: exec.simps)
qed

text \<open>
  A parameter \<open>p\<close> at \<open>i\<close> that is kept in step with the parameter behind the handle \<open>k\<close>.
\<close>

definition syncs :: "('v, 'j) env \<Rightarrow> ('j \<Rightarrow> 'j option) \<Rightarrow> hid \<Rightarrow> ('v, 'j) param \<Rightarrow> bool" where
  "syncs E f k p \<longleftrightarrow> (\<exists>cb og. one_post_write cb og p \<and> body E cb = sync_callback f k)"

lemma syncs_written [simp]: "syncs E f k (written v og p) = syncs E f k p"
  by (simp add: syncs_def)

lemma refusal_oncall [simp]: "refusal (set_oncall k b (write_param v og p)) pwd = refusal p pwd"
  by (cases k) (simp_all add: refusal_def set_oncall_def map_callbacks.simps write_param_def param_name_def is_locked_def)

lemma no_callback_oncall [simp]:
  "j \<noteq> k \<Longrightarrow> no_callback k (set_oncall j b (write_param v og p)) = no_callback k p"
  by (simp add: no_callback_def write_param_def)

text \<open>The write that comes back to the first parameter: its callbacks run already, so it just happens.\<close>

lemma runs_write_back:
  assumes c: "c i = Some (set_oncall Post_write True (write_param v og p))" and adm: "refusal p None = None"
    and pre: "no_callback Pre_write p" and some: "vec (callbacks_of Post_write p) \<noteq> []"
  shows "runs c H (set_raw_value E run (Suc n) i w None og') ()
    (c(i \<mapsto> set_oncall Post_write True (write_param w og' p\<lparr>fast_write := False\<rparr>)))"
proof -
  let ?p = "set_oncall Post_write True (write_param v og p)"
  let ?q = "write_param w og' ?p"
  have "runs (c(i \<mapsto> ?q)) H (post_write_callback E run (Suc n) i (m_value ?p) w og') () (c(i \<mapsto> ?q))"
    by (rule runs_post_write_nested [where i = i and p = ?q]) (simp_all add: write_param_def)
  then have "runs c H (write_with_callbacks E run (Suc n) i w og') () ((c(i \<mapsto> ?q))(i \<mapsto> update_fast_write E og' ?q))"
    using c pre by (intro runs_write [where p = ?p]) simp_all
  moreover have "update_fast_write E og' ?q = set_oncall Post_write True (write_param w og' p\<lparr>fast_write := False\<rparr>)"
    using some
    by (simp add: update_fast_write_def write_param_def set_oncall_def map_callbacks.simps callbacks_of.simps)
  ultimately have "runs c H (write_with_callbacks E run (Suc n) i w og') ()
      (c(i \<mapsto> set_oncall Post_write True (write_param w og' p\<lparr>fast_write := False\<rparr>)))" by simp
  with c adm show ?thesis by (intro runs_set_raw_value [where p = ?p]) simp_all
qed

section \<open>A write to one of two parameters in step\<close>

text \<open>The handles that the callbacks hold: \<open>k1\<close> of the parameter \<open>i\<close>, \<open>k2\<close> of \<open>j\<close>.\<close>

definition pair_handles :: "hid \<Rightarrow> pid \<Rightarrow> originator \<Rightarrow> hid \<Rightarrow> pid \<Rightarrow> originator \<Rightarrow> hid \<Rightarrow> param_handle option" where
  "pair_handles k1 i og1 k2 j og2 =
     [k1 \<mapsto> \<lparr>m_param = Some i, h_originator = og1\<rparr>, k2 \<mapsto> \<lparr>m_param = Some j, h_originator = og2\<rparr>]"

lemma fresh_hid: "finite (dom H) \<Longrightarrow> \<exists>h :: hid. h \<notin> dom H"
  by (rule ex_new_if_finite [OF infinite_UNIV_nat])

lemma runs_sync_write:
  assumes c: "c i = Some p" "c j = Some q" "i \<noteq> j"
    and k1: "H k1 = Some \<lparr>m_param = Some i, h_originator = og1\<rparr>" and k2: "H k2 = Some \<lparr>m_param = Some j, h_originator = og2\<rparr>"
    and fin: "finite (dom H)"
    and sp: "syncs E f k2 p" and sq: "syncs E g k1 q"
    and old: "pack E (p_type p) (m_value p) = (True, x0)" "pack E (p_type q) (m_value q) = (True, y0)"
    and new: "pack E (p_type p) v = (True, x)" "f x = Some y" "unpack E (p_type q) y = (True, w)"
    and ret: "pack E (p_type q) w = (True, y')" "g y' = Some x'" "unpack E (p_type p) x' = (True, v')"
  shows "runs c H (set_raw_value E (runner E (Suc (Suc (Suc (Suc (Suc (Suc (Suc (Suc (Suc n))))))))))
      (Suc (Suc (Suc (Suc (Suc (Suc (Suc (Suc (Suc n))))))))) i v None og) ()
    (c(j \<mapsto> written w (promoted E og2) q, i \<mapsto> written v' (promoted E og1) p))"
proof -
  obtain cb1 o1 where p: "one_post_write cb1 o1 p" "body E cb1 = sync_callback f k2" using sp by (auto simp: syncs_def)
  obtain cb2 o2 where q: "one_post_write cb2 o2 q" "body E cb2 = sync_callback g k1" using sq by (auto simp: syncs_def)
  let ?N = "Suc (Suc (Suc (Suc (Suc n))))" and ?M = "Suc (Suc (Suc (Suc (Suc (Suc (Suc (Suc (Suc n))))))))"
  let ?og1 = "promoted E og1" and ?og2 = "promoted E og2"
  let ?ref = "\<lambda>cb. \<lparr>cb_object = cb, cb_signature = Sig_post_write None\<rparr>"
  let ?p1 = "set_oncall Post_write True (write_param v og p)"
  let ?p2 = "set_oncall Post_write True (write_param v' ?og1 p\<lparr>fast_write := False\<rparr>)"
  let ?q1 = "set_oncall Post_write True (write_param w ?og2 q)"
  let ?c1 = "c(i \<mapsto> ?p1)" and ?c2 = "c(i \<mapsto> ?p1, j \<mapsto> ?q1)"
  have adm: "refusal p None = None" "refusal q None = None" using p q by (simp_all add: one_post_write_def)
  have some: "vec (callbacks_of Post_write p) \<noteq> []" and pre: "no_callback Pre_write p"
    using p by (simp_all add: one_post_write_def)
  have inner: "runs ?c2 (H(h \<mapsto> \<lparr>m_param = Some j, h_originator = o2\<rparr>))
      (runner E ?N (?ref cb2) (Write_event_generic y0 y' ?og2 h)) True (?c2(i \<mapsto> ?p2))"
    if H: "H k1 = Some \<lparr>m_param = Some i, h_originator = og1\<rparr>" and h: "h \<notin> dom H" for h and H :: "hid \<Rightarrow> param_handle option"
    unfolding runner_def callback_ref.simps q(2)
  proof (rule runs_sync_callback [where j = i and i = j and q = ?p1 and p = ?q1 and w = v' and
        d = "\<lparr>m_param = Some i, h_originator = og1\<rparr>" and de = "\<lparr>m_param = Some j, h_originator = o2\<rparr>"])
    show "(H(h \<mapsto> \<lparr>m_param = Some j, h_originator = o2\<rparr>)) k1 = Some \<lparr>m_param = Some i, h_originator = og1\<rparr>"
      using H h by auto
    show "runs ?c2 (H(h \<mapsto> \<lparr>m_param = Some j, h_originator = o2\<rparr>))
        (set_raw_value E (runner E (Suc n)) (Suc n) i v' None (promoted E (h_originator \<lparr>m_param = Some i, h_originator = og1\<rparr>))) ()
        (?c2(i \<mapsto> ?p2))"
      unfolding param_handle.simps
      by (rule runs_write_back [where v = v and og = og and p = p]) (use c(3) adm pre some in simp_all)
  qed (use c ret in \<open>simp_all add: set_oncall_def write_param_def\<close>)
  have middle: "runs ?c1 H (set_raw_value E (runner E ?N) ?N j w None ?og2) () ((?c2(i \<mapsto> ?p2))(j \<mapsto> written w ?og2 q))"
    if H: "H k1 = Some \<lparr>m_param = Some i, h_originator = og1\<rparr>" and fin: "finite (dom H)" for H :: "hid \<Rightarrow> param_handle option"
  proof (rule runs_set_raw_value [where p = q])
    show "runs ?c1 H (write_with_callbacks E (runner E ?N) ?N j w ?og2) () ((?c2(i \<mapsto> ?p2))(j \<mapsto> written w ?og2 q))"
    proof (rule runs_write_one_callback [where p = q and fast = "fast_write q"])
      show "runs (?c1(j \<mapsto> ?q1)) (H(h \<mapsto> \<lparr>m_param = Some j, h_originator = o2\<rparr>))
          (runner E ?N (?ref cb2) (Write_event_generic y0 y' ?og2 h)) True (?c2(i \<mapsto> ?p2))" if "h \<notin> dom H" for h
        using inner [OF H that] by simp
    qed (use c q(1) old ret fresh_hid [OF fin] in \<open>simp_all add: write_param_def\<close>)
  qed (use c adm in simp_all)
  have outer: "runs c H (write_with_callbacks E (runner E ?M) ?M i v og) ()
      (((?c2(i \<mapsto> ?p2))(j \<mapsto> written w ?og2 q))(i \<mapsto> written v' ?og1 p))"
  proof (rule runs_write_one_callback [where c = c and i = i and fast = False, OF c(1) p(1) old(1) new(1)])
    fix h assume h: "h \<notin> dom H"
    let ?H = "H(h \<mapsto> \<lparr>m_param = Some i, h_originator = o1\<rparr>)"
    have k: "?H k1 = Some \<lparr>m_param = Some i, h_originator = og1\<rparr>" "?H k2 = Some \<lparr>m_param = Some j, h_originator = og2\<rparr>"
      using k1 k2 h by auto
    show "runs ?c1 ?H (runner E ?M (?ref cb1) (Write_event_generic x0 x og h)) True ((?c2(i \<mapsto> ?p2))(j \<mapsto> written w ?og2 q))"
      unfolding runner_def callback_ref.simps p(2)
      by (rule runs_sync_callback [where H = ?H and k = k2 and c = ?c1 and j = j and e = h and i = i and p = ?p1 and q = q
            and de = "\<lparr>m_param = Some i, h_originator = o1\<rparr>", OF k(2)])
        (use c new middle [where H = ?H, OF k(1)] fin in simp_all)
  qed (use c fresh_hid [OF fin] in simp_all)
  have "((?c2(i \<mapsto> ?p2))(j \<mapsto> written w ?og2 q))(i \<mapsto> written v' ?og1 p) = c(j \<mapsto> written w ?og2 q, i \<mapsto> written v' ?og1 p)"
    by (simp add: fun_eq_iff)
  with outer show ?thesis
    by (intro runs_set_raw_value [where p = p]) (use c adm in simp_all)
qed

section \<open>Putting two parameters in step\<close>

text \<open>
  \<open>synchValues(_param_handle_1, _param_handle_2)\<close>, and \<open>synchValuesWithCF\<close> with a factor: the second
  parameter gets the value of the first one, and each gets a callback that holds a handle of the
  other. The handles come by value. \<open>bind1 k\<close> and \<open>bind2 k\<close> are the functors that \<open>sc_bind\<close> makes of
  the callback and a copy of a handle, the copy at the address \<open>k\<close>; the copies live as long as the
  functors.
\<close>

definition post_write_functor :: "cb_id \<Rightarrow> cci_callback_untyped_handle" where
  "post_write_functor cb = Some \<lparr>cb_object = cb, cb_signature = Sig_post_write None\<rparr>"

definition synch_body :: "('j \<Rightarrow> 'j option) \<Rightarrow> (hid \<Rightarrow> cb_id) \<Rightarrow> (hid \<Rightarrow> cb_id) \<Rightarrow> hid \<Rightarrow> hid \<Rightarrow> ('v, 'j) prog" where
  "synch_body f bind1 bind2 p1 p2 =
     P_call (On_handle p1 H_get_cci_value) (\<lambda>a. case a of
       A_cci x \<Rightarrow>
         (case f x of
            None \<Rightarrow> P_abort
          | Some y \<Rightarrow>
              P_call (On_handle p2 (H_set_cci_value y None)) (\<lambda>_.
              P_call (On_handle p2 H_copy) (\<lambda>a. case a of
                A_address k2 \<Rightarrow>
                  P_call (On_handle p1 (H_register_callback Post_write (post_write_functor (bind1 k2)))) (\<lambda>_.
                  P_call (On_handle p1 H_copy) (\<lambda>a. case a of
                    A_address k1 \<Rightarrow>
                      P_call (On_handle p2 (H_register_callback Post_write (post_write_functor (bind2 k1))))
                        (\<lambda>_. P_return True)
                  | _ \<Rightarrow> P_abort))
              | _ \<Rightarrow> P_abort)))
     | _ \<Rightarrow> P_abort)"

definition synch_values :: "('j \<Rightarrow> 'j option) \<Rightarrow> (hid \<Rightarrow> cb_id) \<Rightarrow> (hid \<Rightarrow> cb_id) \<Rightarrow> hid \<Rightarrow> hid \<Rightarrow> ('v, 'j) prog" where
  "synch_values f bind1 bind2 h1 h2 =
     with_copy h1 (\<lambda>p1. with_copy h2 (\<lambda>p2. synch_body f bind1 bind2 p1 p2))"

text \<open>
  ex12: \<open>synchValuesWithCF\<close> and its callback multiply with a factor. \<open>is_number\<close>, \<open>get_number\<close> and
  \<open>set_double\<close> of \<open>cci_value\<close> and the arithmetic of \<open>double\<close> are parameters here.
\<close>

record ('j, 'd) numbers =
  number_test :: "'j \<Rightarrow> bool"
  number_of :: "'j \<Rightarrow> 'd"
  of_double :: "'d \<Rightarrow> 'j"
  times_double :: "'d \<Rightarrow> 'd \<Rightarrow> 'd"
  inverse_double :: "'d \<Rightarrow> 'd"

definition scaled :: "('j, 'd) numbers \<Rightarrow> 'd \<Rightarrow> 'j \<Rightarrow> 'j option" where
  "scaled D conv_fact x =
     (if number_test D x then Some (of_double D (times_double D (number_of D x) conv_fact)) else None)"

definition sync_callback_with_cf :: "('j, 'd) numbers \<Rightarrow> hid \<Rightarrow> 'd \<Rightarrow> ('v, 'j) cb_event \<Rightarrow> ('v, 'j) prog" where
  "sync_callback_with_cf D synced_handle conv_fact ev = sync_callback (scaled D conv_fact) synced_handle ev"

definition synch_values_with_cf :: "('j, 'd) numbers \<Rightarrow> ('d \<Rightarrow> hid \<Rightarrow> cb_id) \<Rightarrow> hid \<Rightarrow> hid \<Rightarrow> 'd \<Rightarrow> ('v, 'j) prog" where
  "synch_values_with_cf D bind h1 h2 conv_fact =
     synch_values (scaled D conv_fact) (bind conv_fact) (bind (inverse_double D conv_fact)) h1 h2"

text \<open>A parameter that has no callbacks and that anyone may write.\<close>

definition unwatched :: "('v, 'j) param \<Rightarrow> bool" where
  "unwatched p \<longleftrightarrow> (\<forall>k. no_callback k p) \<and> refusal p None = None"

lemma runs_write_unwatched:
  assumes c: "c i = Some p" and p: "unwatched p"
  shows "runs c H (set_raw_value E run (Suc n) i v None og) () (c(i \<mapsto> update_fast_write E og (write_param v og p)))"
proof -
  let ?q = "write_param v og p" and ?c = "c(i \<mapsto> write_param v og p)"
  have post: "runs ?c H (post_write_callback E run (Suc n) i (m_value p) v og) () ?c"
  proof -
    have q: "no_callback Post_write ?q" using p by (simp add: unwatched_def no_callback_def write_param_def)
    have "runs ?c H (scoped_true i Post_write (post_write_loop E run (Suc n) i (m_value p) v og 0)) () ?c"
    proof (rule runs_scoped_nothing [where c = ?c and i = i and p = ?q])
      show "runs d H (post_write_loop E run (Suc n) i (m_value p) v og 0) () d" if d: "d i = Some (set_oncall Post_write True ?q)" for d
      proof -
        have "vec (callbacks_of Post_write (set_oncall Post_write True ?q)) = []" using q by (simp add: no_callback_def)
        then show ?thesis
          unfolding post_write_loop.simps
          by (intro runs_the_param [where c = d and i = i, OF d]) (simp add: callbacks_of.simps runs_retM del: retM_apply)
      qed
    qed (use q in \<open>simp_all add: no_callback_def\<close>)
    then show ?thesis
      unfolding post_write_callback_def
      by (intro runs_the_param [where c = ?c and i = i and p = ?q])
        (use q in \<open>simp_all add: no_callback_def callbacks_of.simps del: post_write_loop.simps\<close>)
  qed
  have "runs c H (write_with_callbacks E run (Suc n) i v og) () (?c(i \<mapsto> update_fast_write E og ?q))"
    using c p by (intro runs_write [where p = p, OF _ _ post]) (simp_all add: unwatched_def)
  with c p show ?thesis by (intro runs_set_raw_value [where p = p]) (simp_all add: unwatched_def)
qed

lemma refusal_register: "refusal (untyped_register_callback k cb og p) pwd = refusal p pwd"
  by (simp add: refusal_def untyped_register_callback_def map_vec_def param_name_def is_locked_def)

lemma one_post_write_registered:
  assumes "vec (callbacks_of Post_write p) = []" and "\<not> oncall (callbacks_of Post_write p)"
    and "no_callback Pre_write p" and "refusal p None = None"
  shows "one_post_write cb og (untyped_register_callback Post_write (post_write_functor cb) og p)"
proof -
  have "callbacks_of Post_write (untyped_register_callback Post_write (post_write_functor cb) og p)
      = \<lparr>vec = [\<lparr>callback = post_write_functor cb, cb_originator = og\<rparr>], oncall = False\<rparr>"
    using assms(1,2)
    by (cases "callbacks_of Post_write p") (simp add: untyped_register_callback_def map_vec_def new_callback_def)
  then show ?thesis
    using assms(3,4)
    by (simp add: one_post_write_def post_write_functor_def no_callback_def refusal_register)
      (simp add: untyped_register_callback_def)
qed

text \<open>The state that \<open>synchValues\<close> makes: the two parameters, and the handles in the functors.\<close>

definition in_step :: "('v, 'j) env \<Rightarrow> ('j \<Rightarrow> 'j option) \<Rightarrow> ('j \<Rightarrow> 'j option) \<Rightarrow> pid \<Rightarrow> ('v, 'j) param \<Rightarrow> pid \<Rightarrow> ('v, 'j) param
    \<Rightarrow> (hid \<Rightarrow> param_handle option) \<Rightarrow> bool" where
  "in_step E f g i p j q H \<longleftrightarrow>
     (\<exists>k1 k2 og1 og2. H k1 = Some \<lparr>m_param = Some i, h_originator = og1\<rparr> \<and> H k2 = Some \<lparr>m_param = Some j, h_originator = og2\<rparr>
        \<and> syncs E f k2 p \<and> syncs E g k1 q)"

lemma in_step_mono: "in_step E f g i p j q H \<Longrightarrow> H \<subseteq>\<^sub>m H' \<Longrightarrow> in_step E f g i p j q H'"
  unfolding in_step_def by (elim exE conjE, intro exI conjI; (assumption | rule map_le_Some, assumption)+)

text \<open>The handles that are new since \<open>H\<close>.\<close>

definition since :: "(hid \<Rightarrow> param_handle option) \<Rightarrow> (hid \<Rightarrow> param_handle option) \<Rightarrow> hid \<Rightarrow> param_handle option" where
  "since H H' = H' |` (- dom H)"

definition made_in_step :: "('v, 'j) env \<Rightarrow> ('j \<Rightarrow> 'j option) \<Rightarrow> ('j \<Rightarrow> 'j option) \<Rightarrow> pid \<Rightarrow> ('v, 'j) param \<Rightarrow> pid \<Rightarrow> ('v, 'j) param
    \<Rightarrow> 'v \<Rightarrow> ('v, 'j) view \<Rightarrow> (hid \<Rightarrow> param_handle option) \<Rightarrow> ('v, 'j) view \<Rightarrow> (hid \<Rightarrow> param_handle option) \<Rightarrow> bool" where
  "made_in_step E f g i p j q w c H c' H' \<longleftrightarrow>
     (\<exists>p' q'. c' = c(i \<mapsto> p', j \<mapsto> q') \<and> H \<subseteq>\<^sub>m H' \<and> in_step E f g i p' j q' (since H H')
        \<and> m_value p' = m_value p \<and> m_value q' = w \<and> p_type p' = p_type p \<and> p_type q' = p_type q
        \<and> \<not> fast_write p' \<and> \<not> fast_write q')"

lemma made_in_step_drop:
  assumes "g \<notin> dom H" and "made_in_step E f g' i p j q w c (H(g \<mapsto> d)) c' H'"
  shows "made_in_step E f g' i p j q w c H c' (H'(g := None))"
proof -
  have "since (H(g \<mapsto> d)) H' \<subseteq>\<^sub>m since H (H'(g := None))"
    by (auto simp: since_def map_le_def restrict_map_def)
  moreover have "H \<subseteq>\<^sub>m H'(g := None)" if "H(g \<mapsto> d) \<subseteq>\<^sub>m H'"
    unfolding map_le_def
  proof
    fix a assume a: "a \<in> dom H"
    then obtain y where y: "H a = Some y" and ag: "a \<noteq> g" using assms(1) by blast
    then have "H' a = Some y" by (intro map_le_Some [OF that]) simp
    with y ag show "H a = (H'(g := None)) a" by simp
  qed
  ultimately show ?thesis
    using assms(2) unfolding made_in_step_def by (blast intro: in_step_mono)
qed

lemma ends_synch_body:
  assumes c: "c i = Some p" "c j = Some q" "i \<noteq> j"
    and h: "H g1 = Some \<lparr>m_param = Some i, h_originator = og1\<rparr>" "H g2 = Some \<lparr>m_param = Some j, h_originator = og2\<rparr>"
    and unwatched: "unwatched p" "unwatched q"
    and conv: "pack E (p_type p) (m_value p) = (True, x)" "f x = Some y" "unpack E (p_type q) y = (True, w)"
    and functors: "\<And>k. body E (bind1 k) = sync_callback f k" "\<And>k. body E (bind2 k) = sync_callback g k"
  shows "ends c H (exec E (Suc (Suc (Suc (Suc (Suc (Suc (Suc (Suc n)))))))) (synch_body f bind1 bind2 g1 g2))
    (\<lambda>b c' H'. b \<and> made_in_step E f g i p j q w c H c' H')"
proof -
  let ?p1 = "update_fast_read p" and ?q1 = "update_fast_write E og2 (write_param w og2 q)"
  let ?p2 = "\<lambda>k2. untyped_register_callback Post_write (post_write_functor (bind1 k2)) og1 ?p1"
  let ?q2 = "\<lambda>k1. untyped_register_callback Post_write (post_write_functor (bind2 k1)) og2 ?q1"
  have adm: "refusal ?p1 None = None" "refusal ?q1 None = None"
    using unwatched by (simp_all add: unwatched_def update_fast_read_def update_fast_write_def write_param_def refusal_def
        param_name_def is_locked_def split: if_splits)
  have cbs: "callbacks_of k ?p1 = callbacks_of k p" "callbacks_of k ?q1 = callbacks_of k q" for k
    by (simp_all add: update_fast_read_def update_fast_write_def write_param_def)
  have quiet: "vec (callbacks_of k p) = []" "\<not> oncall (callbacks_of k p)" "vec (callbacks_of k q) = []" "\<not> oncall (callbacks_of k q)" for k
    using unwatched by (simp_all add: unwatched_def no_callback_def)
  have sp: "syncs E f k2 (?p2 k2)" for k2
    unfolding syncs_def using functors(1) adm(1) quiet
    by (intro exI [of _ "bind1 k2"] exI [of _ og1] conjI one_post_write_registered) (simp_all add: no_callback_def cbs)
  have sq: "syncs E g k1 (?q2 k1)" for k1
    unfolding syncs_def using functors(2) adm(2) quiet
    by (intro exI [of _ "bind2 k1"] exI [of _ og2] conjI one_post_write_registered) (simp_all add: no_callback_def cbs)
  have get: "runs c H (dispatch E run (Suc m) (On_handle g1 H_get_cci_value)) (A_cci x) (c(i \<mapsto> ?p1))" for run m
  proof -
    have "runs c H (get_cci_value E run (Suc m) i og1) x (c(i \<mapsto> ?p1))"
      by (rule runs_get_cci_value [where c = c and i = i, OF c(1) _ _ conv(1)]) (use unwatched(1) in \<open>simp_all add: unwatched_def\<close>)
    then have "runs c H (handle_get_cci_value E run (Suc m) g1) x (c(i \<mapsto> ?p1))"
      unfolding handle_get_cci_value_def by (intro runs_handled [where H = H and h = g1 and i = i, OF h(1)]) simp_all
    then show ?thesis by (auto intro: runs_answer)
  qed
  let ?c1 = "c(i \<mapsto> ?p1)" and ?c2 = "c(i \<mapsto> ?p1, j \<mapsto> ?q1)"
  have set: "runs ?c1 H (dispatch E run (Suc m) (On_handle g2 (H_set_cci_value y None))) A_unit ?c2" for run m
  proof -
    have "runs ?c1 H (set_cci_value E run (Suc m) j y None og2) () ?c2"
      by (rule runs_set_cci_value [where c = ?c1 and i = j and p = q, OF _ conv(3)])
        (use c unwatched in \<open>simp_all add: runs_write_unwatched\<close>)
    then have "runs ?c1 H (handle_set_cci_value E run (Suc m) g2 y None) () ?c2"
      unfolding handle_set_cci_value_def by (intro runs_handled [where H = H and h = g2 and i = j, OF h(2)]) simp_all
    then show ?thesis by (auto intro: runs_answer)
  qed
  have rest: "ends ?c2 H (exec E (Suc (Suc (Suc (Suc (Suc (Suc n)))))) (P_call (On_handle g2 H_copy) (\<lambda>a. case a of
      A_address k2 \<Rightarrow>
        P_call (On_handle g1 (H_register_callback Post_write (post_write_functor (bind1 k2)))) (\<lambda>_.
        P_call (On_handle g1 H_copy) (\<lambda>a. case a of
          A_address k1 \<Rightarrow>
            P_call (On_handle g2 (H_register_callback Post_write (post_write_functor (bind2 k1)))) (\<lambda>_. P_return True)
        | _ \<Rightarrow> P_abort))
    | _ \<Rightarrow> P_abort))) (\<lambda>b c' H'. b \<and> made_in_step E f g i p j q w c H c' H')"
  proof (rule ends_exec_copy [where c = ?c2 and i = j and H = H, OF h(2)]; (simp del: exec.simps)?)
    fix k2 assume k2: "k2 \<notin> dom H"
    let ?H2 = "H(k2 \<mapsto> \<lparr>m_param = Some j, h_originator = promoted E og2\<rparr>)"
    have g1: "?H2 g1 = Some \<lparr>m_param = Some i, h_originator = og1\<rparr>" using h k2 by auto
    let ?c3 = "?c2(i \<mapsto> ?p2 k2)"
    have "ends ?c3 ?H2 (exec E (Suc (Suc (Suc (Suc n)))) (P_call (On_handle g1 H_copy) (\<lambda>a. case a of
          A_address k1 \<Rightarrow>
            P_call (On_handle g2 (H_register_callback Post_write (post_write_functor (bind2 k1)))) (\<lambda>_. P_return True)
        | _ \<Rightarrow> P_abort))) (\<lambda>b c' H'. b \<and> made_in_step E f g i p j q w c H c' H')"
    proof -
      have last: "ends ?c3 (?H2(k1 \<mapsto> \<lparr>m_param = Some i, h_originator = promoted E og1\<rparr>)) (exec E (Suc (Suc (Suc n)))
          (P_call (On_handle g2 (H_register_callback Post_write (post_write_functor (bind2 k1)))) (\<lambda>_. P_return True)))
          (\<lambda>b c' H'. b \<and> made_in_step E f g i p j q w c H c' H')" if k1: "k1 \<notin> dom ?H2" for k1
      proof -
      let ?H3 = "?H2(k1 \<mapsto> \<lparr>m_param = Some i, h_originator = promoted E og1\<rparr>)"
      have g2: "?H3 g2 = Some \<lparr>m_param = Some j, h_originator = og2\<rparr>" using h k1 k2 by auto
      have "runs ?c3 ?H3 (dispatch E run m (On_handle g2 (H_register_callback Post_write (post_write_functor (bind2 k1)))))
          (A_callback (post_write_functor (bind2 k1))) (?c3(j \<mapsto> ?q2 k1))" for run m
        using runs_register [where c = ?c3 and i = j and H = ?H3, OF g2] c(3) by simp
      moreover have "made_in_step E f g i p j q w c H (?c3(j \<mapsto> ?q2 k1)) ?H3"
      proof -
        have "in_step E f g i (?p2 k2) j (?q2 k1) (since H ?H3)"
          unfolding in_step_def using sp sq k1 k2
          by (intro exI [of _ k1] exI [of _ k2]) (auto simp: since_def restrict_map_def)
        moreover have "H \<subseteq>\<^sub>m ?H3" using k1 k2 by (auto simp: map_le_def)
        moreover have "?c3(j \<mapsto> ?q2 k1) = c(i \<mapsto> ?p2 k2, j \<mapsto> ?q2 k1)" using c(3) by (simp add: fun_eq_iff)
        ultimately show ?thesis
          unfolding made_in_step_def
          by - (rule exI [of _ "?p2 k2"], rule exI [of _ "?q2 k1"], simp add: untyped_register_callback_def
              map_vec_def update_fast_read_def update_fast_write_def write_param_def)
      qed
      ultimately show ?thesis
        by (intro ends_exec_call ends_runs [OF runs_exec_return]) auto
      qed
      show ?thesis
        by (rule ends_exec_copy [where c = ?c3 and i = i and H = ?H2, OF g1]) (use last in \<open>simp_all del: exec.simps\<close>)
    qed
    moreover have "runs ?c2 ?H2 (dispatch E run m (On_handle g1 (H_register_callback Post_write (post_write_functor (bind1 k2)))))
        (A_callback (post_write_functor (bind1 k2))) ?c3" for run m
      using runs_register [where c = ?c2 and i = i and H = ?H2, OF g1] c(3) by simp
    ultimately show "ends ?c2 ?H2 (exec E (Suc (Suc (Suc (Suc (Suc n)))))
        (P_call (On_handle g1 (H_register_callback Post_write (post_write_functor (bind1 k2)))) (\<lambda>_.
          P_call (On_handle g1 H_copy) (\<lambda>a. case a of
            A_address k1 \<Rightarrow>
              P_call (On_handle g2 (H_register_callback Post_write (post_write_functor (bind2 k1)))) (\<lambda>_. P_return True)
          | _ \<Rightarrow> P_abort)))) (\<lambda>b c' H'. b \<and> made_in_step E f g i p j q w c H c' H')"
      by (rule ends_exec_call [rotated])
  qed
  show ?thesis
    unfolding synch_body_def
    by (rule ends_exec_call, rule get) (simp only: answer.case conv(2) option.case, rule ends_exec_call [OF set rest])
qed

text \<open>The program as a whole: its two copies are gone when it returns.\<close>

lemma ends_synch_values:
  assumes c: "c i = Some p" "c j = Some q" "i \<noteq> j"
    and h: "H h1 = Some \<lparr>m_param = Some i, h_originator = og1\<rparr>" "H h2 = Some \<lparr>m_param = Some j, h_originator = og2\<rparr>"
    and unwatched: "unwatched p" "unwatched q"
    and conv: "pack E (p_type p) (m_value p) = (True, x)" "f x = Some y" "unpack E (p_type q) y = (True, w)"
    and functors: "\<And>k. body E (bind1 k) = sync_callback f k" "\<And>k. body E (bind2 k) = sync_callback g k"
    and N: "12 \<le> N"
  shows "ends c H (exec E N (synch_values f bind1 bind2 h1 h2)) (\<lambda>b c' H'. b \<and> made_in_step E f g i p j q w c H c' H')"
proof -
  have "N = Suc (Suc (Suc (Suc (Suc (Suc (Suc (Suc (Suc (Suc (Suc (Suc (N - 12))))))))))))" using N by simp
  then obtain n where n: "N = Suc (Suc (Suc (Suc (Suc (Suc (Suc (Suc (Suc (Suc (Suc (Suc n)))))))))))" by blast
  show ?thesis
    unfolding synch_values_def n
  proof (rule ends_with_copy [where H = H and c = c and i = i, OF h(1) _ c(1)]; (simp del: exec.simps)?)
    fix g1 assume g1: "g1 \<notin> dom H"
    let ?H1 = "H(g1 \<mapsto> \<lparr>m_param = Some i, h_originator = promoted E og1\<rparr>)"
    have h2: "?H1 h2 = Some \<lparr>m_param = Some j, h_originator = og2\<rparr>" using h g1 by auto
    have "ends c ?H1 (exec E (Suc (Suc (Suc (Suc (Suc (Suc (Suc (Suc (Suc (Suc n)))))))))) (with_copy h2 (synch_body f bind1 bind2 g1)))
        (\<lambda>b c' H'. b \<and> made_in_step E f g i p j q w c ?H1 c' H')"
    proof (rule ends_with_copy [where H = ?H1 and c = c and i = j, OF h2 _ c(2)]; (simp del: exec.simps fun_upd_apply)?)
      fix g2 assume g2: "g2 \<noteq> g1 \<and> g2 \<notin> dom H"
      let ?H2 = "?H1(g2 \<mapsto> \<lparr>m_param = Some j, h_originator = promoted E og2\<rparr>)"
      have "ends c ?H2 (exec E (Suc (Suc (Suc (Suc (Suc (Suc (Suc (Suc n)))))))) (synch_body f bind1 bind2 g1 g2))
          (\<lambda>b c' H'. b \<and> made_in_step E f g i p j q w c ?H2 c' H')"
        by (rule ends_synch_body [OF c _ _ unwatched conv functors]) (use g1 g2 in auto)
      then show "ends c ?H2 (exec E (Suc (Suc (Suc (Suc (Suc (Suc (Suc (Suc n)))))))) (synch_body f bind1 bind2 g1 g2))
          (\<lambda>b c' H'. b \<and> made_in_step E f g i p j q w c ?H1 c' (H'(g2 := None)))"
        by (rule ends_conj_mono) (rule made_in_step_drop, use g2 in auto)
    qed
    then show "ends c ?H1 (exec E (Suc (Suc (Suc (Suc (Suc (Suc (Suc (Suc (Suc (Suc n)))))))))) (with_copy h2 (synch_body f bind1 bind2 g1)))
        (\<lambda>b c' H'. b \<and> made_in_step E f g i p j q w c H c' (H'(g1 := None)))"
      by (rule ends_conj_mono) (rule made_in_step_drop [OF g1])
  qed
qed

section \<open>Parameters that stay equal\<close>

lemma at_least_9:
  assumes "9 \<le> N"
  obtains n where "N = Suc (Suc (Suc (Suc (Suc (Suc (Suc (Suc (Suc n))))))))"
proof
  show "N = Suc (Suc (Suc (Suc (Suc (Suc (Suc (Suc (Suc (N - 9)))))))))" using assms by simp
qed

text \<open>A value that converts and converts back unchanged.\<close>

definition convertible :: "('v, 'j) env \<Rightarrow> tid \<Rightarrow> 'v \<Rightarrow> bool" where
  "convertible E T v \<longleftrightarrow> (\<exists>x. pack E T v = (True, x) \<and> unpack E T x = (True, v))"

text \<open>
  The parameters at \<open>i\<close> and \<open>j\<close>, both of type \<open>T\<close>, in step in the way of ex11, with the values \<open>v\<close> and \<open>w\<close>.
\<close>

definition level :: "('v, 'j) env \<Rightarrow> tid \<Rightarrow> (hid \<Rightarrow> param_handle option) \<Rightarrow> pid \<Rightarrow> pid \<Rightarrow> 'v \<Rightarrow> 'v \<Rightarrow> ('v, 'j) view \<Rightarrow> bool" where
  "level E T H i j v w c \<longleftrightarrow>
     (\<exists>p q. c i = Some p \<and> c j = Some q \<and> in_step E Some Some i p j q H \<and> p_type p = T \<and> p_type q = T
        \<and> \<not> fast_write p \<and> \<not> fast_write q \<and> m_value p = v \<and> m_value q = w)"

lemma in_step_sym: "in_step E f g i p j q H \<Longrightarrow> in_step E g f j q i p H"
  unfolding in_step_def by blast

lemma level_sym: "level E T H i j v w c \<Longrightarrow> level E T H j i w v c"
  unfolding level_def by (blast intro: in_step_sym)

lemma runs_level_set_raw:
  assumes l: "level E T H i j v w c" and ij: "i \<noteq> j" and fin: "finite (dom H)"
    and conv: "convertible E T v" "convertible E T w" "convertible E T u" and N: "9 \<le> N"
  obtains c' where "runs c H (set_raw_value E (runner E N) N i u None og) () c'" and "level E T H i j u u c'"
    and "\<And>k. k \<notin> {i, j} \<Longrightarrow> c' k = c k"
proof -
  obtain n where n: "N = Suc (Suc (Suc (Suc (Suc (Suc (Suc (Suc (Suc n))))))))" using N by (rule at_least_9)
  obtain p q where c: "c i = Some p" "c j = Some q" and st: "in_step E Some Some i p j q H"
    and T: "p_type p = T" "p_type q = T" and vals: "m_value p = v" "m_value q = w" using l unfolding level_def by blast
  obtain k1 k2 og1 og2 where k: "H k1 = Some \<lparr>m_param = Some i, h_originator = og1\<rparr>" "H k2 = Some \<lparr>m_param = Some j, h_originator = og2\<rparr>"
    and s: "syncs E Some k2 p" "syncs E Some k1 q" using st unfolding in_step_def by blast
  obtain x0 y0 x where xs: "pack E T v = (True, x0)" "pack E T w = (True, y0)" "pack E T u = (True, x)" "unpack E T x = (True, u)"
    using conv by (auto simp: convertible_def)
  let ?c = "c(j \<mapsto> written u (promoted E og2) q, i \<mapsto> written u (promoted E og1) p)"
  have "runs c H (set_raw_value E (runner E N) N i u None og) () ?c"
    unfolding n by (rule runs_sync_write [where c = c and i = i and j = j, OF c ij k fin s]) (use T vals xs in simp_all)
  moreover have "level E T H i j u u ?c"
    unfolding level_def in_step_def using T k s ij
    by (intro exI [of _ "written u (promoted E og1) p"] exI [of _ "written u (promoted E og2) q"]) auto
  ultimately show thesis using that by auto
qed

text \<open>A call that writes the value \<open>u\<close> to one of the two: by its owner or through any handle.\<close>

definition writes_value :: "('v, 'j) env \<Rightarrow> (hid \<Rightarrow> param_handle option) \<Rightarrow> pid \<Rightarrow> pid \<Rightarrow> tid \<Rightarrow> 'v \<Rightarrow> ('v, 'j) call \<Rightarrow> bool" where
  "writes_value E H i j T u a \<longleftrightarrow>
     (\<exists>l \<in> {i, j}. a = On_param l (Set_value u)
        \<or> (\<exists>h d x. a = On_handle h (H_set_cci_value x None) \<and> H h = Some d \<and> m_param d = Some l \<and> unpack E T x = (True, u)))"

lemma runs_level_call_one:
  assumes l: "level E T H i j v w c" and ij: "i \<noteq> j" and fin: "finite (dom H)"
    and conv: "convertible E T v" "convertible E T w" "convertible E T u" and N: "9 \<le> N"
    and a: "a = On_param i (Set_value u)
      \<or> (\<exists>h d x. a = On_handle h (H_set_cci_value x None) \<and> H h = Some d \<and> m_param d = Some i \<and> unpack E T x = (True, u))"
  obtains x c' where "runs c H (dispatch E (runner E N) N a) x c'" and "level E T H i j u u c'"
    and "\<And>k. k \<notin> {i, j} \<Longrightarrow> c' k = c k"
proof -
  obtain p where c: "c i = Some p" "p_type p = T" "\<not> fast_write p" using l unfolding level_def by blast
  from a show thesis
  proof (elim disjE exE conjE)
    assume a: "a = On_param i (Set_value u)"
    obtain c' where c': "runs c H (set_raw_value E (runner E N) N i u None (get_originator p)) () c'" "level E T H i j u u c'"
      "\<And>k. k \<notin> {i, j} \<Longrightarrow> c' k = c k"
      using runs_level_set_raw [where i = i, OF l ij fin conv N] by blast
    have "runs c H (set_value E (runner E N) N i u) () c'"
      unfolding set_value_def
      by (rule runs_the_param [where c = c and i = i, OF c(1)]) (use c c' in \<open>simp add: get_originator_def\<close>)
    then have "runs c H (dispatch E (runner E N) N a) A_unit c'" by (simp add: a runs_answer)
    with c' show thesis by (blast intro: that)
  next
    fix h d x assume a: "a = On_handle h (H_set_cci_value x None)" and h: "H h = Some d" "m_param d = Some i"
      and x: "unpack E T x = (True, u)"
    obtain c' where c': "runs c H (set_raw_value E (runner E N) N i u None (h_originator d)) () c'" "level E T H i j u u c'"
      "\<And>k. k \<notin> {i, j} \<Longrightarrow> c' k = c k"
      using runs_level_set_raw [where i = i, OF l ij fin conv N] by blast
    have "runs c H (set_cci_value E (runner E N) N i x None (h_originator d)) () c'"
      by (rule runs_set_cci_value [where c = c and i = i, OF c(1)]) (use c x c' in simp_all)
    then have "runs c H (handle_set_cci_value E (runner E N) N h x None) () c'"
      unfolding handle_set_cci_value_def by (rule runs_handled [where H = H and h = h and i = i, OF h])
    then have "runs c H (dispatch E (runner E N) N a) A_unit c'" by (simp add: a runs_answer)
    with c' show thesis by (blast intro: that)
  qed
qed

lemma runs_level_call:
  assumes l: "level E T H i j v w c" and ij: "i \<noteq> j" and fin: "finite (dom H)"
    and conv: "convertible E T v" "convertible E T w" "convertible E T u" and N: "9 \<le> N" and a: "writes_value E H i j T u a"
  obtains x c' where "runs c H (dispatch E (runner E N) N a) x c'" and "level E T H i j u u c'"
    and "\<And>k. k \<notin> {i, j} \<Longrightarrow> c' k = c k"
proof -
  let ?one = "\<lambda>l. a = On_param l (Set_value u)
    \<or> (\<exists>h d x. a = On_handle h (H_set_cci_value x None) \<and> H h = Some d \<and> m_param d = Some l \<and> unpack E T x = (True, u))"
  have "?one i \<or> ?one j" using a unfolding writes_value_def by blast
  then show thesis
  proof
    assume "?one i"
    with l ij fin conv N show thesis by (rule runs_level_call_one) (rule that)
  next
    assume "?one j"
    with level_sym [OF l] ij [symmetric] fin conv(2,1,3) N show thesis
      by (rule runs_level_call_one) (rule that, assumption, erule level_sym, auto)
  qed
qed

definition write_all :: "('v, 'j) call list \<Rightarrow> ('v, 'j) prog" where
  "write_all as = foldr (\<lambda>a k. P_call a (\<lambda>_. k)) as (P_return True)"

lemma runs_write_all:
  assumes "list_all2 (writes_value E H i j T) us as" and "i \<noteq> j" and "finite (dom H)"
  shows "level E T H i j v v c \<Longrightarrow> \<forall>u \<in> set (v # us). convertible E T u \<Longrightarrow> length as + 9 < N \<Longrightarrow>
    \<exists>c'. runs c H (exec E N (write_all as)) True c' \<and> level E T H i j (last (v # us)) (last (v # us)) c'
      \<and> (\<forall>k. k \<notin> {i, j} \<longrightarrow> c' k = c k)"
  using assms(1)
proof (induction us as arbitrary: v c N rule: list_all2_induct)
  case Nil
  then obtain m where "N = Suc m" by (cases N) auto
  with Nil show ?case by (auto simp: write_all_def simp del: exec.simps intro: runs_exec_return)
next
  case (Cons u us a as)
  obtain m where m: "N = Suc m" "9 \<le> m" "length as + 9 < m" using Cons.prems(3) by (cases N) auto
  obtain x c1 where c1: "runs c H (dispatch E (runner E m) m a) x c1" "level E T H i j u u c1" "\<And>k. k \<notin> {i, j} \<Longrightarrow> c1 k = c k"
    using Cons.prems(1) assms(2,3) _ _ _ m(2) Cons.hyps(1) by (rule runs_level_call) (use Cons.prems(2) in auto)
  obtain c2 where c2: "runs c1 H (exec E m (write_all as)) True c2" "level E T H i j (last (u # us)) (last (u # us)) c2"
    "\<And>k. k \<notin> {i, j} \<Longrightarrow> c2 k = c1 k"
    using Cons.IH [OF c1(2) _ m(3)] Cons.prems(2) by auto
  have "runs c H (exec E N (write_all (a # as))) True c2"
    unfolding m write_all_def foldr.simps comp_apply
    by (rule runs_exec_call [OF c1(1)]) (use c2(1) in \<open>simp add: write_all_def del: exec.simps\<close>)
  with c1(3) c2 show ?case by auto
qed

end
