(* ===== verification/Sync_Setup.thy ===== *)
theory Sync_Setup
  imports Param_Sync
begin

text \<open>
  The constructor of \<open>ex11_param_value_sync\<close> (src/examples/cci/ex11_Directly_Associating_Parameters), which
  puts every parameter of a list in step with the first one.
\<close>

section \<open>The constructor\<close>

text \<open>\<open>returnBaseParamList = BaseParamList\<close>: the member that keeps copies of the handles.\<close>

fun copy_vector :: "hid list \<Rightarrow> (hid list \<Rightarrow> ('v, 'j) prog) \<Rightarrow> ('v, 'j) prog" where
  "copy_vector [] k = k []"
| "copy_vector (h # hs) k =
     P_call (On_handle h H_copy) (\<lambda>a. case a of
       A_address g \<Rightarrow> copy_vector hs (\<lambda>gs. k (g # gs))
     | _ \<Rightarrow> P_abort)"

text \<open>The loop over the other handles; \<open>sync\<close> is what it calls for each.\<close>

fun synch_rest :: "(hid \<Rightarrow> hid \<Rightarrow> ('v, 'j) prog) \<Rightarrow> hid \<Rightarrow> hid list \<Rightarrow> ('v, 'j) prog" where
  "synch_rest sync h [] = P_return True"
| "synch_rest sync h (g # gs) =
     P_try (sync h g) (\<lambda>r. case r of
       Inl e \<Rightarrow> P_throw e
     | Inr _ \<Rightarrow> synch_rest sync h gs)"

definition param_value_sync :: "('j \<Rightarrow> 'j option) \<Rightarrow> (hid \<Rightarrow> cb_id) \<Rightarrow> (hid \<Rightarrow> cb_id) \<Rightarrow> hid list \<Rightarrow> ('v, 'j) prog" where
  "param_value_sync f bind1 bind2 base_param_list =
     copy_vector base_param_list (\<lambda>gs. case gs of
       [] \<Rightarrow> P_return True
     | h # rest \<Rightarrow> synch_rest (synch_values f bind1 bind2) h rest)"

section \<open>What it makes of two parameters\<close>

lemma ends_exec_try:
  assumes "ends c H (exec E n p) (\<lambda>b c1 H1. ends c1 H1 (exec E n (q (Inr b))) Q)"
  shows "ends c H (exec E (Suc n) (P_try p q)) Q"
proof (rule endsI)
  fix s assume "has_view c H s"
  with assms obtain b c1 H1 t where t: "exec E n p (put c s) = (Ret b, put c1 t)" "has_view c1 H1 t" "same_world s t"
    and rest: "ends c1 H1 (exec E n (q (Inr b))) Q" by (rule endsE)
  from rest t(2) obtain y c2 H2 u where "exec E n (q (Inr b)) (put c1 t) = (Ret y, put c2 u)" "has_view c2 H2 u" "same_world t u" "Q y c2 H2"
    by (rule endsE)
  moreover have "exec E (Suc n) (P_try p q) (put c s) = (Ret y, put c2 u)"
    using t(1) calculation(1) by (simp add: tryM_def)
  moreover have "same_world s u" using t(3) calculation(3) by (rule same_world_trans)
  ultimately show "\<exists>x c' H' t. exec E (Suc n) (P_try p q) (put c s) = (Ret x, put c' t) \<and> has_view c' H' t \<and> same_world s t \<and> Q x c' H'"
    by blast
qed

lemma made_in_step_below:
  assumes "H \<subseteq>\<^sub>m H1" and "made_in_step E f g i p j q w c H1 c' H'"
  shows "made_in_step E f g i p j q w c H c' H'"
proof -
  have "since H1 H' \<subseteq>\<^sub>m since H H'"
    using assms(1) by (auto simp: since_def map_le_def restrict_map_def dom_def split: if_splits)
  with assms show ?thesis
    unfolding made_in_step_def by (blast intro: in_step_mono map_le_trans)
qed

text \<open>The module with a list of two parameters.\<close>

lemma ends_param_value_sync:
  assumes c: "c i = Some p" "c j = Some q" "i \<noteq> j"
    and h: "H h1 = Some \<lparr>m_param = Some i, h_originator = og1\<rparr>" "H h2 = Some \<lparr>m_param = Some j, h_originator = og2\<rparr>"
    and unwatched: "unwatched p" "unwatched q"
    and conv: "pack E (p_type p) (m_value p) = (True, x)" "f x = Some y" "unpack E (p_type q) y = (True, w)"
    and functors: "\<And>k. body E (bind1 k) = sync_callback f k" "\<And>k. body E (bind2 k) = sync_callback g k"
    and N: "15 \<le> N"
  shows "ends c H (exec E N (param_value_sync f bind1 bind2 [h1, h2])) (\<lambda>b c' H'. b \<and> made_in_step E f g i p j q w c H c' H')"
proof -
  obtain n where n: "N = Suc (Suc (Suc n))" "12 \<le> n"
    using N by (intro that [of "N - 3"]) simp_all
  show ?thesis
    unfolding param_value_sync_def copy_vector.simps n(1)
  proof (rule ends_exec_copy [where H = H and h = h1 and c = c and i = i, OF h(1) _ c(1)]; (simp del: exec.simps)?)
    fix g1 assume g1: "g1 \<notin> dom H"
    let ?H1 = "H(g1 \<mapsto> \<lparr>m_param = Some i, h_originator = promoted E og1\<rparr>)"
    have h2: "?H1 h2 = Some \<lparr>m_param = Some j, h_originator = og2\<rparr>" using h g1 by auto
    show "ends c ?H1 (exec E (Suc (Suc n)) (P_call (On_handle h2 H_copy) (\<lambda>a. case a of
          A_address g \<Rightarrow> P_try (synch_values f bind1 bind2 g1 g) (\<lambda>r. case r of Inl e \<Rightarrow> P_throw e | Inr x \<Rightarrow> P_return True)
        | _ \<Rightarrow> P_abort))) (\<lambda>b c' H'. b \<and> made_in_step E f g i p j q w c H c' H')"
    proof (rule ends_exec_copy [where H = ?H1 and h = h2 and c = c and i = j, OF h2 _ c(2)]; (simp del: exec.simps fun_upd_apply)?)
      fix g2 assume g2: "g2 \<noteq> g1 \<and> g2 \<notin> dom H"
      let ?H2 = "?H1(g2 \<mapsto> \<lparr>m_param = Some j, h_originator = promoted E og2\<rparr>)"
      have le: "H \<subseteq>\<^sub>m ?H2" using g1 g2 by (auto simp: map_le_def)
      have "ends c ?H2 (exec E n (synch_values f bind1 bind2 g1 g2)) (\<lambda>b c' H'. b \<and> made_in_step E f g i p j q w c ?H2 c' H')"
        by (rule ends_synch_values [where H = ?H2, OF c _ _ unwatched conv functors n(2)]) (use g1 g2 in auto)
      then have "ends c ?H2 (exec E n (synch_values f bind1 bind2 g1 g2)) (\<lambda>b c1 H1.
          ends c1 H1 (exec E n (case Inr b of Inl e \<Rightarrow> P_throw e | Inr x \<Rightarrow> P_return True)) (\<lambda>b c' H'. b \<and> made_in_step E f g i p j q w c H c' H'))"
      proof (rule ends_mono)
        fix b c1 H1 assume "b \<and> made_in_step E f g i p j q w c ?H2 c1 H1"
        then have m: "made_in_step E f g i p j q w c H c1 H1" by (elim conjE made_in_step_below [OF le])
        obtain m' where "n = Suc m'" using n(2) by (cases n) auto
        then show "ends c1 H1 (exec E n (case Inr b of Inl e \<Rightarrow> P_throw e | Inr x \<Rightarrow> P_return True)) (\<lambda>b c' H'. b \<and> made_in_step E f g i p j q w c H c' H')"
          using m by (simp only: sum.case) (rule ends_runs [OF runs_exec_return], simp)
      qed
      then show "ends c ?H2 (exec E (Suc n) (P_try (synch_values f bind1 bind2 g1 g2) (\<lambda>r. case r of Inl e \<Rightarrow> P_throw e | Inr x \<Rightarrow> P_return True)))
          (\<lambda>b c' H'. b \<and> made_in_step E f g i p j q w c H c' H')" by (rule ends_exec_try)
    qed
  qed
qed
end
