(* ===== verification/Sync_Properties.thy ===== *)
theory Sync_Properties
  imports Sync_Setup Examples Complex_Main
begin

text \<open>
  Properties of synchronised parameters: one write followed through both callbacks, the life of a
  pair of parameters from \<open>synchValues\<close> on, and the conversion factors of ex12.
\<close>

section \<open>Units\<close>

text \<open>
  \<open>multiplyWithConversionFactor(parent_str, child_str)\<close> of ex12, with the factors as exact numbers.
  \<open>strrchr\<close> finds the last underscore; without one it returns NULL, from which no \<open>std::string\<close> may
  be built, and the result here is \<open>None\<close>. The strings end at their first NUL.
\<close>

definition strrchr :: "string \<Rightarrow> char \<Rightarrow> string option" where
  "strrchr s ch = (if ch \<in> set (c_str s) then Some (ch # rev (takeWhile (\<lambda>x. x \<noteq> ch) (rev (c_str s)))) else None)"

definition multiply_with_conversion_factor :: "string \<Rightarrow> string \<Rightarrow> rat option" where
  "multiply_with_conversion_factor parent_str child_str =
     (case strrchr parent_str (CHR ''_'') of
        None \<Rightarrow> None
      | Some s1 \<Rightarrow> (case strrchr child_str (CHR ''_'') of
          None \<Rightarrow> None
        | Some s2 \<Rightarrow> Some
            (if s1 = ''_Hz'' \<and> s2 = ''_Hz'' then 1
             else if s1 = ''_Hz'' \<and> s2 = ''_KHz'' then 1 / 1000
             else if s1 = ''_Hz'' \<and> s2 = ''_MHz'' then 1 / 1000000
             else if s1 = ''_KHz'' \<and> s2 = ''_Hz'' then 1000
             else if s1 = ''_KHz'' \<and> s2 = ''_KHz'' then 1
             else if s1 = ''_KHz'' \<and> s2 = ''_MHz'' then 1 / 1000
             else if s1 = ''_MHz'' \<and> s2 = ''_Hz'' then 1000000
             else if s1 = ''_MHz'' \<and> s2 = ''_KHz'' then 1000
             else if s1 = ''_MHz'' \<and> s2 = ''_MHz'' then 1
             else 0)))"

text \<open>The reference: a unit in hertz, and a factor that is a quotient of units.\<close>

fun unit_of :: "string \<Rightarrow> rat option" where
  "unit_of s = map_of [(''_Hz'', 1), (''_KHz'', 1000), (''_MHz'', 1000000)] s"

lemma conversion_factor_quotient:
  assumes "strrchr a (CHR ''_'') = Some s" and "strrchr b (CHR ''_'') = Some t"
  shows "multiply_with_conversion_factor a b =
     (case (unit_of s, unit_of t) of (Some x, Some y) \<Rightarrow> Some (x / y) | _ \<Rightarrow> Some 0)"
  using assms by (simp add: multiply_with_conversion_factor_def)

text \<open>So the two callbacks of a pair are inverse to each other, if both units are known.\<close>

lemma conversion_factor_inverse:
  assumes "multiply_with_conversion_factor a b = Some r" and "r \<noteq> 0"
  shows "multiply_with_conversion_factor b a = Some (1 / r)"
proof -
  obtain s t where st: "strrchr a (CHR ''_'') = Some s" "strrchr b (CHR ''_'') = Some t"
    using assms(1) by (auto simp: multiply_with_conversion_factor_def split: option.splits)
  with assms show ?thesis
    by (auto simp: conversion_factor_quotient simp del: unit_of.simps split: option.splits)
qed

text \<open>
  The constructor of \<open>ex12_param_value_sync_with_cf\<close>; \<open>factor\<close> takes an exact factor to the \<open>double\<close> that
  stands for it in the code.
\<close>

definition synch_by_names :: "('j, 'd) numbers \<Rightarrow> (rat \<Rightarrow> 'd) \<Rightarrow> ('d \<Rightarrow> hid \<Rightarrow> cb_id) \<Rightarrow> hid \<Rightarrow> hid \<Rightarrow> ('v, 'j) prog" where
  "synch_by_names D factor bind h g =
     P_call (On_handle h H_name) (\<lambda>a. case a of
       A_string parent_str \<Rightarrow> P_call (On_handle g H_name) (\<lambda>a. case a of
         A_string child_str \<Rightarrow>
           (case multiply_with_conversion_factor parent_str child_str of
              None \<Rightarrow> P_abort
            | Some conversion_factor \<Rightarrow> synch_values_with_cf D bind h g (factor conversion_factor))
       | _ \<Rightarrow> P_abort)
     | _ \<Rightarrow> P_abort)"

definition param_value_sync_with_cf :: "('j, 'd) numbers \<Rightarrow> (rat \<Rightarrow> 'd) \<Rightarrow> ('d \<Rightarrow> hid \<Rightarrow> cb_id) \<Rightarrow> hid list \<Rightarrow> ('v, 'j) prog" where
  "param_value_sync_with_cf D factor bind base_param_list =
     copy_vector base_param_list (\<lambda>gs. case gs of
       [] \<Rightarrow> P_return True
     | h # rest \<Rightarrow> synch_rest (synch_by_names D factor bind) h rest)"

section \<open>One write\<close>

text \<open>
  C13. One write to a parameter that is kept in step with another one. The callback writes the other
  parameter, whose callback writes the first one again in the middle of the first write; that write
  is neither refused nor does it run callbacks. So the call returns, the other parameter has the
  converted value, and the first one has not the value that was written but what came back, with the
  originators of the handles in the callbacks as the origins of both values. No handle is left, and
  nothing else has changed.
\<close>

theorem synchronised_write:
  assumes ok: "handles_ok s" and p: "params s i = Some p" and q: "params s j = Some q" and ij: "i \<noteq> j"
    and k1: "handles s k1 = Some \<lparr>m_param = Some i, h_originator = og1\<rparr>"
    and k2: "handles s k2 = Some \<lparr>m_param = Some j, h_originator = og2\<rparr>"
    and sp: "syncs E f k2 p" and sq: "syncs E g k1 q"
    and old: "pack E (p_type p) (m_value p) = (True, x0)" "pack E (p_type q) (m_value q) = (True, y0)"
    and new: "pack E (p_type p) v = (True, x)" "f x = Some y" "unpack E (p_type q) y = (True, w)"
    and ret: "pack E (p_type q) w = (True, y')" "g y' = Some x'" "unpack E (p_type p) x' = (True, v')"
    and N: "9 \<le> N"
  shows "\<exists>t. set_raw_value E (runner E N) N i v None og s = (Ret (), t)
    \<and> params t = (params s)(j \<mapsto> written w (promoted E og2) q, i \<mapsto> written v' (promoted E og1) p)
    \<and> handles t = handles s \<and> brokers t = brokers s \<and> reports t = reports s"
proof -
  let ?H = "pair_handles k1 i og1 k2 j og2"
  let ?c = "(params s)(j \<mapsto> written w (promoted E og2) q, i \<mapsto> written v' (promoted E og1) p)"
  obtain n where n: "N = Suc (Suc (Suc (Suc (Suc (Suc (Suc (Suc (Suc n))))))))" using N by (rule at_least_9)
  have "k1 \<noteq> k2" using k1 k2 ij by auto
  then have "runs (params s) ?H (set_raw_value E (runner E N) N i v None og) () ?c"
    unfolding n
    by (intro runs_sync_write [where c = "params s" and i = i and j = j and H = ?H, OF p q ij _ _ _ sp sq old new ret])
      (simp_all add: pair_handles_def)
  moreover have "?H \<subseteq>\<^sub>m handles s" using k1 k2 by (auto simp: pair_handles_def map_le_def)
  ultimately obtain k where k: "set_raw_value E (runner E N) N i v None og s = (Ret (), put ?c (bump k s))"
    using ok by (elim runs_world)
  moreover have "params (put ?c (bump k s)) = ?c"
    using p q ij by (auto simp: params_put with_handles_of_cong [of _ "written w (promoted E og2) q"]
        with_handles_of_cong [of _ "written v' (promoted E og1) p"] fun_eq_iff split: option.split)
  ultimately show ?thesis by simp
qed

text \<open>
  An environment for the example: the functor \<open>2 * k\<close> multiplies by 1000 and holds the handle \<open>k\<close>, the
  functor \<open>2 * k + 1\<close> divides by 1000; so a parameter in kilohertz and one in hertz, as integers.
\<close>

definition ex_scaled_env :: "(int, int) env" where
  "ex_scaled_env = (ex_env True)\<lparr>body := \<lambda>cb. if even cb then sync_callback (\<lambda>x. Some (1000 * x)) (cb div 2)
      else sync_callback (\<lambda>x. Some (x div 1000)) (cb div 2)\<rparr>"

definition ex_clock :: "string \<Rightarrow> hid \<Rightarrow> cb_id \<Rightarrow> int \<Rightarrow> (int, int) param" where
  "ex_clock nm h cb v =
     (untyped_register_callback Post_write (post_write_functor cb) ex_other
       (fresh_param nm ''a clock'' ex_broker_handle ex_originator 0 CCI_MUTABLE_PARAM v))\<lparr>m_param_handles := [h]\<rparr>"

definition ex_clocks :: "(int, int) world" where
  "ex_clocks =
     \<lparr>reports = [], params = [1 \<mapsto> ex_clock ''c_KHz'' 3 8 2, 2 \<mapsto> ex_clock ''c_Hz'' 4 7 2000],
      handles = [3 \<mapsto> \<lparr>m_param = Some 1, h_originator = ex_other\<rparr>, 4 \<mapsto> \<lparr>m_param = Some 2, h_originator = ex_other\<rparr>],
      brokers = Map.empty, m_brokers = Map.empty, sc_names = {}, next_address = 5\<rparr>"

lemma ex_clocks_ok: "handles_ok ex_clocks"
  by (auto simp: handles_ok_def ex_clocks_def ex_clock_def fresh_def fresh_param_def split: if_splits)

lemma ex_clock_syncs: "syncs ex_scaled_env (\<lambda>x. Some (1000 * x)) 4 (ex_clock nm h 8 v)"
    "syncs ex_scaled_env (\<lambda>x. Some (x div 1000)) 3 (ex_clock nm h 7 v)"
proof -
  have one: "one_post_write cb ex_other (ex_clock nm h cb v)" for cb
    by (simp add: one_post_write_def no_callback_def ex_clock_def untyped_register_callback_def map_vec_def
        fresh_param_def Lifecycle.no_callbacks_def callbacks_of.simps map_callbacks.simps refusal_def is_locked_def
        new_callback_def post_write_functor_def)
  show "syncs ex_scaled_env (\<lambda>x. Some (1000 * x)) 4 (ex_clock nm h 8 v)"
    unfolding syncs_def by (rule exI [of _ 8], rule exI [of _ ex_other]) (use one in \<open>simp add: ex_scaled_env_def\<close>)
  show "syncs ex_scaled_env (\<lambda>x. Some (x div 1000)) 3 (ex_clock nm h 7 v)"
    unfolding syncs_def by (rule exI [of _ 7], rule exI [of _ ex_other]) (use one in \<open>simp add: ex_scaled_env_def\<close>)
qed

theorem synchronised_write_witness:
  "\<exists>t. set_raw_value ex_scaled_env (runner ex_scaled_env 9) 9 2 1500 None ex_originator ex_clocks = (Ret (), t)
    \<and> map_option m_value (params t 1) = Some 1 \<and> map_option m_value (params t 2) = Some 1000"
proof -
  have p: "params ex_clocks 2 = Some (ex_clock ''c_Hz'' 4 7 2000)" "params ex_clocks 1 = Some (ex_clock ''c_KHz'' 3 8 2)"
    and k: "handles ex_clocks 4 = Some \<lparr>m_param = Some 2, h_originator = ex_other\<rparr>"
      "handles ex_clocks 3 = Some \<lparr>m_param = Some 1, h_originator = ex_other\<rparr>"
    by (simp_all add: ex_clocks_def)
  have conv: "pack ex_scaled_env T u = (True, u)" "0 \<le> u \<Longrightarrow> unpack ex_scaled_env T u = (True, u)" for T u
    by (simp_all add: ex_scaled_env_def ex_env_def)
  show ?thesis
    using synchronised_write [OF ex_clocks_ok p _ k ex_clock_syncs(2,1) conv(1) conv(1) conv(1) refl conv(2) conv(1) refl conv(2),
      where N = 9 and v = 1500 and og = ex_originator] by auto
qed

section \<open>A pair of parameters from its beginning\<close>

text \<open>
  C9. Two parameters of the same type, without callbacks, that the module of ex11 has put in step stay equal:
  after any sequence of writes of values that convert to \<open>cci_value\<close> and back, to either of them, by their
  owners or through any handles, both have the value
  that was written last, and without a write the value of the first one. No write is refused, nothing
  is reported, and no other parameter has changed its value.
\<close>

theorem synchronised_parameters:
  assumes ok: "handles_ok s" and p: "params s i = Some p" and q: "params s j = Some q" and ij: "i \<noteq> j"
    and h: "handles s h1 = Some d1" "m_param d1 = Some i" "handles s h2 = Some d2" "m_param d2 = Some j"
    and unwatched: "unwatched p" "unwatched q" and T: "p_type q = p_type p"
    and functors: "\<And>k. body E (bind1 k) = sync_callback Some k" "\<And>k. body E (bind2 k) = sync_callback Some k"
    and vs: "\<And>v. v \<in> set (m_value p # vs) \<Longrightarrow> convertible E (p_type p) v"
    and as: "list_all2 (writes_value E (handles s) i j (p_type p)) vs as" and N: "15 \<le> N" and M: "length as + 9 < M"
  shows "\<exists>u. bindM (exec E N (param_value_sync Some bind1 bind2 [h1, h2])) (\<lambda>_. exec E M (write_all as)) s = (Ret True, u)
    \<and> map_option m_value (params u i) = Some (last (m_value p # vs))
    \<and> map_option m_value (params u j) = Some (last (m_value p # vs))
    \<and> (\<forall>l. l \<notin> {i, j} \<longrightarrow> map_option m_value (params u l) = map_option m_value (params s l))
    \<and> reports u = reports s"
proof -
  let ?H = "handles s" and ?T = "p_type p" and ?v = "m_value p"
  have view: "has_view (params s) ?H s" using ok by (simp add: has_view_def)
  obtain x where x: "pack E ?T ?v = (True, x)" "unpack E ?T x = (True, ?v)" using vs [of ?v] by (auto simp: convertible_def)
  have d: "d1 = \<lparr>m_param = Some i, h_originator = h_originator d1\<rparr>" "d2 = \<lparr>m_param = Some j, h_originator = h_originator d2\<rparr>"
    using h by (metis param_handle.surjective unit.exhaust)+
  have "ends (params s) ?H (exec E N (param_value_sync Some bind1 bind2 [h1, h2]))
      (\<lambda>b c' H'. b \<and> made_in_step E Some Some i p j q ?v (params s) ?H c' H')"
    by (rule ends_param_value_sync [where H = "handles s" and ?og1.0 = "h_originator d1" and ?og2.0 = "h_originator d2",
        OF p q ij _ _ unwatched x(1) refl _ functors N]) (use h d T x in auto)
  then obtain b c' H' t where t: "exec E N (param_value_sync Some bind1 bind2 [h1, h2]) (put (params s) s) = (Ret b, put c' t)"
    "has_view c' H' t" "same_world s t" "b \<and> made_in_step E Some Some i p j q ?v (params s) ?H c' H'"
    using view by (rule endsE)
  obtain p' q' where c': "c' = (params s)(i \<mapsto> p', j \<mapsto> q')" and HH: "?H \<subseteq>\<^sub>m H'"
    and st: "in_step E Some Some i p' j q' (since ?H H')"
    and vals: "m_value p' = ?v" "m_value q' = ?v" "p_type p' = ?T" "p_type q' = ?T" "\<not> fast_write p'" "\<not> fast_write q'"
    using t(4) T unfolding made_in_step_def by auto
  have "in_step E Some Some i p' j q' H'"
    by (rule in_step_mono [OF st]) (simp add: since_def map_le_def)
  then have level: "level E ?T H' i j ?v ?v c'"
    unfolding level_def using vals ij c' by (intro exI [of _ p'] exI [of _ q']) simp
  have fin: "finite (dom H')"
  proof (rule finite_subset)
    show "dom H' \<subseteq> {..<next_address t}"
      using t(2) by (force simp: has_view_def handles_ok_def fresh_def not_less [symmetric] dest: map_le_Some)
  qed simp
  have as': "list_all2 (writes_value E H' i j ?T) vs as"
    using as by (rule list_all2_mono) (unfold writes_value_def, blast intro: map_le_Some [OF HH])
  obtain c'' where c'': "runs c' H' (exec E M (write_all as)) True c''" "level E ?T H' i j (last (?v # vs)) (last (?v # vs)) c''"
    "\<And>l. l \<notin> {i, j} \<Longrightarrow> c'' l = c' l"
    using runs_write_all [OF as' ij fin level _ M] vs by blast
  obtain k where k: "exec E M (write_all as) (put c' t) = (Ret True, put c'' (bump k t))" "dom c'' = dom c'"
    using c''(1) t(2) by (rule runsE)
  have dom: "dom c'' = dom (params t)" using k(2) t(2) by (simp add: has_view_def)
  have vals: "map_option m_value (params (put c'' (bump k t)) l) = map_option m_value (c'' l)" for l
    using dom by (cases "c'' l"; cases "params t l") (auto simp: params_put)
  have "bindM (exec E N (param_value_sync Some bind1 bind2 [h1, h2])) (\<lambda>_. exec E M (write_all as)) s
      = (Ret True, put c'' (bump k t))"
    using t(1) k(1) by (simp add: put_params bindM_def)
  moreover have "reports (put c'' (bump k t)) = reports s" using t(3) by (simp add: same_world_def)
  moreover have "map_option m_value (c'' i) = Some (last (?v # vs))" "map_option m_value (c'' j) = Some (last (?v # vs))"
    using c''(2) by (auto simp: level_def)
  moreover have "map_option m_value (c'' l) = map_option m_value (params s l)" if "l \<notin> {i, j}" for l
    using c''(3) [OF that] that by (simp add: c')
  ultimately show ?thesis
    by (intro exI [of _ "put c'' (bump k t)"]) (simp only: vals, blast)
qed

text \<open>Two fresh parameters of integers, a handle of each, and the functors of ex11.\<close>

definition ex_equal_env :: "(int, int) env" where
  "ex_equal_env = (ex_env True)\<lparr>body := \<lambda>cb. sync_callback Some (cb div 2)\<rparr>"

definition ex_pair_param :: "string \<Rightarrow> hid \<Rightarrow> int \<Rightarrow> (int, int) param" where
  "ex_pair_param nm h v = (fresh_param nm ''a clock'' ex_broker_handle ex_originator 0 CCI_MUTABLE_PARAM v)\<lparr>m_param_handles := [h]\<rparr>"

definition ex_pair :: "(int, int) world" where
  "ex_pair =
     \<lparr>reports = [], params = [1 \<mapsto> ex_pair_param ''a'' 3 7, 2 \<mapsto> ex_pair_param ''b'' 4 8],
      handles = [3 \<mapsto> \<lparr>m_param = Some 1, h_originator = ex_other\<rparr>, 4 \<mapsto> \<lparr>m_param = Some 2, h_originator = ex_other\<rparr>],
      brokers = Map.empty, m_brokers = Map.empty, sc_names = {}, next_address = 5\<rparr>"

lemma ex_pair_ok: "handles_ok ex_pair"
  by (auto simp: handles_ok_def ex_pair_def ex_pair_param_def fresh_def fresh_param_def split: if_splits)

lemma ex_pair_unwatched: "unwatched (ex_pair_param nm h v)"
proof -
  have "no_callback k (ex_pair_param nm h v)" for k
    by (cases k) (simp_all add: no_callback_def callbacks_of.simps ex_pair_param_def fresh_param_def Lifecycle.no_callbacks_def)
  then show ?thesis by (simp add: unwatched_def refusal_def is_locked_def ex_pair_param_def fresh_param_def)
qed

theorem synchronised_parameters_witness:
  "\<exists>u. bindM (exec ex_equal_env 15 (param_value_sync Some (\<lambda>k. 2 * k) (\<lambda>k. 2 * k + 1) [3, 4]))
      (\<lambda>_. exec ex_equal_env 12 (write_all [On_handle 4 (H_set_cci_value 5000 None), On_param 1 (Set_value 12000)])) ex_pair
      = (Ret True, u)
    \<and> map_option m_value (params u 1) = Some 12000 \<and> map_option m_value (params u 2) = Some 12000"
proof -
  have p: "params ex_pair 1 = Some (ex_pair_param ''a'' 3 7)" "params ex_pair 2 = Some (ex_pair_param ''b'' 4 8)"
    and h: "handles ex_pair 3 = Some \<lparr>m_param = Some 1, h_originator = ex_other\<rparr>"
      "handles ex_pair 4 = Some \<lparr>m_param = Some 2, h_originator = ex_other\<rparr>"
    by (simp_all add: ex_pair_def)
  have same: "p_type (ex_pair_param ''b'' 4 8) = p_type (ex_pair_param ''a'' 3 7)"
    by (simp add: ex_pair_param_def fresh_param_def)
  have functors: "body ex_equal_env (2 * k) = sync_callback Some k" "body ex_equal_env (2 * k + 1) = sync_callback Some k" for k
    by (simp_all add: ex_equal_env_def)
  have conv: "convertible ex_equal_env (p_type (ex_pair_param ''a'' 3 7)) v" if "v \<in> set (m_value (ex_pair_param ''a'' 3 7) # [5000, 12000])" for v
    using that by (auto simp: convertible_def ex_equal_env_def ex_env_def ex_pair_param_def fresh_param_def)
  have as: "list_all2 (writes_value ex_equal_env (handles ex_pair) 1 2 (p_type (ex_pair_param ''a'' 3 7))) [5000, 12000]
      [On_handle 4 (H_set_cci_value 5000 None), On_param 1 (Set_value 12000)]"
    by (auto simp: writes_value_def ex_pair_def ex_equal_env_def ex_env_def)
  show ?thesis
    using synchronised_parameters [OF ex_pair_ok p _ h(1) _ h(2) _ ex_pair_unwatched ex_pair_unwatched same functors conv as,
      where N = 15 and M = 12] by auto
qed

end
