(* ===== verification/Lock_Threads.thy ===== *)
theory Lock_Threads
  imports Param_Spec Client Examples
begin

text \<open>
  The two modules of src/examples/cci/ex13_Parameter_Value_Locking: a thread of the owner of a parameter
  and one of a configurator, which holds a handle of it, lock, unlock and write the parameter. SystemC
  runs the threads in the order of their waits.
\<close>

section \<open>Threads\<close>

text \<open>
  A thread that runs for ever, as what it does between one wait and the next, with the length of the
  wait in nanoseconds; and the time at which it goes on. What a thread shows is the result.
\<close>

type_synonym ('s, 'e, 'a) activity = "('s, 'e, 'a list) comp \<times> nat"
type_synonym ('s, 'e, 'a) thread = "nat \<times> ('s, 'e, 'a) activity list"

fun after_wait :: "('s, 'e, 'a) thread \<Rightarrow> ('s, 'e, 'a) thread" where
  "after_wait (t, []) = (t, [])"
| "after_wait (t, (act, delay) # acts) = (t + delay, acts @ [(act, delay)])"

fun activity_of :: "('s, 'e, 'a) thread \<Rightarrow> ('s, 'e, 'a list) comp" where
  "activity_of (t, []) = retM []"
| "activity_of (t, (act, delay) # acts) = act"

text \<open>
  The order of the turns is up to SystemC and not part of the repository: it is an argument, the list of
  the threads that get the turn. What the standard says of it, for \<open>sc_start\<close> up to the time \<open>until\<close>: a
  thread goes on at the time at which its wait ends and no thread before another one whose wait ends
  earlier; every thread whose wait ends before \<open>until\<close> gets its turn, and none whose wait ends later. Which of
  several threads of the same time goes first is left open here, and so is whether those at \<open>until\<close>
  itself go on.
\<close>

fun obeys_waits :: "nat \<Rightarrow> ('s, 'e, 'a) thread list \<Rightarrow> nat list \<Rightarrow> bool" where
  "obeys_waits until ths [] \<longleftrightarrow> (\<forall>th \<in> set ths. until \<le> fst th)"
| "obeys_waits until ths (j # js) \<longleftrightarrow> j < length ths \<and> fst (ths ! j) \<le> until
     \<and> (\<forall>th \<in> set ths. fst (ths ! j) \<le> fst th) \<and> obeys_waits until (ths[j := after_wait (ths ! j)]) js"

text \<open>What the threads do in that order; an exception that leaves a thread ends the simulation.\<close>

fun run_turns :: "('s, 'e, 'a) thread list \<Rightarrow> nat list \<Rightarrow> ('s, 'e, 'a list) comp" where
  "run_turns ths [] = retM []"
| "run_turns ths (j # js) =
     bindM (activity_of (ths ! j)) (\<lambda>shown.
       bindM (run_turns (ths[j := after_wait (ths ! j)]) js) (\<lambda>rest. retM (shown @ rest)))"

fun script :: "('s, 'e, 'a list) comp list \<Rightarrow> ('s, 'e, 'a list) comp" where
  "script [] = retM []"
| "script (m # ms) = bindM m (\<lambda>shown. bindM (script ms) (\<lambda>rest. retM (shown @ rest)))"

definition quietly :: "('s, 'e, 'b) comp \<Rightarrow> ('s, 'e, 'a list) comp" where
  "quietly m = bindM m (\<lambda>_. retM [])"

section \<open>The owner\<close>

text \<open>What the modules show: the state of the lock with the value, reports that were caught, and notes.\<close>

datatype ('v, 'j) line =
    Owner_status bool 'v
  | Owner_caught sc_report
  | Cfgr_status bool 'j
  | Cannot_assign
  | Locked_with_password bool
  | Cfgr_caught sc_report

text \<open>\<open>try { ... } catch (const sc_core::sc_report& e) { ... }\<close>\<close>

definition catching :: "(sc_report \<Rightarrow> 'a) \<Rightarrow> ('v, 'j, unit) cci \<Rightarrow> ('v, 'j, 'a list) cci" where
  "catching line m = tryM m (\<lambda>r. case r of
     Inl (Sc_report e) \<Rightarrow> retM [line e]
   | Inl e \<Rightarrow> throwM e
   | Inr _ \<Rightarrow> retM [])"

definition owner_status :: "('v, 'j) env \<Rightarrow> nat \<Rightarrow> pid \<Rightarrow> ('v, 'j, ('v, 'j) line list) cci" where
  "owner_status E N i =
     bindM (read_param i is_locked) (\<lambda>b. bindM (get_value E (runner E N) N i) (\<lambda>v. retM [Owner_status b v]))"

text \<open>
  \<open>lit n\<close> is the \<open>int\<close> \<open>n\<close> as a value of the parameter, and \<open>key\<close> the address of the member that is the
  password.
\<close>

definition owner_locks :: "('v, 'j) env \<Rightarrow> nat \<Rightarrow> (int \<Rightarrow> 'v) \<Rightarrow> pid \<Rightarrow> ('v, 'j, ('v, 'j) line list) cci" where
  "owner_locks E N lit int_param = script
     [quietly (on_param int_param (lock int_param None)),
      owner_status E N int_param,
      catching Owner_caught (assign_value E (runner E N) N int_param (lit 1)),
      owner_status E N int_param]"

definition owner_unlocks :: "('v, 'j) env \<Rightarrow> nat \<Rightarrow> pid \<Rightarrow> ('v, 'j, ('v, 'j) line list) cci" where
  "owner_unlocks E N int_param = script
     [quietly (on_param int_param (unlock int_param None)),
      owner_status E N int_param]"

definition owner_uses_key :: "('v, 'j) env \<Rightarrow> nat \<Rightarrow> (int \<Rightarrow> 'v) \<Rightarrow> address \<Rightarrow> pid \<Rightarrow> ('v, 'j, ('v, 'j) line list) cci" where
  "owner_uses_key E N lit key int_param = script
     [owner_status E N int_param,
      quietly (on_param int_param (lock int_param (Some key))),
      owner_status E N int_param,
      quietly (set_value_pwd E (runner E N) N int_param (lit 4) (Some key)),
      owner_status E N int_param]"

definition run_owner :: "('v, 'j) env \<Rightarrow> nat \<Rightarrow> (int \<Rightarrow> 'v) \<Rightarrow> address \<Rightarrow> pid \<Rightarrow> (('v, 'j) world, exn, ('v, 'j) line) activity list" where
  "run_owner E N lit key int_param =
     [(owner_locks E N lit int_param, 5), (owner_unlocks E N int_param, 5), (owner_uses_key E N lit key int_param, 30)]"

section \<open>The configurator\<close>

definition cfgr_status :: "('v, 'j) env \<Rightarrow> nat \<Rightarrow> hid \<Rightarrow> ('v, 'j, ('v, 'j) line list) cci" where
  "cfgr_status E N h =
     bindM (handle_query E h is_locked) (\<lambda>b.
       bindM (handle_get_cci_value E (runner E N) N h) (\<lambda>x. retM [Cfgr_status b x]))"

definition cfgr_waits :: "('v, 'j, ('v, 'j) line list) cci" where
  "cfgr_waits = retM []"

definition cfgr_looks :: "('v, 'j) env \<Rightarrow> nat \<Rightarrow> (int \<Rightarrow> 'j) \<Rightarrow> hid \<Rightarrow> ('v, 'j, ('v, 'j) line list) cci" where
  "cfgr_looks E N cci int_param_handle = script
     [cfgr_status E N int_param_handle,
      bindM (handle_query E int_param_handle is_locked) (\<lambda>b.
        if b then retM [Cannot_assign]
        else quietly (handle_set_cci_value E (runner E N) N int_param_handle (cci 2) None)),
      cfgr_status E N int_param_handle]"

definition cfgr_uses :: "('v, 'j) env \<Rightarrow> nat \<Rightarrow> (int \<Rightarrow> 'j) \<Rightarrow> address \<Rightarrow> hid \<Rightarrow> ('v, 'j, ('v, 'j) line list) cci" where
  "cfgr_uses E N cci psswd int_param_handle = script
     [cfgr_status E N int_param_handle,
      quietly (handle_set_cci_value E (runner E N) N int_param_handle (cci 3) None),
      cfgr_status E N int_param_handle,
      quietly (handle_lock E int_param_handle None),
      cfgr_status E N int_param_handle,
      quietly (handle_unlock E int_param_handle None),
      cfgr_status E N int_param_handle,
      bindM (handle_lock E int_param_handle (Some psswd)) (\<lambda>ok. retM [Locked_with_password ok]),
      cfgr_status E N int_param_handle,
      catching Cfgr_caught (handle_set_cci_value E (runner E N) N int_param_handle (cci 4) None),
      cfgr_status E N int_param_handle,
      quietly (handle_unlock E int_param_handle (Some psswd)),
      cfgr_status E N int_param_handle]"

definition run_mutable_cfgr :: "('v, 'j) env \<Rightarrow> nat \<Rightarrow> (int \<Rightarrow> 'j) \<Rightarrow> address \<Rightarrow> hid \<Rightarrow> (('v, 'j) world, exn, ('v, 'j) line) activity list" where
  "run_mutable_cfgr E N cci psswd int_param_handle =
     [(cfgr_waits, 2), (cfgr_looks E N cci int_param_handle, 5), (cfgr_uses E N cci psswd int_param_handle, 50)]"

text \<open>
  The constructors: the owner builds the parameter and shows its state, and the configurator asks the
  broker for a handle, of which it notes whether it is valid.
\<close>

definition new_ex13_owner :: "('v, 'j) env \<Rightarrow> nat \<Rightarrow> tid \<Rightarrow> (int \<Rightarrow> 'v) \<Rightarrow> ('v, 'j, pid \<times> ('v, 'j) line list) cci" where
  "new_ex13_owner E N T lit =
     bindM (default_originator E) (\<lambda>og.
       bindM (new_param E (runner E N) N ''mutable_int_param'' (lit 0) T CCI_MUTABLE_PARAM CCI_RELATIVE_NAME None og []) (\<lambda>i.
         bindM (owner_status E N i) (\<lambda>shown. retM (i, shown))))"

definition new_ex13_configurator :: "('v, 'j) env \<Rightarrow> nat \<Rightarrow> ('v, 'j, hid \<times> bool) cci" where
  "new_ex13_configurator E N =
     bindM (cci_get_broker E N) (\<lambda>m_broker.
       bindM (handle_broker_get_param_handle N m_broker ''param_owner.mutable_int_param'') (\<lambda>h.
         bindM (read_handle h is_valid) (\<lambda>valid. retM (h, valid))))"

section \<open>What the calls do\<close>

text \<open>
  A parameter without callbacks that is not immutable, with the key \<open>k\<close> of its lock and the value \<open>v\<close>,
  and a handle of it.
\<close>

definition lockable :: "tid \<Rightarrow> address option \<Rightarrow> 'v \<Rightarrow> ('v, 'j) param \<Rightarrow> bool" where
  "lockable T k v p \<longleftrightarrow> (\<forall>j. vec (callbacks_of j p) = [] \<and> \<not> oncall (callbacks_of j p))
     \<and> p_mutability p \<noteq> CCI_IMMUTABLE_PARAM \<and> p_type p = T \<and> m_lock_pwd p = k \<and> m_value p = v
     \<and> (is_locked p \<longrightarrow> \<not> fast_write p)"

definition shared :: "pid \<Rightarrow> hid \<Rightarrow> tid \<Rightarrow> address option \<times> 'v \<Rightarrow> ('v, 'j) world \<Rightarrow> bool" where
  "shared i h T st s \<longleftrightarrow> (\<exists>p. params s i = Some p \<and> lockable T (fst st) (snd st) p)
     \<and> (\<exists>d. handles s h = Some d \<and> m_param d = Some i)"

lemma sharedE:
  assumes "shared i h T (k, v) s"
  obtains p d where "params s i = Some p" and "lockable T k v p" and "handles s h = Some d" and "m_param d = Some i"
  using assms by (auto simp: shared_def)

lemma shared_map_param:
  assumes "shared i h T st s" and "\<And>p. lockable T (fst st) (snd st) p \<Longrightarrow> lockable T k v (f p)"
  shows "shared i h T (k, v) (map_param i f s)"
  using assms by (auto simp: shared_def map_param_def)

text \<open>An operation with its outcome, from one state of the lock and value to another.\<close>

definition goes :: "pid \<Rightarrow> hid \<Rightarrow> tid \<Rightarrow> address option \<times> 'v \<Rightarrow> ('v, 'j, 'a) cci \<Rightarrow> (exn, 'a) outcome \<Rightarrow> address option \<times> 'v \<Rightarrow> bool" where
  "goes i h T st m r st' \<longleftrightarrow> (\<forall>s. shared i h T st s \<longrightarrow> (\<exists>t. m s = (r, t) \<and> shared i h T st' t))"

lemma goesI:
  fixes m :: "('v, 'j, 'a) cci"
  assumes "\<And>s p d. params s i = Some p \<Longrightarrow> lockable T k v p \<Longrightarrow> handles s h = Some d \<Longrightarrow> m_param d = Some i \<Longrightarrow>
    shared i h T (k, v) s \<Longrightarrow> \<exists>t. m s = (r, t) \<and> shared i h T st' t"
  shows "goes i h T (k, v) m r st'"
  unfolding goes_def
proof (intro allI impI)
  fix s :: "('v, 'j) world" assume s: "shared i h T (k, v) s"
  then show "\<exists>t. m s = (r, t) \<and> shared i h T st' t" by (rule sharedE) (rule assms [OF _ _ _ _ s])
qed

lemma goes_bindM:
  assumes "goes i h T st m (Ret x) st1" and "goes i h T st1 (f x) r st2"
  shows "goes i h T st (bindM m f) r st2"
  using assms unfolding goes_def bindM_def by fastforce

lemma goes_bindM_Exc:
  assumes "goes i h T st m (Exc e) st1"
  shows "goes i h T st (bindM m f) (Exc e) st1"
  using assms unfolding goes_def bindM_def by fastforce

lemma goes_retM: "goes i h T st (retM x) (Ret x) st"
  by (simp add: goes_def)

lemma goes_quietly: "goes i h T st m (Ret x) st1 \<Longrightarrow> goes i h T st (quietly m) (Ret []) st1"
  unfolding quietly_def by (rule goes_bindM) (assumption, rule goes_retM)

lemma goes_quietly_Exc: "goes i h T st m (Exc e) st1 \<Longrightarrow> goes i h T st (quietly m) (Exc e) st1"
  unfolding quietly_def by (rule goes_bindM_Exc)

lemma goes_script:
  assumes "goes i h T st m (Ret xs) st1" and "goes i h T st1 (script ms) (Ret ys) st2"
  shows "goes i h T st (script (m # ms)) (Ret (xs @ ys)) st2"
  unfolding script.simps by (rule goes_bindM [OF assms(1)], rule goes_bindM [OF assms(2)], rule goes_retM)

lemma goes_script_Nil: "goes i h T st (script []) (Ret []) st"
  by (simp add: goes_retM del: retM_apply)

lemma goes_script_Exc:
  "goes i h T st m (Exc e) st1 \<Longrightarrow> goes i h T st (script (m # ms)) (Exc e) st1"
  "goes i h T st m (Ret xs) st1 \<Longrightarrow> goes i h T st1 (script ms) (Exc e) st2 \<Longrightarrow> goes i h T st (script (m # ms)) (Exc e) st2"
  unfolding script.simps by (rule goes_bindM_Exc, assumption) (rule goes_bindM, assumption, rule goes_bindM_Exc)

lemma goes_catching:
  assumes "goes i h T st m (Exc (Sc_report e)) st1"
  shows "goes i h T st (catching line m) (Ret [line e]) st1"
  using assms unfolding goes_def catching_def tryM_def by fastforce

lemma goes_handled:
  fixes f :: "pid \<Rightarrow> originator \<Rightarrow> ('v, 'j, 'a) cci"
  assumes "\<And>og. goes i h T st (f i og) r st'"
  shows "goes i h T st (handled E h f) r st'"
  unfolding goes_def
proof (intro allI impI)
  fix s :: "('v, 'j) world" assume s: "shared i h T st s"
  then obtain d where d: "handles s h = Some d" "m_param d = Some i" by (auto simp: shared_def)
  then have "handled E h f s = f i (h_originator d) s"
    by (simp add: handled_def check_is_valid_def is_valid_def bindM_def)
  with assms s show "\<exists>t. handled E h f s = (r, t) \<and> shared i h T st' t" by (simp add: goes_def)
qed

text \<open>Locks and their queries.\<close>

lemma goes_read:
  assumes "\<And>p. lockable T k v p \<Longrightarrow> f p = x"
  shows "goes i h T (k, v) (read_param i f) (Ret x) (k, v)"
  by (rule goesI) (use assms in simp)

lemma goes_is_locked: "goes i h T (k, v) (read_param i is_locked) (Ret (k \<noteq> None)) (k, v)"
  by (rule goes_read) (simp add: lockable_def is_locked_def)

lemma goes_on_param:
  fixes f :: "('v, 'j) param \<Rightarrow> 'a \<times> ('v, 'j) param"
  assumes "\<And>p. lockable T k v p \<Longrightarrow> fst (f p) = x \<and> lockable T k' v (snd (f p))"
  shows "goes i h T (k, v) (on_param i f) (Ret x) (k', v)"
proof (rule goesI)
  fix s :: "('v, 'j) world" and p assume p: "params s i = Some p" "lockable T k v p" and s: "shared i h T (k, v) s"
  have "shared i h T (k', v) (map_param i (\<lambda>_. snd (f p)) s)"
    by (rule shared_map_param [OF s]) (use assms p in blast)
  with assms p show "\<exists>t. on_param i f s = (Ret x, t) \<and> shared i h T (k', v) t"
    by (simp add: on_param_Some)
qed

lemma goes_lock:
  assumes "k = None \<or> k = Some (case pwd of None \<Rightarrow> i | Some a \<Rightarrow> a)"
  shows "goes i h T (k, v) (on_param i (lock i pwd)) (Ret True) (Some (case pwd of None \<Rightarrow> i | Some a \<Rightarrow> a), v)"
  by (rule goes_on_param)
    (use assms in \<open>auto simp: lock_def untyped_lock_def lockable_def Let_def is_locked_def split: option.splits; case_tac j; simp add: callbacks_of.simps\<close>)

lemma goes_lock_held:
  assumes "k \<noteq> None" "k \<noteq> Some (case pwd of None \<Rightarrow> i | Some a \<Rightarrow> a)"
  shows "goes i h T (k, v) (on_param i (lock i pwd)) (Ret False) (k, v)"
  by (rule goes_on_param)
    (use assms in \<open>auto simp: lock_def untyped_lock_def lockable_def Let_def is_locked_def split: option.splits; case_tac j; simp add: callbacks_of.simps\<close>)

lemma goes_unlock:
  assumes "k = Some (case pwd of None \<Rightarrow> i | Some a \<Rightarrow> a)"
  shows "goes i h T (k, v) (on_param i (unlock i pwd)) (Ret True) (None, v)"
  by (rule goes_on_param)
    (use assms in \<open>auto simp: unlock_def lockable_def Let_def is_locked_def split: option.splits; case_tac j; simp add: callbacks_of.simps\<close>)

lemma goes_unlock_other:
  assumes "k \<noteq> Some (case pwd of None \<Rightarrow> i | Some a \<Rightarrow> a)"
  shows "goes i h T (k, v) (on_param i (unlock i pwd)) (Ret False) (k, v)"
  by (rule goes_on_param) (use assms in \<open>auto simp: unlock_def lockable_def Let_def split: option.splits\<close>)


text \<open>Reads and writes.\<close>

lemma lockable_callbacks:
  assumes "lockable T k v p"
  shows "vec (callbacks_of j p) = []" "\<not> oncall (callbacks_of j p)" and "write_quiet p"
  using assms by (simp_all add: lockable_def write_quiet_def)

lemma lockable_updates:
  assumes "lockable T k v p"
  shows "lockable T k v (update_fast_read p)" and "lockable T k u (update_fast_write E og (write_param u og p))"
proof -
  have "callbacks_of j (update_fast_read p) = callbacks_of j p"
    and "callbacks_of j (update_fast_write E og (write_param u og p)) = callbacks_of j p" for j
    by (cases j; simp add: callbacks_of.simps update_fast_read_def update_fast_write_def write_param_def)+
  with assms show "lockable T k v (update_fast_read p)" "lockable T k u (update_fast_write E og (write_param u og p))"
    unfolding lockable_def by (simp_all add: update_fast_read_def update_fast_write_def write_param_def is_locked_def)
qed

lemma goes_get_raw:
  fixes E :: "('v, 'j) env"
  shows "goes i h T (k, v) (get_raw_value E run (Suc n) i og) (Ret v) (k, v)"
proof (rule goesI)
  fix s :: "('v, 'j) world" and p assume p: "params s i = Some p" "lockable T k v p" and s: "shared i h T (k, v) s"
  have "shared i h T (k, v) (map_param i update_fast_read s)"
    by (rule shared_map_param [OF s]) (simp add: lockable_updates)
  with get_raw_value_quiet [OF p(1), of E run n og] lockable_callbacks [OF p(2)] p(2)
  show "\<exists>t. get_raw_value E run (Suc n) i og s = (Ret v, t) \<and> shared i h T (k, v) t"
    by (simp add: lockable_def)
qed

lemma goes_get_value:
  fixes E :: "('v, 'j) env"
  shows "goes i h T (k, v) (get_value E run (Suc n) i) (Ret v) (k, v)"
proof (rule goesI)
  fix s :: "('v, 'j) world" and p assume p: "params s i = Some p" "lockable T k v p" and s: "shared i h T (k, v) s"
  show "\<exists>t. get_value E run (Suc n) i s = (Ret v, t) \<and> shared i h T (k, v) t"
    using p s goes_get_raw [of i h T k v E run n "get_originator p"]
    by (auto simp: get_value_def bindM_def lockable_def goes_def)
qed

lemma goes_write:
  fixes E :: "('v, 'j) env"
  assumes "pwd = k"
  shows "goes i h T (k, v) (set_raw_value E run (Suc n) i u pwd og) (Ret ()) (k, u)"
proof (rule goesI)
  fix s :: "('v, 'j) world" and p assume p: "params s i = Some p" "lockable T k v p" and s: "shared i h T (k, v) s"
  have "refusal p pwd = None" using p(2) assms by (auto simp: refusal_def lockable_def is_locked_def)
  then have "set_raw_value E run (Suc n) i u pwd og s
      = (Ret (), map_param i (\<lambda>p. update_fast_write E og (write_param u og p)) s)"
    using set_raw_value_admitted [OF p(1)] write_quiet_writes [OF p(1) lockable_callbacks(3) [OF p(2)]] by simp
  moreover have "shared i h T (k, u) (map_param i (\<lambda>p. update_fast_write E og (write_param u og p)) s)"
    by (rule shared_map_param [OF s]) (simp add: lockable_updates)
  ultimately show "\<exists>t. set_raw_value E run (Suc n) i u pwd og s = (Ret (), t) \<and> shared i h T (k, u) t" by blast
qed

lemma goes_write_locked:
  fixes E :: "('v, 'j) env"
  assumes "k \<noteq> None" and "\<not> suppressed E"
  shows "goes i h T (k, v) (set_raw_value E run n i u None og) (Exc (Sc_report (set_param_report ''Parameter locked.''))) (k, v)"
proof (rule goesI)
  fix s :: "('v, 'j) world" and p assume p: "params s i = Some p" "lockable T k v p" and s: "shared i h T (k, v) s"
  have ref: "refusal p None = Some ''Parameter locked.''" using p(2) assms(1) by (auto simp: refusal_def lockable_def is_locked_def)
  let ?t = "s\<lparr>reports := reports s @ [set_param_report ''Parameter locked.'']\<rparr>"
  have "set_param_failed E ''Parameter locked.'' s = (Exc (Sc_report (set_param_report ''Parameter locked.'')), ?t)"
    using assms(2) by (simp add: set_param_failed_run)
  with set_raw_value_refused [OF p(1) ref, of E run n u og]
  have "set_raw_value E run n i u None og s = (Exc (Sc_report (set_param_report ''Parameter locked.'')), ?t)"
    by (simp add: prod_eq_iff)
  moreover have "shared i h T (k, v) ?t" using s by (simp add: shared_def)
  ultimately show "\<exists>t. set_raw_value E run n i u None og s = (Exc (Sc_report (set_param_report ''Parameter locked.'')), t)
      \<and> shared i h T (k, v) t" by blast
qed

lemma goes_the_param:
  fixes f :: "('v, 'j) param \<Rightarrow> ('v, 'j, 'a) cci"
  assumes "\<And>p. lockable T k v p \<Longrightarrow> goes i h T (k, v) (f p) r st"
  shows "goes i h T (k, v) (bindM (the_param i) f) r st"
proof (rule goesI)
  fix s :: "('v, 'j) world" and p assume p: "params s i = Some p" "lockable T k v p" and s: "shared i h T (k, v) s"
  then show "\<exists>t. bindM (the_param i) f s = (r, t) \<and> shared i h T st t"
    using assms [OF p(2)] by (auto simp: bindM_def goes_def)
qed

lemma goes_assign_locked:
  assumes "k \<noteq> None" and "\<not> suppressed E"
  shows "goes i h T (k, v) (assign_value E run n i u) (Exc (Sc_report (set_param_report ''Parameter locked.''))) (k, v)"
  unfolding assign_value_def set_value_def
  by (rule goes_the_param) (use goes_write_locked [OF assms] assms(1) in \<open>auto simp: lockable_def is_locked_def\<close>)

lemma goes_set_value_pwd:
  "goes i h T (Some a, v) (set_value_pwd E run (Suc n) i u (Some a)) (Ret ()) (Some a, u)"
  unfolding set_value_pwd_def by (rule goes_the_param) (rule goes_write, rule refl)

lemma goes_handle_get:
  assumes "pack E T v = (True, x)"
  shows "goes i h T (k, v) (handle_get_cci_value E run (Suc n) h) (Ret x) (k, v)"
  unfolding handle_get_cci_value_def get_cci_value_def
proof (intro goes_handled goes_the_param goes_bindM [OF goes_get_raw])
  fix p :: "('b, 'a) param" assume "lockable T k v p"
  with assms show "goes i h T (k, v) (to_cci_value E (p_type p) v) (Ret x) (k, v)"
    by (simp add: goes_def to_cci_value_def lockable_def)
qed

lemma goes_handle_set:
  fixes E :: "('v, 'j) env"
  assumes "unpack E T x = (True, u)" and "\<And>og. goes i h T (k, v) (set_raw_value E run n i u None og) r st"
  shows "goes i h T (k, v) (handle_set_cci_value E run n h x None) r st"
  unfolding handle_set_cci_value_def set_cci_value_def
proof (intro goes_handled goes_the_param)
  fix og and p :: "('v, 'j) param" assume "lockable T k v p"
  with assms(1) have "goes i h T (k, v) (from_cci_value E (p_type p) x) (Ret u) (k, v)"
    by (simp add: goes_def from_cci_value_def lockable_def)
  then show "goes i h T (k, v) (bindM (from_cci_value E (p_type p) x) (\<lambda>v. set_raw_value E run n i v None og)) r st"
    by (rule goes_bindM) (rule assms(2))
qed


section \<open>The threads\<close>

text \<open>What a \<open>catch\<close> of the modules sees.\<close>

definition locked_report :: sc_report where
  "locked_report = set_param_report ''Parameter locked.''"

lemma goes_owner_status:
  "goes i h T (k, v) (owner_status E (Suc n) i) (Ret [Owner_status (k \<noteq> None) v]) (k, v)"
  unfolding owner_status_def by (intro goes_bindM [OF goes_is_locked] goes_bindM [OF goes_get_value] goes_retM)

lemma goes_handle_is_locked: "goes i h T (k, v) (handle_query E h is_locked) (Ret (k \<noteq> None)) (k, v)"
  unfolding handle_query_def by (rule goes_handled) (rule goes_is_locked)

lemma goes_cfgr_status:
  assumes "pack E T v = (True, x)"
  shows "goes i h T (k, v) (cfgr_status E (Suc n) h) (Ret [Cfgr_status (k \<noteq> None) x]) (k, v)"
  unfolding cfgr_status_def
  by (intro goes_bindM [OF goes_handle_is_locked] goes_bindM [OF goes_handle_get [OF assms]] goes_retM)

lemma goes_owner_locks:
  assumes "\<not> suppressed E"
  shows "goes i h T (k, v) (owner_locks E (Suc n) lit i)
    (Ret [Owner_status True v, Owner_caught locked_report, Owner_status True v]) (if k = None then Some i else k, v)"
proof -
  let ?k = "if k = None then Some i else k"
  have lock: "goes i h T (k, v) (on_param i (lock i None)) (Ret (?k = Some i)) (?k, v)"
    using goes_lock [of k i None h T v] goes_lock_held [of k i None h T v]
    by (cases "k = None"; cases "k = Some i") auto
  have status: "goes i h T (?k, v) (owner_status E (Suc n) i) (Ret [Owner_status True v]) (?k, v)"
    using goes_owner_status [of i h T ?k v E n] by (cases "k = None") auto
  have refused: "goes i h T (?k, v) (catching Owner_caught (assign_value E (runner E (Suc n)) (Suc n) i (lit 1)))
      (Ret [Owner_caught locked_report]) (?k, v)"
    unfolding locked_report_def by (rule goes_catching, rule goes_assign_locked) (use assms in simp_all)
  show ?thesis
    unfolding owner_locks_def
    using goes_script [OF goes_quietly [OF lock] goes_script [OF status goes_script [OF refused goes_script [OF status goes_script_Nil]]]]
    by simp
qed

lemma goes_owner_unlocks:
  "goes i h T (k, v) (owner_unlocks E (Suc n) i) (Ret [Owner_status (k \<noteq> None \<and> k \<noteq> Some i) v]) (if k = Some i then None else k, v)"
proof -
  let ?k = "if k = Some i then None else k"
  have unlock: "goes i h T (k, v) (on_param i (unlock i None)) (Ret (k = Some i)) (?k, v)"
    using goes_unlock [of k i None h T v] goes_unlock_other [of k i None h T v] by auto
  have status: "goes i h T (?k, v) (owner_status E (Suc n) i) (Ret [Owner_status (k \<noteq> None \<and> k \<noteq> Some i) v]) (?k, v)"
    using goes_owner_status [of i h T ?k v E n] by (auto split: if_splits)
  show ?thesis
    unfolding owner_unlocks_def using goes_script [OF goes_quietly [OF unlock] goes_script [OF status goes_script_Nil]] by simp
qed

lemma goes_owner_uses_key:
  assumes "k = None \<or> k = Some key"
  shows "goes i h T (k, v) (owner_uses_key E (Suc n) lit key i)
    (Ret [Owner_status (k \<noteq> None) v, Owner_status True v, Owner_status True (lit 4)]) (Some key, lit 4)"
proof -
  have lock: "goes i h T (k, v) (on_param i (lock i (Some key))) (Ret True) (Some key, v)"
    using goes_lock [of k i "Some key" h T v] assms by auto
  have status: "goes i h T (Some key, u) (owner_status E (Suc n) i) (Ret [Owner_status True u]) (Some key, u)" for u
    using goes_owner_status [of i h T "Some key" u E n] by simp
  show ?thesis
    unfolding owner_uses_key_def
    using goes_script [OF goes_owner_status goes_script [OF goes_quietly [OF lock] goes_script [OF status
        goes_script [OF goes_quietly [OF goes_set_value_pwd] goes_script [OF status goes_script_Nil]]]]]
    by simp
qed

lemma goes_cfgr_waits: "goes i h T st cfgr_waits (Ret []) st"
  unfolding cfgr_waits_def by (rule goes_retM)

lemma goes_cfgr_looks:
  assumes "k \<noteq> None" and "pack E T v = (True, x)"
  shows "goes i h T (k, v) (cfgr_looks E (Suc n) cci h)
    (Ret [Cfgr_status True x, Cannot_assign, Cfgr_status True x]) (k, v)"
proof -
  have status: "goes i h T (k, v) (cfgr_status E (Suc n) h) (Ret [Cfgr_status True x]) (k, v)"
    using goes_cfgr_status [of E T v x i h k n] assms by simp
  have look: "goes i h T (k, v) (bindM (handle_query E h is_locked) (\<lambda>b. if b then retM [Cannot_assign]
      else quietly (handle_set_cci_value E (runner E (Suc n)) (Suc n) h (cci 2) None))) (Ret [Cannot_assign]) (k, v)"
    by (rule goes_bindM [OF goes_handle_is_locked]) (use assms(1) in \<open>simp add: goes_retM del: retM_apply\<close>)
  show ?thesis
    unfolding cfgr_looks_def
    using goes_script [OF status goes_script [OF look goes_script [OF status goes_script_Nil]]] by simp
qed

lemma goes_cfgr_uses:
  fixes E :: "('v, 'j) env" and lit :: "int \<Rightarrow> 'v"
  assumes conv: "\<And>n. pack E T (lit n) = (True, cci n)" "\<And>n. unpack E T (cci n) = (True, lit n)" and "\<not> suppressed E"
  shows "goes i h T (None, lit m) (cfgr_uses E (Suc n) cci psswd h)
    (Ret [Cfgr_status False (cci m), Cfgr_status False (cci 3), Cfgr_status True (cci 3), Cfgr_status False (cci 3),
       Locked_with_password True, Cfgr_status True (cci 3), Cfgr_caught locked_report, Cfgr_status True (cci 3),
       Cfgr_status False (cci 3)]) (None, lit 3)"
proof -
  have status: "goes i h T (k, lit u) (cfgr_status E (Suc n) h) (Ret [Cfgr_status (k \<noteq> None) (cci u)]) (k, lit u)" for k u
    by (rule goes_cfgr_status) (rule conv)
  have set: "goes i h T (None, lit m) (handle_set_cci_value E (runner E (Suc n)) (Suc n) h (cci 3) None) (Ret ()) (None, lit 3)"
    by (rule goes_handle_set [OF conv(2) goes_write [OF refl]])
  have lock: "goes i h T (None, lit 3) (handle_lock E h pwd) (Ret True) (Some (case pwd of None \<Rightarrow> i | Some a \<Rightarrow> a), lit 3)" for pwd
    unfolding handle_lock_def by (rule goes_handled, rule goes_lock) simp
  have unlock: "goes i h T (Some (case pwd of None \<Rightarrow> i | Some a \<Rightarrow> a), lit 3) (handle_unlock E h pwd) (Ret True) (None, lit 3)" for pwd
    unfolding handle_unlock_def by (rule goes_handled, rule goes_unlock) simp
  have with_pwd: "goes i h T (None, lit 3) (bindM (handle_lock E h (Some psswd)) (\<lambda>ok. retM [Locked_with_password ok]))
      (Ret [Locked_with_password True]) (Some psswd, lit 3)"
    using lock [of "Some psswd"] by (intro goes_bindM [where x = True and ?st1.0 = "(Some psswd, lit 3)"] goes_retM) simp
  have refused: "goes i h T (Some psswd, lit 3) (catching Cfgr_caught (handle_set_cci_value E (runner E (Suc n)) (Suc n) h (cci 4) None))
      (Ret [Cfgr_caught locked_report]) (Some psswd, lit 3)"
    unfolding locked_report_def
    by (rule goes_catching, rule goes_handle_set [OF conv(2) goes_write_locked]) (use assms(3) in simp_all)
  show ?thesis
    unfolding cfgr_uses_def
    using goes_script [OF status goes_script [OF goes_quietly [OF set] goes_script [OF status
        goes_script [OF goes_quietly [OF lock [of None]] goes_script [OF status
        goes_script [OF goes_quietly [OF unlock [of None]] goes_script [OF status
        goes_script [OF with_pwd goes_script [OF status
        goes_script [OF refused goes_script [OF status
        goes_script [OF goes_quietly [OF unlock [of "Some psswd", unfolded option.case]] goes_script [OF status goes_script_Nil]]]]]]]]]]]]]
    by simp
qed

lemma goes_cfgr_uses_locked:
  fixes E :: "('v, 'j) env"
  assumes "pack E T v = (True, x)" and "unpack E T (cci 3) = (True, u)" and "k \<noteq> None" and "\<not> suppressed E"
  shows "goes i h T (k, v) (cfgr_uses E (Suc n) cci psswd h) (Exc (Sc_report locked_report)) (k, v)"
  unfolding cfgr_uses_def
proof (rule goes_script_Exc(2) [OF goes_cfgr_status [OF assms(1)]], rule goes_script_Exc(1), rule goes_quietly_Exc)
  show "goes i h T (k, v) (handle_set_cci_value E (runner E (Suc n)) (Suc n) h (cci 3) None) (Exc (Sc_report locked_report)) (k, v)"
    unfolding locked_report_def by (rule goes_handle_set [OF assms(2) goes_write_locked [OF assms(3,4)]])
qed

section \<open>The simulation\<close>

text \<open>What was shown before the rest.\<close>

fun after_lines :: "'a list \<Rightarrow> ('e, 'a list) outcome \<Rightarrow> ('e, 'a list) outcome" where
  "after_lines xs (Ret ys) = Ret (xs @ ys)"
| "after_lines xs (Exc e) = Exc e"
| "after_lines xs Abort = Abort"
| "after_lines xs NoFuel = NoFuel"

lemma after_lines_append [simp]: "after_lines xs (after_lines ys r) = after_lines (xs @ ys) r"
  by (cases r) simp_all

lemma goes_after_lines:
  assumes "goes i h T st m r st1"
  shows "goes i h T st (bindM m (\<lambda>rest. retM (xs @ rest))) (after_lines xs r) st1"
  using assms unfolding goes_def bindM_def by (cases r) fastforce+

text \<open>One turn of two threads, of which one is due earlier, and the end.\<close>

lemma goes_turn:
  assumes "goes i h T st (activity_of (ths ! j)) (Ret xs) st1"
    and "goes i h T st1 (run_turns (ths[j := after_wait (ths ! j)]) js) r st2"
  shows "goes i h T st (run_turns ths (j # js)) (after_lines xs r) st2"
  unfolding run_turns.simps by (rule goes_bindM [OF assms(1) goes_after_lines [OF assms(2)]])

lemma obeys_firstE:
  assumes "obeys_waits until [(t1, (act, d) # acts), (t2, acts2)] js" and "t1 < t2" and "t1 < until"
  obtains js' where "js = 0 # js'" and "obeys_waits until [(t1 + d, acts @ [(act, d)]), (t2, acts2)] js'"
  using assms by (cases js) (auto simp: less_Suc_eq)

lemma obeys_secondE:
  assumes "obeys_waits until [(t2, acts2), (t1, (act, d) # acts)] js" and "t1 < t2" and "t1 < until"
  obtains js' where "js = 1 # js'" and "obeys_waits until [(t2, acts2), (t1 + d, acts @ [(act, d)])] js'"
  using assms by (cases js) (auto simp: less_Suc_eq)

lemma goes_first:
  assumes "obeys_waits until [(t1, (act, d) # acts), (t2, acts2)] js" and "t1 < t2" and "t1 < until"
    and "goes i h T st act (Ret xs) st1" and "t1 + d = t3" and "acts @ [(act, d)] = acts3"
    and "\<And>js. obeys_waits until [(t3, acts3), (t2, acts2)] js \<Longrightarrow>
      goes i h T st1 (run_turns [(t3, acts3), (t2, acts2)] js) r st2"
  shows "goes i h T st (run_turns [(t1, (act, d) # acts), (t2, acts2)] js) (after_lines xs r) st2"
proof -
  obtain js' where js: "js = 0 # js'" and "obeys_waits until [(t1 + d, acts @ [(act, d)]), (t2, acts2)] js'"
    using assms(1-3) by (rule obeys_firstE)
  from assms(7) [OF this(2) [unfolded assms(5,6)]] assms(4-6) show ?thesis unfolding js by (intro goes_turn) simp_all
qed

lemma goes_second:
  assumes "obeys_waits until [(t2, acts2), (t1, (act, d) # acts)] js" and "t1 < t2" and "t1 < until"
    and "goes i h T st act (Ret xs) st1" and "t1 + d = t3" and "acts @ [(act, d)] = acts3"
    and "\<And>js. obeys_waits until [(t2, acts2), (t3, acts3)] js \<Longrightarrow>
      goes i h T st1 (run_turns [(t2, acts2), (t3, acts3)] js) r st2"
  shows "goes i h T st (run_turns [(t2, acts2), (t1, (act, d) # acts)] js) (after_lines xs r) st2"
proof -
  obtain js' where js: "js = 1 # js'" and "obeys_waits until [(t2, acts2), (t1 + d, acts @ [(act, d)])] js'"
    using assms(1-3) by (rule obeys_secondE)
  from assms(7) [OF this(2) [unfolded assms(5,6)]] assms(4-6) show ?thesis unfolding js by (intro goes_turn) simp_all
qed

lemma goes_second_Exc:
  assumes "obeys_waits until [(t2, acts2), (t1, (act, d) # acts)] js" and "t1 < t2" and "t1 < until"
    and "goes i h T st act (Exc e) st1"
  shows "goes i h T st (run_turns [(t2, acts2), (t1, (act, d) # acts)] js) (Exc e) st1"
proof -
  obtain js' where "js = 1 # js'" using assms(1-3) by (rule obeys_secondE)
  then show ?thesis using goes_bindM_Exc [OF assms(4)] by simp
qed

lemma goes_no_turn:
  assumes "obeys_waits until ths js" and "\<forall>th \<in> set ths. until < fst th"
  shows "goes i h T st (run_turns ths js) (Ret []) st"
proof (cases js)
  case Nil
  then show ?thesis by (simp add: goes_retM del: retM_apply)
next
  case (Cons j js')
  with assms have "j < length ths" "fst (ths ! j) \<le> until" by simp_all
  with assms(2) nth_mem [of j ths] show ?thesis by fastforce
qed

text \<open>The lines of golden.log up to 10 ns, without the notes that say what comes next.\<close>

definition golden :: "(int \<Rightarrow> 'v) \<Rightarrow> (int \<Rightarrow> 'j) \<Rightarrow> ('v, 'j) line list" where
  "golden lit cci =
     [Owner_status True (lit 0), Owner_caught locked_report, Owner_status True (lit 0),
      Cfgr_status True (cci 0), Cannot_assign, Cfgr_status True (cci 0),
      Owner_status False (lit 0),
      Cfgr_status False (cci 0), Cfgr_status False (cci 3), Cfgr_status True (cci 3), Cfgr_status False (cci 3),
      Locked_with_password True, Cfgr_status True (cci 3), Cfgr_caught locked_report, Cfgr_status True (cci 3),
      Cfgr_status False (cci 3),
      Owner_status False (lit 3), Owner_status True (lit 3), Owner_status True (lit 4)]"

lemma ex13_first_turns:
  fixes E :: "('v, 'j) env" and lit :: "int \<Rightarrow> 'v"
  assumes conv: "\<And>n. pack E T (lit n) = (True, cci n)" "\<And>n. unpack E T (cci n) = (True, lit n)" and quiet: "\<not> suppressed E"
    and u: "10 < until"
    and turns: "obeys_waits until [(0, run_owner E (Suc N) lit key i), (0, run_mutable_cfgr E (Suc N) cci psswd h)] js"
    and rest: "\<And>js. obeys_waits until [(40, run_owner E (Suc N) lit key i), (57, run_mutable_cfgr E (Suc N) cci psswd h)] js \<Longrightarrow>
      goes i h T (Some key, lit 4) (run_turns
        [(40, run_owner E (Suc N) lit key i), (57, run_mutable_cfgr E (Suc N) cci psswd h)] js) r st"
  shows "goes i h T (None, lit 0) (run_turns
      [(0, run_owner E (Suc N) lit key i), (0, run_mutable_cfgr E (Suc N) cci psswd h)] js) (after_lines (golden lit cci) r) st"
proof -
  let ?o = "owner_locks E (Suc N) lit i" and ?u = "owner_unlocks E (Suc N) i" and ?k = "owner_uses_key E (Suc N) lit key i"
  let ?l = "cfgr_looks E (Suc N) cci h" and ?c = "cfgr_uses E (Suc N) cci psswd h"
  let ?w = "cfgr_waits :: ('v, 'j, ('v, 'j) line list) cci"
  have o0: "goes i h T (None, lit 0) ?o (Ret [Owner_status True (lit 0), Owner_caught locked_report, Owner_status True (lit 0)]) (Some i, lit 0)"
    using goes_owner_locks [OF quiet, of i h T None] by simp
  have c2: "goes i h T (Some i, lit 0) ?l (Ret [Cfgr_status True (cci 0), Cannot_assign, Cfgr_status True (cci 0)]) (Some i, lit 0)"
    by (rule goes_cfgr_looks) (simp_all add: conv)
  have o5: "goes i h T (Some i, lit 0) ?u (Ret [Owner_status False (lit 0)]) (None, lit 0)"
    using goes_owner_unlocks [of i h T "Some i"] by simp
  note c7 = goes_cfgr_uses [where m = 0, OF conv quiet]
  have o10: "goes i h T (None, lit 3) ?k (Ret [Owner_status False (lit 3), Owner_status True (lit 3), Owner_status True (lit 4)]) (Some key, lit 4)"
    using goes_owner_uses_key [of None key i h T] by simp
  note cycles = run_owner_def run_mutable_cfgr_def
  let ?tail = "after_lines [Cfgr_status True (cci 0), Cannot_assign, Cfgr_status True (cci 0)]
      (after_lines [Owner_status False (lit 0)] (after_lines [Cfgr_status False (cci 0), Cfgr_status False (cci 3),
         Cfgr_status True (cci 3), Cfgr_status False (cci 3), Locked_with_password True, Cfgr_status True (cci 3),
         Cfgr_caught locked_report, Cfgr_status True (cci 3), Cfgr_status False (cci 3)]
      (after_lines [Owner_status False (lit 3), Owner_status True (lit 3), Owner_status True (lit 4)] r)))"
  have from_2: "goes i h T (Some i, lit 0) (run_turns [(5, [(?u, 5), (?k, 30), (?o, 5)]), (2, [(?l, 5), (?c, 50), (?w, 2)])] js) ?tail st"
    if "obeys_waits until [(5, [(?u, 5), (?k, 30), (?o, 5)]), (2, [(?l, 5), (?c, 50), (?w, 2)])] js" for js
    apply (rule goes_second [OF that _ _ c2], simp, use u in simp, simp, simp)
    apply (rule goes_first [OF _ _ _ o5], assumption, simp, use u in simp, simp, simp)
    apply (rule goes_second [OF _ _ _ c7], assumption, simp, use u in simp, simp, simp)
    apply (rule goes_first [OF _ _ _ o10], assumption, simp, use u in simp, simp, simp)
    apply (rule rest [unfolded cycles], assumption)
    done
  obtain j js' where js: "js = j # js'" "j = 0 \<or> j = 1"
    using turns u by (cases js) (auto simp: less_Suc_eq)
  have "goes i h T (None, lit 0) (run_turns [(0, [(?o, 5), (?u, 5), (?k, 30)]), (0, [(?w, 2), (?l, 5), (?c, 50)])] js)
    (after_lines [Owner_status True (lit 0), Owner_caught locked_report, Owner_status True (lit 0)] ?tail) st"
    using js(2)
  proof
    assume "j = 0"
    with turns js have "obeys_waits until [(5, [(?u, 5), (?k, 30), (?o, 5)]), (0, [(?w, 2), (?l, 5), (?c, 50)])] js'"
      by (simp add: cycles)
    then have "goes i h T (Some i, lit 0) (run_turns [(5, [(?u, 5), (?k, 30), (?o, 5)]), (0, [(?w, 2), (?l, 5), (?c, 50)])] js')
      (after_lines [] ?tail) st"
      by (rule goes_second [OF _ _ _ goes_cfgr_waits _ _ from_2]) (use u in simp_all)
    then show ?thesis unfolding js(1) \<open>j = 0\<close> by (intro goes_turn [where ?st1.0 = "(Some i, lit 0)"]) (simp_all add: o0)
  next
    assume "j = 1"
    with turns js have "obeys_waits until [(0, [(?o, 5), (?u, 5), (?k, 30)]), (2, [(?l, 5), (?c, 50), (?w, 2)])] js'"
      by (simp add: cycles numeral_2_eq_2)
    then have "goes i h T (None, lit 0) (run_turns [(0, [(?o, 5), (?u, 5), (?k, 30)]), (2, [(?l, 5), (?c, 50), (?w, 2)])] js')
      (after_lines [Owner_status True (lit 0), Owner_caught locked_report, Owner_status True (lit 0)] ?tail) st"
      by (rule goes_first [OF _ _ _ o0 _ _ from_2]) (use u in simp_all)
    then have "goes i h T (None, lit 0) (run_turns [(0, [(?o, 5), (?u, 5), (?k, 30)]), (0, [(?w, 2), (?l, 5), (?c, 50)])] (1 # js'))
      (after_lines [] (after_lines [Owner_status True (lit 0), Owner_caught locked_report, Owner_status True (lit 0)] ?tail)) st"
      by (intro goes_turn [where ?st1.0 = "(None, lit 0)"]) (simp_all add: goes_cfgr_waits numeral_2_eq_2)
    then show ?thesis unfolding js(1) \<open>j = 1\<close> by simp
  qed
  then show ?thesis by (simp add: golden_def cycles)
qed

text \<open>
  Beyond the 25 ns of the example: after 40 ns the lock is held with the owner's password for good, which
  \<open>unlock()\<close> without a password does not open, and the configurator, which writes without a look at the
  lock in its second turn, is ended by an exception at 64 ns.
\<close>

lemma ex13_until_64ns:
  fixes E :: "('v, 'j) env" and lit :: "int \<Rightarrow> 'v"
  assumes conv: "\<And>n. pack E T (lit n) = (True, cci n)" "\<And>n. unpack E T (cci n) = (True, lit n)" and quiet: "\<not> suppressed E"
    and key: "key \<noteq> i" and u: "64 < until"
    and turns: "obeys_waits until [(40, run_owner E (Suc N) lit key i), (57, run_mutable_cfgr E (Suc N) cci psswd h)] js"
  shows "goes i h T (Some key, lit 4) (run_turns
    [(40, run_owner E (Suc N) lit key i), (57, run_mutable_cfgr E (Suc N) cci psswd h)] js)
    (Exc (Sc_report locked_report)) (Some key, lit 4)"
proof -
  let ?o = "owner_locks E (Suc N) lit i" and ?u = "owner_unlocks E (Suc N) i" and ?k = "owner_uses_key E (Suc N) lit key i"
  let ?l = "cfgr_looks E (Suc N) cci h" and ?c = "cfgr_uses E (Suc N) cci psswd h"
  let ?nothing = "cfgr_waits :: ('v, 'j, ('v, 'j) line list) cci"
  note o40 = goes_owner_locks [OF quiet, of i h T "Some key" "lit 4" N lit, simplified if_False option.distinct]
  have o45: "goes i h T (Some key, lit 4) ?u (Ret [Owner_status True (lit 4)]) (Some key, lit 4)"
    using goes_owner_unlocks [of i h T "Some key"] key by simp
  have o50: "goes i h T (Some key, lit 4) ?k (Ret [Owner_status True (lit 4), Owner_status True (lit 4), Owner_status True (lit 4)]) (Some key, lit 4)"
    using goes_owner_uses_key [of "Some key" key i h T] by simp
  have c59: "goes i h T (Some key, lit 4) ?l (Ret [Cfgr_status True (cci 4), Cannot_assign, Cfgr_status True (cci 4)]) (Some key, lit 4)"
    by (rule goes_cfgr_looks) (simp_all add: conv)
  have c64: "goes i h T (Some key, lit 4) ?c (Exc (Sc_report locked_report)) (Some key, lit 4)"
    by (rule goes_cfgr_uses_locked [OF conv]) (simp_all add: quiet)
  have "goes i h T (Some key, lit 4) (run_turns [(40, [(?o, 5), (?u, 5), (?k, 30)]), (57, [(?nothing, 2), (?l, 5), (?c, 50)])] js)
    (after_lines [Owner_status True (lit 4), Owner_caught locked_report, Owner_status True (lit 4)]
      (after_lines [Owner_status True (lit 4)] (after_lines [Owner_status True (lit 4), Owner_status True (lit 4), Owner_status True (lit 4)]
      (after_lines [] (after_lines [Cfgr_status True (cci 4), Cannot_assign, Cfgr_status True (cci 4)]
        (Exc (Sc_report locked_report))))))) (Some key, lit 4)"
    apply (rule goes_first [OF turns [unfolded run_owner_def run_mutable_cfgr_def] _ _ o40], simp, use u in simp, simp, simp)
    apply (rule goes_first [OF _ _ _ o45], assumption, simp, use u in simp, simp, simp)
    apply (rule goes_first [OF _ _ _ o50], assumption, simp, use u in simp, simp, simp)
    apply (rule goes_second [OF _ _ _ goes_cfgr_waits], assumption, simp, use u in simp, simp, simp)
    apply (rule goes_second [OF _ _ _ c59], assumption, simp, use u in simp, simp, simp)
    apply (rule goes_second_Exc [OF _ _ _ c64], assumption, simp, use u in simp)
    done
  then show ?thesis by (simp add: run_owner_def run_mutable_cfgr_def)
qed

text \<open>
  C12. The two threads of ex13, started with a parameter that is unlocked and has the value 0, with the
  turns in any order that obeys their waits. Up to any time later than 10 and before 40 ns, and so in the
  25 ns of the example, the simulation ends without an exception that leaves a thread, shows the states
  of lock and value of golden.log in their order, refuses the two writes to a locked parameter, and leaves
  the parameter locked with the password of the owner and with the value that the owner wrote with that
  password. A simulation of more than 64 ns is ended by an exception: the lock is then never opened
  again, and the configurator takes it for open.
\<close>

theorem locking_threads:
  fixes E :: "('v, 'j) env" and lit :: "int \<Rightarrow> 'v" and s :: "('v, 'j) world"
  assumes p: "params s i = Some p" "lockable T None (lit 0) p" and h: "handles s h = Some d" "m_param d = Some i"
    and conv: "\<And>n. pack E T (lit n) = (True, cci n)" "\<And>n. unpack E T (cci n) = (True, lit n)"
    and throws: "\<not> suppressed E" and key: "key \<noteq> i" and until: "10 < until" and N: "0 < N"
    and turns: "obeys_waits until [(0, run_owner E N lit key i), (0, run_mutable_cfgr E N cci psswd h)] js"
  shows "(until < 40 \<longrightarrow> (\<exists>t q. run_turns [(0, run_owner E N lit key i), (0, run_mutable_cfgr E N cci psswd h)] js s
        = (Ret (golden lit cci), t) \<and> params t i = Some q \<and> m_lock_pwd q = Some key \<and> m_value q = lit 4))
    \<and> (64 < until \<longrightarrow> (\<exists>t. run_turns [(0, run_owner E N lit key i), (0, run_mutable_cfgr E N cci psswd h)] js s
        = (Exc (Sc_report (set_param_report ''Parameter locked.'')), t)))"
proof (intro conjI impI)
  let ?start = "[(0, run_owner E N lit key i), (0, run_mutable_cfgr E N cci psswd h)]"
  obtain M where M: "N = Suc M" using N by (cases N) auto
  have s: "shared i h T (None, lit 0) s" using p h by (auto simp: shared_def)
  note first = ex13_first_turns [where N = M, OF conv throws until turns [unfolded M], folded M]
  show "\<exists>t q. run_turns ?start js s = (Ret (golden lit cci), t) \<and> params t i = Some q \<and> m_lock_pwd q = Some key
      \<and> m_value q = lit 4" if "until < 40"
  proof -
    have "goes i h T (None, lit 0) (run_turns ?start js) (after_lines (golden lit cci) (Ret [])) (Some key, lit 4)"
      by (rule first, rule goes_no_turn, assumption) (use that in simp)
    with s show ?thesis by (fastforce simp: goes_def shared_def lockable_def)
  qed
  show "\<exists>t. run_turns ?start js s = (Exc (Sc_report (set_param_report ''Parameter locked.'')), t)" if "64 < until"
  proof -
    have "goes i h T (None, lit 0) (run_turns ?start js) (after_lines (golden lit cci) (Exc (Sc_report locked_report))) (Some key, lit 4)"
      by (rule first, unfold M, rule ex13_until_64ns [OF conv throws key that])
    with s show ?thesis by (fastforce simp: goes_def locked_report_def)
  qed
qed

definition ex_lock_env :: "(int, int) env" where
  "ex_lock_env = (ex_env True)\<lparr>unpack := \<lambda>T x. (True, x)\<rparr>"

definition ex_lock_world :: "(int, int) world" where
  "ex_lock_world = ex_world\<lparr>params := [1 \<mapsto> ex_param\<lparr>m_value := 0\<rparr>],
     handles := [9 \<mapsto> \<lparr>m_param = Some 1, h_originator = ex_other\<rparr>]\<rparr>"

theorem locking_threads_witness:
  "(\<exists>t q. run_turns [(0, run_owner ex_lock_env 1 (\<lambda>n. n) 100 1), (0, run_mutable_cfgr ex_lock_env 1 (\<lambda>n. n) 200 9)]
      [0, 1, 1, 0, 1, 0] ex_lock_world = (Ret (golden (\<lambda>n. n) (\<lambda>n. n)), t) \<and> params t 1 = Some q \<and> m_lock_pwd q = Some 100 \<and> m_value q = 4)
   \<and> (\<exists>t. run_turns [(0, run_owner ex_lock_env 1 (\<lambda>n. n) 100 1), (0, run_mutable_cfgr ex_lock_env 1 (\<lambda>n. n) 200 9)]
      [1, 0, 1, 0, 1, 0, 0, 0, 0, 1, 1, 1] ex_lock_world = (Exc (Sc_report (set_param_report ''Parameter locked.'')), t))"
proof -
  have p: "params ex_lock_world 1 = Some (ex_param\<lparr>m_value := 0\<rparr>)" by (simp add: ex_lock_world_def)
  have "vec (callbacks_of j (ex_param\<lparr>m_value := 0\<rparr>)) = [] \<and> \<not> oncall (callbacks_of j (ex_param\<lparr>m_value := 0\<rparr>))" for j
    by (cases j) (simp_all add: callbacks_of.simps ex_param_def fresh_param_def Lifecycle.no_callbacks_def)
  then have l: "lockable 0 None 0 (ex_param\<lparr>m_value := 0\<rparr>)"
    unfolding lockable_def by (simp add: ex_param_def fresh_param_def is_locked_def)
  have h: "handles ex_lock_world 9 = Some \<lparr>m_param = Some 1, h_originator = ex_other\<rparr>" by (simp add: ex_lock_world_def)
  have conv: "pack ex_lock_env 0 n = (True, n)" "unpack ex_lock_env 0 n = (True, n)" for n
    by (simp_all add: ex_lock_env_def ex_env_def)
  have throws: "\<not> suppressed ex_lock_env" by (simp add: suppressed_def ex_lock_env_def ex_env_def)
  note run = locking_threads [where lit = "\<lambda>n. n" and cci = "\<lambda>n. n", OF p l h _ conv throws]
  show ?thesis
    using run [where until = 25 and key = 100 and N = 1 and js = "[0, 1, 1, 0, 1, 0]"]
      run [where until = 65 and key = 100 and N = 1 and js = "[1, 0, 1, 0, 1, 0, 0, 0, 0, 1, 1, 1]"]
    by (simp add: run_owner_def run_mutable_cfgr_def)
qed

end
