(* ===== verification/Steady_Params.thy ===== *)
theory Steady_Params
  imports Param_Sync
begin

text \<open>
  A parameter without callbacks that anyone may write: what its operations, and those of its handles, do
  to its value, which is all that they change but for flags that do not show.
\<close>

definition steady :: "string \<Rightarrow> bid \<Rightarrow> tid \<Rightarrow> 'v \<Rightarrow> ('v, 'j) param \<Rightarrow> bool" where
  "steady nm b T v p \<longleftrightarrow> unwatched p \<and> m_name p = nm \<and> m_broker (m_broker_handle p) = b \<and> p_type p = T \<and> m_value p = v"

lemma steady_with_handles [simp]: "steady nm b T v (with_handles_of q p) = steady nm b T v p"
  by (simp add: steady_def unwatched_def no_callback_def)

lemma steady_updates:
  assumes "steady nm b T v p"
  shows "steady nm b T v (update_fast_read p)" and "steady nm b T u (update_fast_write E og (write_param u og p))"
    and "steady nm b T u (p\<lparr>m_value := u\<rparr>)"
  using assms
  by (simp_all add: steady_def unwatched_def no_callback_def update_fast_read_def update_fast_write_def write_param_def
      refusal_def is_locked_def param_name_def split: if_splits)

text \<open>An operation that takes the value of the parameter from \<open>v\<close> to \<open>u\<close>, and nothing else.\<close>

definition moves :: "string \<Rightarrow> bid \<Rightarrow> tid \<Rightarrow> (hid \<Rightarrow> param_handle option) \<Rightarrow> pid \<Rightarrow> 'v \<Rightarrow> ('v, 'j, 'a) cci \<Rightarrow> 'a \<Rightarrow> 'v \<Rightarrow> bool" where
  "moves nm b T H i v m x u \<longleftrightarrow>
     (\<forall>c p. c i = Some p \<longrightarrow> steady nm b T v p \<longrightarrow> (\<exists>q. runs c H m x (c(i \<mapsto> q)) \<and> steady nm b T u q))"

lemma moves_bindM:
  fixes m :: "('v, 'j, 'a) cci"
  assumes "moves nm b T H i v m x u" and "moves nm b T H i u (f x) y w"
  shows "moves nm b T H i v (bindM m f) y w"
  unfolding moves_def
proof (intro allI impI)
  fix c :: "('v, 'j) view" and p assume "c i = Some p" "steady nm b T v p"
  with assms(1) obtain q where q: "runs c H m x (c(i \<mapsto> q))" "steady nm b T u q" unfolding moves_def by blast
  obtain q' where q': "runs (c(i \<mapsto> q)) H (f x) y ((c(i \<mapsto> q))(i \<mapsto> q'))" "steady nm b T w q'"
    using assms(2) q(2) unfolding moves_def by (metis fun_upd_same)
  have "runs c H (bindM m f) y ((c(i \<mapsto> q))(i \<mapsto> q'))" by (rule runs_bindM) (rule q(1), rule q'(1))
  then have "runs c H (bindM m f) y (c(i \<mapsto> q'))" by simp
  with q'(2) show "\<exists>q. runs c H (bindM m f) y (c(i \<mapsto> q)) \<and> steady nm b T w q" by blast
qed

lemma moves_retM: "moves nm b T H i v (retM x) x v"
  unfolding moves_def
proof (intro allI impI)
  fix c p assume "c i = Some p" "steady nm b T v p"
  then show "\<exists>q. runs c H (retM x) x (c(i \<mapsto> q)) \<and> steady nm b T v q"
    by (intro exI [of _ p]) (simp add: fun_upd_idem runs_retM del: retM_apply)
qed

lemma moves_one:
  assumes "\<And>c p. c i = Some p \<Longrightarrow> steady nm b T v p \<Longrightarrow> runs c H m x (c(i \<mapsto> f p))"
    and "\<And>p. steady nm b T v p \<Longrightarrow> steady nm b T u (f p)"
  shows "moves nm b T H i v m x u"
  unfolding moves_def using assms by blast

lemma moves_query:
  assumes "\<And>c p. c i = Some p \<Longrightarrow> steady nm b T v p \<Longrightarrow> runs c H m x c"
  shows "moves nm b T H i v m x v"
  by (rule moves_one [where f = "\<lambda>p. p"]) (use assms in \<open>simp_all add: fun_upd_idem\<close>)

lemma steadyD:
  assumes "steady nm b T v p"
  shows "no_callback k p" "refusal p None = None" "unwatched p" "p_type p = T" "m_value p = v"
  using assms by (simp_all add: steady_def unwatched_def)

lemma moves_get_value:
  fixes E :: "('v, 'j) env"
  shows "moves nm b T H i v (get_value E run (Suc n) i) v v"
proof (rule moves_one [where f = "\<lambda>p. if fast_read p then p else update_fast_read p"])
  fix c :: "('v, 'j) view" and p assume c: "c i = Some p" and p: "steady nm b T v p"
  have "runs c H (get_raw_value E run (Suc n) i (get_originator p)) v (c(i \<mapsto> update_fast_read p))"
    using runs_get_raw_value [where c = c and i = i, OF c steadyD(1) [OF p] steadyD(1) [OF p]] steadyD(5) [OF p] by simp
  then show "runs c H (get_value E run (Suc n) i) v (c(i \<mapsto> if fast_read p then p else update_fast_read p))"
    unfolding get_value_def
    by (intro runs_the_param [where c = c and i = i, OF c])
      (use c steadyD(5) [OF p] in \<open>auto simp: get_originator_def fun_upd_idem runs_retM simp del: retM_apply\<close>)
qed (simp add: steady_updates)

lemma moves_set_value:
  fixes E :: "('v, 'j) env"
  shows "moves nm b T H i v (set_value E run (Suc n) i u) () u"
proof (rule moves_one [where f = "\<lambda>p. if fast_write p then p\<lparr>m_value := u\<rparr>
      else update_fast_write E (m_originator p) (write_param u (m_originator p) p)"])
  fix c :: "('v, 'j) view" and p assume c: "c i = Some p" and p: "steady nm b T v p"
  have "handle_free (\<lambda>p. p\<lparr>m_value := u\<rparr>)" by (simp add: handle_free_def with_handles_of_def)
  then have fast: "runs c H (upd_param i (\<lambda>p. p\<lparr>m_value := u\<rparr>)) () (c(i \<mapsto> p\<lparr>m_value := u\<rparr>))"
    using c by (intro runs_upd_param)
  note full = runs_write_unwatched [where c = c and i = i, OF c steadyD(3) [OF p]]
  show "runs c H (set_value E run (Suc n) i u) () (c(i \<mapsto> if fast_write p then p\<lparr>m_value := u\<rparr>
      else update_fast_write E (m_originator p) (write_param u (m_originator p) p)))"
    unfolding set_value_def
    by (rule runs_the_param [where c = c and i = i, OF c]) (use fast full in \<open>simp add: get_originator_def\<close>)
qed (simp add: steady_updates)

lemma moves_handle_set:
  fixes E :: "('v, 'j) env"
  assumes h: "H h = Some d" "m_param d = Some i" and x: "unpack E T x = (True, u)"
  shows "moves nm b T H i v (handle_set_cci_value E run (Suc n) h x None) () u"
proof (rule moves_one [where f = "\<lambda>p. update_fast_write E (h_originator d) (write_param u (h_originator d) p)"])
  fix c :: "('v, 'j) view" and p assume c: "c i = Some p" and p: "steady nm b T v p"
  have "runs c H (set_cci_value E run (Suc n) i x None (h_originator d)) ()
      (c(i \<mapsto> update_fast_write E (h_originator d) (write_param u (h_originator d) p)))"
    by (rule runs_set_cci_value [where c = c and i = i, OF c])
      (use x steadyD [OF p] runs_write_unwatched [where c = c and i = i, OF c] in simp_all)
  then show "runs c H (handle_set_cci_value E run (Suc n) h x None) ()
      (c(i \<mapsto> update_fast_write E (h_originator d) (write_param u (h_originator d) p)))"
    unfolding handle_set_cci_value_def by (rule runs_handled [where H = H and h = h and i = i, OF h])
qed (rule steady_updates)

lemma moves_handle_get:
  fixes E :: "('v, 'j) env"
  assumes h: "H h = Some d" "m_param d = Some i" and x: "pack E T v = (True, x)"
  shows "moves nm b T H i v (handle_get_cci_value E run (Suc n) h) x v"
proof (rule moves_one [where f = update_fast_read])
  fix c :: "('v, 'j) view" and p assume c: "c i = Some p" and p: "steady nm b T v p"
  have "runs c H (get_cci_value E run (Suc n) i (h_originator d)) x (c(i \<mapsto> update_fast_read p))"
    using x steadyD [OF p] by (intro runs_get_cci_value [where c = c and i = i, OF c]) simp_all
  then show "runs c H (handle_get_cci_value E run (Suc n) h) x (c(i \<mapsto> update_fast_read p))"
    unfolding handle_get_cci_value_def by (rule runs_handled [where H = H and h = h and i = i, OF h])
qed (rule steady_updates)

lemma param_name_with_handles [simp]: "param_name (with_handles_of q p) = param_name p"
  by (simp add: param_name_def)

lemma moves_name: "moves nm b T H i v (read_param i param_name) (c_str nm) v"
  by (rule moves_query) (use runs_read_param [where f = param_name] in \<open>force simp: steady_def param_name_def\<close>)

lemma moves_handle_name:
  fixes E :: "('v, 'j) env"
  assumes h: "H h = Some d" "m_param d = Some i"
  shows "moves nm b T H i v (handle_query E h param_name) (c_str nm) v"
proof (rule moves_query)
  fix c :: "('v, 'j) view" and p assume c: "c i = Some p" and p: "steady nm b T v p"
  have "runs c H (read_param i param_name) (param_name p) c"
    by (rule runs_read_param [where c = c and i = i, OF c]) simp
  then show "runs c H (handle_query E h param_name) (c_str nm) c"
    unfolding handle_query_def using p
    by (intro runs_handled [where H = H and h = h and i = i, OF h]) (simp add: steady_def param_name_def)
qed

lemma moves_is_valid:
  assumes "H h = Some d" "m_param d = Some i"
  shows "moves nm b T H i v (read_handle h is_valid) True v"
proof (rule moves_query)
  show "runs c H (read_handle h is_valid) True c" for c
    unfolding read_handle_def
    by (rule runs_the_handle [where H = H and h = h, OF assms(1)]) (simp add: is_valid_def assms(2) runs_retM del: retM_apply)
qed

end
