(* ===== verification/Handle_Blocks.thy ===== *)
theory Handle_Blocks
  imports Handle_View
begin

text \<open>
  Blocks with handle objects in a vector: the vector is made, the block runs, and its handles are
  destroyed with it. \<open>leaves\<close> extends the triples of \<open>Handle_View\<close> by the handles that a computation
  leaves behind and by the brokers that it reads, and has one rule for sequences and one for blocks.
\<close>

section \<open>Vectors of handles\<close>

definition destroy_all :: "hid list \<Rightarrow> ('v, 'j) world \<Rightarrow> ('v, 'j) world" where
  "destroy_all hs s = fold destroy_handle hs s"

text \<open>\<open>scoped m f k\<close>: a local object that \<open>m\<close> makes and whose handles \<open>f\<close> lists, for the block \<open>k\<close>.\<close>

definition scoped :: "('v, 'j, 'a) cci \<Rightarrow> ('a \<Rightarrow> hid list) \<Rightarrow> ('a \<Rightarrow> ('v, 'j, 'b) cci) \<Rightarrow> ('v, 'j, 'b) cci" where
  "scoped m f k = bindM m (\<lambda>x. guardM (\<lambda>s. s) (k x) (destroy_all (f x)))"

text \<open>The copies of a vector.\<close>

fun copy_handles :: "('v, 'j) env \<Rightarrow> hid list \<Rightarrow> ('v, 'j, hid list) cci" where
  "copy_handles E [] = retM []"
| "copy_handles E (h # hs) =
     bindM (copy_handle E h) (\<lambda>g. bindM (copy_handles E hs) (\<lambda>gs. retM (g # gs)))"

section \<open>Handles in a world\<close>

text \<open>New handles: their addresses, the parameters that they are of and their originators.\<close>

type_synonym new_handles = "(hid \<times> pid \<times> originator) list"

definition attach_all :: "new_handles \<Rightarrow> ('v, 'j) world \<Rightarrow> ('v, 'j) world" where
  "attach_all l s = fold (\<lambda>(h, i, og). attach_handle h (Some i) og) l s"

definition with_new :: "(hid \<Rightarrow> param_handle option) \<Rightarrow> new_handles \<Rightarrow> hid \<Rightarrow> param_handle option" where
  "with_new H l = fold (\<lambda>(h, i, og) H. H(h \<mapsto> \<lparr>m_param = Some i, h_originator = og\<rparr>)) l H"

lemma attach_all_simps [simp]:
  "attach_all [] s = s" "attach_all ((h, i, og) # l) s = attach_all l (attach_handle h (Some i) og s)"
  "attach_all (l @ l') s = attach_all l' (attach_all l s)"
  by (simp_all add: attach_all_def)

lemma with_new_simps [simp]:
  "with_new H [] = H" "with_new H ((h, i, og) # l) = with_new (H(h \<mapsto> \<lparr>m_param = Some i, h_originator = og\<rparr>)) l"
  "with_new H (l @ l') = with_new (with_new H l) l'"
  by (simp_all add: with_new_def)

lemma destroy_all_simps [simp]:
  "destroy_all [] s = s" "destroy_all (h # hs) s = destroy_all hs (destroy_handle h s)"
  by (simp_all add: destroy_all_def)

lemma with_new_other: "h \<notin> fst ` set l \<Longrightarrow> with_new H l h = H h"
  by (induction l arbitrary: H) auto

lemma with_new_at: "distinct (map fst l) \<Longrightarrow> (h, i, og) \<in> set l \<Longrightarrow> with_new H l h = Some \<lparr>m_param = Some i, h_originator = og\<rparr>"
proof (induction l arbitrary: H)
  case (Cons x l)
  then show ?case by (cases x) (force simp: with_new_other)
qed simp

lemma dom_with_new: "dom (with_new H l) = dom H \<union> fst ` set l"
proof (induction l arbitrary: H)
  case (Cons x l)
  then show ?case by (cases x) (simp only: with_new_simps Cons.IH, auto)
qed simp

lemma attach_handle_bump: "attach_handle h i og (bump k s) = bump k (attach_handle h i og s)"
  by (simp add: attach_handle_def bump_def map_param_def split: option.split)

lemma attach_all_bump: "attach_all l (bump k s) = bump k (attach_all l s)"
  by (induction l arbitrary: s) (auto simp: attach_handle_bump)

lemma attach_handle_other [simp]:
  "brokers (attach_handle h i og s) = brokers s" "next_address (attach_handle h i og s) = next_address s"
  "m_brokers (attach_handle h i og s) = m_brokers s" "sc_names (attach_handle h i og s) = sc_names s"
  "reports (attach_handle h i og s) = reports s"
  by (simp_all add: attach_handle_def split: option.split)

lemma handles_attach: "handles (attach_handle h (Some i) og s) = (handles s)(h \<mapsto> \<lparr>m_param = Some i, h_originator = og\<rparr>)"
  by (simp add: attach_handle_def)

lemma dom_params_attach [simp]: "dom (params (attach_handle h i og s)) = dom (params s)"
  by (auto simp: attach_handle_def split: option.split if_splits)

lemma attach_all_other [simp]:
  "brokers (attach_all l s) = brokers s" "next_address (attach_all l s) = next_address s" "m_brokers (attach_all l s) = m_brokers s"
  "sc_names (attach_all l s) = sc_names s" "reports (attach_all l s) = reports s" "handles (attach_all l s) = with_new (handles s) l"
  "dom (params (attach_all l s)) = dom (params s)"
proof -
  have "brokers (attach_all l s) = brokers s \<and> next_address (attach_all l s) = next_address s \<and> m_brokers (attach_all l s) = m_brokers s
    \<and> sc_names (attach_all l s) = sc_names s \<and> reports (attach_all l s) = reports s \<and> handles (attach_all l s) = with_new (handles s) l
    \<and> dom (params (attach_all l s)) = dom (params s)"
  proof (induction l arbitrary: s)
    case (Cons x l)
    show ?case by (cases x) (simp only: attach_all_simps with_new_simps Cons.IH attach_handle_other handles_attach dom_params_attach simp_thms)
  qed simp
  then show "brokers (attach_all l s) = brokers s" "next_address (attach_all l s) = next_address s" "m_brokers (attach_all l s) = m_brokers s"
    "sc_names (attach_all l s) = sc_names s" "reports (attach_all l s) = reports s" "handles (attach_all l s) = with_new (handles s) l"
    "dom (params (attach_all l s)) = dom (params s)" by blast+
qed

lemma attach_handle_put:
  assumes "dom c = dom (params s)"
  shows "attach_handle h (Some i) og (put c s) = put c (attach_handle h (Some i) og s)"
  using push_handle_put [OF assms, of i h] by (simp add: attach_handle_def)

lemma attach_all_put: "dom c = dom (params s) \<Longrightarrow> attach_all l (put c s) = put c (attach_all l s)"
  by (induction l arbitrary: s) (auto simp: attach_handle_put)

text \<open>Destroying a handle commutes with the making of others, and undoes its own.\<close>

lemma drop_push_other: "h \<noteq> g \<Longrightarrow> drop_handle h (push_handle g p) = push_handle g (drop_handle h p)"
  by (simp add: drop_handle_def push_handle_def)

lemma destroy_attach_other:
  assumes "h \<noteq> g"
  shows "destroy_handle h (attach_handle g (Some i) og s) = attach_handle g (Some i) og (destroy_handle h s)"
proof (cases "handles s h")
  case None
  with assms show ?thesis
    by (simp add: destroy_handle_def detach_handle_def forget_handle_def attach_handle_def map_param_def fun_upd_twist fun_eq_iff)
next
  case (Some d)
  with assms show ?thesis
    by (cases "m_param d")
      (auto simp: destroy_handle_def detach_handle_def forget_handle_def attach_handle_def map_param_def fun_eq_iff
         option.map_comp comp_def drop_push_other)
qed

lemma destroy_attach_all_other: "h \<notin> fst ` set l \<Longrightarrow> destroy_handle h (attach_all l s) = attach_all l (destroy_handle h s)"
  by (induction l arbitrary: s) (auto simp: destroy_attach_other)

lemma destroy_attach:
  assumes ok: "handles_ok s" and h: "handles s h = None" and p: "params s i = Some p"
  shows "destroy_handle h (attach_handle h (Some i) og s) = s"
proof -
  have "h \<notin> set (m_param_handles p)" using handles_okD(3) [OF ok p, of h] h by auto
  then have "map_option (drop_handle h) (map_option (push_handle h) (params s i)) = params s i"
    using p by (simp add: drop_handle_def push_handle_def removeAll_id)
  then show ?thesis
    using h by (simp add: destroy_handle_def detach_handle_def forget_handle_def attach_handle_def map_param_def fun_upd_idem)
qed

text \<open>The handles \<open>l\<close> are new in \<open>s\<close>: their addresses are free, and their parameters are alive.\<close>

definition fit_in :: "new_handles \<Rightarrow> ('v, 'j) world \<Rightarrow> bool" where
  "fit_in l s \<longleftrightarrow> distinct (map fst l) \<and> (\<forall>h i og. (h, i, og) \<in> set l \<longrightarrow> h < next_address s \<and> handles s h = None \<and> params s i \<noteq> None)"

lemma fit_inD:
  assumes "fit_in l s"
  shows "distinct (map fst l)" and "(h, i, og) \<in> set l \<Longrightarrow> h < next_address s"
    and "(h, i, og) \<in> set l \<Longrightarrow> handles s h = None" and "(h, i, og) \<in> set l \<Longrightarrow> \<exists>p. params s i = Some p"
  using assms unfolding fit_in_def by blast+

lemma fit_inI:
  assumes "distinct (map fst l)" and "\<And>h i og. (h, i, og) \<in> set l \<Longrightarrow> h < next_address s \<and> handles s h = None \<and> (\<exists>p. params s i = Some p)"
  shows "fit_in l s"
  using assms unfolding fit_in_def by blast

lemma fit_in_tail: "fit_in (x # l) s \<Longrightarrow> fit_in l s"
  by (rule fit_inI) (auto dest: fit_inD)

lemma fit_in_attach:
  assumes "fit_in ((h, i, og) # l) s" and "handles_ok s"
  shows "handles_ok (attach_handle h (Some i) og s)" and "fit_in l (attach_handle h (Some i) og s)"
proof -
  show "handles_ok (attach_handle h (Some i) og s)"
    using assms by (intro handles_ok_attach) (auto simp: fit_in_def)
  have "params (attach_handle h (Some i) og s) j \<noteq> None \<longleftrightarrow> params s j \<noteq> None" for j
    by (auto simp: attach_handle_def)
  moreover have "h \<noteq> g" if "(g, x) \<in> set l" for g x
    using assms(1) that by (force simp: fit_in_def)
  ultimately show "fit_in l (attach_handle h (Some i) og s)"
    using assms(1) by (simp add: fit_in_def handles_attach) metis
qed

lemma handles_ok_attach_all: "handles_ok s \<Longrightarrow> fit_in l s \<Longrightarrow> handles_ok (attach_all l s)"
proof (induction l arbitrary: s)
  case (Cons x l)
  obtain h i og where x: "x = (h, i, og)" by (cases x)
  show ?case using Cons.IH [OF fit_in_attach] Cons.prems by (simp add: x)
qed simp

lemma destroy_all_attach_all: "handles_ok s \<Longrightarrow> fit_in l s \<Longrightarrow> destroy_all (map fst l) (attach_all l s) = s"
proof (induction l arbitrary: s)
  case (Cons x l)
  obtain h i og where x: "x = (h, i, og)" by (cases x)
  let ?s = "attach_handle h (Some i) og s"
  have "h \<notin> fst ` set l" using Cons.prems(2) by (auto simp: fit_in_def x)
  then have "destroy_all (map fst (x # l)) (attach_all (x # l) s) = destroy_all (map fst l) (attach_all l (destroy_handle h ?s))"
    by (simp add: x destroy_attach_all_other)
  also have "destroy_handle h ?s = s"
    using fit_inD(3,4) [OF Cons.prems(2), of h i og] Cons.prems(1) by (auto simp: x intro: destroy_attach)
  finally show ?case using Cons.IH [OF Cons.prems(1) fit_in_tail [OF Cons.prems(2)]] by simp
qed simp

lemma destroy_all_put: "destroy_all hs (put c s) = put c (destroy_all hs s)"
  by (induction hs arbitrary: s) (simp_all add: destroy_handle_put)

lemma destroy_all_bump: "destroy_all hs (bump k s) = bump k (destroy_all hs s)"
  by (induction hs arbitrary: s) (simp_all add: destroy_handle_bump)

lemma destroy_all_attach_other: "set hs \<inter> fst ` set l = {} \<Longrightarrow> destroy_all hs (attach_all l s) = attach_all l (destroy_all hs s)"
  by (induction hs arbitrary: s) (auto simp: destroy_attach_all_other)

section \<open>Triples with handles that stay\<close>

text \<open>
  \<open>leaves B S H m Q S'\<close>: in a world with the brokers \<open>B\<close>, parameters that \<open>S\<close> admits and at least the
  handles \<open>H\<close>, \<open>m\<close> returns a value \<open>x\<close>; it leaves parameters that \<open>S'\<close> admits and new handles \<open>l\<close>,
  and \<open>Q x l\<close> holds. Nothing else of the world differs but the next free address.
\<close>

definition leaves :: "(bid \<Rightarrow> 'j broker option) \<Rightarrow> (('v, 'j) view \<Rightarrow> bool) \<Rightarrow> (hid \<Rightarrow> param_handle option) \<Rightarrow> ('v, 'j, 'a) cci
    \<Rightarrow> ('a \<Rightarrow> new_handles \<Rightarrow> bool) \<Rightarrow> (('v, 'j) view \<Rightarrow> bool) \<Rightarrow> bool" where
  "leaves B S H m Q S' \<longleftrightarrow> (\<forall>c s. S c \<longrightarrow> has_view c H s \<longrightarrow> brokers s = B \<longrightarrow>
     (\<exists>x l k c'. m (put c s) = (Ret x, put c' (attach_all l (bump k s))) \<and> S' c' \<and> dom c' = dom c
        \<and> fit_in l (bump k s) \<and> (\<forall>h \<in> fst ` set l. next_address s \<le> h) \<and> Q x l))"

definition does :: "(bid \<Rightarrow> 'j broker option) \<Rightarrow> (('v, 'j) view \<Rightarrow> bool) \<Rightarrow> (hid \<Rightarrow> param_handle option) \<Rightarrow> ('v, 'j, 'a) cci
    \<Rightarrow> 'a \<Rightarrow> (('v, 'j) view \<Rightarrow> bool) \<Rightarrow> bool" where
  "does B S H m x S' \<longleftrightarrow> leaves B S H m (\<lambda>y l. y = x \<and> l = []) S'"

lemma leavesE:
  assumes "leaves B S H m Q S'" and "S c" and "has_view c H s" and "brokers s = B"
  obtains x l k c' where "m (put c s) = (Ret x, put c' (attach_all l (bump k s)))" and "S' c'" and "dom c' = dom c"
    and "fit_in l (bump k s)" and "\<forall>h \<in> fst ` set l. next_address s \<le> h" and "Q x l"
  using assms(1) [unfolded leaves_def, rule_format, OF assms(2-4)] by (elim exE conjE)

lemma leavesI:
  assumes "\<And>c s. S c \<Longrightarrow> has_view c H s \<Longrightarrow> brokers s = B \<Longrightarrow>
    \<exists>x l k c'. m (put c s) = (Ret x, put c' (attach_all l (bump k s))) \<and> S' c' \<and> dom c' = dom c
      \<and> fit_in l (bump k s) \<and> (\<forall>h \<in> fst ` set l. next_address s \<le> h) \<and> Q x l"
  shows "leaves B S H m Q S'"
  unfolding leaves_def using assms by (intro allI impI)

lemma leaves_weaken:
  assumes m: "leaves B S H m Q S'" and "\<And>c. T c \<Longrightarrow> S c" and "\<And>x l. Q x l \<Longrightarrow> R x l" and "\<And>c. S' c \<Longrightarrow> T' c"
  shows "leaves B T H m R T'"
proof (rule leavesI)
  fix c s assume c: "T c" and s: "has_view c H s" "brokers s = B"
  from c have "S c" by (rule assms(2))
  from m this s obtain x l k c' where "m (put c s) = (Ret x, put c' (attach_all l (bump k s)))" "S' c'" "dom c' = dom c"
    "fit_in l (bump k s)" "\<forall>h \<in> fst ` set l. next_address s \<le> h" "Q x l" by (rule leavesE)
  with assms(3,4) show "\<exists>x l k c'. m (put c s) = (Ret x, put c' (attach_all l (bump k s))) \<and> T' c' \<and> dom c' = dom c
      \<and> fit_in l (bump k s) \<and> (\<forall>h \<in> fst ` set l. next_address s \<le> h) \<and> R x l" by metis
qed

lemma does_runs:
  assumes "\<And>c. S c \<Longrightarrow> \<exists>c'. runs c H m x c' \<and> S' c'"
  shows "does B S H m x S'"
  unfolding does_def
proof (rule leavesI)
  fix c s assume "S c" and s: "has_view c H s"
  with assms obtain c' where "runs c H m x c'" "S' c'" by blast
  with s show "\<exists>y l k c'. m (put c s) = (Ret y, put c' (attach_all l (bump k s))) \<and> S' c' \<and> dom c' = dom c
      \<and> fit_in l (bump k s) \<and> (\<forall>h \<in> fst ` set l. next_address s \<le> h) \<and> y = x \<and> l = []"
    by (auto elim!: runsE simp: fit_in_def)
qed

lemma leaves_retM: "does B S H (retM x) x S"
  by (rule does_runs) (blast intro: runs_retM)

lemma has_view_attach_all:
  assumes s: "has_view c H s" and l: "fit_in l s" and out: "\<forall>h \<in> fst ` set l. h \<notin> dom (handles s)"
  shows "has_view c (with_new H l) (attach_all l s)"
proof -
  have "with_new H l \<subseteq>\<^sub>m with_new (handles s) l"
  proof (unfold map_le_def, rule ballI)
    fix h assume h: "h \<in> dom (with_new H l)"
    show "with_new H l h = with_new (handles s) l h"
    proof (cases "h \<in> fst ` set l")
      case True
      then obtain i og where "(h, i, og) \<in> set l" by force
      with l show ?thesis by (simp add: fit_in_def with_new_at)
    next
      case False
      with h s show ?thesis by (auto simp: with_new_other dom_with_new has_view_def map_le_def)
    qed
  qed
  moreover have "handles_ok (attach_all l s)" using s l by (simp add: has_view_def handles_ok_attach_all)
  moreover have "dom (params (attach_all l s)) = dom (params s)" by (rule attach_all_other(7))
  ultimately show ?thesis using s by (simp add: has_view_def)
qed

lemma fit_in_append:
  assumes "fit_in l s" and "fit_in l' (bump k (attach_all l s))" and "\<forall>h \<in> fst ` set l'. next_address s \<le> h"
  shows "fit_in (l @ l') (bump k s)"
proof -
  note l = fit_inD [OF assms(1)] and l' = fit_inD [OF assms(2)]
  have out: "fst ` set l \<inter> fst ` set l' = {}" using l(2) assms(3) by fastforce
  have alive: "\<exists>p. params s i = Some p" if "(h, i, og) \<in> set l'" for h i og
    using l'(4) [OF that] attach_all_other(7) [of l s] by (simp add: dom_def set_eq_iff)
  have free: "handles s h = None" if "(h, i, og) \<in> set l'" for h i og
  proof -
    have "h \<notin> fst ` set l" using out that by force
    with l'(3) [OF that] show ?thesis by (simp add: with_new_other)
  qed
  have "distinct (map fst (l @ l'))" using l(1) l'(1) out by simp
  then show ?thesis
  proof (rule fit_inI)
    fix h i og assume "(h, i, og) \<in> set (l @ l')"
    then consider "(h, i, og) \<in> set l" | "(h, i, og) \<in> set l'" by auto
    then show "h < next_address (bump k s) \<and> handles (bump k s) h = None \<and> (\<exists>p. params (bump k s) i = Some p)"
      by cases (use l l' alive free in \<open>auto simp: trans_less_add1\<close>)
  qed
qed

lemma left_behind:
  assumes s: "has_view c H s" and l: "fit_in l (bump k s)" and dom: "dom c1 = dom c"
  shows "fst ` set l \<inter> dom H = {}" and "distinct (map fst l)" and "has_view c1 (with_new H l) (attach_all l (bump k s))"
proof -
  have new: "handles s h = None" if "h \<in> fst ` set l" for h using fit_inD(3) [OF l] that by auto
  with s show "fst ` set l \<inter> dom H = {}" by (force simp: has_view_def map_le_def)
  show "distinct (map fst l)" using l by (simp add: fit_in_def)
  have "\<forall>h \<in> fst ` set l. h \<notin> dom (handles s)" by (intro ballI) (simp add: new domIff)
  then have "has_view c (with_new H l) (attach_all l (bump k s))"
    using s l by (intro has_view_attach_all) (simp_all add: has_view_def)
  with dom show "has_view c1 (with_new H l) (attach_all l (bump k s))" by (simp add: has_view_def)
qed

text \<open>A sequence, whose second part may use the handles that the first one leaves.\<close>

lemma leaves_bindM:
  assumes m: "leaves B S H m P S1"
    and f: "\<And>x l. P x l \<Longrightarrow> fst ` set l \<inter> dom H = {} \<Longrightarrow> distinct (map fst l) \<Longrightarrow>
      leaves B S1 (with_new H l) (f x) (\<lambda>y l'. Q y (l @ l')) S2"
  shows "leaves B S H (bindM m f) Q S2"
proof (rule leavesI)
  fix c s assume S: "S c" and s: "has_view c H s" "brokers s = B"
  from m S s obtain x l k c1 where x: "m (put c s) = (Ret x, put c1 (attach_all l (bump k s)))" "S1 c1" "dom c1 = dom c"
    and l: "fit_in l (bump k s)" "\<forall>h \<in> fst ` set l. next_address s \<le> h" "P x l" by (rule leavesE)
  note new = left_behind [OF s(1) l(1) x(3)]
  have B: "brokers (attach_all l (bump k s)) = B" using s(2) by simp
  from leavesE [OF f [OF l(3) new(1,2)] x(2) new(3) B]
  obtain y l' k' c2 where y: "f x (put c1 (attach_all l (bump k s))) = (Ret y, put c2 (attach_all l' (bump k' (attach_all l (bump k s)))))"
    "S2 c2" "dom c2 = dom c1" and l': "fit_in l' (bump k' (attach_all l (bump k s)))"
      "\<forall>h \<in> fst ` set l'. next_address (attach_all l (bump k s)) \<le> h" "Q y (l @ l')" by metis
  have "fit_in (l @ l') (bump k' (bump k s))"
    by (rule fit_in_append [OF l(1) l'(1)]) (use l'(2) in simp)
  moreover have "attach_all l' (bump k' (attach_all l (bump k s))) = attach_all (l @ l') (bump (k + k') s)"
    by (simp add: attach_all_bump [symmetric])
  ultimately show "\<exists>x l k c'. bindM m f (put c s) = (Ret x, put c' (attach_all l (bump k s))) \<and> S2 c' \<and> dom c' = dom c
      \<and> fit_in l (bump k s) \<and> (\<forall>h \<in> fst ` set l. next_address s \<le> h) \<and> Q x l"
    using x y l l'
    by (intro exI [of _ y] exI [of _ "l @ l'"] exI [of _ "k + k'"] exI [of _ c2]) (auto simp: bindM_def)
qed

lemma does_then:
  assumes "does B S H m x S1" and "leaves B S1 H (f x) Q S2"
  shows "leaves B S H (bindM m f) Q S2"
  using assms(1) unfolding does_def by (rule leaves_bindM) (use assms(2) in simp)

lemma does_bindM: "does B S H m x S1 \<Longrightarrow> does B S1 H (f x) y S2 \<Longrightarrow> does B S H (bindM m f) y S2"
  unfolding does_def [of _ _ _ "bindM m f"] by (erule does_then) (simp add: does_def)

text \<open>A block: the handles that its object has are gone afterwards, others stay.\<close>

lemma leaves_scoped:
  assumes m: "leaves B S H m P S1" and own: "\<And>x l. P x l \<Longrightarrow> g x = map fst l"
    and f: "\<And>x l. P x l \<Longrightarrow> fst ` set l \<inter> dom H = {} \<Longrightarrow> distinct (map fst l) \<Longrightarrow>
      leaves B S1 (with_new H l) (f x) Q S2"
  shows "leaves B S H (scoped m g f) Q S2"
proof (rule leavesI)
  fix c s assume S: "S c" and s: "has_view c H s" "brokers s = B"
  from m S s obtain x l k c1 where x: "m (put c s) = (Ret x, put c1 (attach_all l (bump k s)))" "S1 c1" "dom c1 = dom c"
    and l: "fit_in l (bump k s)" "\<forall>h \<in> fst ` set l. next_address s \<le> h" "P x l" by (rule leavesE)
  note new = left_behind [OF s(1) l(1) x(3)]
  have B: "brokers (attach_all l (bump k s)) = B" using s(2) by simp
  from leavesE [OF f [OF l(3) new(1,2)] x(2) new(3) B]
  obtain y l' k' c2 where y: "f x (put c1 (attach_all l (bump k s))) = (Ret y, put c2 (attach_all l' (bump k' (attach_all l (bump k s)))))"
    "S2 c2" "dom c2 = dom c1" and l': "fit_in l' (bump k' (attach_all l (bump k s)))"
      "\<forall>h \<in> fst ` set l'. next_address (attach_all l (bump k s)) \<le> h" "Q y l'" by metis
  have apart: "set (map fst l) \<inter> fst ` set l' = {}"
    using l(1) l'(2) by (fastforce simp: fit_in_def)
  have fit: "fit_in l' (bump k' (bump k s))"
    using fit_in_append [OF l(1) l'(1)] l'(2) by (auto simp: fit_in_def)
  have "handles_ok (bump k s)" using s(1) by (simp add: has_view_def)
  then have "destroy_all (map fst l) (attach_all l' (bump k' (attach_all l (bump k s)))) = attach_all l' (bump (k + k') s)"
    using l(1) by (simp add: destroy_all_attach_other [OF apart] destroy_all_bump destroy_all_attach_all)
  then show "\<exists>x l k c'. scoped m g f (put c s) = (Ret x, put c' (attach_all l (bump k s))) \<and> S2 c' \<and> dom c' = dom c
      \<and> fit_in l (bump k s) \<and> (\<forall>h \<in> fst ` set l. next_address s \<le> h) \<and> Q x l"
    using x y l(2) l' own [OF l(3)] fit
    by (intro exI [of _ y] exI [of _ l'] exI [of _ "k + k'"] exI [of _ c2])
      (auto simp: scoped_def bindM_def guardM_def destroy_all_put)
qed

end
