(* ===== verification/Param_Range.thy ===== *)
theory Param_Range
  imports Handle_Blocks Steady_Params Filtered_Range
begin

text \<open>
  Ranges of parameter handles (cci_broker_types.h): a \<open>cci_filtered_range\<close> over a vector of handles whose
  predicate is user code that gets a handle and may ask the parameter for its name, its value and so
  on, and the operation of the brokers that makes one (consuming_broker.cpp). The laws say when such a
  range behaves like the range of \<open>Filtered_Range\<close> with a function for a predicate.
\<close>

section \<open>The range\<close>

record ('v, 'j) param_range =
  pr_pred :: "hid \<Rightarrow> ('v, 'j, bool) cci"
  pr_container :: "hid list"
  pr_begin :: range_iterator

function skip_forward_with :: "(hid \<Rightarrow> ('v, 'j, bool) cci) \<Rightarrow> hid list \<Rightarrow> nat \<Rightarrow> ('v, 'j, nat) cci" where
  "skip_forward_with pr hs c =
     (if c < length hs then bindM (pr (hs ! c)) (\<lambda>b. if b then retM c else skip_forward_with pr hs (Suc c))
      else retM c)"
  by pat_completeness auto

termination
  by (relation "measure (\<lambda>(pr, hs, c). length hs - c)") auto

definition param_increment :: "('v, 'j) param_range \<Rightarrow> range_iterator \<Rightarrow> ('v, 'j, range_iterator) cci" where
  "param_increment r it =
     (if m_fr it then
        let c = (if m_current it \<noteq> length (pr_container r) then Suc (m_current it) else m_current it)
        in bindM (skip_forward_with (pr_pred r) (pr_container r) c) (\<lambda>c. retM (it\<lparr>m_current := c\<rparr>))
      else retM it)"

definition param_range_init :: "('v, 'j) param_range \<Rightarrow> ('v, 'j, ('v, 'j) param_range) cci" where
  "param_range_init r =
     (if m_current (pr_begin r) \<noteq> length (pr_container r) then
        bindM (pr_pred r (pr_container r ! m_current (pr_begin r))) (\<lambda>b.
          if \<not> b then bindM (param_increment r (pr_begin r)) (\<lambda>it. retM (r\<lparr>pr_begin := it\<rparr>)) else retM r)
      else retM r)"

text \<open>The constructor copies the container, which dies with the range if the predicate throws.\<close>

definition new_param_range :: "('v, 'j) env \<Rightarrow> (hid \<Rightarrow> ('v, 'j, bool) cci) \<Rightarrow> hid list \<Rightarrow> ('v, 'j, ('v, 'j) param_range) cci" where
  "new_param_range E pr hs =
     bindM (copy_handles E hs) (\<lambda>cs.
       on_exception
         (param_range_init \<lparr>pr_pred = pr, pr_container = cs, pr_begin = \<lparr>m_current = 0, m_fr = True\<rparr>\<rparr>)
         (modM (destroy_all cs)))"

text \<open>\<open>get_param_handles(pred, originator)\<close>: the vector that the range is made of is a temporary.\<close>

definition get_param_range :: "('v, 'j) env \<Rightarrow> nat \<Rightarrow> bid \<Rightarrow> (hid \<Rightarrow> ('v, 'j, bool) cci) \<Rightarrow> originator
    \<Rightarrow> ('v, 'j, ('v, 'j) param_range) cci" where
  "get_param_range E n b pr og = scoped (get_param_handles E n b og) (\<lambda>hs. hs) (new_param_range E pr)"

text \<open>\<open>for (it = r.begin(); it != r.end(); ++it) f(*it)\<close>, with what \<open>f\<close> returns; \<open>n\<close> bounds the rounds.\<close>

fun range_for :: "nat \<Rightarrow> ('v, 'j) param_range \<Rightarrow> range_iterator \<Rightarrow> (hid \<Rightarrow> ('v, 'j, 'a) cci) \<Rightarrow> ('v, 'j, 'a list) cci" where
  "range_for 0 r it f = nofuelM"
| "range_for (Suc n) r it f =
     (if m_current it \<noteq> length (pr_container r) then
        bindM (f (pr_container r ! m_current it)) (\<lambda>x.
          bindM (param_increment r it) (\<lambda>it. bindM (range_for n r it f) (\<lambda>xs. retM (x # xs))))
      else retM [])"

text \<open>A loop over a vector.\<close>

fun for_each :: "hid list \<Rightarrow> (hid \<Rightarrow> ('v, 'j, 'a) cci) \<Rightarrow> ('v, 'j, 'a list) cci" where
  "for_each [] f = retM []"
| "for_each (h # hs) f = bindM (f h) (\<lambda>x. bindM (for_each hs f) (\<lambda>xs. retM (x # xs)))"

section \<open>Making vectors of handles\<close>

lemma leaves_handle_to:
  assumes "\<And>c. S c \<Longrightarrow> \<exists>p. c i = Some p"
  shows "leaves B S H (handle_to i og) (\<lambda>h l. l = [(h, i, og)]) S"
proof (rule leavesI)
  fix c s assume c: "S c" and s: "has_view c H s" and "brokers s = B"
  obtain p where p: "c i = Some p" using assms [OF c] by blast
  obtain q where q: "params s i = Some q" "params (put c s) i = Some (with_handles_of q p)" using s p by (rule has_view_alive)
  have dom: "dom c = dom (params s)" and ok: "handles_ok s" using s by (simp_all add: has_view_def)
  let ?h = "next_address s"
  have "handles s ?h = None" using handles_okD(1) [OF ok] by (simp add: fresh_def)
  then have "fit_in [(?h, i, og)] (bump 1 s)" using q by (simp add: fit_in_def)
  moreover have "handle_to i og (put c s) = (Ret ?h, put c (attach_all [(?h, i, og)] (bump 1 s)))"
    using q(2) new_handle_put [OF dom, of i og] by (simp add: handle_to_def alloc_handle_def new_handle_def bump_def)
  ultimately show "\<exists>x l k c'. handle_to i og (put c s) = (Ret x, put c' (attach_all l (bump k s))) \<and> S c' \<and> dom c' = dom c
      \<and> fit_in l (bump k s) \<and> (\<forall>h \<in> fst ` set l. next_address s \<le> h) \<and> l = [(x, i, og)]"
    using c by (intro exI [of _ ?h] exI [of _ "[(?h, i, og)]"] exI [of _ 1] exI [of _ c]) simp
qed

lemma does_the_handle: "H h = Some d \<Longrightarrow> does B S H (the_handle h) d S"
  by (rule does_runs) (auto intro!: exI runs_the_handle [where f = retM, simplified] runs_retM simp del: retM_apply)

lemma does_promote: "does B S H (promote_originator E og) (promoted E og) S"
  unfolding promote_originator_run by (rule leaves_retM)

lemma leaves_copy_handle:
  assumes h: "H h = Some d" "m_param d = Some i" and "\<And>c. S c \<Longrightarrow> \<exists>p. c i = Some p"
  shows "leaves B S H (copy_handle E h) (\<lambda>g l. l = [(g, i, promoted E (h_originator d))]) S"
  unfolding copy_handle_def
  by (rule does_then [OF does_the_handle [where H = H and h = h, OF h(1)]], rule does_then [OF does_promote])
    (use assms in \<open>simp add: leaves_handle_to\<close>)

text \<open>The handles \<open>hs\<close> are those of the parameters \<open>is\<close>.\<close>

definition handles_for :: "(hid \<Rightarrow> param_handle option) \<Rightarrow> hid list \<Rightarrow> pid list \<Rightarrow> bool" where
  "handles_for H hs is \<longleftrightarrow> list_all2 (\<lambda>h i. \<exists>d. H h = Some d \<and> m_param d = Some i) hs is"

lemma leaves_append:
  assumes "leaves B S H m P S1"
    and "\<And>x l. P x l \<Longrightarrow> fst ` set l \<inter> dom H = {} \<Longrightarrow> distinct (map fst l) \<Longrightarrow> leaves B S1 (with_new H l) (f x) (R x l) S2"
    and "\<And>x l y l'. P x l \<Longrightarrow> R x l y l' \<Longrightarrow> Q (g x y) (l @ l')"
  shows "leaves B S H (bindM m (\<lambda>x. bindM (f x) (\<lambda>y. retM (g x y)))) Q S2"
proof (rule leaves_bindM [OF assms(1)])
  fix x l assume P: "P x l" and new: "fst ` set l \<inter> dom H = {}" "distinct (map fst l)"
  show "leaves B S1 (with_new H l) (bindM (f x) (\<lambda>y. retM (g x y))) (\<lambda>y l'. Q y (l @ l')) S2"
  proof (rule leaves_bindM [OF assms(2) [OF P new]])
    fix y l' assume "R x l y l'"
    then have Q: "Q (g x y) (l @ l')" by (rule assms(3) [OF P])
    have "does B S2 (with_new (with_new H l) l') (retM (g x y)) (g x y) S2" by (rule leaves_retM)
    then show "leaves B S2 (with_new (with_new H l) l') (retM (g x y)) (\<lambda>z l''. Q z (l @ l' @ l'')) S2"
      unfolding does_def by (rule leaves_weaken) (use Q in auto)
  qed
qed

definition vector_of :: "pid list \<Rightarrow> hid list \<Rightarrow> new_handles \<Rightarrow> bool" where
  "vector_of is hs l \<longleftrightarrow> hs = map fst l \<and> map (fst \<circ> snd) l = is"

lemma handles_for_mono: "handles_for H hs is \<Longrightarrow> fst ` set l \<inter> dom H = {} \<Longrightarrow> handles_for (with_new H l) hs is"
  unfolding handles_for_def
proof (erule list_all2_mono)
  fix h i assume out: "fst ` set l \<inter> dom H = {}" and d: "\<exists>d. H h = Some d \<and> m_param d = Some i"
  from d have "h \<in> dom H" by auto
  with out have "h \<notin> fst ` set l" by blast
  with d show "\<exists>d. with_new H l h = Some d \<and> m_param d = Some i" by (simp add: with_new_other)
qed

lemma vector_of_handles:
  assumes "vector_of is hs l" and "distinct (map fst l)"
  shows "handles_for (with_new H l) hs is"
proof -
  have "\<exists>d. with_new H l (fst (l ! j)) = Some d \<and> m_param d = Some (fst (snd (l ! j)))" if "j < length l" for j
    using with_new_at [OF assms(2), of "fst (l ! j)" "fst (snd (l ! j))" "snd (snd (l ! j))" H] that by simp
  with assms(1) show ?thesis
    by (auto simp: vector_of_def handles_for_def list_all2_conv_all_nth)
qed

lemma leaves_copy_handles:
  assumes "handles_for H hs is" and "\<And>i c. i \<in> set is \<Longrightarrow> S c \<Longrightarrow> \<exists>p. c i = Some p"
  shows "leaves B S H (copy_handles E hs) (vector_of is) S"
  using assms
proof (induction hs arbitrary: "is" H)
  case Nil
  have "does B S H (retM []) [] S" by (rule leaves_retM)
  then show ?case unfolding does_def copy_handles.simps by (rule leaves_weaken) (use Nil in \<open>auto simp: handles_for_def vector_of_def\<close>)
next
  case (Cons h hs)
  obtain i js d where js: "is = i # js" and d: "H h = Some d" "m_param d = Some i" and hs: "handles_for H hs js"
    using Cons.prems(1) by (auto simp: handles_for_def list_all2_Cons1)
  show ?case
    unfolding copy_handles.simps
  proof (rule leaves_append [OF leaves_copy_handle [where H = H and h = h, OF d]])
    show "\<exists>p. c i = Some p" if "S c" for c using Cons.prems(2) [OF _ that] js by simp
    show "leaves B S (with_new H l) (copy_handles E hs) (vector_of js) S" if "fst ` set l \<inter> dom H = {}" for l :: new_handles
      using handles_for_mono [OF hs that] Cons.prems(2) js by (intro Cons.IH) auto
  qed (auto simp: vector_of_def js)
qed

lemma leaves_handles_of:
  assumes "\<And>i c. i \<in> snd ` set es \<Longrightarrow> S c \<Longrightarrow> \<exists>p. c i = Some p"
  shows "leaves B S H (handles_of E og es) (vector_of (map snd es)) S"
  using assms
proof (induction es arbitrary: H)
  case Nil
  have "does B S H (retM []) [] S" by (rule leaves_retM)
  then show ?case unfolding does_def handles_of.simps by (rule leaves_weaken) (auto simp: vector_of_def)
next
  case (Cons e es)
  obtain nm i where e: "e = (nm, i)" by (cases e)
  show ?case
    unfolding handles_of.simps e
  proof (rule does_then [OF does_promote], rule leaves_append [OF leaves_handle_to])
    show "\<exists>p. c i = Some p" if "S c" for c using Cons.prems [OF _ that] e by force
    show "leaves B S (with_new H l) (handles_of E og es) (vector_of (map snd es)) S" for l :: new_handles
      using Cons.prems by (intro Cons.IH) auto
  qed (auto simp: vector_of_def)
qed

text \<open>All parameters of a broker that asks no parent.\<close>

lemma leaves_get_param_handles:
  assumes b: "B b = Some r" "\<not> (b_forwarding r \<and> has_parent r)"
    and alive: "\<And>i c. i \<in> snd ` set (m_param_registry r) \<Longrightarrow> S c \<Longrightarrow> \<exists>p. c i = Some p"
  shows "leaves B S H (get_param_handles E (Suc n) b og) (vector_of (map snd (m_param_registry r))) S"
proof -
  have "does B S H (the_broker b) r S"
    unfolding does_def
  proof (rule leavesI)
    fix c s assume "S c" "has_view c H s" "brokers s = B"
    with b(1) show "\<exists>x l k c'. the_broker b (put c s) = (Ret x, put c' (attach_all l (bump k s))) \<and> S c' \<and> dom c' = dom c
        \<and> fit_in l (bump k s) \<and> (\<forall>h \<in> fst ` set l. next_address s \<le> h) \<and> x = r \<and> l = []"
      by (intro exI [of _ r] exI [of _ "[]"] exI [of _ 0] exI [of _ c]) (simp add: fit_in_def)
  qed
  note br = this
  show ?thesis
    unfolding get_param_handles.simps consuming_get_param_handles_def
    by (rule does_then [OF br], subst if_not_P [OF b(2)], rule does_then [OF br], rule leaves_handles_of, rule alive)
qed

section \<open>A range whose predicate decides by a function\<close>

text \<open>
  The container holds handles for the entries \<open>rows\<close>, and on the handle of an entry the predicate answers
  what the function \<open>P\<close> says of the entry.
\<close>

definition decides :: "(bid \<Rightarrow> 'j broker option) \<Rightarrow> (('v, 'j) view \<Rightarrow> bool) \<Rightarrow> (hid \<Rightarrow> param_handle option)
    \<Rightarrow> (hid \<Rightarrow> ('v, 'j, bool) cci) \<Rightarrow> hid list \<Rightarrow> ('e \<Rightarrow> bool) \<Rightarrow> 'e list \<Rightarrow> bool" where
  "decides B S H pr hs P rows \<longleftrightarrow>
     length hs = length rows \<and> (\<forall>j < length rows. does B S H (pr (hs ! j)) (P (rows ! j)) S)"

lemma does_skip_forward:
  assumes pr: "decides B S H pr hs P rows"
  shows "does B S H (skip_forward_with pr hs c) (skip_forward P rows c) S"
proof (induction P rows c rule: skip_forward.induct [where ?P = "\<lambda>P' rows' c. P' = P \<longrightarrow> rows' = rows \<longrightarrow>
    does B S H (skip_forward_with pr hs c) (skip_forward P' rows' c) S", rule_format])
  case (1 P' rows' c)
  have len: "length hs = length rows" using pr by (simp add: decides_def)
  show ?case
  proof (cases "c < length rows")
    case False
    then show ?thesis
      using 1 len by (simp add: skip_forward_with.simps [of pr hs c] skip_forward.simps [of P rows c] leaves_retM del: retM_apply)
  next
    case True
    then have p: "does B S H (pr (hs ! c)) (P (rows ! c)) S" using pr by (simp add: decides_def)
    show ?thesis
    proof (cases "P (rows ! c)")
      case P: True
      have "does B S H (bindM (pr (hs ! c)) (\<lambda>b. if b then retM c else skip_forward_with pr hs (Suc c))) c S"
        by (rule does_bindM [OF p]) (simp add: P leaves_retM del: retM_apply)
      with True P 1 len show ?thesis
        by (simp add: skip_forward_with.simps [of pr hs c] skip_forward.simps [of P rows c])
    next
      case P: False
      have "does B S H (skip_forward_with pr hs (Suc c)) (skip_forward P rows (Suc c)) S"
        using 1 True P by blast
      then have "does B S H (bindM (pr (hs ! c)) (\<lambda>b. if b then retM c else skip_forward_with pr hs (Suc c)))
          (skip_forward P rows (Suc c)) S"
        by (intro does_bindM [OF p]) (simp add: P)
      with True P 1 len show ?thesis
        by (simp add: skip_forward_with.simps [of pr hs c] skip_forward.simps [of P rows c])
    qed
  qed
qed simp_all

lemma does_increment:
  assumes pr: "decides B S H (pr_pred r) (pr_container r) P rows" and r: "m_pred r' = P" "m_container r' = rows"
  shows "does B S H (param_increment r it) (increment r' it) S"
proof -
  have len: "length (pr_container r) = length rows" using pr by (simp add: decides_def)
  show ?thesis
  proof (cases "m_fr it")
    case False
    then show ?thesis by (simp add: param_increment_def increment_def leaves_retM del: retM_apply)
  next
    case True
    let ?c = "if m_current it \<noteq> length rows then Suc (m_current it) else m_current it"
    have "does B S H (bindM (skip_forward_with (pr_pred r) (pr_container r) ?c) (\<lambda>c. retM (it\<lparr>m_current := c\<rparr>)))
        (it\<lparr>m_current := skip_forward P rows ?c\<rparr>) S"
      by (rule does_bindM [OF does_skip_forward [OF pr] leaves_retM])
    with True show ?thesis by (simp add: param_increment_def increment_def r len Let_def)
  qed
qed

lemma does_range_init:
  assumes pr: "decides B S H pr hs P rows"
  shows "does B S H (param_range_init \<lparr>pr_pred = pr, pr_container = hs, pr_begin = \<lparr>m_current = 0, m_fr = True\<rparr>\<rparr>)
    \<lparr>pr_pred = pr, pr_container = hs, pr_begin = m_begin (new_range P rows)\<rparr> S"
proof -
  let ?it = "\<lparr>m_current = 0, m_fr = True\<rparr>"
  let ?r = "\<lparr>pr_pred = pr, pr_container = hs, pr_begin = ?it\<rparr>" and ?q = "\<lparr>m_pred = P, m_container = rows, m_begin = ?it\<rparr>"
  have len: "length hs = length rows" using pr by (simp add: decides_def)
  have inc: "does B S H (param_increment ?r ?it) (increment ?q ?it) S" by (rule does_increment) (simp_all add: pr)
  show ?thesis
  proof (cases "rows = []")
    case True
    with len show ?thesis
      by (simp add: param_range_init_def new_range_def range_init_def iterator_eq_def range_end_def leaves_retM del: retM_apply)
  next
    case False
    then have p: "does B S H (pr (hs ! 0)) (P (rows ! 0)) S" using pr by (simp add: decides_def)
    have init: "new_range P rows = (if P (rows ! 0) then ?q else ?q\<lparr>m_begin := increment ?q ?it\<rparr>)"
      using False by (simp add: new_range_def range_init_def iterator_eq_def range_end_def range_deref_def)
    have "does B S H (bindM (pr (hs ! 0)) (\<lambda>b. if \<not> b then bindM (param_increment ?r ?it) (\<lambda>it. retM (?r\<lparr>pr_begin := it\<rparr>)) else retM ?r))
        (?r\<lparr>pr_begin := m_begin (new_range P rows)\<rparr>) S"
    proof (rule does_bindM [OF p])
      have "does B S H (bindM (param_increment ?r ?it) (\<lambda>it. retM (?r\<lparr>pr_begin := it\<rparr>))) (?r\<lparr>pr_begin := increment ?q ?it\<rparr>) S"
        by (rule does_bindM [OF inc leaves_retM])
      then show "does B S H (if \<not> P (rows ! 0) then bindM (param_increment ?r ?it) (\<lambda>it. retM (?r\<lparr>pr_begin := it\<rparr>)) else retM ?r)
          (?r\<lparr>pr_begin := m_begin (new_range P rows)\<rparr>) S"
        by (simp add: init leaves_retM del: retM_apply)
    qed
    with False len show ?thesis by (simp add: param_range_init_def cong: if_cong)
  qed
qed

lemma does_on_exception: "does B S H m x S' \<Longrightarrow> does B S H (on_exception m h) x S'"
  unfolding does_def
proof (rule leavesI)
  fix c s assume m: "leaves B S H m (\<lambda>y l. y = x \<and> l = []) S'" and s: "S c" "has_view c H s" "brokers s = B"
  from m s obtain y l k c' where "m (put c s) = (Ret y, put c' (attach_all l (bump k s)))" "S' c'" "dom c' = dom c"
    "fit_in l (bump k s)" "\<forall>h \<in> fst ` set l. next_address s \<le> h" "y = x \<and> l = []" by (rule leavesE)
  then show "\<exists>y l k c'. on_exception m h (put c s) = (Ret y, put c' (attach_all l (bump k s))) \<and> S' c' \<and> dom c' = dom c
      \<and> fit_in l (bump k s) \<and> (\<forall>h \<in> fst ` set l. next_address s \<le> h) \<and> y = x \<and> l = []"
    by (intro exI [of _ y] exI [of _ l] exI [of _ k] exI [of _ c']) (simp add: on_exception_def)
qed

text \<open>The range over the parameters of a broker.\<close>

definition range_of :: "(hid \<Rightarrow> ('v, 'j, bool) cci) \<Rightarrow> ('e \<Rightarrow> bool) \<Rightarrow> 'e list \<Rightarrow> pid list \<Rightarrow> ('v, 'j) param_range \<Rightarrow> new_handles \<Rightarrow> bool" where
  "range_of pr P rows is r l \<longleftrightarrow>
     vector_of is (pr_container r) l \<and> pr_pred r = pr \<and> pr_begin r = m_begin (new_range P rows)"

lemma leaves_new_range:
  assumes hs: "handles_for H hs is" and alive: "\<And>i c. i \<in> set is \<Longrightarrow> S c \<Longrightarrow> \<exists>p. c i = Some p"
    and pr: "\<And>H' cs. handles_for H' cs is \<Longrightarrow> decides B S H' pr cs P rows"
  shows "leaves B S H (new_param_range E pr hs) (range_of pr P rows is) S"
  unfolding new_param_range_def
proof (rule leaves_bindM)
  show "leaves B S H (copy_handles E hs) (vector_of is) S" using hs alive by (rule leaves_copy_handles)
  fix cs and l :: new_handles assume l: "vector_of is cs l" and "distinct (map fst l)"
  then have "handles_for (with_new H l) cs is" by (rule vector_of_handles)
  then have "does B S (with_new H l) (param_range_init \<lparr>pr_pred = pr, pr_container = cs, pr_begin = \<lparr>m_current = 0, m_fr = True\<rparr>\<rparr>)
      \<lparr>pr_pred = pr, pr_container = cs, pr_begin = m_begin (new_range P rows)\<rparr> S"
    by (intro does_range_init pr)
  then have "does B S (with_new H l) (on_exception (param_range_init \<lparr>pr_pred = pr, pr_container = cs, pr_begin = \<lparr>m_current = 0, m_fr = True\<rparr>\<rparr>)
      (modM (destroy_all cs))) \<lparr>pr_pred = pr, pr_container = cs, pr_begin = m_begin (new_range P rows)\<rparr> S"
    by (rule does_on_exception)
  then show "leaves B S (with_new H l) (on_exception (param_range_init \<lparr>pr_pred = pr, pr_container = cs, pr_begin = \<lparr>m_current = 0, m_fr = True\<rparr>\<rparr>)
      (modM (destroy_all cs))) (\<lambda>y l'. range_of pr P rows is y (l @ l')) S"
    unfolding does_def by (rule leaves_weaken) (use l in \<open>auto simp: range_of_def\<close>)
qed

lemma leaves_get_param_range:
  assumes b: "B b = Some r" "\<not> (b_forwarding r \<and> has_parent r)"
    and alive: "\<And>i c. i \<in> snd ` set (m_param_registry r) \<Longrightarrow> S c \<Longrightarrow> \<exists>p. c i = Some p"
    and pr: "\<And>H' cs. handles_for H' cs (map snd (m_param_registry r)) \<Longrightarrow> decides B S H' pr cs P (m_param_registry r)"
  shows "leaves B S H (get_param_range E (Suc n) b pr og) (range_of pr P (m_param_registry r) (map snd (m_param_registry r))) S"
  unfolding get_param_range_def
proof (rule leaves_scoped)
  show "leaves B S H (get_param_handles E (Suc n) b og) (vector_of (map snd (m_param_registry r))) S"
    by (rule leaves_get_param_handles [where B = B and b = b, OF b]) (rule alive)
  fix hs and l :: new_handles assume l: "vector_of (map snd (m_param_registry r)) hs l"
  then show "hs = map fst l" by (simp add: vector_of_def)
  assume "distinct (map fst l)"
  with l have "handles_for (with_new H l) hs (map snd (m_param_registry r))" by (rule vector_of_handles)
  then show "leaves B S (with_new H l) (new_param_range E pr hs) (range_of pr P (m_param_registry r) (map snd (m_param_registry r))) S"
    by (rule leaves_new_range) (use alive pr in auto)
qed

text \<open>
  The loops. The states \<open>S V\<close> are indexed by what is known of them, \<open>V\<close>; the body on an entry \<open>e\<close> takes \<open>V\<close>
  to \<open>step V e\<close> and returns \<open>out V e\<close>.
\<close>

fun outs :: "('w \<Rightarrow> 'e \<Rightarrow> 'a) \<Rightarrow> ('w \<Rightarrow> 'e \<Rightarrow> 'w) \<Rightarrow> 'w \<Rightarrow> 'e list \<Rightarrow> 'a list" where
  "outs out step V [] = []"
| "outs out step V (e # es) = out V e # outs out step (step V e) es"

lemma outs_same: "(\<And>e. step V e = V) \<Longrightarrow> outs out step V es = map (out V) es"
  by (induction es) auto

lemma does_range_for:
  assumes r: "pr_container r = hs" and len: "length hs = length rows"
    and pr: "\<And>V. K V \<Longrightarrow> decides B (S V) H (pr_pred r) hs P rows"
    and body: "\<And>V j. K V \<Longrightarrow> j < length rows \<Longrightarrow> P (rows ! j) \<Longrightarrow>
      does B (S V) H (f (hs ! j)) (out V (rows ! j)) (S (step V (rows ! j))) \<and> K (step V (rows ! j))"
  shows "K V \<Longrightarrow> c \<le> length rows \<Longrightarrow> length rows < n + c \<Longrightarrow>
    does B (S V) H (range_for n r \<lparr>m_current = skip_forward P rows c, m_fr = True\<rparr> f)
      (outs out step V (filter P (drop c rows))) (S (foldl step V (filter P (drop c rows))))"
proof (induction n arbitrary: c V)
  case 0
  then show ?case by simp
next
  case (Suc n)
  let ?k = "skip_forward P rows c" and ?q = "\<lparr>m_pred = P, m_container = rows, m_begin = undefined\<rparr>"
  show ?case
  proof (cases "?k = length rows")
    case True
    with skip_forward_drop [OF Suc.prems(2), of P] show ?thesis by (simp add: r len leaves_retM del: retM_apply)
  next
    case False
    then have k: "?k < length rows" "c \<le> ?k" using skip_forward_le [OF Suc.prems(2), of P] by auto
    have Pk: "P (rows ! ?k)" using k(1) by (rule skip_forward_pred)
    let ?e = "rows ! ?k" and ?rest = "filter P (drop (Suc ?k) rows)"
    have f: "does B (S V) H (f (hs ! ?k)) (out V ?e) (S (step V ?e))" and K: "K (step V ?e)"
      using body [OF Suc.prems(1) k(1) Pk] by simp_all
    have "increment ?q \<lparr>m_current = ?k, m_fr = True\<rparr> = \<lparr>m_current = skip_forward P rows (Suc ?k), m_fr = True\<rparr>"
      using k by (simp add: increment_def)
    moreover have "does B (S (step V ?e)) H (param_increment r \<lparr>m_current = ?k, m_fr = True\<rparr>)
        (increment ?q \<lparr>m_current = ?k, m_fr = True\<rparr>) (S (step V ?e))"
      using pr [OF K] by (intro does_increment) (simp_all add: r)
    ultimately have inc: "does B (S (step V ?e)) H (param_increment r \<lparr>m_current = ?k, m_fr = True\<rparr>)
        \<lparr>m_current = skip_forward P rows (Suc ?k), m_fr = True\<rparr> (S (step V ?e))" by simp
    have rest: "does B (S (step V ?e)) H (range_for n r \<lparr>m_current = skip_forward P rows (Suc ?k), m_fr = True\<rparr> f)
        (outs out step (step V ?e) ?rest) (S (foldl step (step V ?e) ?rest))"
      using K k Suc.prems by (intro Suc.IH) auto
    have "filter P (drop c rows) = ?e # ?rest" using skip_forward_drop [OF Suc.prems(2), of P] False by simp
    moreover have "does B (S V) H (bindM (f (hs ! ?k)) (\<lambda>x. bindM (param_increment r \<lparr>m_current = ?k, m_fr = True\<rparr>) (\<lambda>it.
        bindM (range_for n r it f) (\<lambda>xs. retM (x # xs))))) (out V ?e # outs out step (step V ?e) ?rest) (S (foldl step (step V ?e) ?rest))"
      by (rule does_bindM [OF f], rule does_bindM [OF inc], rule does_bindM [OF rest leaves_retM])
    ultimately show ?thesis using False by (simp add: r len)
  qed
qed

lemma does_for_each:
  assumes "length hs = length rows"
    and "\<And>V j. j < length rows \<Longrightarrow> does B (S V) H (f (hs ! j)) (out V (rows ! j)) (S (step V (rows ! j)))"
  shows "does B (S V) H (for_each hs f) (outs out step V rows) (S (foldl step V rows))"
  using assms
proof (induction hs rows arbitrary: V rule: list_induct2)
  case Nil
  show ?case by (simp add: leaves_retM del: retM_apply)
next
  case (Cons h hs e rows)
  have f: "does B (S V) H (f h) (out V e) (S (step V e))" using Cons.prems [of 0] by simp
  have rest: "does B (S (step V e)) H (for_each hs f) (outs out step (step V e) rows) (S (foldl step (step V e) rows))"
    using Cons.prems [of "Suc _"] by (intro Cons.IH) simp
  show ?case by simp (rule does_bindM [OF f], rule does_bindM [OF rest leaves_retM])
qed

end
