(* ===== verification/Param_Search.thy ===== *)
theory Param_Search
  imports Param_Range Sync_Properties
begin

text \<open>
  Searching the parameters of a broker with predicates: the tools of example 22
  (src/examples/cci/ex22_Search_Predicate/ex22_search_ip.h), which lists parameters by category, value and
  name, and of example 23 (src/examples/cci/ex23_Hierarchical_Value_Update/ex23_config_ip.h), which sets
  every parameter called \<open>log_level\<close>. What they print is the result.
\<close>

section \<open>What the tools share\<close>

text \<open>A handle that is taken by value, as all the predicates do.\<close>

definition by_value :: "('v, 'j) env \<Rightarrow> hid \<Rightarrow> (hid \<Rightarrow> ('v, 'j, 'a) cci) \<Rightarrow> ('v, 'j, 'a) cci" where
  "by_value E h k = scoped (copy_handle E h) (\<lambda>g. [g]) k"

text \<open>\<open>m_broker.get_param_handles(pred)\<close>\<close>

definition handle_broker_get_param_range :: "('v, 'j) env \<Rightarrow> nat \<Rightarrow> broker_handle \<Rightarrow> (hid \<Rightarrow> ('v, 'j, bool) cci)
    \<Rightarrow> ('v, 'j, ('v, 'j) param_range) cci" where
  "handle_broker_get_param_range E n bh pr = get_param_range E n (m_broker bh) pr (bh_originator bh)"

text \<open>A line of output, and one that needs a valid handle.\<close>

definition show_param :: "('v, 'j) env \<Rightarrow> nat \<Rightarrow> hid \<Rightarrow> ('v, 'j, string \<times> 'j) cci" where
  "show_param E N h =
     bindM (handle_query E h param_name) (\<lambda>nm.
       bindM (handle_get_cci_value E (runner E N) N h) (\<lambda>x. retM (nm, x)))"

definition if_valid :: "(hid \<Rightarrow> ('v, 'j, 'a) cci) \<Rightarrow> hid \<Rightarrow> ('v, 'j, 'a option) cci" where
  "if_valid f h = bindM (read_handle h is_valid) (\<lambda>b. if b then bindM (f h) (\<lambda>x. retM (Some x)) else retM None)"

section \<open>Example 22\<close>

definition integer_type_predicate :: "('v, 'j) env \<Rightarrow> nat \<Rightarrow> hid \<Rightarrow> ('v, 'j, bool) cci" where
  "integer_type_predicate E N h =
     by_value E h (\<lambda>handle. bindM (handle_get_data_category E (runner E N) N handle) (\<lambda>c. retM (c = CCI_INTEGRAL_PARAM)))"

definition string_type_predicate :: "('v, 'j) env \<Rightarrow> nat \<Rightarrow> hid \<Rightarrow> ('v, 'j, bool) cci" where
  "string_type_predicate E N h =
     by_value E h (\<lambda>handle. bindM (handle_get_data_category E (runner E N) N handle) (\<lambda>c. retM (c = CCI_STRING_PARAM)))"

text \<open>
  \<open>dbl\<close> is \<open>get_double\<close> of a \<open>cci_value\<close>, which may report an error; \<open>ge\<close> and \<open>lt\<close> compare values of type
  \<open>double\<close>. The operands of \<open>||\<close> and \<open>&&\<close> are evaluated from the left, and only as far as needed.
\<close>

definition value_in_range_predicate :: "('v, 'j) env \<Rightarrow> nat \<Rightarrow> ('j \<Rightarrow> ('v, 'j, 'd) cci) \<Rightarrow> ('d \<Rightarrow> bool) \<Rightarrow> ('d \<Rightarrow> bool)
    \<Rightarrow> hid \<Rightarrow> ('v, 'j, bool) cci" where
  "value_in_range_predicate E N dbl at_least below h =
     by_value E h (\<lambda>handle.
       let category = handle_get_data_category E (runner E N) N handle;
           get_double = bindM (handle_get_cci_value E (runner E N) N handle) dbl
       in bindM (bindM category (\<lambda>c. if c = CCI_REAL_PARAM then retM True
                                      else bindM category (\<lambda>c. retM (c = CCI_INTEGRAL_PARAM)))) (\<lambda>number.
            if number then
              bindM get_double (\<lambda>x. if at_least x then bindM get_double (\<lambda>x. retM (below x)) else retM False)
            else retM False))"

definition name_contains_character_predicate :: "('v, 'j) env \<Rightarrow> char \<Rightarrow> hid \<Rightarrow> ('v, 'j, bool) cci" where
  "name_contains_character_predicate E character h =
     by_value E h (\<lambda>handle. bindM (handle_query E handle param_name) (\<lambda>nm.
       retM (character = CHR 0x00 \<or> character \<in> set (c_str nm))))"

text \<open>One search of \<open>execute\<close>: the range, and the loop that prints it.\<close>

definition search :: "('v, 'j) env \<Rightarrow> nat \<Rightarrow> broker_handle \<Rightarrow> (hid \<Rightarrow> ('v, 'j, bool) cci) \<Rightarrow> (hid \<Rightarrow> ('v, 'j, 'a) cci)
    \<Rightarrow> (('v, 'j) param_range \<Rightarrow> 'a list \<Rightarrow> ('v, 'j, 'b) cci) \<Rightarrow> ('v, 'j, 'b) cci" where
  "search E N bh pr show k =
     scoped (handle_broker_get_param_range E N bh pr) pr_container (\<lambda>r.
       bindM (range_for N r (pr_begin r) show) (k r))"

definition ex22_execute :: "('v, 'j) env \<Rightarrow> nat \<Rightarrow> broker_handle \<Rightarrow> ('j \<Rightarrow> ('v, 'j, 'd) cci) \<Rightarrow> ('d \<Rightarrow> bool) \<Rightarrow> ('d \<Rightarrow> bool)
    \<Rightarrow> ('v, 'j, (string \<times> 'j) list \<times> (string \<times> 'j) option list \<times> (string \<times> 'j) option list
         \<times> (string \<times> 'j) list \<times> (string \<times> 'j) list) cci" where
  "ex22_execute E N bh dbl at_least_3 below_85 =
     scoped (handle_broker_get_param_handles E N bh) (\<lambda>hs. hs) (\<lambda>param_list_handle.
     bindM (for_each param_list_handle (show_param E N)) (\<lambda>original.
     search E N bh (integer_type_predicate E N) (if_valid (show_param E N)) (\<lambda>_ integers.
     search E N bh (string_type_predicate E N) (if_valid (show_param E N)) (\<lambda>_ strings.
     search E N bh (value_in_range_predicate E N dbl at_least_3 below_85) (show_param E N) (\<lambda>_ numbers.
     search E N bh (name_contains_character_predicate E (CHR ''t'')) (show_param E N) (\<lambda>_ letters.
     retM (original, integers, strings, numbers, letters)))))))"

section \<open>Example 23\<close>

definition is_log_level :: "string \<Rightarrow> bool" where
  "is_log_level nm =
     (case strrchr nm (CHR ''.'') of None \<Rightarrow> False | Some basename \<Rightarrow> strcmp (tl basename) ''log_level'' = 0)"

definition log_level_param_predicate :: "('v, 'j) env \<Rightarrow> hid \<Rightarrow> ('v, 'j, bool) cci" where
  "log_level_param_predicate E h =
     by_value E h (\<lambda>handle. bindM (handle_query E handle param_name) (\<lambda>nm. retM (is_log_level nm)))"

definition ex23_execute :: "('v, 'j) env \<Rightarrow> nat \<Rightarrow> broker_handle \<Rightarrow> 'j
    \<Rightarrow> ('v, 'j, (string \<times> 'j) list \<times> (string \<times> 'j) option list \<times> (string \<times> 'j) option list) cci" where
  "ex23_execute E N bh target_value =
     scoped (handle_broker_get_param_handles E N bh) (\<lambda>hs. hs) (\<lambda>param_list.
     bindM (for_each param_list (show_param E N)) (\<lambda>all.
     search E N bh (log_level_param_predicate E) (if_valid (show_param E N)) (\<lambda>r before.
     thenM (range_for N r (pr_begin r) (if_valid (\<lambda>h. handle_set_cci_value E (runner E N) N h target_value None)))
     (bindM (range_for N r (pr_begin r) (if_valid (show_param E N))) (\<lambda>after.
     retM (all, before, after))))))"

section \<open>States\<close>

text \<open>
  The parameters \<open>rows\<close> of a broker, by name and address, are without callbacks and may be written; \<open>T i\<close>
  is the type of the one at \<open>i\<close>, \<open>V i\<close> its value and \<open>Bk i\<close> its broker. All others are as in \<open>c0\<close>.
\<close>

definition stands :: "('v, 'j) view \<Rightarrow> (string \<times> pid) list \<Rightarrow> (pid \<Rightarrow> bid) \<Rightarrow> (pid \<Rightarrow> tid) \<Rightarrow> (pid \<Rightarrow> 'v) \<Rightarrow> ('v, 'j) view \<Rightarrow> bool" where
  "stands c0 rows Bk T V c \<longleftrightarrow> (\<forall>i. i \<notin> snd ` set rows \<longrightarrow> c i = c0 i)
     \<and> (\<forall>nm i. (nm, i) \<in> set rows \<longrightarrow> (\<exists>p. c i = Some p \<and> steady nm (Bk i) (T i) (V i) p))"

lemma stands_alive: "i \<in> snd ` set rows \<Longrightarrow> stands c0 rows Bk T V c \<Longrightarrow> \<exists>p. c i = Some p"
  by (fastforce simp: stands_def)

text \<open>What one parameter does in such a state.\<close>

lemma does_moves:
  fixes m :: "('v, 'j, 'a) cci"
  assumes row: "(nm, i) \<in> set rows" and m: "moves nm (Bk i) (T i) H i (V i) m x u"
  shows "does B (stands c0 rows Bk T V) H m x (stands c0 rows Bk T (V(i := u)))"
proof (rule does_runs)
  fix c :: "('v, 'j) view" assume c: "stands c0 rows Bk T V c"
  then obtain p where p: "c i = Some p" "steady nm (Bk i) (T i) (V i) p" using row unfolding stands_def by blast
  with m obtain q where q: "runs c H m x (c(i \<mapsto> q))" "steady nm (Bk i) (T i) u q" unfolding moves_def by blast
  have "stands c0 rows Bk T (V(i := u)) (c(i \<mapsto> q))"
    unfolding stands_def
  proof (intro conjI allI impI)
    show "(c(i \<mapsto> q)) j = c0 j" if "j \<notin> snd ` set rows" for j
      using c row that by (force simp: stands_def)
    show "\<exists>p. (c(i \<mapsto> q)) j = Some p \<and> steady nm' (Bk j) (T j) ((V(i := u)) j) p" if "(nm', j) \<in> set rows" for nm' j
    proof (cases "j = i")
      case True
      then have "m_name p = nm'" using c that p(1) by (force simp: stands_def steady_def)
      then have "nm' = nm" using p(2) by (simp add: steady_def)
      with True q(2) show ?thesis by simp
    next
      case False
      with c that show ?thesis by (simp add: stands_def)
    qed
  qed
  with q(1) show "\<exists>c'. runs c H m x c' \<and> stands c0 rows Bk T (V(i := u)) c'" by blast
qed

lemma does_moves_same:
  fixes m :: "('v, 'j, 'a) cci"
  assumes "(nm, i) \<in> set rows" and "moves nm (Bk i) (T i) H i (V i) m x (V i)"
  shows "does B (stands c0 rows Bk T V) H m x (stands c0 rows Bk T V)"
  using does_moves [where Bk = Bk and T = T and V = V and i = i, OF assms] by simp

lemma moves_handle_category:
  fixes E :: "('v, 'j) env"
  assumes h: "H h = Some d" "m_param d = Some i" and x: "pack E T v = (True, x)"
  shows "moves nm b T H i v (handle_get_data_category E run (Suc n) h) (data_category (category E x)) v"
proof (rule moves_one [where f = update_fast_read])
  fix c :: "('v, 'j) view" and p assume c: "c i = Some p" and p: "steady nm b T v p"
  have "runs c H (get_cci_value E run (Suc n) i (get_originator p)) x (c(i \<mapsto> update_fast_read p))"
    using x steadyD [OF p] by (intro runs_get_cci_value [where c = c and i = i, OF c]) simp_all
  then have "runs c H (bindM (get_cci_value E run (Suc n) i (get_originator p)) (\<lambda>x. retM (data_category (category E x))))
      (data_category (category E x)) (c(i \<mapsto> update_fast_read p))"
    by (rule runs_bindM) (rule runs_retM)
  then have "runs c H (get_data_category E run (Suc n) i) (data_category (category E x)) (c(i \<mapsto> update_fast_read p))"
    unfolding get_data_category_def
    by (intro runs_the_param [where c = c and i = i, OF c]) (simp add: get_originator_def)
  then show "runs c H (handle_get_data_category E run (Suc n) h) (data_category (category E x)) (c(i \<mapsto> update_fast_read p))"
    unfolding handle_get_data_category_def by (rule runs_handled [where H = H and h = h and i = i, OF h])
qed (rule steady_updates)

section \<open>Predicates and lines\<close>

text \<open>On a handle of an entry, \<open>m\<close> returns \<open>x\<close> and keeps the state.\<close>

lemma does_by_value:
  assumes h: "H h = Some d" "m_param d = Some i" and row: "(nm, i) \<in> set rows"
    and k: "\<And>g. moves nm (Bk i) (T i) (H(g \<mapsto> \<lparr>m_param = Some i, h_originator = promoted E (h_originator d)\<rparr>)) i (V i) (k g) x (V i)"
  shows "does B (stands c0 rows Bk T V) H (by_value E h k) x (stands c0 rows Bk T V)"
  unfolding does_def by_value_def
proof (rule leaves_scoped)
  show "leaves B (stands c0 rows Bk T V) H (copy_handle E h) (\<lambda>g l. l = [(g, i, promoted E (h_originator d))]) (stands c0 rows Bk T V)"
    by (rule leaves_copy_handle [where H = H and h = h, OF h], rule stands_alive) (use row in force)
  show "leaves B (stands c0 rows Bk T V) (with_new H l) (k g) (\<lambda>y l. y = x \<and> l = []) (stands c0 rows Bk T V)"
    if l: "l = [(g, i, promoted E (h_originator d))]" for g l
    using does_moves_same [where Bk = Bk and T = T and V = V and i = i, OF row k, of B c0] by (simp add: does_def l)
qed auto

text \<open>The line of an entry, in a state with the values \<open>V\<close>.\<close>

definition line :: "('v, 'j) env \<Rightarrow> (pid \<Rightarrow> tid) \<Rightarrow> (pid \<Rightarrow> 'v) \<Rightarrow> string \<times> pid \<Rightarrow> string \<times> 'j" where
  "line E T V e = (c_str (fst e), snd (pack E (T (snd e)) (V (snd e))))"

definition all_pack :: "('v, 'j) env \<Rightarrow> (string \<times> pid) list \<Rightarrow> (pid \<Rightarrow> tid) \<Rightarrow> (pid \<Rightarrow> 'v) \<Rightarrow> bool" where
  "all_pack E rows T V \<longleftrightarrow> (\<forall>e \<in> set rows. fst (pack E (T (snd e)) (V (snd e))))"

lemma all_packD: "all_pack E rows T V \<Longrightarrow> e \<in> set rows \<Longrightarrow> pack E (T (snd e)) (V (snd e)) = (True, snd (line E T V e))"
  by (simp add: all_pack_def line_def prod_eq_iff)

lemma does_show_param:
  assumes h: "H h = Some d" "m_param d = Some (snd e)" and e: "e \<in> set rows" and V: "all_pack E rows T V"
  shows "does B (stands c0 rows Bk T V) H (show_param E (Suc N) h) (line E T V e) (stands c0 rows Bk T V)"
proof -
  obtain nm i where ni: "e = (nm, i)" by (cases e)
  have "moves nm (Bk i) (T i) H i (V i) (show_param E (Suc N) h) (c_str nm, snd (line E T V e)) (V i)"
    unfolding show_param_def
    by (intro moves_bindM [OF moves_handle_name [where H = H and h = h]]
        moves_bindM [OF moves_handle_get [where H = H and h = h and x = "snd (line E T V e)"]] moves_retM)
      (use h all_packD [OF V e] ni in simp_all)
  then have "does B (stands c0 rows Bk T V) H (show_param E (Suc N) h) (c_str nm, snd (line E T V e)) (stands c0 rows Bk T V)"
    using e ni by (intro does_moves_same) simp_all
  then show ?thesis by (simp add: line_def ni)
qed

lemma does_if_valid:
  assumes h: "H h = Some d" "m_param d = Some i" and f: "does B S H (f h) x S'"
  shows "does B S H (if_valid f h) (Some x) S'"
proof -
  have "does B S H (read_handle h is_valid) True S"
    unfolding read_handle_def
    by (rule does_bindM [OF does_the_handle [where H = H and h = h, OF h(1)]]) (simp add: is_valid_def h(2) leaves_retM del: retM_apply)
  then show ?thesis
    unfolding if_valid_def by (rule does_bindM) (simp add: does_bindM [OF f leaves_retM])
qed

lemma handles_for_at:
  assumes "handles_for H hs (map snd rows)" and "j < length rows"
  obtains d where "H (hs ! j) = Some d" and "m_param d = Some (snd (rows ! j))"
  using assms by (auto simp: handles_for_def list_all2_conv_all_nth)

lemma handles_for_length: "handles_for H hs (map snd rows) \<Longrightarrow> length hs = length rows"
  by (auto simp: handles_for_def dest: list_all2_lengthD)

section \<open>Searches\<close>

lemma does_search:
  assumes b: "B (m_broker bh) = Some r" "\<not> (b_forwarding r \<and> has_parent r)"
    and rows: "m_param_registry r = rows" and alive: "\<And>i c. i \<in> snd ` set rows \<Longrightarrow> S c \<Longrightarrow> \<exists>p. c i = Some p"
    and pr: "\<And>H' cs. handles_for H' cs (map snd rows) \<Longrightarrow> decides B S H' pr cs P rows"
    and loop: "\<And>H' q l. range_of pr P rows (map snd rows) q l \<Longrightarrow> handles_for H' (pr_container q) (map snd rows) \<Longrightarrow>
      does B S H' (range_for (Suc n) q (pr_begin q) show) ys S1"
    and k: "\<And>H' q l. range_of pr P rows (map snd rows) q l \<Longrightarrow> handles_for H' (pr_container q) (map snd rows) \<Longrightarrow>
      does B S1 H' (k q ys) y S2"
  shows "does B S H (search E (Suc n) bh pr show k) y S2"
  unfolding does_def search_def handle_broker_get_param_range_def
proof (rule leaves_scoped)
  show "leaves B S H (get_param_range E (Suc n) (m_broker bh) pr (bh_originator bh)) (range_of pr P rows (map snd rows)) S"
    unfolding rows [symmetric]
    by (rule leaves_get_param_range [where B = B and b = "m_broker bh", OF b]) (use alive pr rows in auto)
  fix q and l :: new_handles assume q: "range_of pr P rows (map snd rows) q l"
  then have v: "vector_of (map snd rows) (pr_container q) l" by (simp add: range_of_def)
  then show "pr_container q = map fst l" by (simp add: vector_of_def)
  assume "distinct (map fst l)"
  with v have h: "handles_for (with_new H l) (pr_container q) (map snd rows)" by (rule vector_of_handles)
  show "leaves B S (with_new H l) (bindM (range_for (Suc n) q (pr_begin q) show) (k q)) (\<lambda>z l. z = y \<and> l = []) S2"
    by (rule does_then [OF loop [OF q h]]) (rule k [OF q h, unfolded does_def])
qed

text \<open>A loop over the range whose body keeps the state, and one that sets the parameters.\<close>

lemma new_range_begin_at: "m_begin (new_range P rows) = \<lparr>m_current = skip_forward P rows 0, m_fr = True\<rparr>"
  using new_range_begin [of P rows] by (cases "m_begin (new_range P rows)") simp

lemma does_loop_same:
  assumes q: "range_of pr P rows (map snd rows) q l" "handles_for H (pr_container q) (map snd rows)"
    and pr: "\<And>H' cs. handles_for H' cs (map snd rows) \<Longrightarrow> decides B S H' pr cs P rows" and n: "length rows < n"
    and f: "\<And>j. j < length rows \<Longrightarrow> P (rows ! j) \<Longrightarrow> does B S H (f (pr_container q ! j)) (g (rows ! j)) S"
  shows "does B S H (range_for n q (pr_begin q) f) (map g (filter P rows)) S"
proof -
  have "does B S H (range_for n q \<lparr>m_current = skip_forward P rows 0, m_fr = True\<rparr> f)
      (outs (\<lambda>_ :: unit. g) (\<lambda>V _. V) () (filter P (drop 0 rows))) S"
    by (rule does_range_for [where S = "\<lambda>_. S" and K = "\<lambda>_. True" and hs = "pr_container q"])
      (use q pr f n handles_for_length [OF q(2)] in \<open>simp_all add: range_of_def\<close>)
  with q(1) show ?thesis by (simp add: range_of_def new_range_begin_at outs_same)
qed

lemma does_loop_set:
  assumes q: "range_of pr P rows (map snd rows) q l" "handles_for H (pr_container q) (map snd rows)"
    and pr: "\<And>V H' cs. handles_for H' cs (map snd rows) \<Longrightarrow> decides B (stands c0 rows Bk T V) H' pr cs P rows" and n: "length rows < n"
    and f: "\<And>V j. j < length rows \<Longrightarrow> P (rows ! j) \<Longrightarrow>
      does B (stands c0 rows Bk T V) H (f (pr_container q ! j)) x (stands c0 rows Bk T (V(snd (rows ! j) := u (snd (rows ! j)))))"
  shows "\<exists>ys. does B (stands c0 rows Bk T V) H (range_for n q (pr_begin q) f) ys
    (stands c0 rows Bk T (\<lambda>i. if i \<in> snd ` set (filter P rows) then u i else V i))"
proof -
  let ?step = "\<lambda>V e. V(snd e := u (snd e))"
  have "does B (stands c0 rows Bk T V) H (range_for n q \<lparr>m_current = skip_forward P rows 0, m_fr = True\<rparr> f)
      (outs (\<lambda>_ _. x) ?step V (filter P (drop 0 rows))) (stands c0 rows Bk T (foldl ?step V (filter P (drop 0 rows))))"
    by (rule does_range_for [where S = "stands c0 rows Bk T" and K = "\<lambda>_. True" and hs = "pr_container q"])
      (use q pr f n handles_for_length [OF q(2)] in \<open>simp_all add: range_of_def\<close>)
  moreover have "foldl ?step V es = (\<lambda>i. if i \<in> snd ` set es then u i else V i)" for es :: "(string \<times> pid) list"
    by (induction es arbitrary: V) (auto simp: fun_eq_iff)
  ultimately show ?thesis using q(1) by (auto simp: range_of_def new_range_begin_at)
qed

text \<open>The predicates.\<close>

lemma decides_by_value:
  assumes "handles_for H hs (map snd rows)"
    and "\<And>H' g d nm i. (nm, i) \<in> set rows \<Longrightarrow> H' g = Some d \<Longrightarrow> m_param d = Some i \<Longrightarrow>
      moves nm (Bk i) (T i) H' i (V i) (k g) (P (nm, i)) (V i)"
  shows "decides B (stands c0 rows Bk T V) H (\<lambda>h. by_value E h k) hs P rows"
  unfolding decides_def
proof (intro conjI allI impI)
  show "length hs = length rows" using assms(1) by (rule handles_for_length)
  fix j assume j: "j < length rows"
  obtain d where d: "H (hs ! j) = Some d" "m_param d = Some (snd (rows ! j))" using assms(1) j by (rule handles_for_at)
  obtain nm i where e: "rows ! j = (nm, i)" by (cases "rows ! j")
  with j have row: "(nm, i) \<in> set rows" by (metis nth_mem)
  show "does B (stands c0 rows Bk T V) H (by_value E (hs ! j) k) (P (rows ! j)) (stands c0 rows Bk T V)"
    by (rule does_by_value [where H = H and i = i and nm = nm, OF d(1)]) (use d(2) e row assms(2) in auto)
qed

lemma decides_log_level:
  assumes "handles_for H hs (map snd rows)"
  shows "decides B (stands c0 rows Bk T V) H (log_level_param_predicate E) hs (\<lambda>e. is_log_level (c_str (fst e))) rows"
proof -
  have "moves nm b t H' i v (bindM (handle_query E g param_name) (\<lambda>nm. retM (is_log_level nm))) (is_log_level (c_str nm)) v"
    if "H' g = Some d" "m_param d = Some i" for H' g d nm i b t v
    by (rule moves_bindM [OF moves_handle_name [where H = H' and h = g, OF that] moves_retM])
  then show ?thesis
    unfolding log_level_param_predicate_def
    by (intro decides_by_value [OF assms, where P = "\<lambda>e. is_log_level (c_str (fst e))"]) simp
qed

text \<open>The last component of the name is \<open>log_level\<close>.\<close>

lemma log_level_name: "is_log_level (c_str nm) \<longleftrightarrow> (\<exists>parent. c_str nm = parent @ ''.log_level'')"
proof -
  have c: "c_str (c_str s) = c_str s" for s by (simp add: c_str_def)
  let ?s = "c_str nm" and ?dot = "CHR ''.''"
  let ?base = "rev (takeWhile (\<lambda>x. x \<noteq> ?dot) (rev ?s))"
  have "c_str ?base = ?base"
  proof -
    have "set ?base \<subseteq> set ?s" using set_takeWhileD by fastforce
    moreover have "CHR 0x00 \<notin> set ?s" unfolding c_str_def using set_takeWhileD by fastforce
    ultimately show ?thesis unfolding c_str_def by (intro takeWhile_eq_all_conv [THEN iffD2]) auto
  qed
  moreover have "c_str ''log_level'' = ''log_level''" by (simp add: c_str_def)
  ultimately have log: "is_log_level ?s \<longleftrightarrow> ?dot \<in> set ?s \<and> ?base = ''log_level''"
    by (simp add: is_log_level_def strrchr_def strcmp_eq_0 c)
  show ?thesis
  proof
    assume "is_log_level ?s"
    with log have d: "?dot \<in> set ?s" and base: "?base = ''log_level''" by simp_all
    from d have "dropWhile (\<lambda>x. x \<noteq> ?dot) (rev ?s) \<noteq> []" by (simp add: dropWhile_eq_Nil_conv)
    then obtain t where t: "dropWhile (\<lambda>x. x \<noteq> ?dot) (rev ?s) = ?dot # t"
      using hd_dropWhile [of "\<lambda>x. x \<noteq> ?dot" "rev ?s"] by (cases "dropWhile (\<lambda>x. x \<noteq> ?dot) (rev ?s)") auto
    have "rev ?s = rev ?base @ ?dot # t"
      using takeWhile_dropWhile_id [of "\<lambda>x. x \<noteq> ?dot" "rev ?s"] t by simp
    then have "?s = rev t @ ?dot # ?base" by (simp add: rev_eq_append_conv)
    with base show "\<exists>parent. ?s = parent @ ''.log_level''" by auto
  next
    assume "\<exists>parent. ?s = parent @ ''.log_level''"
    then obtain parent where p: "?s = parent @ ''.log_level''" by blast
    then show "is_log_level ?s" unfolding log by (simp add: p)
  qed
qed

section \<open>The tools as a whole\<close>

lemma does_world:
  assumes m: "does B S H m x S'" and s: "S (params s)" "handles_ok s" "H \<subseteq>\<^sub>m handles s" "brokers s = B"
  obtains k c' where "m s = (Ret x, put c' (bump k s))" and "S' c'" and "dom c' = dom (params s)"
proof -
  have "has_view (params s) H s" using s by (simp add: has_view_def)
  with m s(1,4) that show thesis unfolding does_def by (auto elim!: leavesE simp: put_params)
qed

text \<open>
  The parameters \<open>rows\<close> exist under their names, have no callbacks, may be written, and their values
  convert.
\<close>

definition settled :: "('v, 'j) env \<Rightarrow> (string \<times> pid) list \<Rightarrow> ('v, 'j) world \<Rightarrow> bool" where
  "settled E rows s \<longleftrightarrow> (\<forall>nm i. (nm, i) \<in> set rows \<longrightarrow>
     (\<exists>p. params s i = Some p \<and> unwatched p \<and> m_name p = nm \<and> fst (pack E (p_type p) (m_value p))))"

definition type_at :: "('v, 'j) world \<Rightarrow> pid \<Rightarrow> tid" where
  "type_at s i = p_type (the (params s i))"

definition value_at :: "('v, 'j) world \<Rightarrow> pid \<Rightarrow> 'v" where
  "value_at s i = m_value (the (params s i))"

lemma settled_stands:
  assumes "settled E rows s"
  shows "stands (params s) rows (\<lambda>i. m_broker (m_broker_handle (the (params s i)))) (type_at s) (value_at s) (params s)"
    and "all_pack E rows (type_at s) (value_at s)"
  using assms by (fastforce simp: settled_def stands_def steady_def type_at_def value_at_def all_pack_def)+

lemma does_show_each:
  assumes h: "handles_for H hs (map snd rows)" and V: "all_pack E rows T V"
  shows "does B (stands c0 rows Bk T V) H (for_each hs (show_param E (Suc N))) (map (line E T V) rows) (stands c0 rows Bk T V)"
proof -
  have "does B (stands c0 rows Bk T V) H (for_each hs (show_param E (Suc N)))
      (outs (\<lambda>_ :: unit. line E T V) (\<lambda>V _. V) () rows) (stands c0 rows Bk T V)"
  proof (rule does_for_each [where S = "\<lambda>_. stands c0 rows Bk T V" and V = "()" and step = "\<lambda>V _. V"])
    show "length hs = length rows" using h by (rule handles_for_length)
    fix j assume j: "j < length rows"
    obtain d where d: "H (hs ! j) = Some d" "m_param d = Some (snd (rows ! j))" using h j by (rule handles_for_at)
    show "does B (stands c0 rows Bk T V) H (show_param E (Suc N) (hs ! j)) (line E T V (rows ! j)) (stands c0 rows Bk T V)"
      by (rule does_show_param [where H = H, OF d _ V]) (use j in simp)
  qed
  then show ?thesis by (simp add: outs_same)
qed

lemma does_show_range:
  assumes q: "range_of pr P rows (map snd rows) q l" "handles_for H (pr_container q) (map snd rows)" and n: "length rows \<le> N"
    and pr: "\<And>H' cs. handles_for H' cs (map snd rows) \<Longrightarrow> decides B (stands c0 rows Bk T V) H' pr cs P rows"
    and V: "all_pack E rows T V"
  shows "does B (stands c0 rows Bk T V) H (range_for (Suc N) q (pr_begin q) (if_valid (show_param E (Suc M))))
      (map (Some \<circ> line E T V) (filter P rows)) (stands c0 rows Bk T V)"
    and "does B (stands c0 rows Bk T V) H (range_for (Suc N) q (pr_begin q) (show_param E (Suc M)))
      (map (line E T V) (filter P rows)) (stands c0 rows Bk T V)"
proof -
  have row: "does B (stands c0 rows Bk T V) H (show_param E (Suc M) (pr_container q ! j)) (line E T V (rows ! j)) (stands c0 rows Bk T V)
      \<and> does B (stands c0 rows Bk T V) H (if_valid (show_param E (Suc M)) (pr_container q ! j)) (Some (line E T V (rows ! j))) (stands c0 rows Bk T V)"
    if j: "j < length rows" for j
  proof -
    obtain d where d: "H (pr_container q ! j) = Some d" "m_param d = Some (snd (rows ! j))" using q(2) j by (rule handles_for_at)
    have "does B (stands c0 rows Bk T V) H (show_param E (Suc M) (pr_container q ! j)) (line E T V (rows ! j)) (stands c0 rows Bk T V)"
      by (rule does_show_param [where H = H, OF d _ V]) (use j in simp)
    moreover have "does B (stands c0 rows Bk T V) H (if_valid (show_param E (Suc M)) (pr_container q ! j)) (Some (line E T V (rows ! j))) (stands c0 rows Bk T V)"
      by (rule does_if_valid [where H = H and f = "show_param E (Suc M)", OF d calculation])
    ultimately show ?thesis ..
  qed
  show "does B (stands c0 rows Bk T V) H (range_for (Suc N) q (pr_begin q) (if_valid (show_param E (Suc M))))
      (map (Some \<circ> line E T V) (filter P rows)) (stands c0 rows Bk T V)"
    by (rule does_loop_same [OF q]) (use n pr row in auto)
  show "does B (stands c0 rows Bk T V) H (range_for (Suc N) q (pr_begin q) (show_param E (Suc M)))
      (map (line E T V) (filter P rows)) (stands c0 rows Bk T V)"
    by (rule does_loop_same [OF q]) (use n pr row in auto)
qed

text \<open>A search that prints what it finds, in a state that it keeps.\<close>

lemma does_search_show:
  fixes E :: "('v, 'j) env" and k :: "('v, 'j) param_range \<Rightarrow> (string \<times> 'j) option list \<Rightarrow> ('v, 'j, 'y) cci"
    and k' :: "('v, 'j) param_range \<Rightarrow> (string \<times> 'j) list \<Rightarrow> ('v, 'j, 'y) cci"
  assumes b: "B (m_broker bh) = Some r" "\<not> (b_forwarding r \<and> has_parent r)" and rows: "m_param_registry r = rows" "length rows \<le> N"
    and pr: "\<And>H' cs. handles_for H' cs (map snd rows) \<Longrightarrow> decides B (stands c0 rows Bk T V) H' pr cs P rows"
    and V: "all_pack E rows T V"
  shows "(\<And>H' q l. range_of pr P rows (map snd rows) q l \<Longrightarrow> handles_for H' (pr_container q) (map snd rows) \<Longrightarrow>
      does B (stands c0 rows Bk T V) H' (k q (map (Some \<circ> line E T V) (filter P rows))) y S2) \<Longrightarrow>
    does B (stands c0 rows Bk T V) H (search E (Suc N) bh pr (if_valid (show_param E (Suc N))) k) y S2"
    and "(\<And>H' q l. range_of pr P rows (map snd rows) q l \<Longrightarrow> handles_for H' (pr_container q) (map snd rows) \<Longrightarrow>
      does B (stands c0 rows Bk T V) H' (k' q (map (line E T V) (filter P rows))) y' S2) \<Longrightarrow>
    does B (stands c0 rows Bk T V) H (search E (Suc N) bh pr (show_param E (Suc N)) k') y' S2"
proof -
  have search: "does B (stands c0 rows Bk T V) H (search E (Suc N) bh pr pm k) y S2"
    if loop: "\<And>H' q l. range_of pr P rows (map snd rows) q l \<Longrightarrow> handles_for H' (pr_container q) (map snd rows) \<Longrightarrow>
        does B (stands c0 rows Bk T V) H' (range_for (Suc N) q (pr_begin q) pm) ys (stands c0 rows Bk T V)"
      and k: "\<And>H' q l. range_of pr P rows (map snd rows) q l \<Longrightarrow> handles_for H' (pr_container q) (map snd rows) \<Longrightarrow>
        does B (stands c0 rows Bk T V) H' (k q ys) y S2"
    for pm :: "hid \<Rightarrow> ('v, 'j, 'x) cci" and k :: "('v, 'j) param_range \<Rightarrow> 'x list \<Rightarrow> ('v, 'j, 'y) cci" and ys y
  proof (rule does_search [where B = B and bh = bh, OF b rows(1)])
    show "\<exists>p. c i = Some p" if "i \<in> snd ` set rows" "stands c0 rows Bk T V c" for i c using that by (rule stands_alive)
  qed (rule pr loop k; assumption)+
  note loops = does_show_range [OF _ _ rows(2) _ V]
  show "does B (stands c0 rows Bk T V) H (search E (Suc N) bh pr (if_valid (show_param E (Suc N))) k) y S2"
    if "\<And>H' q l. range_of pr P rows (map snd rows) q l \<Longrightarrow> handles_for H' (pr_container q) (map snd rows) \<Longrightarrow>
      does B (stands c0 rows Bk T V) H' (k q (map (Some \<circ> line E T V) (filter P rows))) y S2"
    by (rule search, rule loops(1), assumption, assumption, erule pr, rule that)
  show "does B (stands c0 rows Bk T V) H (search E (Suc N) bh pr (show_param E (Suc N)) k') y' S2"
    if "\<And>H' q l. range_of pr P rows (map snd rows) q l \<Longrightarrow> handles_for H' (pr_container q) (map snd rows) \<Longrightarrow>
      does B (stands c0 rows Bk T V) H' (k' q (map (line E T V) (filter P rows))) y' S2"
    by (rule search, rule loops(2), assumption, assumption, erule pr, rule that)
qed

text \<open>The list of all parameters comes first.\<close>

lemma does_list_all:
  assumes b: "B (m_broker bh) = Some r" "\<not> (b_forwarding r \<and> has_parent r)" and rows: "m_param_registry r = rows"
    and V: "all_pack E rows T V"
    and k: "\<And>H'. does B (stands c0 rows Bk T V) H' (k (map (line E T V) rows)) y S2"
  shows "does B (stands c0 rows Bk T V) H (scoped (handle_broker_get_param_handles E (Suc N) bh) (\<lambda>hs. hs) (\<lambda>hs.
    bindM (for_each hs (show_param E (Suc N))) k)) y S2"
  unfolding does_def handle_broker_get_param_handles_def
proof (rule leaves_scoped)
  show "leaves B (stands c0 rows Bk T V) H (get_param_handles E (Suc N) (m_broker bh) (bh_originator bh)) (vector_of (map snd rows))
      (stands c0 rows Bk T V)"
    unfolding rows [symmetric]
    by (rule leaves_get_param_handles [where B = B and b = "m_broker bh", OF b]) (use stands_alive rows in blast)
  fix hs and l :: new_handles assume l: "vector_of (map snd rows) hs l"
  then show "hs = map fst l" by (simp add: vector_of_def)
  assume "distinct (map fst l)"
  with l have "handles_for (with_new H l) hs (map snd rows)" by (rule vector_of_handles)
  from does_show_each [OF this V]
  show "leaves B (stands c0 rows Bk T V) (with_new H l) (bindM (for_each hs (show_param E (Suc N))) k) (\<lambda>z l. z = y \<and> l = []) S2"
    by (rule does_then) (rule k [unfolded does_def])
qed

text \<open>The values after a run that leaves the parameters of a broker in a known state.\<close>

lemma stands_after:
  assumes "settled E rows s" and "stands (params s) rows Bk T W c'" and "dom c' = dom (params s)"
  shows "(nm, i) \<in> set rows \<Longrightarrow> value_at (put c' (bump k s)) i = W i"
    and "i \<notin> snd ` set rows \<Longrightarrow> params (put c' (bump k s)) i = params s i"
proof -
  assume row: "(nm, i) \<in> set rows"
  obtain q where "params s i = Some q" using assms(1) row unfolding settled_def by blast
  moreover obtain p where "c' i = Some p" "m_value p = W i" using assms(2) row unfolding stands_def steady_def by blast
  ultimately show "value_at (put c' (bump k s)) i = W i" by (simp add: value_at_def params_put)
next
  assume "i \<notin> snd ` set rows"
  with assms(2) show "params (put c' (bump k s)) i = params s i"
    by (cases "params s i") (auto simp: stands_def params_put)
qed

text \<open>What the predicates of example 22 look for, on the line that is printed of an entry.\<close>

definition printed_category :: "('v, 'j) env \<Rightarrow> string \<times> 'j \<Rightarrow> cci_param_data_category" where
  "printed_category E x = data_category (category E (snd x))"

definition in_range :: "('v, 'j) env \<Rightarrow> ('j \<Rightarrow> 'd) \<Rightarrow> ('d \<Rightarrow> bool) \<Rightarrow> ('d \<Rightarrow> bool) \<Rightarrow> string \<times> 'j \<Rightarrow> bool" where
  "in_range E d at_least below x \<longleftrightarrow>
     printed_category E x \<in> {CCI_REAL_PARAM, CCI_INTEGRAL_PARAM} \<and> at_least (d (snd x)) \<and> below (d (snd x))"

lemma decides_category:
  assumes h: "handles_for H hs (map snd rows)" and V: "all_pack E rows T V"
  shows "decides B (stands c0 rows Bk T V) H
    (\<lambda>h. by_value E h (\<lambda>g. bindM (handle_get_data_category E run (Suc n) g) (\<lambda>c. retM (f c)))) hs
    (\<lambda>e. f (printed_category E (line E T V e))) rows"
proof (rule decides_by_value [OF h])
  fix H' :: "hid \<Rightarrow> param_handle option" and g d nm i assume row: "(nm, i) \<in> set rows" and g: "H' g = Some d" "m_param d = Some i"
  have x: "pack E (T i) (V i) = (True, snd (line E T V (nm, i)))" using all_packD [OF V row] by simp
  show "moves nm (Bk i) (T i) H' i (V i) (bindM (handle_get_data_category E run (Suc n) g) (\<lambda>c. retM (f c)))
      (f (printed_category E (line E T V (nm, i)))) (V i)"
    unfolding printed_category_def
    by (rule moves_bindM [OF moves_handle_category [where H = H' and h = g, OF g x] moves_retM])
qed

lemma decides_in_range:
  assumes h: "handles_for H hs (map snd rows)" and V: "all_pack E rows T V"
    and dbl: "\<And>e. e \<in> set rows \<Longrightarrow> printed_category E (line E T V e) \<in> {CCI_REAL_PARAM, CCI_INTEGRAL_PARAM} \<Longrightarrow>
      dbl (snd (line E T V e)) = retM (d (snd (line E T V e)))"
  shows "decides B (stands c0 rows Bk T V) H (value_in_range_predicate E (Suc n) dbl at_least below) hs
    (\<lambda>e. in_range E d at_least below (line E T V e)) rows"
  unfolding value_in_range_predicate_def
proof (rule decides_by_value [OF h])
  fix H' :: "hid \<Rightarrow> param_handle option" and g h nm i assume row: "(nm, i) \<in> set rows" and g: "H' g = Some h" "m_param h = Some i"
  let ?e = "(nm, i)" and ?run = "runner E (Suc n)"
  let ?x = "snd (line E T V ?e)" and ?c = "printed_category E (line E T V ?e)"
  have x: "pack E (T i) (V i) = (True, ?x)" using all_packD [OF V row] by simp
  have cat: "moves nm (Bk i) (T i) H' i (V i) (handle_get_data_category E ?run (Suc n) g) ?c (V i)"
    unfolding printed_category_def by (rule moves_handle_category [where H = H' and h = g, OF g x])
  have "moves nm (Bk i) (T i) H' i (V i) (bindM (handle_get_data_category E ?run (Suc n) g) (\<lambda>c. if c = CCI_REAL_PARAM then retM True
      else bindM (handle_get_data_category E ?run (Suc n) g) (\<lambda>c. retM (c = CCI_INTEGRAL_PARAM))))
      (?c \<in> {CCI_REAL_PARAM, CCI_INTEGRAL_PARAM}) (V i)" (is "moves _ _ _ _ _ _ ?number _ _")
  proof (cases "?c = CCI_REAL_PARAM")
    case True
    then show ?thesis by (intro moves_bindM [OF cat]) (simp add: moves_retM del: retM_apply)
  next
    case False
    then show ?thesis using moves_bindM [OF cat moves_retM, of "\<lambda>c. c = CCI_INTEGRAL_PARAM"]
      by (intro moves_bindM [OF cat]) (simp del: retM_apply)
  qed
  note number = this
  have get: "moves nm (Bk i) (T i) H' i (V i) (bindM (handle_get_cci_value E ?run (Suc n) g) dbl) (d ?x) (V i)"
    if "?c \<in> {CCI_REAL_PARAM, CCI_INTEGRAL_PARAM}"
    by (rule moves_bindM [OF moves_handle_get [where H = H' and h = g, OF g x]]) (simp only: dbl [OF row that] moves_retM)
  have below: "moves nm (Bk i) (T i) H' i (V i) (bindM (bindM (handle_get_cci_value E ?run (Suc n) g) dbl) (\<lambda>x. retM (below x)))
      (below (d ?x)) (V i)" if "?c \<in> {CCI_REAL_PARAM, CCI_INTEGRAL_PARAM}"
    by (rule moves_bindM [OF get [OF that] moves_retM])
  have "moves nm (Bk i) (T i) H' i (V i) (bindM ?number (\<lambda>number. if number then
        bindM (bindM (handle_get_cci_value E ?run (Suc n) g) dbl) (\<lambda>x. if at_least x then
          bindM (bindM (handle_get_cci_value E ?run (Suc n) g) dbl) (\<lambda>x. retM (below x)) else retM False)
      else retM False)) (in_range E d at_least below (line E T V ?e)) (V i)"
  proof (cases "?c \<in> {CCI_REAL_PARAM, CCI_INTEGRAL_PARAM}")
    case True
    show ?thesis
      by (rule moves_bindM [OF number], subst if_P [OF True], rule moves_bindM [OF get [OF True]])
        (use True below [OF True] in \<open>simp add: in_range_def moves_retM del: bindM_assoc retM_apply\<close>)
  next
    case False
    show ?thesis
      by (rule moves_bindM [OF number], subst if_not_P [OF False])
        (use False in \<open>simp add: in_range_def moves_retM del: retM_apply\<close>)
  qed
  then show "moves nm (Bk i) (T i) H' i (V i) (let category = handle_get_data_category E ?run (Suc n) g;
        get_double = bindM (handle_get_cci_value E ?run (Suc n) g) dbl
      in bindM (bindM category (\<lambda>c. if c = CCI_REAL_PARAM then retM True else bindM category (\<lambda>c. retM (c = CCI_INTEGRAL_PARAM)))) (\<lambda>number.
         if number then bindM get_double (\<lambda>x. if at_least x then bindM get_double (\<lambda>x. retM (below x)) else retM False) else retM False))
      (in_range E d at_least below (line E T V ?e)) (V i)"
    by (simp only: Let_def)
qed

lemma decides_name:
  assumes "handles_for H hs (map snd rows)" and "ch \<noteq> CHR 0x00"
  shows "decides B (stands c0 rows Bk T V) H (name_contains_character_predicate E ch) hs (\<lambda>e. ch \<in> set (c_str (fst e))) rows"
proof -
  have "moves nm b t H' i v (bindM (handle_query E g param_name) (\<lambda>nm. retM (ch = CHR 0x00 \<or> ch \<in> set (c_str nm)))) (ch \<in> set (c_str nm)) v"
    if "H' g = Some d" "m_param d = Some i" for H' :: "hid \<Rightarrow> param_handle option" and g d nm i b t v
  proof -
    have "moves nm b t H' i v (bindM (handle_query E g param_name) (\<lambda>nm. retM (ch = CHR 0x00 \<or> ch \<in> set (c_str nm))))
        (ch = CHR 0x00 \<or> ch \<in> set (c_str (c_str nm))) v"
      by (rule moves_bindM [OF moves_handle_name [where H = H' and h = g, OF that] moves_retM])
    with assms(2) show ?thesis by (simp add: c_str_def)
  qed
  then show ?thesis
    unfolding name_contains_character_predicate_def
    by (intro decides_by_value [OF assms(1), where P = "\<lambda>e. ch \<in> set (c_str (fst e))"]) simp
qed

text \<open>
  C11. Searching by predicates. The tool of example 22 prints all parameters of the broker in the order
  of their names, and then exactly those whose value is an integer, those whose value is a string,
  those whose value is a number of the range, and those whose name has a \<open>t\<close>, each in that order. The
  parameters keep their values, no handle is left, and nothing is reported. \<open>get_double\<close> is asked of
  numbers only. The predicates are programs that copy the handle, read the parameter through the copy
  and destroy it; this says that the lazy range over them is the filter by what they stand for.
\<close>

theorem search_results:
  fixes E :: "('v, 'j) env"
  assumes ok: "handles_ok s" and b: "brokers s (m_broker bh) = Some r" "\<not> (b_forwarding r \<and> has_parent r)"
    and rows: "m_param_registry r = rows" "settled E rows s" and N: "length rows < N" and out: "out = line E (type_at s) (value_at s)"
    and dbl: "\<And>e. e \<in> set rows \<Longrightarrow> printed_category E (out e) \<in> {CCI_REAL_PARAM, CCI_INTEGRAL_PARAM} \<Longrightarrow>
      dbl (snd (out e)) = retM (d (snd (out e)))"
  shows "\<exists>t. ex22_execute E N bh dbl at_least_3 below_85 s = (Ret (map out rows,
        map (Some \<circ> out) (filter (\<lambda>e. printed_category E (out e) = CCI_INTEGRAL_PARAM) rows),
        map (Some \<circ> out) (filter (\<lambda>e. printed_category E (out e) = CCI_STRING_PARAM) rows),
        map out (filter (\<lambda>e. in_range E d at_least_3 below_85 (out e)) rows),
        map out (filter (\<lambda>e. CHR ''t'' \<in> set (c_str (fst e))) rows)), t)
    \<and> (\<forall>(nm, i) \<in> set rows. value_at t i = value_at s i) \<and> (\<forall>i. i \<notin> snd ` set rows \<longrightarrow> params t i = params s i)
    \<and> handles t = handles s \<and> brokers t = brokers s \<and> reports t = reports s"
proof -
  obtain n where n: "N = Suc n" "length rows \<le> n" using N by (cases N) auto
  let ?S = "stands (params s) rows (\<lambda>i. m_broker (m_broker_handle (the (params s i)))) (type_at s) (value_at s)"
  let ?B = "brokers s"
  note st = settled_stands [OF rows(2)]
  note search = does_search_show [where B = ?B and bh = bh, OF b rows(1) n(2) _ st(2)]
  have ints: "decides ?B ?S H (integer_type_predicate E (Suc n)) hs (\<lambda>e. printed_category E (out e) = CCI_INTEGRAL_PARAM) rows"
    and strings: "decides ?B ?S H (string_type_predicate E (Suc n)) hs (\<lambda>e. printed_category E (out e) = CCI_STRING_PARAM) rows"
    if "handles_for H hs (map snd rows)" for H hs
    unfolding integer_type_predicate_def string_type_predicate_def out by (rule decides_category [OF that st(2)])+
  have numbers: "decides ?B ?S H (value_in_range_predicate E (Suc n) dbl at_least_3 below_85) hs
      (\<lambda>e. in_range E d at_least_3 below_85 (out e)) rows" if "handles_for H hs (map snd rows)" for H hs
    using dbl unfolding out by (rule decides_in_range [OF that st(2)])
  have "does ?B ?S (handles s) (ex22_execute E N bh dbl at_least_3 below_85) (map out rows,
        map (Some \<circ> out) (filter (\<lambda>e. printed_category E (out e) = CCI_INTEGRAL_PARAM) rows),
        map (Some \<circ> out) (filter (\<lambda>e. printed_category E (out e) = CCI_STRING_PARAM) rows),
        map out (filter (\<lambda>e. in_range E d at_least_3 below_85 (out e)) rows),
        map out (filter (\<lambda>e. CHR ''t'' \<in> set (c_str (fst e))) rows)) ?S"
    unfolding ex22_execute_def n(1)
    by (rule does_list_all [where B = ?B and bh = bh, OF b rows(1) st(2)], rule search(1), erule ints,
        rule search(1), erule strings, rule search(2), erule numbers, rule search(2), erule decides_name, simp, unfold out, rule leaves_retM)
  then obtain k c' where t: "ex22_execute E N bh dbl at_least_3 below_85 s = (Ret (map out rows,
        map (Some \<circ> out) (filter (\<lambda>e. printed_category E (out e) = CCI_INTEGRAL_PARAM) rows),
        map (Some \<circ> out) (filter (\<lambda>e. printed_category E (out e) = CCI_STRING_PARAM) rows),
        map out (filter (\<lambda>e. in_range E d at_least_3 below_85 (out e)) rows),
        map out (filter (\<lambda>e. CHR ''t'' \<in> set (c_str (fst e))) rows)), put c' (bump k s))"
    and c': "?S c'" "dom c' = dom (params s)"
    by (rule does_world [where H = "handles s" and S = ?S and s = s, OF _ st(1) ok]) simp_all
  show ?thesis
    using t stands_after [OF rows(2) c'] by (intro exI [of _ "put c' (bump k s)"]) auto
qed

text \<open>What the predicate of example 23 looks for.\<close>

definition called_log_level :: "string \<Rightarrow> bool" where
  "called_log_level nm \<longleftrightarrow> (\<exists>parent. c_str nm = parent @ ''.log_level'')"

text \<open>The pass that sets the parameters.\<close>

lemma does_set_range:
  assumes q: "range_of pr P rows (map snd rows) q l" "handles_for H (pr_container q) (map snd rows)"
    and pr: "\<And>V H' cs. handles_for H' cs (map snd rows) \<Longrightarrow> decides B (stands c0 rows Bk T V) H' pr cs P rows" and n: "length rows \<le> n"
    and x: "\<And>nm i. (nm, i) \<in> set rows \<Longrightarrow> P (nm, i) \<Longrightarrow> unpack E (T i) x = (True, u i)"
  shows "\<exists>ys. does B (stands c0 rows Bk T V) H
    (range_for (Suc n) q (pr_begin q) (if_valid (\<lambda>h. handle_set_cci_value E run (Suc n) h x None))) ys
    (stands c0 rows Bk T (\<lambda>i. if i \<in> snd ` set (filter P rows) then u i else V i))"
proof (rule does_loop_set [OF q pr])
  fix V j assume j: "j < length rows" "P (rows ! j)"
  let ?f = "\<lambda>h. handle_set_cci_value E run (Suc n) h x None"
  obtain nm i where e: "rows ! j = (nm, i)" by (cases "rows ! j")
  with j(1) have row: "(nm, i) \<in> set rows" by (metis nth_mem)
  obtain d where d: "H (pr_container q ! j) = Some d" "m_param d = Some i" using q(2) j(1) e by (auto elim: handles_for_at)
  have "unpack E (T i) x = (True, u i)" using x [OF row] j(2) e by simp
  then have "does B (stands c0 rows Bk T V) H (?f (pr_container q ! j)) () (stands c0 rows Bk T (V(i := u i)))"
    by (intro does_moves [where i = i, OF row] moves_handle_set [where H = H, OF d])
  then show "does B (stands c0 rows Bk T V) H (if_valid ?f (pr_container q ! j))
      (Some ()) (stands c0 rows Bk T (V(snd (rows ! j) := u (snd (rows ! j)))))"
    using does_if_valid [where H = H and f = ?f, OF d] by (simp add: e)
qed (use n in simp_all)

text \<open>All of example 23 in terms of the states.\<close>

lemma does_ex23:
  assumes b: "B (m_broker bh) = Some r" "\<not> (b_forwarding r \<and> has_parent r)" and rows: "m_param_registry r = rows" "length rows < N"
    and V: "all_pack E rows T V" and x: "\<And>nm i. (nm, i) \<in> set rows \<Longrightarrow> called_log_level nm \<Longrightarrow>
      unpack E (T i) x = (True, u i) \<and> fst (pack E (T i) (u i))"
    and W: "W = (\<lambda>i. if i \<in> snd ` set (filter (\<lambda>e. called_log_level (fst e)) rows) then u i else V i)"
  shows "does B (stands c0 rows Bk T V) H (ex23_execute E N bh x) (map (line E T V) rows,
      map (Some \<circ> line E T V) (filter (\<lambda>e. called_log_level (fst e)) rows),
      map (Some \<circ> line E T W) (filter (\<lambda>e. called_log_level (fst e)) rows)) (stands c0 rows Bk T W)"
proof -
  obtain n where n: "N = Suc n" using rows(2) by (cases N) auto
  let ?P = "\<lambda>e. called_log_level (fst e)"
  have pr: "decides B (stands c0 rows Bk T V) H' (log_level_param_predicate E) cs ?P rows" if "handles_for H' cs (map snd rows)" for V H' cs
    using decides_log_level [OF that] by (simp add: log_level_name called_log_level_def)
  have "all_pack E rows T W" using V x by (force simp: all_pack_def W)
  note after = does_show_range(1) [OF _ _ _ pr this]
  have set: "\<exists>ys. does B (stands c0 rows Bk T V) H' (range_for (Suc n) q (pr_begin q)
      (if_valid (\<lambda>h. handle_set_cci_value E (runner E (Suc n)) (Suc n) h x None))) ys (stands c0 rows Bk T W)"
    if "range_of (log_level_param_predicate E) ?P rows (map snd rows) q l" "handles_for H' (pr_container q) (map snd rows)" for H' q l
    unfolding W by (rule does_set_range [OF that pr]) (use rows(2) n x in auto)
  show ?thesis
    unfolding ex23_execute_def n
  proof (rule does_list_all [where B = B and bh = bh, OF b rows(1) V], rule does_search_show(1) [where B = B and bh = bh, OF b rows(1) _ pr V])
    show "length rows \<le> n" using rows(2) n by simp
    fix H' q and l :: new_handles
    assume q: "range_of (log_level_param_predicate E) ?P rows (map snd rows) q l" "handles_for H' (pr_container q) (map snd rows)"
    then obtain ys where "does B (stands c0 rows Bk T V) H' (range_for (Suc n) q (pr_begin q)
      (if_valid (\<lambda>h. handle_set_cci_value E (runner E (Suc n)) (Suc n) h x None))) ys (stands c0 rows Bk T W)" using set by blast
    then show "does B (stands c0 rows Bk T V) H' (thenM (range_for (Suc n) q (pr_begin q)
          (if_valid (\<lambda>h. handle_set_cci_value E (runner E (Suc n)) (Suc n) h x None)))
        (bindM (range_for (Suc n) q (pr_begin q) (if_valid (show_param E (Suc n)))) (\<lambda>after.
          retM (map (line E T V) rows, map (Some \<circ> line E T V) (filter ?P rows), after))))
        (map (line E T V) rows, map (Some \<circ> line E T V) (filter ?P rows), map (Some \<circ> line E T W) (filter ?P rows)) (stands c0 rows Bk T W)"
      by (rule does_bindM) (rule does_bindM [OF after [OF q] leaves_retM], use rows(2) n in simp)
  qed
qed

text \<open>
  C10. Setting a parameter across the hierarchy. The tool of example 23 prints all parameters of the
  broker in the order of their names; then those whose last name component is \<open>log_level\<close>, before and
  after it sets them. After it has run, these parameters have the target value, and every other
  parameter has the value that it had; the handles that the vectors, the ranges and the predicates
  made are gone, and nothing is reported. The parameters may be any that have no callbacks, may be
  written, and take the value. This follows the vectors of handles, the range with its predicate, which
  is evaluated again in each pass, and the writes through the handles.
\<close>

theorem hierarchical_update:
  fixes E :: "('v, 'j) env"
  assumes ok: "handles_ok s" and b: "brokers s (m_broker bh) = Some r" "\<not> (b_forwarding r \<and> has_parent r)"
    and rows: "m_param_registry r = rows" "settled E rows s"
    and target: "\<And>nm i. (nm, i) \<in> set rows \<Longrightarrow> called_log_level nm \<Longrightarrow>
      unpack E (type_at s i) x = (True, u i) \<and> fst (pack E (type_at s i) (u i))"
    and N: "length rows < N"
  shows "\<exists>t. ex23_execute E N bh x s = (Ret (map (line E (type_at s) (value_at s)) rows,
        map (Some \<circ> line E (type_at s) (value_at s)) (filter (\<lambda>e. called_log_level (fst e)) rows),
        map (Some \<circ> line E (type_at s) (value_at t)) (filter (\<lambda>e. called_log_level (fst e)) rows)), t)
    \<and> (\<forall>(nm, i) \<in> set rows. value_at t i = (if called_log_level nm then u i else value_at s i))
    \<and> (\<forall>i. i \<notin> snd ` set rows \<longrightarrow> params t i = params s i)
    \<and> handles t = handles s \<and> brokers t = brokers s \<and> reports t = reports s"
proof -
  let ?P = "\<lambda>e. called_log_level (fst e)" and ?T = "type_at s" and ?V = "value_at s"
  let ?W = "\<lambda>i. if i \<in> snd ` set (filter ?P rows) then u i else ?V i"
  note st = settled_stands [OF rows(2)]
  obtain k c' where t: "ex23_execute E N bh x s = (Ret (map (line E ?T ?V) rows, map (Some \<circ> line E ?T ?V) (filter ?P rows),
      map (Some \<circ> line E ?T ?W) (filter ?P rows)), put c' (bump k s))"
    and c': "stands (params s) rows (\<lambda>i. m_broker (m_broker_handle (the (params s i)))) ?T ?W c'" "dom c' = dom (params s)"
    by (rule does_world [where H = "handles s", OF does_ex23 [where B = "brokers s", OF b rows(1) N st(2) target refl] st(1) ok]) simp_all
  let ?t = "put c' (bump k s)"
  note after = stands_after [OF rows(2) c']
  have log: "i \<in> snd ` set (filter ?P rows) \<longleftrightarrow> called_log_level nm" if row: "(nm, i) \<in> set rows" for nm i
  proof
    assume "i \<in> snd ` set (filter ?P rows)"
    then obtain nm' where "(nm', i) \<in> set rows" "called_log_level nm'" by auto
    with row rows(2) show "called_log_level nm" unfolding settled_def by (metis option.inject)
  qed (use row in force)
  have "map (Some \<circ> line E ?T (value_at ?t)) (filter ?P rows) = map (Some \<circ> line E ?T ?W) (filter ?P rows)"
  proof (rule map_cong [OF refl])
    fix e assume "e \<in> set (filter ?P rows)"
    then have "(fst e, snd e) \<in> set rows" by simp
    from after(1) [OF this] show "(Some \<circ> line E ?T (value_at ?t)) e = (Some \<circ> line E ?T ?W) e" by (simp add: line_def)
  qed
  moreover have "value_at ?t i = (if called_log_level nm then u i else ?V i)" if "(nm, i) \<in> set rows" for nm i
    using after(1) [OF that] log [OF that] by simp
  ultimately show ?thesis
    using t after(2) by (intro exI [of _ ?t]) auto
qed

section \<open>Instances\<close>

definition ex_setting :: "string \<Rightarrow> int \<Rightarrow> (int, int) param" where
  "ex_setting nm v = fresh_param nm ''a setting'' ex_broker_handle ex_originator 0 CCI_MUTABLE_PARAM v"

definition ex_rows :: "(string \<times> pid) list" where
  "ex_rows = [(''ip.count'', 1), (''ip.log_level'', 2), (''ip.sub.log_level'', 3)]"

definition ex_settings :: "(int, int) world" where
  "ex_settings =
     \<lparr>reports = [], params = Map.empty(1 \<mapsto> ex_setting ''ip.count'' 90, 2 \<mapsto> ex_setting ''ip.log_level'' 7,
        3 \<mapsto> ex_setting ''ip.sub.log_level'' 1), handles = Map.empty,
      brokers = Map.empty(0 \<mapsto> (empty_broker ''b'')\<lparr>m_param_registry := ex_rows\<rparr>), m_brokers = [None \<mapsto> 0],
      sc_names = {}, next_address = 4\<rparr>"

lemma ex_settings_ok: "handles_ok ex_settings" "settled (ex_env True) ex_rows ex_settings"
proof -
  show "handles_ok ex_settings"
    by (auto simp: handles_ok_def fresh_def ex_settings_def ex_setting_def fresh_param_def split: if_splits)
  have "no_callback k (ex_setting nm v)" for k nm v
    by (cases k) (simp_all add: no_callback_def callbacks_of.simps ex_setting_def fresh_param_def Lifecycle.no_callbacks_def)
  then have "unwatched (ex_setting nm v)" for nm v
    by (simp add: unwatched_def refusal_def is_locked_def ex_setting_def fresh_param_def)
  then show "settled (ex_env True) ex_rows ex_settings"
    by (auto simp: settled_def ex_rows_def ex_settings_def ex_env_def) (simp_all add: ex_setting_def fresh_param_def)
qed

lemma ex_settings_fields:
  "brokers ex_settings (m_broker ex_broker_handle) = Some ((empty_broker ''b'')\<lparr>m_param_registry := ex_rows\<rparr>)"
  "value_at ex_settings (Suc 0) = 90" "value_at ex_settings 2 = 7" "value_at ex_settings 3 = 1"
  by (auto simp: ex_settings_def ex_broker_handle_def type_at_def value_at_def ex_setting_def fresh_param_def)

lemma ex_called: "called_log_level ''ip.log_level''" "called_log_level ''ip.sub.log_level''" "\<not> called_log_level ''ip.count''"
  unfolding called_log_level_def log_level_name [symmetric]
  by (simp_all add: is_log_level_def strrchr_def strcmp_def c_str_def)

theorem search_results_witness:
  "\<exists>t. ex22_execute (ex_env True) 4 ex_broker_handle retM (\<lambda>x. 3 \<le> x) (\<lambda>x. x < 85) ex_settings =
     (Ret ([(''ip.count'', 90), (''ip.log_level'', 7), (''ip.sub.log_level'', 1)],
        [Some (''ip.count'', 90), Some (''ip.log_level'', 7), Some (''ip.sub.log_level'', 1)], [],
        [(''ip.log_level'', 7)], [(''ip.count'', 90)]), t) \<and> value_at t 1 = 90 \<and> handles t = handles ex_settings"
proof -
  have plain: "line (ex_env True) (type_at ex_settings) (value_at ex_settings) (nm, i) = (c_str nm, value_at ex_settings i)" for nm i
    by (simp add: line_def ex_env_def)
  have "\<not> (b_forwarding ((empty_broker ''b'')\<lparr>m_param_registry := ex_rows\<rparr>) \<and> has_parent ((empty_broker ''b'')\<lparr>m_param_registry := ex_rows\<rparr>))"
    by (simp add: empty_broker_def)
  from search_results [OF ex_settings_ok(1) ex_settings_fields(1) this _ ex_settings_ok(2) _ refl, of 4 retM "\<lambda>x. x" "\<lambda>x. 3 \<le> x" "\<lambda>x. x < 85"]
  show ?thesis
    by (auto simp: ex_rows_def plain ex_settings_fields in_range_def printed_category_def c_str_def) (simp_all add: ex_env_def)
qed

theorem hierarchical_update_witness:
  "\<exists>t. ex23_execute (ex_env True) 4 ex_broker_handle 500 ex_settings =
     (Ret ([(''ip.count'', 90), (''ip.log_level'', 7), (''ip.sub.log_level'', 1)],
        [Some (''ip.log_level'', 7), Some (''ip.sub.log_level'', 1)],
        [Some (''ip.log_level'', 500), Some (''ip.sub.log_level'', 500)]), t)
     \<and> value_at t 1 = 90 \<and> value_at t 2 = 500 \<and> value_at t 3 = 500"
proof -
  have plain: "line (ex_env True) (type_at ex_settings) V (nm, i) = (c_str nm, V i)" for nm i V
    by (simp add: line_def ex_env_def)
  have "\<not> (b_forwarding ((empty_broker ''b'')\<lparr>m_param_registry := ex_rows\<rparr>) \<and> has_parent ((empty_broker ''b'')\<lparr>m_param_registry := ex_rows\<rparr>))"
    by (simp add: empty_broker_def)
  from hierarchical_update [OF ex_settings_ok(1) ex_settings_fields(1) this _ ex_settings_ok(2), of 500 "\<lambda>_. 500" 4]
  have "\<exists>t. ex23_execute (ex_env True) 4 ex_broker_handle 500 ex_settings =
      (Ret (map (line (ex_env True) (type_at ex_settings) (value_at ex_settings)) ex_rows,
        map (Some \<circ> line (ex_env True) (type_at ex_settings) (value_at ex_settings)) (filter (\<lambda>e. called_log_level (fst e)) ex_rows),
        map (Some \<circ> line (ex_env True) (type_at ex_settings) (value_at t)) (filter (\<lambda>e. called_log_level (fst e)) ex_rows)), t)
      \<and> (\<forall>(nm, i) \<in> set ex_rows. value_at t i = (if called_log_level nm then 500 else value_at ex_settings i))"
    by (auto simp: ex_env_def ex_rows_def)
  then show ?thesis
    by (auto simp: ex_rows_def plain ex_settings_fields ex_called c_str_def)
qed

end
