(* ===== verification/Param_Life.thy ===== *)
theory Param_Life
  imports Steady_Params Registry_Properties
begin

text \<open>
  The whole life of a parameter, across the components: its constructor finds a name and a broker and
  enters the parameter, a tool of another module looks it up and writes it through a handle, the
  destructor takes it out again and invalidates the handle, and a second parameter of the same name
  takes its place. This is what the two modules of example 21 do to each other
  (src/examples/cci/ex21_Param_Destruction_Resurrection), whose threads SystemC runs in the order of their waits.
\<close>

section \<open>Construction\<close>

text \<open>A name that is not empty and has no NUL character, and a broker that keeps nothing under it.\<close>

definition proper_name :: "string \<Rightarrow> bool" where
  "proper_name nm \<longleftrightarrow> nm \<noteq> [] \<and> c_str nm = nm"

definition vacant :: "'j broker \<Rightarrow> string \<Rightarrow> bool" where
  "vacant r nm \<longleftrightarrow> \<not> (b_forwarding r \<and> sendToParent nm r) \<and> get_orig_param nm r = None
     \<and> \<not> consuming_has_preset_value nm r \<and> m_create_callbacks r = [] \<and> m_destroy_callbacks r = []"

lemma gen_unique_name_free:
  assumes "systemc_names E" and "proper_name nm" and "nm \<notin> sc_names s"
  shows "cci_gen_unique_name E (Some nm) s = (Ret nm, s\<lparr>sc_names := insert nm (sc_names s)\<rparr>)"
  using assms
  by (simp add: cci_gen_unique_name_def proper_name_def systemc_names_def return_name_def Let_def)

lemma choose_name_free:
  assumes "systemc_names E" and "proper_name nm" and "nm \<notin> sc_names s"
  shows "choose_name E n b nm s = (Ret nm, s\<lparr>sc_names := insert nm (sc_names s)\<rparr>)"
  unfolding choose_name_def by (subst bindM_Ret, rule gen_unique_name_free [OF assms]) simp

lemma add_fresh_param:
  assumes p: "params s i = Some p" "write_quiet p" and nm: "param_name p = nm" "m_broker (m_broker_handle p) = b"
    and r: "brokers s b = Some r" "vacant r nm"
  shows "init E run (Suc n) b i s = (Ret (), map_broker b (register_param nm i) s)"
proof -
  have own: "own_broker s p r" using r nm by (auto simp: own_broker_def vacant_def)
  have none: "get_orig_param (param_name p) r = None" "\<not> consuming_has_preset_value (param_name p) r"
    using r nm by (simp_all add: vacant_def)
  have "init E run (Suc n) b i s = add_param run (Suc n) b i s"
    using init_preset_part [OF p own none(1), of E undefined run n] none(2) nm by simp
  also have "\<dots> = (Ret (), map_broker b (\<lambda>r. use_preset nm (register_param nm i r)) s)"
    using own_broker_adds [OF own p(1), of run n] add_param_quiet [OF p(1), of b r run n] r nm none
    by (simp add: vacant_def)
  also have "map_broker b (\<lambda>r. use_preset nm (register_param nm i r)) s = map_broker b (register_param nm i) s"
  proof -
    have "map_find nm (m_unused_value_registry r) = None"
      using r(2) by (auto simp: vacant_def consuming_has_preset_value_def split: if_splits)
    then have "use_preset nm (register_param nm i r) = register_param nm i r"
      by (simp add: use_preset_def register_param_def)
    with r(1) show ?thesis by (simp add: map_broker_def)
  qed
  finally show ?thesis .
qed

text \<open>
  The constructor, given the broker that it finds and the full name that it forms: the parameter lives
  at a new address, the name is taken, and the broker knows the parameter.
\<close>

definition born :: "pid \<Rightarrow> bid \<Rightarrow> string \<Rightarrow> ('v, 'j) param \<Rightarrow> ('v, 'j) world \<Rightarrow> ('v, 'j) world" where
  "born i b nm p s =
     map_broker b (register_param nm i) (install_param p (s\<lparr>sc_names := insert nm (sc_names s)\<rparr>))"

lemma new_param_born:
  assumes bh: "(case pb of None \<Rightarrow> find_broker_convenience E (Suc n) og | Some bh \<Rightarrow> retM bh) s = (Ret bh, s)" "m_broker bh = b"
    and full: "param_full_name E (Suc n) nm nt s = (Ret full, s)"
    and names: "systemc_names E" "proper_name full" "full \<notin> sc_names s"
    and r: "brokers s b = Some r" "vacant r full"
  shows "\<exists>bog. new_param E run (Suc n) nm v T TM nt pb og desc s
    = (Ret (next_address s), born (next_address s) b full (fresh_param full desc (create_broker_handle b bog) og T TM v) s)"
proof -
  let ?bog = "promoted E (bh_originator bh)" and ?i = "next_address s"
  let ?p = "fresh_param full desc (create_broker_handle b ?bog) og T TM v"
  let ?s = "s\<lparr>sc_names := insert full (sc_names s)\<rparr>"
  have p: "write_quiet ?p" "param_name ?p = full" "m_broker (m_broker_handle ?p) = b"
    using names(2) by (simp_all add: write_quiet_def fresh_param_def callbacks_of.simps Lifecycle.no_callbacks_def param_name_def
        proper_name_def create_broker_handle_def)
  have init: "init E run (Suc n) b ?i (install_param ?p ?s) = (Ret (), born ?i b full ?p s)"
    unfolding born_def by (rule add_fresh_param [OF _ p _ r(2)]) (simp_all add: install_param_def r(1))
  have "new_param E run (Suc n) nm v T TM nt pb og desc s = (Ret ?i, born ?i b full ?p s)"
    unfolding new_param_def construct_param_def
    by (subst bindM_Ret, rule bh(1), subst bindM_Ret, rule promote_run, subst bindM_Ret, rule full, unfold bh(2),
        subst bindM_Ret, rule choose_name_free [OF names])
      (use init in \<open>simp add: on_exception_def bindM_def\<close>)
  then show ?thesis by blast
qed

section \<open>Destruction\<close>

definition cut_off :: "pid \<Rightarrow> param_handle \<Rightarrow> param_handle" where
  "cut_off i d = (if m_param d = Some i then d\<lparr>m_param := None\<rparr> else d)"

definition invalidated :: "pid \<Rightarrow> ('v, 'j) world \<Rightarrow> ('v, 'j) world" where
  "invalidated i s =
     s\<lparr>params := (params s)(i := map_option (\<lambda>p. p\<lparr>m_param_handles := []\<rparr>) (params s i)),
       handles := \<lambda>h. map_option (cut_off i) (handles s h)\<rparr>"

lemma invalidated_detach:
  assumes "handles s h = Some d" and "m_param d = Some i"
  shows "invalidated i (detach_handle h s) = invalidated i s"
proof -
  have p: "params (detach_handle h s) = (params s)(i := map_option (drop_handle h) (params s i))"
    and h: "handles (detach_handle h s) = (handles s)(h \<mapsto> d\<lparr>m_param := None\<rparr>)"
    using assms by (auto simp: detach_handle_def map_param_def)
  have "(\<lambda>g. map_option (cut_off i) (((handles s)(h \<mapsto> d\<lparr>m_param := None\<rparr>)) g)) = (\<lambda>g. map_option (cut_off i) (handles s g))"
    using assms by (intro ext) (simp add: cut_off_def)
  moreover have "((params s)(i := map_option (drop_handle h) (params s i)))(i := map_option (\<lambda>p. p\<lparr>m_param_handles := []\<rparr>)
      (map_option (drop_handle h) (params s i))) = (params s)(i := map_option (\<lambda>p. p\<lparr>m_param_handles := []\<rparr>) (params s i))"
    by (simp add: option.map_comp comp_def drop_handle_def)
  ultimately show ?thesis
    using assms by (simp add: invalidated_def detach_handle_def map_param_def)
qed

lemma invalidated_none:
  assumes "handles_ok s" and "params s i = Some p" and "m_param_handles p = []"
  shows "invalidated i s = s"
proof -
  have "m_param d \<noteq> Some i" if "handles s h = Some d" for h d
    using handles_okD(4) [OF assms(1) that] assms(2,3) by fastforce
  then have "map_option (cut_off i) (handles s h) = handles s h" for h
    by (cases "handles s h") (auto simp: cut_off_def)
  moreover have "p\<lparr>m_param_handles := []\<rparr> = p" using assms(3) by (cases p) simp
  ultimately show ?thesis using assms(2) by (simp add: invalidated_def fun_upd_idem)
qed

lemma invalidate_all_run:
  assumes "handles_ok s" and "params s i = Some p" and "length (m_param_handles p) < n"
  shows "invalidate_all_param_handles n i s = (Ret (), invalidated i s)"
  using assms
proof (induction n arbitrary: s p)
  case 0
  then show ?case by simp
next
  case (Suc n)
  note ok = Suc.prems(1) and p = Suc.prems(2)
  show ?case
  proof (cases "m_param_handles p")
    case Nil
    with ok p show ?thesis by (simp add: invalidated_none)
  next
    case (Cons h hs)
    obtain d where d: "handles s h = Some d" "m_param d = Some i"
      using handles_okD(3) [OF ok p, of h] Cons by auto
    have "h \<notin> set hs" using handles_okD(2) [OF ok p] Cons by simp
    then have p': "params (detach_handle h s) i = Some (p\<lparr>m_param_handles := hs\<rparr>)"
      using p d Cons by (cases p) (simp add: detach_handle_def drop_handle_def removeAll_id)
    have "length (m_param_handles (p\<lparr>m_param_handles := hs\<rparr>)) < n" using Suc.prems(3) Cons by simp
    with Suc.IH [OF handles_ok_detach [OF ok] p'] p d Cons show ?thesis
      by (simp add: invalidated_detach)
  qed
qed

definition gone :: "pid \<Rightarrow> bid \<Rightarrow> string \<Rightarrow> ('v, 'j) world \<Rightarrow> ('v, 'j) world" where
  "gone i b nm s =
     forget_param i ((invalidated i (map_broker b (\<lambda>r. unuse_preset nm (unregister_param nm r)) s))
       \<lparr>sc_names := sc_names s - {nm}\<rparr>)"

lemma delete_param_gone:
  assumes names: "systemc_names E" "proper_name nm" and ok: "handles_ok s" and p: "params s i = Some p"
    and nm: "m_name p = nm" "m_broker (m_broker_handle p) = b" and r: "brokers s b = Some r"
    and own: "\<not> (b_forwarding r \<and> sendToParent nm r)" and quiet: "m_destroy_callbacks r = []"
    and n: "length (m_param_handles p) \<le> n"
  shows "delete_param E run (Suc n) i s = (Ret (), gone i b nm s)"
proof -
  let ?f = "\<lambda>r. unuse_preset nm (unregister_param nm r)"
  let ?s = "map_broker b ?f s"
  have name: "param_name p = nm" using names(2) nm by (simp add: param_name_def proper_name_def)
  have "forward (Suc n) b nm (consuming_remove_param run (Suc n) i) s = consuming_remove_param run (Suc n) i b s"
    using r own by auto
  then have rem: "remove_param run (Suc n) b i s = (Ret (), ?s)"
    using p name remove_param_quiet [OF p r quiet, of run n] by (simp add: remove_param_def del: forward.simps)
  have ok': "handles_ok ?s" by (rule handles_ok_frame [OF ok]) (use handles_okD(1) [OF ok] in \<open>auto simp: fresh_def map_broker_def\<close>)
  have inv: "invalidate_all_param_handles (Suc n) i ?s = (Ret (), invalidated i ?s)"
    by (rule invalidate_all_run [OF ok', of _ p]) (use p n in simp_all)
  have "params (invalidated i ?s) i = Some (p\<lparr>m_param_handles := []\<rparr>)" using p by (simp add: invalidated_def)
  then have "untyped_destructor E i (invalidated i ?s)
      = (Ret (), forget_param i ((invalidated i ?s)\<lparr>sc_names := sc_names s - {nm}\<rparr>))"
    using names nm
    by (simp add: untyped_destructor_def unregister_base_def cci_unregister_name_def systemc_names_def proper_name_def
        bindM_def invalidated_def)
  with rem inv p nm show ?thesis
    by (simp add: delete_param_def noexceptM_def destroy_def bindM_def gone_def)
qed

section \<open>The two modules of the example\<close>

text \<open>
  Code that runs while SystemC is at the object \<open>ob\<close>: a module that is being built, or one of its
  threads.
\<close>

definition at_object :: "sc_object \<Rightarrow> ('v, 'j) env \<Rightarrow> ('v, 'j) env" where
  "at_object ob E = E\<lparr>sc_current := Some ob\<rparr>"

text \<open>
  \<open>ex21_simple_ip\<close>: the constructor builds the parameter and shows its value, the thread \<open>execute\<close>
  writes it, destroys it and builds it again. What it shows is the result.
\<close>

definition sim_new :: "('v, 'j) env \<Rightarrow> nat \<Rightarrow> tid \<Rightarrow> 'v \<Rightarrow> ('v, 'j, pid) cci" where
  "sim_new E N T v =
     bindM (default_originator E) (\<lambda>og.
       new_param E (runner E N) N ''int_param'' v T CCI_MUTABLE_PARAM CCI_RELATIVE_NAME None og [])"

definition sim_constructor :: "('v, 'j) env \<Rightarrow> nat \<Rightarrow> tid \<Rightarrow> 'v \<Rightarrow> ('v, 'j, pid \<times> 'v) cci" where
  "sim_constructor E N T v =
     bindM (sim_new E N T v) (\<lambda>i.
       thenM (read_param i param_name)
         (bindM (param_conversion E (runner E N) N i) (\<lambda>y. retM (i, y))))"

definition sim_update :: "('v, 'j) env \<Rightarrow> nat \<Rightarrow> pid \<Rightarrow> 'v \<Rightarrow> ('v, 'j, 'v) cci" where
  "sim_update E N i v =
     thenM (assign_value E (runner E N) N i v) (param_conversion E (runner E N) N i)"

definition sim_destroy :: "('v, 'j) env \<Rightarrow> nat \<Rightarrow> pid \<Rightarrow> ('v, 'j, unit) cci" where
  "sim_destroy E N i = delete_param E (runner E N) N i"

text \<open>
  \<open>ex21_config_ip\<close>: its thread looks the parameter up and writes it, looks at the handle after the
  parameter is gone, and looks the parameter up again. \<open>XREPORT_ERROR\<close> makes a report of SystemC of
  severity \<open>SC_ERROR\<close> with the name of the module as its type.
\<close>

definition xreport_error :: "('v, 'j) env \<Rightarrow> string \<Rightarrow> string \<Rightarrow> ('v, 'j, unit) cci" where
  "xreport_error E me message =
     (let r = \<lparr>severity = SC_ERROR, msg_type = me, msg = message\<rparr>
      in thenM (modM (\<lambda>s. s\<lparr>reports := reports s @ [r]\<rparr>))
           (if sc_throws E SC_ERROR me then throwM (Sc_report r) else skipM))"

definition cfg_update :: "('v, 'j) env \<Rightarrow> nat \<Rightarrow> string \<Rightarrow> broker_handle \<Rightarrow> string \<Rightarrow> 'j \<Rightarrow> ('v, 'j, hid \<times> 'j option) cci" where
  "cfg_update E N me bh int_param_name x =
     bindM (handle_broker_get_param_handle N bh int_param_name) (\<lambda>h.
       bindM (read_handle h is_valid) (\<lambda>valid.
         if valid then
           thenM (handle_set_cci_value E (runner E N) N h x None)
             (thenM (handle_query E h param_name)
               (bindM (handle_get_cci_value E (runner E N) N h) (\<lambda>y. retM (h, Some y))))
         else thenM (xreport_error E me (''@20 ns, execute: Param ('' @ int_param_name @ '') is not found!''))
                (retM (h, None))))"

definition cfg_check :: "('v, 'j) env \<Rightarrow> string \<Rightarrow> string \<Rightarrow> hid \<Rightarrow> ('v, 'j, bool) cci" where
  "cfg_check E me int_param_name h =
     bindM (read_handle h is_valid) (\<lambda>valid.
       if \<not> valid then retM valid
       else thenM (xreport_error E me (''@50 ns, execute: Param ('' @ int_param_name @ '') handle is still valid!''))
              (retM valid))"

definition cfg_lookup_again :: "('v, 'j) env \<Rightarrow> nat \<Rightarrow> string \<Rightarrow> broker_handle \<Rightarrow> string \<Rightarrow> hid \<Rightarrow> ('v, 'j, bool \<times> 'j) cci" where
  "cfg_lookup_again E N me bh int_param_name h =
     bindM (handle_broker_get_param_handle N bh int_param_name) (\<lambda>temp.
       thenM (assign_handle h temp) (thenM (delete_handle temp)
         (bindM (read_handle h is_valid) (\<lambda>valid.
           thenM (if valid then skipM
                  else xreport_error E me (''@90 ns, execute: Param ('' @ int_param_name
                    @ '') handle is not valid after resurrect!''))
             (thenM (handle_query E h param_name)
               (bindM (handle_get_cci_value E (runner E N) N h) (\<lambda>y. retM (valid, y))))))))"

text \<open>
  The simulation. SystemC builds \<open>sim_ip\<close>, and then runs the threads in the order of their
  waits: \<open>sim_ip\<close> at 10 ns, \<open>cfg_ip\<close> at 20, \<open>sim_ip\<close> at 30, \<open>cfg_ip\<close> at 50, \<open>sim_ip\<close> at 60, \<open>cfg_ip\<close> at 90.
  The threads are at objects of their own, \<open>sim_execute\<close> and \<open>cfg_execute\<close>. The thread of \<open>cfg_ip\<close> ends
  at 20 ns if it does not find the parameter there.
\<close>

definition unless_ended :: "'x option \<Rightarrow> ('v, 'j, 'a) cci \<Rightarrow> ('v, 'j, 'a option) cci" where
  "unless_ended shown m = (if shown = None then retM None else bindM m (\<lambda>y. retM (Some y)))"

definition ex21_simulation :: "('v, 'j) env \<Rightarrow> sc_object \<Rightarrow> sc_object \<Rightarrow> sc_object \<Rightarrow> string \<Rightarrow> nat \<Rightarrow> tid \<Rightarrow> broker_handle \<Rightarrow> string
    \<Rightarrow> 'v \<Rightarrow> 'v \<Rightarrow> 'j \<Rightarrow> 'v \<Rightarrow> ('v, 'j, 'v \<times> 'v \<times> 'j option \<times> bool option \<times> (bool \<times> 'j) option) cci" where
  "ex21_simulation E sim sim_execute cfg_execute me N T bh int_param_name v0 v1 x2 v3 =
     bindM (sim_constructor (at_object sim E) N T v0) (\<lambda>(i, at_0).
     bindM (sim_update (at_object sim_execute E) N i v1) (\<lambda>at_10.
     bindM (cfg_update (at_object cfg_execute E) N me bh int_param_name x2) (\<lambda>(h, at_20).
     thenM (sim_destroy (at_object sim_execute E) N i)
     (bindM (unless_ended at_20 (cfg_check (at_object cfg_execute E) me int_param_name h)) (\<lambda>at_50.
     bindM (sim_new (at_object sim_execute E) N T v3) (\<lambda>i'.
     bindM (unless_ended at_20 (cfg_lookup_again (at_object cfg_execute E) N me bh int_param_name h)) (\<lambda>at_90.
     retM (at_0, at_10, at_20, at_50, at_90))))))))"

section \<open>Situations\<close>

text \<open>
  What holds between the steps, from a world \<open>s\<close> on in which the name was free: either the parameter
  is there, with no callbacks and unlocked, or it is not. The handles that exist are exactly \<open>H\<close>.
\<close>

definition unlike :: "('v, 'j) world \<Rightarrow> bid \<Rightarrow> 'j broker \<Rightarrow> string set \<Rightarrow> (hid \<Rightarrow> param_handle option) \<Rightarrow> ('v, 'j) world \<Rightarrow> bool" where
  "unlike s b r names H t \<longleftrightarrow> handles_ok t \<and> brokers t b = Some r \<and> sc_names t = names \<and> handles t = H
     \<and> m_brokers t = m_brokers s \<and> reports t = reports s"

text \<open>Such an operation in a world.\<close>

definition present :: "('v, 'j) world \<Rightarrow> bid \<Rightarrow> 'j broker \<Rightarrow> string set \<Rightarrow> string \<Rightarrow> tid \<Rightarrow> pid \<Rightarrow> (hid \<Rightarrow> param_handle option) \<Rightarrow> 'v
    \<Rightarrow> ('v, 'j) world \<Rightarrow> bool" where
  "present s b r names nm T i H v t \<longleftrightarrow> unlike s b r names H t \<and> (\<exists>p. params t i = Some p \<and> steady nm b T v p)"

lemma present_moves:
  assumes t: "present s b r names nm T i H v t" and m: "moves nm b T H i v m x u"
  obtains t' where "m t = (Ret x, t')" and "present s b r names nm T i H u t'"
proof -
  obtain p where p: "params t i = Some p" "steady nm b T v p" and un: "unlike s b r names H t"
    using t by (auto simp: present_def)
  have ok: "handles_ok t" and H: "handles t = H" using un by (simp_all add: unlike_def)
  obtain q where q: "runs (params t) H m x ((params t)(i \<mapsto> q))" "steady nm b T u q"
    using m p unfolding moves_def by blast
  let ?c = "(params t)(i \<mapsto> q)"
  obtain k where k: "m t = (Ret x, put ?c (bump k t))" "dom ?c = dom (params t)"
    using q(1) ok by (rule runs_world) (simp add: H)
  have "handles_ok (put ?c (bump k t))"
  proof (rule handles_ok_frame)
    show "handles_ok (bump k t)" using ok by simp
    then show "fresh (put ?c (bump k t))"
      using k(2) by (auto simp: handles_ok_def fresh_def params_put split: option.splits)
    show "map_option m_param_handles (params (put ?c (bump k t)) l) = map_option m_param_handles (params (bump k t) l)" for l
      using p by (auto simp: params_put option.map_comp comp_def split: option.splits)
  qed simp
  with un k q(2) p have "present s b r names nm T i H u (put ?c (bump k t))"
    by (simp add: present_def unlike_def params_put)
  with k(1) show thesis by (rule that)
qed

section \<open>The steps\<close>

text \<open>
  Code at \<open>ob\<close> belongs to the module \<open>md\<close>: it is the module itself or a process of it, with at most one
  object above it in the hierarchy. There is no broker but the global one.
\<close>

definition inside :: "('v, 'j) env \<Rightarrow> sc_object \<Rightarrow> sc_object \<Rightarrow> bool" where
  "inside E md ob \<longleftrightarrow> \<not> is_process E md \<and> (ob = md \<or> is_process E ob \<and> sc_parent E ob = Some md)
     \<and> (case sc_parent E ob of None \<Rightarrow> True | Some p \<Rightarrow> sc_parent E p = None)"

definition only_global :: "('v, 'j) world \<Rightarrow> bid \<Rightarrow> bool" where
  "only_global s b \<longleftrightarrow> m_brokers s = [None \<mapsto> b]"

lemma at_object_simps [simp]:
  "sc_current (at_object ob E) = Some ob" "sc_name (at_object ob E) = sc_name E" "sc_parent (at_object ob E) = sc_parent E"
  "is_process (at_object ob E) = is_process E" "pack (at_object ob E) = pack E" "unpack (at_object ob E) = unpack E"
  "systemc_names (at_object ob E) = systemc_names E"
  by (simp_all add: at_object_def systemc_names_def)

lemma inside_full_name:
  assumes "inside E md ob"
  shows "param_full_name (at_object ob E) (Suc (Suc n)) nm CCI_RELATIVE_NAME s = (Ret (sc_name E md @ ''.'' @ nm), s)"
  using assms by (auto simp: param_full_name_def inside_def bindM_def)

lemma inside_find_broker:
  assumes "inside E md ob" and "only_global s b"
  shows "find_broker_convenience (at_object ob E) (Suc (Suc (Suc n))) og s
      = (Ret (create_broker_handle b \<lparr>m_originator_obj = Some ob, m_originator_str = None\<rparr>), s)"
proof -
  have "find_broker (at_object ob E) (Suc (Suc (Suc n))) (Some ob) s = (Ret b, s)"
    using assms by (auto simp: inside_def only_global_def split: option.splits)
  then show ?thesis
    by (simp add: find_broker_convenience_def cci_get_broker_def get_broker_def create_broker_handle_def bindM_def
        default_originator_inside del: find_broker.simps)
qed

lemma steady_fresh:
  assumes "m_broker bh = b"
  shows "steady nm b T v (fresh_param nm desc bh og T CCI_MUTABLE_PARAM v :: ('v, 'j) param)"
proof -
  have "no_callback k (fresh_param nm desc bh og T CCI_MUTABLE_PARAM v :: ('v, 'j) param)" for k
    by (cases k) (simp_all add: no_callback_def fresh_param_def callbacks_of.simps Lifecycle.no_callbacks_def)
  with assms show ?thesis
    by (simp add: steady_def unwatched_def refusal_def is_locked_def fresh_param_def)
qed

lemma step_new:
  fixes E :: "('v, 'j) env"
  assumes t: "unlike s b r names H t" and r: "vacant r nm" and nm: "nm = sc_name E md @ ''.int_param''"
    and names: "systemc_names E" "proper_name nm" "nm \<notin> names" and ob: "inside E md ob" and g: "only_global s b"
  obtains i t' where "sim_new (at_object ob E) (Suc (Suc (Suc n))) T v t = (Ret i, t')"
    and "present s b (register_param nm i r) (insert nm names) nm T i H v t'" and "params t i = None"
proof -
  let ?E = "at_object ob E" and ?N = "Suc (Suc (Suc n))" and ?i = "next_address t"
  let ?og = "\<lparr>m_originator_obj = Some ob, m_originator_str = None\<rparr>"
  have b: "brokers t b = Some r" and ok: "handles_ok t" and nt: "nm \<notin> sc_names t" and g': "only_global t b"
    using t names g by (auto simp: unlike_def only_global_def)
  have "\<exists>bog. new_param ?E (runner ?E ?N) ?N ''int_param'' v T CCI_MUTABLE_PARAM CCI_RELATIVE_NAME None ?og [] t
      = (Ret ?i, born ?i b nm (fresh_param nm [] (create_broker_handle b bog) ?og T CCI_MUTABLE_PARAM v) t)"
  proof (rule new_param_born [OF _ _ _ _ names(2) nt b r])
    show "(case None of None \<Rightarrow> find_broker_convenience ?E ?N ?og | Some bh \<Rightarrow> retM bh) t = (Ret (create_broker_handle b ?og), t)"
      using inside_find_broker [OF ob g'] by simp
    show "param_full_name ?E ?N ''int_param'' CCI_RELATIVE_NAME t = (Ret nm, t)"
      using inside_full_name [OF ob] nm by simp
  qed (simp_all add: names create_broker_handle_def)
  then obtain bog where new: "new_param ?E (runner ?E ?N) ?N ''int_param'' v T CCI_MUTABLE_PARAM CCI_RELATIVE_NAME None ?og [] t
      = (Ret ?i, born ?i b nm (fresh_param nm [] (create_broker_handle b bog) ?og T CCI_MUTABLE_PARAM v) t)" by blast
  let ?p = "fresh_param nm [] (create_broker_handle b bog) ?og T CCI_MUTABLE_PARAM v :: ('v, 'j) param"
  let ?t = "born ?i b nm ?p t"
  have "sim_new ?E ?N T v t = (Ret ?i, ?t)"
    unfolding sim_new_def by (subst bindM_Ret, rule default_originator_inside, simp) (rule new)
  moreover have "handles_ok ?t"
    using keepsD [OF handle_lists.keeps_new_param(1) [OF handle_lists.keeps_runner] new] ok by (simp add: keeps_handles_ok_def)
  then have "present s b (register_param nm ?i r) (insert nm names) nm T ?i H v ?t"
    using t b steady_fresh [of "create_broker_handle b bog" b nm T v "[]" ?og]
    by (auto simp: present_def unlike_def born_def install_param_def create_broker_handle_def)
  moreover have "params t ?i = None" using handles_okD(1) [OF ok] by (simp add: fresh_def)
  ultimately show thesis by (rule that)
qed

lemma step_lookup:
  assumes t: "present s b (register_param nm i r) names nm T i H v t" and r: "vacant r nm" and bh: "m_broker bh = b"
  obtains h t' where "handle_broker_get_param_handle (Suc n) bh nm t = (Ret h, t')" and "H h = None"
    and "present s b (register_param nm i r) names nm T i (H(h \<mapsto> \<lparr>m_param = Some i, h_originator = bh_originator bh\<rparr>)) v t'"
proof -
  let ?h = "next_address t" and ?t = "new_handle (Some i) (bh_originator bh) t"
  obtain p where p: "params t i = Some p" "steady nm b T v p" and un: "unlike s b (register_param nm i r) names H t"
    using t by (auto simp: present_def)
  have ok: "handles_ok t" and b: "brokers t b = Some (register_param nm i r)" and H: "handles t = H"
    using un by (simp_all add: unlike_def)
  have reg: "get_orig_param nm (register_param nm i r) = Some i" "\<not> (b_forwarding (register_param nm i r) \<and> sendToParent nm (register_param nm i r))"
    using r by (auto simp: vacant_def get_orig_param_def register_param_def sendToParent_def is_global_broker_def)
  have get: "handle_broker_get_param_handle (Suc n) bh nm t = (Ret ?h, ?t)"
    using b reg p bh
    by (auto simp: handle_broker_get_param_handle_def consuming_get_param_handle_def handle_to_def alloc_handle_def)
  moreover have "H ?h = None" using handles_okD(1) [OF ok] H by (auto simp: fresh_def)
  moreover have "handles_ok ?t"
    using keepsD [OF handle_lists.keeps_get_param_handle get [unfolded handle_broker_get_param_handle_def]] ok
    by (simp add: keeps_handles_ok_def)
  then have "present s b (register_param nm i r) names nm T i (H(?h \<mapsto> \<lparr>m_param = Some i, h_originator = bh_originator bh\<rparr>)) v ?t"
    using un p H steady_with_handles [of nm b T v "push_handle ?h p" p]
    by (auto simp: present_def unlike_def new_handle_def attach_handle_def push_handle_def with_handles_of_def)
  ultimately show thesis by (rule that)
qed

lemma vacant_undo:
  assumes "vacant r nm"
  shows "unuse_preset nm (unregister_param nm (register_param nm i r)) = r"
  using assms unregister_undoes_register [of nm r i]
  by (auto simp: vacant_def unuse_preset_def consuming_has_preset_value_def split: if_splits option.splits)

lemma step_delete:
  fixes E :: "('v, 'j) env"
  assumes t: "present s b (register_param nm i r) (insert nm names) nm T i H v t" and r: "vacant r nm"
    and names: "systemc_names E" "proper_name nm" "nm \<notin> names"
    and one: "\<And>h d. H h = Some d \<Longrightarrow> m_param d = Some i \<Longrightarrow> h = g"
  obtains t' where "sim_destroy (at_object ob E) (Suc (Suc n)) i t = (Ret (), t')"
    and "unlike s b r names (\<lambda>h. map_option (cut_off i) (H h)) t'"
proof -
  let ?E = "at_object ob E" and ?t = "gone i b nm t"
  obtain p where p: "params t i = Some p" "steady nm b T v p" and un: "unlike s b (register_param nm i r) (insert nm names) H t"
    using t by (auto simp: present_def)
  have ok: "handles_ok t" and b: "brokers t b = Some (register_param nm i r)" and H: "handles t = H"
    using un by (simp_all add: unlike_def)
  have "set (m_param_handles p) \<subseteq> {g}" using handles_okD(3) [OF ok p(1)] one H by blast
  then have "card (set (m_param_handles p)) \<le> card {g}" by (rule card_mono [rotated]) simp
  then have len: "length (m_param_handles p) \<le> Suc n"
    using handles_okD(2) [OF ok p(1)] by (simp add: distinct_card)
  have own: "\<not> (b_forwarding (register_param nm i r) \<and> sendToParent nm (register_param nm i r))"
    "m_destroy_callbacks (register_param nm i r) = []"
    using r by (auto simp: vacant_def register_param_def sendToParent_def is_global_broker_def)
  have "delete_param ?E (runner ?E (Suc (Suc n))) (Suc (Suc n)) i t = (Ret (), ?t)"
    by (rule delete_param_gone [OF _ names(2) ok p(1) _ _ b own len]) (use names p(2) in \<open>simp_all add: steady_def\<close>)
  moreover from this have "handles_ok ?t"
    using keepsD [OF handle_lists.keeps_delete_param [OF handle_lists.keeps_runner]] ok by (fastforce simp: keeps_handles_ok_def)
  then have "unlike s b r names (\<lambda>h. map_option (cut_off i) (H h)) ?t"
    using un b r names(3) vacant_undo [OF r, of i]
    by (auto simp: unlike_def gone_def forget_param_def invalidated_def)
  ultimately show thesis by (intro that) (simp_all add: sim_destroy_def)
qed

lemma step_reassign:
  assumes t: "present s b r names nm T i H v t" and h: "H h = Some \<lparr>m_param = None, h_originator = og\<rparr>"
    and g: "H g = Some \<lparr>m_param = Some i, h_originator = og'\<rparr>"
  obtains t' where "thenM (assign_handle h g) (delete_handle g) t = (Ret (), t')"
    and "present s b r names nm T i (H(g := None, h \<mapsto> \<lparr>m_param = Some i, h_originator = og\<rparr>)) v t'"
proof -
  let ?t = "destroy_handle g (attach_handle h (Some i) og (detach_handle h t))"
  obtain p where p: "params t i = Some p" "steady nm b T v p" and un: "unlike s b r names H t"
    using t by (auto simp: present_def)
  have ok: "handles_ok t" and H: "handles t = H" using un by (simp_all add: unlike_def)
  have hg: "h \<noteq> g" using h g by auto
  have run: "thenM (assign_handle h g) (delete_handle g) t = (Ret (), ?t)"
    using h g H p hg by (simp add: assign_handle_def delete_handle_def bindM_def attach_handle_def detach_handle_def)
  have "keeps keeps_handles_ok (thenM (assign_handle h g) (delete_handle g))"
    by (intro handle_lists.keeps_bindM handle_lists.keeps_assign_handle handle_lists.keeps_handle_ends)
  then have "handles_ok ?t" using keepsD run ok by (fastforce simp: keeps_handles_ok_def)
  moreover have "params ?t i = Some (drop_handle g (push_handle h p))"
    using p h g H hg by (simp add: destroy_handle_def forget_handle_def attach_handle_def detach_handle_def)
  moreover have "steady nm b T v (drop_handle g (push_handle h p))"
    using p(2) steady_with_handles [of nm b T v "drop_handle g (push_handle h p)" p]
    by (simp add: drop_handle_def push_handle_def with_handles_of_def)
  moreover have "handles ?t = H(g := None, h \<mapsto> \<lparr>m_param = Some i, h_originator = og\<rparr>)"
    using h g H hg by (auto simp: destroy_handle_def forget_handle_def attach_handle_def detach_handle_def fun_eq_iff)
  ultimately have "present s b r names nm T i (H(g := None, h \<mapsto> \<lparr>m_param = Some i, h_originator = og\<rparr>)) v ?t"
    using un h g H by (auto simp: present_def unlike_def destroy_handle_def forget_handle_def attach_handle_def detach_handle_def)
  with run show thesis by (rule that)
qed

section \<open>The example as a whole\<close>

text \<open>Up to the end of the first parameter: what is shown is right, and the handle is invalid.\<close>

lemma first_life:
  fixes E :: "('v, 'j) env"
  assumes ok: "handles_ok s" and b: "brokers s b = Some r" "vacant r nm" and nm: "nm = sc_name E sim @ ''.int_param''"
    and names: "systemc_names E" "proper_name nm" "nm \<notin> sc_names s" and g: "only_global s b"
    and obs: "inside E sim sim" "inside E sim sim_execute" and bh: "m_broker bh = b"
    and conv: "unpack E T x2 = (True, v2)" "pack E T v2 = (True, y2)" and N: "N = Suc (Suc (Suc n))"
  obtains i h H s2 s3 s5 s6 where "sim_constructor (at_object sim E) N T v0 s = (Ret (i, v0), s2)"
    and "sim_update (at_object sim_execute E) N i v1 s2 = (Ret v1, s3)"
    and "cfg_update (at_object cfg_execute E) N me bh nm x2 s3 = (Ret (h, Some y2), s5)"
    and "sim_destroy (at_object sim_execute E) N i s5 = (Ret (), s6)"
    and "unlike s b r (sc_names s) H s6" and "H h = Some \<lparr>m_param = None, h_originator = bh_originator bh\<rparr>"
proof -
  let ?N = "Suc (Suc (Suc n))" and ?H = "handles s"
  let ?R = "\<lambda>i. register_param nm i r" and ?names = "insert nm (sc_names s)"
  let ?og = "bh_originator bh"
  have s: "unlike s b r (sc_names s) ?H s" using ok b by (simp add: unlike_def)
  obtain i s1 where new: "sim_new (at_object sim E) ?N T v0 s = (Ret i, s1)"
    and s1: "present s b (?R i) ?names nm T i ?H v0 s1" and i: "params s i = None"
    by (rule step_new [OF s b(2) nm names obs(1) g])
  let ?E0 = "at_object sim E" and ?E1 = "at_object sim_execute E" and ?E2 = "at_object cfg_execute E"
  have "moves nm b T ?H i v0 (thenM (read_param i param_name)
      (bindM (param_conversion ?E0 (runner ?E0 ?N) ?N i) (\<lambda>y. retM (i, y)))) (i, v0) v0"
    unfolding param_conversion_def by (intro moves_bindM [OF moves_name] moves_bindM [OF moves_get_value] moves_retM)
  with s1 obtain s2 where shown: "thenM (read_param i param_name)
      (bindM (param_conversion ?E0 (runner ?E0 ?N) ?N i) (\<lambda>y. retM (i, y))) s1 = (Ret (i, v0), s2)"
    and s2: "present s b (?R i) ?names nm T i ?H v0 s2" by (rule present_moves)
  have at_0: "sim_constructor ?E0 ?N T v0 s = (Ret (i, v0), s2)"
    unfolding sim_constructor_def by (subst bindM_Ret, rule new) (rule shown)
  have "moves nm b T ?H i v0 (sim_update ?E1 ?N i v1) v1 v1"
    unfolding sim_update_def assign_value_def param_conversion_def
    by (intro moves_bindM [OF moves_set_value] moves_get_value)
  with s2 obtain s3 where at_10: "sim_update ?E1 ?N i v1 s2 = (Ret v1, s3)"
    and s3: "present s b (?R i) ?names nm T i ?H v1 s3" by (rule present_moves)
  obtain h s4 where find: "handle_broker_get_param_handle ?N bh nm s3 = (Ret h, s4)" and h: "?H h = None"
    and s4: "present s b (?R i) ?names nm T i (?H(h \<mapsto> \<lparr>m_param = Some i, h_originator = ?og\<rparr>)) v1 s4"
    by (rule step_lookup [OF s3 b(2) bh])
  let ?H1 = "?H(h \<mapsto> \<lparr>m_param = Some i, h_originator = ?og\<rparr>)"
  have h1: "?H1 h = Some \<lparr>m_param = Some i, h_originator = ?og\<rparr>" by simp
  have "moves nm b T ?H1 i v1 (bindM (read_handle h is_valid) (\<lambda>valid. if valid then
      thenM (handle_set_cci_value ?E2 (runner ?E2 ?N) ?N h x2 None) (thenM (handle_query ?E2 h param_name)
        (bindM (handle_get_cci_value ?E2 (runner ?E2 ?N) ?N h) (\<lambda>y. retM (h, Some y)))) else e)) (h, Some y2) v2" for e
    by (rule moves_bindM, rule moves_is_valid [where H = ?H1, OF h1], simp, simp only: if_True,
        intro moves_bindM [OF moves_handle_set [where H = ?H1 and u = v2, OF h1]] moves_bindM [OF moves_handle_name [where H = ?H1, OF h1]]
          moves_bindM [OF moves_handle_get [where H = ?H1 and x = y2, OF h1]] moves_retM) (simp_all add: conv)
  with s4 obtain s5 where cfg: "bindM (read_handle h is_valid) (\<lambda>valid. if valid then
      thenM (handle_set_cci_value ?E2 (runner ?E2 ?N) ?N h x2 None) (thenM (handle_query ?E2 h param_name)
        (bindM (handle_get_cci_value ?E2 (runner ?E2 ?N) ?N h) (\<lambda>y. retM (h, Some y))))
      else thenM (xreport_error ?E2 me (''@20 ns, execute: Param ('' @ nm @ '') is not found!'')) (retM (h, None))) s4
      = (Ret (h, Some y2), s5)"
    and s5: "present s b (?R i) ?names nm T i ?H1 v2 s5" by (rule present_moves)
  have at_20: "cfg_update ?E2 ?N me bh nm x2 s3 = (Ret (h, Some y2), s5)"
    unfolding cfg_update_def by (subst bindM_Ret, rule find) (rule cfg)
  have "g = h" if "?H1 g = Some d" "m_param d = Some i" for g d
    using that handles_okD(4) [OF ok, of g d i] i by (auto split: if_splits)
  then obtain s6 where at_30: "sim_destroy ?E1 ?N i s5 = (Ret (), s6)"
    and s6: "unlike s b r (sc_names s) (\<lambda>k. map_option (cut_off i) (?H1 k)) s6"
    using step_delete [OF s5 b(2) names] by blast
  have "map_option (cut_off i) (?H1 h) = Some \<lparr>m_param = None, h_originator = ?og\<rparr>" by (simp add: cut_off_def)
  with at_0 at_10 at_20 at_30 s6 show thesis using that unfolding N by blast
qed

text \<open>
  C8. The life of a parameter. The modules of example 21 see what they should: the constructor of the
  first one builds the parameter with its default value and its thread reads back what it wrote; the
  second module, which knows the name only, finds the parameter through the broker, writes it and
  reads what it wrote; once the parameter is destroyed its handle is invalid; when a parameter of that
  name is built again the broker gives a valid handle of the new one, which has its own default value
  and nothing of the old one. Nothing is reported. This follows the constructor, the search for a
  broker, the choice of the name, the registry, handles, reads, writes and the destructor together.
\<close>

theorem parameter_life:
  fixes E :: "('v, 'j) env"
  assumes ok: "handles_ok s" and b: "brokers s b = Some r" "vacant r nm" and nm: "nm = sc_name E sim @ ''.int_param''"
    and names: "systemc_names E" "proper_name nm" "nm \<notin> sc_names s" and g: "only_global s b"
    and obs: "inside E sim sim" "inside E sim sim_execute" and bh: "m_broker bh = b"
    and conv: "unpack E T x2 = (True, v2)" "pack E T v2 = (True, y2)" "pack E T v3 = (True, y3)" and N: "3 \<le> N"
  shows "\<exists>t i. ex21_simulation E sim sim_execute cfg_execute me N T bh nm v0 v1 x2 v3 s
      = (Ret (v0, v1, Some y2, Some False, Some (True, y3)), t)
    \<and> map_option (get_orig_param nm) (brokers t b) = Some (Some i) \<and> map_option m_value (params t i) = Some v3
    \<and> reports t = reports s"
proof -
  obtain n where n: "N = Suc (Suc (Suc n))" using N by (metis Suc_le_D Suc_le_mono numeral_3_eq_3)
  let ?N = "Suc (Suc (Suc n))" and ?R = "\<lambda>i. register_param nm i r" and ?names = "insert nm (sc_names s)"
  let ?og = "bh_originator bh" and ?E1 = "at_object sim_execute E" and ?E2 = "at_object cfg_execute E"
  obtain i h H2 s2 s3 s5 s6 where at_0: "sim_constructor (at_object sim E) ?N T v0 s = (Ret (i, v0), s2)"
    and at_10: "sim_update ?E1 ?N i v1 s2 = (Ret v1, s3)" and at_20: "cfg_update ?E2 ?N me bh nm x2 s3 = (Ret (h, Some y2), s5)"
    and at_30: "sim_destroy ?E1 ?N i s5 = (Ret (), s6)"
    and s6: "unlike s b r (sc_names s) H2 s6" and h2: "H2 h = Some \<lparr>m_param = None, h_originator = ?og\<rparr>"
    by (rule first_life [OF ok b nm names g obs bh conv(1,2) refl])
  have at_50: "cfg_check ?E2 me nm h s6 = (Ret False, s6)"
    using s6 h2 by (simp add: cfg_check_def read_handle_def is_valid_def unlike_def bindM_def)
  obtain i' s7 where at_60: "sim_new ?E1 ?N T v3 s6 = (Ret i', s7)"
    and s7: "present s b (?R i') ?names nm T i' H2 v3 s7"
    by (rule step_new [OF s6 b(2) nm names obs(2) g])
  obtain k s8 where find': "handle_broker_get_param_handle ?N bh nm s7 = (Ret k, s8)" and k: "H2 k = None"
    and s8: "present s b (?R i') ?names nm T i' (H2(k \<mapsto> \<lparr>m_param = Some i', h_originator = ?og\<rparr>)) v3 s8"
    by (rule step_lookup [OF s7 b(2) bh])
  let ?H3 = "H2(k \<mapsto> \<lparr>m_param = Some i', h_originator = ?og\<rparr>)"
  have h3: "?H3 h = Some \<lparr>m_param = None, h_originator = ?og\<rparr>" using h2 k by auto
  let ?H4 = "?H3(k := None, h \<mapsto> \<lparr>m_param = Some i', h_originator = ?og\<rparr>)"
  obtain s9 where assign: "thenM (assign_handle h k) (delete_handle k) s8 = (Ret (), s9)"
    and s9: "present s b (?R i') ?names nm T i' ?H4 v3 s9"
    by (rule step_reassign [where g = k, OF s8 h3]) (simp, rule that, assumption+)
  have h4: "?H4 h = Some \<lparr>m_param = Some i', h_originator = ?og\<rparr>" by simp
  have "moves nm b T ?H4 i' v3 (bindM (read_handle h is_valid) (\<lambda>valid. thenM (if valid then skipM else e)
      (thenM (handle_query ?E2 h param_name)
        (bindM (handle_get_cci_value ?E2 (runner ?E2 ?N) ?N h) (\<lambda>y. retM (valid, y)))))) (True, y3) v3" for e
    by (rule moves_bindM, rule moves_is_valid [where H = ?H4, OF h4], simp, simp only: if_True bindM_retM,
        intro moves_bindM [OF moves_handle_name [where H = ?H4, OF h4]]
          moves_bindM [OF moves_handle_get [where H = ?H4 and x = y3, OF h4]] moves_retM) (simp_all add: conv)
  with s9 obtain t where last: "bindM (read_handle h is_valid) (\<lambda>valid. thenM (if valid then skipM
        else xreport_error ?E2 me (''@90 ns, execute: Param ('' @ nm @ '') handle is not valid after resurrect!''))
      (thenM (handle_query ?E2 h param_name)
        (bindM (handle_get_cci_value ?E2 (runner ?E2 ?N) ?N h) (\<lambda>y. retM (valid, y))))) s9 = (Ret (True, y3), t)"
    and t: "present s b (?R i') ?names nm T i' ?H4 v3 t" by (rule present_moves)
  have at_90: "cfg_lookup_again ?E2 ?N me bh nm h s7 = (Ret (True, y3), t)"
    unfolding cfg_lookup_again_def
    by (subst bindM_Ret, rule find', subst bindM_assoc [symmetric], subst bindM_Ret, rule assign) (rule last)
  have "ex21_simulation E sim sim_execute cfg_execute me N T bh nm v0 v1 x2 v3 s = (Ret (v0, v1, Some y2, Some False, Some (True, y3)), t)"
    unfolding ex21_simulation_def n
    by (simp add: bindM_def unless_ended_def at_0 at_10 at_20 at_30 at_50 at_60 at_90)
  moreover have "get_orig_param nm (?R i') = Some i'"
    using b(2) by (simp add: vacant_def get_orig_param_def register_param_def)
  ultimately show ?thesis using t by (auto simp: present_def unlike_def steady_def)
qed

text \<open>
  Module 1 is called \<open>sim_ip\<close>, its thread is object 2 and the thread of \<open>cfg_ip\<close> is object 3. There is
  no parameter at the start, and the global broker is empty. The values are those of the example.
\<close>

definition ex_modules :: "(int, int) env" where
  "ex_modules = (ex_env True)\<lparr>sc_name := (\<lambda>_. ''sim_ip''), is_process := (\<lambda>ob. ob \<noteq> 1),
     sc_parent := (\<lambda>ob. if ob = 2 then Some 1 else None)\<rparr>"

definition ex_start :: "(int, int) world" where
  "ex_start = \<lparr>reports = [], params = Map.empty, handles = Map.empty, brokers = [0 \<mapsto> empty_broker ''b''],
     m_brokers = [None \<mapsto> 0], sc_names = {''b''}, next_address = 1\<rparr>"

lemma parameter_life_witness:
  "\<exists>t i. ex21_simulation ex_modules 1 2 3 ''cfg_ip'' 3 0 ex_broker_handle ''sim_ip.int_param'' 10 20 2 (- 10) ex_start
     = (Ret (10, 20, Some 2, Some False, Some (True, - 10)), t)
     \<and> map_option (get_orig_param ''sim_ip.int_param'') (brokers t 0) = Some (Some i) \<and> map_option m_value (params t i) = Some (- 10)
     \<and> reports t = reports ex_start"
proof (rule parameter_life [where r = "empty_broker ''b''"])
  show "handles_ok ex_start" by (simp add: handles_ok_def fresh_def ex_start_def)
  show "brokers ex_start 0 = Some (empty_broker ''b'')" by (simp add: ex_start_def)
  show "vacant (empty_broker ''b'') ''sim_ip.int_param''"
    by (simp add: vacant_def empty_broker_def get_orig_param_def consuming_has_preset_value_def)
  show "''sim_ip.int_param'' = sc_name ex_modules 1 @ ''.int_param''" by (simp add: ex_modules_def)
  show "systemc_names ex_modules" using ex_env_names [of True] by (simp add: ex_modules_def systemc_names_def)
  show "proper_name ''sim_ip.int_param''" by (simp add: proper_name_def c_str_def)
  show "inside ex_modules 1 1" and "inside ex_modules 1 2" by (simp_all add: inside_def ex_modules_def)
qed (simp_all add: ex_start_def only_global_def ex_broker_handle_def ex_modules_def ex_env_def)

end
