(* ===== verification/Router.thy ===== *)
theory Router
  imports Prelude "HOL-Library.Word"
begin

text \<open>
  The bus of src/examples/cci/ex09_Parent_Control_of_Preset_Values: initiators send transactions to a
  router, whose table of address ranges chooses the target. Here the values of the parameters are
  arguments; \<open>Router_Table\<close> shows where they come from. \<open>None\<close> is undefined behaviour of C++: a signed
  overflow, a division by zero, an access outside of an array.
\<close>

section \<open>Machine integers\<close>

type_synonym u8 = "8 word"
type_synonym u32 = "32 word"
type_synonym u64 = "64 word"

text \<open>The result of an operation of type \<open>int\<close>.\<close>

definition c_int :: "int \<Rightarrow> int option" where
  "c_int x = (if - (2 ^ 31) \<le> x \<and> x < 2 ^ 31 then Some x else None)"

section \<open>The default table\<close>

text \<open>
  \<open>addrSize = (unsigned int) (addr_limit.get_value() / r_targets)\<close>: an unsigned division, whose result
  becomes an \<open>int\<close>. A row of the table is the index of a target with its first and its last address.
\<close>

definition addr_size :: "u32 \<Rightarrow> int \<Rightarrow> int option" where
  "addr_size addr_limit r_targets =
     (let d = word_of_int r_targets :: u32 in if d = 0 then None else Some (sint (addr_limit div d)))"

definition default_row :: "int \<Rightarrow> int \<Rightarrow> (u32 \<times> u32 \<times> u32) option" where
  "default_row addrSize i =
     (case (c_int (i * addrSize), c_int ((i + 1) * addrSize)) of
        (Some sa, Some ea) \<Rightarrow> (case c_int (ea - 1) of
            Some ea \<Rightarrow> Some (word_of_int i, word_of_int sa, word_of_int ea)
          | None \<Rightarrow> None)
      | _ \<Rightarrow> None)"

definition default_table :: "u32 \<Rightarrow> int \<Rightarrow> (u32 \<times> u32 \<times> u32) list option" where
  "default_table addr_limit r_targets =
     (case addr_size addr_limit r_targets of
        None \<Rightarrow> None
      | Some addrSize \<Rightarrow> those (map (\<lambda>i. default_row addrSize (int i)) [0 ..< nat r_targets]))"

section \<open>Transactions\<close>

datatype tlm_command = TLM_READ_COMMAND | TLM_WRITE_COMMAND | TLM_IGNORE_COMMAND

datatype tlm_response =
    TLM_OK_RESPONSE
  | TLM_INCOMPLETE_RESPONSE
  | TLM_ADDRESS_ERROR_RESPONSE
  | TLM_BURST_ERROR_RESPONSE
  | TLM_BYTE_ENABLE_ERROR_RESPONSE

text \<open>What is used of \<open>tlm_generic_payload\<close>; the data are the bytes of the buffer behind the pointer.\<close>

record payload =
  pl_command :: tlm_command
  pl_address :: u64
  pl_data :: "u8 list"
  pl_data_length :: u32
  pl_byte_enable :: bool
  pl_streaming_width :: u32
  pl_response :: tlm_response

section \<open>The target\<close>

record target =
  s_base_addr :: int
  s_size :: u32
  mem :: "u8 list"

text \<open>
  The constructor: an array of \<open>s_size\<close> elements of type \<open>int\<close>, whose four bytes \<open>int_bytes\<close> gives.
\<close>

definition new_target :: "(u32 \<Rightarrow> u8 list) \<Rightarrow> int \<Rightarrow> u32 \<Rightarrow> target" where
  "new_target int_bytes base sz =
     \<lparr>s_base_addr = base, s_size = sz,
      mem = concat (map (\<lambda>i. int_bytes (or 0xAABBCCDD (of_nat i))) [0 ..< unat sz])\<rparr>"

text \<open>\<open>memcpy\<close> of \<open>len\<close> bytes from \<open>src\<close> at \<open>from\<close> into \<open>dst\<close> at \<open>to\<close>.\<close>

definition copy_bytes :: "u8 list \<Rightarrow> nat \<Rightarrow> u8 list \<Rightarrow> nat \<Rightarrow> nat \<Rightarrow> u8 list option" where
  "copy_bytes dst to src from len =
     (if to + len \<le> length dst \<and> from + len \<le> length src
      then Some (take to dst @ take len (drop from src) @ drop (to + len) dst) else None)"

text \<open>
  \<open>ex09_target::b_transport\<close>. \<open>adr\<close> counts bytes in the check and elements of type \<open>int\<close> in \<open>&mem[adr]\<close>.
  The last component is the delay in nanoseconds.
\<close>

definition target_b_transport :: "target \<Rightarrow> payload \<Rightarrow> nat \<Rightarrow> (target \<times> payload \<times> nat) option" where
  "target_b_transport t txn delay =
     (let adr = pl_address txn - word_of_int (s_base_addr t); len = unat (pl_data_length txn);
          ok = txn\<lparr>pl_response := TLM_OK_RESPONSE\<rparr>
      in if adr > ucast (s_size t) then Some (t, txn\<lparr>pl_response := TLM_ADDRESS_ERROR_RESPONSE\<rparr>, delay)
         else if pl_byte_enable txn then Some (t, txn\<lparr>pl_response := TLM_BYTE_ENABLE_ERROR_RESPONSE\<rparr>, delay)
         else if pl_streaming_width txn < pl_data_length txn
         then Some (t, txn\<lparr>pl_response := TLM_BURST_ERROR_RESPONSE\<rparr>, delay)
         else case pl_command txn of
             TLM_READ_COMMAND \<Rightarrow>
               map_option (\<lambda>d. (t, ok\<lparr>pl_data := d\<rparr>, delay + 5)) (copy_bytes (pl_data txn) 0 (mem t) (4 * unat adr) len)
           | TLM_WRITE_COMMAND \<Rightarrow>
               map_option (\<lambda>m. (t\<lparr>mem := m\<rparr>, ok, delay + 3)) (copy_bytes (mem t) (4 * unat adr) (pl_data txn) 0 len)
           | TLM_IGNORE_COMMAND \<Rightarrow> Some (t, ok, delay))"

section \<open>The router\<close>

text \<open>The loop over the table, up to its \<open>break\<close>.\<close>

fun find_row :: "(u32 \<times> u32 \<times> u32) list \<Rightarrow> u64 \<Rightarrow> u32 option" where
  "find_row [] addr = None"
| "find_row ((index, sa, ea) # rows) addr =
     (if addr \<ge> ucast sa \<and> addr \<le> ucast ea then Some index else find_row rows addr)"

text \<open>
  \<open>ex09_router::b_transport\<close>. It waits for the delay, which is zero from then on; \<open>now\<close> is the time of the
  simulation. Socket \<open>k\<close> is bound to target \<open>k\<close>; there is no socket at an index without a target.
\<close>

definition router_b_transport :: "u32 \<Rightarrow> (u32 \<times> u32 \<times> u32) list \<Rightarrow> target list \<Rightarrow> payload \<Rightarrow> nat \<Rightarrow> nat
    \<Rightarrow> (target list \<times> payload \<times> nat \<times> nat) option" where
  "router_b_transport addr_limit table targets txn delay now =
     (let now = now + delay
      in if pl_address txn \<ge> ucast addr_limit
         then Some (targets, txn\<lparr>pl_response := TLM_ADDRESS_ERROR_RESPONSE\<rparr>, 0, now)
         else case find_row table (pl_address txn) of
             None \<Rightarrow> Some (targets, txn, 0, now)
           | Some index \<Rightarrow>
               (if unat index < length targets
                then case target_b_transport (targets ! unat index) txn 0 of
                    None \<Rightarrow> None
                  | Some (t, txn, delay) \<Rightarrow> Some (targets[unat index := t], txn, delay, now)
                else None))"

section \<open>The initiator\<close>

definition cmds :: "tlm_command list" where
  "cmds = [TLM_WRITE_COMMAND, TLM_READ_COMMAND, TLM_WRITE_COMMAND, TLM_READ_COMMAND, TLM_READ_COMMAND,
     TLM_READ_COMMAND, TLM_WRITE_COMMAND, TLM_WRITE_COMMAND]"

text \<open>
  One turn of the loop of \<open>run_initiator\<close> for the address \<open>i\<close>, with the bytes of \<open>data\<close>. An error in the
  response is reported by \<open>XREPORT_ERROR\<close>, which throws; then the second component is the response.
\<close>

definition initiator_payload :: "(u32 \<Rightarrow> u8 list) \<Rightarrow> nat \<Rightarrow> u8 list \<Rightarrow> payload" where
  "initiator_payload int_bytes i data =
     (let cmd = cmds ! ((i div 4) mod 8)
      in \<lparr>pl_command = cmd, pl_address = of_nat i,
          pl_data = (if cmd = TLM_WRITE_COMMAND then int_bytes (or 0xFF000000 (of_nat i)) else data),
          pl_data_length = 4, pl_byte_enable = False, pl_streaming_width = 4,
          pl_response = TLM_INCOMPLETE_RESPONSE\<rparr>)"

definition initiator_turn :: "(u32 \<Rightarrow> u8 list) \<Rightarrow> u32 \<Rightarrow> (u32 \<times> u32 \<times> u32) list \<Rightarrow> nat \<Rightarrow> u8 list \<Rightarrow> target list \<Rightarrow> nat
    \<Rightarrow> (tlm_response + u8 list \<times> target list \<times> nat) option" where
  "initiator_turn int_bytes addr_limit table i data targets now =
     (case router_b_transport addr_limit table targets (initiator_payload int_bytes i data) 0 now of
        None \<Rightarrow> None
      | Some (targets, txn, delay, now) \<Rightarrow>
          Some (if pl_response txn \<noteq> TLM_OK_RESPONSE then Inl (pl_response txn)
                else Inr (pl_data txn, targets, now + delay + 5)))"

section \<open>What the default table does\<close>

lemma those_map_Some: "those (map (\<lambda>i. Some (f i)) xs) = Some (map f xs)"
  by (induction xs) simp_all

definition plain_row :: "nat \<Rightarrow> nat \<Rightarrow> u32 \<times> u32 \<times> u32" where
  "plain_row k i = (of_nat i, of_nat (i * k), of_nat ((i + 1) * k) - 1)"

lemma c_int_nat: "x < 2 ^ 31 \<Longrightarrow> c_int (int x) = Some (int x) \<and> c_int (int x - 1) = Some (int x - 1)"
  by (simp add: c_int_def)

lemma default_row_plain:
  assumes "(i + 1) * k < 2 ^ 31"
  shows "default_row (int k) (int i) = Some (plain_row k i)"
proof -
  have "i * k < 2 ^ 31" using assms by (rule le_less_trans [rotated]) simp
  note c = c_int_nat [OF this] c_int_nat [OF assms]
  have eq: "int i * int k = int (i * k)" "(int i + 1) * int k = int ((i + 1) * k)" by (simp_all add: algebra_simps)
  show ?thesis
    unfolding default_row_def eq c [THEN conjunct1] prod.case option.case c [THEN conjunct2] plain_row_def by simp
qed

lemma addr_size_nat:
  assumes "unat L < 2 ^ 31" and "0 < n" and "n < 2 ^ 31"
  shows "addr_size L (int n) = Some (int (unat L div n))"
proof -
  have u: "unat (word_of_int (int n) :: u32) = n" using assms(3) by (simp add: unat_of_nat take_bit_nat_eq_self)
  then have nz: "(word_of_int (int n) :: u32) \<noteq> 0" using assms(2) by auto
  have d: "unat (L div word_of_int (int n)) = unat L div n" by (simp only: unat_div_distrib u)
  have "unat L div n < 2 ^ 31" using assms(1) div_le_dividend [of "unat L" n] by linarith
  then have "sint (L div word_of_int (int n)) = int (unat L div n)"
    using d by (simp add: sint_uint signed_take_bit_int_eq_self uint_nat)
  with nz show ?thesis by (simp add: addr_size_def Let_def)
qed

lemma default_table_plain:
  assumes "unat L < 2 ^ 31" and "0 < n" and "n < 2 ^ 31"
  shows "default_table L (int n) = Some (map (plain_row (unat L div n)) [0 ..< n])"
proof -
  let ?k = "unat L div n"
  have "default_row (int ?k) (int i) = Some (plain_row ?k i)" if "i < n" for i
  proof (rule default_row_plain)
    have "(i + 1) * ?k \<le> n * ?k" using that by (intro mult_le_mono1) simp
    also have "\<dots> \<le> unat L" by (simp add: mult.commute)
    finally show "(i + 1) * ?k < 2 ^ 31" using assms(1) by simp
  qed
  then have "map (\<lambda>i. default_row (int ?k) (int i)) [0 ..< n] = map (\<lambda>i. Some (plain_row ?k i)) [0 ..< n]" by simp
  then have "those (map (\<lambda>i. default_row (int ?k) (int i)) [0 ..< n]) = Some (map (plain_row ?k) [0 ..< n])"
    by (simp only: those_map_Some)
  then show ?thesis
    using assms by (simp add: default_table_def addr_size_nat)
qed

lemma unat_ucast_of_nat: "m < 2 ^ 32 \<Longrightarrow> unat (ucast (of_nat m :: u32) :: u64) = m"
  by (simp add: unsigned_ucast_eq unat_of_nat take_bit_nat_eq_self)

lemma row_covers:
  assumes "(i + 1) * k < 2 ^ 31" and "0 < k"
  shows "(addr \<ge> ucast (of_nat (i * k) :: u32) \<and> addr \<le> ucast (of_nat ((i + 1) * k) - 1 :: u32))
    \<longleftrightarrow> i * k \<le> unat (addr :: u64) \<and> unat addr < (i + 1) * k"
proof -
  have "i * k < 2 ^ 32" "(i + 1) * k - 1 < 2 ^ 32" "1 \<le> (i + 1) * k" using assms by simp_all
  moreover from this(3) have "of_nat ((i + 1) * k) - 1 = (of_nat ((i + 1) * k - 1) :: u32)" by (simp add: of_nat_diff)
  ultimately show ?thesis
    by (auto simp only: word_le_nat_alt unat_ucast_of_nat)
qed

lemma find_plain:
  assumes "0 < k" and "n * k < 2 ^ 31"
  shows "j \<le> n \<Longrightarrow> j * k \<le> unat addr \<Longrightarrow> find_row (map (plain_row k) [j ..< n]) addr
    = (if unat addr < n * k then Some (of_nat (unat addr div k)) else None)"
proof (induction "n - j" arbitrary: j)
  case 0
  then show ?case by simp
next
  case (Suc m)
  then have jn: "j < n" by simp
  have rows: "map (plain_row k) [j ..< n] = plain_row k j # map (plain_row k) [Suc j ..< n]"
    using jn by (simp add: upt_conv_Cons)
  have le: "(j + 1) * k \<le> n * k" using jn by (intro mult_le_mono1) simp
  then have "(j + 1) * k < 2 ^ 31" using assms(2) by linarith
  note covers = row_covers [OF this assms(1), of addr]
  show ?case
  proof (cases "unat addr < (j + 1) * k")
    case True
    then have "unat addr div k = j" using Suc.prems(2) assms(1) by (intro div_nat_eqI) (simp_all add: algebra_simps)
    moreover have "unat addr < n * k" using True le by linarith
    ultimately show ?thesis
      unfolding rows plain_row_def find_row.simps covers using True Suc.prems(2) by simp
  next
    case False
    then have "find_row (map (plain_row k) [Suc j ..< n]) addr
        = (if unat addr < n * k then Some (of_nat (unat addr div k)) else None)"
      using Suc.hyps(2) jn by (intro Suc.hyps(1)) simp_all
    then show ?thesis unfolding rows plain_row_def [of k j] find_row.simps covers using False by simp
  qed
qed

lemma find_degenerate:
  assumes "0 < n"
  shows "find_row (map (plain_row 0) [0 ..< n]) addr = (if unat addr < 2 ^ 32 then Some 0 else None)"
proof -
  have row: "plain_row 0 i = (of_nat i, 0, - 1)" for i by (simp add: plain_row_def)
  have "unat (ucast (- 1 :: u32) :: u64) = 2 ^ 32 - 1" by (simp add: unsigned_ucast_eq unsigned_minus_1_eq_mask mask_eq_exp_minus_1 take_bit_nat_eq_self)
  then have le: "addr \<le> ucast (- 1 :: u32) \<longleftrightarrow> unat addr < 2 ^ 32" by (simp add: word_le_nat_alt) linarith
  have none: "find_row (map (plain_row 0) [j ..< n]) addr = None" if "\<not> unat addr < 2 ^ 32" for j
    using that by (induction "n - j" arbitrary: j) (simp_all add: row le upt_rec)
  have "[0 ..< n] = 0 # [Suc 0 ..< n]" using assms by (simp add: upt_conv_Cons)
  with none [of 0] show ?thesis by (simp add: row le)
qed

text \<open>
  C31. The default table of the router divides the addresses below \<open>addr_limit\<close> evenly, where the limit
  and the number of targets are below \<open>2 ^ 31\<close> and there is a target (for larger limits the \<open>int\<close>
  arithmetic of the loop can overflow). Searching it row by row finds the target that a division by the size of a range gives, for the addresses that the ranges
  cover; the rest below the limit, if the division has a remainder, belongs to no target. With more
  targets than addresses the ranges are empty and \<open>0 - 1\<close> wraps around: the first row then covers all
  32-bit addresses.
\<close>

theorem default_table_routes:
  assumes "unat L < 2 ^ 31" and "0 < n" and "n < 2 ^ 31"
  shows "\<exists>table. default_table L (int n) = Some table \<and> length table = n \<and> (\<forall>addr. find_row table addr =
    (let k = unat L div n
     in if k = 0 then (if unat addr < 2 ^ 32 then Some 0 else None)
        else if unat addr < n * k then Some (of_nat (unat addr div k)) else None))"
proof -
  let ?k = "unat L div n"
  have nk: "n * ?k < 2 ^ 31" using assms(1) times_div_less_eq_dividend [of n "unat L"] by (rule le_less_trans [rotated])
  have "find_row (map (plain_row ?k) [0 ..< n]) addr = (if ?k = 0 then (if unat addr < 2 ^ 32 then Some 0 else None)
      else if unat addr < n * ?k then Some (of_nat (unat addr div ?k)) else None)" for addr
    using find_degenerate [OF assms(2), of addr] find_plain [OF _ nk, of 0 addr] by (cases "?k = 0") simp_all
  then show ?thesis
    using default_table_plain [OF assms] by (intro exI [of _ "map (plain_row ?k) [0 ..< n]"]) (simp add: Let_def)
qed

theorem default_table_routes_witness:
  "\<exists>table. default_table 1024 4 = Some table \<and> length table = 4 \<and> find_row table 600 = Some 2 \<and> find_row table 1030 = None"
proof -
  have "unat (1024 :: u32) < 2 ^ 31" "unat (1024 :: u32) div 4 = 256" "unat (600 :: u64) div 256 = 2" "unat (600 :: u64) < 4 * 256"
    "\<not> unat (1030 :: u64) < 4 * 256" by simp_all
  with default_table_routes [of 1024 4] show ?thesis by (auto simp: Let_def)
qed

section \<open>The memory behind the router\<close>

text \<open>
  A system in which every address below the limit that a row of the table covers lies inside the memory
  of the target that the row names: the target exists, the address less the base address of the target is
  below its size, which counts \<open>int\<close>s, and the array has that many. The module at the top of the example
  sets it up so. That a range is no longer than the memory is not enough: the base addresses must fit too.
\<close>

definition offset :: "target \<Rightarrow> u64 \<Rightarrow> u64" where
  "offset t addr = addr - word_of_int (s_base_addr t)"

definition configured :: "u32 \<Rightarrow> (u32 \<times> u32 \<times> u32) list \<Rightarrow> target list \<Rightarrow> bool" where
  "configured L table targets \<longleftrightarrow> (\<forall>addr k. addr < ucast L \<longrightarrow> find_row table addr = Some k \<longrightarrow>
     unat k < length targets \<and> unat (offset (targets ! unat k) addr) < unat (s_size (targets ! unat k))
     \<and> length (mem (targets ! unat k)) = 4 * unat (s_size (targets ! unat k)))"

text \<open>The \<open>int\<close> that an address means, as its four bytes.\<close>

definition cell :: "target \<Rightarrow> u64 \<Rightarrow> u8 list" where
  "cell t addr = take 4 (drop (4 * unat (offset t addr)) (mem t))"

definition content :: "u32 \<Rightarrow> (u32 \<times> u32 \<times> u32) list \<Rightarrow> target list \<Rightarrow> u64 \<Rightarrow> u8 list option" where
  "content L table targets addr =
     (if addr < ucast L then map_option (\<lambda>k. cell (targets ! unat k) addr) (find_row table addr) else None)"

text \<open>The reference: a memory of one \<open>int\<close> for each address.\<close>

definition memory_step :: "u32 \<Rightarrow> (u64 \<Rightarrow> u8 list option) \<Rightarrow> payload \<Rightarrow> (u64 \<Rightarrow> u8 list option) \<times> payload" where
  "memory_step L m txn =
     (if pl_address txn \<ge> ucast L then (m, txn\<lparr>pl_response := TLM_ADDRESS_ERROR_RESPONSE\<rparr>)
      else case m (pl_address txn) of
          None \<Rightarrow> (m, txn)
        | Some d \<Rightarrow> (case pl_command txn of
              TLM_READ_COMMAND \<Rightarrow> (m, txn\<lparr>pl_response := TLM_OK_RESPONSE, pl_data := d\<rparr>)
            | TLM_WRITE_COMMAND \<Rightarrow> (m(pl_address txn \<mapsto> pl_data txn), txn\<lparr>pl_response := TLM_OK_RESPONSE\<rparr>)
            | TLM_IGNORE_COMMAND \<Rightarrow> (m, txn\<lparr>pl_response := TLM_OK_RESPONSE\<rparr>)))"

fun memory_run :: "u32 \<Rightarrow> (u64 \<Rightarrow> u8 list option) \<Rightarrow> payload list \<Rightarrow> (u64 \<Rightarrow> u8 list option) \<times> payload list" where
  "memory_run L m [] = (m, [])"
| "memory_run L m (txn # txns) =
     (case memory_step L m txn of (m, txn) \<Rightarrow> case memory_run L m txns of (m, answers) \<Rightarrow> (m, txn # answers))"

fun router_run :: "u32 \<Rightarrow> (u32 \<times> u32 \<times> u32) list \<Rightarrow> target list \<Rightarrow> payload list \<Rightarrow> nat \<Rightarrow> (target list \<times> payload list) option" where
  "router_run L table targets [] now = Some (targets, [])"
| "router_run L table targets (txn # txns) now =
     (case router_b_transport L table targets txn 0 now of
        None \<Rightarrow> None
      | Some (targets, txn, delay, now) \<Rightarrow>
          map_option (\<lambda>(targets, answers). (targets, txn # answers)) (router_run L table targets txns (now + delay + 5)))"

text \<open>A transaction of one \<open>int\<close>, as initiators make them.\<close>

definition int_access :: "payload \<Rightarrow> bool" where
  "int_access txn \<longleftrightarrow> pl_data_length txn = 4 \<and> length (pl_data txn) = 4 \<and> \<not> pl_byte_enable txn \<and> 4 \<le> pl_streaming_width txn"

lemma target_access:
  assumes "int_access txn" and "unat (offset t (pl_address txn)) < unat (s_size t)" and "length (mem t) = 4 * unat (s_size t)"
  shows "target_b_transport t txn delay =
    (case pl_command txn of
       TLM_READ_COMMAND \<Rightarrow> Some (t, txn\<lparr>pl_response := TLM_OK_RESPONSE, pl_data := cell t (pl_address txn)\<rparr>, delay + 5)
     | TLM_WRITE_COMMAND \<Rightarrow>
         let k = 4 * unat (offset t (pl_address txn))
         in Some (t\<lparr>mem := take k (mem t) @ pl_data txn @ drop (k + 4) (mem t)\<rparr>, txn\<lparr>pl_response := TLM_OK_RESPONSE\<rparr>, delay + 3)
     | TLM_IGNORE_COMMAND \<Rightarrow> Some (t, txn\<lparr>pl_response := TLM_OK_RESPONSE\<rparr>, delay))"
proof -
  let ?adr = "offset t (pl_address txn)"
  have "unat (s_size t) < 2 ^ 32" by (rule order_less_le_trans [OF unsigned_less]) simp
  then have "unat (ucast (s_size t) :: u64) = unat (s_size t)" by (simp add: unsigned_ucast_eq take_bit_nat_eq_self)
  then have "\<not> ?adr > ucast (s_size t)" using assms(2) by (simp add: word_less_nat_alt)
  moreover have "4 * unat ?adr + 4 \<le> length (mem t)" using assms(2,3) by simp
  ultimately show ?thesis
    using assms(1) unfolding target_b_transport_def offset_def [symmetric] int_access_def
    by (cases "pl_command txn") (simp_all add: Let_def copy_bytes_def cell_def word_le_nat_alt word_less_nat_alt)
qed

lemma offset_inj: "offset t a = offset t b \<Longrightarrow> a = b"
  by (simp add: offset_def)

lemma offset_mem [simp]: "offset (t\<lparr>mem := m\<rparr>) a = offset t a"
  by (simp add: offset_def)

text \<open>What a write does to the cells of its target, and to their number.\<close>

lemma cell_written:
  assumes "length d = 4" and "unat (offset t a) < sz" and "length (mem t) = 4 * sz" and "unat (offset t b) < sz"
  shows "cell (t\<lparr>mem := take (4 * unat (offset t a)) (mem t) @ d @ drop (4 * unat (offset t a) + 4) (mem t)\<rparr>) b
    = (if b = a then d else cell t b)"
proof -
  let ?j = "unat (offset t a)" and ?l = "unat (offset t b)"
  have len: "length (take (4 * ?j) (mem t)) = 4 * ?j" using assms by simp
  consider "?l = ?j" | "?l < ?j" | "?j < ?l" by linarith
  then show ?thesis
  proof cases
    case 1
    then have "b = a" using offset_inj by (metis unsigned_word_eqI)
    with assms(1) len show ?thesis by (simp add: cell_def)
  next
    case 2
    then have "b \<noteq> a" by auto
    moreover have "take 4 (drop (4 * ?l) (take (4 * ?j) (mem t) @ xs)) = take 4 (drop (4 * ?l) (mem t))" for xs
    proof -
      have "take (4 + 4 * ?l) (take (4 * ?j) (mem t) @ xs) = take (4 + 4 * ?l) (mem t)"
        using 2 assms(2,3) by (simp add: min_def)
      then show ?thesis by (simp only: take_drop)
    qed
    ultimately show ?thesis by (simp add: cell_def del: take_append drop_append)
  next
    case 3
    then have "b \<noteq> a" by auto
    moreover have "take 4 (drop (4 * ?l) (take (4 * ?j) (mem t) @ d @ drop (4 * ?j + 4) (mem t))) = take 4 (drop (4 * ?l) (mem t))"
      using 3 len assms(1) by simp
    ultimately show ?thesis by (simp add: cell_def)
  qed
qed

lemma router_step_refines:
  assumes conf: "configured L table targets" and acc: "int_access txn"
  shows "\<exists>targets' txn' delay. router_b_transport L table targets txn 0 now = Some (targets', txn', delay, now)
    \<and> memory_step L (content L table targets) txn = (content L table targets', txn') \<and> configured L table targets'"
proof (cases "pl_address txn < ucast L")
  case False
  then show ?thesis using conf by (simp add: router_b_transport_def memory_step_def not_less)
next
  case inside: True
  show ?thesis
  proof (cases "find_row table (pl_address txn)")
    case None
    then show ?thesis using conf inside by (simp add: router_b_transport_def memory_step_def content_def)
  next
    case (Some k)
    let ?t = "targets ! unat k" and ?a = "pl_address txn"
    have k: "unat k < length targets" "unat (offset ?t ?a) < unat (s_size ?t)" "length (mem ?t) = 4 * unat (s_size ?t)"
      using conf inside Some unfolding configured_def by blast+
    note access = target_access [OF acc k(2,3), of 0]
    have ni: "(ucast L \<le> ?a) = False" using inside by simp
    have d: "content L table targets ?a = Some (cell ?t ?a)" using inside Some by (simp add: content_def)
    show ?thesis
    proof (cases "pl_command txn")
      case TLM_WRITE_COMMAND
      let ?j = "4 * unat (offset ?t ?a)"
      let ?t' = "?t\<lparr>mem := take ?j (mem ?t) @ pl_data txn @ drop (?j + 4) (mem ?t)\<rparr>"
      let ?ts = "targets[unat k := ?t']"
      have len: "length (pl_data txn) = 4" using acc by (simp add: int_access_def)
      have same: "s_base_addr ?t' = s_base_addr ?t" "s_size ?t' = s_size ?t" "length (mem ?t') = length (mem ?t)"
        using k(2,3) len by simp_all
      have at: "offset (?ts ! l) a = offset (targets ! l) a" "s_size (?ts ! l) = s_size (targets ! l)"
        "length (mem (?ts ! l)) = length (mem (targets ! l))" for l a
        using same k(1) by (cases "l = unat k"; simp)+
      have conf': "configured L table ?ts"
        using conf unfolding configured_def at by simp
      have "content L table ?ts b = ((content L table targets)(?a \<mapsto> pl_data txn)) b" for b
      proof (cases "b < ucast L \<and> find_row table b = Some k")
        case True
        then have "unat (offset ?t b) < unat (s_size ?t)" using conf unfolding configured_def by blast
        from cell_written [OF len k(2,3) this] True k(1) show ?thesis by (simp add: content_def)
      next
        case False
        then have "b \<noteq> ?a" using inside Some by auto
        moreover have "?ts ! unat l = targets ! unat l" if "b < ucast L" "find_row table b = Some l" for l
        proof -
          have "l \<noteq> k" using False that by auto
          then have "unat l \<noteq> unat k" by (metis unsigned_word_eqI)
          then show ?thesis by simp
        qed
        ultimately show ?thesis by (cases "find_row table b") (auto simp: content_def)
      qed
      then have "content L table ?ts = (content L table targets)(?a \<mapsto> pl_data txn)" by blast
      with conf' k(1) Some TLM_WRITE_COMMAND access d show ?thesis
        by (simp add: router_b_transport_def memory_step_def Let_def ni)
    qed (use conf k(1) Some access d in \<open>simp_all add: router_b_transport_def memory_step_def ni\<close>)
  qed
qed

text \<open>
  C30. The router with its targets is one memory. Let the row that the router finds for an address below its
  limit always name a target for which that address, less the base address of the target, is below its
  size, and whose array has as many \<open>int\<close>s as its size says (\<open>configured\<close>). Then any sequence of
  transactions of one \<open>int\<close> each is carried out without an access outside
  of an array, and gives the answers of the reference, a map from addresses to values: a read returns what
  was written last to its address, whichever target holds it, a write changes no other address, an address
  at or above the limit is an error, and an address that no row covers leaves the response as it was.
\<close>

theorem routed_memory:
  assumes "configured L table targets" and "\<forall>txn \<in> set txns. int_access txn"
  shows "\<exists>targets' answers. router_run L table targets txns now = Some (targets', answers)
    \<and> memory_run L (content L table targets) txns = (content L table targets', answers) \<and> configured L table targets'"
  using assms
proof (induction txns arbitrary: targets now)
  case Nil
  then show ?case by simp
next
  case (Cons txn txns)
  then obtain t1 a1 delay where step: "router_b_transport L table targets txn 0 now = Some (t1, a1, delay, now)"
    "memory_step L (content L table targets) txn = (content L table t1, a1)" "configured L table t1"
    using router_step_refines [of L table targets txn now] by auto
  obtain t2 as where "router_run L table t1 txns (now + delay + 5) = Some (t2, as)"
    "memory_run L (content L table t1) txns = (content L table t2, as)" "configured L table t2"
    using Cons.IH [OF step(3), of "now + delay + 5"] Cons.prems(2) by auto
  with step show ?case by simp
qed

text \<open>The table of the example, with four targets of 128 elements each.\<close>

definition ex_table :: "(u32 \<times> u32 \<times> u32) list" where
  "ex_table = [(0, 0, 127), (1, 128, 255), (2, 256, 383), (3, 384, 511)]"

definition ex_bytes :: "u32 \<Rightarrow> u8 list" where
  "ex_bytes w = [ucast w, ucast (drop_bit 8 w), ucast (drop_bit 16 w), ucast (drop_bit 24 w)]"

definition ex_targets :: "target list" where
  "ex_targets = map (\<lambda>i. new_target ex_bytes (int (i * 128)) 128) [0 ..< 4]"

lemma length_concat_bytes: "length (concat (map (\<lambda>i. ex_bytes (f i)) xs)) = 4 * length xs"
  by (induction xs) (simp_all add: ex_bytes_def)

lemma ex_configured: "configured 1024 ex_table ex_targets"
  unfolding configured_def
proof (intro allI impI)
  fix addr :: u64 and k assume k: "find_row ex_table addr = Some k"
  define a where "a = unat addr"
  have rows: "(k = 0 \<and> a \<le> 127) \<or> (k = 1 \<and> 128 \<le> a \<and> a \<le> 255) \<or> (k = 2 \<and> 256 \<le> a \<and> a \<le> 383) \<or> (k = 3 \<and> 384 \<le> a \<and> a \<le> 511)"
    using k by (auto simp: ex_table_def word_le_nat_alt a_def split: if_splits)
  have t: "ex_targets ! j = new_target ex_bytes (int (j * 128)) 128" if "j < 4" for j
    using that by (simp add: ex_targets_def)
  have len: "length (mem (new_target ex_bytes b 128)) = 512" for b
    by (simp only: new_target_def target.simps length_concat_bytes) simp
  have fields: "s_base_addr (new_target ex_bytes b n) = b" "s_size (new_target ex_bytes b n) = n" for b n
    by (simp_all add: new_target_def)
  have off: "unat (addr - of_nat c) = a - c" if "c \<le> a" "c < 2 ^ 64" for c
    using that by (simp add: unat_sub word_le_nat_alt a_def unat_of_nat take_bit_nat_eq_self)
  show "unat k < length ex_targets \<and> unat (offset (ex_targets ! unat k) addr) < unat (s_size (ex_targets ! unat k))
      \<and> length (mem (ex_targets ! unat k)) = 4 * unat (s_size (ex_targets ! unat k))"
    using rows off [of 0] off [of 128] off [of 256] off [of 384]
    by (auto simp: t len offset_def fields ex_targets_def)
qed

definition ex_access :: "tlm_command \<Rightarrow> u64 \<Rightarrow> payload" where
  "ex_access cmd addr =
     \<lparr>pl_command = cmd, pl_address = addr, pl_data = [1, 2, 3, 4], pl_data_length = 4, pl_byte_enable = False,
      pl_streaming_width = 4, pl_response = TLM_INCOMPLETE_RESPONSE\<rparr>"

theorem routed_memory_witness:
  "\<exists>targets' answers. router_run 1024 ex_table ex_targets [ex_access TLM_WRITE_COMMAND 132, ex_access TLM_READ_COMMAND 2000] 0
      = Some (targets', answers) \<and> map pl_response answers = [TLM_OK_RESPONSE, TLM_ADDRESS_ERROR_RESPONSE]
    \<and> content 1024 ex_table targets' 132 = Some [1, 2, 3, 4]"
proof -
  let ?txns = "[ex_access TLM_WRITE_COMMAND 132, ex_access TLM_READ_COMMAND 2000]"
  have "\<forall>txn \<in> set ?txns. int_access txn" by (simp add: int_access_def ex_access_def)
  with ex_configured obtain targets' answers where run: "router_run 1024 ex_table ex_targets ?txns 0 = Some (targets', answers)"
    "memory_run 1024 (content 1024 ex_table ex_targets) ?txns = (content 1024 ex_table targets', answers)"
    using routed_memory by blast
  obtain d where d: "content 1024 ex_table ex_targets 132 = Some d" by (simp add: content_def ex_table_def)
  have "answers = [(ex_access TLM_WRITE_COMMAND 132)\<lparr>pl_response := TLM_OK_RESPONSE\<rparr>,
      (ex_access TLM_READ_COMMAND 2000)\<lparr>pl_response := TLM_ADDRESS_ERROR_RESPONSE\<rparr>]
    \<and> content 1024 ex_table targets' = (content 1024 ex_table ex_targets)(132 \<mapsto> [1, 2, 3, 4])"
    using run(2) by (auto simp: memory_step_def d ex_access_def)
  with run(1) show ?thesis by simp
qed

text \<open>
  Without that condition the check of the target does not protect it: it admits the offset \<open>s_size\<close>,
  one past the last element.
\<close>

lemma target_admits_size:
  assumes "int_access txn" and "offset t (pl_address txn) = ucast (s_size t)" and "length (mem t) = 4 * unat (s_size t)"
    and "pl_command txn \<noteq> TLM_IGNORE_COMMAND"
  shows "target_b_transport t txn delay = None"
proof -
  have "unat (s_size t) < 2 ^ 32" by (rule order_less_le_trans [OF unsigned_less]) simp
  then have "unat (ucast (s_size t) :: u64) = unat (s_size t)" by (simp add: unsigned_ucast_eq take_bit_nat_eq_self)
  with assms show ?thesis
    unfolding target_b_transport_def offset_def [symmetric] int_access_def
    by (cases "pl_command txn") (simp_all add: Let_def copy_bytes_def word_less_nat_alt word_le_nat_alt)
qed

end
