(* ===== verification/Router_Table.thy ===== *)
theory Router_Table
  imports Param_Life Router
begin

text \<open>
  Where the table of the router comes from: \<open>ex09_router\<close> keeps it in immutable parameters, which it builds
  before the end of the elaboration with default values that a preset value overrides. The module at the
  top (\<open>ex09_top_module\<close>) sets such presets, but not against a locked one.
\<close>

section \<open>Parameters of integers\<close>

text \<open>The values of the types \<open>unsigned int\<close> and \<open>int\<close>, and the types themselves.\<close>

record 'v c_values =
  v_uint :: "u32 \<Rightarrow> 'v"
  uint_of :: "'v \<Rightarrow> u32"
  int_of :: "'v \<Rightarrow> int"
  uint_type :: tid

text \<open>\<open>snprintf(buffer, size, ...)\<close>: what fits in front of the final NUL.\<close>

definition snprintf :: "nat \<Rightarrow> string \<Rightarrow> string" where
  "snprintf sz text = take (sz - 1) text"

text \<open>\<open>new cci::cci_param<unsigned int, cci::CCI_IMMUTABLE_PARAM>(targetName, value)\<close>\<close>

definition new_entry :: "('v, 'j) env \<Rightarrow> nat \<Rightarrow> 'v c_values \<Rightarrow> string \<Rightarrow> u32 \<Rightarrow> ('v, 'j, pid) cci" where
  "new_entry E N V nm x =
     bindM (default_originator E) (\<lambda>og.
       new_param E (runner E N) N nm (v_uint V x) (uint_type V) CCI_IMMUTABLE_PARAM CCI_RELATIVE_NAME None og [])"

section \<open>Filling the table\<close>

text \<open>\<open>addrSize = (unsigned int) (addr_limit.get_value() / r_targets)\<close>\<close>

definition read_addr_size :: "('v, 'j) env \<Rightarrow> nat \<Rightarrow> 'v c_values \<Rightarrow> pid \<Rightarrow> pid \<Rightarrow> ('v, 'j, int) cci" where
  "read_addr_size E N V addr_limit r_targets =
     bindM (get_value E (runner E N) N addr_limit) (\<lambda>l.
       bindM (param_conversion E (runner E N) N r_targets) (\<lambda>n.
         case addr_size (uint_of V l) (int_of V n) of None \<Rightarrow> abortM | Some k \<Rightarrow> retM k))"

text \<open>The first loop of \<open>before_end_of_elaboration\<close>; the array of characters has 10 places.\<close>

fun fill_rows :: "('v, 'j) env \<Rightarrow> nat \<Rightarrow> 'v c_values \<Rightarrow> pid \<Rightarrow> int \<Rightarrow> nat \<Rightarrow> nat \<Rightarrow> ('v, 'j, (pid \<times> pid \<times> pid) list) cci" where
  "fill_rows E N V r_targets addrSize 0 i = nofuelM"
| "fill_rows E N V r_targets addrSize (Suc m) i =
     bindM (param_conversion E (runner E N) N r_targets) (\<lambda>n.
       if int i < int_of V n then
         bindM (new_entry E N V (snprintf 10 (''r_index_'' @ show_nat i)) (of_nat i)) (\<lambda>index.
         case default_row addrSize (int i) of
           None \<Rightarrow> abortM
         | Some (_, sa, ea) \<Rightarrow>
             bindM (new_entry E N V (snprintf 10 (''r_sa_'' @ show_nat i)) sa) (\<lambda>start.
             bindM (new_entry E N V (snprintf 10 (''r_ea_'' @ show_nat i)) ea) (\<lambda>end'.
             bindM (fill_rows E N V r_targets addrSize m (Suc i)) (\<lambda>rows.
               retM ((index, start, end') # rows)))))
       else retM [])"

text \<open>
  The second loop, which shows the rows; \<open>base_handle\<close> is a member that takes over the handle which the
  broker returns, and an invalid handle fails an assertion.
\<close>

fun show_rows :: "('v, 'j) env \<Rightarrow> nat \<Rightarrow> broker_handle \<Rightarrow> hid \<Rightarrow> nat \<Rightarrow> (pid \<times> pid \<times> pid) list \<Rightarrow> ('v, 'j, ('v \<times> 'v \<times> 'v \<times> 'j) list) cci" where
  "show_rows E N bh base_handle i [] = retM []"
| "show_rows E N bh base_handle i ((index, start, end') # rows) =
     bindM (handle_broker_get_param_handle N bh
         (snprintf 50 (''top_module_inst.target_'' @ show_nat i @ ''.s_base_addr''))) (\<lambda>temp.
     thenM (assign_handle base_handle temp) (thenM (delete_handle temp)
     (bindM (read_handle base_handle is_valid) (\<lambda>valid.
     thenM (assertM valid)
     (bindM (get_value E (runner E N) N index) (\<lambda>x.
     bindM (get_value E (runner E N) N start) (\<lambda>y.
     bindM (get_value E (runner E N) N end') (\<lambda>z.
     bindM (handle_get_cci_value E (runner E N) N base_handle) (\<lambda>b.
     bindM (show_rows E N bh base_handle (Suc i) rows) (\<lambda>rest.
       retM ((x, y, z, b) # rest)))))))))))"

definition before_end_of_elaboration :: "('v, 'j) env \<Rightarrow> nat \<Rightarrow> 'v c_values \<Rightarrow> broker_handle \<Rightarrow> hid \<Rightarrow> pid \<Rightarrow> pid \<Rightarrow> pid
    \<Rightarrow> ('v, 'j, (pid \<times> pid \<times> pid) list \<times> ('v \<times> 'v \<times> 'v \<times> 'j) list) cci" where
  "before_end_of_elaboration E N V bh base_handle r_initiators r_targets addr_limit =
     bindM (read_param r_initiators get_originator) (\<lambda>og.
     bindM (get_cci_value E (runner E N) N r_initiators og) (\<lambda>_.
     bindM (get_value E (runner E N) N r_targets) (\<lambda>_.
     bindM (get_value E (runner E N) N addr_limit) (\<lambda>_.
     bindM (read_addr_size E N V addr_limit r_targets) (\<lambda>addrSize.
     bindM (fill_rows E N V r_targets addrSize N 0) (\<lambda>table.
     bindM (show_rows E N bh base_handle 0 table) (\<lambda>shown.
       retM (table, shown))))))))"

definition end_of_elaboration :: "pid \<Rightarrow> pid \<Rightarrow> ('v, 'j, unit) cci" where
  "end_of_elaboration r_initiators r_targets =
     thenM (on_param r_initiators (lock r_initiators None)) (thenM (on_param r_targets (lock r_targets None)) skipM)"

section \<open>Searching the table\<close>

text \<open>The loop of \<open>b_transport\<close>: the range of a row is read from its parameters, the end if the start is low enough.\<close>

fun search_rows :: "('v, 'j) env \<Rightarrow> nat \<Rightarrow> 'v c_values \<Rightarrow> (pid \<times> pid \<times> pid) list \<Rightarrow> u64 \<Rightarrow> ('v, 'j, u32 option) cci" where
  "search_rows E N V [] addr = retM None"
| "search_rows E N V ((index, start, end') # rows) addr =
     bindM (get_value E (runner E N) N start) (\<lambda>sa.
       if addr \<ge> ucast (uint_of V sa) then
         bindM (get_value E (runner E N) N end') (\<lambda>ea.
           if addr \<le> ucast (uint_of V ea)
           then bindM (get_value E (runner E N) N index) (\<lambda>k. retM (Some (uint_of V k)))
           else search_rows E N V rows addr)
       else search_rows E N V rows addr)"

section \<open>Parameters that keep their values\<close>

definition holds :: "pid \<Rightarrow> tid \<Rightarrow> 'v \<Rightarrow> ('v, 'j) world \<Rightarrow> bool" where
  "holds i T v s \<longleftrightarrow> (\<exists>p. params s i = Some p \<and> (\<forall>k. vec (callbacks_of k p) = [] \<and> \<not> oncall (callbacks_of k p))
     \<and> p_type p = T \<and> m_value p = v)"

definition same_values :: "('v, 'j) world \<Rightarrow> ('v, 'j) world \<Rightarrow> bool" where
  "same_values s t \<longleftrightarrow> (\<forall>i T v. holds i T v s \<longrightarrow> holds i T v t) \<and> (\<forall>i. params s i = None \<longrightarrow> params t i = None)
     \<and> brokers t = brokers s \<and> sc_names t = sc_names s \<and> m_brokers t = m_brokers s \<and> next_address t = next_address s"

lemma same_values_refl: "same_values s s"
  by (simp add: same_values_def)

lemma same_values_trans: "same_values s t \<Longrightarrow> same_values t u \<Longrightarrow> same_values s u"
  by (simp add: same_values_def)

lemma same_values_fast_read: "same_values s (map_param i update_fast_read s)"
proof -
  have "callbacks_of k (update_fast_read p) = callbacks_of k p" for k and p :: "('v, 'j) param"
    by (cases k) (simp_all add: callbacks_of.simps update_fast_read_def)
  then show ?thesis
    by (auto simp: same_values_def holds_def map_param_def update_fast_read_def)
qed

lemma get_value_holds:
  assumes "holds i T v s"
  obtains t where "get_value E run (Suc n) i s = (Ret v, t)" and "same_values s t"
proof -
  obtain p where p: "params s i = Some p" "m_value p = v" "\<And>k. vec (callbacks_of k p) = [] \<and> \<not> oncall (callbacks_of k p)"
    using assms by (auto simp: holds_def)
  show thesis
  proof (cases "fast_read p")
    case True
    with p show thesis by (intro that [of s]) (simp_all add: get_value_def same_values_refl)
  next
    case False
    with p get_raw_value_quiet [OF p(1,3), of E run n "get_originator p"] show thesis
      by (intro that [of "map_param i update_fast_read s"]) (simp_all add: get_value_def same_values_fast_read)
  qed
qed

section \<open>One entry of the table\<close>

text \<open>
  What a broker says about the preset value of a name, and the value that a parameter of an integer with
  the default value \<open>d\<close> gets.
\<close>

definition presets_of :: "('v, 'j) env \<Rightarrow> 'j broker \<Rightarrow> string \<Rightarrow> 'j option" where
  "presets_of E r nm = (if consuming_has_preset_value nm r then Some (consuming_get_preset_cci_value E nm r) else None)"

definition entry_value :: "('v, 'j) env \<Rightarrow> 'v c_values \<Rightarrow> (string \<Rightarrow> 'j option) \<Rightarrow> string \<Rightarrow> u32 \<Rightarrow> 'v" where
  "entry_value E V pres nm d = (case pres nm of None \<Rightarrow> v_uint V d | Some x \<Rightarrow> snd (unpack E (uint_type V) x))"

text \<open>
  A world in which the router builds its parameters: the names \<open>names\<close> are free, there is only the global
  broker \<open>b\<close>, and it has the preset values \<open>pres\<close>.
\<close>

definition elaborating :: "('v, 'j) env \<Rightarrow> bid \<Rightarrow> (string \<Rightarrow> 'j option) \<Rightarrow> string set \<Rightarrow> ('v, 'j) world \<Rightarrow> bool" where
  "elaborating E b pres names s \<longleftrightarrow> only_global s b \<and> (\<forall>a \<ge> next_address s. params s a = None)
     \<and> (\<exists>r. brokers s b = Some r \<and> broker_inv r \<and> \<not> has_parent r \<and> m_create_callbacks r = [] \<and> presets_of E r = pres
          \<and> (\<forall>nm \<in> names. nm \<notin> sc_names s \<and> get_orig_param nm r = None))"

lemma elaborating_same: "elaborating E b pres names s \<Longrightarrow> same_values s t \<Longrightarrow> elaborating E b pres names t"
  by (auto simp: elaborating_def same_values_def only_global_def)

lemma presets_kept:
  assumes "broker_inv r"
  shows "presets_of E (use_preset nm (register_param nm i r)) = presets_of E r"
proof -
  have "broker_inv (register_param nm i r)" using assms by (rule register_param_inv)
  note same = use_preset_same(1) [OF this, of E] use_preset_same(2) [OF this]
  have "consuming_has_preset_value j (register_param nm i r) = consuming_has_preset_value j r"
    "consuming_get_preset_cci_value E j (register_param nm i r) = consuming_get_preset_cci_value E j r" for j
    by (simp_all add: register_param_def consuming_has_preset_value_def consuming_get_preset_cci_value_def cong: option.case_cong)
  with same show ?thesis by (simp add: presets_of_def fun_eq_iff)
qed

text \<open>The preset values of these names, if there are any, convert to \<open>unsigned int\<close>.\<close>

definition convertible_presets :: "('v, 'j) env \<Rightarrow> 'v c_values \<Rightarrow> (string \<Rightarrow> 'j option) \<Rightarrow> string set \<Rightarrow> bool" where
  "convertible_presets E V pres names \<longleftrightarrow> (\<forall>nm \<in> names. \<forall>x. pres nm = Some x \<longrightarrow> fst (unpack E (uint_type V) x))"

lemma new_entry_value:
  fixes E :: "('v, 'j) env"
  assumes el: "elaborating (at_object ob E) b pres names s" and ob: "inside E md ob" and E: "systemc_names E"
    and conv: "convertible_presets (at_object ob E) V pres {full}"
    and full: "full = sc_name E md @ ''.'' @ nm" "proper_name full" "full \<in> names"
  obtains t where "new_entry (at_object ob E) (Suc (Suc (Suc n))) V nm d s = (Ret (next_address s), t)"
    and "elaborating (at_object ob E) b pres (names - {full}) t" and "next_address t = Suc (next_address s)"
    and "\<And>i T v. holds i T v s \<Longrightarrow> holds i T v t"
    and "holds (next_address s) (uint_type V) (entry_value (at_object ob E) V pres full d) t"
proof -
  let ?E = "at_object ob E" and ?N = "Suc (Suc (Suc n))" and ?T = "uint_type V" and ?i = "next_address s"
  let ?og = "\<lparr>m_originator_obj = Some ob, m_originator_str = None\<rparr>"
  obtain r where r: "brokers s b = Some r" "broker_inv r" "\<not> has_parent r" "m_create_callbacks r = []" "presets_of ?E r = pres"
    and free: "\<And>nm. nm \<in> names \<Longrightarrow> nm \<notin> sc_names s \<and> get_orig_param nm r = None"
    and g: "only_global s b" and fresh: "\<And>a. ?i \<le> a \<Longrightarrow> params s a = None"
    using el by (auto simp: elaborating_def)
  let ?bh = "create_broker_handle b ?og"
  let ?p = "fresh_param full [] (create_broker_handle b (promoted ?E ?og)) ?og ?T CCI_IMMUTABLE_PARAM (v_uint V d) :: ('v, 'j) param"
  let ?s1 = "s\<lparr>sc_names := insert full (sc_names s)\<rparr>"
  let ?s2 = "install_param ?p ?s1"
  let ?has = "consuming_has_preset_value full r"
  let ?v = "snd (unpack ?E ?T (consuming_get_preset_cci_value ?E full r))"
  let ?s3 = "if ?has then map_param ?i (write_param ?v (consuming_get_preset_value_origin full r)) ?s2 else ?s2"
  let ?t = "map_broker b (\<lambda>r. use_preset full (register_param full ?i r)) ?s3"
  have names: "systemc_names ?E" using E by simp
  have nm: "param_name ?p = full" "m_broker (m_broker_handle ?p) = b"
    using full(2) by (simp_all add: fresh_param_def param_name_def proper_name_def create_broker_handle_def)
  have quiet: "vec (callbacks_of k ?p) = [] \<and> \<not> oncall (callbacks_of k ?p)" for k
    by (cases k) (simp_all add: fresh_param_def callbacks_of.simps Lifecycle.no_callbacks_def)
  have p2: "params ?s2 ?i = Some ?p" by (simp add: install_param_def)
  have b2: "brokers ?s2 b = Some r" using r(1) by (simp add: install_param_def)
  have own: "own_broker ?s2 ?p r" using b2 r(3) by (simp add: own_broker_def nm sendToParent_def is_global_broker_def)
  have new: "get_orig_param full r = None" using free full(3) by blast
  have u: "unpack ?E (p_type ?p) (consuming_get_preset_cci_value ?E full r) = (True, ?v)" if ?has
  proof -
    have "pres full = Some (consuming_get_preset_cci_value ?E full r)" using that r(5) by (auto simp: presets_of_def)
    with conv show ?thesis by (simp add: convertible_presets_def fresh_param_def prod_eq_iff)
  qed
  have wq: "write_quiet ?p" using quiet by (simp add: write_quiet_def)
  have init: "init ?E (runner ?E ?N) ?N b ?i ?s2 = (Ret (), ?t)"
  proof -
    have pre: "init ?E (runner ?E ?N) ?N b ?i ?s2 = add_param (runner ?E ?N) ?N b ?i ?s3"
      using init_preset_part [OF p2 wq own, of ?E ?v "runner ?E ?N" "Suc (Suc n)"] new u by (simp only: nm)
    obtain q where q: "params ?s3 ?i = Some q" "param_name q = full" "m_broker (m_broker_handle q) = b"
      using p2 nm by (cases ?has) (auto simp: write_param_def param_name_def)
    have b3: "brokers ?s3 b = Some r" using b2 by simp
    have own3: "own_broker ?s3 q r" using b3 r(3) q by (simp add: own_broker_def sendToParent_def is_global_broker_def)
    show ?thesis
      using pre own_broker_adds [OF own3 q(1), of "runner ?E ?N" "Suc (Suc n)"]
        add_param_quiet [OF q(1) b3, of "runner ?E ?N" "Suc (Suc n)"] new r(4) q(2,3)
      by simp
  qed
  have find: "find_broker_convenience ?E ?N ?og s = (Ret ?bh, s)" by (rule inside_find_broker [OF ob g])
  have name: "param_full_name ?E ?N nm CCI_RELATIVE_NAME s = (Ret full, s)" using inside_full_name [OF ob] full(1) by simp
  have choose: "choose_name ?E ?N b full s = (Ret full, ?s1)"
    by (rule choose_name_free [OF names full(2)]) (use free full(3) in blast)
  have "new_entry ?E ?N V nm d s = (Ret ?i, ?t)"
    unfolding new_entry_def new_param_def construct_param_def
    by (subst bindM_Ret, rule default_originator_inside, simp)
      (use find name choose init in \<open>simp add: bindM_def promote_run create_broker_handle_def on_exception_def\<close>)
  moreover have "elaborating ?E b pres (names - {full}) ?t"
  proof -
    let ?r = "use_preset full (register_param full ?i r)"
    have brokers: "brokers ?t b = Some ?r" using b2 by simp
    have inv: "broker_inv ?r" using r(2) by (simp add: use_preset_inv register_param_inv)
    have same: "has_parent ?r = has_parent r" "m_create_callbacks ?r = m_create_callbacks r"
      "get_orig_param nm' ?r = (if nm' = full then Some ?i else get_orig_param nm' r)" for nm'
      using new by (auto simp: use_preset_def register_param_def get_orig_param_def map_find_insert split: option.split)
    have world: "next_address ?t = Suc ?i" "sc_names ?t = insert full (sc_names s)" "m_brokers ?t = m_brokers s"
      "params ?t a = None" if "Suc ?i \<le> a" for a
      using that fresh [of a] by (simp_all add: install_param_def)
    show ?thesis
      unfolding elaborating_def
    proof (intro conjI exI [of _ ?r])
      show "only_global ?t b" using g by (simp add: only_global_def install_param_def)
      show "\<forall>a \<ge> next_address ?t. params ?t a = None" using fresh by (auto simp: install_param_def map_param_def)
      show "presets_of ?E ?r = pres" using presets_kept [OF r(2), of ?E full ?i] r(5) by simp
      show "\<forall>nm \<in> names - {full}. nm \<notin> sc_names ?t \<and> get_orig_param nm ?r = None"
        using free by (auto simp: same(3) install_param_def)
    qed (use brokers inv same r in simp_all)
  qed
  moreover have "next_address ?t = Suc ?i" by (simp add: install_param_def)
  moreover have "holds j T v ?t" if "holds j T v s" for j T v
  proof -
    have "j \<noteq> ?i" using that fresh [of ?i] by (auto simp: holds_def)
    then show ?thesis using that by (simp add: holds_def install_param_def)
  qed
  moreover have "holds ?i ?T (entry_value ?E V pres full d) ?t"
  proof (cases ?has)
    case True
    then have "pres full = Some (consuming_get_preset_cci_value ?E full r)" using r(5) by (auto simp: presets_of_def)
    moreover have "callbacks_of k (write_param v og q) = callbacks_of k q" "m_value (write_param v og q) = v"
      "p_type (write_param v og q) = p_type q" for k v og and q :: "('v, 'j) param"
      by (cases k; simp add: callbacks_of.simps write_param_def)+
    ultimately show ?thesis
      using True quiet p2 by (simp add: holds_def entry_value_def fresh_param_def)
  next
    case False
    then have "pres full = None" using r(5) by (auto simp: presets_of_def)
    with False quiet p2 show ?thesis by (simp add: holds_def entry_value_def fresh_param_def)
  qed
  ultimately show thesis by (rule that)
qed

section \<open>The whole table\<close>

text \<open>The full name of an entry, and the values of a row as its presets, if there are any, or the defaults make them.\<close>

definition entry_name :: "('v, 'j) env \<Rightarrow> sc_object \<Rightarrow> string \<Rightarrow> nat \<Rightarrow> string" where
  "entry_name E md kind i = sc_name E md @ ''.'' @ snprintf 10 (kind @ show_nat i)"

definition row_names :: "('v, 'j) env \<Rightarrow> sc_object \<Rightarrow> nat \<Rightarrow> string set" where
  "row_names E md i = {entry_name E md ''r_index_'' i, entry_name E md ''r_sa_'' i, entry_name E md ''r_ea_'' i}"

definition row_values :: "('v, 'j) env \<Rightarrow> 'v c_values \<Rightarrow> sc_object \<Rightarrow> (string \<Rightarrow> 'j option) \<Rightarrow> nat \<Rightarrow> nat \<Rightarrow> 'v \<times> 'v \<times> 'v" where
  "row_values E V md pres k i = (case plain_row k i of (x, sa, ea) \<Rightarrow>
     (entry_value E V pres (entry_name E md ''r_index_'' i) x, entry_value E V pres (entry_name E md ''r_sa_'' i) sa,
      entry_value E V pres (entry_name E md ''r_ea_'' i) ea))"

definition row_holds :: "tid \<Rightarrow> ('v, 'j) world \<Rightarrow> pid \<times> pid \<times> pid \<Rightarrow> 'v \<times> 'v \<times> 'v \<Rightarrow> bool" where
  "row_holds T s row vals = (case (row, vals) of ((a, b, c), (x, y, z)) \<Rightarrow> holds a T x s \<and> holds b T y s \<and> holds c T z s)"

lemma row_holds_mono: "row_holds T s row vals \<Longrightarrow> (\<And>i T v. holds i T v s \<Longrightarrow> holds i T v t) \<Longrightarrow> row_holds T t row vals"
  by (auto simp: row_holds_def)

lemma show_digit: "i < 10 \<Longrightarrow> show_nat i = [char_of (48 + i)]"
  by (simp add: show_nat.simps)

lemma entry_name_inj:
  assumes "i < 10" and "j < 10" and "kind \<in> {''r_index_'', ''r_sa_'', ''r_ea_''}" and "kind' \<in> {''r_index_'', ''r_sa_'', ''r_ea_''}"
  shows "entry_name E md kind i = entry_name E md kind' j \<longleftrightarrow> kind = kind' \<and> i = j"
proof -
  have "char_of (48 + i) = (char_of (48 + j) :: char) \<longleftrightarrow> i = j"
    using assms(1,2) by (simp add: char_of_eq_iff take_bit_nat_eq_self)
  then show ?thesis using assms by (auto simp: entry_name_def snprintf_def show_digit)
qed

text \<open>From the eleventh target on the array of characters is too short, and names repeat.\<close>

lemma entry_name_repeats: "entry_name E md ''r_index_'' 10 = entry_name E md ''r_index_'' 1"
  by (simp add: entry_name_def snprintf_def show_nat.simps)

lemma search_rows_finds:
  fixes E :: "('v, 'j) env" and V :: "'v c_values" and s :: "('v, 'j) world"
  assumes "list_all2 (row_holds (uint_type V) s) rows vals"
  shows "\<exists>t. search_rows E (Suc n) V rows addr s
    = (Ret (find_row (map (\<lambda>(x, y, z). (uint_of V x, uint_of V y, uint_of V z)) vals) addr), t) \<and> same_values s t"
  using assms
proof (induction rows arbitrary: s vals)
  case Nil
  then show ?case by (simp add: same_values_refl)
next
  case (Cons row rows)
  obtain a b c where row: "row = (a, b, c)" by (cases row)
  obtain x y z rest where vals: "vals = (x, y, z) # rest" and h: "holds a (uint_type V) x s" "holds b (uint_type V) y s" "holds c (uint_type V) z s"
    and rows: "list_all2 (row_holds (uint_type V) s) rows rest"
  proof -
    obtain v rest where v: "vals = v # rest" "row_holds (uint_type V) s row v" "list_all2 (row_holds (uint_type V) s) rows rest"
      using Cons.prems by (auto simp: list_all2_Cons1)
    obtain x y z where "v = (x, y, z)" by (cases v)
    with v row show thesis by (intro that) (simp_all add: row_holds_def, blast+)
  qed
  have later: "list_all2 (row_holds (uint_type V) t) rows rest" if "same_values s t" for t
    by (rule list_all2_mono [OF rows]) (rule row_holds_mono, assumption, use that in \<open>auto simp: same_values_def\<close>)
  obtain s1 where s1: "get_value E (runner E (Suc n)) (Suc n) b s = (Ret y, s1)" "same_values s s1"
    using h(2) by (rule get_value_holds)
  show ?case
  proof (cases "addr \<ge> ucast (uint_of V y)")
    case False
    obtain t where "search_rows E (Suc n) V rows addr s1 = (Ret (find_row (map (\<lambda>(x, y, z). (uint_of V x, uint_of V y, uint_of V z)) rest) addr), t)"
      "same_values s1 t" using Cons.IH [OF later [OF s1(2)]] by blast
    with False s1 show ?thesis by (auto simp: row vals bindM_def intro: same_values_trans)
  next
    case sa: True
    have "holds c (uint_type V) z s1" using h(3) s1(2) by (simp add: same_values_def)
    then obtain s2 where s2: "get_value E (runner E (Suc n)) (Suc n) c s1 = (Ret z, s2)" "same_values s1 s2"
      by (rule get_value_holds)
    have s02: "same_values s s2" using s1(2) s2(2) by (rule same_values_trans)
    show ?thesis
    proof (cases "addr \<le> ucast (uint_of V z)")
      case False
      obtain t where "search_rows E (Suc n) V rows addr s2 = (Ret (find_row (map (\<lambda>(x, y, z). (uint_of V x, uint_of V y, uint_of V z)) rest) addr), t)"
        "same_values s2 t" using Cons.IH [OF later [OF s02]] by blast
      with False sa s1 s2 s02 show ?thesis by (auto simp: row vals bindM_def intro: same_values_trans)
    next
      case True
      have "holds a (uint_type V) x s2" using h(1) s02 by (simp add: same_values_def)
      then obtain t where "get_value E (runner E (Suc n)) (Suc n) a s2 = (Ret x, t)" "same_values s2 t"
        by (rule get_value_holds)
      with True sa s1 s2 s02 show ?thesis by (auto simp: row vals bindM_def intro: same_values_trans)
    qed
  qed
qed

lemma elaborating_subset: "elaborating E b pres names s \<Longrightarrow> names' \<subseteq> names \<Longrightarrow> elaborating E b pres names' s"
  unfolding elaborating_def by blast

lemma proper_entry_name:
  assumes "proper_name (sc_name E md)" and "i < 10" and "kind \<in> {''r_index_'', ''r_sa_'', ''r_ea_''}"
  shows "proper_name (entry_name E md kind i)"
proof -
  have no_nul: "c_str nm = nm \<longleftrightarrow> CHR 0x00 \<notin> set nm" for nm by (auto simp: c_str_def takeWhile_eq_all_conv)
  have "char_of (48 + i) \<noteq> CHR 0x00" using assms(2) by (simp add: char_of_eq_iff take_bit_nat_eq_self)
  then have "CHR 0x00 \<notin> set (entry_name E md kind i)"
    using assms no_nul [of "sc_name E md"] by (auto simp: entry_name_def snprintf_def show_digit proper_name_def)
  then show ?thesis by (simp add: proper_name_def no_nul) (simp add: entry_name_def)
qed

lemma new_row_entry:
  fixes E :: "('v, 'j) env"
  assumes ob: "inside E md ob" and E: "systemc_names E" and conv: "convertible_presets (at_object ob E) V pres (row_names E md i)"
    and md: "proper_name (sc_name E md)" and i: "i < 10" and kind: "kind \<in> {''r_index_'', ''r_sa_'', ''r_ea_''}"
    and el: "elaborating (at_object ob E) b pres names s" and free: "entry_name E md kind i \<in> names"
  shows "\<exists>a t. new_entry (at_object ob E) (Suc (Suc (Suc N))) V (snprintf 10 (kind @ show_nat i)) d s = (Ret a, t)
    \<and> elaborating (at_object ob E) b pres (names - {entry_name E md kind i}) t \<and> (\<forall>j T v. holds j T v s \<longrightarrow> holds j T v t)
    \<and> holds a (uint_type V) (entry_value (at_object ob E) V pres (entry_name E md kind i) d) t"
proof -
  have "entry_name E md kind i \<in> row_names E md i" using kind by (auto simp: row_names_def)
  with conv have c: "convertible_presets (at_object ob E) V pres {entry_name E md kind i}"
    unfolding convertible_presets_def by blast
  show ?thesis
    by (rule new_entry_value [OF el ob E c entry_name_def proper_entry_name [OF md i kind] free, of N d]) blast
qed

lemma fill_rows_values:
  fixes E :: "('v, 'j) env"
  assumes ob: "inside E md ob" and E: "systemc_names E" and conv: "convertible_presets (at_object ob E) V pres (\<Union>j \<in> {0 ..< n}. row_names E md j)"
    and md: "proper_name (sc_name E md)" and n: "n \<le> 10" "n * k < 2 ^ 31" and int: "int_of V v = int n"
  shows "elaborating (at_object ob E) b pres (\<Union>j \<in> {i ..< n}. row_names E md j) s \<Longrightarrow> holds rt T v s \<Longrightarrow> i \<le> n \<Longrightarrow> n - i < m \<Longrightarrow>
    \<exists>t rows. fill_rows (at_object ob E) (Suc (Suc (Suc N))) V rt (int k) m i s = (Ret rows, t)
      \<and> list_all2 (row_holds (uint_type V) t) rows (map (row_values (at_object ob E) V md pres k) [i ..< n])
      \<and> (\<forall>j T v. holds j T v s \<longrightarrow> holds j T v t)"
proof (induction m arbitrary: i s)
  case 0
  then show ?case by simp
next
  case (Suc m)
  let ?E = "at_object ob E" and ?N = "Suc (Suc (Suc N))" and ?name = "entry_name E md"
  obtain s1 where s1: "get_value ?E (runner ?E ?N) ?N rt s = (Ret v, s1)" "same_values s s1"
    using Suc.prems(2) by (rule get_value_holds)
  note el1 = elaborating_same [OF Suc.prems(1) s1(2)]
  have m1: "holds j T v s \<longrightarrow> holds j T v s1" for j T v using s1(2) by (simp add: same_values_def)
  show ?case
  proof (cases "i < n")
    case False
    with s1 int Suc.prems(3) m1 show ?thesis by (auto simp: bindM_def param_conversion_def)
  next
    case True
    then have i: "i < 10" using n by simp
    have "(i + 1) * k \<le> n * k" using True by (intro mult_le_mono1) simp
    then have ik: "(i + 1) * k < 2 ^ 31" using n(2) by linarith
    obtain x sa ea where row: "plain_row k i = (x, sa, ea)" by (cases "plain_row k i")
    have x: "x = of_nat i" using row by (simp add: plain_row_def)
    have def_row: "default_row (int k) (int i) = Some (x, sa, ea)" using default_row_plain [OF ik] row by simp
    let ?names = "\<Union>j \<in> {i ..< n}. row_names E md j"
    let ?i = "?name ''r_index_'' i" and ?s = "?name ''r_sa_'' i" and ?e = "?name ''r_ea_'' i"
    have in_names: "?i \<in> ?names" "?s \<in> ?names - {?i}" "?e \<in> ?names - {?i} - {?s}"
      using True by (auto simp: row_names_def entry_name_inj [OF i i])
    have conv_i: "convertible_presets ?E V pres (row_names E md i)" using conv True by (auto simp: convertible_presets_def)
    obtain a s2 where s2: "new_entry ?E ?N V (snprintf 10 (''r_index_'' @ show_nat i)) x s1 = (Ret a, s2)"
      "elaborating ?E b pres (?names - {?i}) s2" "\<forall>j T v. holds j T v s1 \<longrightarrow> holds j T v s2"
      "holds a (uint_type V) (entry_value ?E V pres ?i x) s2"
      using new_row_entry [OF ob E conv_i md i _ el1 in_names(1), of N x] by auto
    obtain a' s3 where s3: "new_entry ?E ?N V (snprintf 10 (''r_sa_'' @ show_nat i)) sa s2 = (Ret a', s3)"
      "elaborating ?E b pres (?names - {?i} - {?s}) s3" "\<forall>j T v. holds j T v s2 \<longrightarrow> holds j T v s3"
      "holds a' (uint_type V) (entry_value ?E V pres ?s sa) s3"
      using new_row_entry [OF ob E conv_i md i _ s2(2) in_names(2), of N sa] by auto
    obtain a'' s4 where s4: "new_entry ?E ?N V (snprintf 10 (''r_ea_'' @ show_nat i)) ea s3 = (Ret a'', s4)"
      "elaborating ?E b pres (?names - {?i} - {?s} - {?e}) s4" "\<forall>j T v. holds j T v s3 \<longrightarrow> holds j T v s4"
      "holds a'' (uint_type V) (entry_value ?E V pres ?e ea) s4"
      using new_row_entry [OF ob E conv_i md i _ s3(2) in_names(3), of N ea] by auto
    have "(\<Union>j \<in> {Suc i ..< n}. row_names E md j) \<subseteq> ?names - {?i} - {?s} - {?e}"
    proof
      fix nm assume "nm \<in> (\<Union>j \<in> {Suc i ..< n}. row_names E md j)"
      then obtain j where j: "i < j" "j < n" "nm \<in> row_names E md j" by (auto simp: Suc_le_eq)
      then have "j < 10" using n by simp
      with j show "nm \<in> ?names - {?i} - {?s} - {?e}" by (auto simp: row_names_def entry_name_inj [OF _ i])
    qed
    note el4 = elaborating_subset [OF s4(2) this]
    have m4: "holds j T v s \<longrightarrow> holds j T v s4" for j T v using m1 s2(3) s3(3) s4(3) by blast
    obtain t rows where t: "fill_rows ?E ?N V rt (int k) m (Suc i) s4 = (Ret rows, t)"
      "list_all2 (row_holds (uint_type V) t) rows (map (row_values ?E V md pres k) [Suc i ..< n])"
      "\<forall>j T v. holds j T v s4 \<longrightarrow> holds j T v t"
      using Suc.IH [OF el4] m4 Suc.prems(2,4) True by force
    have "row_holds (uint_type V) t (a, a', a'') (row_values ?E V md pres k i)"
      using s2(4) s3 s4 t(3) row by (simp add: row_holds_def row_values_def entry_name_def)
    moreover have "fill_rows ?E ?N V rt (int k) (Suc m) i s = (Ret ((a, a', a'') # rows), t)"
      using True s1(1) s2(1) s3(1) s4(1) t(1) int def_row by (simp add: param_conversion_def bindM_def x [symmetric])
    moreover have "map (row_values ?E V md pres k) [i ..< n] = row_values ?E V md pres k i # map (row_values ?E V md pres k) [Suc i ..< n]"
      using True by (simp add: upt_conv_Cons)
    ultimately show ?thesis using t m4 by auto
  qed
qed

text \<open>The table that presets and defaults make.\<close>

definition preset_table :: "('v, 'j) env \<Rightarrow> 'v c_values \<Rightarrow> sc_object \<Rightarrow> (string \<Rightarrow> 'j option) \<Rightarrow> u32 \<Rightarrow> nat \<Rightarrow> (u32 \<times> u32 \<times> u32) list" where
  "preset_table E V md pres L n =
     map (\<lambda>i. case row_values E V md pres (unat L div n) i of (x, y, z) \<Rightarrow> (uint_of V x, uint_of V y, uint_of V z)) [0 ..< n]"

text \<open>
  The routing table of ex09 follows the preset values. If the router is elaborated under a global
  broker, with at most ten targets and names that are free, then each of the parameters that it builds for
  a row has the preset value of its name, or the default value if there is none, and \<open>b_transport\<close>, which
  reads these parameters, finds the row that the table of these values gives for an address.
\<close>

lemma routes_follow_presets:
  fixes E :: "('v, 'j) env"
  assumes el: "elaborating (at_object ob E) b pres (\<Union>j \<in> {0 ..< n}. row_names E md j) s"
    and ob: "inside E md ob" and E: "systemc_names E" and md: "proper_name (sc_name E md)"
    and conv: "convertible_presets (at_object ob E) V pres (\<Union>j \<in> {0 ..< n}. row_names E md j)"
    and limit: "holds addr_limit T lv s" "uint_of V lv = L" "unat L < 2 ^ 31"
    and targets: "holds r_targets T' nv s" "int_of V nv = int n" "0 < n" "n \<le> 10" and N: "12 < N"
  shows "\<exists>rows t. bindM (read_addr_size (at_object ob E) N V addr_limit r_targets)
      (\<lambda>addrSize. fill_rows (at_object ob E) N V r_targets addrSize N 0) s = (Ret rows, t) \<and> length rows = n
    \<and> (\<forall>addr. \<exists>u. search_rows (at_object ob E) N V rows addr t
        = (Ret (find_row (preset_table (at_object ob E) V md pres L n) addr), u))"
proof -
  let ?E = "at_object ob E" and ?k = "unat L div n"
  obtain M where M: "N = Suc (Suc (Suc M))" "n < N" by (rule that [of "N - 3"]) (use N targets in simp_all)
  obtain s1 where s1: "get_value ?E (runner ?E N) N addr_limit s = (Ret lv, s1)" "same_values s s1"
    using get_value_holds [OF limit(1), of ?E "runner ?E N" "Suc (Suc M)"] M by blast
  have "holds r_targets T' nv s1" using targets(1) s1(2) by (simp add: same_values_def)
  then obtain s2 where s2: "get_value ?E (runner ?E N) N r_targets s1 = (Ret nv, s2)" "same_values s1 s2"
    using get_value_holds [of r_targets T' nv s1 ?E "runner ?E N" "Suc (Suc M)"] M by blast
  have s02: "same_values s s2" using s1(2) s2(2) by (rule same_values_trans)
  have "addr_size L (int n) = Some (int ?k)" by (rule addr_size_nat) (use limit targets in simp_all)
  then have size: "read_addr_size ?E N V addr_limit r_targets s = (Ret (int ?k), s2)"
    using s1(1) s2(1) limit(2) targets(2) by (simp add: read_addr_size_def param_conversion_def bindM_def)
  have nk: "n * ?k < 2 ^ 31" using limit(3) times_div_less_eq_dividend [of n "unat L"] by (rule le_less_trans [rotated])
  have "holds r_targets T' nv s2" using targets(1) s02 by (simp add: same_values_def)
  with fill_rows_values [OF ob E conv md targets(4) nk targets(2) elaborating_same [OF el s02], of r_targets T' N M] M
  obtain t rows where t: "fill_rows ?E N V r_targets (int ?k) N 0 s2 = (Ret rows, t)"
    "list_all2 (row_holds (uint_type V) t) rows (map (row_values ?E V md pres ?k) [0 ..< n])" by auto
  have "\<exists>u. search_rows ?E N V rows addr t = (Ret (find_row (preset_table ?E V md pres L n) addr), u)" for addr
    using search_rows_finds [OF t(2), of ?E "Suc (Suc M)" addr] M by (auto simp: preset_table_def comp_def)
  moreover have "length rows = n" using list_all2_lengthD [OF t(2)] by simp
  ultimately show ?thesis using size t(1) by (auto simp: bindM_def)
qed

lemma preset_table_default:
  assumes "\<And>nm. pres nm = None" and "\<And>x. uint_of V (v_uint V x) = x" and "unat L < 2 ^ 31" and "0 < n" and "n < 2 ^ 31"
  shows "Some (preset_table E V md pres L n) = default_table L (int n)"
  using assms by (simp add: default_table_plain preset_table_def row_values_def entry_value_def plain_row_def)

text \<open>An instance: two targets, and a preset value for the last address of the first one.\<close>

definition ex_ints :: "int c_values" where
  "ex_ints = \<lparr>v_uint = uint, uint_of = word_of_int, int_of = (\<lambda>v. v), uint_type = 0\<rparr>"

definition ex_bus_broker :: "int broker" where
  "ex_bus_broker = (empty_broker ''b'')\<lparr>b_forwarding := True, m_unused_value_registry := [(''top.r_ea_0'', 127)],
     m_preset_value_originator_map := [(''top.r_ea_0'', ex_other)]\<rparr>"

definition ex_bus :: "(int, int) world" where
  "ex_bus = ex_world\<lparr>params := [1 \<mapsto> ex_param\<lparr>m_value := 1024\<rparr>, 2 \<mapsto> ex_param\<lparr>m_value := 2\<rparr>], brokers := [0 \<mapsto> ex_bus_broker],
     sc_names := {}, next_address := 3\<rparr>"

lemma ex_bus_presets: "presets_of E ex_bus_broker nm = (if nm = ''top.r_ea_0'' then Some 127 else None)"
  by (simp add: presets_of_def ex_bus_broker_def empty_broker_def consuming_has_preset_value_def consuming_get_preset_cci_value_def)

lemma routes_follow_presets_witness:
  "\<exists>rows t. bindM (read_addr_size (at_object 5 (ex_env True)) 13 ex_ints 1 2)
      (\<lambda>addrSize. fill_rows (at_object 5 (ex_env True)) 13 ex_ints 2 addrSize 13 0) ex_bus = (Ret rows, t)
    \<and> (\<exists>u. search_rows (at_object 5 (ex_env True)) 13 ex_ints rows 300 t = (Ret None, u))
    \<and> (\<exists>u. search_rows (at_object 5 (ex_env True)) 13 ex_ints rows 600 t = (Ret (Some 1), u))"
proof -
  let ?E = "at_object 5 (ex_env True)" and ?pres = "presets_of (at_object 5 (ex_env True)) ex_bus_broker"
  have el: "elaborating ?E 0 ?pres (\<Union>j \<in> {0 ..< 2}. row_names (ex_env True) 5 j) ex_bus"
    by (simp add: elaborating_def ex_bus_def only_global_def ex_world_def ex_bus_broker_def empty_broker_def broker_inv_def
        get_orig_param_def sorted_map_Cons map_keys_def)
  have ob: "inside (ex_env True) 5 5" by (simp add: inside_def ex_env_def)
  have md: "proper_name (sc_name (ex_env True) 5)" by (simp add: proper_name_def ex_env_def c_str_def)
  have conv: "convertible_presets ?E ex_ints ?pres (\<Union>j \<in> {0 ..< 2}. row_names (ex_env True) 5 j)"
    by (simp add: convertible_presets_def ex_bus_presets ex_env_def)
  have quiet: "vec (callbacks_of k (ex_param\<lparr>m_value := v\<rparr>)) = [] \<and> \<not> oncall (callbacks_of k (ex_param\<lparr>m_value := v\<rparr>))" for k v
    by (cases k) (simp_all add: callbacks_of.simps ex_param_def fresh_param_def Lifecycle.no_callbacks_def)
  have limit: "holds 1 0 1024 ex_bus" and targets: "holds 2 0 2 ex_bus"
    using quiet by (simp_all add: holds_def ex_bus_def) (simp_all add: ex_param_def fresh_param_def)
  have table: "preset_table ?E ex_ints 5 ?pres 1024 2 = [(0, 0, 127), (1, 512, 1023)]"
    by (simp add: preset_table_def row_values_def plain_row_def entry_value_def ex_bus_presets entry_name_def snprintf_def show_digit char_of_eq_iff
        ex_ints_def ex_env_def upt_rec)
  have ints: "uint_of ex_ints 1024 = 1024" "int_of ex_ints 2 = int 2" by (simp_all add: ex_ints_def)
  have finds: "find_row [(0, 0, 127), (1, 512, 1023)] 300 = None" "find_row [(0, 0, 127), (1, 512, 1023)] 600 = Some 1" by simp_all
  obtain rows t where "bindM (read_addr_size ?E 13 ex_ints 1 2) (\<lambda>addrSize. fill_rows ?E 13 ex_ints 2 addrSize 13 0) ex_bus = (Ret rows, t)"
    and "\<forall>addr. \<exists>u. search_rows ?E 13 ex_ints rows addr t = (Ret (find_row [(0, 0, 127), (1, 512, 1023)] addr), u)"
    using routes_follow_presets [OF el ob ex_env_names md conv limit ints(1) _ targets ints(2), of 13] unfolding table by auto
  with finds show ?thesis by metis
qed

end
