(* ===== verification/Router_Top.thy ===== *)
theory Router_Top
  imports Router_Table Handle_Blocks Lock_Threads Config_File
begin

text \<open>
  The modules of example 9 as they are built: the constructors of the router, the initiators and the
  targets, \<open>ex09_top_module\<close>, which builds them and sets preset values for the table of the router, and
  the presets that \<open>sc_main\<close> sets and locks before. Nothing catches an exception of a constructor, so
  that the destruction of what was built before it is left out.
\<close>

section \<open>The modules\<close>

text \<open>
  Values of the types \<open>int\<close>, \<open>unsigned int\<close> and \<open>std::string\<close>, the parser of JSON, the bytes of an
  \<open>int\<close> and the objects of the modules inside of a module, by their names.
\<close>

record ('v, 'j) bus_code =
  ints :: "'v c_values"
  v_int :: "int \<Rightarrow> 'v"
  int_type :: tid
  v_string :: "string \<Rightarrow> 'v"
  string_type :: tid
  json_parser :: "string \<Rightarrow> string + 'j"
  int_bytes :: "u32 \<Rightarrow> u8 list"
  submodule :: "string \<Rightarrow> sc_object"

text \<open>A member of type \<open>cci::cci_param<T, TM>\<close>, and one of the three types.\<close>

definition new_member :: "('v, 'j) env \<Rightarrow> nat \<Rightarrow> cci_param_mutable_type \<Rightarrow> tid \<Rightarrow> string \<Rightarrow> 'v \<Rightarrow> ('v, 'j, pid) cci" where
  "new_member E N TM T nm v =
     bindM (default_originator E) (\<lambda>og. new_param E (runner E N) N nm v T TM CCI_RELATIVE_NAME None og [])"

definition new_int :: "('v, 'j) env \<Rightarrow> nat \<Rightarrow> ('v, 'j) bus_code \<Rightarrow> cci_param_mutable_type \<Rightarrow> string \<Rightarrow> int \<Rightarrow> ('v, 'j, pid) cci" where
  "new_int E N W TM nm x = new_member E N TM (int_type W) nm (v_int W x)"

definition new_uint :: "('v, 'j) env \<Rightarrow> nat \<Rightarrow> ('v, 'j) bus_code \<Rightarrow> string \<Rightarrow> u32 \<Rightarrow> ('v, 'j, pid) cci" where
  "new_uint E N W nm x = new_member E N CCI_MUTABLE_PARAM (uint_type (ints W)) nm (v_uint (ints W) x)"

definition new_string :: "('v, 'j) env \<Rightarrow> nat \<Rightarrow> ('v, 'j) bus_code \<Rightarrow> string \<Rightarrow> string \<Rightarrow> ('v, 'j, pid) cci" where
  "new_string E N W nm x = new_member E N CCI_MUTABLE_PARAM (string_type W) nm (v_string W x)"

text \<open>\<open>ex09_router::ex09_router\<close>\<close>

record router_module =
  r_initiators :: pid
  r_targets :: pid
  addr_limit :: pid
  router_broker :: broker_handle
  base_handle :: hid

definition new_router :: "('v, 'j) env \<Rightarrow> nat \<Rightarrow> ('v, 'j) bus_code \<Rightarrow> ('v, 'j, router_module) cci" where
  "new_router E N W =
     bindM (new_int E N W CCI_MUTABLE_PARAM ''r_initiators'' 0) (\<lambda>initiators.
     bindM (new_int E N W CCI_MUTABLE_PARAM ''r_targets'' 0) (\<lambda>targets.
     bindM (new_uint E N W ''addr_max'' 64) (\<lambda>limit.
     bindM (cci_get_broker E N) (\<lambda>bh.
     bindM (default_originator E) (\<lambda>og.
     bindM (alloc_handle None og) (\<lambda>h.
       retM \<lparr>r_initiators = initiators, r_targets = targets, addr_limit = limit, router_broker = bh, base_handle = h\<rparr>))))))"

text \<open>\<open>ex09_initiator\<close>: its constructor, and the lock at the end of the elaboration.\<close>

definition new_initiator :: "('v, 'j) env \<Rightarrow> nat \<Rightarrow> ('v, 'j) bus_code \<Rightarrow> ('v, 'j, pid) cci" where
  "new_initiator E N W =
     bindM (new_string E N W ''initiator_ID'' ''initiator_default'') (\<lambda>i.
     thenM (get_value E (runner E N) N i) (retM i))"

definition initiator_end_of_elaboration :: "pid \<Rightarrow> ('v, 'j, unit) cci" where
  "initiator_end_of_elaboration initiator_ID = thenM (on_param initiator_ID (lock initiator_ID None)) skipM"

text \<open>
  \<open>ex09_target\<close>: its constructor, whose loop reads the size in every turn and fills the array that was
  allocated with it, and the locks.
\<close>

record target_module =
  target_ID :: pid
  base_addr :: pid
  size_param :: pid
  memory :: "u8 list"

fun fill_memory :: "('v, 'j) env \<Rightarrow> nat \<Rightarrow> ('v, 'j) bus_code \<Rightarrow> pid \<Rightarrow> nat \<Rightarrow> nat \<Rightarrow> nat \<Rightarrow> ('v, 'j, u8 list) cci" where
  "fill_memory E N W sz allocated 0 i = nofuelM"
| "fill_memory E N W sz allocated (Suc m) i =
     bindM (get_value E (runner E N) N sz) (\<lambda>x.
       if i < unat (uint_of (ints W) x) then
         thenM (assertM (i < allocated)) (bindM (fill_memory E N W sz allocated m (Suc i)) (\<lambda>rest.
           retM (int_bytes W (or 0xAABBCCDD (of_nat i)) @ rest)))
       else retM [])"

definition new_target_module :: "('v, 'j) env \<Rightarrow> nat \<Rightarrow> ('v, 'j) bus_code \<Rightarrow> ('v, 'j, target_module) cci" where
  "new_target_module E N W =
     bindM (new_string E N W ''target_ID'' ''target_default'') (\<lambda>ident.
     bindM (new_int E N W CCI_MUTABLE_PARAM ''s_base_addr'' 0) (\<lambda>base.
     bindM (new_uint E N W ''s_size'' 256) (\<lambda>sz.
     thenM (get_value E (runner E N) N ident) (thenM (get_value E (runner E N) N ident)
     (thenM (get_value E (runner E N) N base)
     (bindM (get_value E (runner E N) N sz) (\<lambda>x.
     bindM (fill_memory E N W sz (unat (uint_of (ints W) x)) N 0) (\<lambda>bytes.
       retM \<lparr>target_ID = ident, base_addr = base, size_param = sz, memory = bytes\<rparr>))))))))"

definition target_end_of_elaboration :: "target_module \<Rightarrow> ('v, 'j, unit) cci" where
  "target_end_of_elaboration t =
     thenM (on_param (target_ID t) (lock (target_ID t) None)) (thenM (on_param (base_addr t) (lock (base_addr t) None)) skipM)"

section \<open>The module at the top\<close>

text \<open>\<open>m_broker.set_preset_cci_value(name, cci::cci_value::from_json(text))\<close>\<close>

definition preset_from_json :: "('v, 'j) env \<Rightarrow> nat \<Rightarrow> ('v, 'j) bus_code \<Rightarrow> broker_handle \<Rightarrow> string \<Rightarrow> string \<Rightarrow> ('v, 'j, unit) cci" where
  "preset_from_json E N W bh nm text =
     bindM (value_from_json E (json_parser W) text) (\<lambda>x. handle_broker_set_preset E N bh nm x)"

text \<open>The loops that build the initiators and the targets, each after the presets for its parameters.\<close>

definition quoted :: "string \<Rightarrow> string" where
  "quoted text = CHR 0x22 # text @ [CHR 0x22]"

fun make_initiators :: "('v, 'j) env \<Rightarrow> nat \<Rightarrow> ('v, 'j) bus_code \<Rightarrow> string \<Rightarrow> broker_handle \<Rightarrow> pid \<Rightarrow> nat \<Rightarrow> nat \<Rightarrow> ('v, 'j, pid list) cci" where
  "make_initiators E N W nm bh n_initiators 0 i = nofuelM"
| "make_initiators E N W nm bh n_initiators (Suc m) i =
     bindM (param_conversion E (runner E N) N n_initiators) (\<lambda>n.
       if int i < int_of (ints W) n then
         let initiatorName = snprintf 50 (''initiator_'' @ show_nat i)
         in thenM (preset_from_json E N W bh (snprintf 50 (nm @ ''.'' @ initiatorName @ ''.initiator_ID''))
                    (snprintf 50 (quoted (''initiator_'' @ show_nat i))))
              (bindM (new_initiator (at_object (submodule W initiatorName) E) N W) (\<lambda>x.
               bindM (make_initiators E N W nm bh n_initiators m (Suc i)) (\<lambda>xs. retM (x # xs))))
       else retM [])"

fun make_targets :: "('v, 'j) env \<Rightarrow> nat \<Rightarrow> ('v, 'j) bus_code \<Rightarrow> string \<Rightarrow> broker_handle \<Rightarrow> pid \<Rightarrow> nat \<Rightarrow> nat \<Rightarrow> ('v, 'j, target_module list) cci" where
  "make_targets E N W nm bh n_targets 0 i = nofuelM"
| "make_targets E N W nm bh n_targets (Suc m) i =
     bindM (param_conversion E (runner E N) N n_targets) (\<lambda>n.
       if int i < int_of (ints W) n then
         let targetName = snprintf 50 (''target_'' @ show_nat i)
         in thenM (preset_from_json E N W bh (snprintf 50 (nm @ ''.'' @ targetName @ ''.target_ID''))
                    (snprintf 50 (quoted (''target_'' @ show_nat i))))
              (thenM (preset_from_json E N W bh (snprintf 50 (nm @ ''.'' @ targetName @ ''.s_size'')) (show_nat 128))
              (bindM (new_target_module (at_object (submodule W targetName) E) N W) (\<lambda>x.
               bindM (make_targets E N W nm bh n_targets m (Suc i)) (\<lambda>xs. retM (x # xs)))))
       else retM [])"

text \<open>
  The last loop, with the size 128: it sets presets for the three entries of a row of the table, each in a
  \<open>try\<close> block that shows the report of a locked preset, and the base address of the target through a
  handle, which lives until the end of the turn. The result are the reports.
\<close>

definition int_text :: "int \<Rightarrow> ('v, 'j, string) cci" where
  "int_text x = (case c_int x of None \<Rightarrow> abortM | Some k \<Rightarrow> retM (show_nat (nat k)))"

definition reset_entry :: "('v, 'j) env \<Rightarrow> nat \<Rightarrow> ('v, 'j) bus_code \<Rightarrow> broker_handle \<Rightarrow> string \<Rightarrow> string \<Rightarrow> ('v, 'j, sc_report list) cci" where
  "reset_entry E N W bh nm text = catching (\<lambda>e. e) (preset_from_json E N W bh nm text)"

definition reset_row :: "('v, 'j) env \<Rightarrow> nat \<Rightarrow> ('v, 'j) bus_code \<Rightarrow> string \<Rightarrow> broker_handle \<Rightarrow> nat \<Rightarrow> ('v, 'j, sc_report list) cci" where
  "reset_row E N W nm bh i =
     bindM (reset_entry E N W bh (snprintf 50 (nm @ ''.RouterInstance.r_index_'' @ show_nat i)) (show_nat i)) (\<lambda>index.
     bindM (int_text (int i * 128)) (\<lambda>start_text.
     scoped (handle_broker_get_param_handle N bh (snprintf 50 (nm @ ''.target_'' @ show_nat i @ ''.s_base_addr''))) (\<lambda>h. [h]) (\<lambda>h.
       bindM (value_from_json E (json_parser W) start_text) (\<lambda>x.
       thenM (handle_set_cci_value E (runner E N) N h x None)
       (bindM (reset_entry E N W bh (snprintf 50 (nm @ ''.RouterInstance.r_sa_'' @ show_nat i)) start_text) (\<lambda>start.
        bindM (int_text ((int i + 1) * 128)) (\<lambda>_.
        bindM (int_text ((int i + 1) * 128 - 1)) (\<lambda>end_text.
        bindM (reset_entry E N W bh (snprintf 50 (nm @ ''.RouterInstance.r_ea_'' @ show_nat i)) end_text) (\<lambda>end'.
          retM (index @ start @ end'))))))))))"

fun reset_rows :: "('v, 'j) env \<Rightarrow> nat \<Rightarrow> ('v, 'j) bus_code \<Rightarrow> string \<Rightarrow> broker_handle \<Rightarrow> pid \<Rightarrow> nat \<Rightarrow> nat \<Rightarrow> ('v, 'j, sc_report list) cci" where
  "reset_rows E N W nm bh n_targets 0 i = nofuelM"
| "reset_rows E N W nm bh n_targets (Suc m) i =
     bindM (param_conversion E (runner E N) N n_targets) (\<lambda>n.
       if int i < int_of (ints W) n then
         bindM (reset_row E N W nm bh i) (\<lambda>es.
         bindM (reset_rows E N W nm bh n_targets m (Suc i)) (\<lambda>rest. retM (es @ rest)))
       else retM [])"

text \<open>
  The constructor. The parameter that it looks for behind \<open>addr_limit\<close> is called \<open>addr_max\<close>; the number
  that it would read there is not used.
\<close>

record top_module =
  n_initiators :: pid
  n_targets :: pid
  top_broker :: broker_handle
  router_instance :: router_module
  initiator_list :: "pid list"
  target_list :: "target_module list"

definition preset_and_lock :: "('v, 'j) env \<Rightarrow> nat \<Rightarrow> broker_handle \<Rightarrow> string \<Rightarrow> 'j \<Rightarrow> ('v, 'j, unit) cci" where
  "preset_and_lock E N bh nm x =
     thenM (handle_broker_set_preset E N bh nm x) (lock_preset_value N (m_broker bh) nm)"

definition pass_on :: "('v, 'j) env \<Rightarrow> nat \<Rightarrow> broker_handle \<Rightarrow> pid \<Rightarrow> string \<Rightarrow> ('v, 'j, unit) cci" where
  "pass_on E N bh i nm =
     bindM (read_param i get_originator) (\<lambda>og.
     bindM (get_cci_value E (runner E N) N i og) (\<lambda>x. preset_and_lock E N bh nm x))"

definition new_top_module :: "('v, 'j) env \<Rightarrow> nat \<Rightarrow> ('v, 'j) bus_code \<Rightarrow> string \<Rightarrow> ('v, 'j, top_module \<times> sc_report list) cci" where
  "new_top_module E N W nm =
     bindM (new_int E N W CCI_IMMUTABLE_PARAM ''number_of_initiators'' 0) (\<lambda>initiators.
     bindM (new_int E N W CCI_IMMUTABLE_PARAM ''number_of_targets'' 0) (\<lambda>targets.
     bindM (cci_get_broker E N) (\<lambda>bh.
     thenM (get_value E (runner E N) N initiators) (thenM (get_value E (runner E N) N targets)
     (thenM (pass_on E N bh initiators ''top_module_inst.RouterInstance.r_initiators'')
     (thenM (pass_on E N bh targets ''top_module_inst.RouterInstance.r_targets'')
     (bindM (new_router (at_object (submodule W ''RouterInstance'') E) N W) (\<lambda>router.
     scoped (handle_broker_get_param_handle N bh ''top_module_inst.RouterInstance.addr_limit'') (\<lambda>h. [h]) (\<lambda>h.
       bindM (read_handle h is_valid) (\<lambda>valid.
       thenM (if valid then thenM (handle_get_cci_value E (runner E N) N h) skipM else skipM)
       (bindM (make_initiators E N W nm bh initiators N 0) (\<lambda>is.
        bindM (make_targets E N W nm bh targets N 0) (\<lambda>ts.
        bindM (reset_rows E N W nm bh targets N 0) (\<lambda>es.
          retM (\<lparr>n_initiators = initiators, n_targets = targets, top_broker = bh, router_instance = router,
                  initiator_list = is, target_list = ts\<rparr>, es)))))))))))))))"

text \<open>
  The destructor. It deletes the initiators and the targets, but not the router; the members are destroyed
  after its body, the last one first.
\<close>

fun delete_params :: "('v, 'j) env \<Rightarrow> nat \<Rightarrow> pid list \<Rightarrow> ('v, 'j, unit) cci" where
  "delete_params E N [] = skipM"
| "delete_params E N (i # is) = thenM (delete_param E (runner E N) N i) (delete_params E N is)"

definition delete_top_module :: "('v, 'j) env \<Rightarrow> nat \<Rightarrow> top_module \<Rightarrow> ('v, 'j, unit) cci" where
  "delete_top_module E N t =
     thenM (delete_params E N (initiator_list t))
     (thenM (delete_params E N (concat (map (\<lambda>x. [size_param x, base_addr x, target_ID x]) (target_list t))))
     (delete_params E N [n_targets t, n_initiators t]))"

section \<open>The presets of the main program\<close>

text \<open>The broker handle is that of \<open>cci_get_global_broker(me)\<close>; \<open>cci::cci_value(k)\<close> converts an \<open>int\<close>.\<close>

definition main_presets :: "('v, 'j) env \<Rightarrow> nat \<Rightarrow> ('v, 'j) bus_code \<Rightarrow> broker_handle \<Rightarrow> ('v, 'j, unit) cci" where
  "main_presets E N W bh =
     (let value = (\<lambda>k. snd (pack E (int_type W) (v_int W k)))
      in thenM (handle_broker_set_preset E N bh ''top_module_inst.number_of_initiators'' (value 2))
        (thenM (handle_broker_set_preset E N bh ''top_module_inst.number_of_initiators'' (value 1))
        (thenM (handle_broker_set_preset E N bh ''top_module_inst.number_of_targets'' (value 4))
        (thenM (handle_broker_set_preset E N bh ''top_module_inst.RouterInstance.addr_max'' (value 1024))
        (thenM (preset_and_lock E N bh ''top_module_inst.RouterInstance.r_index_1'' (value 1))
        (thenM (preset_and_lock E N bh ''top_module_inst.RouterInstance.r_sa_1'' (value 128))
        (preset_and_lock E N bh ''top_module_inst.RouterInstance.r_ea_1'' (value 255))))))))"

end
