(* ===== verification/Bus_Presets.thy ===== *)
theory Bus_Presets
  imports Router_Top
begin

text \<open>
  What the presets of \<open>ex09_top_module\<close> do to the table that the router builds afterwards: its last loop
  sets them for all entries that are not locked, and moves the targets to the addresses of their rows.
\<close>

section \<open>The parameters without their handles\<close>

definition bare :: "('v, 'j) world \<Rightarrow> ('v, 'j) view" where
  "bare s i = map_option (\<lambda>p. p\<lparr>m_param_handles := []\<rparr>) (params s i)"

lemma steady_without_handles [simp]: "steady nm k T v (p\<lparr>m_param_handles := hs\<rparr>) = steady nm k T v p"
  using steady_with_handles [of nm k T v "p\<lparr>m_param_handles := hs\<rparr>" p] by (simp add: with_handles_of_def)

lemma bare_steady: "(\<exists>p. bare s i = Some p \<and> steady nm k T v p) \<longleftrightarrow> (\<exists>p. params s i = Some p \<and> steady nm k T v p)"
  by (auto simp: bare_def)

lemma callbacks_without_handles [simp]: "callbacks_of k (p\<lparr>m_param_handles := hs\<rparr>) = callbacks_of k p"
  by (cases k) (simp_all add: callbacks_of.simps)

lemma bare_holds: "holds i T v s \<longleftrightarrow>
    (\<exists>p. bare s i = Some p \<and> (\<forall>k. vec (callbacks_of k p) = [] \<and> \<not> oncall (callbacks_of k p)) \<and> p_type p = T \<and> m_value p = v)"
  by (auto simp: bare_def holds_def)

lemma bare_map_broker [simp]: "bare (map_broker b f s) = bare s"
  by (simp add: bare_def fun_eq_iff)

lemma bare_reports [simp]: "bare (s\<lparr>reports := rs\<rparr>) = bare s"
  by (simp add: bare_def fun_eq_iff)

lemma bare_handles [simp]: "bare (s\<lparr>handles := hs\<rparr>) = bare s"
  by (simp add: bare_def fun_eq_iff)

lemma bare_map_param:
  assumes "\<And>p. (f p)\<lparr>m_param_handles := []\<rparr> = p\<lparr>m_param_handles := []\<rparr>"
  shows "bare (map_param i f s) = bare s"
  using assms by (auto simp: bare_def fun_eq_iff map_param_def option.map_comp comp_def)

lemma bare_attach [simp]: "bare (attach_handle h i og s) = bare s"
  by (cases i) (simp_all add: attach_handle_def bare_map_param push_handle_def)

lemma bare_destroy [simp]: "bare (destroy_handle h s) = bare s"
  by (simp add: destroy_handle_def forget_handle_def detach_handle_def bare_map_param drop_handle_def split: option.split)

lemma bare_new_handle [simp]: "bare (new_handle i og s) = bare s"
proof -
  have "bare (s\<lparr>next_address := a\<rparr>) = bare s" for a by (simp add: bare_def fun_eq_iff)
  then show ?thesis by (simp add: new_handle_def)
qed

lemma bare_put:
  assumes "dom c = dom (params s)"
  shows "bare (put c (bump k s)) i = map_option (\<lambda>p. p\<lparr>m_param_handles := []\<rparr>) (c i)"
proof -
  have "c i = None" if "params s i = None" using assms that by auto
  then show ?thesis
    by (auto simp: bare_def params_put option.map_comp comp_def with_handles_of_def split: option.split)
qed

section \<open>The state of the loop\<close>

text \<open>
  A world in which a router can be built (\<open>elaborating\<close>), with the preset values \<open>pres\<close>, the locked names
  \<open>lk\<close>, the registry \<open>reg\<close> and the parameters \<open>c\<close>.
\<close>

definition rests :: "('v, 'j) env \<Rightarrow> bid \<Rightarrow> string set \<Rightarrow> string set \<Rightarrow> (string, pid) std_map
    \<Rightarrow> (string \<Rightarrow> 'j option) \<Rightarrow> ('v, 'j) view \<Rightarrow> ('v, 'j) world \<Rightarrow> bool" where
  "rests E b names lk reg pres c s \<longleftrightarrow> elaborating E b pres names s \<and> handles_ok s \<and> bare s = c
     \<and> (\<exists>r. brokers s b = Some r \<and> locked r = lk \<and> m_param_registry r = reg)"

lemma restsE:
  assumes "rests E b names lk reg pres c s"
  obtains r where "brokers s b = Some r" and "broker_inv r" and "\<not> has_parent r" and "presets_of E r = pres" and "locked r = lk"
    and "m_param_registry r = reg" and "m_create_callbacks r = []" and "\<forall>nm \<in> names. nm \<notin> sc_names s \<and> get_orig_param nm r = None"
  using assms by (auto simp: rests_def elaborating_def)

lemma rests_handles: "rests E b names lk reg pres c s \<Longrightarrow> handles_ok s"
  by (simp add: rests_def)

lemma rests_bare: "rests E b names lk reg pres c s \<Longrightarrow> bare s = c"
  by (simp add: rests_def)

lemma rests_frame:
  assumes s: "rests E b names lk reg pres c s" and t: "brokers t = brokers s" "m_brokers t = m_brokers s" "sc_names t = sc_names s"
    and ok: "handles_ok t" and c': "bare t = c'"
  shows "rests E b names lk reg pres c' t"
proof -
  have "\<forall>a \<ge> next_address t. params t a = None" using handles_okD(1) [OF ok] by (simp add: fresh_def)
  with assms show ?thesis by (auto simp: rests_def elaborating_def only_global_def)
qed

lemma presets_of_store: "presets_of E (store_preset nm x og r) = (presets_of E r)(nm \<mapsto> x)"
  by (cases r rule: store_preset_cases [of nm _ x og])
    (auto simp: presets_of_def consuming_has_preset_value_def consuming_get_preset_cci_value_def fun_eq_iff)

lemma store_preset_others:
  "locked (store_preset nm x og r) = locked r" "m_param_registry (store_preset nm x og r) = m_param_registry r"
  "m_create_callbacks (store_preset nm x og r) = m_create_callbacks r"
  by (cases r rule: store_preset_cases [of nm _ x og]; simp)+

lemma rests_resolve:
  assumes s: "rests E b names lk reg pres c s"
  shows "resolve (Suc n) b nm s = (Ret b, s)"
proof -
  obtain r where "brokers s b = Some r" "\<not> has_parent r" using s by (rule restsE)
  then show ?thesis by (simp add: sendToParent_def is_global_broker_def)
qed

lemma handles_ok_map_broker: "handles_ok s \<Longrightarrow> brokers s b \<noteq> None \<Longrightarrow> handles_ok (map_broker b f s)"
  by (rule handles_ok_frame, assumption) (auto dest!: handles_okD(1) simp: fresh_def)

lemma store_rests:
  assumes s: "rests E b names lk reg pres c s" and bh: "m_broker bh = b" and free: "nm \<notin> lk"
  obtains t where "handle_broker_set_preset E' (Suc n) bh nm x s = (Ret (), t)" and "rests E b names lk reg (pres(nm \<mapsto> x)) c t"
proof -
  obtain r where r: "brokers s b = Some r" "broker_inv r" "\<not> has_parent r" "presets_of E r = pres" "locked r = lk" "m_param_registry r = reg"
    "m_create_callbacks r = []" "\<forall>nm \<in> names. nm \<notin> sc_names s \<and> get_orig_param nm r = None" using s by (rule restsE)
  let ?t = "map_broker b (store_preset nm x (bh_originator bh)) s"
  have ok: "handles_ok ?t" using rests_handles [OF s] r(1) by (simp add: handles_ok_map_broker)
  have "rests E b names lk reg (pres(nm \<mapsto> x)) c ?t"
    unfolding rests_def elaborating_def
    by (intro conjI exI [of _ "store_preset nm x (bh_originator bh) r"])
      (use s r ok handles_okD(1) [OF ok] in \<open>auto simp: rests_def elaborating_def only_global_def presets_of_store store_preset_others
         store_preset_inv get_orig_param_def fresh_def\<close>)
  then show thesis
    by (intro that [of ?t]) (use set_preset_at [OF rests_resolve [OF s, of n nm] r(1), where E = E' and x = x and og = "bh_originator bh"] free r(5) bh
        in \<open>simp_all add: handle_broker_set_preset_def\<close>)
qed

lemma set_preset_rests:
  assumes s: "rests E b names lk reg pres c s" and bh: "m_broker bh = b"
  obtains e t where "tryM (handle_broker_set_preset E' (Suc n) bh nm x) (\<lambda>r. case r of Inl (Sc_report e) \<Rightarrow> retM [f e] | Inl e \<Rightarrow> throwM e | Inr _ \<Rightarrow> retM []) s = (Ret e, t)"
    and "rests E b names lk reg (if nm \<in> lk then pres else pres(nm \<mapsto> x)) c t"
proof (cases "nm \<in> lk")
  case True
  obtain r where r: "brokers s b = Some r" "locked r = lk" using s by (rule restsE)
  let ?m = "''Setting preset value failed (parameter locked).''"
  let ?t = "s\<lparr>reports := reports s @ [set_param_report ?m]\<rparr>"
  have "handles_ok ?t" by (rule handles_ok_frame [OF rests_handles [OF s]]) (use handles_okD(1) [OF rests_handles [OF s]] in \<open>simp_all add: fresh_def\<close>)
  then have t: "rests E b names lk reg pres c ?t" by (intro rests_frame [OF s]) (use rests_bare [OF s] in simp_all)
  show thesis
    by (rule that [of "if suppressed E' then [] else [f (set_param_report ?m)]" ?t])
      (use set_preset_at [OF rests_resolve [OF s, of n nm] r(1), where E = E' and x = x and og = "bh_originator bh"] True r(2) bh t
        in \<open>simp_all add: tryM_def handle_broker_set_preset_def set_param_failed_run\<close>)
next
  case False
  obtain t where "handle_broker_set_preset E' (Suc n) bh nm x s = (Ret (), t)" "rests E b names lk reg (pres(nm \<mapsto> x)) c t"
    using store_rests [OF s bh False] by blast
  with False show thesis by (intro that [of "[]" t]) (simp_all add: tryM_def)
qed

section \<open>Reading and writing parameters\<close>

text \<open>The parameter at \<open>a\<close> may be written by anyone, has the type \<open>T\<close> and the value \<open>v\<close>.\<close>

definition open_at :: "tid \<Rightarrow> 'v \<Rightarrow> pid \<Rightarrow> ('v, 'j) world \<Rightarrow> bool" where
  "open_at T v a s \<longleftrightarrow> (\<exists>p nm k. params s a = Some p \<and> steady nm k T v p)"

lemma open_at_bare: "open_at T v a s \<longleftrightarrow> (\<exists>p nm k. bare s a = Some p \<and> steady nm k T v p)"
  unfolding open_at_def using bare_steady [of s a] by blast

lemma handles_ok_put:
  assumes "handles_ok s" and "dom c = dom (params s)"
  shows "handles_ok (put c (bump k s))"
proof (rule handles_ok_frame [OF assms(1)])
  have "c i \<noteq> None \<longleftrightarrow> params s i \<noteq> None" for i using assms(2) by (simp add: dom_def set_eq_iff)
  then show "map_option m_param_handles (params (put c (bump k s)) i) = map_option m_param_handles (params s i)" for i
    by (cases "params s i"; cases "c i"; force simp: params_put)
  show "fresh (put c (bump k s))" using handles_okD(1) [OF assms(1)] by (simp add: fresh_def params_put)
qed simp

lemma write_through_handle:
  fixes s :: "('v, 'j) world"
  assumes s: "rests E b names lk reg pres c s" and a: "open_at T v a s" and x: "unpack E' T x = (True, u)"
  obtains t c' where "handle_set_cci_value E' run (Suc n) (next_address s) x None (new_handle (Some a) og s) = (Ret (), t)"
    and "rests E b names lk reg pres c' t" and "\<And>j. j \<noteq> a \<Longrightarrow> c' j = c j" and "open_at T u a t"
proof -
  let ?h = "next_address s" and ?s1 = "new_handle (Some a) og s"
  let ?H = "[?h \<mapsto> \<lparr>m_param = Some a, h_originator = og\<rparr>]"
  obtain p nm k where p: "params s a = Some p" "steady nm k T v p" using a by (auto simp: open_at_def)
  have "has_view (params s) Map.empty s" using rests_handles [OF s] by (simp add: has_view_def)
  from has_view_new_handle(2) [OF this p(1), of og] have s1: "handles_ok ?s1" "?H \<subseteq>\<^sub>m handles ?s1" by (simp_all add: has_view_def)
  obtain p1 where p1: "params ?s1 a = Some p1" "steady nm k T v p1"
    using bare_steady [of ?s1 a nm k T v] bare_steady [of s a nm k T v] p by auto
  have "moves nm k T ?H a v (handle_set_cci_value E' run (Suc n) ?h x None) () u"
    by (rule moves_handle_set [where d = "\<lparr>m_param = Some a, h_originator = og\<rparr>"]) (use x in simp_all)
  with p1 obtain q where q: "runs (params ?s1) ?H (handle_set_cci_value E' run (Suc n) ?h x None) () ((params ?s1)(a \<mapsto> q))" "steady nm k T u q"
    unfolding moves_def by blast
  obtain l where t: "handle_set_cci_value E' run (Suc n) ?h x None ?s1 = (Ret (), put ((params ?s1)(a \<mapsto> q)) (bump l ?s1))"
    and dom: "dom ((params ?s1)(a \<mapsto> q)) = dom (params ?s1)" by (rule runs_world [OF q(1) s1])
  let ?t = "put ((params ?s1)(a \<mapsto> q)) (bump l ?s1)"
  have bare: "bare ?t j = (if j = a then Some (q\<lparr>m_param_handles := []\<rparr>) else bare ?s1 j)" for j
    unfolding bare_put [OF dom] by (simp add: bare_def del: bare_new_handle)
  have rest: "rests E b names lk reg pres (bare ?t) ?t"
    by (rule rests_frame [OF s]) (use handles_ok_put [OF s1(1) dom] in \<open>simp_all add: new_handle_def\<close>)
  have other: "bare ?t j = c j" if "j \<noteq> a" for j using bare [of j] that rests_bare [OF s] by simp
  have "open_at T u a ?t" unfolding open_at_bare using bare [of a] q(2) by auto
  with t rest other show thesis by (intro that)
qed

lemma read_rests:
  assumes s: "rests E b names lk reg pres c s" and i: "holds i T v s"
  obtains t where "param_conversion E' run (Suc n) i s = (Ret v, t)" and "rests E b names lk reg pres (bare t) t" and "same_values s t"
    and "\<And>T u a. open_at T u a s \<Longrightarrow> open_at T u a t"
proof -
  obtain p where p: "params s i = Some p" "m_value p = v" "\<And>k. vec (callbacks_of k p) = [] \<and> \<not> oncall (callbacks_of k p)"
    using i by (auto simp: holds_def)
  show thesis
  proof (cases "fast_read p")
    case True
    with p s rests_bare [OF s] show thesis
      by (intro that [of s]) (simp_all add: param_conversion_def get_value_def same_values_refl)
  next
    case False
    let ?t = "map_param i update_fast_read s"
    have ok: "handles_ok ?t" by (rule handles_ok_map_param [OF rests_handles [OF s]]) (simp add: update_fast_read_def)
    have "open_at T u a ?t" if "open_at T u a s" for T u a
      using that steady_updates(1) by (fastforce simp: open_at_def map_param_def)
    with False p get_raw_value_quiet [OF p(1,3), of E' run n "get_originator p"] rests_frame [OF s _ _ _ ok] show thesis
      by (intro that [of ?t]) (simp_all add: param_conversion_def get_value_def same_values_fast_read)
  qed
qed

section \<open>One turn of the loop\<close>

text \<open>
  What the code relies on: the text of a number below \<open>2 ^ 31\<close> parses to a value, \<open>num k\<close>, that converts to
  the number in both types of integers, and \<open>uint_of\<close> undoes \<open>v_uint\<close>.
\<close>

definition bus_laws :: "('v, 'j) env \<Rightarrow> ('v, 'j) bus_code \<Rightarrow> (nat \<Rightarrow> 'j) \<Rightarrow> bool" where
  "bus_laws E W num \<longleftrightarrow> (\<forall>k < 2 ^ 31. json_parser W (show_nat k) = Inr (num k) \<and> unpack E (int_type W) (num k) = (True, v_int W (int k))
       \<and> unpack E (uint_type (ints W)) (num k) = (True, v_uint (ints W) (of_nat k)))
     \<and> (\<forall>x. uint_of (ints W) (v_uint (ints W) x) = x)"

text \<open>A preset that a lock prevents.\<close>

definition preset_unless :: "string set \<Rightarrow> string \<Rightarrow> 'j \<Rightarrow> (string \<Rightarrow> 'j option) \<Rightarrow> string \<Rightarrow> 'j option" where
  "preset_unless lk nm x pres = (if nm \<in> lk then pres else pres(nm \<mapsto> x))"

definition row_presets :: "('v, 'j) env \<Rightarrow> sc_object \<Rightarrow> string set \<Rightarrow> (nat \<Rightarrow> 'j) \<Rightarrow> nat \<Rightarrow> (string \<Rightarrow> 'j option) \<Rightarrow> string \<Rightarrow> 'j option" where
  "row_presets E rt lk num i pres =
     preset_unless lk (entry_name E rt ''r_ea_'' i) (num ((i + 1) * 128 - 1))
       (preset_unless lk (entry_name E rt ''r_sa_'' i) (num (i * 128))
         (preset_unless lk (entry_name E rt ''r_index_'' i) (num i) pres))"

text \<open>The name under which a target is looked up.\<close>

definition base_name :: "string \<Rightarrow> nat \<Rightarrow> string" where
  "base_name nm i = snprintf 50 (nm @ ''.target_'' @ show_nat i @ ''.s_base_addr'')"

lemma digit_no_nul: "(i :: nat) < 10 \<Longrightarrow> char_of (48 + i) \<noteq> CHR 0x00"
  by (simp add: char_of_eq_iff take_bit_nat_eq_self)

lemma c_str_show_nat [simp]: "c_str (show_nat k) = show_nat k"
proof -
  have "CHR 0x00 \<notin> set (show_nat k)"
    by (induction k rule: show_nat.induct) (subst show_nat.simps, auto simp: digit_no_nul dest: sym)
  then show ?thesis by (auto simp: c_str_def takeWhile_eq_all_conv)
qed

lemma reset_entry_rests:
  assumes s: "rests E b names lk reg pres c s" and bh: "m_broker bh = b" and W: "bus_laws E' W num" and k: "k < 2 ^ 31"
  shows "\<exists>e t. reset_entry E' (Suc n) W bh nm (show_nat k) s = (Ret e, t) \<and> rests E b names lk reg (preset_unless lk nm (num k) pres) c t"
proof -
  have parse: "preset_from_json E' (Suc n) W bh nm (show_nat k) = handle_broker_set_preset E' (Suc n) bh nm (num k)"
    using W k by (simp add: preset_from_json_def value_from_json_def bus_laws_def)
  show ?thesis
    unfolding reset_entry_def catching_def parse preset_unless_def
    by (rule set_preset_rests [OF s bh, where f = "\<lambda>e. e"]) blast
qed

lemma reset_names:
  assumes rt: "sc_name E rt = nm @ ''.RouterInstance''" and nm: "length nm \<le> 24" and i: "i < 10"
  shows "snprintf 50 (nm @ ''.RouterInstance.r_index_'' @ show_nat i) = entry_name E rt ''r_index_'' i"
    and "snprintf 50 (nm @ ''.RouterInstance.r_sa_'' @ show_nat i) = entry_name E rt ''r_sa_'' i"
    and "snprintf 50 (nm @ ''.RouterInstance.r_ea_'' @ show_nat i) = entry_name E rt ''r_ea_'' i"
  using assms by (simp_all add: entry_name_def snprintf_def show_digit)

lemma int_text_nat: "x = int k \<Longrightarrow> k < 2 ^ 31 \<Longrightarrow> int_text x = retM (show_nat k)"
  by (simp add: int_text_def c_int_def)

lemma lookup_base:
  assumes s: "rests E b names lk reg pres c s" and bh: "m_broker bh = b" and a: "map_find nm reg = Some a" "open_at T v a s"
  shows "handle_broker_get_param_handle (Suc n) bh nm s = (Ret (next_address s), new_handle (Some a) (bh_originator bh) s)"
proof -
  obtain r where r: "brokers s b = Some r" "\<not> has_parent r" "m_param_registry r = reg" using s by (rule restsE)
  then show ?thesis
    using a bh by (auto simp: handle_broker_get_param_handle_def consuming_get_param_handle_def handle_to_def alloc_handle_def
        open_at_def get_orig_param_def sendToParent_def is_global_broker_def)
qed

lemma reset_row_rests:
  fixes s :: "('v, 'j) world"
  assumes s: "rests E b names lk reg pres c s" and bh: "m_broker bh = b" and W: "bus_laws E' W num" and i: "i < 10"
    and rt: "sc_name E rt = nm @ ''.RouterInstance''" "length nm \<le> 24"
    and a: "map_find (base_name nm i) reg = Some a" "open_at (int_type W) v a s"
  obtains es t c' where "reset_row E' (Suc n) W nm bh i s = (Ret es, t)"
    and "rests E b names lk reg (row_presets E rt lk num i pres) c' t"
    and "\<And>j. j \<noteq> a \<Longrightarrow> c' j = c j" and "open_at (int_type W) (v_int W (int (i * 128))) a t"
proof -
  let ?N = "Suc n" and ?h = "\<lambda>s. next_address s" and ?new = "new_handle (Some a) (bh_originator bh)"
  have num: "i < 2 ^ 31" "i * 128 < 2 ^ 31" "(i + 1) * 128 < (2 :: nat) ^ 31" "(i + 1) * 128 - 1 < (2 :: nat) ^ 31" using i by simp_all
  note names = reset_names [OF rt i]
  obtain e1 s1 where s1: "reset_entry E' ?N W bh (entry_name E rt ''r_index_'' i) (show_nat i) s = (Ret e1, s1)"
    and r1: "rests E b names lk reg (preset_unless lk (entry_name E rt ''r_index_'' i) (num i) pres) c s1"
    using reset_entry_rests [OF s bh W num(1)] by blast
  have a1: "open_at (int_type W) v a s1" using a(2) rests_bare [OF s] rests_bare [OF r1] by (simp add: open_at_bare)
  have x: "value_from_json E' (json_parser W) (show_nat (i * 128)) = retM (num (i * 128))"
    "unpack E' (int_type W) (num (i * 128)) = (True, v_int W (int (i * 128)))"
    using W num(2) by (simp_all add: value_from_json_def bus_laws_def)
  obtain s2 c2 where s2: "handle_set_cci_value E' (runner E' ?N) ?N (?h s1) (num (i * 128)) None (?new s1) = (Ret (), s2)"
    and r2: "rests E b names lk reg (preset_unless lk (entry_name E rt ''r_index_'' i) (num i) pres) c2 s2"
    and c2: "\<And>j. j \<noteq> a \<Longrightarrow> c2 j = c j" and a2: "open_at (int_type W) (v_int W (int (i * 128))) a s2"
    by (rule write_through_handle [OF r1 a1 x(2), of "runner E' ?N" n "bh_originator bh"]) blast
  obtain e3 s3 where s3: "reset_entry E' ?N W bh (entry_name E rt ''r_sa_'' i) (show_nat (i * 128)) s2 = (Ret e3, s3)"
    and r3: "rests E b names lk reg (preset_unless lk (entry_name E rt ''r_sa_'' i) (num (i * 128))
      (preset_unless lk (entry_name E rt ''r_index_'' i) (num i) pres)) c2 s3"
    using reset_entry_rests [OF r2 bh W num(2)] by blast
  obtain e4 s4 where s4: "reset_entry E' ?N W bh (entry_name E rt ''r_ea_'' i) (show_nat ((i + 1) * 128 - 1)) s3 = (Ret e4, s4)"
    and r4: "rests E b names lk reg (row_presets E rt lk num i pres) c2 s4"
    using reset_entry_rests [OF r3 bh W num(4)] unfolding row_presets_def by blast
  let ?t = "destroy_handle (?h s1) s4"
  have texts: "int_text (int i * 128) = retM (show_nat (i * 128))" "int_text ((int i + 1) * 128) = retM (show_nat ((i + 1) * 128))"
    "int_text ((int i + 1) * 128 - 1) = retM (show_nat ((i + 1) * 128 - 1))"
    using num by (intro int_text_nat; simp)+
  have "reset_row E' ?N W nm bh i s = (Ret (e1 @ e3 @ e4), ?t)"
    using s1 s2 s3 s4 lookup_base [OF r1 bh a(1) a1, of n]
    unfolding reset_row_def names texts by (simp add: bindM_def scoped_def guardM_def x(1) base_name_def)
  moreover have rt': "rests E b names lk reg (row_presets E rt lk num i pres) c2 ?t"
  proof (rule rests_frame [OF r4])
    show "handles_ok ?t" by (rule handles_ok_destroy [OF rests_handles [OF r4]])
    show "brokers ?t = brokers s4" "m_brokers ?t = m_brokers s4" "sc_names ?t = sc_names s4"
      by (simp_all add: destroy_handle_def forget_handle_def detach_handle_def split: option.split)
  qed (simp add: rests_bare [OF r4])
  moreover have "open_at (int_type W) (v_int W (int (i * 128))) a ?t"
    using a2 rests_bare [OF r2] rests_bare [OF rt'] by (simp add: open_at_bare)
  ultimately show thesis using c2 by (intro that)
qed

section \<open>The loop\<close>

lemma rests_holds: "rests E b names lk reg pres c s \<Longrightarrow> rests E b names lk reg pres' c' t \<Longrightarrow> c' j = c j \<Longrightarrow> holds j T v s \<longleftrightarrow> holds j T v t"
  by (simp add: bare_holds rests_bare)

lemma rests_open: "rests E b names lk reg pres c s \<Longrightarrow> rests E b names lk reg pres' c' t \<Longrightarrow> c' a = c a \<Longrightarrow> open_at T v a s \<longleftrightarrow> open_at T v a t"
  by (simp add: open_at_bare rests_bare)

lemma reset_rows_rests:
  fixes s :: "('v, 'j) world"
  assumes bh: "m_broker bh = b" and W: "bus_laws E' W num" and rt: "sc_name E rt = nm @ ''.RouterInstance''" "length nm \<le> 24"
    and base: "\<And>j. j < n \<Longrightarrow> map_find (base_name nm j) reg = Some (base j)" "inj_on base {..< n}" "nt \<notin> base ` {..< n}"
    and n: "n \<le> 10" "int_of (ints W) nv = int n"
  shows "rests E b names lk reg pres (bare s) s \<Longrightarrow> holds nt T nv s \<Longrightarrow> (\<And>j. j < n \<Longrightarrow> \<exists>v. open_at (int_type W) v (base j) s) \<Longrightarrow>
    (\<And>j. j < i \<Longrightarrow> open_at (int_type W) (v_int W (int (j * 128))) (base j) s) \<Longrightarrow> i \<le> n \<Longrightarrow> n - i < m \<Longrightarrow>
    \<exists>es t. reset_rows E' (Suc N) W nm bh nt m i s = (Ret es, t)
      \<and> rests E b names lk reg (fold (row_presets E rt lk num) [i ..< n] pres) (bare t) t
      \<and> (\<forall>j T v. j \<notin> base ` {..< n} \<longrightarrow> holds j T v s \<longrightarrow> holds j T v t)
      \<and> (\<forall>j < n. open_at (int_type W) (v_int W (int (j * 128))) (base j) t)"
proof (induction m arbitrary: i s pres)
  case 0
  then show ?case by simp
next
  case (Suc m)
  note s = Suc.prems(1) and nt = Suc.prems(2) and bases = Suc.prems(3) and past = Suc.prems(4) and i = Suc.prems(5,6)
  obtain s1 where s1: "param_conversion E' (runner E' (Suc N)) (Suc N) nt s = (Ret nv, s1)" and r1: "rests E b names lk reg pres (bare s1) s1"
    and v1: "same_values s s1" and o1: "\<And>T u a. open_at T u a s \<Longrightarrow> open_at T u a s1"
    using read_rests [OF s nt, of E' "runner E' (Suc N)" N] by blast
  have h1: "holds j T v s \<Longrightarrow> holds j T v s1" for j T v using v1 by (simp add: same_values_def)
  show ?case
  proof (cases "i < n")
    case False
    with i have "i = n" by simp
    with s1 n r1 past o1 h1 show ?thesis by (intro exI [of _ "[]"] exI [of _ s1]) (simp add: bindM_def)
  next
    case True
    obtain v where "open_at (int_type W) v (base i) s1" using bases True o1 by blast
    moreover have "i < 10" using True n(1) by simp
    ultimately obtain es t c' where t: "reset_row E' (Suc N) W nm bh i s1 = (Ret es, t)"
      and r: "rests E b names lk reg (row_presets E rt lk num i pres) c' t" and c': "\<And>j. j \<noteq> base i \<Longrightarrow> c' j = bare s1 j"
      and at: "open_at (int_type W) (v_int W (int (i * 128))) (base i) t"
      using reset_row_rests [OF r1 bh W _ rt base(1) [OF True], of v N] by blast
    have other: "holds j T v s \<Longrightarrow> holds j T v t" if "j \<notin> base ` {..< n}" for j T v
      using h1 rests_holds [OF r1 r c', of j] that True by blast
    have opens: "open_at T v (base j) s \<Longrightarrow> open_at T v (base j) t" if "j < n" "j \<noteq> i" for j T v
    proof -
      have "base j \<noteq> base i" using base(2) that True by (auto simp: inj_on_def)
      then show "open_at T v (base j) s \<Longrightarrow> open_at T v (base j) t" using o1 rests_open [OF r1 r c', of "base j"] by blast
    qed
    have r': "rests E b names lk reg (row_presets E rt lk num i pres) (bare t) t" using r by (simp add: rests_bare)
    have "holds nt T nv t" using other base(3) nt by blast
    moreover have "\<exists>v. open_at (int_type W) v (base j) t" if "j < n" for j
      using opens at bases that by (cases "j = i") blast+
    moreover have "open_at (int_type W) (v_int W (int (j * 128))) (base j) t" if "j < Suc i" for j
      using opens [of j] at past [of j] that True by (cases "j = i") auto
    moreover have "Suc i \<le> n" "n - Suc i < m" using True i by simp_all
    ultimately obtain es' u where u: "reset_rows E' (Suc N) W nm bh nt m (Suc i) t = (Ret es', u)"
      and ru: "rests E b names lk reg (fold (row_presets E rt lk num) [Suc i ..< n] (row_presets E rt lk num i pres)) (bare u) u"
      and hu: "\<forall>j T v. j \<notin> base ` {..< n} \<longrightarrow> holds j T v t \<longrightarrow> holds j T v u"
      and ou: "\<forall>j < n. open_at (int_type W) (v_int W (int (j * 128))) (base j) u"
      using Suc.IH [OF r', of "Suc i"] by blast
    have "reset_rows E' (Suc N) W nm bh nt (Suc m) i s = (Ret (es @ es'), u)"
      using s1 n(2) True t u by (simp add: bindM_def)
    with ru hu ou other True show ?thesis by (auto simp: upt_conv_Cons)
  qed
qed

section \<open>The table\<close>

lemma fold_presets_other:
  assumes "\<And>j. j \<in> set js \<Longrightarrow> x \<notin> row_names E rt j"
  shows "fold (row_presets E rt lk num) js pres x = pres x"
  using assms by (induction js arbitrary: pres) (auto simp: row_presets_def preset_unless_def row_names_def)

text \<open>The value of a kind of entry in row \<open>i\<close>.\<close>

definition layout :: "string \<Rightarrow> nat \<Rightarrow> nat" where
  "layout kind i = (if kind = ''r_index_'' then i else if kind = ''r_sa_'' then i * 128 else (i + 1) * 128 - 1)"

lemma fold_presets_entry:
  assumes n: "n \<le> 10" and i: "i < n" and kind: "kind \<in> {''r_index_'', ''r_sa_'', ''r_ea_''}"
  shows "fold (row_presets E rt lk num) [0 ..< n] pres (entry_name E rt kind i)
    = (if entry_name E rt kind i \<in> lk then pres (entry_name E rt kind i) else Some (num (layout kind i)))"
proof -
  let ?x = "entry_name E rt kind i"
  have other: "?x \<notin> row_names E rt j" if "j < n" "j \<noteq> i" for j
    using entry_name_inj [of i j kind] that i n kind unfolding row_names_def by auto
  have split: "[0 ..< n] = [0 ..< i] @ i # [Suc i ..< n]"
    using i by (metis le_add_diff_inverse less_imp_le_nat upt_add_eq_append upt_conv_Cons zero_le)
  have "fold (row_presets E rt lk num) [0 ..< n] pres ?x
      = row_presets E rt lk num i (fold (row_presets E rt lk num) [0 ..< i] pres) ?x"
    unfolding split fold_append fold_Cons comp_def by (rule fold_presets_other) (use other in auto)
  also have "\<dots> = (if ?x \<in> lk then fold (row_presets E rt lk num) [0 ..< i] pres ?x else Some (num (layout kind i)))"
    using entry_name_inj [of i i kind _ E rt] n i kind by (auto simp: row_presets_def preset_unless_def layout_def)
  also have "fold (row_presets E rt lk num) [0 ..< i] pres ?x = pres ?x"
    by (rule fold_presets_other) (use other i in auto)
  finally show ?thesis .
qed

lemma at_object_presets [simp]: "presets_of (at_object ob E) = presets_of E"
proof -
  have "null_value (at_object ob E) = null_value E" by (simp add: at_object_def)
  then show ?thesis
    by (intro ext) (simp add: presets_of_def consuming_get_preset_cci_value_def cong: option.case_cong)
qed

lemma at_object_elaborating [simp]: "elaborating (at_object ob E) b pres names s = elaborating E b pres names s"
  by (simp add: elaborating_def)

lemma at_object_laws [simp]: "bus_laws (at_object ob E) W num = bus_laws E W num"
  by (simp add: bus_laws_def)

lemma at_object_table [simp]: "entry_name (at_object ob E) = entry_name E" "entry_value (at_object ob E) = entry_value E"
  "convertible_presets (at_object ob E) = convertible_presets E"
  by (simp_all add: entry_name_def entry_value_def convertible_presets_def fun_eq_iff cong: option.case_cong)

text \<open>Every lock keeps the value that the layout has anyway.\<close>

definition locks_agree :: "('v, 'j) env \<Rightarrow> sc_object \<Rightarrow> string set \<Rightarrow> (nat \<Rightarrow> 'j) \<Rightarrow> nat \<Rightarrow> (string \<Rightarrow> 'j option) \<Rightarrow> bool" where
  "locks_agree E rt lk num n pres \<longleftrightarrow> (\<forall>kind \<in> {''r_index_'', ''r_sa_'', ''r_ea_''}. \<forall>i < n.
     entry_name E rt kind i \<in> lk \<longrightarrow> pres (entry_name E rt kind i) = Some (num (layout kind i)))"

lemma presets_after:
  assumes "locks_agree E rt lk num n pres" and "n \<le> 10" and "i < n" and "kind \<in> {''r_index_'', ''r_sa_'', ''r_ea_''}"
  shows "fold (row_presets E rt lk num) [0 ..< n] pres (entry_name E rt kind i) = Some (num (layout kind i))"
  using assms fold_presets_entry [OF assms(2-4), of E rt lk num pres] by (auto simp: locks_agree_def)

lemma layout_bound: "kind \<in> {''r_index_'', ''r_sa_'', ''r_ea_''} \<Longrightarrow> i < 10 \<Longrightarrow> layout kind i < 2 ^ 31"
  by (auto simp: layout_def)

lemma layout_table:
  assumes locks: "locks_agree E rt lk num n pres" and n: "n \<le> 10" and W: "bus_laws E W num"
  defines "pres' \<equiv> fold (row_presets E rt lk num) [0 ..< n] pres"
  shows "convertible_presets E (ints W) pres' (\<Union>j \<in> {0 ..< n}. row_names E rt j)"
    and "preset_table E (ints W) rt pres' L n = map (plain_row 128) [0 ..< n]"
proof -
  have entry: "pres' (entry_name E rt kind i) = Some (num (layout kind i))
      \<and> unpack E (uint_type (ints W)) (num (layout kind i)) = (True, v_uint (ints W) (of_nat (layout kind i)))"
    if "i < n" "kind \<in> {''r_index_'', ''r_sa_'', ''r_ea_''}" for i kind
    using presets_after [OF locks n that] layout_bound [of kind i] that n W by (simp add: pres'_def bus_laws_def)
  then show "convertible_presets E (ints W) pres' (\<Union>j \<in> {0 ..< n}. row_names E rt j)"
    by (auto simp: convertible_presets_def row_names_def)
  have uint: "uint_of (ints W) (v_uint (ints W) x) = x" for x using W by (simp add: bus_laws_def)
  have vals: "uint_of (ints W) (entry_value E (ints W) pres' (entry_name E rt kind i) d) = of_nat (layout kind i)"
    if "i < n" "kind \<in> {''r_index_'', ''r_sa_'', ''r_ea_''}" for i kind d
    using entry [OF that] by (simp add: entry_value_def uint)
  have "(case row_values E (ints W) rt pres' k i of (x, y, z) \<Rightarrow> (uint_of (ints W) x, uint_of (ints W) y, uint_of (ints W) z)) = plain_row 128 i"
    if "i < n" for k i
    using that by (simp add: row_values_def plain_row_def [of k] plain_row_def [of 128] vals) (simp add: layout_def of_nat_diff)
  then show "preset_table E (ints W) rt pres' L n = map (plain_row 128) [0 ..< n]"
    by (simp add: preset_table_def)
qed

text \<open>The presets of the main program, which it sets before the module at the top is built, agree with the layout.\<close>

lemma lock_rests:
  assumes s: "rests E b names lk reg pres c s" and bh: "m_broker bh = b" and free: "nm \<notin> lk"
  obtains t where "preset_and_lock E' (Suc n) bh nm x s = (Ret (), t)" and "rests E b names (insert nm lk) reg (pres(nm \<mapsto> x)) c t"
proof -
  obtain t where t: "handle_broker_set_preset E' (Suc n) bh nm x s = (Ret (), t)" and r: "rests E b names lk reg (pres(nm \<mapsto> x)) c t"
    using store_rests [OF s bh free] by blast
  let ?u = "map_broker b (consuming_lock_preset_value nm) t"
  obtain rb where b: "brokers t b = Some rb" using r by (rule restsE)
  have ok: "handles_ok ?u" using rests_handles [OF r] b by (simp add: handles_ok_map_broker)
  have same: "presets_of E (consuming_lock_preset_value nm rb) = presets_of E rb"
    by (simp add: fun_eq_iff presets_of_def consuming_lock_preset_value_def consuming_has_preset_value_def consuming_get_preset_cci_value_def
        cong: option.case_cong)
  have "rests E b names (insert nm lk) reg (pres(nm \<mapsto> x)) c ?u"
    unfolding rests_def elaborating_def
    by (intro conjI exI [of _ "consuming_lock_preset_value nm rb"])
      (use r b ok same handles_okD(1) [OF ok] in \<open>auto simp: rests_def elaborating_def only_global_def fresh_def
         consuming_lock_preset_value_def get_orig_param_def broker_inv_def\<close>)
  moreover have "lock_preset_value (Suc n) b nm t = (Ret (), ?u)"
    using b by (simp add: lock_preset_value_def forward_at [OF rests_resolve [OF r]] on_broker_def del: forward.simps)
  ultimately show thesis using t bh by (intro that [of ?u]) (simp_all add: preset_and_lock_def bindM_def)
qed

lemma show_nat_1: "show_nat (Suc 0) = ''1''"
  by (simp add: show_digit char_of_eq_iff)

lemma main_presets_agree:
  assumes s: "rests E b names {} reg pres c s" and bh: "m_broker bh = b" and rt: "sc_name E rt = ''top_module_inst.RouterInstance''"
    and num: "\<And>k. k \<in> {1, 128, 255} \<Longrightarrow> snd (pack E' (int_type W) (v_int W (int k))) = num k"
  shows "\<exists>t lk pres'. main_presets E' (Suc n) W bh s = (Ret (), t) \<and> rests E b names lk reg pres' c t \<and> locks_agree E rt lk num 4 pres'"
proof -
  let ?i = "entry_name E rt ''r_index_'' (Suc 0)" and ?s = "entry_name E rt ''r_sa_'' (Suc 0)" and ?e = "entry_name E rt ''r_ea_'' (Suc 0)"
  have names: "?i = ''top_module_inst.RouterInstance.r_index_1''" "?s = ''top_module_inst.RouterInstance.r_sa_1''"
    "?e = ''top_module_inst.RouterInstance.r_ea_1''"
    by (simp_all add: entry_name_def rt snprintf_def show_nat_1)
  have apart: "?s \<notin> {?i}" "?e \<notin> {?s, ?i}" by (simp_all add: names)
  obtain s1 where s1: "handle_broker_set_preset E' (Suc n) bh ''top_module_inst.number_of_initiators'' (snd (pack E' (int_type W) (v_int W 2))) s = (Ret (), s1)"
    and r1: "\<exists>pres. rests E b names {} reg pres c s1" using store_rests [OF s bh, of _ E' n] by blast
  then obtain s2 where s2: "handle_broker_set_preset E' (Suc n) bh ''top_module_inst.number_of_initiators'' (snd (pack E' (int_type W) (v_int W 1))) s1 = (Ret (), s2)"
    and r2: "\<exists>pres. rests E b names {} reg pres c s2" using store_rests [OF _ bh, of _ _ _ _ _ _ s1 _ E' n] by blast
  then obtain s3 where s3: "handle_broker_set_preset E' (Suc n) bh ''top_module_inst.number_of_targets'' (snd (pack E' (int_type W) (v_int W 4))) s2 = (Ret (), s3)"
    and r3: "\<exists>pres. rests E b names {} reg pres c s3" using store_rests [OF _ bh, of _ _ _ _ _ _ s2 _ E' n] by blast
  then obtain s4 pres4 where s4: "handle_broker_set_preset E' (Suc n) bh ''top_module_inst.RouterInstance.addr_max'' (snd (pack E' (int_type W) (v_int W 1024))) s3 = (Ret (), s4)"
    and r4: "rests E b names {} reg pres4 c s4" using store_rests [OF _ bh, of _ _ _ _ _ _ s3 _ E' n] by blast
  obtain s5 where s5: "preset_and_lock E' (Suc n) bh ?i (num 1) s4 = (Ret (), s5)"
    and r5: "rests E b names {?i} reg (pres4(?i \<mapsto> num 1)) c s5"
    using lock_rests [OF r4 bh, of ?i E' n "num 1"] by blast
  obtain s6 where s6: "preset_and_lock E' (Suc n) bh ?s (num 128) s5 = (Ret (), s6)"
    and r6: "rests E b names {?s, ?i} reg (pres4(?i \<mapsto> num 1, ?s \<mapsto> num 128)) c s6"
    using lock_rests [OF r5 bh apart(1), of E' n "num 128"] by blast
  obtain s7 where s7: "preset_and_lock E' (Suc n) bh ?e (num 255) s6 = (Ret (), s7)"
    and r7: "rests E b names {?e, ?s, ?i} reg (pres4(?i \<mapsto> num 1, ?s \<mapsto> num 128, ?e \<mapsto> num 255)) c s7"
    using lock_rests [OF r6 bh apart(2), of E' n "num 255"] by blast
  have "main_presets E' (Suc n) W bh s = (Ret (), s7)"
    using s1 s2 s3 s4 s5 s6 s7 num [of 1] num [of 128] num [of 255] unfolding main_presets_def names Let_def by (simp add: bindM_def)
  moreover have "locks_agree E rt {?e, ?s, ?i} num 4 (pres4(?i \<mapsto> num 1, ?s \<mapsto> num 128, ?e \<mapsto> num 255))"
    unfolding locks_agree_def
  proof (intro ballI allI impI)
    fix kind i assume kind: "kind \<in> {''r_index_'', ''r_sa_'', ''r_ea_''}" and i: "i < (4 :: nat)" and "entry_name E rt kind i \<in> {?e, ?s, ?i}"
    then have "i = Suc 0" using entry_name_inj [of i "Suc 0" kind _ E rt] by auto
    with kind apart show "(pres4(?i \<mapsto> num 1, ?s \<mapsto> num 128, ?e \<mapsto> num 255)) (entry_name E rt kind i) = Some (num (layout kind i))"
      by (auto simp: layout_def)
  qed
  ultimately show ?thesis using r7 by blast
qed

text \<open>
  C29. The bus of ex09, with one to ten targets and an address limit below \<open>2 ^ 31\<close>, is laid out by its
  top module, whatever presets there are. After its last loop the targets
  have their base addresses 0, 128, 256, ..., and the table that the router builds when the elaboration ends
  gives address \<open>a\<close> to target \<open>a div 128\<close>, and no target to addresses behind the last one: presets override
  the default values of the router, which divide its address range instead. Locked presets are
  refused, reported and caught; they must agree with the layout, as those of \<open>sc_main\<close> do
  (\<open>main_presets_agree\<close>).
\<close>

theorem top_module_routes:
  fixes E :: "('v, 'j) env"
  assumes el: "elaborating E b pres (\<Union>j \<in> {0 ..< n}. row_names E rt j) s" "handles_ok s"
    and r: "brokers s b = Some r" "locks_agree E rt (locked r) num n pres"
    and base: "\<And>j. j < n \<Longrightarrow> get_orig_param (base_name nm j) r = Some (base j) \<and> (\<exists>v. open_at (int_type W) v (base j) s)"
      "inj_on base {..< n}" "{nt, targets, limit} \<inter> base ` {..< n} = {}"
    and counts: "holds nt T nv s" "int_of (ints W) nv = int n" "holds targets T' tv s" "int_of (ints W) tv = int n"
    and limit: "holds limit T'' lv s" "unat (uint_of (ints W) lv) < 2 ^ 31" and n: "0 < n" "n \<le> 10" "12 < N"
    and bh: "m_broker bh = b" and W: "bus_laws E W num" and E: "systemc_names E" "inside E rt rt"
    and names: "sc_name E rt = nm @ ''.RouterInstance''" "length nm \<le> 24" "proper_name nm"
  shows "\<exists>es t rows u. reset_rows (at_object md E) N W nm bh nt N 0 s = (Ret es, t)
    \<and> (\<forall>j < n. open_at (int_type W) (v_int W (int (j * 128))) (base j) t)
    \<and> bindM (read_addr_size (at_object rt E) N (ints W) limit targets)
        (\<lambda>addrSize. fill_rows (at_object rt E) N (ints W) targets addrSize N 0) t = (Ret rows, u)
    \<and> (\<forall>addr. \<exists>w. search_rows (at_object rt E) N (ints W) rows addr u
        = (Ret (if unat addr < n * 128 then Some (of_nat (unat addr div 128)) else None), w))"
proof -
  obtain M where M: "N = Suc M" using n(3) by (cases N) auto
  let ?names = "\<Union>j \<in> {0 ..< n}. row_names E rt j" and ?pres = "fold (row_presets E rt (locked r) num) [0 ..< n] pres"
  have s: "rests E b ?names (locked r) (m_param_registry r) pres (bare s) s" using el r(1) by (simp add: rests_def)
  have W': "bus_laws (at_object md E) W num" using W by simp
  have reg: "map_find (base_name nm j) (m_param_registry r) = Some (base j)" if "j < n" for j
    using base(1) [OF that] by (simp add: get_orig_param_def)
  obtain es t where t: "reset_rows (at_object md E) N W nm bh nt N 0 s = (Ret es, t)"
    and rt: "rests E b ?names (locked r) (m_param_registry r) ?pres (bare t) t"
    and kept: "\<And>j T v. j \<notin> base ` {..< n} \<Longrightarrow> holds j T v s \<Longrightarrow> holds j T v t"
    and moved: "\<forall>j < n. open_at (int_type W) (v_int W (int (j * 128))) (base j) t"
    using reset_rows_rests [OF bh W' names(1,2) reg base(2) _ n(2) counts(2) s counts(1), of 0 N M] base(1,3) n(2,3) unfolding M by auto
  have el': "elaborating (at_object rt E) b ?pres ?names t" using rt by (simp add: rests_def)
  have held: "holds limit T'' lv t" "holds targets T' tv t" using kept base(3) limit(1) counts(3) by auto
  have proper: "proper_name (sc_name E rt)" using names(1,3) by (auto simp: proper_name_def c_str_def takeWhile_eq_all_conv)
  note table = layout_table [OF r(2) n(2) W]
  have "convertible_presets (at_object rt E) (ints W) ?pres ?names" using table(1) by simp
  from routes_follow_presets [OF el' E(2,1) proper this held(1) refl limit(2) held(2) counts(4) n]
  obtain rows u where u: "bindM (read_addr_size (at_object rt E) N (ints W) limit targets)
        (\<lambda>addrSize. fill_rows (at_object rt E) N (ints W) targets addrSize N 0) t = (Ret rows, u)"
    and search: "\<forall>addr. \<exists>w. search_rows (at_object rt E) N (ints W) rows addr u
        = (Ret (find_row (preset_table (at_object rt E) (ints W) rt ?pres (uint_of (ints W) lv) n) addr), w)" by blast
  have "preset_table (at_object rt E) (ints W) rt ?pres L n = preset_table E (ints W) rt ?pres L n" for L
    by (simp add: preset_table_def row_values_def)
  with table(2) have "find_row (preset_table (at_object rt E) (ints W) rt ?pres (uint_of (ints W) lv) n) addr
      = (if unat addr < n * 128 then Some (of_nat (unat addr div 128)) else None)" for addr
    using find_plain [of 128 n 0 addr] n(2) by simp
  with t moved u search show ?thesis by auto
qed

text \<open>An instance: two targets under the module \<open>top\<close>, a router inside of it, and a locked start address.\<close>

definition ex_digits :: "string \<Rightarrow> nat" where
  "ex_digits text = foldl (\<lambda>k c. 10 * k + (of_char c - 48)) 0 text"

lemma ex_digits_show: "ex_digits (show_nat k) = k"
proof (induction k rule: show_nat.induct)
  case (1 k)
  have digit: "of_char (char_of (48 + d) :: char) = 48 + d" if "d < 10" for d :: nat
    using that by (simp add: take_bit_nat_eq_self)
  show ?case
  proof (cases "k < 10")
    case True
    then show ?thesis by (subst show_nat.simps) (simp add: ex_digits_def digit)
  next
    case False
    then have "ex_digits (show_nat (k div 10)) = k div 10" by (rule 1)
    with False show ?thesis by (subst show_nat.simps) (simp add: ex_digits_def digit)
  qed
qed

definition ex_code :: "(int, int) bus_code" where
  "ex_code = \<lparr>ints = ex_ints, v_int = (\<lambda>k. k), int_type = 0, v_string = (\<lambda>_. 0), string_type = 1,
     json_parser = (\<lambda>text. Inr (int (ex_digits text))), int_bytes = ex_bytes, submodule = (\<lambda>_. 6)\<rparr>"

definition ex_top_env :: "(int, int) env" where
  "ex_top_env = (ex_env True)\<lparr>sc_name := (\<lambda>ob. if ob = 6 then ''top.RouterInstance'' else ''top''),
     sc_parent := (\<lambda>ob. if ob = 6 then Some 5 else None)\<rparr>"

definition ex_top_broker :: "int broker" where
  "ex_top_broker = (empty_broker ''b'')\<lparr>b_forwarding := True,
     m_param_registry := [(''top.target_0.s_base_addr'', 4), (''top.target_1.s_base_addr'', 5)],
     m_unused_value_registry := [(''top.RouterInstance.r_sa_1'', 128)],
     m_preset_value_originator_map := [(''top.RouterInstance.r_sa_1'', ex_other)], locked := {''top.RouterInstance.r_sa_1''}\<rparr>"

definition ex_top_world :: "(int, int) world" where
  "ex_top_world = ex_world\<lparr>params := [1 \<mapsto> ex_param\<lparr>m_value := 1024\<rparr>, 2 \<mapsto> ex_param\<lparr>m_value := 2\<rparr>, 3 \<mapsto> ex_param\<lparr>m_value := 2\<rparr>,
       4 \<mapsto> ex_param\<lparr>m_value := 0\<rparr>, 5 \<mapsto> ex_param\<lparr>m_value := 0\<rparr>],
     brokers := [0 \<mapsto> ex_top_broker], sc_names := {}, next_address := 6\<rparr>"

lemma ex_names:
  "entry_name ex_top_env 6 kind i = ''top.RouterInstance.'' @ snprintf 10 (kind @ show_nat i)"
  "base_name ''top'' i = snprintf 50 (''top.target_'' @ show_nat i @ ''.s_base_addr'')"
  by (simp_all add: entry_name_def base_name_def ex_top_env_def)

lemma ex_top_ok: "handles_ok ex_top_world"
  by (simp add: handles_ok_def fresh_def ex_top_world_def ex_world_def ex_param_def fresh_param_def)

lemma ex_top_holds: "holds i 0 v ex_top_world \<and> open_at 0 v i ex_top_world"
  if "(i, v) \<in> {(1, 1024), (2, 2), (3, 2), (4, 0), (5, 0)}"
proof -
  have "vec (callbacks_of k (ex_param\<lparr>m_value := v\<rparr>)) = [] \<and> \<not> oncall (callbacks_of k (ex_param\<lparr>m_value := v\<rparr>))" for k v
    by (cases k) (simp_all add: callbacks_of.simps ex_param_def fresh_param_def Lifecycle.no_callbacks_def)
  moreover have "params ex_top_world i = Some (ex_param\<lparr>m_value := v\<rparr>)" using that by (elim insertE emptyE) (simp_all add: ex_top_world_def)
  ultimately have p: "params ex_top_world i = Some (ex_param\<lparr>m_value := v\<rparr>)"
    and q: "\<forall>k. vec (callbacks_of k (ex_param\<lparr>m_value := v\<rparr>)) = [] \<and> \<not> oncall (callbacks_of k (ex_param\<lparr>m_value := v\<rparr>))" by blast+
  have T: "p_type (ex_param\<lparr>m_value := v\<rparr>) = 0" by (simp add: ex_param_def fresh_param_def)
  then have "holds i 0 v ex_top_world" unfolding holds_def using p q by (intro exI [of _ "ex_param\<lparr>m_value := v\<rparr>"]) simp
  moreover have "refusal (ex_param\<lparr>m_value := v\<rparr>) None = None" by (simp add: ex_param_def fresh_param_def refusal_def is_locked_def)
  with q T have "steady (m_name ex_param) (m_broker (m_broker_handle ex_param)) 0 v (ex_param\<lparr>m_value := v\<rparr>)"
    unfolding steady_def unwatched_def no_callback_def by simp
  then have "open_at 0 v i ex_top_world" unfolding open_at_def using p by blast
  ultimately show ?thesis by blast
qed

theorem top_module_routes_witness:
  "\<exists>es t rows u. reset_rows (at_object 5 ex_top_env) 13 ex_code ''top'' ex_broker_handle 3 13 0 ex_top_world = (Ret es, t)
    \<and> open_at 0 128 5 t
    \<and> bindM (read_addr_size (at_object 6 ex_top_env) 13 ex_ints 1 2)
        (\<lambda>addrSize. fill_rows (at_object 6 ex_top_env) 13 ex_ints 2 addrSize 13 0) t = (Ret rows, u)
    \<and> (\<exists>w. search_rows (at_object 6 ex_top_env) 13 ex_ints rows 200 u = (Ret (Some 1), w))
    \<and> (\<exists>w. search_rows (at_object 6 ex_top_env) 13 ex_ints rows 600 u = (Ret None, w))"
proof -
  let ?pres = "presets_of ex_top_env ex_top_broker" and ?base = "\<lambda>j. 4 + j :: pid"
  have el: "elaborating ex_top_env 0 ?pres (\<Union>j \<in> {0 ..< 2}. row_names ex_top_env 6 j) ex_top_world"
    by (simp add: elaborating_def ex_top_world_def only_global_def ex_world_def ex_top_broker_def empty_broker_def broker_inv_def
        get_orig_param_def sorted_map_Cons map_keys_def row_names_def ex_names)
  have r: "brokers ex_top_world 0 = Some ex_top_broker" by (simp add: ex_top_world_def)
  have lk: "locked ex_top_broker = {entry_name ex_top_env 6 ''r_sa_'' (Suc 0)}"
    by (simp add: ex_top_broker_def ex_names snprintf_def show_nat_1)
  have "?pres (entry_name ex_top_env 6 ''r_sa_'' (Suc 0)) = Some 128"
    by (simp add: presets_of_def ex_top_broker_def empty_broker_def consuming_has_preset_value_def consuming_get_preset_cci_value_def
        ex_names snprintf_def show_nat_1)
  moreover have "entry_name ex_top_env 6 kind i = entry_name ex_top_env 6 ''r_sa_'' (Suc 0) \<longleftrightarrow> kind = ''r_sa_'' \<and> i = Suc 0"
    if "kind \<in> {''r_index_'', ''r_sa_'', ''r_ea_''}" "i < 2" for kind i
    using entry_name_inj [of i "Suc 0" kind "''r_sa_''" ex_top_env 6] that by simp
  ultimately have locks: "locks_agree ex_top_env 6 (locked ex_top_broker) int 2 ?pres"
    unfolding locks_agree_def lk by (auto simp: layout_def)
  have base: "get_orig_param (base_name ''top'' j) ex_top_broker = Some (?base j) \<and> (\<exists>v. open_at (int_type ex_code) v (?base j) ex_top_world)"
    if "j < 2" for j
  proof -
    have names: "base_name ''top'' 0 = ''top.target_0.s_base_addr''" "base_name ''top'' (Suc 0) = ''top.target_1.s_base_addr''"
      by (simp_all add: ex_names snprintf_def show_nat_0 show_nat_1)
    have found: "get_orig_param ''top.target_0.s_base_addr'' ex_top_broker = Some 4" "get_orig_param ''top.target_1.s_base_addr'' ex_top_broker = Some 5"
      by (simp_all add: get_orig_param_def ex_top_broker_def)
    have open_at: "open_at (int_type ex_code) 0 4 ex_top_world" "open_at (int_type ex_code) 0 5 ex_top_world"
      using ex_top_holds [of 4 0] ex_top_holds [of 5 0] by (simp_all add: ex_code_def)
    from that consider "j = 0" | "j = Suc 0" by linarith
    then show ?thesis
    proof cases
      case 1
      show ?thesis unfolding 1 names found using open_at(1) by (intro conjI exI [of _ 0]) simp_all
    next
      case 2
      show ?thesis unfolding 2 names found using open_at(2) by (intro conjI exI [of _ 0]) simp_all
    qed
  qed
  have laws: "bus_laws ex_top_env ex_code int"
    by (simp add: bus_laws_def ex_code_def ex_digits_show ex_top_env_def ex_env_def ex_ints_def unsigned_of_nat take_bit_nat_eq_self)
  have names: "systemc_names ex_top_env" using ex_env_names [of True] by (simp add: ex_top_env_def systemc_names_def)
  have ob: "inside ex_top_env 6 6" by (simp add: inside_def ex_top_env_def ex_env_def)
  have counts: "holds 3 0 2 ex_top_world" "holds 2 0 2 ex_top_world" "holds 1 0 1024 ex_top_world"
    using ex_top_holds [of 3 2] ex_top_holds [of 2 2] ex_top_holds [of 1 1024] by simp_all
  have ints: "int_of (ints ex_code) 2 = int 2" "unat (uint_of (ints ex_code) 1024) < 2 ^ 31" by (simp_all add: ex_code_def ex_ints_def)
  have rt: "sc_name ex_top_env 6 = ''top'' @ ''.RouterInstance''" by (simp add: ex_top_env_def)
  have top: "length ''top'' \<le> 24" "proper_name ''top''" by (simp_all add: proper_name_def c_str_def)
  have bh: "m_broker ex_broker_handle = 0" by (simp add: ex_broker_handle_def)
  have bases: "inj_on ?base {..< 2}" "{3, 2, 1} \<inter> ?base ` {..< 2} = {}" by (auto simp: inj_on_def)
  have num: "(0 :: nat) < 2" "(2 :: nat) \<le> 10" "(12 :: nat) < 13" by simp_all
  from top_module_routes [OF el ex_top_ok r locks base bases counts(1) ints(1) counts(2) ints(1) counts(3) ints(2) num bh laws names ob rt top, of 5]
  obtain es t rows u where t: "reset_rows (at_object 5 ex_top_env) 13 ex_code ''top'' ex_broker_handle 3 13 0 ex_top_world = (Ret es, t)"
    and moved: "\<forall>j < 2. open_at (int_type ex_code) (v_int ex_code (int (j * 128))) (4 + j) t"
    and u: "bindM (read_addr_size (at_object 6 ex_top_env) 13 (ints ex_code) 1 2)
        (\<lambda>addrSize. fill_rows (at_object 6 ex_top_env) 13 (ints ex_code) 2 addrSize 13 0) t = (Ret rows, u)"
    and search: "\<forall>addr. \<exists>w. search_rows (at_object 6 ex_top_env) 13 (ints ex_code) rows addr u
        = (Ret (if unat addr < 2 * 128 then Some (of_nat (unat addr div 128)) else None), w)" by blast
  have "open_at 0 128 5 t" using moved [rule_format, of 1] by (simp add: ex_code_def)
  moreover have "ints ex_code = ex_ints" by (simp add: ex_code_def)
  moreover have "\<exists>w. search_rows (at_object 6 ex_top_env) 13 (ints ex_code) rows 200 u = (Ret (Some 1), w)"
    "\<exists>w. search_rows (at_object 6 ex_top_env) 13 (ints ex_code) rows 600 u = (Ret None, w)"
    using search [rule_format, of 200] search [rule_format, of 600] by simp_all
  ultimately show ?thesis using t u by auto
qed
end
