(* ===== verification/Hiding.thy ===== *)
theory Hiding
  imports Router_Top Param_Range
begin

text \<open>
  Private brokers (src/examples/cci/ex14_Hiding_Parameters): a module registers a broker for what is
  inside of it and exposes some names. Parameters of the other names are known to that broker only,
  also to their preset values. The modules of the example, and what their broker hides.
\<close>

section \<open>The modules of example 14\<close>

text \<open>\<open>lit\<close> gives the values of type \<open>int\<close>, whose type is \<open>T\<close>.\<close>

definition new_ex14_int :: "('v, 'j) env \<Rightarrow> nat \<Rightarrow> tid \<Rightarrow> string \<Rightarrow> 'v \<Rightarrow> ('v, 'j, pid) cci" where
  "new_ex14_int E N T nm v = new_member E N CCI_MUTABLE_PARAM T nm v"

text \<open>\<open>ex14_child\<close>: the constructor, which shows whether its broker is private, the names and the values.\<close>

record child_module =
  child_broker :: broker_handle
  priv_int_param :: pid
  pub_int_param :: pid

definition child_constructor :: "('v, 'j) env \<Rightarrow> nat \<Rightarrow> tid \<Rightarrow> (int \<Rightarrow> 'v)
    \<Rightarrow> ('v, 'j, child_module \<times> bool \<times> (string \<times> 'v) list) cci" where
  "child_constructor E N T lit =
     bindM (cci_get_broker E N) (\<lambda>bh.
     bindM (new_ex14_int E N T ''priv_int_param'' (lit 100)) (\<lambda>priv.
     bindM (new_ex14_int E N T ''pub_int_param'' (lit 150)) (\<lambda>pub.
     bindM (read_broker (m_broker bh) is_global_broker) (\<lambda>global.
     bindM (read_param priv param_name) (\<lambda>nm1. bindM (get_value E (runner E N) N priv) (\<lambda>v1.
     bindM (read_param pub param_name) (\<lambda>nm2. bindM (get_value E (runner E N) N pub) (\<lambda>v2.
       retM (\<lparr>child_broker = bh, priv_int_param = priv, pub_int_param = pub\<rparr>, \<not> global, [(nm1, v1), (nm2, v2)])))))))))"

text \<open>
  The threads show the parameters that they see. The child keeps the handles for all of its turns; the
  parent and the configurator ask for them in each.
\<close>

definition show_names :: "('v, 'j) env \<Rightarrow> hid list \<Rightarrow> ('v, 'j, string list) cci" where
  "show_names E hs = for_each hs (\<lambda>h. handle_query E h param_name)"

definition child_turn :: "('v, 'j) env \<Rightarrow> nat \<Rightarrow> pid \<Rightarrow> hid list \<Rightarrow> ('v, 'j, string list \<times> string \<times> 'v) cci" where
  "child_turn E N priv child_param_list =
     bindM (show_names E child_param_list) (\<lambda>nms.
     bindM (read_param priv param_name) (\<lambda>nm. bindM (get_value E (runner E N) N priv) (\<lambda>v. retM (nms, nm, v))))"

definition parent_turn :: "('v, 'j) env \<Rightarrow> nat \<Rightarrow> broker_handle \<Rightarrow> ('v, 'j, string list) cci" where
  "parent_turn E N bh = scoped (handle_broker_get_param_handles E N bh) (\<lambda>hs. hs) (show_names E)"

text \<open>\<open>ex14_parent\<close>: \<open>bind\<close> is the functor of the callback for the handle that is bound to it.\<close>

record parent_module =
  parent_broker :: broker_handle
  child_inst :: child_module
  parent_int_param :: pid
  parent_buffer :: pid
  child_param_handle :: hid

definition parent_constructor :: "('v, 'j) env \<Rightarrow> nat \<Rightarrow> string \<Rightarrow> sc_object \<Rightarrow> tid \<Rightarrow> (int \<Rightarrow> 'v) \<Rightarrow> (hid \<Rightarrow> cb_id)
    \<Rightarrow> ('v, 'j, parent_module) cci" where
  "parent_constructor E N nm child T lit bind =
     bindM (cci_get_broker E N) (\<lambda>bh.
     bindM (child_constructor (at_object child E) N T lit) (\<lambda>(c, _).
     bindM (new_ex14_int E N T ''parent_int_param'' (lit 300)) (\<lambda>i.
     bindM (new_ex14_int E N T ''parent_int_buffer'' (lit 350)) (\<lambda>buffer.
     bindM (default_originator E) (\<lambda>og.
     bindM (alloc_handle None og) (\<lambda>h.
     thenM (get_value E (runner E N) N i)
     (thenM (scoped (handle_broker_get_param_handle N bh (nm @ ''.child_inst.priv_int_param'')) (\<lambda>t. [t]) (assign_handle h))
     (bindM (read_handle h is_valid) (\<lambda>valid.
      thenM (if valid then
               bindM (copy_handle E h) (\<lambda>g.
               thenM (dispatch_param E (runner E N) N buffer (Register_callback Post_write (post_write_functor (bind g)))) skipM)
             else skipM)
      (thenM (get_value E (runner E N) N buffer)
      (retM \<lparr>parent_broker = bh, child_inst = c, parent_int_param = i, parent_buffer = buffer, child_param_handle = h\<rparr>)))))))))))"

text \<open>\<open>ex14_private\<close>: the private broker, the names that it exposes, and the parent inside of it.\<close>

definition private_constructor :: "('v, 'j) env \<Rightarrow> nat \<Rightarrow> string \<Rightarrow> sc_object \<Rightarrow> sc_object \<Rightarrow> tid \<Rightarrow> (int \<Rightarrow> 'v) \<Rightarrow> (hid \<Rightarrow> cb_id)
    \<Rightarrow> ('v, 'j, bid \<times> parent_module) cci" where
  "private_constructor E N nm parent child T lit bind =
     bindM (new_broker E N ''My Private Broker'') (\<lambda>pbroker.
     thenM (upd_broker pbroker (expose_name ''Top.private.parent_inst.parent_int_buffer''))
     (thenM (upd_broker pbroker (expose_name ''Top.private.parent_inst.child_inst.pub_int_param''))
     (thenM (register_broker E pbroker)
     (bindM (parent_constructor (at_object parent E) N nm child T lit bind) (\<lambda>p. retM (pbroker, p))))))"

text \<open>\<open>ex14_configurator\<close>: the constructor, and a turn of its thread.\<close>

definition cfgr_constructor :: "('v, 'j) env \<Rightarrow> nat \<Rightarrow> ('v, 'j, broker_handle \<times> hid \<times> (string \<times> 'j) option) cci" where
  "cfgr_constructor E N =
     bindM (cci_get_broker E N) (\<lambda>bh.
     bindM (default_originator E) (\<lambda>og.
     bindM (alloc_handle None og) (\<lambda>h.
     thenM (scoped (handle_broker_get_param_handle N bh ''Top.private.parent_inst.parent_int_buffer'') (\<lambda>t. [t]) (assign_handle h))
     (bindM (read_handle h is_valid) (\<lambda>valid.
      bindM (if valid then bindM (handle_query E h param_name) (\<lambda>nm.
               bindM (handle_get_cci_value E (runner E N) N h) (\<lambda>x. retM (Some (nm, x)))) else retM None) (\<lambda>shown.
      retM (bh, h, shown)))))))"

definition cfgr_turn :: "('v, 'j) env \<Rightarrow> nat \<Rightarrow> broker_handle \<Rightarrow> hid \<Rightarrow> 'j \<Rightarrow> ('v, 'j, string list \<times> string \<times> 'j) cci" where
  "cfgr_turn E N bh h thousand =
     scoped (handle_broker_get_param_handles E N bh) (\<lambda>hs. hs) (\<lambda>cfgr_param_list.
     bindM (show_names E cfgr_param_list) (\<lambda>nms.
     thenM (handle_set_cci_value E (runner E N) N h thousand None)
     (bindM (handle_query E h param_name) (\<lambda>nm. bindM (handle_get_cci_value E (runner E N) N h) (\<lambda>x. retM (nms, nm, x))))))"

section \<open>What a private broker hides\<close>

text \<open>The broker \<open>b\<close> is private: its operations on the names that it exposes go to \<open>g\<close>, which is global.\<close>

definition private_of :: "('v, 'j) world \<Rightarrow> bid \<Rightarrow> 'j broker \<Rightarrow> bid \<Rightarrow> 'j broker \<Rightarrow> bool" where
  "private_of s b rb g rg \<longleftrightarrow> brokers s b = Some rb \<and> brokers s g = Some rg \<and> b \<noteq> g
     \<and> b_forwarding rb \<and> has_parent rb \<and> m_parent rb = g \<and> \<not> has_parent rg"

text \<open>The broker that keeps a name.\<close>

definition keeper :: "bid \<Rightarrow> 'j broker \<Rightarrow> bid \<Rightarrow> string \<Rightarrow> bid" where
  "keeper b rb g nm = (if nm \<in> expose rb then g else b)"

lemma private_resolve:
  assumes "private_of s b rb g rg" and "brokers t b = Some rb'" "brokers t g = Some rg'"
    and "b_forwarding rb' = b_forwarding rb" "has_parent rb' = has_parent rb" "m_parent rb' = m_parent rb" "expose rb' = expose rb"
      "has_parent rg' = has_parent rg"
  shows "resolve (Suc (Suc n)) b nm t = (Ret (keeper b rb g nm), t)"
  using assms by (simp add: private_of_def sendToParent_def is_global_broker_def keeper_def)

lemma init_forwarded:
  fixes s :: "('v, 'j) world"
  assumes p: "params s i = Some p" "write_quiet p" and c: "brokers s c = Some r" "get_orig_param (param_name p) r = None" "m_create_callbacks r = []"
    and to: "\<And>t :: ('v, 'j) world. brokers t = brokers s \<Longrightarrow> resolve (Suc n) b (param_name p) t = (Ret c, t)"
    and conv: "consuming_has_preset_value (param_name p) r \<Longrightarrow>
      unpack E (p_type p) (consuming_get_preset_cci_value E (param_name p) r) = (True, u)"
  shows "init E run (Suc n) b i s = (Ret (), map_broker c (\<lambda>r. use_preset (param_name p) (register_param (param_name p) i r))
    (if consuming_has_preset_value (param_name p) r
     then map_param i (write_param u (consuming_get_preset_value_origin (param_name p) r)) s else s))"
proof -
  let ?nm = "param_name p"
  let ?t = "if consuming_has_preset_value ?nm r then map_param i (write_param u (consuming_get_preset_value_origin ?nm r)) s else s"
  have "resolve (Suc n) b ?nm s = (Ret c, s)" by (rule to) (rule refl)
  note at_c = forward_at [OF this]
  have origin: "get_value_origin_by_name (Suc n) b ?nm s = (Ret (consuming_get_preset_value_origin ?nm r), s)"
    using c by (simp add: get_value_origin_by_name_def at_c consuming_get_value_origin_def consuming_get_preset_value_origin_def del: forward.simps split: option.split)
  obtain q where q: "params ?t i = Some q" "param_name q = ?nm"
    using p(1) by (cases "consuming_has_preset_value ?nm r") (auto simp: write_param_def param_name_def)
  have t: "brokers ?t = brokers s" by simp
  have "add_param run (Suc n) b i ?t = consuming_add_param run (Suc n) i c ?t"
    unfolding add_param_def using q forward_at [OF to [of ?t, OF t], of "consuming_add_param run (Suc n) i"] by (simp add: bindM_def the_param_def del: forward.simps)
  also have "\<dots> = (Ret (), map_broker c (\<lambda>r. use_preset ?nm (register_param ?nm i r)) ?t)"
    using add_param_quiet [OF q(1), of c r run n] q(2) c t by simp
  finally have add: "add_param run (Suc n) b i ?t = (Ret (), map_broker c (\<lambda>r. use_preset ?nm (register_param ?nm i r)) ?t)" .
  show ?thesis
  proof (cases "consuming_has_preset_value ?nm r")
    case True
    with p origin add c preset_quiet [OF p conv [OF True], of run n "consuming_get_preset_value_origin ?nm r"] show ?thesis
      by (simp add: init_def Let_def bindM_def has_preset_value_def get_preset_cci_value_def at_c del: forward.simps)
  next
    case False
    with p add c show ?thesis by (simp add: init_def Let_def bindM_def has_preset_value_def at_c del: forward.simps)
  qed
qed

text \<open>
  C20. A private broker hides what it does not expose. A parameter that is built at an object \<open>ob\<close> of the
  hierarchy, for which the private broker \<open>b\<close> is responsible, under a name that is free, is kept by one
  broker: the global one if \<open>b\<close> exposes its full name, otherwise \<open>b\<close>. It takes the preset value that this
  broker has for the name and none that the other one has. Asking \<open>b\<close> gives a handle to it in any
  case; the global broker gives a valid handle, and lists the parameter, only if the name is exposed.
\<close>

theorem hidden_parameters:
  fixes E :: "('v, 'j) env"
  assumes pr: "private_of s b rb g rg" and gov: "find_broker (at_object ob E) N (Some ob) s = (Ret b, s)" and ob: "\<not> is_process E ob"
    and E: "systemc_names E" and full: "full = sc_name E ob @ ''.'' @ nm" "proper_name full" "full \<notin> sc_names s"
    and new: "\<And>r. r \<in> {rb, rg} \<Longrightarrow> get_orig_param full r = None \<and> m_create_callbacks r = []"
    and rc: "brokers s (keeper b rb g full) = Some rc"
    and conv: "consuming_has_preset_value full rc \<Longrightarrow> unpack E T (consuming_get_preset_cci_value E full rc) = (True, u)" and N: "2 < N"
  shows "\<exists>i t. new_member (at_object ob E) N TM T nm v s = (Ret i, t)
    \<and> map_option m_value (params t i) = Some (if consuming_has_preset_value full rc then u else v)
    \<and> (\<forall>og. get_param_handle N b full og t = (Ret (next_address t), new_handle (Some i) og t))
    \<and> (\<forall>og. get_param_handle N g full og t
        = (Ret (next_address t), new_handle (if full \<in> expose rb then Some i else None) og t))
    \<and> map_option (\<lambda>r. full \<in> map_keys (m_param_registry r)) (brokers t g) = Some (full \<in> expose rb)"
proof -
  obtain n where n: "N = Suc (Suc (Suc n))" using N by (metis less_imp_Suc_add add_2_eq_Suc)
  let ?E = "at_object ob E" and ?og = "\<lparr>m_originator_obj = Some ob, m_originator_str = None\<rparr>" and ?i = "next_address s" and ?c = "keeper b rb g full"
  let ?p = "fresh_param full [] (create_broker_handle b (promoted ?E ?og)) ?og T TM v :: ('v, 'j) param"
  let ?s1 = "s\<lparr>sc_names := insert full (sc_names s)\<rparr>"
  let ?s2 = "install_param ?p ?s1"
  let ?has = "consuming_has_preset_value full rc"
  let ?s3 = "if ?has then map_param ?i (write_param u (consuming_get_preset_value_origin full rc)) ?s2 else ?s2"
  let ?t = "map_broker ?c (\<lambda>r. use_preset full (register_param full ?i r)) ?s3"
  have b: "brokers s b = Some rb" "brokers s g = Some rg" "b \<noteq> g" "has_parent rb" "b_forwarding rb" "m_parent rb = g" "\<not> has_parent rg"
    using pr by (simp_all add: private_of_def)
  have rc': "rc \<in> {rb, rg}" using rc b by (auto simp: keeper_def split: if_splits)
  have p: "params ?s2 ?i = Some ?p" "write_quiet ?p" "param_name ?p = full" "p_type ?p = T"
    using full(2) by (simp_all add: install_param_def write_quiet_def fresh_param_def callbacks_of.simps Lifecycle.no_callbacks_def
        param_name_def proper_name_def)
  have c2: "brokers ?s2 ?c = Some rc" using rc by (simp add: install_param_def)
  have init: "init ?E (runner ?E N) N b ?i ?s2 = (Ret (), ?t)"
    unfolding n
  proof (subst init_forwarded [where r = rc and c = ?c and u = u, OF p(1,2) c2])
    show "resolve (Suc (Suc (Suc n))) b (param_name ?p) t = (Ret ?c, t)" if "brokers t = brokers ?s2" for t
      using private_resolve [OF pr, of t rb rg "Suc n" full] that b by (simp add: install_param_def p(3))
    show "unpack ?E (p_type ?p) (consuming_get_preset_cci_value ?E (param_name ?p) rc) = (True, u)"
      if "consuming_has_preset_value (param_name ?p) rc"
      using conv that p(3,4)
      by (simp add: consuming_get_preset_cci_value_def at_object_def cong: option.case_cong)
  qed (use new rc' p(3) in simp_all)
  have find: "find_broker_convenience ?E N ?og s = (Ret (create_broker_handle b ?og), s)"
    using gov by (simp add: find_broker_convenience_def cci_get_broker_def get_broker_def bindM_def default_originator_inside)
  have name: "param_full_name ?E N nm CCI_RELATIVE_NAME s = (Ret full, s)"
    unfolding n using ob full(1) by (simp add: param_full_name_def bindM_def)
  have choose: "choose_name ?E N b full s = (Ret full, ?s1)"
    by (rule choose_name_free) (use E full in simp_all)
  have made: "new_member ?E N TM T nm v s = (Ret ?i, ?t)"
    unfolding new_member_def new_param_def construct_param_def
    by (subst bindM_Ret, rule default_originator_inside, simp)
      (use find name choose init in \<open>simp add: bindM_def promote_run create_broker_handle_def on_exception_def\<close>)
  have val: "map_option m_value (params ?t ?i) = Some (if ?has then u else v)"
    using p(1) by (simp add: write_param_def fresh_param_def)
  let ?new = "use_preset full (register_param full ?i rc)"
  have same: "has_parent ?new = has_parent rc" "b_forwarding ?new = b_forwarding rc" "m_parent ?new = m_parent rc" "expose ?new = expose rc"
    "get_orig_param full ?new = Some ?i"
    using new rc' by (auto simp: use_preset_def register_param_def get_orig_param_def split: option.split)
  from this(5) have key: "full \<in> map_keys (m_param_registry ?new)" unfolding get_orig_param_def by (rule map_find_Some_key)
  have other: "full \<notin> map_keys (m_param_registry r)" if "r \<in> {rb, rg}" for r
    using new [OF that] by (simp add: get_orig_param_def map_find_None_iff)
  have alive: "\<exists>q. params ?t ?i = Some q" using p(1) by simp
  then have handle: "handle_to ?i og ?t = (Ret (next_address ?t), new_handle (Some ?i) og ?t)" for og
    by (auto simp: handle_to_def alloc_handle_def)
  have at_c: "brokers ?t ?c = Some ?new" using c2 by (simp add: install_param_def)
  have off_c: "brokers ?t d = brokers s d" if "d \<noteq> ?c" for d using that by (simp add: install_param_def)
  obtain t where t: "?t = t" by blast
  note made = made [unfolded t] and val = val [unfolded t] and handle = handle [unfolded t] and at_c = at_c [unfolded t] and off_c = off_c [unfolded t]
  show ?thesis
  proof (cases "full \<in> expose rb")
    case True
    then have c: "?c = g" "rc = rg" using rc b by (simp_all add: keeper_def)
    have r: "brokers t b = Some rb" "brokers t g = Some ?new" using at_c off_c [of b] b c by simp_all
    have "get_param_handle N b full og t = (Ret (next_address t), new_handle (Some ?i) og t)"
      "get_param_handle N g full og t = (Ret (next_address t), new_handle (Some ?i) og t)" for og
      unfolding n using r b same c True handle
      by (simp_all add: sendToParent_def is_global_broker_def consuming_get_param_handle_def)
    with made val r(2) key True c(2) show ?thesis by (intro exI [of _ ?i] exI [of _ t]) simp
  next
    case False
    then have c: "?c = b" "rc = rb" using rc b by (simp_all add: keeper_def)
    have r: "brokers t b = Some ?new" "brokers t g = Some rg" using at_c off_c [of g] b c by simp_all
    have "get_param_handle N b full og t = (Ret (next_address t), new_handle (Some ?i) og t)"
      "get_param_handle N g full og t = (Ret (next_address t), new_handle None og t)" for og
      unfolding n using r b same c False handle new [of rg]
      by (simp_all add: sendToParent_def is_global_broker_def consuming_get_param_handle_def alloc_handle_def)
    with made val r(2) other [of rg] False c(2) show ?thesis by (intro exI [of _ ?i] exI [of _ t]) simp
  qed
qed

text \<open>
  An instance: the module \<open>top\<close> has a private broker that exposes \<open>top.b\<close>; the preset value 7 that the global
  broker has for \<open>top.a\<close> does not reach the parameter of that name.
\<close>

definition ex_hiding :: "(int, int) world" where
  "ex_hiding = ex_world\<lparr>params := Map.empty, m_brokers := [None \<mapsto> 0, Some 5 \<mapsto> 1], sc_names := {}, next_address := 2,
     brokers := [0 \<mapsto> (empty_broker ''g'')\<lparr>b_forwarding := True, m_unused_value_registry := [(''top.a'', 7)],
                     m_preset_value_originator_map := [(''top.a'', ex_other)]\<rparr>,
                 1 \<mapsto> (empty_broker ''p'')\<lparr>b_forwarding := True, has_parent := True, m_parent := 0, expose := {''top.b''}\<rparr>]\<rparr>"

theorem hidden_parameters_witness:
  "\<exists>i t. new_member (at_object 5 (ex_env True)) 3 CCI_MUTABLE_PARAM 0 ''a'' 3 ex_hiding = (Ret i, t) \<and> map_option m_value (params t i) = Some 3
    \<and> get_param_handle 3 1 ''top.a'' ex_other t = (Ret (next_address t), new_handle (Some i) ex_other t)
    \<and> get_param_handle 3 0 ''top.a'' ex_other t = (Ret (next_address t), new_handle None ex_other t)"
proof -
  let ?rb = "(empty_broker ''p'')\<lparr>b_forwarding := True, has_parent := True, m_parent := 0, expose := {''top.b''}\<rparr> :: int broker"
  let ?rg = "(empty_broker ''g'')\<lparr>b_forwarding := True, m_unused_value_registry := [(''top.a'', 7)],
    m_preset_value_originator_map := [(''top.a'', ex_other)]\<rparr> :: int broker"
  have pr: "private_of ex_hiding 1 ?rb 0 ?rg" by (simp add: private_of_def ex_hiding_def empty_broker_def)
  have gov: "find_broker (at_object 5 (ex_env True)) 3 (Some 5) ex_hiding = (Ret 1, ex_hiding)"
    by (simp add: ex_hiding_def numeral_3_eq_3)
  have ob: "\<not> is_process (ex_env True) 5" and full: "''top.a'' = sc_name (ex_env True) 5 @ ''.'' @ ''a''" by (simp_all add: ex_env_def)
  have proper: "proper_name ''top.a''" "''top.a'' \<notin> sc_names ex_hiding" by (simp_all add: proper_name_def c_str_def ex_hiding_def)
  have new: "get_orig_param ''top.a'' r = None \<and> m_create_callbacks r = []" if "r \<in> {?rb, ?rg}" for r
    using that by (auto simp: get_orig_param_def empty_broker_def)
  have rc: "brokers ex_hiding (keeper 1 ?rb 0 ''top.a'') = Some ?rb" by (simp add: keeper_def ex_hiding_def)
  have none: "\<not> consuming_has_preset_value ''top.a'' ?rb" by (simp add: consuming_has_preset_value_def empty_broker_def)
  then have conv: "consuming_has_preset_value ''top.a'' ?rb \<Longrightarrow> unpack (ex_env True) 0 (consuming_get_preset_cci_value (ex_env True) ''top.a'' ?rb) = (True, 0)"
    by simp
  show ?thesis
    using hidden_parameters [OF pr gov ob ex_env_names full proper new rc conv, of CCI_MUTABLE_PARAM 3] none by auto
qed

end
