(* ===== verification/Spec2Isabelle.thy ===== *)
theory Spec2Isabelle
  imports Prelude Std_Map Report Originator Cci_State Objects Callback_Lists Param_Untyped Consuming_Broker Broker Param_Typed Name_Gen Broker_Manager Param_Handle Lifecycle Client Client_Relation Param_Protocol World_Invariants Fuel Param_Spec Examples Client_Properties Param_Properties Broker_Protocol Broker_Properties Registry_Properties Json_Interface Value_State Cci_Value Value_List Value_Map Value_Wrapper Value_Ownership Value_Converter Converter_Laws Converter_Sequences Systemc_Converters Filtered_Range Value_Properties Callback_Objects Callback_Counts Callback_Runs Callback_Properties Value_Env Config_File Config_Laws Config_Properties Route_Table Broker_Life Handle_View Param_Sync Sync_Setup Sync_Properties Lock_Threads Steady_Params Handle_Blocks Param_Range Param_Search Param_Life Router Router_Table Router_Top Bus_Presets Hiding
begin

text \<open>
  The SystemC CCI library (Configuration, Control and Inspection), as it is under src/src/cci:
  named parameters with a typed value, brokers that know the parameters and keep preset values
  for parameters that do not exist yet, handles through which tools reach both, and callbacks
  by which tools watch and veto what happens to a parameter.

  \<^bold>\<open>The program and its parts.\<close> A \<open>cci_param_typed<T,TM>\<close> is built with a name and an owner
  (\<open>cci_originator\<close>). Its constructor chooses a unique name (\<open>cci_name_gen\<close>), finds its broker
  (\<open>cci_broker_manager\<close>), takes over a preset value and enters itself in the registry of the
  broker (\<open>cci_param_if::init\<close>, \<open>consuming_broker::add_param\<close>), which runs create callbacks.
  Every write passes an access check (mutability, lock), the pre-write callbacks, which may
  reject it, and the post-write callbacks; two flags let owners skip all that when it has no
  effect. Handles are listed by their parameter, which invalidates them when it is destroyed.
  A \<open>broker\<close> forwards the operations on the names it exposes to the broker above it. Callbacks
  are user code and may call back into all of this. Values cross these interfaces as
  \<open>cci_value\<close>, a JSON value of the RapidJSON library behind references, lists, maps and owning
  objects, into which converters pack the values of C++ and SystemC types.

  \<^bold>\<open>The model.\<close> \<open>Cci_State\<close> holds the data: a \<open>param\<close>, a \<open>handle\<close>, a \<open>broker\<close> per object, with
  the fields of the classes, in finite maps from addresses (\<open>world\<close>). An operation is a function
  from a world to an outcome and a world (\<open>Prelude\<close>): \<open>Ret\<close>, a thrown \<open>Exc\<close>, \<open>Abort\<close> (the end of
  the process, or an access that is undefined behaviour) or \<open>NoFuel\<close>. Destructors of locals run
  as scope guards, also on exceptions.

    \<^item> \<open>Prelude\<close>, \<open>Std_Map\<close>: outcomes and computations, relations kept by computations, the order
      on computations by fuel; \<open>std::map\<close> as a sorted association list.
    \<^item> \<open>Report\<close> (cci_report_handler), \<open>Originator\<close> (cci_originator), \<open>Name_Gen\<close> (cci_name_gen).
    \<^item> \<open>Objects\<close>: objects by address, the life of handles and the list of handles of a parameter.
    \<^item> \<open>Callback_Lists\<close>: what the callback lists of parameters and brokers share, as a locale.
    \<^item> \<open>Param_Untyped\<close>, \<open>Param_Typed\<close>, \<open>Param_Handle\<close>: cci_param_untyped, cci_param_typed and the
      two kinds of handles.
    \<^item> \<open>Consuming_Broker\<close>, \<open>Broker\<close>, \<open>Broker_Manager\<close>: the brokers of cci_utils and the registry.
    \<^item> \<open>Lifecycle\<close>: construction and destruction of parameters, with what brokers do then, and the
      destruction of brokers, which leaves the registry as it is (\<open>Broker_Life\<close>).
    \<^item> \<open>Client\<close>: user code as a tree of calls of the library (\<open>call\<close>, \<open>prog\<close>), \<open>dispatch\<close> for one
      call and \<open>exec\<close> for a program, which also runs the callbacks. A program may catch exceptions
      (\<open>P_try\<close>), fail an assertion (\<open>P_abort\<close>), and destroy parameters, handles and brokers; one that
      destroys no broker satisfies \<open>spares_brokers\<close>.
    \<^item> \<open>Client_Relation\<close>, \<open>Param_Protocol\<close>, \<open>Broker_Protocol\<close>, \<open>World_Invariants\<close>: the steps of one
      parameter and of one broker as inductive relations, and the locales by which a relation
      that holds across these steps holds across every run of every program (\<open>client_relation\<close>), or of
      those that destroy no broker (\<open>library_relation\<close>); interpreted on
      the identity of a parameter, the flags of the fast paths, the agreement of handles and
      parameters, the well-formedness of brokers, the locks of preset values and the registries.
    \<^item> \<open>Fuel\<close>: more fuel changes no outcome.
    \<^item> \<open>Param_Spec\<close>, \<open>Lock_Interface\<close>: what reading, writing, locking and \<open>reset\<close> do on every branch;
      the lock as an interface.
    \<^item> \<open>Client_Properties\<close>, \<open>Param_Properties\<close>, \<open>Broker_Properties\<close>, \<open>Registry_Properties\<close>: the
      properties, with an instance of each (\<open>Examples\<close>).
    \<^item> \<open>Json_Interface\<close>: what the code uses of RapidJSON, as a record of functions and a locale of
      their laws, with paths to the values inside a value; an instance of both.
    \<^item> \<open>Value_State\<close>, \<open>Cci_Value\<close>, \<open>Value_List\<close>, \<open>Value_Map\<close>, \<open>Value_Wrapper\<close>: cci_value.h,
      cci_value.cpp and cci_value_iterator.h. The pool maps addresses to JSON values; a reference
      (\<open>pimpl_\<close>) is an address with a path, or NULL; an owning object is a \<open>wrapper\<close>.
    \<^item> \<open>Value_Ownership\<close>: the invariant of the pool, kept by every call, and so by every sequence of
      calls (\<open>run_values\<close>).
    \<^item> \<open>Value_Converter\<close>, \<open>Systemc_Converters\<close>: cci_value_converter.h and .cpp, and the members of
      the values that use them. \<open>Converter_Laws\<close>, \<open>Converter_Sequences\<close>: what a converter must keep
      for \<open>set\<close> and \<open>get\<close> to be inverse, which converters keep it, and that those of arrays and
      vectors keep it if that of the elements does.
    \<^item> \<open>Filtered_Range\<close>: cci_filtered_range.h and the ranges that brokers return.
    \<^item> \<open>Value_Properties\<close>: the properties of values and ranges.
    \<^item> \<open>Value_Env\<close>: environments whose conversions are those of the converters, so that what is
      proved of converters holds of the values that parameters give and take.
    \<^item> \<open>Callback_Objects\<close>: cci_callback.h and cci_callback_impl.h, the objects of callbacks with
      their 32-bit reference counts, the adapters of generic callbacks, and the variables that point to
      them. An access to a destroyed object, a call with the wrong type and an access through NULL are
      faults, exceptions of this model. \<open>Callback_Counts\<close>, \<open>Callback_Runs\<close>: a count is the number of
      pointers to its object, which every operation keeps; \<open>Callback_Properties\<close>: the properties
      for every sequence of calls, and that a typed handle, also one of an adapter, is what
      \<open>Param_Typed\<close> takes it for. A call of an object answers which functor runs with which event; the
      functor's body is not run there.
    \<^item> \<open>Config_File\<close>: the tools of examples 17 and 18 that read a file and set presets, with
      \<open>std::string\<close> searches and \<open>std::ifstream::getline\<close> as functions on lists; \<open>Config_Laws\<close> shows
      what these compute and gives the format of a line as relations of its own (\<open>line_means\<close>),
      \<open>Config_Properties\<close> that lines are read so and that a written file is read back and becomes presets.
    \<^item> \<open>Route_Table\<close>: the type of example 16 with its own converter, which keeps the contract of
      \<open>Converter_Laws\<close>.
    \<^item> \<open>Handle_View\<close>: a view of the world for user code that copies and destroys handles: the parameters
      without their lists of handles, and the handles that it knows of, with triples for total
      correctness (\<open>runs\<close>, \<open>ends\<close>); \<open>Handle_Blocks\<close>: blocks of code with local handles (\<open>leaves\<close>,
      \<open>does\<close>); \<open>Steady_Params\<close>: parameters without callbacks (\<open>moves\<close>).
    \<^item> \<open>Param_Sync\<close>, \<open>Sync_Setup\<close>, \<open>Sync_Properties\<close>: examples 11 and 12, two parameters that are kept in
      step by callbacks which write the other one.
    \<^item> \<open>Lock_Threads\<close>: example 13, two threads that lock and write one parameter, with their turns in any
      order that obeys their waits.
    \<^item> \<open>Param_Range\<close>, \<open>Param_Search\<close>: ranges of handles with predicates that are programs, and the searches
      of examples 22 and 23 with them.
    \<^item> \<open>Param_Life\<close>: example 21, a parameter from its construction to its destruction and again.
    \<^item> \<open>Router\<close>, \<open>Router_Table\<close>, \<open>Router_Top\<close>, \<open>Bus_Presets\<close>: example 9, a bus whose router has its table in
      parameters with preset values, the memory of the targets behind it, and the module at the top,
      which sets the presets.
    \<^item> \<open>Hiding\<close>: example 14, a private broker, and what it hides.

  \<^bold>\<open>What is not in the repository\<close> is a field of the environment \<open>env\<close>: the current object and the
  hierarchy of SystemC, its registry of names and whether it throws a report; the conversion of
  typed values (\<open>pack\<close>, \<open>unpack\<close>); the functors of the user, each a program.
  The contents of a configuration file and the JSON parser are arguments of its reading.

  \<^bold>\<open>Fuel.\<close> One unit is spent per nested functor, per iteration of a callback loop (a callback may
  register further callbacks while the loop runs, so it need not end) and per step along
  parents. Parents are built before their children, so that the address of a broker bounds its
  chain (\<open>forwarding_reaches_one_broker\<close>); the loop that invalidates handles needs their number
  (\<open>invalidate_all_terminates\<close>); \<open>get_broker\<close> needs the depth of the hierarchy. By
  \<open>exec_fuel_monotone\<close> the fuel is no other restriction.

  \<^bold>\<open>What the properties show.\<close> For every program: the fast paths are sound, handles never
  dangle, the identity of a parameter stays, the databases of the brokers that live stay well formed
  (and the registry free of dead brokers as long as none is destroyed), a locked preset value of a
  broker that lives never changes. For single operations: when a write happens and what it
  changes, equivalence of the fast and the full paths, exclusion by locks, what \<open>reset\<close> and the
  construction of a parameter do with preset values, round trips of presets and of failures.
  Some state where the code departs from its documentation: \<open>unregister_all_callbacks\<close> skips
  neighbours, the fast write forgets the origin, a create callback that throws leaves a dead
  entry, the origin of an exposed preset is lost, the old name generator repeats a name.
  For values: each value of the pool has one owner whatever a program does, queries and
  categories agree, maps refine partial functions, assignment copies, converters of vectors are
  inverse, filtered ranges visit what a filter keeps, in both directions; and where a value
  leaks, is lost by an insertion, or is stored under a cut key.
  For the modules of the examples, which put the components to work: parameters in step stay equal
  after any writes, searches find exactly what their predicates keep, an update reaches every
  parameter of its name and no other, a handle dies with its parameter and a new one finds the
  parameter of the same name, and two threads that share a lock see the states of the golden log.
  The bus of example 9 is laid out by the presets of its top module, its default table divides the
  addresses evenly, and router and targets behave as one memory. A private broker keeps a parameter
  whose name it does not expose, and its preset value, from the global one.

  \<^bold>\<open>Limits.\<close> Copies that C++17 elides are not made. Events carry copies of the values, so that a
  callback that changes the value through a nested call sees the old one in its event. Not
  modelled: references into the value of a parameter, predicates with effects on preset values
  (those on handles are programs). The arithmetic of \<open>double\<close> is a parameter. SystemC's scheduler is not
  modelled: the order of the waits is written out for example 21, and an argument for example 13, with what
  the standard says of it as a hypothesis (\<open>obeys_waits\<close>). Keys of value maps have fewer than \<open>2 ^ 32\<close>
  characters, so that the conversion of their length to \<open>SizeType\<close> changes nothing. In examples 9 and 14 an exception of a constructor ends
  the program, and what is destroyed then is left out; the sockets of TLM are plain calls, and 13 units
  of fuel cover the loops over the ten targets for which the router has names. Destroyed callback objects keep their
  address, so that none is used twice, and counts are exact while fewer than \<open>2 ^ 32 - 8\<close> objects and variables exist.
  A reference is a position: after an element of a list has moved, a reference to its old
  position means what is there now, or an access that is undefined behaviour if nothing is.
  Copies and swaps of a value with a value inside it abort, since RapidJSON leaves them open. The
  capacity of lists is not part of the state. The stream operators read and write a string.
  The other examples (1 to 8, 10, 15, 19 and 20), which show single calls, the version macros and the configuration of RapidJSON are not modelled.
\<close>

end
